(* ===== verification/Nic_Prelude.thy ===== *)
theory Nic_Prelude
  imports Main "HOL-Library.Word" "HOL-Library.AList"
begin

text \<open>
  The prelude of the development: names for the C++ integer types, the collections of facts the
  component theories share, and generic lemmas on byte buffers, ring indices, words and
  association lists.

  Conventions used in every theory.
  \<^item> \<^verbatim>\<open>std::uintN_t\<close> is an \<open>N\<close>-bit word, so arithmetic wraps as in C++; \<^verbatim>\<open>std::byte\<close> is an
    8-bit word.
  \<^item> \<^verbatim>\<open>std::size_t\<close> is \<open>nat\<close> where it only measures or indexes a container, and a 64-bit word where
    the code adds or subtracts values that can wrap.
  \<^item> \<^verbatim>\<open>std::vector\<close>, \<^verbatim>\<open>std::span\<close> and \<^verbatim>\<open>std::deque\<close> are lists; \<^verbatim>\<open>std::optional\<close> is \<open>option\<close>.
  \<^item> \<^verbatim>\<open>std::unordered_map\<close> is an association list with distinct keys: its order stands for the
    iteration order, which C++ leaves unspecified, and the theorems hold for every order.
  \<^item> A method \<^verbatim>\<open>C::m\<close> is the definition \<open>C_m\<close>; it takes the object's state and returns the new one.
    Tracing (\<^verbatim>\<open>NIC_TRACE_SCOPED\<close>) and logging (\<^verbatim>\<open>NIC_LOGF_*\<close>) have no effect on the state.
\<close>

unbundle bit_operations_syntax

section \<open>Types\<close>

type_synonym u8 = "8 word"
type_synonym u16 = "16 word"
type_synonym u32 = "32 word"
type_synonym u64 = "64 word"
type_synonym byte = "8 word"
type_synonym bytes = "byte list"

section \<open>Collections of facts\<close>

named_theorems nic_defs \<open>definitions unfolded by the component proofs\<close>
named_theorems nic_inv \<open>each operation keeps its component's invariant\<close>
named_theorems nic_frame \<open>fields that an operation leaves unchanged\<close>

section \<open>Buffers\<close>

text \<open>\<open>subspan off n xs\<close> is the \<open>n\<close> elements from offset \<open>off\<close>; \<open>memcpy_at off ys xs\<close> overwrites the elements
  from \<open>off\<close> with \<open>ys\<close>, as \<^verbatim>\<open>memcpy\<close> into a buffer does.\<close>

definition subspan :: "nat \<Rightarrow> nat \<Rightarrow> 'a list \<Rightarrow> 'a list" where
  "subspan off n xs = take n (drop off xs)"

definition memcpy_at :: "nat \<Rightarrow> 'a list \<Rightarrow> 'a list \<Rightarrow> 'a list" where
  "memcpy_at off ys xs = take off xs @ ys @ drop (off + length ys) xs"

lemma length_subspan [simp]: "off + n \<le> length xs \<Longrightarrow> length (subspan off n xs) = n"
  by (simp add: subspan_def)

lemma length_memcpy_at [simp]: "off + length ys \<le> length xs \<Longrightarrow> length (memcpy_at off ys xs) = length xs"
  by (simp add: memcpy_at_def)

lemma subspan_0 [simp]: "subspan off 0 xs = []"
  by (simp add: subspan_def)

lemma memcpy_at_Nil [simp]: "memcpy_at off [] xs = xs"
  by (simp add: memcpy_at_def)

lemma nth_subspan: "i < n \<Longrightarrow> off + n \<le> length xs \<Longrightarrow> subspan off n xs ! i = xs ! (off + i)"
  by (simp add: subspan_def)

lemma nth_memcpy_at:
  assumes "off + length ys \<le> length xs" "i < length xs"
  shows "memcpy_at off ys xs ! i
    = (if off \<le> i \<and> i < off + length ys then ys ! (i - off) else xs ! i)"
proof -
  consider "i < off" | "off \<le> i" "i < off + length ys" | "off + length ys \<le> i"
    by linarith
  then show ?thesis
  proof cases
    case 1
    then show ?thesis using assms by (simp add: memcpy_at_def nth_append)
  next
    case 2
    then show ?thesis using assms by (simp add: memcpy_at_def nth_append) linarith
  next
    case 3
    then show ?thesis using assms by (auto simp: memcpy_at_def nth_append)
  qed
qed

lemma subspan_memcpy_at_same [simp]:
  "off + length ys \<le> length xs \<Longrightarrow> n = length ys \<Longrightarrow> subspan off n (memcpy_at off ys xs) = ys"
  by (simp add: subspan_def memcpy_at_def)

lemma subspan_memcpy_at_disjoint:
  assumes "off + length ys \<le> length xs" "o2 + n \<le> length xs"
    and "off + length ys \<le> o2 \<or> o2 + n \<le> off"
  shows "subspan o2 n (memcpy_at off ys xs) = subspan o2 n xs"
proof (rule nth_equalityI)
  show "length (subspan o2 n (memcpy_at off ys xs)) = length (subspan o2 n xs)"
    using assms by simp
  fix i assume "i < length (subspan o2 n (memcpy_at off ys xs))"
  then have "i < n" using assms by simp
  then show "subspan o2 n (memcpy_at off ys xs) ! i = subspan o2 n xs ! i"
    using assms by (auto simp: nth_subspan nth_memcpy_at)
qed

lemma memcpy_at_self: "off + n \<le> length xs \<Longrightarrow> memcpy_at off (subspan off n xs) xs = xs"
  by (simp add: memcpy_at_def subspan_def) (metis add.commute append_take_drop_id drop_drop)

lemma subspan_append:
  "subspan off n xs @ subspan (off + n) m xs = subspan off (n + m) xs"
  by (simp add: subspan_def take_add) (simp add: add.commute)

lemma memcpy_at_append:
  assumes "off + length ys + length zs \<le> length xs" "n = off + length ys"
  shows "memcpy_at n zs (memcpy_at off ys xs) = memcpy_at off (ys @ zs) xs"
  using assms by (simp add: memcpy_at_def add.commute add.left_commute)

section \<open>Ring buffers\<close>

text \<open>The queue held by a ring of \<open>n\<close> slots that starts at slot \<open>c\<close> and has \<open>k\<close> entries.\<close>

definition ring_list :: "(nat \<Rightarrow> 'a) \<Rightarrow> nat \<Rightarrow> nat \<Rightarrow> nat \<Rightarrow> 'a list" where
  "ring_list f n c k = map (\<lambda>i. f ((c + i) mod n)) [0..<k]"

lemma length_ring_list [simp]: "length (ring_list f n c k) = k"
  by (simp add: ring_list_def)

lemma ring_list_0 [simp]: "ring_list f n c 0 = []"
  by (simp add: ring_list_def)

lemma ring_slot_inj:
  assumes "i < k" "k < (n :: nat)"
  shows "(c + i) mod n \<noteq> (c + k) mod n"
proof
  assume "(c + i) mod n = (c + k) mod n"
  then have "n dvd (c + k) - (c + i)"
    using assms by (metis add_le_cancel_left less_imp_le mod_eq_dvd_iff_nat)
  then have "n dvd k - i" by simp
  then show False using assms nat_dvd_not_less [of "k - i" n] by simp
qed

lemma ring_list_cong:
  "(\<And>i. i < k \<Longrightarrow> f ((c + i) mod n) = g ((c + i) mod n)) \<Longrightarrow> ring_list f n c k = ring_list g n c k"
  by (simp add: ring_list_def)

lemma ring_list_push:
  assumes "k < n"
    and "g ((c + k) mod n) = x"
    and "\<And>j. j \<noteq> (c + k) mod n \<Longrightarrow> j < n \<Longrightarrow> g j = f j"
  shows "ring_list g n c (Suc k) = ring_list f n c k @ [x]"
proof -
  have "ring_list g n c k = ring_list f n c k"
    using assms ring_slot_inj [of _ k n c] by (intro ring_list_cong) auto
  then show ?thesis using assms(2) by (simp add: ring_list_def)
qed

lemma ring_list_pop:
  assumes "0 < k"
  shows "ring_list f n c k = f (c mod n) # ring_list f n ((c + 1) mod n) (k - 1)"
proof -
  have "[0..<k] = 0 # map Suc [0..<k - 1]"
    using assms by (metis Suc_diff_1 map_Suc_upt upt_conv_Cons)
  then show ?thesis
    by (simp add: ring_list_def comp_def mod_add_left_eq)
qed

text \<open>Advancing a 32-bit ring index: \<^verbatim>\<open>(index + 1) % ring_size\<close>.\<close>

definition ring_next :: "nat \<Rightarrow> u32 \<Rightarrow> u32" where
  "ring_next n p = of_nat (unat (p + 1) mod n)"

lemma unat_ring_next [simp]:
  assumes "unat p < n" "n < 2 ^ 32"
  shows "unat (ring_next n p) = (unat p + 1) mod n"
proof -
  have "unat (p + 1) = unat p + 1"
    using assms by (simp add: unat_word_ariths)
  moreover have "(unat p + 1) mod n < 2 ^ 32"
    using assms by (metis bot_nat_0.not_eq_extremum less_nat_zero_code mod_less_divisor order_less_trans)
  ultimately show ?thesis
    by (simp add: ring_next_def unat_of_nat)
qed

section \<open>Words\<close>

lemma unat_ucast_up:
  "LENGTH('a) \<le> LENGTH('b) \<Longrightarrow> unat (ucast (w :: 'a :: len word) :: 'b :: len word) = unat w"
  by (simp add: unsigned_ucast_eq take_bit_nat_eq_self order.strict_trans2 [OF unsigned_less])

lemma xor_cancel_right: "a XOR c = b XOR c \<longleftrightarrow> a = (b :: 'a :: len word)"
proof
  assume "a XOR c = b XOR c"
  then have "(a XOR c) XOR c = (b XOR c) XOR c" by simp
  then show "a = b" by (simp add: xor.assoc)
qed simp

lemma unat_byte_less: "unat (b :: 8 word) < 256"
  using unsigned_less [where 'a = nat, of b] by simp

lemma unat_u16_less: "unat (w :: 16 word) < 65536"
  using unsigned_less [where 'a = nat, of w] by simp

lemma unat_add_1_no_wrap: "unat x < 2 ^ LENGTH('a) - 1 \<Longrightarrow> unat ((x :: 'a :: len word) + 1) = unat x + 1"
  by (simp add: unat_word_ariths)

lemma unat_add_1_less: "x < y \<Longrightarrow> unat ((x :: 'a :: len word) + 1) = unat x + 1"
proof (rule unat_add_1_no_wrap)
  assume "x < y"
  then have "unat x < unat y" by (simp add: word_less_nat_alt)
  with unsigned_less [where 'a = nat, of y] show "unat x < 2 ^ LENGTH('a) - 1" by linarith
qed

lemma unat_minus_1: "x \<noteq> 0 \<Longrightarrow> unat ((x :: 'a :: len word) - 1) = unat x - 1"
  by (metis unat_minus_one)

section \<open>Association lists as unordered maps\<close>

abbreviation um_lookup :: "('k \<times> 'v) list \<Rightarrow> 'k \<Rightarrow> 'v option" where
  "um_lookup \<equiv> map_of"

abbreviation um_update :: "'k \<Rightarrow> 'v \<Rightarrow> ('k \<times> 'v) list \<Rightarrow> ('k \<times> 'v) list" where
  "um_update \<equiv> AList.update"

abbreviation um_erase :: "'k \<Rightarrow> ('k \<times> 'v) list \<Rightarrow> ('k \<times> 'v) list" where
  "um_erase \<equiv> AList.delete"

definition um_wf :: "('k \<times> 'v) list \<Rightarrow> bool" where
  "um_wf m \<longleftrightarrow> distinct (map fst m)"

lemma um_wf_Nil [simp]: "um_wf []"
  by (simp add: um_wf_def)

lemma um_wf_update [simp]: "um_wf m \<Longrightarrow> um_wf (um_update k v m)"
  by (simp add: um_wf_def AList.distinct_update)

lemma um_wf_erase [simp]: "um_wf m \<Longrightarrow> um_wf (um_erase k m)"
  by (simp add: um_wf_def AList.distinct_delete)

lemma um_lookup_update [simp]:
  "um_lookup (um_update k v m) k' = (if k' = k then Some v else um_lookup m k')"
  by (simp add: AList.update_conv')

lemma um_lookup_erase [simp]:
  "um_lookup (um_erase k m) k' = (if k' = k then None else um_lookup m k')"
  by (simp add: AList.delete_conv')

lemma length_um_update_new [simp]:
  "um_lookup m k = None \<Longrightarrow> length (um_update k v m) = Suc (length m)"
  by (induction m) auto

lemma length_um_update_old [simp]: "um_lookup m k \<noteq> None \<Longrightarrow> length (um_update k v m) = length m"
  by (induction m) auto

lemma um_update_same: "um_lookup m k = Some v \<Longrightarrow> um_update k v m = m"
  by (induction m) (auto split: if_splits)

lemma um_update_twice [simp]: "um_update k v (um_update k w m) = um_update k v m"
  by (induction m) auto

lemma length_um_erase_le: "length (um_erase k m) \<le> length m"
  by (induction m) auto

lemma length_um_erase:
  "um_wf m \<Longrightarrow> um_lookup m k = Some v \<Longrightarrow> Suc (length (um_erase k m)) = length m"
proof (induction m)
  case (Cons kv m)
  show ?case
  proof (cases "fst kv = k")
    case True
    then have "um_lookup m k = None"
      using Cons.prems by (auto simp: um_wf_def map_of_eq_None_iff)
    then have "um_erase k m = m"
      by (metis AList.delete_id map_of_eq_None_iff)
    then show ?thesis using True by simp
  next
    case False
    then show ?thesis using Cons by (cases kv) (auto simp: um_wf_def)
  qed
qed simp

end
