(* ===== verification/Nic_Rss.thy ===== *)
theory Nic_Rss
  imports Nic_Prelude
begin

text \<open>
  Receive-side scaling (\<^verbatim>\<open>rss.h/.cpp\<close>): the Toeplitz hash over a circular key and the indirection
  table. The theory shows that the bit-serial hash is the exclusive or of the key windows selected by
  the set data bits, that it is linear (the property that makes the hash a Toeplitz hash), and that
  \<^verbatim>\<open>select_queue\<close> always answers with an entry of the table.
\<close>

section \<open>Data\<close>

record RssConfig =
  rss_key :: bytes
  rss_table :: "u16 list"

record RssStats =
  rss_hashes :: u64
  queue_hits :: "u64 list"

record RssEngine =
  rss_config :: RssConfig
  rss_stats :: RssStats

definition kDefaultToeplitzKey :: bytes where
  "kDefaultToeplitzKey =
     [0x6D, 0x5A, 0x56, 0x6B, 0x65, 0x4E, 0x67, 0x6E, 0x67, 0x55,
      0x6A, 0x6B, 0x61, 0x4F, 0x6B, 0x65, 0x6F, 0x49, 0x4D, 0x42]"

definition kDefaultTableSize :: nat where
  "kDefaultTableSize = 128"

section \<open>Operations\<close>

definition RssEngine_ensure_defaults :: "RssEngine \<Rightarrow> RssEngine" where
  "RssEngine_ensure_defaults r =
     (let cfg = rss_config r;
          key = (if rss_key cfg = [] then kDefaultToeplitzKey else rss_key cfg);
          table = (if rss_table cfg = [] then map (\<lambda>i. of_nat (i mod 1)) [0..<kDefaultTableSize]
                   else rss_table cfg)
      in r\<lparr>rss_config := \<lparr>rss_key = key, rss_table = table\<rparr>,
           rss_stats := (rss_stats r)\<lparr>queue_hits := replicate (length table) 0\<rparr>\<rparr>)"

definition RssEngine_new :: "RssConfig \<Rightarrow> RssEngine" where
  "RssEngine_new cfg = RssEngine_ensure_defaults
     \<lparr>rss_config = cfg, rss_stats = \<lparr>rss_hashes = 0, queue_hits = []\<rparr>\<rparr>"

definition RssEngine_set_key :: "RssEngine \<Rightarrow> bytes \<Rightarrow> RssEngine" where
  "RssEngine_set_key r key =
     r\<lparr>rss_config := (rss_config r)\<lparr>rss_key := (if key = [] then kDefaultToeplitzKey else key)\<rparr>\<rparr>"

definition RssEngine_set_table :: "RssEngine \<Rightarrow> u16 list \<Rightarrow> RssEngine" where
  "RssEngine_set_table r table =
     r\<lparr>rss_config := (rss_config r)\<lparr>rss_table := (if table = [] then replicate kDefaultTableSize 0 else table)\<rparr>\<rparr>"

text \<open>The bit tests of the code: bit \<open>i\<close> of a byte string, most significant bit first.\<close>

definition msb_bit :: "bytes \<Rightarrow> nat \<Rightarrow> bool" where
  "msb_bit bs i = (drop_bit (7 - i mod 8) (bs ! (i div 8)) AND 1 \<noteq> 0)"

text \<open>The inner loop: the 32 key bits from \<open>start\<close>, shifted in one by one; \<open>k\<close> counts the bits left.\<close>

fun key_segment :: "bytes \<Rightarrow> nat \<Rightarrow> nat \<Rightarrow> u32 \<Rightarrow> u32" where
  "key_segment key start 0 seg = seg"
| "key_segment key start (Suc k) seg =
     key_segment key (start + 1) k
       (push_bit 1 seg OR of_bool (msb_bit key (start mod (length key * 8))))"

text \<open>The outer loop over the data bits from \<open>bit\<close>; \<open>n\<close> counts the bits left.\<close>

fun toeplitz_loop :: "bytes \<Rightarrow> bytes \<Rightarrow> nat \<Rightarrow> nat \<Rightarrow> u32 \<Rightarrow> u32" where
  "toeplitz_loop key data pos 0 h = h"
| "toeplitz_loop key data pos (Suc n) h =
     toeplitz_loop key data (pos + 1) n
       (if msb_bit data pos then h XOR key_segment key pos 32 0 else h)"

definition RssEngine_toeplitz_hash :: "bytes \<Rightarrow> bytes \<Rightarrow> u32" where
  "RssEngine_toeplitz_hash key data =
     (if key = [] \<or> data = [] then 0 else toeplitz_loop key data 0 (length data * 8) 0)"

definition RssEngine_hash :: "RssEngine \<Rightarrow> bytes \<Rightarrow> u32 \<times> RssEngine" where
  "RssEngine_hash r data =
     (RssEngine_toeplitz_hash (rss_key (rss_config r)) data,
      r\<lparr>rss_stats := (rss_stats r)\<lparr>rss_hashes := rss_hashes (rss_stats r) + 1\<rparr>\<rparr>)"

text \<open>The table size is cast to 32 bits before the division; a table of \<open>2 ^ 32\<close> entries or a multiple
  would divide by zero, which the model reports as no answer.\<close>

definition RssEngine_select_queue :: "RssEngine \<Rightarrow> bytes \<Rightarrow> u16 option \<times> RssEngine" where
  "RssEngine_select_queue r data =
     (let table = rss_table (rss_config r) in
      if table = [] \<or> (of_nat (length table) :: u32) = 0 then (None, r)
      else
        let (h, r') = RssEngine_hash r data;
            idx = unat (h mod of_nat (length table));
            hits = queue_hits (rss_stats r')
        in (Some (table ! idx),
            if idx < length hits
            then r'\<lparr>rss_stats := (rss_stats r')\<lparr>queue_hits := hits[idx := hits ! idx + 1]\<rparr>\<rparr>
            else r'))"

definition RssEngine_reset_stats :: "RssEngine \<Rightarrow> RssEngine" where
  "RssEngine_reset_stats r =
     r\<lparr>rss_stats := \<lparr>rss_hashes = 0, queue_hits = replicate (length (rss_table (rss_config r))) 0\<rparr>\<rparr>"

section \<open>The hash\<close>

text \<open>The reference: bit \<open>j\<close> of the hash is the parity of the set data bits \<open>i\<close> whose key bit \<open>i + 31 - j\<close>,
  taken around the key, is set.\<close>

definition toeplitz_window :: "bytes \<Rightarrow> nat \<Rightarrow> u32" where
  "toeplitz_window key i = key_segment key i 32 0"

definition toeplitz_ref :: "bytes \<Rightarrow> bytes \<Rightarrow> nat \<Rightarrow> bool" where
  "toeplitz_ref key data j =
     odd (card {i. i < length data * 8 \<and> msb_bit data i \<and> msb_bit key ((i + (31 - j)) mod (length key * 8))})"

lemma bit_shift_in:
  "j < 32 \<Longrightarrow> bit (push_bit 1 seg OR of_bool b :: u32) j = (if j = 0 then b else bit seg (j - 1))"
  unfolding bit_or_iff bit_push_bit_iff by (auto simp: bit_simps)

lemma bit_key_segment:
  "j < 32 \<Longrightarrow> n \<le> 32 \<Longrightarrow> bit (key_segment key start n seg) j =
     (if j < n then msb_bit key ((start + (n - 1 - j)) mod (length key * 8)) else bit seg (j - n))"
proof (induction n arbitrary: start seg)
  case (Suc n)
  let ?seg = "push_bit 1 seg OR of_bool (msb_bit key (start mod (length key * 8))) :: u32"
  show ?case
  proof (cases "j < n")
    case True
    with Suc show ?thesis by simp
  next
    case False
    then have "bit (key_segment key start (Suc n) seg) j = bit ?seg (j - n)"
      using Suc.IH [of "start + 1" ?seg] Suc.prems by (simp only: key_segment.simps) simp
    also have "\<dots> = (if j = n then msb_bit key (start mod (length key * 8)) else bit seg (j - n - 1))"
      using bit_shift_in [of "j - n" seg] False Suc.prems by simp
    finally show ?thesis using False by auto
  qed
qed simp

lemma toeplitz_loop_acc: "toeplitz_loop key data pos n h = h XOR toeplitz_loop key data pos n 0"
proof (induction n arbitrary: pos h)
  case (Suc n)
  let ?w = "key_segment key pos 32 0"
  show ?case
    using Suc [of "pos + 1" "h XOR ?w"] Suc [of "pos + 1" ?w] Suc [of "pos + 1" h]
    by (simp add: xor.assoc)
qed simp

lemma bit_toeplitz_loop:
  "j < 32 \<Longrightarrow> bit (toeplitz_loop key data pos n 0) j =
     odd (card {i. pos \<le> i \<and> i < pos + n \<and> msb_bit data i \<and> msb_bit key ((i + (31 - j)) mod (length key * 8))})"
proof (induction n arbitrary: pos)
  case 0
  have "{i. pos \<le> i \<and> i < pos + 0 \<and> Q i} = {}" for Q by auto
  then show ?case by (simp only: toeplitz_loop.simps) simp
next
  case (Suc n)
  let ?P = "\<lambda>i. msb_bit data i \<and> msb_bit key ((i + (31 - j)) mod (length key * 8))"
  let ?S = "{i. Suc pos \<le> i \<and> i < Suc pos + n \<and> ?P i}"
  have split: "{i. pos \<le> i \<and> i < pos + Suc n \<and> ?P i} = (if ?P pos then insert pos ?S else ?S)"
    by (auto simp: le_Suc_eq Suc_le_eq le_less)
  have card: "card {i. pos \<le> i \<and> i < pos + Suc n \<and> ?P i} = (if ?P pos then Suc (card ?S) else card ?S)"
    unfolding split by simp
  have "bit (toeplitz_loop key data pos (Suc n) 0) j \<longleftrightarrow> ?P pos \<noteq> bit (toeplitz_loop key data (Suc pos) n 0) j"
    using Suc.prems by (subst toeplitz_loop.simps, subst toeplitz_loop_acc)
      (auto simp: bit_simps bit_key_segment)
  then show ?case
    using Suc.IH [OF Suc.prems, of "Suc pos"] card by (auto split: if_splits)
qed

lemma msb_bit_alt: "msb_bit bs i = bit (bs ! (i div 8)) (7 - i mod 8)"
  by (simp add: msb_bit_def bit_iff_odd_drop_bit and_one_eq even_iff_mod_2_eq_zero)

lemma msb_bit_map2_xor:
  assumes "length a = length b" and "i < length a * 8"
  shows "msb_bit (map2 (XOR) a b) i = (msb_bit a i \<noteq> msb_bit b i)"
proof -
  have "i div 8 < length a" using assms(2) by (simp add: less_mult_imp_div_less)
  then show ?thesis
    using assms(1) by (auto simp: msb_bit_alt bit_xor_iff)
qed

lemma toeplitz_loop_xor:
  "length a = length b \<Longrightarrow> pos + n \<le> length a * 8 \<Longrightarrow>
     toeplitz_loop key (map2 (XOR) a b) pos n 0 = toeplitz_loop key a pos n 0 XOR toeplitz_loop key b pos n 0"
proof (induction n arbitrary: pos)
  case (Suc n)
  let ?w = "key_segment key pos 32 0"
  show ?case
    using Suc msb_bit_map2_xor [of a b pos]
      toeplitz_loop_acc [of key a "Suc pos" n ?w] toeplitz_loop_acc [of key b "Suc pos" n ?w]
      toeplitz_loop_acc [of key "map2 (XOR) a b" "Suc pos" n ?w]
    by (cases "msb_bit a pos"; cases "msb_bit b pos") (simp_all add: ac_simps)
qed simp

section \<open>Invariant\<close>

definition rss_ok :: "RssEngine \<Rightarrow> bool" where
  "rss_ok r \<longleftrightarrow> rss_key (rss_config r) \<noteq> [] \<and> rss_table (rss_config r) \<noteq> []
     \<and> length (rss_table (rss_config r)) < 2 ^ 32"

lemma rss_ok_new [nic_inv]: "length (rss_table cfg) < 2 ^ 32 \<Longrightarrow> rss_ok (RssEngine_new cfg)"
  by (simp add: rss_ok_def RssEngine_new_def RssEngine_ensure_defaults_def Let_def
      kDefaultToeplitzKey_def kDefaultTableSize_def)

lemma rss_ok_set_key [nic_inv]: "rss_ok r \<Longrightarrow> rss_ok (RssEngine_set_key r key)"
  by (simp add: rss_ok_def RssEngine_set_key_def kDefaultToeplitzKey_def)

lemma rss_ok_set_table [nic_inv]: "rss_ok r \<Longrightarrow> length t < 2 ^ 32 \<Longrightarrow> rss_ok (RssEngine_set_table r t)"
  by (simp add: rss_ok_def RssEngine_set_table_def kDefaultTableSize_def)

lemma rss_index_less:
  assumes "0 < n" "n < 2 ^ 32"
  shows "unat ((h :: u32) mod of_nat n) < n"
  using assms by (simp add: unat_mod unat_of_nat take_bit_nat_eq_self)

section \<open>Properties\<close>

text \<open>C17: the bit-serial Toeplitz hash is the reference hash: bit \<open>j\<close> of the result is the parity of the set
  data bits whose key bit at distance \<open>31 - j\<close> (around the key) is set.\<close>

theorem toeplitz_hash_ref:
  assumes "key \<noteq> []" and "j < 32"
  shows "bit (RssEngine_toeplitz_hash key data) j = toeplitz_ref key data j"
proof (cases "data = []")
  case True
  then show ?thesis by (simp add: RssEngine_toeplitz_hash_def toeplitz_ref_def)
next
  case False
  then show ?thesis
    using assms bit_toeplitz_loop [of j key data 0 "length data * 8"]
    by (simp add: RssEngine_toeplitz_hash_def toeplitz_ref_def)
qed

theorem toeplitz_hash_ref_witness:
  "bit (RssEngine_toeplitz_hash kDefaultToeplitzKey [0x80]) 30 = toeplitz_ref kDefaultToeplitzKey [0x80] 30"
  using toeplitz_hash_ref [of kDefaultToeplitzKey 30 "[0x80]"] by (simp add: kDefaultToeplitzKey_def)

text \<open>the hash is linear over exclusive or: hashing the bytewise exclusive or of two inputs of one length
  gives the exclusive or of their hashes.\<close>

theorem toeplitz_hash_linear:
  assumes "length a = length b"
  shows "RssEngine_toeplitz_hash key (map2 (XOR) a b)
    = RssEngine_toeplitz_hash key a XOR RssEngine_toeplitz_hash key b"
proof (cases "key = [] \<or> a = []")
  case False
  then have "b \<noteq> []" using assms by auto
  then show ?thesis
    using False assms toeplitz_loop_xor [of a b 0 "length a * 8" key]
    by (simp add: RssEngine_toeplitz_hash_def zip_eq_Nil_iff)
qed (use assms in \<open>auto simp: RssEngine_toeplitz_hash_def\<close>)

theorem toeplitz_hash_linear_witness:
  "RssEngine_toeplitz_hash [0xA5, 0x3C] [0x0F XOR 0xF0] =
     RssEngine_toeplitz_hash [0xA5, 0x3C] [0x0F] XOR RssEngine_toeplitz_hash [0xA5, 0x3C] [0xF0]"
  using toeplitz_hash_linear [of "[0x0F]" "[0xF0]" "[0xA5, 0x3C]"] by simp

text \<open>an engine with a key and a table (every engine the constructors and setters give) always answers
  with a queue of its table, leaves its configuration alone and counts the hash.\<close>

theorem select_queue_total:
  assumes "rss_ok r"
  shows "\<exists>q r'. RssEngine_select_queue r data = (Some q, r') \<and> q \<in> set (rss_table (rss_config r))
    \<and> rss_config r' = rss_config r \<and> rss_hashes (rss_stats r') = rss_hashes (rss_stats r) + 1"
proof -
  let ?t = "rss_table (rss_config r)"
  have t: "0 < length ?t" "length ?t < 2 ^ 32" using assms by (auto simp: rss_ok_def)
  then have "(of_nat (length ?t) :: u32) \<noteq> 0"
    by (auto simp: word_of_nat_eq_0_iff dest: dvd_imp_le)
  with t assms show ?thesis
    using rss_index_less [OF t] by (auto simp: RssEngine_select_queue_def RssEngine_hash_def Let_def rss_ok_def)
qed

theorem select_queue_total_witness:
  "\<exists>q r'. RssEngine_select_queue (RssEngine_new \<lparr>rss_key = [], rss_table = [3, 1]\<rparr>) [9] = (Some q, r') \<and> q \<in> {1, 3}"
proof -
  have "rss_ok (RssEngine_new \<lparr>rss_key = [], rss_table = [3, 1]\<rparr>)" by (rule rss_ok_new) simp
  from select_queue_total [OF this, of "[9]"] show ?thesis
    by (auto simp: RssEngine_new_def RssEngine_ensure_defaults_def Let_def)
qed

end
