(* ===== verification/Nic_Checksum.thy ===== *)
theory Nic_Checksum
  imports Nic_Prelude
begin

text \<open>
  The Internet checksum (\<^verbatim>\<open>checksum.h/.cpp\<close>). The code adds big-endian 16-bit words into a 32-bit
  accumulator and folds the carry after every addition. The reference is the one's complement sum of
  RFC 1071, stated on natural numbers; the theory shows that the two agree, that a buffer followed by
  its checksum verifies, and that a change of one byte is always detected.
\<close>

section \<open>The code\<close>

definition be16 :: "byte \<Rightarrow> byte \<Rightarrow> u16" where
  "be16 hi lo = push_bit 8 (ucast hi) OR ucast lo"

definition fold_carry :: "u32 \<Rightarrow> u32" where
  "fold_carry acc = (if acc AND 0x10000 \<noteq> 0 then (acc AND 0xFFFF) + 1 else acc)"

text \<open>The loop over pairs, and the odd last byte as the high byte of a word.\<close>

fun checksum_loop :: "u32 \<Rightarrow> bytes \<Rightarrow> u32" where
  "checksum_loop acc (hi # lo # rest) = checksum_loop (fold_carry (acc + ucast (be16 hi lo))) rest"
| "checksum_loop acc [b] = fold_carry (acc + ucast (be16 b 0))"
| "checksum_loop acc [] = acc"

definition compute_checksum :: "bytes \<Rightarrow> u16" where
  "compute_checksum buffer = ucast (NOT (checksum_loop 0 buffer))"

definition verify_checksum :: "bytes \<Rightarrow> u16 \<Rightarrow> bool" where
  "verify_checksum buffer expected \<longleftrightarrow> compute_checksum buffer = expected"

section \<open>The reference\<close>

text \<open>The sum of the buffer's big-endian words, and its one's complement residue: the representative of
  the sum modulo 65535 that is 0 only for the sum 0.\<close>

fun be16_sum :: "bytes \<Rightarrow> nat" where
  "be16_sum (hi # lo # rest) = 256 * unat hi + unat lo + be16_sum rest"
| "be16_sum [b] = 256 * unat b"
| "be16_sum [] = 0"

definition ones_residue :: "nat \<Rightarrow> nat" where
  "ones_residue t = (if t = 0 then 0 else (t - 1) mod 65535 + 1)"

definition checksum_ref :: "bytes \<Rightarrow> nat" where
  "checksum_ref buffer = 65535 - ones_residue (be16_sum buffer)"

lemma ones_residue_le: "ones_residue t \<le> 65535"
  unfolding ones_residue_def by (cases "t = 0") (simp_all add: Suc_leI)

lemma ones_residue_mod: "ones_residue t mod 65535 = t mod 65535"
proof (cases "t = 0")
  case False
  then have "((t - 1) mod 65535 + 1) mod 65535 = (t - 1 + 1) mod 65535" by (simp add: mod_simps)
  with False show ?thesis by (simp add: ones_residue_def)
qed (simp add: ones_residue_def)

lemma ones_residue_step:
  "ones_residue (ones_residue s + w) = ones_residue (s + w)"
proof (cases "s = 0 \<or> w = 0")
  case True
  then show ?thesis by (auto simp: ones_residue_def)
next
  case False
  have "((s - 1) mod 65535 + w) mod 65535 = (s - 1 + w) mod 65535" by (simp add: mod_simps)
  with False show ?thesis by (simp add: ones_residue_def)
qed

lemma ones_residue_small:
  assumes "n < 131071"
  shows "ones_residue n = (if n < 65536 then n else n - 65535)"
proof (cases "n < 65536")
  case True
  then show ?thesis by (simp add: ones_residue_def)
next
  case False
  then have "n - 1 = 65535 + (n - 65536)" by simp
  then have "(n - 1) mod 65535 = (n - 65536) mod 65535" by (metis mod_add_self1)
  with assms False show ?thesis by (simp add: ones_residue_def)
qed

section \<open>The accumulator\<close>

lemma unat_be16: "unat (be16 hi lo) = 256 * unat hi + unat lo"
proof -
  have "push_bit 8 (ucast hi) AND ucast lo = (0 :: u16)"
    by (rule bit_word_eqI) (auto simp: bit_simps dest: bit_imp_le_length)
  then have "be16 hi lo = push_bit 8 (ucast hi) + ucast lo"
    unfolding be16_def by (simp add: disjunctive_add_eq_or)
  then show ?thesis
    using unat_byte_less [of hi] unat_byte_less [of lo]
    by (simp add: unat_word_ariths push_bit_eq_mult unat_ucast_up)
qed

lemma fold_carry_step:
  assumes "unat s < 0x20000"
  shows "unat (fold_carry s) = (if unat s < 0x10000 then unat s else unat s - 0xFFFF)"
proof -
  have "s AND 0xFFFF = take_bit 16 s" by (simp add: take_bit_eq_mask mask_eq_exp_minus_1)
  then have m: "unat (s AND 0xFFFF) = unat s mod 0x10000"
    by (simp add: take_bit_eq_mod unat_word_ariths)
  have "(s AND 0x10000 \<noteq> 0) = bit s 16"
    using and_exp_eq_0_iff_not_bit [of s 16] by simp
  also have "\<dots> = odd (unat s div 0x10000)"
    using bit_unsigned_iff [where 'a = nat, of s 16] by (simp add: bit_iff_odd)
  also have "\<dots> = (\<not> unat s < 0x10000)"
    using assms by (cases "unat s < 0x10000") (simp_all add: div_if)
  finally have b: "(s AND 0x10000 \<noteq> 0) = (\<not> unat s < 0x10000)" .
  show ?thesis
  proof (cases "unat s < 0x10000")
    case False
    then have "unat s mod 0x10000 = unat s - 0x10000" using assms by (simp add: mod_if)
    with False show ?thesis using assms b m by (simp add: fold_carry_def unat_word_ariths)
  qed (use b in \<open>simp add: fold_carry_def\<close>)
qed

lemma fold_carry_add:
  assumes "unat s = ones_residue t"
  shows "unat (fold_carry (s + ucast (w :: u16))) = ones_residue (t + unat w)"
proof -
  have w: "unat w < 0x10000" by (rule unat_u16_less [simplified])
  have s: "unat s \<le> 0xFFFF" using assms ones_residue_le by simp
  have sw: "unat (s + ucast w) = ones_residue t + unat w"
    using w s assms by (simp add: unat_word_ariths unat_ucast_up)
  have "ones_residue (ones_residue t + unat w)
      = (if ones_residue t + unat w < 0x10000 then ones_residue t + unat w
         else ones_residue t + unat w - 0xFFFF)"
    using w s assms by (intro ones_residue_small) simp
  then show ?thesis
    using fold_carry_step [of "s + ucast w"] sw w s assms ones_residue_step by simp
qed

lemma checksum_loop_sum:
  "unat acc = ones_residue t \<Longrightarrow> unat (checksum_loop acc buf) = ones_residue (t + be16_sum buf)"
proof (induction acc buf arbitrary: t rule: checksum_loop.induct)
  case (1 acc hi lo rest)
  then show ?case using fold_carry_add [OF 1(2), of "be16 hi lo"] by (simp add: unat_be16 add_ac)
next
  case (2 acc b)
  then show ?case using fold_carry_add [OF 2, of "be16 b 0"] by (simp add: unat_be16)
qed simp

lemma unat_compute_checksum: "unat (compute_checksum buf) = 65535 - ones_residue (be16_sum buf)"
proof -
  let ?s = "checksum_loop 0 buf"
  have u: "unat ?s = ones_residue (be16_sum buf)"
    using checksum_loop_sum [of 0 0 buf] by (simp add: ones_residue_def)
  have "compute_checksum buf = NOT (ucast ?s)"
    unfolding compute_checksum_def by (rule bit_word_eqI) (simp add: bit_simps)
  also have "\<dots> = 65535 - ucast ?s" by (simp add: not_eq_complement)
  finally have "compute_checksum buf = of_nat 65535 - of_nat (unat ?s)" by simp
  also have "\<dots> = of_nat (65535 - ones_residue (be16_sum buf))"
    using ones_residue_le u by (simp add: of_nat_diff)
  finally show ?thesis
    by (simp add: unat_of_nat)
qed

lemma be16_sum_append: "even (length xs) \<Longrightarrow> be16_sum (xs @ ys) = be16_sum xs + be16_sum ys"
  by (induction xs rule: be16_sum.induct) auto

lemma be16_of_bytes: "be16 (ucast (drop_bit 8 c)) (ucast c) = c"
  unfolding be16_def by (rule bit_word_eqI) (auto simp: bit_simps)

lemma be16_sum_bytes: "be16_sum [ucast (drop_bit 8 c), ucast c] = unat (c :: u16)"
  using unat_be16 [of "ucast (drop_bit 8 c)" "ucast c"] be16_of_bytes [of c] by simp

lemma ones_residue_multiple:
  assumes "0 < t" "65535 dvd t"
  shows "ones_residue t = 65535"
proof -
  obtain k where k: "t = 65535 * k" using assms(2) by (rule dvdE)
  then obtain j where "k = Suc j" using assms(1) by (cases k) simp_all
  with k have "t = 65535 * Suc j" by simp
  then have "t - 1 = 65534 + 65535 * j" by simp
  then have "(t - 1) mod 65535 = 65534" by (simp only: mod_mult_self2) simp
  with assms(1) show ?thesis by (simp add: ones_residue_def)
qed

lemma ones_residue_complement:
  "0 < t + (65535 - ones_residue t) \<and> 65535 dvd t + (65535 - ones_residue t)"
proof
  show "0 < t + (65535 - ones_residue t)" by (simp add: ones_residue_def)
  have "(t + (65535 - ones_residue t)) mod 65535 = (ones_residue t + (65535 - ones_residue t)) mod 65535"
    by (rule mod_add_cong) (simp_all add: ones_residue_mod)
  then show "65535 dvd t + (65535 - ones_residue t)"
    using ones_residue_le [of t] by (simp add: dvd_eq_mod_eq_0)
qed

text \<open>The weight of byte \<open>i\<close> in the sum.\<close>

abbreviation weight :: "nat \<Rightarrow> nat" where
  "weight i \<equiv> (if even i then 256 else 1)"

lemma be16_sum_update:
  "i < length xs \<Longrightarrow> be16_sum (xs[i := b]) + weight i * unat (xs ! i) = be16_sum xs + weight i * unat b"
proof (induction xs arbitrary: i rule: be16_sum.induct)
  case (1 hi lo rest)
  show ?case
  proof (cases "i < 2")
    case True
    then show ?thesis by (auto simp: less_2_cases_iff)
  next
    case False
    then obtain j where j: "i = Suc (Suc j)" by (metis add_2_eq_Suc le_Suc_ex not_less)
    then show ?thesis using 1 by simp
  qed
qed auto

lemma byte_weight_distinct:
  assumes "s + weight i * unat (x :: byte) = t + weight i * unat y" and "s mod 65535 = t mod 65535"
  shows "x = y"
proof -
  have bx: "weight i * unat x < 65535" "weight i * unat y < 65535"
    using unat_byte_less [of x] unat_byte_less [of y] by auto
  have "(s + weight i * unat x) mod 65535 = (s + weight i * unat y) mod 65535"
    unfolding assms(1) by (rule mod_add_cong) (simp_all add: assms(2))
  then have "int ((s + weight i * unat x) mod 65535) = int ((s + weight i * unat y) mod 65535)"
    by (rule arg_cong)
  then have "int (s + weight i * unat x) mod 65535 = int (s + weight i * unat y) mod 65535"
    by (simp only: zmod_int of_nat_numeral)
  then have "65535 dvd int (s + weight i * unat x) - int (s + weight i * unat y)"
    by (rule mod_eq_dvd_iff [THEN iffD1])
  then have "65535 dvd int (weight i * unat x) - int (weight i * unat y)" by simp
  moreover have "\<bar>int (weight i * unat x) - int (weight i * unat y)\<bar> < 65535" using bx by linarith
  ultimately have "int (weight i * unat x) - int (weight i * unat y) = 0"
    using dvd_imp_le_int [of "int (weight i * unat x) - int (weight i * unat y)" 65535] by linarith
  then show ?thesis by (auto simp: word_uint_eq_iff split: if_splits)
qed

section \<open>Properties\<close>

text \<open>C16: the checksum the code computes with a 32-bit accumulator and a carry folded after every word is
  the reference one's complement checksum of RFC 1071, for buffers of every length, even or odd.\<close>

theorem compute_checksum_ref: "unat (compute_checksum buffer) = checksum_ref buffer"
  by (simp add: unat_compute_checksum checksum_ref_def)

text \<open>A buffer of even length followed by its checksum in network byte order sums to all ones, so the
  receiver's checksum over both is 0: what the sender computes, the receiver verifies.\<close>

theorem checksum_self_verifies:
  assumes "even (length buffer)"
  shows "verify_checksum (buffer @ [ucast (drop_bit 8 (compute_checksum buffer)), ucast (compute_checksum buffer)]) 0"
proof -
  let ?c = "compute_checksum buffer" and ?t = "be16_sum buffer"
  let ?b = "buffer @ [ucast (drop_bit 8 ?c), ucast ?c]"
  have "be16_sum ?b = ?t + (65535 - ones_residue ?t)"
    using assms by (simp only: be16_sum_append be16_sum_bytes unat_compute_checksum)
  then have "unat (compute_checksum ?b) = 0"
    using ones_residue_complement [of ?t] by (simp only: unat_compute_checksum ones_residue_multiple)
  then show ?thesis by (simp add: verify_checksum_def unat_eq_zero)
qed

theorem checksum_self_verifies_witness:
  "verify_checksum ([0x45, 0x00] @ [ucast (drop_bit 8 (compute_checksum [0x45, 0x00])),
     ucast (compute_checksum [0x45, 0x00])]) 0"
  using checksum_self_verifies [of "[0x45, 0x00]"] by simp

text \<open>A change of any single byte of a buffer is detected: the checksum of the changed buffer differs.\<close>

theorem checksum_detects_byte_change:
  assumes "i < length buffer" and "buffer ! i \<noteq> b"
  shows "\<not> verify_checksum (buffer[i := b]) (compute_checksum buffer)"
proof
  assume "verify_checksum (buffer[i := b]) (compute_checksum buffer)"
  then have "ones_residue (be16_sum (buffer[i := b])) = ones_residue (be16_sum buffer)"
    using unat_compute_checksum [of "buffer[i := b]"] unat_compute_checksum [of buffer]
      ones_residue_le [of "be16_sum (buffer[i := b])"] ones_residue_le [of "be16_sum buffer"]
    by (simp add: verify_checksum_def)
  then have "be16_sum (buffer[i := b]) mod 65535 = be16_sum buffer mod 65535"
    using ones_residue_mod by metis
  moreover have "be16_sum (buffer[i := b]) + weight i * unat (buffer ! i) = be16_sum buffer + weight i * unat b"
    using be16_sum_update [OF assms(1)] .
  ultimately show False
    using byte_weight_distinct assms(2) by simp
qed

theorem checksum_detects_byte_change_witness:
  "\<not> verify_checksum ([0x45, 0x00, 0x07][2 := 0x06]) (compute_checksum [0x45, 0x00, 0x07])"
  using checksum_detects_byte_change [of 2 "[0x45, 0x00, 0x07]" "0x06"] by simp

end
