(* ===== verification/Nic_Flow_Control.thy ===== *)
theory Nic_Flow_Control
  imports Nic_Checksum
begin

text \<open>
  Ethernet flow control (\<^verbatim>\<open>flow_control.h/.cpp\<close>): the 802.3x pause frame and the 802.1Qbb priority pause
  frame with their parsers and serializers, the two managers that react to received frames and
  generate frames from queue depths, the backpressure monitor, and the energy-efficient Ethernet power
  state machine. \<^verbatim>\<open>std::array<T, 8>\<close> is a list of length 8.
\<close>

section \<open>Frames\<close>

definition hi8 :: "u16 \<Rightarrow> byte" where
  "hi8 w = ucast (drop_bit 8 w)"

definition lo8 :: "u16 \<Rightarrow> byte" where
  "lo8 w = ucast (w AND 0xFF)"

definition kEtherType :: u16 where "kEtherType = 0x8808"
definition kOpcodeClassicPause :: u16 where "kOpcodeClassicPause = 0x0001"
definition kOpcodePFC :: u16 where "kOpcodePFC = 0x0101"

record PauseFrame =
  pf_opcode :: u16
  pf_pause_time :: u16

definition PauseFrame_is_pause_frame :: "bytes \<Rightarrow> bool" where
  "PauseFrame_is_pause_frame packet =
     (if length packet < 14 then False else be16 (packet ! 12) (packet ! 13) = kEtherType)"

definition PauseFrame_parse :: "bytes \<Rightarrow> PauseFrame option" where
  "PauseFrame_parse packet =
     (if \<not> PauseFrame_is_pause_frame packet then None
      else if length packet < 18 then None
      else Some \<lparr>pf_opcode = be16 (packet ! 14) (packet ! 15),
                 pf_pause_time = be16 (packet ! 16) (packet ! 17)\<rparr>)"

text \<open>Destination 01:80:C2:00:00:01, source zero, EtherType 0x8808.\<close>

definition mac_control_header :: "bytes \<Rightarrow> bytes" where
  "mac_control_header p = p[0 := 0x01, 1 := 0x80, 2 := 0xC2, 3 := 0x00, 4 := 0x00, 5 := 0x01,
     12 := 0x88, 13 := 0x08]"

definition PauseFrame_serialize :: "PauseFrame \<Rightarrow> bytes" where
  "PauseFrame_serialize f =
     (mac_control_header (replicate 64 0))
       [14 := hi8 (pf_opcode f), 15 := lo8 (pf_opcode f),
        16 := hi8 (pf_pause_time f), 17 := lo8 (pf_pause_time f)]"

record PFCFrame =
  pfc_opcode :: u16
  enabled_priorities :: u8
  pause_times :: "u16 list"

definition PFCFrame_default :: PFCFrame where
  "PFCFrame_default = \<lparr>pfc_opcode = kOpcodePFC, enabled_priorities = 0, pause_times = replicate 8 0\<rparr>"

definition PFCFrame_parse :: "bytes \<Rightarrow> PFCFrame option" where
  "PFCFrame_parse packet =
     (if \<not> PauseFrame_is_pause_frame packet then None
      else if length packet < 34 then None
      else
        let opcode = be16 (packet ! 14) (packet ! 15) in
        if opcode \<noteq> kOpcodePFC then None
        else Some \<lparr>pfc_opcode = opcode, enabled_priorities = packet ! 16,
                   pause_times = map (\<lambda>i. be16 (packet ! (18 + i * 2)) (packet ! (18 + i * 2 + 1))) [0..<8]\<rparr>)"

definition PFCFrame_serialize :: "PFCFrame \<Rightarrow> bytes" where
  "PFCFrame_serialize f =
     fold (\<lambda>i p. p[18 + i * 2 := hi8 (pause_times f ! i), 18 + i * 2 + 1 := lo8 (pause_times f ! i)]) [0..<8]
       ((mac_control_header (replicate 64 0))
          [14 := hi8 (pfc_opcode f), 15 := lo8 (pfc_opcode f), 16 := enabled_priorities f])"

section \<open>Classic pause\<close>

record FlowControlConfig =
  rx_pause_enabled :: bool
  tx_pause_enabled :: bool
  pause_threshold :: u16
  resume_threshold :: u16
  default_pause_time :: u16

record FlowControlStats =
  pause_frames_received :: u64
  pause_frames_sent :: u64
  total_paused_time_quanta :: u64

record FlowControlManager =
  fc_config :: FlowControlConfig
  pause_timer :: u16
  fc_stats :: FlowControlStats
  pause_sent :: bool

definition FlowControlManager_new :: "FlowControlConfig \<Rightarrow> FlowControlManager" where
  "FlowControlManager_new cfg =
     \<lparr>fc_config = cfg, pause_timer = 0,
      fc_stats = \<lparr>pause_frames_received = 0, pause_frames_sent = 0, total_paused_time_quanta = 0\<rparr>,
      pause_sent = False\<rparr>"

definition FlowControlManager_on_pause_frame_received ::
  "FlowControlManager \<Rightarrow> PauseFrame \<Rightarrow> FlowControlManager" where
  "FlowControlManager_on_pause_frame_received m frame =
     (if \<not> rx_pause_enabled (fc_config m) then m
      else m\<lparr>pause_timer := pf_pause_time frame,
             fc_stats := (fc_stats m)\<lparr>pause_frames_received := pause_frames_received (fc_stats m) + 1\<rparr>\<rparr>)"

definition FlowControlManager_is_paused :: "FlowControlManager \<Rightarrow> bool" where
  "FlowControlManager_is_paused m \<longleftrightarrow> pause_timer m > 0"

definition FlowControlManager_tick :: "FlowControlManager \<Rightarrow> u16 \<Rightarrow> FlowControlManager" where
  "FlowControlManager_tick m quanta =
     (let tot = total_paused_time_quanta (fc_stats m) in
      if pause_timer m > 0 then
        if quanta \<ge> pause_timer m
        then m\<lparr>fc_stats := (fc_stats m)\<lparr>total_paused_time_quanta := tot + ucast (pause_timer m)\<rparr>, pause_timer := 0\<rparr>
        else m\<lparr>pause_timer := pause_timer m - quanta,
               fc_stats := (fc_stats m)\<lparr>total_paused_time_quanta := tot + ucast quanta\<rparr>\<rparr>
      else m)"

definition FlowControlManager_generate_pause_frame ::
  "FlowControlManager \<Rightarrow> u16 \<Rightarrow> PauseFrame option \<times> FlowControlManager" where
  "FlowControlManager_generate_pause_frame m queue_depth =
     (let cfg = fc_config m;
          sent = (\<lambda>b. m\<lparr>pause_sent := b,
                    fc_stats := (fc_stats m)\<lparr>pause_frames_sent := pause_frames_sent (fc_stats m) + 1\<rparr>\<rparr>)
      in
      if \<not> tx_pause_enabled cfg then (None, m)
      else if queue_depth \<ge> pause_threshold cfg \<and> \<not> pause_sent m
      then (Some \<lparr>pf_opcode = kOpcodeClassicPause, pf_pause_time = default_pause_time cfg\<rparr>, sent True)
      else if queue_depth < resume_threshold cfg \<and> pause_sent m
      then (Some \<lparr>pf_opcode = kOpcodeClassicPause, pf_pause_time = 0\<rparr>, sent False)
      else (None, m))"

definition FlowControlManager_reset_stats :: "FlowControlManager \<Rightarrow> FlowControlManager" where
  "FlowControlManager_reset_stats m =
     m\<lparr>fc_stats := \<lparr>pause_frames_received = 0, pause_frames_sent = 0, total_paused_time_quanta = 0\<rparr>\<rparr>"

section \<open>Priority pause\<close>

record PFCConfig =
  pfc_enabled :: bool
  priority_enabled :: "bool list"
  pause_thresholds :: "u16 list"
  default_pause_times :: "u16 list"

record PFCStats =
  pfc_frames_received :: u64
  pfc_frames_sent :: u64
  per_priority_paused_time :: "u64 list"

record PFCManager =
  pfc_config :: PFCConfig
  pause_timers :: "u16 list"
  pause_sent_prio :: "bool list"
  pfc_stats :: PFCStats

definition PFCManager_new :: "PFCConfig \<Rightarrow> PFCManager" where
  "PFCManager_new cfg =
     \<lparr>pfc_config = cfg, pause_timers = replicate 8 0, pause_sent_prio = replicate 8 False,
      pfc_stats = \<lparr>pfc_frames_received = 0, pfc_frames_sent = 0, per_priority_paused_time = replicate 8 0\<rparr>\<rparr>"

definition PFCManager_on_pfc_frame_received :: "PFCManager \<Rightarrow> PFCFrame \<Rightarrow> PFCManager" where
  "PFCManager_on_pfc_frame_received m frame =
     (if \<not> pfc_enabled (pfc_config m) then m
      else m\<lparr>pfc_stats := (pfc_stats m)\<lparr>pfc_frames_received := pfc_frames_received (pfc_stats m) + 1\<rparr>,
             pause_timers := fold (\<lambda>i timers.
               if \<not> priority_enabled (pfc_config m) ! i then timers
               else if enabled_priorities frame AND push_bit i 1 \<noteq> 0 then timers[i := pause_times frame ! i]
               else timers) [0..<8] (pause_timers m)\<rparr>)"

definition PFCManager_is_priority_paused :: "PFCManager \<Rightarrow> u8 \<Rightarrow> bool" where
  "PFCManager_is_priority_paused m priority =
     (if priority \<ge> 8 \<or> \<not> priority_enabled (pfc_config m) ! unat priority then False
      else pause_timers m ! unat priority > 0)"

definition pfc_tick_one :: "u16 \<Rightarrow> nat \<Rightarrow> u16 list \<times> u64 list \<Rightarrow> u16 list \<times> u64 list" where
  "pfc_tick_one quanta i = (\<lambda>(timers, paused).
     if timers ! i > 0 then
       if quanta \<ge> timers ! i then (timers[i := 0], paused[i := paused ! i + ucast (timers ! i)])
       else (timers[i := timers ! i - quanta], paused[i := paused ! i + ucast quanta])
     else (timers, paused))"

definition PFCManager_tick :: "PFCManager \<Rightarrow> u16 \<Rightarrow> PFCManager" where
  "PFCManager_tick m quanta =
     (let (timers, paused) = fold (pfc_tick_one quanta) [0..<8]
            (pause_timers m, per_priority_paused_time (pfc_stats m))
      in m\<lparr>pause_timers := timers, pfc_stats := (pfc_stats m)\<lparr>per_priority_paused_time := paused\<rparr>\<rparr>)"

text \<open>One round of the loop that builds the frame; the state is the frame, the sent flags and \<^verbatim>\<open>need_send\<close>.\<close>

definition pfc_generate_one ::
  "PFCConfig \<Rightarrow> u16 list \<Rightarrow> nat \<Rightarrow> PFCFrame \<times> bool list \<times> bool \<Rightarrow> PFCFrame \<times> bool list \<times> bool" where
  "pfc_generate_one cfg depths i = (\<lambda>(frame, sent, need_send).
     if \<not> priority_enabled cfg ! i then (frame, sent, need_send)
     else if depths ! i \<ge> pause_thresholds cfg ! i \<and> \<not> sent ! i
     then (frame\<lparr>enabled_priorities := enabled_priorities frame OR push_bit i 1,
                 pause_times := (pause_times frame)[i := default_pause_times cfg ! i]\<rparr>, sent[i := True], True)
     else if depths ! i < pause_thresholds cfg ! i div 2 \<and> sent ! i
     then (frame\<lparr>enabled_priorities := enabled_priorities frame OR push_bit i 1,
                 pause_times := (pause_times frame)[i := 0]\<rparr>, sent[i := False], True)
     else (frame, sent, need_send))"

definition PFCManager_generate_pfc_frame ::
  "PFCManager \<Rightarrow> u16 list \<Rightarrow> PFCFrame option \<times> PFCManager" where
  "PFCManager_generate_pfc_frame m depths =
     (if \<not> pfc_enabled (pfc_config m) then (None, m)
      else
        let (frame, sent, need_send) = fold (pfc_generate_one (pfc_config m) depths) [0..<8]
              (PFCFrame_default, pause_sent_prio m, False);
            m' = m\<lparr>pause_sent_prio := sent\<rparr>
        in if need_send
           then (Some frame, m'\<lparr>pfc_stats := (pfc_stats m')\<lparr>pfc_frames_sent := pfc_frames_sent (pfc_stats m') + 1\<rparr>\<rparr>)
           else (None, m'))"

definition PFCManager_reset_stats :: "PFCManager \<Rightarrow> PFCManager" where
  "PFCManager_reset_stats m =
     m\<lparr>pfc_stats := \<lparr>pfc_frames_received = 0, pfc_frames_sent = 0, per_priority_paused_time = replicate 8 0\<rparr>\<rparr>"

section \<open>Backpressure\<close>

datatype CongestionLevel = CongNone | CongLow | CongMedium | CongHigh | CongCritical

record BackpressureConfig =
  queue_capacity :: u16
  congestion_threshold :: u16
  critical_threshold :: u16
  enable_head_of_line_detection :: bool
  hol_timeout_quanta :: u16

record BackpressureStats =
  total_samples :: u64
  congestion_events :: u64
  critical_events :: u64
  hol_blocking_events :: u64
  total_congested_time_quanta :: u64

definition BackpressureStats_zero :: BackpressureStats where
  "BackpressureStats_zero = \<lparr>total_samples = 0, congestion_events = 0, critical_events = 0,
     hol_blocking_events = 0, total_congested_time_quanta = 0\<rparr>"

record BackpressureMonitor =
  bp_config :: BackpressureConfig
  current_depth :: u16
  previous_depth :: u16
  quanta_since_drain :: u16
  hol_blocked :: bool
  was_congested :: bool
  bp_stats :: BackpressureStats

definition BackpressureMonitor_new :: "BackpressureConfig \<Rightarrow> BackpressureMonitor" where
  "BackpressureMonitor_new cfg = \<lparr>bp_config = cfg, current_depth = 0, previous_depth = 0,
     quanta_since_drain = 0, hol_blocked = False, was_congested = False, bp_stats = BackpressureStats_zero\<rparr>"

definition BackpressureMonitor_reset_stats :: "BackpressureMonitor \<Rightarrow> BackpressureMonitor" where
  "BackpressureMonitor_reset_stats m = m\<lparr>bp_stats := BackpressureStats_zero\<rparr>"

definition BackpressureMonitor_update_queue_depth :: "BackpressureMonitor \<Rightarrow> u16 \<Rightarrow> BackpressureMonitor" where
  "BackpressureMonitor_update_queue_depth m depth =
     (let prev = current_depth m;
          is_congested = (depth \<ge> congestion_threshold (bp_config m));
          st = bp_stats m;
          st1 = st\<lparr>total_samples := total_samples st + 1\<rparr>;
          st2 = (if is_congested \<and> \<not> was_congested m
                 then st1\<lparr>congestion_events := congestion_events st1 + 1\<rparr> else st1);
          st3 = (if depth \<ge> critical_threshold (bp_config m)
                 then st2\<lparr>critical_events := critical_events st2 + 1\<rparr> else st2);
          m' = m\<lparr>previous_depth := prev, current_depth := depth, was_congested := is_congested, bp_stats := st3\<rparr>
      in if depth < prev then m'\<lparr>quanta_since_drain := 0, hol_blocked := False\<rparr> else m')"

definition BackpressureMonitor_tick :: "BackpressureMonitor \<Rightarrow> u16 \<Rightarrow> BackpressureMonitor" where
  "BackpressureMonitor_tick m quanta =
     (let cfg = bp_config m;
          m1 = (if current_depth m \<ge> congestion_threshold cfg
                then m\<lparr>bp_stats := (bp_stats m)\<lparr>total_congested_time_quanta :=
                       total_congested_time_quanta (bp_stats m) + ucast quanta\<rparr>\<rparr> else m)
      in
      if enable_head_of_line_detection cfg \<and> current_depth m \<ge> previous_depth m \<and> current_depth m > 0
      then
        let m2 = m1\<lparr>quanta_since_drain := quanta_since_drain m1 + quanta\<rparr> in
        if quanta_since_drain m2 \<ge> hol_timeout_quanta cfg \<and> \<not> hol_blocked m2
        then m2\<lparr>hol_blocked := True,
                bp_stats := (bp_stats m2)\<lparr>hol_blocking_events := hol_blocking_events (bp_stats m2) + 1\<rparr>\<rparr>
        else m2
      else m1)"

definition BackpressureMonitor_congestion_level :: "BackpressureMonitor \<Rightarrow> CongestionLevel" where
  "BackpressureMonitor_congestion_level m =
     (let cfg = bp_config m; d = current_depth m in
      if d \<ge> critical_threshold cfg then CongCritical
      else if d \<ge> congestion_threshold cfg then CongHigh
      else if d \<ge> queue_capacity cfg div 2 then CongMedium
      else if d \<ge> queue_capacity cfg div 4 then CongLow
      else CongNone)"

definition BackpressureMonitor_queue_occupancy_percent :: "BackpressureMonitor \<Rightarrow> u8" where
  "BackpressureMonitor_queue_occupancy_percent m =
     (if queue_capacity (bp_config m) = 0 then 0
      else
        let percent = (ucast (current_depth m) * 100 :: u32) div ucast (queue_capacity (bp_config m))
        in ucast (min percent 100))"

definition BackpressureMonitor_should_apply_backpressure :: "BackpressureMonitor \<Rightarrow> bool" where
  "BackpressureMonitor_should_apply_backpressure m \<longleftrightarrow>
     current_depth m \<ge> congestion_threshold (bp_config m) \<or> hol_blocked m"

fun pause_time_for :: "CongestionLevel \<Rightarrow> u16" where
  "pause_time_for CongCritical = 1000"
| "pause_time_for CongHigh = 500"
| "pause_time_for CongMedium = 200"
| "pause_time_for CongLow = 50"
| "pause_time_for CongNone = 0"

definition BackpressureMonitor_recommended_pause_time :: "BackpressureMonitor \<Rightarrow> u16" where
  "BackpressureMonitor_recommended_pause_time m = pause_time_for (BackpressureMonitor_congestion_level m)"

section \<open>Energy-efficient Ethernet\<close>

datatype PowerState = PsActive | PsLPI | PsWakeTransit | PsSleepTransit

record EEEConfig =
  eee_enabled :: bool
  idle_threshold_quanta :: u16
  wake_time_quanta :: u16
  sleep_time_quanta :: u16
  min_lpi_duration_quanta :: u16

record EEEStats =
  lpi_enter_count :: u64
  lpi_exit_count :: u64
  total_lpi_time_quanta :: u64
  total_active_time_quanta :: u64
  wake_events :: u64

definition EEEStats_zero :: EEEStats where
  "EEEStats_zero = \<lparr>lpi_enter_count = 0, lpi_exit_count = 0, total_lpi_time_quanta = 0,
     total_active_time_quanta = 0, wake_events = 0\<rparr>"

record EEEManager =
  eee_config :: EEEConfig
  power_state :: PowerState
  idle_timer :: u16
  transition_timer :: u16
  lpi_duration :: u16
  eee_stats :: EEEStats

definition EEEManager_new :: "EEEConfig \<Rightarrow> EEEManager" where
  "EEEManager_new cfg = \<lparr>eee_config = cfg, power_state = PsActive, idle_timer = 0, transition_timer = 0,
     lpi_duration = 0, eee_stats = EEEStats_zero\<rparr>"

definition EEEManager_reset_stats :: "EEEManager \<Rightarrow> EEEManager" where
  "EEEManager_reset_stats m = m\<lparr>eee_stats := EEEStats_zero\<rparr>"

definition EEEManager_transition_to :: "EEEManager \<Rightarrow> PowerState \<Rightarrow> EEEManager" where
  "EEEManager_transition_to m new_state =
     (if power_state m = new_state then m
      else
        let st = eee_stats m;
            m1 = (if new_state = PsLPI
                  then m\<lparr>eee_stats := st\<lparr>lpi_enter_count := lpi_enter_count st + 1\<rparr>, lpi_duration := 0\<rparr>
                  else if power_state m = PsLPI
                  then m\<lparr>eee_stats := st\<lparr>lpi_exit_count := lpi_exit_count st + 1\<rparr>\<rparr>
                  else m);
            m2 = m1\<lparr>power_state := new_state, transition_timer := 0\<rparr>
        in if new_state = PsActive then m2\<lparr>idle_timer := 0\<rparr> else m2)"

definition EEEManager_on_traffic_activity :: "EEEManager \<Rightarrow> EEEManager" where
  "EEEManager_on_traffic_activity m =
     (if \<not> eee_enabled (eee_config m) then m
      else
        let m1 = m\<lparr>idle_timer := 0\<rparr> in
        if power_state m1 = PsLPI
        then EEEManager_transition_to
               (m1\<lparr>eee_stats := (eee_stats m1)\<lparr>wake_events := wake_events (eee_stats m1) + 1\<rparr>\<rparr>) PsWakeTransit
        else if power_state m1 = PsSleepTransit then EEEManager_transition_to m1 PsActive
        else m1)"

definition EEEManager_on_idle_period :: "EEEManager \<Rightarrow> u16 \<Rightarrow> EEEManager" where
  "EEEManager_on_idle_period m idle_quanta =
     (if \<not> eee_enabled (eee_config m) \<or> power_state m \<noteq> PsActive then m
      else
        let m1 = m\<lparr>idle_timer := idle_timer m + idle_quanta\<rparr> in
        if idle_timer m1 \<ge> idle_threshold_quanta (eee_config m1)
        then EEEManager_transition_to m1 PsSleepTransit else m1)"

definition EEEManager_tick :: "EEEManager \<Rightarrow> u16 \<Rightarrow> EEEManager" where
  "EEEManager_tick m quanta =
     (let st = eee_stats m;
          active = m\<lparr>eee_stats := st\<lparr>total_active_time_quanta := total_active_time_quanta st + ucast quanta\<rparr>\<rparr>
      in
      if \<not> eee_enabled (eee_config m) then active
      else case power_state m of
        PsActive \<Rightarrow> active
      | PsLPI \<Rightarrow> m\<lparr>eee_stats := st\<lparr>total_lpi_time_quanta := total_lpi_time_quanta st + ucast quanta\<rparr>,
                     lpi_duration := lpi_duration m + quanta\<rparr>
      | PsWakeTransit \<Rightarrow>
          (let m1 = m\<lparr>transition_timer := transition_timer m + quanta\<rparr> in
           if transition_timer m1 \<ge> wake_time_quanta (eee_config m1)
           then EEEManager_transition_to m1 PsActive else m1)
      | PsSleepTransit \<Rightarrow>
          (let m1 = m\<lparr>transition_timer := transition_timer m + quanta\<rparr> in
           if transition_timer m1 \<ge> sleep_time_quanta (eee_config m1)
           then EEEManager_transition_to m1 PsLPI else m1))"

definition EEEManager_can_transmit :: "EEEManager \<Rightarrow> bool" where
  "EEEManager_can_transmit m \<longleftrightarrow> power_state m = PsActive"

definition EEEManager_is_in_low_power :: "EEEManager \<Rightarrow> bool" where
  "EEEManager_is_in_low_power m \<longleftrightarrow> power_state m = PsLPI"

definition EEEManager_power_savings_percent :: "EEEManager \<Rightarrow> u8" where
  "EEEManager_power_savings_percent m =
     (let st = eee_stats m; total_time = total_active_time_quanta st + total_lpi_time_quanta st in
      if total_time = 0 then 0
      else ucast (min ((total_lpi_time_quanta st * 50) div total_time) 100))"

section \<open>Frames: lemmas\<close>

lemma lo8_ucast: "lo8 w = ucast w"
proof -
  have "w AND 0xFF = take_bit 8 w" by (simp add: take_bit_eq_mask mask_eq_exp_minus_1)
  then have "lo8 w = ucast (take_bit 8 w)" by (simp only: lo8_def)
  also have "\<dots> = ucast w" by (rule bit_word_eqI) (simp add: bit_simps)
  finally show ?thesis .
qed

lemma be16_hi8_lo8 [simp]: "be16 (hi8 w) (lo8 w) = w"
  by (simp only: lo8_ucast hi8_def be16_of_bytes)

lemma is_pause_mac_control:
  "length p \<ge> 14 \<Longrightarrow> p ! 12 = 0x88 \<Longrightarrow> p ! 13 = 0x08 \<Longrightarrow> PauseFrame_is_pause_frame p"
  by (simp add: PauseFrame_is_pause_frame_def kEtherType_def be16_def)

section \<open>Pausing: lemmas\<close>

text \<open>The frames a manager sends for a sequence of queue depths.\<close>

fun fc_run :: "FlowControlManager \<Rightarrow> u16 list \<Rightarrow> PauseFrame list \<times> FlowControlManager" where
  "fc_run m [] = ([], m)"
| "fc_run m (d # ds) =
     (let (f, m') = FlowControlManager_generate_pause_frame m d;
          (fs, m'') = fc_run m' ds
      in ((case f of None \<Rightarrow> fs | Some f \<Rightarrow> f # fs), m''))"

text \<open>The peer's view: pause and resume frames alternate; \<open>paused\<close> says whether the last one was a pause.\<close>

fun alternates :: "u16 \<Rightarrow> bool \<Rightarrow> PauseFrame list \<Rightarrow> bool \<Rightarrow> bool" where
  "alternates t paused [] final = (final = paused)"
| "alternates t paused (f # fs) final =
     (pf_pause_time f = (if paused then 0 else t) \<and> alternates t (\<not> paused) fs final)"

lemma fc_run_config [nic_frame]: "fc_config (snd (FlowControlManager_generate_pause_frame m d)) = fc_config m"
  by (simp add: FlowControlManager_generate_pause_frame_def Let_def)

lemma tick_timer:
  "unat (pause_timer (FlowControlManager_tick m q)) = unat (pause_timer m) - unat q"
  by (auto simp: FlowControlManager_tick_def Let_def word_le_nat_alt word_less_nat_alt unat_sub_if_size
      unat_gt_0 not_le)

lemma tick_accounting:
  "total_paused_time_quanta (fc_stats (FlowControlManager_tick m q)) + ucast (pause_timer (FlowControlManager_tick m q))
     = total_paused_time_quanta (fc_stats m) + ucast (pause_timer m)"
proof -
  have "(ucast (a - b) :: u64) = ucast a - ucast b" if "b < a" for a b :: u16
    using that by (simp add: word_unat_eq_iff unat_sub_if_size unat_ucast_up word_less_nat_alt)
  then show ?thesis by (auto simp: FlowControlManager_tick_def Let_def not_le)
qed

section \<open>Energy-efficient Ethernet: lemmas\<close>

text \<open>The edges of the power state machine.\<close>

inductive power_edge :: "PowerState \<Rightarrow> PowerState \<Rightarrow> bool" where
  stay: "power_edge s s"
| fall_asleep: "power_edge PsActive PsSleepTransit"
| sleep: "power_edge PsSleepTransit PsLPI"
| cancel_sleep: "power_edge PsSleepTransit PsActive"
| wake: "power_edge PsLPI PsWakeTransit"
| awake: "power_edge PsWakeTransit PsActive"

inductive_simps power_edge_simps [simp]:
  "power_edge PsActive s" "power_edge PsLPI s" "power_edge PsWakeTransit s" "power_edge PsSleepTransit s"

text \<open>The calls on a manager. The state carries, as a history variable, whether the link was in low power when the statistics were last reset.\<close>

inductive eee_step :: "bool \<times> EEEManager \<Rightarrow> bool \<times> EEEManager \<Rightarrow> bool" where
  traffic: "eee_step (asleep, m) (asleep, EEEManager_on_traffic_activity m)"
| idle: "eee_step (asleep, m) (asleep, EEEManager_on_idle_period m q)"
| tick: "eee_step (asleep, m) (asleep, EEEManager_tick m q)"
| reset_stats: "eee_step (asleep, m) (EEEManager_is_in_low_power m, EEEManager_reset_stats m)"

inductive_cases eee_stepE: "eee_step (asleep, m) (asleep', m')"

inductive eee_reachable :: "EEEConfig \<Rightarrow> bool \<times> EEEManager \<Rightarrow> bool" for cfg where
  init: "eee_reachable cfg (False, EEEManager_new cfg)"
| step: "eee_reachable cfg s \<Longrightarrow> eee_step s s' \<Longrightarrow> eee_reachable cfg s'"

definition eee_inv :: "bool \<Rightarrow> EEEManager \<Rightarrow> bool" where
  "eee_inv asleep m \<longleftrightarrow>
     lpi_enter_count (eee_stats m) + of_bool asleep = lpi_exit_count (eee_stats m) + of_bool (power_state m = PsLPI)
     \<and> wake_events (eee_stats m) = lpi_exit_count (eee_stats m)
     \<and> (\<not> eee_enabled (eee_config m) \<longrightarrow> power_state m = PsActive)"

lemmas eee_defs = EEEManager_on_traffic_activity_def EEEManager_on_idle_period_def EEEManager_tick_def
  EEEManager_transition_to_def EEEManager_reset_stats_def EEEManager_is_in_low_power_def EEEStats_zero_def Let_def

lemma eee_step_inv: "eee_step (asleep, m) (asleep', m') \<Longrightarrow> eee_inv asleep m \<Longrightarrow> eee_inv asleep' m'"
  by (cases "power_state m"; erule eee_stepE) (auto simp: eee_inv_def eee_defs algebra_simps)

lemma eee_step_edge: "eee_step (asleep, m) (asleep', m') \<Longrightarrow> power_edge (power_state m) (power_state m')"
  by (cases "power_state m"; erule eee_stepE) (auto simp: eee_defs)

lemma eee_step_config: "eee_step (asleep, m) (asleep', m') \<Longrightarrow> eee_config m' = eee_config m"
  by (cases "power_state m"; erule eee_stepE) (auto simp: eee_defs)

lemma eee_tick_active: "power_state m = PsActive \<Longrightarrow> power_state (foldl EEEManager_tick m qs) = PsActive"
  by (induction qs arbitrary: m) (auto simp: eee_defs)

lemma eee_wake_ticks:
  assumes "eee_enabled (eee_config m)" "power_state m = PsWakeTransit"
    and "transition_timer m < wake_time_quanta (eee_config m) \<or> wake_time_quanta (eee_config m) = 0" and "qs \<noteq> []"
    and "\<forall>q \<in> set qs. unat (wake_time_quanta (eee_config m)) + unat q \<le> 2 ^ 16"
    and "unat (wake_time_quanta (eee_config m)) \<le> unat (transition_timer m) + sum_list (map unat qs)"
  shows "power_state (foldl EEEManager_tick m qs) = PsActive"
  using assms
proof (induction qs arbitrary: m)
  case (Cons q qs)
  let ?w = "wake_time_quanta (eee_config m)" and ?m = "EEEManager_tick m q"
  show ?case
  proof (cases "?w \<le> transition_timer m + q")
    case True
    then have "power_state ?m = PsActive" using Cons.prems by (simp add: eee_defs)
    then show ?thesis by (simp add: eee_tick_active)
  next
    case False
    then have m: "?m = m\<lparr>transition_timer := transition_timer m + q\<rparr>" using Cons.prems by (simp add: eee_defs)
    have "unat (transition_timer m) < unat ?w" using Cons.prems(3) False by (auto simp: word_less_nat_alt)
    then have u: "unat (transition_timer m + q) = unat (transition_timer m) + unat q"
      using Cons.prems(5) by (simp add: unat_word_ariths)
    with False Cons.prems(6) have "qs \<noteq> []" by (auto simp: word_le_nat_alt)
    with Cons.IH [of ?m] Cons.prems False u m show ?thesis by (auto simp: not_le)
  qed
qed simp

section \<open>Properties\<close>

text \<open>a classic pause frame survives serialization: parsing the 64 bytes gives the frame back.\<close>

theorem pause_frame_roundtrip:
  "length (PauseFrame_serialize f) = 64 \<and> PauseFrame_parse (PauseFrame_serialize f) = Some f"
proof -
  have "PauseFrame_is_pause_frame (PauseFrame_serialize f)"
    by (rule is_pause_mac_control) (simp_all add: PauseFrame_serialize_def mac_control_header_def)
  then show ?thesis
    by (simp add: PauseFrame_parse_def) (simp add: PauseFrame_serialize_def mac_control_header_def)
qed

text \<open>A priority pause frame survives serialization, and a frame with another opcode is refused.\<close>

theorem pfc_frame_roundtrip:
  assumes "length (pause_times f) = 8"
  shows "length (PFCFrame_serialize f) = 64 \<and>
    PFCFrame_parse (PFCFrame_serialize f) = (if pfc_opcode f = kOpcodePFC then Some f else None)"
proof -
  have eight: "[0..<8] = [0, 1, 2, 3, 4, 5, 6, 7 :: nat]" by (simp add: upt_rec)
  have times: "map ((!) (pause_times f)) [0..<8] = pause_times f" using assms by (metis map_nth)
  have "PauseFrame_is_pause_frame (PFCFrame_serialize f)"
    by (rule is_pause_mac_control) (simp_all add: PFCFrame_serialize_def mac_control_header_def eight)
  then show ?thesis
    using times by (simp add: PFCFrame_parse_def Let_def)
      (simp add: PFCFrame_serialize_def mac_control_header_def eight)
qed

theorem pfc_frame_roundtrip_witness:
  "PFCFrame_parse (PFCFrame_serialize PFCFrame_default) = Some PFCFrame_default"
  using pfc_frame_roundtrip [of PFCFrame_default] by (simp add: PFCFrame_default_def)

text \<open>The pause and resume frames the manager sends alternate, whatever the queue depths: a pause is
  never repeated, a resume never comes first, and the manager's flag is the peer's state.\<close>

theorem pause_resume_alternate:
  assumes "fc_run m depths = (frames, m')"
  shows "alternates (default_pause_time (fc_config m)) (pause_sent m) frames (pause_sent m')"
  using assms
proof (induction depths arbitrary: m frames)
  case (Cons d ds)
  obtain f m1 where g: "FlowControlManager_generate_pause_frame m d = (f, m1)" by fastforce
  obtain fs where r: "fc_run m1 ds = (fs, m')" "frames = (case f of None \<Rightarrow> fs | Some f \<Rightarrow> f # fs)"
    using Cons.prems g by (auto split: prod.splits)
  have "fc_config m1 = fc_config m" using fc_run_config [of m d] g by simp
  with Cons.IH [OF r(1)] r(2) g show ?case
    by (auto simp: FlowControlManager_generate_pause_frame_def Let_def split: if_splits)
qed simp

theorem pause_resume_alternate_witness:
  "alternates 9 False (fst (fc_run (FlowControlManager_new \<lparr>rx_pause_enabled = True, tx_pause_enabled = True,
      pause_threshold = 8, resume_threshold = 4, default_pause_time = 9\<rparr>) [2, 8, 9, 3])) False"
proof -
  let ?m = "FlowControlManager_new \<lparr>rx_pause_enabled = True, tx_pause_enabled = True,
      pause_threshold = 8, resume_threshold = 4, default_pause_time = 9\<rparr>"
  have "\<not> pause_sent (snd (fc_run ?m [2, 8, 9, 3]))"
    by (simp add: FlowControlManager_new_def FlowControlManager_generate_pause_frame_def Let_def)
  then show ?thesis
    using pause_resume_alternate [of ?m "[2, 8, 9, 3]" "fst (fc_run ?m [2, 8, 9, 3])" "snd (fc_run ?m [2, 8, 9, 3])"]
    by (simp add: FlowControlManager_new_def)
qed

text \<open>A received pause holds for exactly its time: after ticks of any sizes the remaining time is the
  received time less the elapsed time, and transmission resumes when it is used up. The time accounted as
  paused and the time remaining always add up to the time received.\<close>

theorem pause_expires:
  assumes "rx_pause_enabled (fc_config m)"
    and m'_def: "m' = foldl FlowControlManager_tick (FlowControlManager_on_pause_frame_received m f) qs"
  shows "unat (pause_timer m') = unat (pf_pause_time f) - sum_list (map unat qs)
    \<and> FlowControlManager_is_paused m' = (sum_list (map unat qs) < unat (pf_pause_time f))
    \<and> total_paused_time_quanta (fc_stats m') + ucast (pause_timer m')
        = total_paused_time_quanta (fc_stats m) + ucast (pf_pause_time f)"
proof -
  have t: "unat (pause_timer (foldl FlowControlManager_tick m qs)) = unat (pause_timer m) - sum_list (map unat qs)" for m
    by (induction qs arbitrary: m) (simp_all add: tick_timer)
  have a: "total_paused_time_quanta (fc_stats (foldl FlowControlManager_tick m qs))
      + ucast (pause_timer (foldl FlowControlManager_tick m qs))
      = total_paused_time_quanta (fc_stats m) + ucast (pause_timer m)" for m
    by (induction qs arbitrary: m) (simp_all add: tick_accounting)
  show ?thesis
    unfolding m'_def FlowControlManager_is_paused_def word_less_nat_alt t a
    using assms(1) by (simp add: FlowControlManager_on_pause_frame_received_def)
qed

theorem pause_expires_witness:
  "FlowControlManager_is_paused (foldl FlowControlManager_tick
     (FlowControlManager_on_pause_frame_received (FlowControlManager_new \<lparr>rx_pause_enabled = True,
        tx_pause_enabled = True, pause_threshold = 8, resume_threshold = 4, default_pause_time = 9\<rparr>)
        \<lparr>pf_opcode = 1, pf_pause_time = 10\<rparr>) [4, 5])"
  using pause_expires [of "FlowControlManager_new \<lparr>rx_pause_enabled = True,
        tx_pause_enabled = True, pause_threshold = 8, resume_threshold = 4, default_pause_time = 9\<rparr>"
        _ "\<lparr>pf_opcode = 1, pf_pause_time = 10\<rparr>" "[4, 5]", OF _ refl]
  by (simp add: FlowControlManager_new_def)

text \<open>C23: in every state of the energy-efficient Ethernet manager that its calls reach, including resets of the statistics, every call follows an edge
  of the power state machine (so the link never leaves low power without a wake transition). The entries to low power counted since the
  last reset of the statistics, plus one if the link was in low power at that reset, are the exits counted since then, plus one if the link is in low power now; without a reset the
  entries exceed the exits exactly while in low power. Every exit is a wake event, and a manager that is not enabled stays active.\<close>

theorem eee_reachable_invariant:
  assumes "eee_reachable cfg (asleep, m)"
  shows "eee_inv asleep m \<and> eee_config m = cfg
    \<and> (\<forall>asleep' m'. eee_step (asleep, m) (asleep', m') \<longrightarrow> power_edge (power_state m) (power_state m'))"
  using assms
proof (induction "(asleep, m)" arbitrary: asleep m rule: eee_reachable.induct)
  case init
  have "eee_inv False (EEEManager_new cfg)" "eee_config (EEEManager_new cfg) = cfg"
    by (simp_all add: eee_inv_def EEEManager_new_def EEEStats_zero_def)
  then show ?case using eee_step_edge by blast
next
  case (step s)
  obtain a0 m0 where s: "s = (a0, m0)" by fastforce
  with step.hyps(2) [OF s] step.hyps(3) show ?case using eee_step_inv eee_step_edge eee_step_config by metis
qed

abbreviation demo_eee :: EEEConfig where
  "demo_eee \<equiv> \<lparr>eee_enabled = True, idle_threshold_quanta = 100, wake_time_quanta = 50,
     sleep_time_quanta = 20, min_lpi_duration_quanta = 500\<rparr>"

theorem eee_reachable_invariant_witness:
  "eee_inv True (EEEManager_reset_stats (EEEManager_tick (EEEManager_on_idle_period (EEEManager_new demo_eee) 200) 30))"
proof -
  let ?m = "EEEManager_tick (EEEManager_on_idle_period (EEEManager_new demo_eee) 200) 30"
  have "eee_reachable demo_eee (EEEManager_is_in_low_power ?m, EEEManager_reset_stats ?m)"
    by (rule eee_reachable.step [OF eee_reachable.step [OF eee_reachable.step [OF eee_reachable.init eee_step.idle] eee_step.tick] eee_step.reset_stats])
  moreover have "EEEManager_is_in_low_power ?m" by (simp add: eee_defs EEEManager_new_def)
  ultimately show ?thesis using eee_reachable_invariant [of demo_eee True "EEEManager_reset_stats ?m"] by simp
qed

text \<open>a link in low power that sees traffic becomes active again: ticks that add up to the wake time
  are enough, provided no tick is so long that the 16-bit transition timer wraps.\<close>

theorem eee_wakes:
  assumes "eee_enabled (eee_config m)" and "power_state m = PsLPI" and "qs \<noteq> []"
    and "\<forall>q \<in> set qs. unat (wake_time_quanta (eee_config m)) + unat q \<le> 2 ^ 16"
    and "unat (wake_time_quanta (eee_config m)) \<le> sum_list (map unat qs)"
  shows "EEEManager_can_transmit (foldl EEEManager_tick (EEEManager_on_traffic_activity m) qs)"
proof -
  let ?m = "EEEManager_on_traffic_activity m"
  have "eee_config ?m = eee_config m" "power_state ?m = PsWakeTransit" "transition_timer ?m = 0"
    using assms by (simp_all add: eee_defs)
  then show ?thesis
    unfolding EEEManager_can_transmit_def using assms by (intro eee_wake_ticks) (auto simp: word_gt_0)
qed

theorem eee_wakes_witness:
  "EEEManager_can_transmit (foldl EEEManager_tick
     (EEEManager_on_traffic_activity ((EEEManager_new demo_eee)\<lparr>power_state := PsLPI\<rparr>)) [30, 30])"
  using eee_wakes [of "(EEEManager_new demo_eee)\<lparr>power_state := PsLPI\<rparr>" "[30, 30]"]
  by (simp add: EEEManager_new_def)

end
