(* ===== verification/Nic_Error_Injector.thy ===== *)
theory Nic_Error_Injector
  imports Nic_Prelude
begin

text \<open>
  Fault injection (\<^verbatim>\<open>error_injector.h/.cpp\<close>). The atomics of an active error are plain fields here: the
  model runs the calls one after the other. The theory shows when a one-shot error fires.
\<close>

datatype ErrorType = ErrNone | DMAReadFail | DMAWriteFail | InvalidDescriptor | ChecksumErrorType
  | QueueFullType | TimeoutType

record ErrorConfig =
  err_type :: ErrorType
  target_queue :: u16
  trigger_count :: u32
  cfg_inject_count :: u32
  one_shot :: bool

record ActiveError =
  err_config :: ErrorConfig
  operation_count :: u32
  inject_count :: u32
  err_enabled :: bool

type_synonym ErrorInjector = "ActiveError list"

definition ErrorInjector_configure :: "ErrorInjector \<Rightarrow> ErrorConfig \<Rightarrow> ErrorInjector" where
  "ErrorInjector_configure es config =
     (if err_type config = ErrNone then es
      else es @ [\<lparr>err_config = config, operation_count = 0, inject_count = 0, err_enabled = True\<rparr>])"

text \<open>One round of the loop on an error that may match: whether it injects, and its new state.\<close>

definition inject_one :: "ErrorType \<Rightarrow> u16 \<Rightarrow> ActiveError \<Rightarrow> bool \<times> ActiveError" where
  "inject_one type queue_id e =
     (let cfg = err_config e in
      if err_type cfg \<noteq> type then (False, e)
      else if \<not> err_enabled e then (False, e)
      else if target_queue cfg \<noteq> 0xFFFF \<and> target_queue cfg \<noteq> queue_id then (False, e)
      else
        let ops = operation_count e;
            e1 = e\<lparr>operation_count := ops + 1\<rparr>
        in
        if ops < trigger_count cfg then (False, e1)
        else if one_shot cfg then
          let injected = inject_count e1;
              e2 = e1\<lparr>inject_count := injected + 1\<rparr>
          in if injected \<ge> cfg_inject_count cfg then (False, e2\<lparr>err_enabled := False\<rparr>) else (True, e2)
        else (True, e1))"

fun ErrorInjector_should_inject :: "ErrorInjector \<Rightarrow> ErrorType \<Rightarrow> u16 \<Rightarrow> bool \<times> ErrorInjector" where
  "ErrorInjector_should_inject [] type queue_id = (False, [])"
| "ErrorInjector_should_inject (e # es) type queue_id =
     (let (hit, e') = inject_one type queue_id e in
      if hit then (True, e' # es)
      else let (r, es') = ErrorInjector_should_inject es type queue_id in (r, e' # es'))"

definition ErrorInjector_disable_all :: "ErrorInjector \<Rightarrow> ErrorInjector" where
  "ErrorInjector_disable_all es = []"

definition ErrorInjector_active_errors :: "ErrorInjector \<Rightarrow> ErrorConfig list" where
  "ErrorInjector_active_errors es = map err_config (filter err_enabled es)"

section \<open>Runs\<close>

text \<open>The answers to \<open>n\<close> calls for one type and queue.\<close>

fun inject_run :: "ErrorInjector \<Rightarrow> ErrorType \<Rightarrow> u16 \<Rightarrow> nat \<Rightarrow> bool list" where
  "inject_run es type q 0 = []"
| "inject_run es type q (Suc n) =
     (let (r, es') = ErrorInjector_should_inject es type q in r # inject_run es' type q n)"

lemma inject_run_disabled: "\<not> err_enabled e \<Longrightarrow> inject_run [e] type q n = replicate n False"
  by (induction n) (simp_all add: inject_one_def Let_def)

lemma inject_run_one_shot:
  assumes "one_shot cfg" and "target_queue cfg \<in> {0xFFFF, q}"
    and "unat (trigger_count cfg) + unat (cfg_inject_count cfg) < 2 ^ 32 - 1"
    and "k \<le> unat (trigger_count cfg) + unat (cfg_inject_count cfg)"
  shows "inject_run [\<lparr>err_config = cfg, operation_count = of_nat k,
      inject_count = of_nat (k - unat (trigger_count cfg)), err_enabled = True\<rparr>] (err_type cfg) q n
    = map (\<lambda>i. unat (trigger_count cfg) \<le> i \<and> i < unat (trigger_count cfg) + unat (cfg_inject_count cfg)) [k..<k + n]"
  using assms(4)
proof (induction n arbitrary: k)
  case (Suc n)
  let ?t = "unat (trigger_count cfg)" and ?i = "unat (cfg_inject_count cfg)"
  have k: "unat (of_nat k :: u32) = k" using Suc.prems assms(3) by (simp add: unat_of_nat take_bit_nat_eq_self)
  have j: "unat (of_nat (k - ?t) :: u32) = k - ?t"
    using Suc.prems assms(3) by (simp add: unat_of_nat take_bit_nat_eq_self)
  have upt: "[k..<k + Suc n] = k # [Suc k..<Suc k + n]" by (simp add: upt_rec)
  have off: "inject_run [e] (err_type cfg) q n = map (\<lambda>i. ?t \<le> i \<and> i < ?t + ?i) [Suc k..<Suc k + n]"
    if "\<not> err_enabled e" "k = ?t + ?i" for e
    using that by (auto simp: inject_run_disabled list_eq_iff_nth_eq simp del: upt_Suc)
  consider "k < ?t" | "?t \<le> k" "k < ?t + ?i" | "k = ?t + ?i" "?t \<le> k" using Suc.prems by linarith
  then show ?case
  proof cases
    case 1
    then show ?thesis
      using Suc.IH [of "Suc k"] assms(1,2) k unfolding upt
      by (auto simp: inject_one_def Let_def word_less_nat_alt add.commute simp del: upt_Suc)
  next
    case 2
    then have "Suc k - ?t = Suc (k - ?t)" by simp
    with 2 show ?thesis
      using Suc.IH [of "Suc k"] assms(1,2) k j unfolding upt
      by (auto simp: inject_one_def Let_def word_less_nat_alt word_le_nat_alt add.commute simp del: upt_Suc)
  next
    case 3
    then show ?thesis
      using off assms(1,2) k j unfolding upt
      by (auto simp: inject_one_def Let_def word_less_nat_alt word_le_nat_alt simp del: upt_Suc)
  qed
qed simp

section \<open>Properties\<close>

text \<open>a one-shot error fires exactly \<open>inject_count\<close> times: of the calls that match it, the first
  \<open>trigger_count\<close> pass, the next \<open>inject_count\<close> fail and every later one passes.\<close>

theorem one_shot_injects_exactly:
  assumes "err_type cfg \<noteq> ErrNone" and "one_shot cfg" and "target_queue cfg = 0xFFFF \<or> target_queue cfg = q"
    and "unat (trigger_count cfg) + unat (cfg_inject_count cfg) < 2 ^ 32 - 1"
  shows "inject_run (ErrorInjector_configure [] cfg) (err_type cfg) q n
    = map (\<lambda>i. unat (trigger_count cfg) \<le> i \<and> i < unat (trigger_count cfg) + unat (cfg_inject_count cfg)) [0..<n]"
  using inject_run_one_shot [of cfg q 0 n] assms by (simp add: ErrorInjector_configure_def)

theorem one_shot_injects_exactly_witness:
  "inject_run (ErrorInjector_configure [] \<lparr>err_type = DMAReadFail, target_queue = 3, trigger_count = 1,
      cfg_inject_count = 2, one_shot = True\<rparr>) DMAReadFail 3 5 = [False, True, True, False, False]"
  using one_shot_injects_exactly [of "\<lparr>err_type = DMAReadFail, target_queue = 3, trigger_count = 1,
      cfg_inject_count = 2, one_shot = True\<rparr>" 3 5] by (simp add: upt_rec)

end
