(* ===== verification/Nic_Sriov.thy ===== *)
theory Nic_Sriov
  imports Nic_Prelude
begin

text \<open>
  SR-IOV: the virtual functions of \<^verbatim>\<open>virtual_function.cpp\<close> and the manager of \<^verbatim>\<open>pf_vf_manager.cpp\<close> that hands out queues
  and interrupt vectors to them. The theory shows isolation: over every sequence of calls the queues and vectors of two
  virtual functions do not overlap, none of them belongs to the physical function or lies outside the device, and
  the allocation maps say exactly what is taken, so that a creation fails only when no free contiguous range is left.
\<close>

section \<open>Virtual functions\<close>

record VFConfig =
  vfc_vf_id :: u16
  num_queues :: u16
  num_vectors :: u16
  vfc_enabled :: bool
  vfc_trust :: bool

datatype VFState = VfDisabled | VfEnabled | VfReset | VfFLRInProgress

record VFStats =
  vf_tx_packets :: u64
  vf_rx_packets :: u64
  vf_tx_bytes :: u64
  vf_rx_bytes :: u64
  vf_tx_drops :: u64
  vf_rx_drops :: u64
  vf_resets :: u64
  mailbox_messages :: u64

definition VFStats_zero :: VFStats where
  "VFStats_zero = \<lparr>vf_tx_packets = 0, vf_rx_packets = 0, vf_tx_bytes = 0, vf_rx_bytes = 0, vf_tx_drops = 0, vf_rx_drops = 0,
     vf_resets = 0, mailbox_messages = 0\<rparr>"

record VirtualFunction =
  vf_config :: VFConfig
  vf_state :: VFState
  vf_stats :: VFStats
  queue_ids :: "u16 list"
  vector_ids :: "u16 list"

definition VirtualFunction_new :: "VFConfig \<Rightarrow> VirtualFunction" where
  "VirtualFunction_new c = \<lparr>vf_config = c, vf_state = VfDisabled, vf_stats = VFStats_zero, queue_ids = [], vector_ids = []\<rparr>"

definition VirtualFunction_enable :: "VirtualFunction \<Rightarrow> bool \<times> VirtualFunction" where
  "VirtualFunction_enable v =
     (if vf_state v = VfEnabled then (True, v)
      else if vf_state v = VfFLRInProgress then (False, v)
      else (True, v\<lparr>vf_state := VfEnabled, vf_config := (vf_config v)\<lparr>vfc_enabled := True\<rparr>\<rparr>))"

definition VirtualFunction_disable :: "VirtualFunction \<Rightarrow> bool \<times> VirtualFunction" where
  "VirtualFunction_disable v =
     (if vf_state v = VfDisabled then (True, v)
      else if vf_state v = VfFLRInProgress then (False, v)
      else (True, v\<lparr>vf_state := VfDisabled, vf_config := (vf_config v)\<lparr>vfc_enabled := False\<rparr>\<rparr>))"

definition VirtualFunction_reset :: "VirtualFunction \<Rightarrow> bool \<times> VirtualFunction" where
  "VirtualFunction_reset v =
     (let v1 = v\<lparr>vf_state := VfFLRInProgress, vf_stats := (vf_stats v)\<lparr>vf_resets := vf_resets (vf_stats v) + 1\<rparr>\<rparr>
      in (True, v1\<lparr>vf_state := VfReset, vf_config := (vf_config v1)\<lparr>vfc_enabled := False\<rparr>\<rparr>))"

definition set_queue_ids :: "u16 list \<Rightarrow> VirtualFunction \<Rightarrow> VirtualFunction" where
  "set_queue_ids ids v = v\<lparr>queue_ids := ids\<rparr>"

definition set_vector_ids :: "u16 list \<Rightarrow> VirtualFunction \<Rightarrow> VirtualFunction" where
  "set_vector_ids ids v = v\<lparr>vector_ids := ids\<rparr>"

definition record_tx_packet :: "u64 \<Rightarrow> VirtualFunction \<Rightarrow> VirtualFunction" where
  "record_tx_packet n v = v\<lparr>vf_stats := (vf_stats v)\<lparr>vf_tx_packets := vf_tx_packets (vf_stats v) + 1,
     vf_tx_bytes := vf_tx_bytes (vf_stats v) + n\<rparr>\<rparr>"

definition record_rx_packet :: "u64 \<Rightarrow> VirtualFunction \<Rightarrow> VirtualFunction" where
  "record_rx_packet n v = v\<lparr>vf_stats := (vf_stats v)\<lparr>vf_rx_packets := vf_rx_packets (vf_stats v) + 1,
     vf_rx_bytes := vf_rx_bytes (vf_stats v) + n\<rparr>\<rparr>"

definition record_tx_drop :: "VirtualFunction \<Rightarrow> VirtualFunction" where
  "record_tx_drop v = v\<lparr>vf_stats := (vf_stats v)\<lparr>vf_tx_drops := vf_tx_drops (vf_stats v) + 1\<rparr>\<rparr>"

definition record_rx_drop :: "VirtualFunction \<Rightarrow> VirtualFunction" where
  "record_rx_drop v = v\<lparr>vf_stats := (vf_stats v)\<lparr>vf_rx_drops := vf_rx_drops (vf_stats v) + 1\<rparr>\<rparr>"

definition record_mailbox_message :: "VirtualFunction \<Rightarrow> VirtualFunction" where
  "record_mailbox_message v = v\<lparr>vf_stats := (vf_stats v)\<lparr>mailbox_messages := mailbox_messages (vf_stats v) + 1\<rparr>\<rparr>"

definition VirtualFunction_reset_stats :: "VirtualFunction \<Rightarrow> VirtualFunction" where
  "VirtualFunction_reset_stats v = v\<lparr>vf_stats := VFStats_zero\<rparr>"

section \<open>The manager\<close>

record PFConfig =
  max_vfs :: u16
  total_queues :: u16
  total_vectors :: u16
  pf_reserved_queues :: u16
  pf_reserved_vectors :: u16

definition PFConfig_default :: PFConfig where
  "PFConfig_default = \<lparr>max_vfs = 64, total_queues = 128, total_vectors = 128, pf_reserved_queues = 8, pf_reserved_vectors = 8\<rparr>"

record ResourceAllocation =
  queue_start :: u16
  queue_count :: u16
  vector_start :: u16
  vector_count :: u16

record PFVFManager =
  pf_config :: PFConfig
  vfs :: "(u16 \<times> VirtualFunction) list"
  vf_allocations :: "(u16 \<times> ResourceAllocation) list"
  queue_allocated :: "bool list"
  vector_allocated :: "bool list"

text \<open>\<^verbatim>\<open>mark_queues\<close> and \<^verbatim>\<open>mark_vectors\<close> differ in the map they mark, and so do the two searches: each pair shares
  its loop. The sums are \<^verbatim>\<open>int\<close> sums, which do not wrap.\<close>

definition mark_range :: "u16 \<Rightarrow> u16 \<Rightarrow> bool \<Rightarrow> bool list \<Rightarrow> bool list" where
  "mark_range start n allocated bs =
     fold (\<lambda>i bs. if unat start + i < length bs then bs[unat start + i := allocated] else bs) [0..<unat n] bs"

definition range_free :: "bool list \<Rightarrow> nat \<Rightarrow> nat \<Rightarrow> bool" where
  "range_free bs start n \<longleftrightarrow> list_all (\<lambda>i. \<not> bs ! (start + i)) [0..<n]"

text \<open>The map has at most \<open>2 ^ 16 - 1\<close> entries, so the 16-bit loop counter does not wrap and the value \<open>0xFFFF\<close> is no position.\<close>

function find_range_loop :: "bool list \<Rightarrow> nat \<Rightarrow> nat \<Rightarrow> u16" where
  "find_range_loop bs n start =
     (if start \<le> length bs - n then
        if range_free bs start n then of_nat start else find_range_loop bs n (start + 1)
      else 0xFFFF)"
  by pat_completeness auto
termination
  by (relation "measure (\<lambda>(bs, n, start). length bs - n + 1 - start)") auto

declare find_range_loop.simps [simp del]

definition find_free_range :: "bool list \<Rightarrow> u16 \<Rightarrow> u16" where
  "find_free_range bs n = (if n = 0 \<or> unat n > length bs then 0xFFFF else find_range_loop bs (unat n) 0)"

definition mark_queues :: "u16 \<Rightarrow> u16 \<Rightarrow> bool \<Rightarrow> PFVFManager \<Rightarrow> PFVFManager" where
  [simp]: "mark_queues start n allocated m = m\<lparr>queue_allocated := mark_range start n allocated (queue_allocated m)\<rparr>"

definition mark_vectors :: "u16 \<Rightarrow> u16 \<Rightarrow> bool \<Rightarrow> PFVFManager \<Rightarrow> PFVFManager" where
  [simp]: "mark_vectors start n allocated m = m\<lparr>vector_allocated := mark_range start n allocated (vector_allocated m)\<rparr>"

definition find_free_queue_range :: "PFVFManager \<Rightarrow> u16 \<Rightarrow> u16" where
  [simp]: "find_free_queue_range m n = find_free_range (queue_allocated m) n"

definition find_free_vector_range :: "PFVFManager \<Rightarrow> u16 \<Rightarrow> u16" where
  [simp]: "find_free_vector_range m n = find_free_range (vector_allocated m) n"

definition PFVFManager_new :: "PFConfig \<Rightarrow> PFVFManager" where
  "PFVFManager_new c = mark_vectors 0 (pf_reserved_vectors c) True (mark_queues 0 (pf_reserved_queues c) True
     \<lparr>pf_config = c, vfs = [], vf_allocations = [],
      queue_allocated = replicate (unat (total_queues c)) False, vector_allocated = replicate (unat (total_vectors c)) False\<rparr>)"

definition try_allocate_resources :: "PFVFManager \<Rightarrow> u16 \<Rightarrow> u16 \<Rightarrow> ResourceAllocation option" where
  "try_allocate_resources m nq nv =
     (let qs = find_free_queue_range m nq in
      if qs = 0xFFFF then None
      else
        let vs = find_free_vector_range m nv in
        if vs = 0xFFFF then None
        else Some \<lparr>queue_start = qs, queue_count = nq, vector_start = vs, vector_count = nv\<rparr>)"

definition has_available_resources :: "PFVFManager \<Rightarrow> u16 \<Rightarrow> u16 \<Rightarrow> bool" where
  "has_available_resources m nq nv \<longleftrightarrow> try_allocate_resources m nq nv \<noteq> None"

definition allocate_resources :: "PFVFManager \<Rightarrow> u16 \<Rightarrow> u16 \<Rightarrow> ResourceAllocation \<times> PFVFManager" where
  "allocate_resources m nq nv =
     (let qs = find_free_queue_range m nq; vs = find_free_vector_range m nv
      in (\<lparr>queue_start = qs, queue_count = nq, vector_start = vs, vector_count = nv\<rparr>,
          mark_vectors vs nv True (mark_queues qs nq True m)))"

definition free_resources :: "PFVFManager \<Rightarrow> ResourceAllocation \<Rightarrow> PFVFManager" where
  "free_resources m a = mark_vectors (vector_start a) (vector_count a) False (mark_queues (queue_start a) (queue_count a) False m)"

definition id_range :: "u16 \<Rightarrow> u16 \<Rightarrow> u16 list" where
  "id_range start n = map (\<lambda>i. start + of_nat i) [0..<unat n]"

definition create_vf :: "PFVFManager \<Rightarrow> u16 \<Rightarrow> VFConfig \<Rightarrow> bool \<times> PFVFManager" where
  "create_vf m vf_id config =
     (if um_lookup (vfs m) vf_id \<noteq> None then (False, m)
      else if length (vfs m) \<ge> unat (max_vfs (pf_config m)) then (False, m)
      else if try_allocate_resources m (num_queues config) (num_vectors config) = None then (False, m)
      else
        let (a, m1) = allocate_resources m (num_queues config) (num_vectors config);
            v = set_vector_ids (id_range (vector_start a) (vector_count a))
                  (set_queue_ids (id_range (queue_start a) (queue_count a)) (VirtualFunction_new config))
        in (True, m1\<lparr>vf_allocations := um_update vf_id a (vf_allocations m1), vfs := um_update vf_id v (vfs m1)\<rparr>))"

definition destroy_vf :: "PFVFManager \<Rightarrow> u16 \<Rightarrow> bool \<times> PFVFManager" where
  "destroy_vf m vf_id =
     (if um_lookup (vfs m) vf_id = None then (False, m)
      else
        let m1 = (case um_lookup (vf_allocations m) vf_id of
                    None \<Rightarrow> m
                  | Some a \<Rightarrow> (free_resources m a)\<lparr>vf_allocations := um_erase vf_id (vf_allocations m)\<rparr>)
        in (True, m1\<lparr>vfs := um_erase vf_id (vfs m1)\<rparr>))"

definition on_vf :: "(VirtualFunction \<Rightarrow> bool \<times> VirtualFunction) \<Rightarrow> PFVFManager \<Rightarrow> u16 \<Rightarrow> bool \<times> PFVFManager" where
  "on_vf f m vf_id =
     (case um_lookup (vfs m) vf_id of
        None \<Rightarrow> (False, m)
      | Some v \<Rightarrow> let (ok, v1) = f v in (ok, m\<lparr>vfs := um_update vf_id v1 (vfs m)\<rparr>))"

definition enable_vf :: "PFVFManager \<Rightarrow> u16 \<Rightarrow> bool \<times> PFVFManager" where
  "enable_vf = on_vf VirtualFunction_enable"

definition disable_vf :: "PFVFManager \<Rightarrow> u16 \<Rightarrow> bool \<times> PFVFManager" where
  "disable_vf = on_vf VirtualFunction_disable"

definition reset_vf :: "PFVFManager \<Rightarrow> u16 \<Rightarrow> bool \<times> PFVFManager" where
  "reset_vf = on_vf VirtualFunction_reset"

definition num_active_vfs :: "PFVFManager \<Rightarrow> nat" where
  "num_active_vfs m = length (filter (\<lambda>(k, v). vf_state v = VfEnabled) (vfs m))"

definition available_queues :: "PFVFManager \<Rightarrow> u16" where
  "available_queues m = of_nat (length (filter Not (queue_allocated m)))"

definition available_vectors :: "PFVFManager \<Rightarrow> u16" where
  "available_vectors m = of_nat (length (filter Not (vector_allocated m)))"

section \<open>Ranges\<close>

lemma mark_fold:
  "length (fold (\<lambda>i bs. if s + i < length bs then bs[s + i := b] else bs) [0..<n] bs) = length bs"
  "i < length bs \<Longrightarrow> fold (\<lambda>i bs. if s + i < length bs then bs[s + i := b] else bs) [0..<n] bs ! i =
     (if s \<le> i \<and> i < s + n then b else bs ! i)"
proof (induction n)
  case (Suc n)
  { case 1 then show ?case using Suc by simp }
  { case 2 then show ?case using Suc by (auto simp: nth_list_update) }
qed auto

lemma mark_range_nth:
  "length (mark_range s n b bs) = length bs"
  "i < length bs \<Longrightarrow> mark_range s n b bs ! i = (if unat s \<le> i \<and> i < unat s + unat n then b else bs ! i)"
  by (simp_all add: mark_range_def mark_fold)

lemma range_free_iff: "range_free bs s n \<longleftrightarrow> (\<forall>i. s \<le> i \<and> i < s + n \<longrightarrow> \<not> bs ! i)"
proof -
  have "(\<forall>i. s \<le> i \<and> i < s + n \<longrightarrow> \<not> bs ! i) \<longleftrightarrow> (\<forall>j < n. \<not> bs ! (s + j))"
    by (metis add_less_cancel_left le_add1 le_iff_add)
  then show ?thesis by (auto simp: range_free_def list_all_iff)
qed

text \<open>The search returns the first free range, or \<open>0xFFFF\<close> when there is none.\<close>

lemma find_range_loop_spec:
  "(\<exists>k. start \<le> k \<and> k \<le> length bs - n \<and> range_free bs k n \<and> find_range_loop bs n start = of_nat k)
   \<or> (\<forall>k. start \<le> k \<and> k \<le> length bs - n \<longrightarrow> \<not> range_free bs k n) \<and> find_range_loop bs n start = 0xFFFF"
proof (induction bs n start rule: find_range_loop.induct)
  case (1 bs n start)
  show ?case
  proof (cases "start \<le> length bs - n \<and> \<not> range_free bs start n")
    case True
    then have eq: "find_range_loop bs n start = find_range_loop bs n (start + 1)" by (subst find_range_loop.simps) simp
    have "start \<le> k \<longleftrightarrow> k = start \<or> start + 1 \<le> k" for k by auto
    then show ?thesis using 1 True unfolding eq by (metis Suc_eq_plus1 Suc_leD)
  next
    case False
    then show ?thesis using find_range_loop.simps [of bs n start] by auto
  qed
qed

lemma find_free_range_spec:
  assumes "length bs < 2 ^ 16"
  shows "find_free_range bs n \<noteq> 0xFFFF \<Longrightarrow> 0 < unat n \<and> unat (find_free_range bs n) + unat n \<le> length bs \<and>
      range_free bs (unat (find_free_range bs n)) (unat n)"
    and "find_free_range bs n = 0xFFFF \<longleftrightarrow> n = 0 \<or> \<not> (\<exists>k. k + unat n \<le> length bs \<and> range_free bs k (unat n))"
proof -
  have pos: "n \<noteq> 0 \<Longrightarrow> 0 < unat n" by (simp add: unat_gt_0)
  consider (small) "n = 0 \<or> unat n > length bs" | (loop) "n \<noteq> 0" "unat n \<le> length bs" by force
  then have "(find_free_range bs n = 0xFFFF \<and> (n = 0 \<or> \<not> (\<exists>k. k + unat n \<le> length bs \<and> range_free bs k (unat n)))) \<or>
     (n \<noteq> 0 \<and> (\<exists>k. k + unat n \<le> length bs \<and> range_free bs k (unat n) \<and> find_free_range bs n = of_nat k \<and> unat (of_nat k :: u16) = k \<and> k < 0xFFFF))"
  proof cases
    case loop
    have b: "k \<le> length bs - unat n \<longleftrightarrow> k + unat n \<le> length bs" for k using loop by auto
    have "unat (of_nat k :: u16) = k \<and> k < 0xFFFF" if "k + unat n \<le> length bs" for k
      using that assms pos [OF loop(1)] by (simp add: unat_of_nat)
    with find_range_loop_spec [of 0 bs "unat n"] loop show ?thesis by (auto simp: find_free_range_def b)
  qed (auto simp: find_free_range_def)
  moreover have "(of_nat k :: u16) \<noteq> 0xFFFF" if "unat (of_nat k :: u16) = k" "k < 0xFFFF" for k
  proof
    assume "(of_nat k :: u16) = 0xFFFF"
    then have "unat (of_nat k :: u16) = 0xFFFF" by simp
    with that show False by linarith
  qed
  ultimately show "find_free_range bs n \<noteq> 0xFFFF \<Longrightarrow> 0 < unat n \<and> unat (find_free_range bs n) + unat n \<le> length bs \<and>
      range_free bs (unat (find_free_range bs n)) (unat n)"
    and "find_free_range bs n = 0xFFFF \<longleftrightarrow> n = 0 \<or> \<not> (\<exists>k. k + unat n \<le> length bs \<and> range_free bs k (unat n))"
    using pos by auto
qed

section \<open>Allocation maps\<close>

text \<open>The map \<open>bs\<close> of \<open>tot\<close> items marks the reserved ones and the ranges \<open>R\<close> assigns, which are disjoint.\<close>

definition tracks :: "nat \<Rightarrow> nat \<Rightarrow> (u16 \<Rightarrow> (nat \<times> nat) option) \<Rightarrow> bool list \<Rightarrow> bool" where
  "tracks tot res R bs \<longleftrightarrow> length bs = tot \<and>
     (\<forall>k s n. R k = Some (s, n) \<longrightarrow> 0 < n \<and> res \<le> s \<and> s + n \<le> tot) \<and>
     (\<forall>k k' s n s' n'. k \<noteq> k' \<longrightarrow> R k = Some (s, n) \<longrightarrow> R k' = Some (s', n') \<longrightarrow> s + n \<le> s' \<or> s' + n' \<le> s) \<and>
     (\<forall>i < tot. bs ! i \<longleftrightarrow> i < res \<or> (\<exists>k s n. R k = Some (s, n) \<and> s \<le> i \<and> i < s + n))"

lemma tracks_bounds:
  "tracks tot res R bs \<Longrightarrow> R k = Some (s, n) \<Longrightarrow> 0 < n \<and> res \<le> s \<and> s + n \<le> tot"
  unfolding tracks_def by blast

lemma tracks_disjoint:
  "tracks tot res R bs \<Longrightarrow> R k = Some (s, n) \<Longrightarrow> R k' = Some (s', n') \<Longrightarrow> k \<noteq> k' \<Longrightarrow> s + n \<le> s' \<or> s' + n' \<le> s"
  unfolding tracks_def by blast

lemma tracks_taken:
  "tracks tot res R bs \<Longrightarrow> i < tot \<Longrightarrow> bs ! i \<longleftrightarrow> i < res \<or> (\<exists>k s n. R k = Some (s, n) \<and> s \<le> i \<and> i < s + n)"
  unfolding tracks_def by blast

lemma tracksI:
  assumes "length bs = tot"
    and "\<And>k s n. R k = Some (s, n) \<Longrightarrow> 0 < n \<and> res \<le> s \<and> s + n \<le> tot"
    and "\<And>k k' s n s' n'. k \<noteq> k' \<Longrightarrow> R k = Some (s, n) \<Longrightarrow> R k' = Some (s', n') \<Longrightarrow> s + n \<le> s' \<or> s' + n' \<le> s"
    and "\<And>i. i < tot \<Longrightarrow> bs ! i \<longleftrightarrow> i < res \<or> (\<exists>k s n. R k = Some (s, n) \<and> s \<le> i \<and> i < s + n)"
  shows "tracks tot res R bs"
  unfolding tracks_def using assms by blast

lemma tracks_new: "tracks (unat tot) (unat res) (\<lambda>k. None) (mark_range 0 res True (replicate (unat tot) False))"
  by (simp add: tracks_def mark_range_nth)

lemma ex_range_upd:
  assumes "R k = None"
  shows "(\<exists>k' s' n'. (R(k \<mapsto> (s, n))) k' = Some (s', n') \<and> s' \<le> i \<and> i < s' + n') \<longleftrightarrow>
     (s \<le> i \<and> i < s + n) \<or> (\<exists>k' s' n'. R k' = Some (s', n') \<and> s' \<le> i \<and> i < s' + n')" (is "?new \<longleftrightarrow> ?mine \<or> ?old")
proof
  assume "?mine \<or> ?old"
  moreover have "?new" if "?mine"
    using that fun_upd_same [of R k "Some (s, n)"] by blast
  moreover have "?new" if "?old"
  proof -
    from that obtain k' s' n' where "R k' = Some (s', n')" "s' \<le> i" "i < s' + n'" by blast
    moreover from this assms have "(R(k \<mapsto> (s, n))) k' = Some (s', n')" by auto
    ultimately show ?thesis by blast
  qed
  ultimately show ?new by blast
qed (auto split: if_splits)

lemma tracks_alloc:
  assumes t: "tracks tot res R bs" and k: "R k = None" and r: "range_free bs (unat s) (unat n)" "0 < unat n" "unat s + unat n \<le> tot"
  shows "tracks tot res (R(k \<mapsto> (unat s, unat n))) (mark_range s n True bs)"
proof -
  have len: "length bs = tot" using t by (simp add: tracks_def)
  have free: "\<not> bs ! i" if "unat s \<le> i" "i < unat s + unat n" for i using r that by (simp add: range_free_iff)
  have taken: "bs ! i \<longleftrightarrow> i < res \<or> (\<exists>k s n. R k = Some (s, n) \<and> s \<le> i \<and> i < s + n)" if "i < tot" for i
    using t that by (simp add: tracks_def)
  have "res \<le> unat s" using free [of "unat s"] taken [of "unat s"] r by force
  moreover have sep: "s' + n' \<le> unat s \<or> unat s + unat n \<le> s'" if "R k' = Some (s', n')" for k' s' n'
  proof (rule ccontr)
    let ?i = "max s' (unat s)"
    assume "\<not> ?thesis"
    then have overlap: "unat s \<le> ?i" "?i < unat s + unat n" "s' \<le> ?i" "?i < s' + n'"
      using r tracks_bounds [OF t that] by auto
    then have "bs ! ?i" using taken [of ?i] that r by auto
    with free overlap show False by blast
  qed
  moreover have "mark_range s n True bs ! i \<longleftrightarrow> i < res \<or> (\<exists>k' s' n'. (R(k \<mapsto> (unat s, unat n))) k' = Some (s', n') \<and> s' \<le> i \<and> i < s' + n')"
    if "i < tot" for i
  proof -
    have "(\<exists>k' s' n'. (R(k \<mapsto> (unat s, unat n))) k' = Some (s', n') \<and> s' \<le> i \<and> i < s' + n') \<longleftrightarrow>
        (unat s \<le> i \<and> i < unat s + unat n) \<or> (\<exists>k' s' n'. R k' = Some (s', n') \<and> s' \<le> i \<and> i < s' + n')"
      using k by (rule ex_range_upd)
    then show ?thesis using taken [OF that] that by (auto simp: mark_range_nth len)
  qed
  ultimately show ?thesis
    using t r k by (intro tracksI) (auto simp: mark_range_nth len dest: tracks_bounds tracks_disjoint sep split: if_splits)
qed

lemma tracks_free:
  assumes t: "tracks tot res R bs" and k: "R k = Some (unat s, unat n)"
  shows "tracks tot res (R(k := None)) (mark_range s n False bs)"
proof -
  have len: "length bs = tot" using t by (simp add: tracks_def)
  have range: "res \<le> unat s" "unat s + unat n \<le> tot" using tracks_bounds [OF t k] by auto
  have "mark_range s n False bs ! i \<longleftrightarrow> i < res \<or> (\<exists>k' s' n'. (R(k := None)) k' = Some (s', n') \<and> s' \<le> i \<and> i < s' + n')"
    if i: "i < tot" for i
  proof (cases "unat s \<le> i \<and> i < unat s + unat n")
    case True
    then have "\<not> (s' \<le> i \<and> i < s' + n')" if "R k' = Some (s', n')" "k' \<noteq> k" for k' s' n'
      using tracks_disjoint [OF t k that(1)] that(2) by auto
    then show ?thesis using True range i by (auto simp: mark_range_nth len split: if_splits)
  next
    case False
    then have "(\<exists>k' s' n'. (R(k := None)) k' = Some (s', n') \<and> s' \<le> i \<and> i < s' + n') \<longleftrightarrow> (\<exists>k' s' n'. R k' = Some (s', n') \<and> s' \<le> i \<and> i < s' + n')"
      using k by (metis Pair_inject fun_upd_apply option.distinct(1) option.inject)
    then show ?thesis using tracks_taken [OF t i] False by (auto simp: mark_range_nth len i)
  qed
  then show ?thesis
    using len by (intro tracksI) (auto simp: mark_range_nth dest: tracks_bounds [OF t] tracks_disjoint [OF t] split: if_splits)
qed

section \<open>Manager invariant\<close>

definition queue_ranges :: "PFVFManager \<Rightarrow> u16 \<Rightarrow> (nat \<times> nat) option" where
  "queue_ranges m k = map_option (\<lambda>a. (unat (queue_start a), unat (queue_count a))) (um_lookup (vf_allocations m) k)"

definition vector_ranges :: "PFVFManager \<Rightarrow> u16 \<Rightarrow> (nat \<times> nat) option" where
  "vector_ranges m k = map_option (\<lambda>a. (unat (vector_start a), unat (vector_count a))) (um_lookup (vf_allocations m) k)"

definition holds_allocation :: "VirtualFunction option \<Rightarrow> ResourceAllocation option \<Rightarrow> bool" where
  "holds_allocation v a \<longleftrightarrow>
     map_option (\<lambda>v. (queue_ids v, vector_ids v)) v =
     map_option (\<lambda>a. (id_range (queue_start a) (queue_count a), id_range (vector_start a) (vector_count a))) a"

definition manager_ok :: "PFVFManager \<Rightarrow> bool" where
  "manager_ok m \<longleftrightarrow>
     tracks (unat (total_queues (pf_config m))) (unat (pf_reserved_queues (pf_config m))) (queue_ranges m) (queue_allocated m) \<and>
     tracks (unat (total_vectors (pf_config m))) (unat (pf_reserved_vectors (pf_config m))) (vector_ranges m) (vector_allocated m) \<and>
     (\<forall>k. holds_allocation (um_lookup (vfs m) k) (um_lookup (vf_allocations m) k)) \<and>
     um_wf (vfs m) \<and> length (vfs m) \<le> unat (max_vfs (pf_config m))"

lemma holds_allocation_None [simp]: "holds_allocation None a \<longleftrightarrow> a = None" "holds_allocation v None \<longleftrightarrow> v = None"
  by (auto simp: holds_allocation_def)

lemma manager_ok_new: "manager_ok (PFVFManager_new c)"
  by (simp add: manager_ok_def PFVFManager_new_def queue_ranges_def [abs_def] vector_ranges_def [abs_def] tracks_new)

lemma tracks_length: "tracks tot res R bs \<Longrightarrow> length bs = tot"
  by (simp add: tracks_def)

lemma tracks_find:
  assumes "tracks (unat (tot :: u16)) res R bs" "R k = None" "find_free_range bs n \<noteq> 0xFFFF"
  shows "tracks (unat tot) res (R(k \<mapsto> (unat (find_free_range bs n), unat n))) (mark_range (find_free_range bs n) n True bs)"
proof -
  have len: "length bs = unat tot" using assms(1) by (rule tracks_length)
  then have "length bs < 2 ^ 16" using unsigned_less [of tot] by simp
  from find_free_range_spec(1) [OF this assms(3)] show ?thesis
    using tracks_alloc [OF assms(1,2)] len by auto
qed

lemma manager_ok_create: "manager_ok m \<Longrightarrow> manager_ok (snd (create_vf m vf_id c))"
proof (cases "fst (create_vf m vf_id c)")
  case True
  assume ok: "manager_ok m"
  let ?qs = "find_free_range (queue_allocated m) (num_queues c)" and ?vs = "find_free_range (vector_allocated m) (num_vectors c)"
  from True have guards: "um_lookup (vfs m) vf_id = None" "length (vfs m) < unat (max_vfs (pf_config m))"
      "?qs \<noteq> 0xFFFF" "?vs \<noteq> 0xFFFF"
    by (auto simp: create_vf_def try_allocate_resources_def Let_def split: if_splits)
  then have none: "um_lookup (vf_allocations m) vf_id = None"
    using ok unfolding manager_ok_def by (metis holds_allocation_None(1))
  let ?m = "snd (create_vf m vf_id c)"
  have m: "?m = m\<lparr>queue_allocated := mark_range ?qs (num_queues c) True (queue_allocated m),
      vector_allocated := mark_range ?vs (num_vectors c) True (vector_allocated m),
      vf_allocations := um_update vf_id \<lparr>queue_start = ?qs, queue_count = num_queues c, vector_start = ?vs, vector_count = num_vectors c\<rparr> (vf_allocations m),
      vfs := um_update vf_id (set_vector_ids (id_range ?vs (num_vectors c)) (set_queue_ids (id_range ?qs (num_queues c)) (VirtualFunction_new c))) (vfs m)\<rparr>"
    using guards by (simp add: create_vf_def try_allocate_resources_def allocate_resources_def Let_def)
  have "queue_ranges ?m = (queue_ranges m)(vf_id \<mapsto> (unat ?qs, unat (num_queues c)))"
    "vector_ranges ?m = (vector_ranges m)(vf_id \<mapsto> (unat ?vs, unat (num_vectors c)))"
    by (auto simp: m queue_ranges_def vector_ranges_def fun_eq_iff)
  moreover have "queue_ranges m vf_id = None" "vector_ranges m vf_id = None"
    by (simp_all add: queue_ranges_def vector_ranges_def none)
  moreover have "holds_allocation (um_lookup (vfs ?m) k) (um_lookup (vf_allocations ?m) k)" for k
    using ok by (simp add: m manager_ok_def) (simp add: holds_allocation_def set_queue_ids_def set_vector_ids_def)
  ultimately show ?thesis
    using ok guards unfolding manager_ok_def by (simp add: tracks_find m)
next
  case False
  assume "manager_ok m"
  moreover have "snd (create_vf m vf_id c) = m"
    using False by (auto simp: create_vf_def allocate_resources_def Let_def split: if_splits)
  ultimately show ?thesis by simp
qed

lemma manager_ok_destroy: "manager_ok m \<Longrightarrow> manager_ok (snd (destroy_vf m vf_id))"
proof (cases "um_lookup (vfs m) vf_id")
  case (Some v)
  assume ok: "manager_ok m"
  then obtain a where a: "um_lookup (vf_allocations m) vf_id = Some a"
    using Some unfolding manager_ok_def by (metis holds_allocation_None(2) option.distinct(1) option.exhaust)
  let ?m = "snd (destroy_vf m vf_id)"
  have m: "?m = m\<lparr>queue_allocated := mark_range (queue_start a) (queue_count a) False (queue_allocated m),
      vector_allocated := mark_range (vector_start a) (vector_count a) False (vector_allocated m),
      vf_allocations := um_erase vf_id (vf_allocations m), vfs := um_erase vf_id (vfs m)\<rparr>"
    using Some a by (simp add: destroy_vf_def free_resources_def)
  have "queue_ranges ?m = (queue_ranges m)(vf_id := None)" "vector_ranges ?m = (vector_ranges m)(vf_id := None)"
    by (auto simp: m queue_ranges_def vector_ranges_def fun_eq_iff)
  moreover have "queue_ranges m vf_id = Some (unat (queue_start a), unat (queue_count a))"
    "vector_ranges m vf_id = Some (unat (vector_start a), unat (vector_count a))"
    by (simp_all add: queue_ranges_def vector_ranges_def a)
  moreover have "length (um_erase vf_id (vfs m)) \<le> unat (max_vfs (pf_config m))"
    using ok le_trans [OF length_um_erase_le] by (auto simp: manager_ok_def)
  ultimately show ?thesis
    using ok unfolding manager_ok_def by (simp add: tracks_free m)
qed (simp add: destroy_vf_def)

lemma manager_ok_on_vf:
  assumes ok: "manager_ok m" and f: "\<And>v. queue_ids (snd (f v)) = queue_ids v \<and> vector_ids (snd (f v)) = vector_ids v"
  shows "manager_ok (snd (on_vf f m vf_id))"
proof (cases "um_lookup (vfs m) vf_id")
  case (Some v)
  let ?m = "snd (on_vf f m vf_id)"
  have m: "?m = m\<lparr>vfs := um_update vf_id (snd (f v)) (vfs m)\<rparr>"
    using Some by (simp add: on_vf_def case_prod_beta)
  have "holds_allocation (um_lookup (vfs ?m) k) (um_lookup (vf_allocations ?m) k)" for k
    using ok f Some unfolding manager_ok_def m by (auto simp: holds_allocation_def dest!: spec [of _ vf_id])
  moreover have "length (um_update vf_id w (vfs m)) = length (vfs m)" for w
    by (simp add: Some)
  moreover have "queue_ranges ?m = queue_ranges m" "vector_ranges ?m = vector_ranges m"
    by (auto simp: m queue_ranges_def vector_ranges_def fun_eq_iff)
  ultimately show ?thesis using ok unfolding manager_ok_def by (simp add: m)
qed (use ok in \<open>simp add: on_vf_def\<close>)

section \<open>Isolation\<close>

datatype vf_event = TxPacket u64 | RxPacket u64 | TxDrop | RxDrop | MailboxSeen | StatsReset

fun on_event :: "vf_event \<Rightarrow> VirtualFunction \<Rightarrow> VirtualFunction" where
  "on_event (TxPacket n) v = record_tx_packet n v"
| "on_event (RxPacket n) v = record_rx_packet n v"
| "on_event TxDrop v = record_tx_drop v"
| "on_event RxDrop v = record_rx_drop v"
| "on_event MailboxSeen v = record_mailbox_message v"
| "on_event StatsReset v = VirtualFunction_reset_stats v"

datatype manager_call = CreateVf u16 VFConfig | DestroyVf u16 | EnableVf u16 | DisableVf u16 | ResetVf u16 | Traffic u16 vf_event

fun manager_step :: "manager_call \<Rightarrow> PFVFManager \<Rightarrow> PFVFManager" where
  "manager_step (CreateVf k c) m = snd (create_vf m k c)"
| "manager_step (DestroyVf k) m = snd (destroy_vf m k)"
| "manager_step (EnableVf k) m = snd (enable_vf m k)"
| "manager_step (DisableVf k) m = snd (disable_vf m k)"
| "manager_step (ResetVf k) m = snd (reset_vf m k)"
| "manager_step (Traffic k e) m = snd (on_vf (\<lambda>v. (True, on_event e v)) m k)"

definition manager_run :: "PFConfig \<Rightarrow> manager_call list \<Rightarrow> PFVFManager" where
  "manager_run c calls = fold manager_step calls (PFVFManager_new c)"

lemma ids_kept:
  "queue_ids (snd (VirtualFunction_enable v)) = queue_ids v \<and> vector_ids (snd (VirtualFunction_enable v)) = vector_ids v"
  "queue_ids (snd (VirtualFunction_disable v)) = queue_ids v \<and> vector_ids (snd (VirtualFunction_disable v)) = vector_ids v"
  "queue_ids (snd (VirtualFunction_reset v)) = queue_ids v \<and> vector_ids (snd (VirtualFunction_reset v)) = vector_ids v"
  "queue_ids (on_event e v) = queue_ids v \<and> vector_ids (on_event e v) = vector_ids v"
  by (simp_all add: VirtualFunction_enable_def VirtualFunction_disable_def VirtualFunction_reset_def)
    (cases e; simp add: record_tx_packet_def record_rx_packet_def record_tx_drop_def record_rx_drop_def
      record_mailbox_message_def VirtualFunction_reset_stats_def)

lemma manager_ok_step: "manager_ok m \<Longrightarrow> manager_ok (manager_step call m)"
  by (cases call) (simp_all add: manager_ok_create manager_ok_destroy enable_vf_def disable_vf_def reset_vf_def
      manager_ok_on_vf ids_kept)

lemma pf_config_kept: "pf_config (manager_step call m) = pf_config m"
  by (cases call) (auto simp: create_vf_def destroy_vf_def enable_vf_def disable_vf_def reset_vf_def on_vf_def
      allocate_resources_def free_resources_def Let_def split: option.split prod.split)

lemma manager_run_ok: "manager_ok (manager_run c calls) \<and> pf_config (manager_run c calls) = c"
  unfolding manager_run_def
proof (induction calls rule: rev_induct)
  case Nil
  then show ?case using manager_ok_new by (simp add: PFVFManager_new_def)
qed (simp add: manager_ok_step pf_config_kept)

definition vf_queues :: "PFVFManager \<Rightarrow> u16 \<Rightarrow> u16 set" where
  "vf_queues m k = (case um_lookup (vfs m) k of None \<Rightarrow> {} | Some v \<Rightarrow> set (queue_ids v))"

definition vf_vectors :: "PFVFManager \<Rightarrow> u16 \<Rightarrow> u16 set" where
  "vf_vectors m k = (case um_lookup (vfs m) k of None \<Rightarrow> {} | Some v \<Rightarrow> set (vector_ids v))"

text \<open>The items \<open>own k\<close> of each virtual function lie outside the reserved ones and inside the device, no two
  functions share one, and the map marks the reserved and the owned items and nothing else.\<close>

definition isolated :: "u16 \<Rightarrow> u16 \<Rightarrow> (u16 \<Rightarrow> u16 set) \<Rightarrow> bool list \<Rightarrow> bool" where
  "isolated tot res own bs \<longleftrightarrow>
     (\<forall>k. \<forall>q \<in> own k. res \<le> q \<and> q < tot) \<and>
     (\<forall>k k'. k \<noteq> k' \<longrightarrow> own k \<inter> own k' = {}) \<and>
     (\<forall>q < tot. bs ! unat q \<longleftrightarrow> q < res \<or> (\<exists>k. q \<in> own k))"

lemma set_id_range:
  assumes "unat s + unat n \<le> unat (tot :: u16)"
  shows "set (id_range s n) = {q. unat s \<le> unat q \<and> unat q < unat s + unat n}"
proof -
  have "unat tot < 65536" using unsigned_less [of tot] by simp
  then have small: "unat (s + of_nat i) = unat s + i" if "i < unat n" for i
    using that assms by (simp add: unat_word_ariths unat_of_nat)
  have "q \<in> set (id_range s n)" if "unat s \<le> unat q" "unat q < unat s + unat n" for q
  proof -
    have "q = s + of_nat (unat q - unat s)" using that(1) by (simp add: of_nat_diff)
    moreover have "unat q - unat s < unat n" using that by linarith
    ultimately show ?thesis unfolding id_range_def set_map by (intro image_eqI) auto
  qed
  then show ?thesis using small by (auto simp: id_range_def)
qed

lemma tracks_isolated:
  assumes t: "tracks (unat tot) (unat res) R bs"
    and own: "\<And>k. own k = (case R k of None \<Rightarrow> {} | Some (s, n) \<Rightarrow> {q. s \<le> unat q \<and> unat q < s + n})"
  shows "isolated tot res own bs"
  unfolding isolated_def
proof (intro conjI allI ballI impI)
  fix k q assume "q \<in> own k"
  then show "res \<le> q" "q < tot"
    using tracks_bounds [OF t, of k] own [of k] by (auto simp: word_le_nat_alt word_less_nat_alt split: option.splits)
next
  fix k k' :: u16 assume "k \<noteq> k'"
  then show "own k \<inter> own k' = {}"
    using tracks_disjoint [OF t, of k _ _ k'] by (fastforce simp: own split: option.splits)
next
  fix q assume "q < tot"
  moreover have "(\<exists>k. q \<in> own k) \<longleftrightarrow> (\<exists>k s n. R k = Some (s, n) \<and> s \<le> unat q \<and> unat q < s + n)"
    by (fastforce simp: own split: option.splits)
  ultimately show "bs ! unat q \<longleftrightarrow> q < res \<or> (\<exists>k. q \<in> own k)"
    using tracks_taken [OF t, of "unat q"] by (simp add: word_less_nat_alt)
qed

lemma owned_ranges:
  assumes "manager_ok m"
  shows "vf_queues m k = (case queue_ranges m k of None \<Rightarrow> {} | Some (s, n) \<Rightarrow> {q. s \<le> unat q \<and> unat q < s + n})"
    and "vf_vectors m k = (case vector_ranges m k of None \<Rightarrow> {} | Some (s, n) \<Rightarrow> {q. s \<le> unat q \<and> unat q < s + n})"
proof -
  have h: "holds_allocation (um_lookup (vfs m) k) (um_lookup (vf_allocations m) k)"
    and q: "tracks (unat (total_queues (pf_config m))) (unat (pf_reserved_queues (pf_config m))) (queue_ranges m) (queue_allocated m)"
    and v: "tracks (unat (total_vectors (pf_config m))) (unat (pf_reserved_vectors (pf_config m))) (vector_ranges m) (vector_allocated m)"
    using assms by (auto simp: manager_ok_def)
  show "vf_queues m k = (case queue_ranges m k of None \<Rightarrow> {} | Some (s, n) \<Rightarrow> {q. s \<le> unat q \<and> unat q < s + n})"
    using h tracks_bounds [OF q, of k] set_id_range [of _ _ "total_queues (pf_config m)"]
    by (auto simp: vf_queues_def queue_ranges_def holds_allocation_def split: option.splits)
  show "vf_vectors m k = (case vector_ranges m k of None \<Rightarrow> {} | Some (s, n) \<Rightarrow> {q. s \<le> unat q \<and> unat q < s + n})"
    using h tracks_bounds [OF v, of k] set_id_range [of _ _ "total_vectors (pf_config m)"]
    by (auto simp: vf_vectors_def vector_ranges_def holds_allocation_def split: option.splits)
qed

lemma create_vf_succeeds:
  assumes "manager_ok m"
  shows "fst (create_vf m k c) \<longleftrightarrow> um_lookup (vfs m) k = None \<and> length (vfs m) < unat (max_vfs (pf_config m)) \<and>
     num_queues c \<noteq> 0 \<and> (\<exists>s. s + unat (num_queues c) \<le> length (queue_allocated m) \<and> range_free (queue_allocated m) s (unat (num_queues c))) \<and>
     num_vectors c \<noteq> 0 \<and> (\<exists>s. s + unat (num_vectors c) \<le> length (vector_allocated m) \<and> range_free (vector_allocated m) s (unat (num_vectors c)))"
proof -
  have "length (queue_allocated m) < 2 ^ 16" "length (vector_allocated m) < 2 ^ 16"
    using assms unsigned_less [of "total_queues (pf_config m)"] unsigned_less [of "total_vectors (pf_config m)"]
    by (auto simp: manager_ok_def dest!: tracks_length)
  from find_free_range_spec(2) [OF this(1), of "num_queues c"] find_free_range_spec(2) [OF this(2), of "num_vectors c"]
  have "try_allocate_resources m (num_queues c) (num_vectors c) \<noteq> None \<longleftrightarrow>
     num_queues c \<noteq> 0 \<and> (\<exists>s. s + unat (num_queues c) \<le> length (queue_allocated m) \<and> range_free (queue_allocated m) s (unat (num_queues c))) \<and>
     num_vectors c \<noteq> 0 \<and> (\<exists>s. s + unat (num_vectors c) \<le> length (vector_allocated m) \<and> range_free (vector_allocated m) s (unat (num_vectors c)))"
    unfolding try_allocate_resources_def Let_def find_free_queue_range_def find_free_vector_range_def by (metis option.distinct(1))
  moreover have "fst (create_vf m k c) \<longleftrightarrow> um_lookup (vfs m) k = None \<and> length (vfs m) < unat (max_vfs (pf_config m)) \<and>
     try_allocate_resources m (num_queues c) (num_vectors c) \<noteq> None"
    by (simp add: create_vf_def Let_def case_prod_beta)
  ultimately show ?thesis by blast
qed

text \<open>C18: After any sequence of creations, destructions, enables, disables, resets and traffic, the queues and the
  interrupt vectors of the virtual functions are isolated: none is reserved for the physical function or lies outside
  the device, no two functions share one, and the allocation maps mark exactly the reserved and the owned ones. A
  creation then succeeds exactly when the id is new, the limit is not reached, the request is not empty and there is a
  free contiguous range of queues and one of vectors.\<close>

theorem vf_isolation:
  fixes c :: PFConfig and calls :: "manager_call list"
  defines "m \<equiv> manager_run c calls"
  shows "isolated (total_queues c) (pf_reserved_queues c) (vf_queues m) (queue_allocated m) \<and>
     isolated (total_vectors c) (pf_reserved_vectors c) (vf_vectors m) (vector_allocated m) \<and>
     (\<forall>k vc. fst (create_vf m k vc) \<longleftrightarrow> um_lookup (vfs m) k = None \<and> length (vfs m) < unat (max_vfs c) \<and>
        num_queues vc \<noteq> 0 \<and> (\<exists>s. s + unat (num_queues vc) \<le> unat (total_queues c) \<and> range_free (queue_allocated m) s (unat (num_queues vc))) \<and>
        num_vectors vc \<noteq> 0 \<and> (\<exists>s. s + unat (num_vectors vc) \<le> unat (total_vectors c) \<and> range_free (vector_allocated m) s (unat (num_vectors vc))))"
proof -
  have ok: "manager_ok m" and c: "pf_config m = c" using manager_run_ok [of c calls] by (auto simp: m_def)
  have t: "tracks (unat (total_queues c)) (unat (pf_reserved_queues c)) (queue_ranges m) (queue_allocated m)"
    "tracks (unat (total_vectors c)) (unat (pf_reserved_vectors c)) (vector_ranges m) (vector_allocated m)"
    using ok by (auto simp: manager_ok_def c)
  show ?thesis
    using tracks_isolated [OF t(1) owned_ranges(1) [OF ok]] tracks_isolated [OF t(2) owned_ranges(2) [OF ok]]
      create_vf_succeeds [OF ok] tracks_length [OF t(1)] tracks_length [OF t(2)]
    by (simp add: c)
qed

definition demo_pf :: PFConfig where
  "demo_pf = \<lparr>max_vfs = 2, total_queues = 8, total_vectors = 8, pf_reserved_queues = 1, pf_reserved_vectors = 2\<rparr>"

definition demo_vf :: "u16 \<Rightarrow> VFConfig" where
  "demo_vf k = \<lparr>vfc_vf_id = k, num_queues = 3, num_vectors = 2, vfc_enabled = False, vfc_trust = False\<rparr>"

lemma vf_isolation_witness:
  "vf_queues (manager_run demo_pf [CreateVf 1 (demo_vf 1), CreateVf 2 (demo_vf 2), CreateVf 3 (demo_vf 3)]) 2 = {4, 5, 6} \<and>
   vf_queues (manager_run demo_pf [CreateVf 1 (demo_vf 1), CreateVf 2 (demo_vf 2), CreateVf 3 (demo_vf 3)]) 1 \<inter> {4, 5, 6} = {}"
proof -
  have q: "vf_queues (manager_run demo_pf [CreateVf 1 (demo_vf 1), CreateVf 2 (demo_vf 2), CreateVf 3 (demo_vf 3)]) 2 = {4, 5, 6}"
    by code_simp
  then show ?thesis
    using vf_isolation [of demo_pf "[CreateVf 1 (demo_vf 1), CreateVf 2 (demo_vf 2), CreateVf 3 (demo_vf 3)]"]
    unfolding isolated_def q [symmetric] by auto
qed

end
