(* ===== verification/Nic_Interfaces.thy ===== *)
theory Nic_Interfaces
  imports Nic_Prelude
begin

text \<open>
  The contracts between the components, as locales.
  \<^item> \<open>bounded_fifo\<close>: a queue of bounded capacity, the contract of the descriptor ring, the completion
    queue and the RDMA completion queue. The clients' facts (order, no loss, no duplication, the
    capacity bound) are proved here once and reach each queue by interpretation.
  \<^item> \<open>memory_port\<close>: the \<^verbatim>\<open>HostMemory\<close> interface, as far as the DMA engine and the RDMA processors
    rely on it.
  \<^item> \<open>bit_packer\<close>: the \<^verbatim>\<open>bit_fields\<close> library, a git submodule that is not part of the sources; the
    packet builder and parser take its operations as arguments.
\<close>

section \<open>Bounded queues\<close>

text \<open>A client's operations on a queue, the run of a queue over them, and the run of the abstract
  queue, a list that refuses an element when \<open>cap\<close> elements are held.\<close>

datatype 'a fifo_op = Enq 'a | Deq

fun fifo_run :: "('q \<Rightarrow> 'a \<Rightarrow> bool \<times> 'q) \<Rightarrow> ('q \<Rightarrow> 'a option \<times> 'q) \<Rightarrow> 'q \<Rightarrow> 'a fifo_op list
    \<Rightarrow> 'a list \<times> 'a list \<times> 'q" where
  "fifo_run enq deq q [] = ([], [], q)"
| "fifo_run enq deq q (Enq x # ops) =
     (let (ok, q') = enq q x; (acc, out, q'') = fifo_run enq deq q' ops
      in (if ok then x # acc else acc, out, q''))"
| "fifo_run enq deq q (Deq # ops) =
     (let (r, q') = deq q; (acc, out, q'') = fifo_run enq deq q' ops
      in (acc, (case r of None \<Rightarrow> out | Some x \<Rightarrow> x # out), q''))"

fun spec_run :: "nat \<Rightarrow> 'a list \<Rightarrow> 'a fifo_op list \<Rightarrow> 'a list \<times> 'a list \<times> 'a list" where
  "spec_run cap xs [] = ([], [], xs)"
| "spec_run cap xs (Enq x # ops) =
     (if length xs < cap
      then let (acc, out, ys) = spec_run cap (xs @ [x]) ops in (x # acc, out, ys)
      else spec_run cap xs ops)"
| "spec_run cap [] (Deq # ops) = spec_run cap [] ops"
| "spec_run cap (x # xs) (Deq # ops) =
     (let (acc, out, ys) = spec_run cap xs ops in (acc, x # out, ys))"

text \<open>Nothing is lost, duplicated or reordered: what came out, followed by what is still held, is what
  was held at the start followed by what was accepted.\<close>

lemma spec_run_conserves:
  "spec_run cap xs ops = (acc, out, ys) \<Longrightarrow> out @ ys = xs @ acc"
  by (induction cap xs ops arbitrary: acc out ys rule: spec_run.induct)
    (fastforce simp: Let_def split: if_splits prod.splits)+

lemma spec_run_bounded:
  "length xs \<le> cap \<Longrightarrow> spec_run cap xs ops = (acc, out, ys) \<Longrightarrow> length ys \<le> cap"
  by (induction cap xs ops arbitrary: acc out ys rule: spec_run.induct)
    (fastforce simp: Let_def split: if_splits prod.splits)+

fun op_ok :: "('a \<Rightarrow> bool) \<Rightarrow> 'a fifo_op \<Rightarrow> bool" where
  "op_ok P (Enq x) = P x"
| "op_ok P Deq = True"

locale bounded_fifo =
  fixes enq :: "'q \<Rightarrow> 'a \<Rightarrow> bool \<times> 'q"
    and deq :: "'q \<Rightarrow> 'a option \<times> 'q"
    and contents :: "'q \<Rightarrow> 'a list"
    and capacity :: "'q \<Rightarrow> nat"
    and elem_ok :: "'q \<Rightarrow> 'a \<Rightarrow> bool"
    and inv :: "'q \<Rightarrow> bool"
  assumes enq_accept: "inv q \<Longrightarrow> elem_ok q x \<Longrightarrow> length (contents q) < capacity q \<Longrightarrow>
        fst (enq q x) \<and> contents (snd (enq q x)) = contents q @ [x]"
    and enq_reject: "inv q \<Longrightarrow> \<not> length (contents q) < capacity q \<Longrightarrow>
        \<not> fst (enq q x) \<and> contents (snd (enq q x)) = contents q"
    and enq_inv: "inv q \<Longrightarrow> elem_ok q x \<Longrightarrow> inv (snd (enq q x))"
    and enq_frame: "capacity (snd (enq q x)) = capacity q \<and> elem_ok (snd (enq q x)) = elem_ok q"
    and deq_empty: "inv q \<Longrightarrow> contents q = [] \<Longrightarrow> fst (deq q) = None \<and> contents (snd (deq q)) = []"
    and deq_first: "inv q \<Longrightarrow> contents q = x # xs \<Longrightarrow>
        fst (deq q) = Some x \<and> contents (snd (deq q)) = xs"
    and deq_inv: "inv q \<Longrightarrow> inv (snd (deq q))"
    and deq_frame: "capacity (snd (deq q)) = capacity q \<and> elem_ok (snd (deq q)) = elem_ok q"
    and within_capacity: "inv q \<Longrightarrow> length (contents q) \<le> capacity q"
begin

lemma run_refines:
  assumes "inv q" and "\<forall>op \<in> set ops. op_ok (elem_ok q) op"
    and "fifo_run enq deq q ops = (acc, out, q')"
  shows "spec_run (capacity q) (contents q) ops = (acc, out, contents q') \<and> inv q'
    \<and> capacity q' = capacity q"
  using assms
proof (induction ops arbitrary: q acc out q')
  case Nil
  then show ?case by simp
next
  case (Cons op ops)
  show ?case
  proof (cases op)
    case (Enq x)
    let ?r = "enq q x"
    obtain acc1 out1 where rest: "fifo_run enq deq (snd ?r) ops = (acc1, out1, q')"
      and acc: "acc = (if fst ?r then x # acc1 else acc1)" "out = out1"
      using Cons.prems(3) Enq by (auto simp: Let_def split: prod.splits)
    have ok: "elem_ok q x" and tl: "\<forall>op \<in> set ops. op_ok (elem_ok (snd ?r)) op"
      using Cons.prems(2) Enq enq_frame by auto
    note IH = Cons.IH [OF enq_inv [OF Cons.prems(1) ok] tl rest]
    show ?thesis
      using IH enq_accept [OF Cons.prems(1) ok] enq_reject [OF Cons.prems(1), of x] enq_frame [of q x] acc Enq
      by (cases "length (contents q) < capacity q") auto
  next
    case Deq
    let ?r = "deq q"
    obtain acc1 out1 where rest: "fifo_run enq deq (snd ?r) ops = (acc1, out1, q')"
      and out: "out = (case fst ?r of None \<Rightarrow> out1 | Some x \<Rightarrow> x # out1)" "acc = acc1"
      using Cons.prems(3) Deq by (auto simp: Let_def split: prod.splits)
    have tl: "\<forall>op \<in> set ops. op_ok (elem_ok (snd ?r)) op"
      using Cons.prems(2) deq_frame by auto
    note IH = Cons.IH [OF deq_inv [OF Cons.prems(1)] tl rest]
    show ?thesis
      using IH deq_empty [OF Cons.prems(1)] deq_first [OF Cons.prems(1)] deq_frame [of q] out Deq
      by (cases "contents q") auto
  qed
qed

text \<open>The two facts a client of a queue relies on.\<close>

lemma run_order:
  assumes "inv q" and "\<forall>op \<in> set ops. op_ok (elem_ok q) op"
    and "fifo_run enq deq q ops = (acc, out, q')"
  shows "out @ contents q' = contents q @ acc"
  using run_refines [OF assms] spec_run_conserves by blast

lemma run_bounded:
  assumes "inv q" and "\<forall>op \<in> set ops. op_ok (elem_ok q) op"
    and "fifo_run enq deq q ops = (acc, out, q')"
  shows "length (contents q') \<le> capacity q"
  using run_refines [OF assms] within_capacity by force

end

section \<open>Host memory\<close>

text \<open>The memory as its clients see it: an access either faults and changes nothing, or touches a span
  of physical bytes that depends on the address and the length alone.\<close>

locale memory_port =
  fixes rd :: "'m \<Rightarrow> u64 \<Rightarrow> nat \<Rightarrow> bytes option"
    and wr :: "'m \<Rightarrow> u64 \<Rightarrow> bytes \<Rightarrow> 'm option"
    and span :: "'m \<Rightarrow> u64 \<Rightarrow> nat \<Rightarrow> nat set option"
  assumes rd_span: "(rd m a n = None) = (span m a n = None)"
    and rd_length: "rd m a n = Some d \<Longrightarrow> length d = n"
    and wr_span: "(wr m a d = None) = (span m a (length d) = None)"
    and span_wr: "wr m a d = Some m' \<Longrightarrow> span m' = span m"
    and rd_wr_same: "wr m a d = Some m' \<Longrightarrow> rd m' a (length d) = Some d"
    and rd_wr_other: "wr m a d = Some m' \<Longrightarrow> span m a (length d) = Some s \<Longrightarrow>
        span m b n = Some t \<Longrightarrow> s \<inter> t = {} \<Longrightarrow> rd m' b n = rd m b n"
begin

text \<open>A list of writes, in order, stopping at the first fault.\<close>

fun wr_all :: "'m \<Rightarrow> (u64 \<times> bytes) list \<Rightarrow> 'm option" where
  "wr_all m [] = Some m"
| "wr_all m ((a, d) # ws) = (case wr m a d of None \<Rightarrow> None | Some m' \<Rightarrow> wr_all m' ws)"

lemma span_wr_all: "wr_all m ws = Some m' \<Longrightarrow> span m' = span m"
  by (induction m ws rule: wr_all.induct) (auto split: option.splits dest: span_wr)

text \<open>Writes with pairwise disjoint spans are all visible at the end, whatever their order.\<close>

lemma wr_all_frame:
  assumes "wr_all m ws = Some m'" and "span m b n = Some t"
    and "\<And>a d. (a, d) \<in> set ws \<Longrightarrow> the (span m a (length d)) \<inter> t = {}"
  shows "rd m' b n = rd m b n"
  using assms
proof (induction m ws rule: wr_all.induct)
  case (2 m a d ws)
  then obtain m1 where m1: "wr m a d = Some m1" "wr_all m1 ws = Some m'"
    by (auto split: option.splits)
  then obtain s where s: "span m a (length d) = Some s"
    using wr_span by (metis not_None_eq option.distinct(1))
  have "rd m' b n = rd m1 b n"
    using 2 m1 span_wr [OF m1(1)] by simp
  also have "\<dots> = rd m b n"
    using rd_wr_other [OF m1(1) s "2.prems"(2)] "2.prems"(3) [of a d] s by simp
  finally show ?case .
qed simp

definition disjoint_writes :: "'m \<Rightarrow> (u64 \<times> bytes) list \<Rightarrow> bool" where
  "disjoint_writes m = sorted_wrt (\<lambda>(a, d) (b, e).
     the (span m a (length d)) \<inter> the (span m b (length e)) = {})"

lemma wr_all_visible:
  assumes "wr_all m ws = Some m'" and "disjoint_writes m ws" and "(a, d) \<in> set ws"
  shows "rd m' a (length d) = Some d"
  using assms
proof (induction m ws rule: wr_all.induct)
  case (2 m b e ws)
  then obtain m1 where m1: "wr m b e = Some m1" "wr_all m1 ws = Some m'"
    by (auto split: option.splits)
  note sp = span_wr [OF m1(1)]
  have dis: "disjoint_writes m1 ws"
    using "2.prems"(2) sp by (simp add: disjoint_writes_def)
  show ?case
  proof (cases "(a, d) \<in> set ws")
    case True
    then show ?thesis using "2.IH" m1 dis by blast
  next
    case False
    then have ad: "a = b" "d = e" using "2.prems"(3) by auto
    obtain t where t: "span m1 b (length e) = Some t"
      using m1(1) wr_span sp by (metis not_None_eq option.distinct(1))
    have "rd m' b (length e) = rd m1 b (length e)"
      by (rule wr_all_frame [OF m1(2) t])
        (use "2.prems"(2) t sp in \<open>force simp: disjoint_writes_def Int_commute\<close>)
    then show ?thesis using rd_wr_same [OF m1(1)] ad by simp
  qed
qed simp

end

section \<open>Bit field serialisation\<close>

text \<open>
  \<^verbatim>\<open>NetworkBitWriter::serialize\<close> writes the values of a format's fields, most significant bit first,
  and \<^verbatim>\<open>NetworkBitReader::deserialize\<close> reads them back. A format is the list of its field widths;
  the formats the sources declare fill whole bytes.
\<close>

definition fits :: "nat list \<Rightarrow> u64 list \<Rightarrow> bool" where
  "fits ws vs \<longleftrightarrow> length vs = length ws \<and> (\<forall>(w, v) \<in> set (zip ws vs). w \<le> 64 \<and> unat v < 2 ^ w)"

locale bit_packer =
  fixes ser :: "nat list \<Rightarrow> u64 list \<Rightarrow> bytes"
    and des :: "nat list \<Rightarrow> bytes \<Rightarrow> u64 list"
  assumes ser_length: "8 dvd sum_list ws \<Longrightarrow> fits ws vs \<Longrightarrow> length (ser ws vs) = sum_list ws div 8"
    and des_ser: "8 dvd sum_list ws \<Longrightarrow> fits ws vs \<Longrightarrow> des ws (ser ws vs @ rest) = vs"

end
