(* ===== verification/Nic_Mailbox.thy ===== *)
theory Nic_Mailbox
  imports Nic_Interfaces
begin

text \<open>
  The mailbox between the physical and the virtual functions (\<^verbatim>\<open>mailbox.h/.cpp\<close>) and the admin command queue
  (\<^verbatim>\<open>admin_queue.h/.cpp\<close>). Handlers are functions of the message they get. The theory shows that no message is lost or
  duplicated between the counters and the queues, that each inbox is a bounded FIFO, that a request is answered with its own sequence
  number, and that the admin queue answers its commands in order, sixteen per tick.
\<close>

section \<open>Mailbox\<close>

datatype MailboxOpcode = MbVFReset | MbGetStats | MbSetMTU | MbSetMacAddr | MbSetVLAN | MbGetResources | MbACK | MbNACK

record MailboxMessage =
  mb_opcode :: MailboxOpcode
  mb_vf_id :: u16
  mb_sequence :: u32
  mb_payload :: bytes

type_synonym MessageHandler = "MailboxMessage \<Rightarrow> MailboxMessage"

record Mailbox =
  pf_handler :: "MessageHandler option"
  vf_handlers :: "(u16 \<times> MessageHandler) list"
  pf_inbox :: "MailboxMessage list"
  vf_inboxes :: "(u16 \<times> MailboxMessage list) list"
  next_sequence :: u32
  messages_sent :: u64
  messages_received :: u64
  messages_dropped :: u64

definition kMaxQueueDepth :: nat where
  "kMaxQueueDepth = 16"

definition Mailbox_new :: Mailbox where
  "Mailbox_new = \<lparr>pf_handler = None, vf_handlers = [], pf_inbox = [], vf_inboxes = [], next_sequence = 1,
     messages_sent = 0, messages_received = 0, messages_dropped = 0\<rparr>"

text \<open>\<^verbatim>\<open>sizeof(opcode) + sizeof(vf_id) + sizeof(sequence) + payload.size()\<close>\<close>

definition MailboxMessage_size :: "MailboxMessage \<Rightarrow> nat" where
  "MailboxMessage_size msg = 2 + 2 + 4 + length (mb_payload msg)"

definition vf_inbox :: "Mailbox \<Rightarrow> u16 \<Rightarrow> MailboxMessage list" where
  "vf_inbox m k = (case um_lookup (vf_inboxes m) k of None \<Rightarrow> [] | Some inbox \<Rightarrow> inbox)"

text \<open>\<^verbatim>\<open>vf_inboxes_[msg.vf_id]\<close> creates the inbox even when the message is then dropped for lack of room; a new inbox
  is empty, so that does not happen.\<close>

definition enqueue_to_vf :: "Mailbox \<Rightarrow> MailboxMessage \<Rightarrow> bool \<times> Mailbox" where
  "enqueue_to_vf m msg =
     (let inbox = vf_inbox m (mb_vf_id msg); m1 = m\<lparr>vf_inboxes := um_update (mb_vf_id msg) inbox (vf_inboxes m)\<rparr> in
      if length inbox \<ge> kMaxQueueDepth then (False, m1\<lparr>messages_dropped := messages_dropped m1 + 1\<rparr>)
      else (True, m1\<lparr>vf_inboxes := um_update (mb_vf_id msg) (inbox @ [msg]) (vf_inboxes m1),
                     messages_sent := messages_sent m1 + 1\<rparr>))"

definition enqueue_to_pf :: "Mailbox \<Rightarrow> MailboxMessage \<Rightarrow> bool \<times> Mailbox" where
  "enqueue_to_pf m msg =
     (if length (pf_inbox m) \<ge> kMaxQueueDepth then (False, m\<lparr>messages_dropped := messages_dropped m + 1\<rparr>)
      else (True, m\<lparr>pf_inbox := pf_inbox m @ [msg], messages_sent := messages_sent m + 1\<rparr>))"

definition send_to_vf :: "Mailbox \<Rightarrow> MailboxMessage \<Rightarrow> bool \<times> Mailbox" where
  "send_to_vf m msg = enqueue_to_vf m msg"

definition send_to_pf :: "Mailbox \<Rightarrow> MailboxMessage \<Rightarrow> bool \<times> Mailbox" where
  "send_to_pf m msg = enqueue_to_pf m msg"

definition receive_from_vf :: "Mailbox \<Rightarrow> u16 \<Rightarrow> MailboxMessage option \<times> Mailbox" where
  "receive_from_vf m k =
     (case pf_inbox m of
        [] \<Rightarrow> (None, m)
      | msg # rest \<Rightarrow>
          if mb_vf_id msg = k
          then (Some msg, m\<lparr>pf_inbox := rest, messages_received := messages_received m + 1\<rparr>)
          else (None, m))"

definition receive_from_pf :: "Mailbox \<Rightarrow> u16 \<Rightarrow> MailboxMessage option \<times> Mailbox" where
  "receive_from_pf m k =
     (case um_lookup (vf_inboxes m) k of
        None \<Rightarrow> (None, m)
      | Some [] \<Rightarrow> (None, m)
      | Some (msg # rest) \<Rightarrow>
          (Some msg, m\<lparr>vf_inboxes := um_update k rest (vf_inboxes m), messages_received := messages_received m + 1\<rparr>))"

definition allocate_sequence :: "Mailbox \<Rightarrow> u32 \<times> Mailbox" where
  "allocate_sequence m = (next_sequence m, m\<lparr>next_sequence := next_sequence m + 1\<rparr>)"

text \<open>The polling loop of \<^verbatim>\<open>send_and_receive\<close>. How often it polls depends on the clock: the list has, for each poll the
  timeout admits, what the other users of the mailbox do to it during the sleep that follows.\<close>

fun poll_response :: "(Mailbox \<Rightarrow> Mailbox) list \<Rightarrow> u16 \<Rightarrow> u32 \<Rightarrow> Mailbox \<Rightarrow> MailboxMessage option \<times> Mailbox" where
  "poll_response [] k seq m = (None, m)"
| "poll_response (sleep # sleeps) k seq m =
     (let (response, m1) = (if k = 0 then receive_from_pf m k else receive_from_vf m k) in
      case response of
        Some r \<Rightarrow> if mb_sequence r = seq then (Some r, m1) else poll_response sleeps k seq (sleep m1)
      | None \<Rightarrow> poll_response sleeps k seq (sleep m1))"

definition send_and_receive :: "(Mailbox \<Rightarrow> Mailbox) list \<Rightarrow> Mailbox \<Rightarrow> MailboxMessage \<Rightarrow> MailboxMessage option \<times> Mailbox" where
  "send_and_receive sleeps m msg =
     (let (seq, m1) = allocate_sequence m;
          request = msg\<lparr>mb_sequence := seq\<rparr>;
          (sent, m2) = (if mb_vf_id msg = 0 then send_to_pf m1 request else send_to_vf m1 request)
      in if \<not> sent then (None, m2) else poll_response sleeps (mb_vf_id msg) seq m2)"

definition set_pf_handler :: "Mailbox \<Rightarrow> MessageHandler option \<Rightarrow> Mailbox" where
  "set_pf_handler m h = m\<lparr>pf_handler := h\<rparr>"

definition set_vf_handler :: "Mailbox \<Rightarrow> u16 \<Rightarrow> MessageHandler \<Rightarrow> Mailbox" where
  "set_vf_handler m k h = m\<lparr>vf_handlers := um_update k h (vf_handlers m)\<rparr>"

text \<open>A response is sent unless it is an acknowledgement without payload.\<close>

definition worth_sending :: "MailboxMessage \<Rightarrow> bool" where
  "worth_sending r \<longleftrightarrow> mb_opcode r \<noteq> MbACK \<or> mb_payload r \<noteq> []"

definition process_pf_inbox :: "Mailbox \<Rightarrow> Mailbox" where
  "process_pf_inbox m =
     (case (pf_handler m, pf_inbox m) of
        (Some handler, msg # rest) \<Rightarrow>
          let m1 = m\<lparr>pf_inbox := rest, messages_received := messages_received m + 1\<rparr>; response = handler msg
          in if worth_sending response then snd (enqueue_to_vf m1 (response\<lparr>mb_sequence := mb_sequence msg\<rparr>)) else m1
      | _ \<Rightarrow> m)"

definition process_vf_inbox :: "u16 \<Rightarrow> Mailbox \<Rightarrow> Mailbox" where
  "process_vf_inbox k m =
     (case (um_lookup (vf_handlers m) k, vf_inbox m k) of
        (Some handler, msg # rest) \<Rightarrow>
          let m1 = m\<lparr>vf_inboxes := um_update k rest (vf_inboxes m), messages_received := messages_received m + 1\<rparr>;
              response = handler msg
          in if worth_sending response then snd (enqueue_to_pf m1 (response\<lparr>mb_sequence := mb_sequence msg\<rparr>)) else m1
      | _ \<Rightarrow> m)"

text \<open>The second loop visits the inboxes that exist then, in the order of the map; it creates none.\<close>

definition process_pending :: "Mailbox \<Rightarrow> Mailbox" where
  "process_pending m = (let m1 = process_pf_inbox m in fold process_vf_inbox (map fst (vf_inboxes m1)) m1)"

section \<open>Counters and capacity\<close>

definition queued :: "Mailbox \<Rightarrow> nat" where
  "queued m = length (pf_inbox m) + (\<Sum>(k, inbox) \<leftarrow> vf_inboxes m. length inbox)"

definition mailbox_ok :: "Mailbox \<Rightarrow> bool" where
  "mailbox_ok m \<longleftrightarrow> um_wf (vf_inboxes m) \<and> messages_sent m = messages_received m + of_nat (queued m) \<and>
     length (pf_inbox m) \<le> kMaxQueueDepth \<and> (\<forall>k. length (vf_inbox m k) \<le> kMaxQueueDepth)"

lemma sum_um_update:
  "um_wf xs \<Longrightarrow> (\<Sum>(k, inbox) \<leftarrow> um_update k ys xs. length inbox) + (case um_lookup xs k of None \<Rightarrow> 0 | Some i \<Rightarrow> length i)
     = (\<Sum>(k, inbox) \<leftarrow> xs. length inbox) + length (ys :: 'a list)"
  by (induction xs) (auto simp: um_wf_def split: option.splits)

lemma vf_inbox_update [simp]:
  "vf_inbox (m\<lparr>vf_inboxes := um_update k ys (vf_inboxes m)\<rparr>) j = (if j = k then ys else vf_inbox m j)"
  by (simp add: vf_inbox_def)

lemma vf_inbox_updated [simp]: "vf_inbox (m\<lparr>vf_inboxes := um_update k ys xs\<rparr>) k = ys"
  by (simp add: vf_inbox_def)

lemma vf_inbox_cong: "vf_inboxes m = vf_inboxes n \<Longrightarrow> vf_inbox m = vf_inbox n"
  by (simp add: vf_inbox_def fun_eq_iff)

lemma queued_update:
  "um_wf (vf_inboxes m) \<Longrightarrow> queued (m\<lparr>vf_inboxes := um_update k ys (vf_inboxes m)\<rparr>) + length (vf_inbox m k) = queued m + length ys"
  using sum_um_update [of "vf_inboxes m" k ys] by (simp add: queued_def vf_inbox_def split: option.splits)

lemma mailbox_ok_step:
  assumes "mailbox_ok m" "um_wf (vf_inboxes m')" "messages_sent m' + of_nat (queued m) + messages_received m = messages_sent m + of_nat (queued m') + messages_received m'"
    "length (pf_inbox m') \<le> kMaxQueueDepth" "\<And>k. length (vf_inbox m' k) \<le> kMaxQueueDepth"
  shows "mailbox_ok m'"
proof -
  have "messages_sent m' + messages_sent m = messages_sent m + (messages_received m' + of_nat (queued m'))"
    using assms(1,3) by (simp add: mailbox_ok_def algebra_simps)
  then show ?thesis using assms by (simp add: mailbox_ok_def)
qed

lemma enqueue_to_vf_cases:
  "enqueue_to_vf m msg =
     (if length (vf_inbox m (mb_vf_id msg)) < kMaxQueueDepth
      then (True, m\<lparr>vf_inboxes := um_update (mb_vf_id msg) (vf_inbox m (mb_vf_id msg) @ [msg]) (vf_inboxes m),
                    messages_sent := messages_sent m + 1\<rparr>)
      else (False, m\<lparr>messages_dropped := messages_dropped m + 1\<rparr>))"
proof -
  have "um_update k (vf_inbox m k) (vf_inboxes m) = vf_inboxes m" if "\<not> length (vf_inbox m k) < kMaxQueueDepth" for k
    using that by (auto simp: vf_inbox_def kMaxQueueDepth_def intro!: um_update_same split: option.splits)
  then show ?thesis by (auto simp: enqueue_to_vf_def Let_def um_update_twice)
qed

lemma vf_inbox_simps [simp]:
  "vf_inbox (m\<lparr>messages_sent := a\<rparr>) = vf_inbox m" "vf_inbox (m\<lparr>messages_received := a\<rparr>) = vf_inbox m"
  "vf_inbox (m\<lparr>messages_dropped := a\<rparr>) = vf_inbox m" "vf_inbox (m\<lparr>pf_inbox := b\<rparr>) = vf_inbox m"
  "vf_inbox (m\<lparr>next_sequence := c\<rparr>) = vf_inbox m" "vf_inbox (m\<lparr>pf_handler := d\<rparr>) = vf_inbox m"
  "vf_inbox (m\<lparr>vf_handlers := f\<rparr>) = vf_inbox m"
  by (simp_all add: vf_inbox_def fun_eq_iff)

lemma queued_simps [simp]:
  "queued (m\<lparr>messages_sent := a\<rparr>) = queued m" "queued (m\<lparr>messages_received := a\<rparr>) = queued m"
  "queued (m\<lparr>messages_dropped := a\<rparr>) = queued m" "queued (m\<lparr>next_sequence := c\<rparr>) = queued m"
  "queued (m\<lparr>pf_handler := d\<rparr>) = queued m" "queued (m\<lparr>vf_handlers := f\<rparr>) = queued m"
  by (simp_all add: queued_def)

lemma enqueue_to_vf_ok: "mailbox_ok m \<Longrightarrow> mailbox_ok (snd (enqueue_to_vf m msg))"
proof -
  assume ok: "mailbox_ok m"
  then have "queued (m\<lparr>vf_inboxes := um_update (mb_vf_id msg) (vf_inbox m (mb_vf_id msg) @ [msg]) (vf_inboxes m)\<rparr>) = queued m + 1"
    using queued_update [of m "mb_vf_id msg" "vf_inbox m (mb_vf_id msg) @ [msg]"] by (simp add: mailbox_ok_def)
  with ok show ?thesis
    by (intro mailbox_ok_step [OF ok]) (auto simp: enqueue_to_vf_cases mailbox_ok_def)
qed

lemma enqueue_to_pf_ok: "mailbox_ok m \<Longrightarrow> mailbox_ok (snd (enqueue_to_pf m msg))"
  by (auto simp: enqueue_to_pf_def mailbox_ok_def queued_def)

lemma take_pf_ok:
  "mailbox_ok m \<Longrightarrow> pf_inbox m = msg # rest \<Longrightarrow> mailbox_ok (m\<lparr>pf_inbox := rest, messages_received := messages_received m + 1\<rparr>)"
  by (auto simp: mailbox_ok_def queued_def)

lemma take_vf_ok:
  assumes ok: "mailbox_ok m" and k: "vf_inbox m k = msg # rest"
  shows "mailbox_ok (m\<lparr>vf_inboxes := um_update k rest (vf_inboxes m), messages_received := messages_received m + 1\<rparr>)"
proof -
  have "queued (m\<lparr>vf_inboxes := um_update k rest (vf_inboxes m)\<rparr>) + 1 = queued m"
    using queued_update [of m k rest] ok k by (simp add: mailbox_ok_def)
  then have "(of_nat (queued m) :: u64) = of_nat (queued (m\<lparr>vf_inboxes := um_update k rest (vf_inboxes m)\<rparr>)) + 1"
    by (metis of_nat_1 of_nat_add)
  moreover have "Suc (length rest) \<le> kMaxQueueDepth" using ok k unfolding mailbox_ok_def by (metis length_Cons)
  ultimately show ?thesis
    using ok by (intro mailbox_ok_step [OF ok]) (auto simp: mailbox_ok_def)
qed

lemma process_pf_inbox_ok: "mailbox_ok m \<Longrightarrow> mailbox_ok (process_pf_inbox m)"
  by (auto simp: process_pf_inbox_def Let_def take_pf_ok enqueue_to_vf_ok split: option.splits list.splits)

lemma process_vf_inbox_ok: "mailbox_ok m \<Longrightarrow> mailbox_ok (process_vf_inbox k m)"
  by (auto simp: process_vf_inbox_def Let_def take_vf_ok enqueue_to_pf_ok split: option.splits list.splits)

lemma process_pending_ok: "mailbox_ok m \<Longrightarrow> mailbox_ok (process_pending m)"
proof -
  have "mailbox_ok m \<Longrightarrow> mailbox_ok (fold process_vf_inbox ks m)" for ks m
    by (induction ks arbitrary: m) (auto simp: process_vf_inbox_ok)
  then show "mailbox_ok m \<Longrightarrow> mailbox_ok (process_pending m)"
    by (simp add: process_pending_def Let_def process_pf_inbox_ok)
qed

lemma receive_ok:
  "mailbox_ok m \<Longrightarrow> mailbox_ok (snd (receive_from_vf m k))"
  "mailbox_ok m \<Longrightarrow> mailbox_ok (snd (receive_from_pf m k))"
  by (auto simp: receive_from_vf_def take_pf_ok split: list.split)
    (auto simp: receive_from_pf_def vf_inbox_def intro!: take_vf_ok split: option.split list.split)

lemma poll_response_ok:
  assumes "\<forall>sleep \<in> set sleeps. \<forall>m. mailbox_ok m \<longrightarrow> mailbox_ok (sleep m)" "mailbox_ok m"
  shows "mailbox_ok (snd (poll_response sleeps k seq m))"
  using assms
proof (induction sleeps arbitrary: m)
  case (Cons sleep sleeps)
  let ?r = "if k = 0 then receive_from_pf m k else receive_from_vf m k"
  have "mailbox_ok (snd ?r)" using Cons.prems(2) by (simp add: receive_ok)
  with Cons show ?case by (auto simp: case_prod_beta Let_def split: option.split)
qed simp

lemma send_and_receive_ok:
  assumes "\<forall>sleep \<in> set sleeps. \<forall>m. mailbox_ok m \<longrightarrow> mailbox_ok (sleep m)" "mailbox_ok m"
  shows "mailbox_ok (snd (send_and_receive sleeps m msg))"
proof -
  have "mailbox_ok (snd (allocate_sequence m))"
    using assms(2) by (auto simp: allocate_sequence_def mailbox_ok_def)
  then show ?thesis
    using assms(1) by (auto simp: send_and_receive_def case_prod_beta Let_def poll_response_ok send_to_pf_def send_to_vf_def
        enqueue_to_pf_ok enqueue_to_vf_ok)
qed

section \<open>Inboxes as queues\<close>

text \<open>For one virtual function \<open>k\<close>, its inbox is a bounded FIFO between the physical function's sends and its own receives; so is
  the physical function's inbox as long as only \<open>k\<close> sends to it.\<close>

lemma kMaxQueueDepth_pos: "0 < kMaxQueueDepth"
  by (simp add: kMaxQueueDepth_def)

lemma receive_from_pf_cases:
  "receive_from_pf m k =
     (case vf_inbox m k of
        [] \<Rightarrow> (None, m)
      | msg # rest \<Rightarrow> (Some msg, m\<lparr>vf_inboxes := um_update k rest (vf_inboxes m), messages_received := messages_received m + 1\<rparr>))"
  by (simp add: receive_from_pf_def vf_inbox_def split: option.split list.split)

interpretation vf_fifo: bounded_fifo "\<lambda>m msg. send_to_vf m (msg\<lparr>mb_vf_id := k\<rparr>)" "\<lambda>m. receive_from_pf m k" "\<lambda>m. vf_inbox m k"
    "\<lambda>m. kMaxQueueDepth" "\<lambda>m msg. mb_vf_id msg = k" mailbox_ok for k
proof (unfold_locales, goal_cases)
  case (1 q x) then show ?case by (simp add: send_to_vf_def enqueue_to_vf_cases)
next
  case (2 q x) then show ?case by (simp add: send_to_vf_def enqueue_to_vf_cases)
next
  case (3 q x) then show ?case by (simp add: send_to_vf_def enqueue_to_vf_ok)
next
  case (7 q) then show ?case by (rule receive_ok)
next
  case (9 q) then show ?case by (simp add: mailbox_ok_def)
qed (simp_all add: receive_from_pf_cases)

interpretation pf_fifo: bounded_fifo send_to_pf "\<lambda>m. receive_from_vf m k" pf_inbox "\<lambda>m. kMaxQueueDepth" "\<lambda>m msg. mb_vf_id msg = k"
    "\<lambda>m. mailbox_ok m \<and> (\<forall>msg \<in> set (pf_inbox m). mb_vf_id msg = k)" for k
proof (unfold_locales, goal_cases)
  case (7 q) then show ?case using receive_ok(1) [of q k] by (auto simp: receive_from_vf_def split: list.split)
next
  case (9 q) then show ?case by (simp add: mailbox_ok_def)
qed (auto simp: receive_from_vf_def send_to_pf_def enqueue_to_pf_def enqueue_to_pf_ok [unfolded enqueue_to_pf_def] dest: enqueue_to_pf_ok)

section \<open>Any use of the mailbox\<close>

datatype mailbox_call = SendToVf MailboxMessage | SendToPf MailboxMessage | ReceiveFromVf u16 | ReceiveFromPf u16
  | SetPfHandler "MessageHandler option" | SetVfHandler u16 MessageHandler | ProcessPending

fun mailbox_step :: "mailbox_call \<Rightarrow> Mailbox \<Rightarrow> Mailbox" where
  "mailbox_step (SendToVf msg) m = snd (send_to_vf m msg)"
| "mailbox_step (SendToPf msg) m = snd (send_to_pf m msg)"
| "mailbox_step (ReceiveFromVf k) m = snd (receive_from_vf m k)"
| "mailbox_step (ReceiveFromPf k) m = snd (receive_from_pf m k)"
| "mailbox_step (SetPfHandler h) m = set_pf_handler m h"
| "mailbox_step (SetVfHandler k h) m = set_vf_handler m k h"
| "mailbox_step ProcessPending m = process_pending m"

text \<open>An exchange lists, for each poll of \<^verbatim>\<open>send_and_receive\<close>, the calls others make during the sleep after it.\<close>

datatype mailbox_op = Call mailbox_call | Exchange MailboxMessage "mailbox_call list list"

fun mailbox_run_op :: "mailbox_op \<Rightarrow> Mailbox \<Rightarrow> Mailbox" where
  "mailbox_run_op (Call c) m = mailbox_step c m"
| "mailbox_run_op (Exchange msg sleeps) m = snd (send_and_receive (map (fold mailbox_step) sleeps) m msg)"

lemma set_handler_ok:
  "mailbox_ok m \<Longrightarrow> mailbox_ok (set_pf_handler m g)" "mailbox_ok m \<Longrightarrow> mailbox_ok (set_vf_handler m k h)"
  by (simp_all add: set_pf_handler_def set_vf_handler_def mailbox_ok_def)

lemma mailbox_step_ok: "mailbox_ok m \<Longrightarrow> mailbox_ok (mailbox_step c m)"
  by (cases c) (simp_all add: send_to_vf_def send_to_pf_def enqueue_to_vf_ok enqueue_to_pf_ok receive_ok process_pending_ok
      set_handler_ok)

lemma mailbox_steps_ok: "mailbox_ok m \<Longrightarrow> mailbox_ok (fold mailbox_step cs m)"
  by (induction cs arbitrary: m) (auto simp: mailbox_step_ok)

lemma mailbox_op_ok: "mailbox_ok m \<Longrightarrow> mailbox_ok (mailbox_run_op c m)"
  by (cases c) (auto simp: mailbox_step_ok mailbox_steps_ok intro!: send_and_receive_ok)

lemma mailbox_ops_ok: "mailbox_ok m \<Longrightarrow> mailbox_ok (fold mailbox_run_op cs m)"
  by (induction cs arbitrary: m) (auto simp: mailbox_op_ok)

lemma mailbox_ok_new: "mailbox_ok Mailbox_new"
  by (simp add: mailbox_ok_def Mailbox_new_def queued_def vf_inbox_def)

theorem mailbox_accounting:
  fixes cs :: "mailbox_op list"
  defines "m \<equiv> fold mailbox_run_op cs Mailbox_new"
  shows "messages_sent m = messages_received m + of_nat (queued m) \<and> length (pf_inbox m) \<le> kMaxQueueDepth \<and>
    (\<forall>k. length (vf_inbox m k) \<le> kMaxQueueDepth)"
  using mailbox_ops_ok [OF mailbox_ok_new, of cs] by (simp add: m_def mailbox_ok_def)

section \<open>Requests and responses\<close>

lemma process_vf_inbox_frame:
  assumes "um_lookup (vf_handlers m) k = None"
  shows "vf_inbox (process_vf_inbox j m) k = vf_inbox m k" "vf_handlers (process_vf_inbox j m) = vf_handlers m"
  using assms by (auto simp: process_vf_inbox_def enqueue_to_pf_def Let_def split: option.split list.split)

lemma process_vf_inboxes_frame:
  "um_lookup (vf_handlers m) k = None \<Longrightarrow> vf_inbox (fold process_vf_inbox ks m) k = vf_inbox m k"
  by (induction ks arbitrary: m) (simp_all add: process_vf_inbox_frame)

text \<open>C40: A request to the physical function is answered with its own sequence number: when the physical function has a handler and nothing else is
  waiting for it, the request is accepted, one round of processing hands it to the handler, and the virtual function the
  response names finds the handler's response behind what its inbox held, with the sequence number of the request,
  provided the response is not a bare acknowledgement, that inbox has room and no handler of its own empties it.\<close>

theorem mailbox_request_answered:
  fixes m :: Mailbox and request :: MailboxMessage
  assumes handler: "pf_handler m = Some h" and idle: "pf_inbox m = []"
    and response: "h request = response" "worth_sending response" "mb_vf_id response = k"
    and room: "length (vf_inbox m k) < kMaxQueueDepth" and polled: "um_lookup (vf_handlers m) k = None"
  shows "fst (send_to_pf m request) \<and>
    vf_inbox (process_pending (snd (send_to_pf m request))) k = vf_inbox m k @ [response\<lparr>mb_sequence := mb_sequence request\<rparr>] \<and>
    (vf_inbox m k = [] \<longrightarrow>
      fst (receive_from_pf (process_pending (snd (send_to_pf m request))) k) = Some (response\<lparr>mb_sequence := mb_sequence request\<rparr>))"
proof -
  let ?m1 = "snd (send_to_pf m request)" and ?r = "response\<lparr>mb_sequence := mb_sequence request\<rparr>"
  have sent: "send_to_pf m request = (True, m\<lparr>pf_inbox := [request], messages_sent := messages_sent m + 1\<rparr>)"
    using idle kMaxQueueDepth_pos by (simp add: send_to_pf_def enqueue_to_pf_def)
  have "vf_inbox (process_pf_inbox ?m1) k = vf_inbox m k @ [?r]" "vf_handlers (process_pf_inbox ?m1) = vf_handlers m"
    using handler response room by (simp_all add: sent process_pf_inbox_def Let_def enqueue_to_vf_cases)
  then have "vf_inbox (process_pending ?m1) k = vf_inbox m k @ [?r]"
    using polled by (simp add: process_pending_def Let_def process_vf_inboxes_frame)
  then show ?thesis by (simp add: sent receive_from_pf_cases)
qed

definition demo_request :: MailboxMessage where
  "demo_request = \<lparr>mb_opcode = MbGetStats, mb_vf_id = 3, mb_sequence = 7, mb_payload = []\<rparr>"

definition demo_reply :: MessageHandler where
  "demo_reply msg = msg\<lparr>mb_opcode := MbACK, mb_payload := [42], mb_sequence := 0\<rparr>"

lemma mailbox_request_answered_witness:
  "fst (receive_from_pf (process_pending (snd (send_to_pf (set_pf_handler Mailbox_new (Some demo_reply)) demo_request))) 3) =
     Some \<lparr>mb_opcode = MbACK, mb_vf_id = 3, mb_sequence = 7, mb_payload = [42]\<rparr>"
  using mailbox_request_answered [of "set_pf_handler Mailbox_new (Some demo_reply)" demo_reply demo_request "demo_reply demo_request" 3]
  by (simp add: set_pf_handler_def Mailbox_new_def demo_reply_def demo_request_def worth_sending_def vf_inbox_def kMaxQueueDepth_pos)

text \<open>Without other users of the mailbox between its polls, \<^verbatim>\<open>send_and_receive\<close> finds no response to its own request: it only takes
  messages that were queued before, so none has the sequence number it has just allocated, unless that number
  was used before.\<close>

lemma poll_response_stale:
  assumes "\<forall>old \<in> set (if k = 0 then vf_inbox m k else pf_inbox m). mb_sequence old \<noteq> seq"
  shows "fst (poll_response (replicate n id) k seq m) = None"
  using assms
proof (induction n arbitrary: m)
  case (Suc n)
  let ?r = "if k = 0 then receive_from_pf m k else receive_from_vf m k"
  have keep: "\<forall>old \<in> set (if k = 0 then vf_inbox (snd ?r) k else pf_inbox (snd ?r)). mb_sequence old \<noteq> seq"
    and stale: "fst ?r = Some msg \<Longrightarrow> mb_sequence msg \<noteq> seq" for msg
    using Suc.prems by (auto simp: receive_from_pf_cases receive_from_vf_def split: list.splits if_splits)
  show ?case using Suc.IH [OF keep] stale by (auto simp: case_prod_beta Let_def split: option.split)
qed simp

lemma send_and_receive_alone:
  assumes "\<forall>old \<in> set (if mb_vf_id msg = 0 then vf_inbox m 0 else pf_inbox m). mb_sequence old \<noteq> next_sequence m"
  shows "fst (send_and_receive (replicate n id) m msg) = None"
proof -
  let ?m1 = "m\<lparr>next_sequence := next_sequence m + 1\<rparr>" and ?req = "msg\<lparr>mb_sequence := next_sequence m\<rparr>"
  show ?thesis
  proof (cases "mb_vf_id msg = 0")
    case True
    have "vf_inbox (snd (send_to_pf ?m1 ?req)) 0 = vf_inbox m 0" by (simp add: send_to_pf_def enqueue_to_pf_def)
    with True assms show ?thesis
      using poll_response_stale [of 0 "snd (send_to_pf ?m1 ?req)" "next_sequence m" n]
      by (simp add: send_and_receive_def allocate_sequence_def case_prod_beta Let_def)
  next
    case False
    have "pf_inbox (snd (send_to_vf ?m1 ?req)) = pf_inbox m" by (simp add: send_to_vf_def enqueue_to_vf_cases)
    with False assms show ?thesis
      using poll_response_stale [of "mb_vf_id msg" "snd (send_to_vf ?m1 ?req)" "next_sequence m" n]
      by (simp add: send_and_receive_def allocate_sequence_def case_prod_beta Let_def)
  qed
qed

section \<open>Admin queue\<close>

datatype AdminOpcode = AqGetStats | AqResetStats | AqSetFeature | AqGetFeature | AqInjectError | AqReset

datatype StatusCode = AqSuccess | AqInvalidOpcode | AqInvalidParameter | AqNotSupported | AqInternalError

record AdminCommand =
  aq_opcode :: AdminOpcode
  aq_flags :: u16
  namespace_id :: u32
  aq_data :: "u32 list"

record AdminCompletion =
  aq_result :: u32
  aq_status :: StatusCode
  command_id :: u16

type_synonym CommandHandler = "AdminCommand \<Rightarrow> u16 \<Rightarrow> AdminCompletion"

record AdminQueue =
  pending_commands :: "(AdminCommand \<times> u16) list"
  completions :: "AdminCompletion list"
  next_command_id :: u16
  aq_handler :: "CommandHandler option"

definition AdminQueue_new :: AdminQueue where
  "AdminQueue_new = \<lparr>pending_commands = [], completions = [], next_command_id = 0, aq_handler = None\<rparr>"

definition register_handler :: "AdminQueue \<Rightarrow> CommandHandler option \<Rightarrow> AdminQueue" where
  "register_handler q h = q\<lparr>aq_handler := h\<rparr>"

definition submit_command :: "AdminQueue \<Rightarrow> AdminCommand \<Rightarrow> u16 \<times> AdminQueue" where
  "submit_command q cmd =
     (let cid = next_command_id q
      in (cid, q\<lparr>next_command_id := next_command_id q + 1, pending_commands := pending_commands q @ [(cmd, cid)]\<rparr>))"

definition AdminQueue_poll_completion :: "AdminQueue \<Rightarrow> AdminCompletion option \<times> AdminQueue" where
  "AdminQueue_poll_completion q =
     (case completions q of [] \<Rightarrow> (None, q) | c # rest \<Rightarrow> (Some c, q\<lparr>completions := rest\<rparr>))"

definition max_per_tick :: nat where
  "max_per_tick = 16"

definition run_command :: "AdminQueue \<Rightarrow> AdminCommand \<times> u16 \<Rightarrow> AdminCompletion" where
  "run_command q p =
     (case aq_handler q of
        Some handler \<Rightarrow> handler (fst p) (snd p)
      | None \<Rightarrow> \<lparr>aq_result = 0, aq_status = AqNotSupported, command_id = snd p\<rparr>)"

text \<open>The loop; the first argument is \<^verbatim>\<open>max_per_tick - processed\<close>.\<close>

fun process_loop :: "nat \<Rightarrow> AdminQueue \<Rightarrow> AdminQueue" where
  "process_loop 0 q = q"
| "process_loop (Suc n) q =
     (case pending_commands q of
        [] \<Rightarrow> q
      | p # rest \<Rightarrow> process_loop n (q\<lparr>pending_commands := rest, completions := completions q @ [run_command q p]\<rparr>))"

definition process_commands :: "AdminQueue \<Rightarrow> AdminQueue" where
  "process_commands q = process_loop max_per_tick q"

lemma run_command_frame [simp]:
  "run_command (q\<lparr>pending_commands := a\<rparr>) = run_command q" "run_command (q\<lparr>completions := b\<rparr>) = run_command q"
  by (simp_all add: run_command_def fun_eq_iff)

lemma process_loop_spec:
  "process_loop n q = q\<lparr>pending_commands := drop n (pending_commands q),
     completions := completions q @ map (run_command q) (take n (pending_commands q))\<rparr>"
  by (induction n arbitrary: q) (auto split: list.split)

text \<open>Every command is answered, in the order of submission: \<open>n\<close> ticks answer the first \<open>16 * n\<close> of them.\<close>

theorem admin_answers_in_order:
  "(process_commands ^^ n) q = q\<lparr>pending_commands := drop (max_per_tick * n) (pending_commands q),
     completions := completions q @ map (run_command q) (take (max_per_tick * n) (pending_commands q))\<rparr>"
proof (induction n)
  case (Suc n)
  have "take (max_per_tick * Suc n) xs = take (max_per_tick * n) xs @ take max_per_tick (drop (max_per_tick * n) xs)" for xs :: "(AdminCommand \<times> u16) list"
    by (metis mult_Suc_right add.commute take_add)
  with Suc show ?case by (simp add: process_commands_def process_loop_spec)
qed simp

end
