(* ===== verification/Nic_Stats.thy ===== *)
theory Nic_Stats
  imports Nic_Prelude
begin

text \<open>
  The statistics collector (\<^verbatim>\<open>stats_collector.h/.cpp\<close>): counters per queue and per virtual function, in two hash maps that create an
  entry at its first use, and port totals that add up the queues. The specification is a log of the recorded events, from which a
  reset removes entries; the theory shows that every counter the collector reports is the sum of the log's contributions, modulo
  \<open>2 ^ 64\<close> as the counters wrap. The counters are relaxed atomics; the operations here are those of one thread.
\<close>

section \<open>Counters\<close>

record PortStats =
  port_rx_bytes :: u64
  port_rx_packets :: u64
  port_rx_errors :: u64
  port_rx_dropped :: u64
  port_tx_bytes :: u64
  port_tx_packets :: u64
  port_tx_errors :: u64
  port_tx_dropped :: u64

record QueueStats =
  q_tx_bytes :: u64
  q_tx_packets :: u64
  q_tx_errors :: u64
  q_rx_bytes :: u64
  q_rx_packets :: u64
  q_rx_errors :: u64

definition QueueStats_zero :: QueueStats where
  "QueueStats_zero = \<lparr>q_tx_bytes = 0, q_tx_packets = 0, q_tx_errors = 0, q_rx_bytes = 0, q_rx_packets = 0, q_rx_errors = 0\<rparr>"

record StatsCollector_VFStats =
  v_tx_bytes :: u64
  v_tx_packets :: u64
  v_rx_bytes :: u64
  v_rx_packets :: u64
  v_mailbox_messages :: u64

definition StatsCollector_VFStats_zero :: StatsCollector_VFStats where
  "StatsCollector_VFStats_zero = \<lparr>v_tx_bytes = 0, v_tx_packets = 0, v_rx_bytes = 0, v_rx_packets = 0, v_mailbox_messages = 0\<rparr>"

datatype StatsCollector_ErrorType = TxDescriptorError | TxDMAError | TxChecksumError | RxDescriptorError | RxDMAError | RxChecksumError | RxDroppedFull

record StatsCollector =
  queue_stats_map :: "(u16 \<times> QueueStats) list"
  vf_stats_map :: "(u16 \<times> StatsCollector_VFStats) list"

definition StatsCollector_new :: StatsCollector where
  "StatsCollector_new = \<lparr>queue_stats_map = [], vf_stats_map = []\<rparr>"

section \<open>Operations\<close>

definition get_queue_stats :: "u16 \<Rightarrow> StatsCollector \<Rightarrow> QueueStats" where
  "get_queue_stats queue_id c = (case um_lookup (queue_stats_map c) queue_id of None \<Rightarrow> QueueStats_zero | Some s \<Rightarrow> s)"

definition get_vf_stats :: "u16 \<Rightarrow> StatsCollector \<Rightarrow> StatsCollector_VFStats" where
  "get_vf_stats vf_id c = (case um_lookup (vf_stats_map c) vf_id of None \<Rightarrow> StatsCollector_VFStats_zero | Some s \<Rightarrow> s)"

definition put_queue_stats :: "u16 \<Rightarrow> QueueStats \<Rightarrow> StatsCollector \<Rightarrow> StatsCollector" where
  "put_queue_stats queue_id s c = c\<lparr>queue_stats_map := um_update queue_id s (queue_stats_map c)\<rparr>"

definition put_vf_stats :: "u16 \<Rightarrow> StatsCollector_VFStats \<Rightarrow> StatsCollector \<Rightarrow> StatsCollector" where
  "put_vf_stats vf_id s c = c\<lparr>vf_stats_map := um_update vf_id s (vf_stats_map c)\<rparr>"

definition StatsCollector_record_tx_packet :: "u16 \<Rightarrow> u64 \<Rightarrow> StatsCollector \<Rightarrow> StatsCollector" where
  "StatsCollector_record_tx_packet queue_id bytes c =
     (let s = get_queue_stats queue_id c in
      put_queue_stats queue_id (s\<lparr>q_tx_packets := q_tx_packets s + 1, q_tx_bytes := q_tx_bytes s + bytes\<rparr>) c)"

definition StatsCollector_record_rx_packet :: "u16 \<Rightarrow> u64 \<Rightarrow> StatsCollector \<Rightarrow> StatsCollector" where
  "StatsCollector_record_rx_packet queue_id bytes c =
     (let s = get_queue_stats queue_id c in
      put_queue_stats queue_id (s\<lparr>q_rx_packets := q_rx_packets s + 1, q_rx_bytes := q_rx_bytes s + bytes\<rparr>) c)"

definition record_error :: "u16 \<Rightarrow> StatsCollector_ErrorType \<Rightarrow> StatsCollector \<Rightarrow> StatsCollector" where
  "record_error queue_id type c =
     (let s = get_queue_stats queue_id c in
      put_queue_stats queue_id
        (if type \<in> {TxDescriptorError, TxDMAError, TxChecksumError} then s\<lparr>q_tx_errors := q_tx_errors s + 1\<rparr>
         else s\<lparr>q_rx_errors := q_rx_errors s + 1\<rparr>) c)"

definition record_vf_tx_packet :: "u16 \<Rightarrow> u64 \<Rightarrow> StatsCollector \<Rightarrow> StatsCollector" where
  "record_vf_tx_packet vf_id bytes c =
     (let s = get_vf_stats vf_id c in
      put_vf_stats vf_id (s\<lparr>v_tx_packets := v_tx_packets s + 1, v_tx_bytes := v_tx_bytes s + bytes\<rparr>) c)"

definition record_vf_rx_packet :: "u16 \<Rightarrow> u64 \<Rightarrow> StatsCollector \<Rightarrow> StatsCollector" where
  "record_vf_rx_packet vf_id bytes c =
     (let s = get_vf_stats vf_id c in
      put_vf_stats vf_id (s\<lparr>v_rx_packets := v_rx_packets s + 1, v_rx_bytes := v_rx_bytes s + bytes\<rparr>) c)"

definition record_vf_mailbox_message :: "u16 \<Rightarrow> StatsCollector \<Rightarrow> StatsCollector" where
  "record_vf_mailbox_message vf_id c =
     (let s = get_vf_stats vf_id c in put_vf_stats vf_id (s\<lparr>v_mailbox_messages := v_mailbox_messages s + 1\<rparr>) c)"

definition add_queue :: "QueueStats \<Rightarrow> PortStats \<Rightarrow> PortStats" where
  "add_queue s port = port
     \<lparr>port_rx_bytes := port_rx_bytes port + q_rx_bytes s, port_rx_packets := port_rx_packets port + q_rx_packets s,
      port_rx_errors := port_rx_errors port + q_rx_errors s, port_tx_bytes := port_tx_bytes port + q_tx_bytes s,
      port_tx_packets := port_tx_packets port + q_tx_packets s, port_tx_errors := port_tx_errors port + q_tx_errors s\<rparr>"

definition port_stats :: "StatsCollector \<Rightarrow> PortStats" where
  "port_stats c = fold (\<lambda>(queue_id, s). add_queue s) (queue_stats_map c)
     \<lparr>port_rx_bytes = 0, port_rx_packets = 0, port_rx_errors = 0, port_rx_dropped = 0,
      port_tx_bytes = 0, port_tx_packets = 0, port_tx_errors = 0, port_tx_dropped = 0\<rparr>"

text \<open>The accessors return a zero entry for an unknown id, without creating it.\<close>

definition queue_stats :: "u16 \<Rightarrow> StatsCollector \<Rightarrow> QueueStats" where
  "queue_stats queue_id c = (case um_lookup (queue_stats_map c) queue_id of None \<Rightarrow> QueueStats_zero | Some s \<Rightarrow> s)"

definition StatsCollector_vf_stats :: "u16 \<Rightarrow> StatsCollector \<Rightarrow> StatsCollector_VFStats" where
  "StatsCollector_vf_stats vf_id c = (case um_lookup (vf_stats_map c) vf_id of None \<Rightarrow> StatsCollector_VFStats_zero | Some s \<Rightarrow> s)"

definition reset_all :: "StatsCollector \<Rightarrow> StatsCollector" where
  "reset_all c = c\<lparr>queue_stats_map := [], vf_stats_map := []\<rparr>"

definition reset_queue :: "u16 \<Rightarrow> StatsCollector \<Rightarrow> StatsCollector" where
  "reset_queue queue_id c = (if um_lookup (queue_stats_map c) queue_id \<noteq> None then put_queue_stats queue_id QueueStats_zero c else c)"

definition StatsCollector_reset_vf :: "u16 \<Rightarrow> StatsCollector \<Rightarrow> StatsCollector" where
  "StatsCollector_reset_vf vf_id c = (if um_lookup (vf_stats_map c) vf_id \<noteq> None then put_vf_stats vf_id StatsCollector_VFStats_zero c else c)"

section \<open>The log\<close>

datatype stats_event = EvTx u16 u64 | EvRx u16 u64 | EvError u16 StatsCollector_ErrorType | EvVfTx u16 u64 | EvVfRx u16 u64 | EvVfMailbox u16

datatype stats_call = Record stats_event | ResetAll | ResetQueue u16 | ResetVf u16

fun record_event :: "stats_event \<Rightarrow> StatsCollector \<Rightarrow> StatsCollector" where
  "record_event (EvTx q n) = StatsCollector_record_tx_packet q n"
| "record_event (EvRx q n) = StatsCollector_record_rx_packet q n"
| "record_event (EvError q t) = record_error q t"
| "record_event (EvVfTx v n) = record_vf_tx_packet v n"
| "record_event (EvVfRx v n) = record_vf_rx_packet v n"
| "record_event (EvVfMailbox v) = record_vf_mailbox_message v"

fun stats_exec :: "stats_call \<Rightarrow> StatsCollector \<Rightarrow> StatsCollector" where
  "stats_exec (Record e) = record_event e"
| "stats_exec ResetAll = reset_all"
| "stats_exec (ResetQueue q) = reset_queue q"
| "stats_exec (ResetVf v) = StatsCollector_reset_vf v"

fun event_queue :: "stats_event \<Rightarrow> u16 option" where
  "event_queue (EvTx q n) = Some q"
| "event_queue (EvRx q n) = Some q"
| "event_queue (EvError q t) = Some q"
| "event_queue e = None"

fun event_vf :: "stats_event \<Rightarrow> u16 option" where
  "event_vf (EvVfTx v n) = Some v"
| "event_vf (EvVfRx v n) = Some v"
| "event_vf (EvVfMailbox v) = Some v"
| "event_vf e = None"

fun log_call :: "stats_call \<Rightarrow> stats_event list \<Rightarrow> stats_event list" where
  "log_call (Record e) h = e # h"
| "log_call ResetAll h = []"
| "log_call (ResetQueue q) h = filter (\<lambda>e. event_queue e \<noteq> Some q) h"
| "log_call (ResetVf v) h = filter (\<lambda>e. event_vf e \<noteq> Some v) h"

datatype counter_kind = TxBytes | TxPackets | TxErrors | RxBytes | RxPackets | RxErrors | Messages

fun contribution :: "counter_kind \<Rightarrow> stats_event \<Rightarrow> u64" where
  "contribution k (EvTx q n) = (case k of TxBytes \<Rightarrow> n | TxPackets \<Rightarrow> 1 | _ \<Rightarrow> 0)"
| "contribution k (EvRx q n) = (case k of RxBytes \<Rightarrow> n | RxPackets \<Rightarrow> 1 | _ \<Rightarrow> 0)"
| "contribution k (EvError q t) =
     (if k = (if t \<in> {TxDescriptorError, TxDMAError, TxChecksumError} then TxErrors else RxErrors) then 1 else 0)"
| "contribution k (EvVfTx v n) = (case k of TxBytes \<Rightarrow> n | TxPackets \<Rightarrow> 1 | _ \<Rightarrow> 0)"
| "contribution k (EvVfRx v n) = (case k of RxBytes \<Rightarrow> n | RxPackets \<Rightarrow> 1 | _ \<Rightarrow> 0)"
| "contribution k (EvVfMailbox v) = (if k = Messages then 1 else 0)"

fun queue_counter :: "counter_kind \<Rightarrow> QueueStats \<Rightarrow> u64" where
  "queue_counter TxBytes s = q_tx_bytes s"
| "queue_counter TxPackets s = q_tx_packets s"
| "queue_counter TxErrors s = q_tx_errors s"
| "queue_counter RxBytes s = q_rx_bytes s"
| "queue_counter RxPackets s = q_rx_packets s"
| "queue_counter RxErrors s = q_rx_errors s"
| "queue_counter Messages s = 0"

fun vf_counter :: "counter_kind \<Rightarrow> StatsCollector_VFStats \<Rightarrow> u64" where
  "vf_counter TxBytes s = v_tx_bytes s"
| "vf_counter TxPackets s = v_tx_packets s"
| "vf_counter RxBytes s = v_rx_bytes s"
| "vf_counter RxPackets s = v_rx_packets s"
| "vf_counter Messages s = v_mailbox_messages s"
| "vf_counter k s = 0"

fun port_counter :: "counter_kind \<Rightarrow> PortStats \<Rightarrow> u64" where
  "port_counter TxBytes s = port_tx_bytes s"
| "port_counter TxPackets s = port_tx_packets s"
| "port_counter TxErrors s = port_tx_errors s"
| "port_counter RxBytes s = port_rx_bytes s"
| "port_counter RxPackets s = port_rx_packets s"
| "port_counter RxErrors s = port_rx_errors s"
| "port_counter Messages s = 0"

definition total_of :: "counter_kind \<Rightarrow> (stats_event \<Rightarrow> bool) \<Rightarrow> stats_event list \<Rightarrow> u64" where
  "total_of k p h = (\<Sum>e \<leftarrow> filter p h. contribution k e)"

section \<open>The collector implements the log\<close>

lemma total_of_Nil [simp]: "total_of k p [] = 0"
  by (simp add: total_of_def)

lemma total_of_Cons [simp]: "total_of k p (e # h) = (if p e then contribution k e else 0) + total_of k p h"
  by (simp add: total_of_def)

lemma total_of_filter [simp]: "total_of k p (filter q h) = total_of k (\<lambda>e. p e \<and> q e) h"
  by (simp add: total_of_def conj_commute)

lemma total_of_split: "total_of k p h = total_of k (\<lambda>e. p e \<and> q e) h + total_of k (\<lambda>e. p e \<and> \<not> q e) h"
  by (induction h) (auto simp: add_ac)

lemma sum_update:
  "um_wf m \<Longrightarrow> (\<Sum>x \<leftarrow> um_update k v m. f (snd x)) + (case um_lookup m k of None \<Rightarrow> 0 | Some w \<Rightarrow> f w)
     = (\<Sum>x \<leftarrow> m. f (snd x)) + (f v :: u64)"
  by (induction m) (auto simp: um_wf_def add_ac split: option.split)

lemma queue_counter_zero [simp]: "queue_counter k QueueStats_zero = 0"
  by (cases k) (simp_all add: QueueStats_zero_def)

lemma vf_counter_zero [simp]: "vf_counter k StatsCollector_VFStats_zero = 0"
  by (cases k) (simp_all add: StatsCollector_VFStats_zero_def)

lemma port_counter_add: "port_counter k (add_queue s p) = port_counter k p + queue_counter k s"
  by (cases k) (simp_all add: add_queue_def)

lemma port_counter_fold:
  "port_counter k (fold (\<lambda>(q, s). add_queue s) m p) = port_counter k p + (\<Sum>x \<leftarrow> m. queue_counter k (snd x))"
  by (induction m arbitrary: p) (auto simp: port_counter_add)

lemma port_counter_sum: "port_counter k (port_stats c) = (\<Sum>x \<leftarrow> queue_stats_map c. queue_counter k (snd x))"
  unfolding port_stats_def by (subst port_counter_fold) (cases k, simp_all)

lemma no_drop_counters: "port_rx_dropped (port_stats c) = 0 \<and> port_tx_dropped (port_stats c) = 0"
proof -
  have "port_rx_dropped (fold (\<lambda>(q, s). add_queue s) m p) = port_rx_dropped p \<and>
      port_tx_dropped (fold (\<lambda>(q, s). add_queue s) m p) = port_tx_dropped p" for m :: "(u16 \<times> QueueStats) list" and p
    by (induction m arbitrary: p) (auto simp: add_queue_def)
  then show ?thesis by (simp add: port_stats_def)
qed

lemma put_queue_counters:
  assumes "um_wf (queue_stats_map c)"
  shows "port_counter k (port_stats (put_queue_stats q s c)) + queue_counter k (queue_stats q c)
    = port_counter k (port_stats c) + queue_counter k s"
  using sum_update [OF assms, where k = q and v = s and f = "queue_counter k"]
  by (simp add: port_counter_sum put_queue_stats_def queue_stats_def split: option.splits)

lemma queue_stats_put: "queue_stats q' (put_queue_stats q s c) = (if q' = q then s else queue_stats q' c)"
  by (simp add: queue_stats_def put_queue_stats_def)

lemma vf_stats_put: "StatsCollector_vf_stats v' (put_vf_stats v s c) = (if v' = v then s else StatsCollector_vf_stats v' c)"
  by (simp add: StatsCollector_vf_stats_def put_vf_stats_def)

lemma stats_other [simp]:
  "queue_stats q (put_vf_stats v t c) = queue_stats q c" "StatsCollector_vf_stats v (put_queue_stats q s c) = StatsCollector_vf_stats v c"
  "port_stats (put_vf_stats v t c) = port_stats c"
  "um_wf (queue_stats_map (put_vf_stats v t c)) = um_wf (queue_stats_map c)"
  "um_wf (queue_stats_map c) \<Longrightarrow> um_wf (queue_stats_map (put_queue_stats q s c))"
  by (simp_all add: queue_stats_def StatsCollector_vf_stats_def port_stats_def put_vf_stats_def put_queue_stats_def)

definition collects :: "stats_event list \<Rightarrow> StatsCollector \<Rightarrow> bool" where
  "collects h c \<longleftrightarrow> um_wf (queue_stats_map c) \<and>
     (\<forall>k. port_counter k (port_stats c) = total_of k (\<lambda>e. event_queue e \<noteq> None) h) \<and>
     (\<forall>k q. queue_counter k (queue_stats q c) = total_of k (\<lambda>e. event_queue e = Some q) h) \<and>
     (\<forall>k v. vf_counter k (StatsCollector_vf_stats v c) = total_of k (\<lambda>e. event_vf e = Some v) h)"

lemma collectsD:
  assumes "collects h c"
  shows "um_wf (queue_stats_map c)" "port_counter k (port_stats c) = total_of k (\<lambda>e. event_queue e \<noteq> None) h"
    "queue_counter k (queue_stats q c) = total_of k (\<lambda>e. event_queue e = Some q) h"
    "vf_counter k (StatsCollector_vf_stats v c) = total_of k (\<lambda>e. event_vf e = Some v) h"
  using assms by (simp_all add: collects_def)

lemma collects_queue_event:
  assumes "collects h c" and "event_queue e = Some q" "event_vf e = None"
    and s: "\<And>k. queue_counter k s = queue_counter k (queue_stats q c) + contribution k e"
  shows "collects (e # h) (put_queue_stats q s c)"
  using assms put_queue_counters [OF collectsD(1) [OF assms(1)], of _ q s]
  by (auto simp: collects_def queue_stats_put)

lemma collects_vf_event:
  assumes "collects h c" and "event_vf e = Some v" "event_queue e = None"
    and s: "\<And>k. vf_counter k s = vf_counter k (StatsCollector_vf_stats v c) + contribution k e"
  shows "collects (e # h) (put_vf_stats v s c)"
  using assms by (auto simp: collects_def vf_stats_put)

lemma get_put_stats [simp]: "get_queue_stats q c = queue_stats q c" "get_vf_stats v c = StatsCollector_vf_stats v c"
  by (simp_all add: get_queue_stats_def queue_stats_def get_vf_stats_def StatsCollector_vf_stats_def)

lemma collects_record:
  assumes "collects h c"
  shows "collects (e # h) (record_event e c)"
proof (cases e)
  case (EvTx q n)
  have "queue_counter k ((queue_stats q c)\<lparr>q_tx_packets := q_tx_packets (queue_stats q c) + 1, q_tx_bytes := q_tx_bytes (queue_stats q c) + n\<rparr>)
      = queue_counter k (queue_stats q c) + contribution k e" for k by (cases k) (simp_all add: EvTx)
  from collects_queue_event [OF assms _ _ this] show ?thesis by (simp add: EvTx StatsCollector_record_tx_packet_def Let_def)
next
  case (EvRx q n)
  have "queue_counter k ((queue_stats q c)\<lparr>q_rx_packets := q_rx_packets (queue_stats q c) + 1, q_rx_bytes := q_rx_bytes (queue_stats q c) + n\<rparr>)
      = queue_counter k (queue_stats q c) + contribution k e" for k by (cases k) (simp_all add: EvRx)
  from collects_queue_event [OF assms _ _ this] show ?thesis by (simp add: EvRx StatsCollector_record_rx_packet_def Let_def)
next
  case (EvError q t)
  let ?s = "queue_stats q c"
  have "queue_counter k (if t \<in> {TxDescriptorError, TxDMAError, TxChecksumError} then ?s\<lparr>q_tx_errors := q_tx_errors ?s + 1\<rparr>
      else ?s\<lparr>q_rx_errors := q_rx_errors ?s + 1\<rparr>) = queue_counter k ?s + contribution k e" for k by (cases k) (simp_all add: EvError)
  from collects_queue_event [OF assms _ _ this] show ?thesis by (simp add: EvError record_error_def Let_def)
next
  case (EvVfTx v n)
  have "vf_counter k ((StatsCollector_vf_stats v c)\<lparr>v_tx_packets := v_tx_packets (StatsCollector_vf_stats v c) + 1, v_tx_bytes := v_tx_bytes (StatsCollector_vf_stats v c) + n\<rparr>)
      = vf_counter k (StatsCollector_vf_stats v c) + contribution k e" for k by (cases k) (simp_all add: EvVfTx)
  from collects_vf_event [OF assms _ _ this] show ?thesis by (simp add: EvVfTx record_vf_tx_packet_def Let_def)
next
  case (EvVfRx v n)
  have "vf_counter k ((StatsCollector_vf_stats v c)\<lparr>v_rx_packets := v_rx_packets (StatsCollector_vf_stats v c) + 1, v_rx_bytes := v_rx_bytes (StatsCollector_vf_stats v c) + n\<rparr>)
      = vf_counter k (StatsCollector_vf_stats v c) + contribution k e" for k by (cases k) (simp_all add: EvVfRx)
  from collects_vf_event [OF assms _ _ this] show ?thesis by (simp add: EvVfRx record_vf_rx_packet_def Let_def)
next
  case (EvVfMailbox v)
  have "vf_counter k ((StatsCollector_vf_stats v c)\<lparr>v_mailbox_messages := v_mailbox_messages (StatsCollector_vf_stats v c) + 1\<rparr>)
      = vf_counter k (StatsCollector_vf_stats v c) + contribution k e" for k by (cases k) (simp_all add: EvVfMailbox)
  from collects_vf_event [OF assms _ _ this] show ?thesis by (simp add: EvVfMailbox record_vf_mailbox_message_def Let_def)
qed

lemma reset_unknown:
  "um_lookup (queue_stats_map c) q = None \<Longrightarrow> queue_stats q c = QueueStats_zero"
  "um_lookup (vf_stats_map c) v = None \<Longrightarrow> StatsCollector_vf_stats v c = StatsCollector_VFStats_zero"
  by (simp_all add: queue_stats_def StatsCollector_vf_stats_def)

lemma queue_or_vf: "event_queue e = None \<or> event_vf e = None"
  by (cases e) simp_all

lemma total_of_cong: "(\<And>e. p e \<longleftrightarrow> q e) \<Longrightarrow> total_of k p h = total_of k q h"
  by (induction h) simp_all

lemma total_of_id: "total_of k (\<lambda>e. f e = Some a \<and> f e \<noteq> Some b) h = (if a = b then 0 else total_of k (\<lambda>e. f e = Some a) h)"
  by (induction h) auto

lemma reset_queue_counters:
  assumes "um_wf (queue_stats_map c)"
  shows "port_counter k (port_stats (reset_queue q c)) + queue_counter k (queue_stats q c) = port_counter k (port_stats c)"
    "queue_stats q' (reset_queue q c) = (if q' = q then QueueStats_zero else queue_stats q' c)"
    "StatsCollector_vf_stats v (reset_queue q c) = StatsCollector_vf_stats v c" "um_wf (queue_stats_map (reset_queue q c))"
  using assms put_queue_counters [OF assms, of k q QueueStats_zero]
  by (auto simp: reset_queue_def queue_stats_put reset_unknown)

lemma collects_reset_queue:
  assumes "collects h c"
  shows "collects (log_call (ResetQueue q) h) (reset_queue q c)"
proof -
  note d = collectsD [OF assms]
  have p: "total_of k (\<lambda>e. event_queue e \<noteq> None) h
      = total_of k (\<lambda>e. event_queue e = Some q) h + total_of k (\<lambda>e. event_queue e \<noteq> None \<and> event_queue e \<noteq> Some q) h" for k
    unfolding total_of_split [of k "\<lambda>e. event_queue e \<noteq> None" h "\<lambda>e. event_queue e = Some q"]
    by (intro arg_cong2 [where f = "(+)"] total_of_cong) auto
  have "port_counter k (port_stats (reset_queue q c)) = total_of k (\<lambda>e. event_queue e \<noteq> None \<and> event_queue e \<noteq> Some q) h" for k
    using reset_queue_counters(1) [OF d(1), of k q] p [of k] d(2, 3) [of k] by (simp add: add.commute)
  moreover have "total_of k (\<lambda>e. event_vf e = Some v \<and> event_queue e \<noteq> Some q) h = total_of k (\<lambda>e. event_vf e = Some v) h" for k v
    by (rule total_of_cong) (metis option.distinct(1) queue_or_vf)
  ultimately show ?thesis using d reset_queue_counters(2-4) [OF d(1)] by (simp add: collects_def total_of_id [of k event_queue for k])
qed

lemma collects_reset_vf:
  assumes "collects h c"
  shows "collects (log_call (ResetVf v) h) (StatsCollector_reset_vf v c)"
proof -
  note d = collectsD [OF assms]
  have "total_of k (\<lambda>e. (event_queue e \<noteq> None) \<and> event_vf e \<noteq> Some v) h = total_of k (\<lambda>e. event_queue e \<noteq> None) h"
    "total_of k (\<lambda>e. event_queue e = Some q \<and> event_vf e \<noteq> Some v) h = total_of k (\<lambda>e. event_queue e = Some q) h" for k q
    by (rule total_of_cong, metis option.distinct(1) queue_or_vf)+
  moreover have "StatsCollector_vf_stats v' (StatsCollector_reset_vf v c) = (if v' = v then StatsCollector_VFStats_zero else StatsCollector_vf_stats v' c)" for v'
    by (simp add: StatsCollector_reset_vf_def vf_stats_put reset_unknown)
  ultimately show ?thesis using d by (simp add: collects_def StatsCollector_reset_vf_def total_of_id [of k event_vf for k])
qed

lemma collects_step: "collects h c \<Longrightarrow> collects (log_call op h) (stats_exec op c)"
  by (cases op)
    (auto simp: collects_record collects_reset_queue [simplified] collects_reset_vf [simplified],
     simp add: collects_def reset_all_def port_counter_sum queue_stats_def StatsCollector_vf_stats_def)

lemma collects_run: "collects h c \<Longrightarrow> collects (fold log_call ops h) (fold stats_exec ops c)"
  by (induction ops arbitrary: h c) (auto intro: collects_step)

section \<open>Properties\<close>

text \<open>C34: after any sequence of records and resets, the totals of the port are the sums over the events of all queues that were recorded and
  not reset since, the counters of a queue those over its own events and the counters of a virtual function those over its own. In
  particular the events of virtual functions never count for the port, and the two drop counters of the port stay 0.\<close>

theorem stats_refine_log:
  "port_rx_dropped (port_stats (fold stats_exec ops StatsCollector_new)) = 0 \<and>
   port_tx_dropped (port_stats (fold stats_exec ops StatsCollector_new)) = 0 \<and>
   (\<forall>k q v. port_counter k (port_stats (fold stats_exec ops StatsCollector_new)) = total_of k (\<lambda>e. event_queue e \<noteq> None) (fold log_call ops []) \<and>
     queue_counter k (queue_stats q (fold stats_exec ops StatsCollector_new)) = total_of k (\<lambda>e. event_queue e = Some q) (fold log_call ops []) \<and>
     vf_counter k (StatsCollector_vf_stats v (fold stats_exec ops StatsCollector_new)) = total_of k (\<lambda>e. event_vf e = Some v) (fold log_call ops []))"
proof -
  have "collects [] StatsCollector_new"
    by (simp add: collects_def StatsCollector_new_def port_counter_sum queue_stats_def StatsCollector_vf_stats_def)
  from collectsD [OF collects_run [OF this, of ops]] show ?thesis using no_drop_counters by blast
qed

end
