(* ===== verification/Ieee_Double.thy ===== *)
theory Ieee_Double
  imports Complex_Main "HOL-Library.Log_Nat"
begin

text \<open>
  The part of IEEE 754 double arithmetic that the congestion control of \<^verbatim>\<open>rocev2/congestion.cpp\<close> uses. A finite double is
  represented by its value, a rational number; an operation is the exact one followed by \<open>dbl\<close>, the
  rounding to the nearest double with ties to even (53 significant bits, exponents from \<open>-1022\<close>). Overflow,
  NaN and the sign of zero do not occur where it is used: the values stay below \<open>2 ^ 64\<close>.
  The locale \<open>rounding\<close> states what the code's bounds rely on, and \<open>dbl\<close> is shown to be an instance.
\<close>

section \<open>Rounding\<close>

text \<open>The exponent of the power of two at or below a positive number.\<close>

definition floor_log2 :: "rat \<Rightarrow> int" where
  "floor_log2 x =
     (case quotient_of x of (p, q) \<Rightarrow>
        let k = bitlen p - bitlen q in if x < 2 powi k then k - 1 else k)"

definition round_even :: "rat \<Rightarrow> int" where
  "round_even x =
     (let f = \<lfloor>x\<rfloor>; d = x - of_int f in
      if d < 1 / 2 then f else if d > 1 / 2 then f + 1 else if even f then f else f + 1)"

definition dbl_ulp :: "rat \<Rightarrow> rat" where
  "dbl_ulp x = 2 powi (max (floor_log2 x) (- 1022) - 52)"

definition dbl_pos :: "rat \<Rightarrow> rat" where
  "dbl_pos x = of_int (round_even (x / dbl_ulp x)) * dbl_ulp x"

definition dbl :: "rat \<Rightarrow> rat" where
  "dbl x = (if x = 0 then 0 else if x > 0 then dbl_pos x else - dbl_pos (- x))"

section \<open>The laws of rounding the code relies on\<close>

locale rounding =
  fixes rnd :: "rat \<Rightarrow> rat"
  assumes rnd_mono: "x \<le> y \<Longrightarrow> rnd x \<le> rnd y"
    and rnd_nat: "n \<le> 2 ^ 53 \<Longrightarrow> rnd (of_nat n) = of_nat n"
    and rnd_half: "rnd (1 / 2) = 1 / 2"
begin

lemma rnd_0: "rnd 0 = 0"
  using rnd_nat [of 0] by simp

lemma rnd_1: "rnd 1 = 1"
  using rnd_nat [of 1] by simp

lemma rnd_unit: "0 \<le> x \<Longrightarrow> x \<le> 1 \<Longrightarrow> 0 \<le> rnd x \<and> rnd x \<le> 1"
  using rnd_mono [of 0 x] rnd_mono [of x 1] by (simp add: rnd_0 rnd_1)

lemma rnd_below_nat: "n \<le> 2 ^ 53 \<Longrightarrow> x \<le> of_nat n \<Longrightarrow> rnd x \<le> of_nat n"
  using rnd_mono [of x "of_nat n"] by (simp add: rnd_nat)

text \<open>The factor \<open>1 - alpha / 2\<close> of a rate decrease.\<close>

lemma factor_bounds:
  assumes "0 \<le> a" "a \<le> 1"
  shows "1 / 2 \<le> rnd (1 - rnd (a / 2))" "rnd (1 - rnd (a / 2)) \<le> 1"
proof -
  have "0 \<le> rnd (a / 2)" "rnd (a / 2) \<le> 1 / 2"
    using assms rnd_mono [of 0 "a / 2"] rnd_mono [of "a / 2" "1 / 2"] by (simp_all add: rnd_0 rnd_half)
  then show "1 / 2 \<le> rnd (1 - rnd (a / 2))" "rnd (1 - rnd (a / 2)) \<le> 1"
    using rnd_mono [of "1 / 2" "1 - rnd (a / 2)"] rnd_mono [of "1 - rnd (a / 2)" 1] by (simp_all add: rnd_1 rnd_half)
qed

text \<open>Scaling a number below \<open>2 ^ 53\<close> by a factor of the unit interval does not increase it, nor make it negative.\<close>

lemma scaled_bounds:
  assumes "n \<le> 2 ^ 53" "0 \<le> f" "f \<le> 1"
  shows "0 \<le> rnd (rnd (of_nat n) * f)" "rnd (rnd (of_nat n) * f) \<le> of_nat n"
proof -
  have "0 \<le> of_nat n * f" "of_nat n * f \<le> of_nat n" using assms by (simp_all add: mult_left_le)
  then show "0 \<le> rnd (rnd (of_nat n) * f)" "rnd (rnd (of_nat n) * f) \<le> of_nat n"
    using assms rnd_mono [of 0 "of_nat n * f"] rnd_below_nat by (simp_all add: rnd_nat rnd_0)
qed

end

section \<open>Rounding to the nearest double\<close>

lemma powi_nat: "2 powi (int n) = (2 :: rat) ^ n"
  by (simp add: power_int_def)

lemma powi_less_iff: "(2 :: rat) powi m < 2 powi n \<longleftrightarrow> m < n"
  using power_int_strict_increasing [of m n "2 :: rat"] power_int_increasing [of n m "2 :: rat"] by fastforce

lemma powi_le_iff: "(2 :: rat) powi m \<le> 2 powi n \<longleftrightarrow> m \<le> n"
  by (simp add: powi_less_iff flip: not_less)

lemma floorlog_powi:
  assumes "0 < n"
  shows "2 powi (int (floorlog 2 (nat n)) - 1) \<le> (of_int n :: rat)" "of_int n < (2 powi int (floorlog 2 (nat n)) :: rat)"
proof -
  define b where "b = floorlog 2 (nat n)"
  have bn: "2 ^ (b - 1) \<le> nat n" "nat n < 2 ^ b" and "0 < b"
    using floorlog_bounds [of "nat n" 2] assms by (auto simp: b_def floorlog_eq_zero_iff intro!: gr0I)
  then have "int b - 1 = int (b - 1)" by simp
  moreover have "(of_int n :: rat) = of_nat (nat n)" using assms by simp
  moreover have "(2 :: rat) ^ (b - 1) \<le> of_nat (nat n)" "of_nat (nat n) < (2 :: rat) ^ b"
    using bn of_nat_le_iff [of "2 ^ (b - 1)" "nat n", where 'a = rat] of_nat_less_iff [of "nat n" "2 ^ b", where 'a = rat]
    by simp_all
  ultimately show "2 powi (int (floorlog 2 (nat n)) - 1) \<le> (of_int n :: rat)" "of_int n < (2 powi int (floorlog 2 (nat n)) :: rat)"
    unfolding b_def [symmetric] by (simp_all only: powi_nat)
qed

lemma floor_log2_bounds:
  assumes "0 < x"
  shows "2 powi floor_log2 x \<le> x" "x < 2 powi (floor_log2 x + 1)"
proof -
  obtain p q where pq: "quotient_of x = (p, q)" by (metis surj_pair)
  have q: "0 < q" and x: "x = of_int p / of_int q" using pq by (simp_all add: quotient_of_denom_pos quotient_of_div)
  with assms have p: "0 < p" by (simp add: zero_less_divide_iff)
  define a b where "a = int (floorlog 2 (nat p))" and "b = int (floorlog 2 (nat q))"
  note P = floorlog_powi [OF p, folded a_def] and Q = floorlog_powi [OF q, folded b_def]
  have "2 powi (a - 1) / 2 powi b < x"
    unfolding x using P(1) Q(2) q by (intro frac_less2) simp_all
  then have lo: "2 powi (a - b - 1) < x" by (simp add: power_int_diff power_int_add field_simps)
  have "x < 2 powi a / 2 powi (b - 1)"
    unfolding x using P(2) Q(1) p by (intro frac_less) simp_all
  then have "x < 2 powi (a - b + 1)" by (simp add: power_int_diff power_int_add field_simps)
  with lo show "2 powi floor_log2 x \<le> x" "x < 2 powi (floor_log2 x + 1)"
    unfolding floor_log2_def pq by (simp_all add: Let_def bitlen_def flip: a_def b_def)
qed

lemma round_even_of_int [simp]: "round_even (of_int z) = z"
  by (simp add: round_even_def)

lemma round_even_floor: "round_even x = \<lfloor>x\<rfloor> \<or> round_even x = \<lfloor>x\<rfloor> + 1"
  by (simp add: round_even_def Let_def)

lemma round_even_mono: "x \<le> y \<Longrightarrow> round_even x \<le> round_even y"
proof (cases "\<lfloor>x\<rfloor> = \<lfloor>y\<rfloor>")
  case True
  then show "x \<le> y \<Longrightarrow> ?thesis" by (auto simp: round_even_def Let_def)
next
  case False
  assume "x \<le> y"
  with False have "\<lfloor>x\<rfloor> + 1 \<le> \<lfloor>y\<rfloor>" using floor_mono [of x y] by linarith
  with round_even_floor [of x] round_even_floor [of y] show ?thesis by linarith
qed

lemma dbl_pos_mono_binade:
  assumes "0 < x" "x \<le> y" "dbl_ulp x = dbl_ulp y"
  shows "dbl_pos x \<le> dbl_pos y"
proof -
  have "0 < dbl_ulp y" by (simp add: dbl_ulp_def)
  then have "round_even (x / dbl_ulp y) \<le> round_even (y / dbl_ulp y)"
    using assms by (intro round_even_mono divide_right_mono) simp_all
  then show ?thesis using assms \<open>0 < dbl_ulp y\<close> by (simp add: dbl_pos_def mult_right_mono)
qed

lemma dbl_pos_upper:
  assumes "0 < x"
  defines "e \<equiv> max (floor_log2 x) (- 1022)"
  shows "dbl_pos x \<le> 2 powi (e + 1)"
proof -
  have u: "dbl_ulp x = 2 powi (e - 52)" by (simp add: dbl_ulp_def e_def)
  have "x \<le> 2 powi (e + 1)"
    using floor_log2_bounds(2) [OF assms(1)] powi_le_iff [of "floor_log2 x + 1" "e + 1"] by (simp add: e_def)
  also have "(2 :: rat) powi (e + 1) = of_int (2 ^ 53) * dbl_ulp x"
    unfolding u using power_int_add [of "2 :: rat" 53 "e - 52"] by (simp add: algebra_simps)
  finally have "x / dbl_ulp x \<le> of_int (2 ^ 53)" by (simp add: u divide_le_eq)
  from round_even_mono [OF this] have "round_even (x / dbl_ulp x) \<le> 2 ^ 53" by (simp only: round_even_of_int)
  then have "(of_int (round_even (x / dbl_ulp x)) :: rat) \<le> of_int (2 ^ 53)" by (simp only: of_int_le_iff)
  then have "dbl_pos x \<le> of_int (2 ^ 53) * dbl_ulp x" unfolding dbl_pos_def by (rule mult_right_mono) (simp add: u)
  then show ?thesis by (simp add: \<open>2 powi (e + 1) = of_int (2 ^ 53) * dbl_ulp x\<close>)
qed

lemma dbl_pos_lower:
  assumes "0 < x" "- 1022 \<le> floor_log2 x"
  shows "2 powi floor_log2 x \<le> dbl_pos x"
proof -
  have u: "dbl_ulp x = 2 powi (floor_log2 x - 52)" using assms by (simp add: dbl_ulp_def max_def)
  have eq: "(2 :: rat) powi floor_log2 x = of_int (2 ^ 52) * dbl_ulp x"
    unfolding u using power_int_add [of "2 :: rat" 52 "floor_log2 x - 52"] by (simp add: algebra_simps)
  then have "of_int (2 ^ 52) \<le> x / dbl_ulp x"
    using floor_log2_bounds(1) [OF assms(1)] by (simp add: u le_divide_eq)
  from round_even_mono [OF this] have "2 ^ 52 \<le> round_even (x / dbl_ulp x)" by (simp only: round_even_of_int)
  then have "of_int (2 ^ 52) \<le> (of_int (round_even (x / dbl_ulp x)) :: rat)" by (simp only: of_int_le_iff)
  then have "of_int (2 ^ 52) * dbl_ulp x \<le> dbl_pos x" unfolding dbl_pos_def by (rule mult_right_mono) (simp add: u)
  then show ?thesis by (simp add: eq)
qed

lemma dbl_pos_mono:
  assumes "0 < x" "x \<le> y"
  shows "dbl_pos x \<le> dbl_pos y"
proof -
  have "2 powi floor_log2 x < (2 :: rat) powi (floor_log2 y + 1)"
    using floor_log2_bounds(1) [OF assms(1)] floor_log2_bounds(2) [of y] assms by linarith
  then have le: "floor_log2 x \<le> floor_log2 y" by (simp add: powi_less_iff)
  show ?thesis
  proof (cases "max (floor_log2 x) (- 1022) = max (floor_log2 y) (- 1022)")
    case True
    then show ?thesis using dbl_pos_mono_binade [OF assms] by (simp add: dbl_ulp_def)
  next
    case False
    with le have e: "- 1022 \<le> floor_log2 y" "max (floor_log2 x) (- 1022) + 1 \<le> floor_log2 y" by auto
    from dbl_pos_upper [OF assms(1)] have "dbl_pos x \<le> 2 powi floor_log2 y"
      using powi_le_iff [of "max (floor_log2 x) (- 1022) + 1" "floor_log2 y"] e(2) by linarith
    with dbl_pos_lower [of y] assms e(1) show ?thesis by linarith
  qed
qed

lemma dbl_pos_nonneg: "0 < x \<Longrightarrow> 0 \<le> dbl_pos x"
  using round_even_mono [of 0 "x / dbl_ulp x"] round_even_of_int [of 0]
  by (simp add: dbl_pos_def dbl_ulp_def)

lemma dbl_mono: "x \<le> y \<Longrightarrow> dbl x \<le> dbl y"
  using dbl_pos_mono [of x y] dbl_pos_mono [of "- y" "- x"] dbl_pos_nonneg [of y] dbl_pos_nonneg [of "- x"]
  by (auto simp: dbl_def)

text \<open>An integral multiple of a power of two at or above the unit in the last place is a double.\<close>

lemma dbl_exact:
  assumes "0 < x" "x = of_int m * 2 powi k" "max (floor_log2 x) (- 1022) - 52 \<le> k"
  shows "dbl x = x"
proof -
  define e where "e = max (floor_log2 x) (- 1022) - 52"
  define d where "d = nat (k - e)"
  have u: "dbl_ulp x = 2 powi e" by (simp add: dbl_ulp_def e_def)
  have "k = int d + e" using assms(3) by (simp add: d_def e_def)
  then have "2 powi k = 2 ^ d * dbl_ulp x" unfolding u by (simp add: power_int_add powi_nat)
  then have "x = of_int (m * 2 ^ d) * dbl_ulp x" unfolding assms(2) by simp
  moreover have "dbl_ulp x \<noteq> 0" by (simp add: dbl_ulp_def)
  ultimately have "x / dbl_ulp x = of_int (m * 2 ^ d)" by (metis nonzero_mult_div_cancel_right)
  then have "dbl_pos x = of_int (m * 2 ^ d) * dbl_ulp x" unfolding dbl_pos_def by (simp only: round_even_of_int)
  then show ?thesis using \<open>x = of_int (m * 2 ^ d) * dbl_ulp x\<close> assms(1) by (simp add: dbl_def)
qed

lemma dbl_nat: "n \<le> 2 ^ 53 \<Longrightarrow> dbl (of_nat n) = of_nat n"
proof (cases "n = 0 \<or> n = 2 ^ 53")
  case True
  moreover have "dbl (2 ^ 53) = 2 ^ 53"
  proof (rule dbl_exact [where m = "2 ^ 52" and k = 1])
    have "2 powi floor_log2 (2 ^ 53) \<le> (2 :: rat) powi 53" using floor_log2_bounds(1) [of "2 ^ 53"] by simp
    then show "max (floor_log2 (2 ^ 53)) (- 1022) - 52 \<le> 1" by (simp only: powi_le_iff)
  qed simp_all
  ultimately show ?thesis by (auto simp: dbl_def [of 0])
next
  case False
  assume "n \<le> 2 ^ 53"
  with False have n: "0 < n" "n < 2 ^ 53" by simp_all
  then have "(of_nat n :: rat) < 2 powi 53" using of_nat_less_iff [of n "2 ^ 53", where 'a = rat] by simp
  with floor_log2_bounds(1) [of "of_nat n"] n have "2 powi floor_log2 (of_nat n) < (2 :: rat) powi 53" by simp
  then have "floor_log2 (of_nat n) < 53" by (simp only: powi_less_iff)
  with n show ?thesis by (intro dbl_exact [where m = "int n" and k = 0]) simp_all
qed

lemma dbl_half: "dbl (1 / 2) = 1 / 2"
proof (rule dbl_exact [where m = 1 and k = "- 1"])
  have "2 powi floor_log2 (1 / 2) \<le> (2 :: rat) powi 0" using floor_log2_bounds(1) [of "1 / 2"] by simp
  then show "max (floor_log2 (1 / 2)) (- 1022) - 52 \<le> - 1" by (simp only: powi_le_iff)
qed (simp_all add: power_int_minus)

text \<open>One tenth is not a double; this is the nearest one.\<close>

lemma dbl_tenth: "dbl (1 / 10) = 3602879701896397 / 36028797018963968"
  by code_simp

interpretation dbl: rounding dbl
  using dbl_mono dbl_nat dbl_half by unfold_locales

section \<open>Conversions\<close>

text \<open>The conversion of a double to an unsigned integer truncates. It is defined for values from above \<open>-1\<close> to below \<open>2 ^ 64\<close>.\<close>

definition double_to_int :: "rat \<Rightarrow> int" where
  "double_to_int x = (if 0 \<le> x then \<lfloor>x\<rfloor> else \<lceil>x\<rceil>)"

lemma double_to_int_bounds: "0 \<le> x \<Longrightarrow> x \<le> of_nat n \<Longrightarrow> 0 \<le> double_to_int x \<and> double_to_int x \<le> int n"
  by (simp add: double_to_int_def floor_le_iff)

end
