(* ===== verification/Nic_Ptp.thy ===== *)
theory Nic_Ptp
  imports Nic_Prelude Ieee_Double
begin

text \<open>
  The PTP hardware clock (\<^verbatim>\<open>ptp_clock.h/.cpp\<close>) and the packet timestamper (\<^verbatim>\<open>ptp_timestamper.h/.cpp\<close>). The drift is a double,
  represented as in \<open>Ieee_Double\<close>. The theory shows that, in spite of the rounding, a clock without drift counts exactly, a fast
  one never loses time and a slow one never gains any, and that timestamps are the clock's readings.
\<close>

section \<open>Clock\<close>

record PTPConfig =
  frequency_hz :: u64
  drift_ppb :: rat
  ptp_enabled :: bool

definition PTPConfig_default :: PTPConfig where
  "PTPConfig_default = \<lparr>frequency_hz = 1000000000, drift_ppb = 0, ptp_enabled = True\<rparr>"

record PTPClock =
  ptp_config :: PTPConfig
  counter :: u64
  frequency_adjustment :: rat
  tick_count :: u64
  total_time_adjustment :: u64

definition PTPClock_new :: "PTPConfig \<Rightarrow> PTPClock" where
  "PTPClock_new cfg = \<lparr>ptp_config = cfg, counter = 0, frequency_adjustment = 0, tick_count = 0, total_time_adjustment = 0\<rparr>"

definition read_time_ns :: "PTPClock \<Rightarrow> u64" where
  "read_time_ns c = counter c"

text \<open>The offset and the total are signed 64-bit numbers, kept as words. The negation overflows, and the sum may, at the ends of
  the signed range, where C++ leaves the result undefined and the model wraps.\<close>

definition adjust_time :: "u64 \<Rightarrow> PTPClock \<Rightarrow> PTPClock" where
  "adjust_time offset_ns c =
     (if \<not> ptp_enabled (ptp_config c) then c
      else
        let c1 = (if 0 \<le> sint offset_ns then c\<lparr>counter := counter c + offset_ns\<rparr>
                  else let decrement = - offset_ns in
                    if decrement > counter c then c\<lparr>counter := 0\<rparr> else c\<lparr>counter := counter c - decrement\<rparr>)
        in c1\<lparr>total_time_adjustment := total_time_adjustment c1 + offset_ns\<rparr>)"

definition adjust_frequency :: "rat \<Rightarrow> PTPClock \<Rightarrow> PTPClock" where
  "adjust_frequency ppb c =
     (if \<not> ptp_enabled (ptp_config c) then c else c\<lparr>frequency_adjustment := dbl (frequency_adjustment c + ppb)\<rparr>)"

definition effective_drift_ppb :: "PTPClock \<Rightarrow> rat" where
  "effective_drift_ppb c = dbl (drift_ppb (ptp_config c) + frequency_adjustment c)"

definition drift_factor :: "rat \<Rightarrow> rat" where
  "drift_factor effective_ppb = dbl (1 + dbl (effective_ppb / 1000000000))"

definition adjusted_elapsed :: "rat \<Rightarrow> u64 \<Rightarrow> u64" where
  "adjusted_elapsed effective_ppb elapsed_ns =
     of_int (double_to_int (dbl (dbl (of_nat (unat elapsed_ns)) * drift_factor effective_ppb)))"

definition PTPClock_tick :: "u64 \<Rightarrow> PTPClock \<Rightarrow> PTPClock" where
  "PTPClock_tick elapsed_ns c =
     (if \<not> ptp_enabled (ptp_config c) then c
      else c\<lparr>counter := counter c + adjusted_elapsed (effective_drift_ppb c) elapsed_ns, tick_count := tick_count c + 1\<rparr>)"

definition PTPClock_reset :: "PTPClock \<Rightarrow> PTPClock" where
  "PTPClock_reset c = c\<lparr>counter := 0, frequency_adjustment := 0, tick_count := 0, total_time_adjustment := 0\<rparr>"

definition PTPClock_set_enabled :: "bool \<Rightarrow> PTPClock \<Rightarrow> PTPClock" where
  "PTPClock_set_enabled b c = c\<lparr>ptp_config := (ptp_config c)\<lparr>ptp_enabled := b\<rparr>\<rparr>"

section \<open>Timestamper\<close>

record PTPStats =
  tx_timestamps :: u64
  rx_timestamps :: u64
  ptp_packets_detected :: u64

text \<open>The clock is shared and passed in.\<close>

record PTPTimestamper =
  tx_enabled :: "(u16 \<times> bool) list"
  rx_enabled :: "(u16 \<times> bool) list"
  ptp_stats :: PTPStats

definition PTPStats_zero :: PTPStats where
  "PTPStats_zero = \<lparr>tx_timestamps = 0, rx_timestamps = 0, ptp_packets_detected = 0\<rparr>"

definition PTPTimestamper_new :: PTPTimestamper where
  "PTPTimestamper_new = \<lparr>tx_enabled = [], rx_enabled = [], ptp_stats = PTPStats_zero\<rparr>"

definition tx_timestamping_enabled :: "PTPTimestamper \<Rightarrow> u16 \<Rightarrow> bool" where
  "tx_timestamping_enabled t q = (case um_lookup (tx_enabled t) q of None \<Rightarrow> False | Some b \<Rightarrow> b)"

definition rx_timestamping_enabled :: "PTPTimestamper \<Rightarrow> u16 \<Rightarrow> bool" where
  "rx_timestamping_enabled t q = (case um_lookup (rx_enabled t) q of None \<Rightarrow> False | Some b \<Rightarrow> b)"

definition timestamp_tx_packet :: "PTPClock \<Rightarrow> PTPTimestamper \<Rightarrow> u16 \<Rightarrow> u64 \<times> PTPTimestamper" where
  "timestamp_tx_packet c t q =
     (if \<not> tx_timestamping_enabled t q then (0, t)
      else (read_time_ns c, t\<lparr>ptp_stats := (ptp_stats t)\<lparr>tx_timestamps := tx_timestamps (ptp_stats t) + 1\<rparr>\<rparr>))"

definition timestamp_rx_packet :: "PTPClock \<Rightarrow> PTPTimestamper \<Rightarrow> u16 \<Rightarrow> u64 \<times> PTPTimestamper" where
  "timestamp_rx_packet c t q =
     (if \<not> rx_timestamping_enabled t q then (0, t)
      else (read_time_ns c, t\<lparr>ptp_stats := (ptp_stats t)\<lparr>rx_timestamps := rx_timestamps (ptp_stats t) + 1\<rparr>\<rparr>))"

definition is_ptp_packet :: "bytes \<Rightarrow> bool" where
  "is_ptp_packet packet \<longleftrightarrow>
     (if length packet < 14 then False
      else (push_bit 8 (ucast (packet ! 12)) OR ucast (packet ! 13) :: u16) = 0x88F7)"

definition enable_tx_timestamping :: "u16 \<Rightarrow> bool \<Rightarrow> PTPTimestamper \<Rightarrow> PTPTimestamper" where
  "enable_tx_timestamping q b t = t\<lparr>tx_enabled := um_update q b (tx_enabled t)\<rparr>"

definition enable_rx_timestamping :: "u16 \<Rightarrow> bool \<Rightarrow> PTPTimestamper \<Rightarrow> PTPTimestamper" where
  "enable_rx_timestamping q b t = t\<lparr>rx_enabled := um_update q b (rx_enabled t)\<rparr>"

definition PTPTimestamper_reset_stats :: "PTPTimestamper \<Rightarrow> PTPTimestamper" where
  "PTPTimestamper_reset_stats t = t\<lparr>ptp_stats := PTPStats_zero\<rparr>"

section \<open>Drift\<close>

lemma drift_factor_mono: "p \<le> q \<Longrightarrow> drift_factor p \<le> drift_factor q"
  unfolding drift_factor_def by (intro dbl_mono add_left_mono divide_right_mono) simp_all

lemma drift_factor_0: "drift_factor 0 = 1"
  by (simp add: drift_factor_def dbl.rnd_0 dbl.rnd_1)

lemma drift_factor_stopped: "drift_factor (- 1000000000) = 0"
proof -
  have "dbl (- 1) = - 1" using dbl.rnd_1 by (simp add: dbl_def)
  then show ?thesis by (simp add: drift_factor_def dbl.rnd_0)
qed

text \<open>The real value the conversion truncates.\<close>

definition drifted :: "rat \<Rightarrow> nat \<Rightarrow> rat" where
  "drifted ppb n = dbl (of_nat n * drift_factor ppb)"

lemma adjusted_elapsed_drifted:
  "unat elapsed \<le> 2 ^ 53 \<Longrightarrow> adjusted_elapsed ppb elapsed = of_int (double_to_int (drifted ppb (unat elapsed)))"
  using dbl.rnd_nat [of "unat elapsed"] by (simp add: adjusted_elapsed_def drifted_def)

lemma drifted_mono: "p \<le> q \<Longrightarrow> drifted p n \<le> drifted q n"
  unfolding drifted_def by (intro dbl_mono mult_left_mono drift_factor_mono) simp_all

lemma drifted_0: "n \<le> 2 ^ 53 \<Longrightarrow> drifted 0 n = of_nat n"
  by (simp add: drifted_def drift_factor_0 dbl.rnd_nat)

lemma drifted_nonneg: "- 1000000000 \<le> p \<Longrightarrow> 0 \<le> drifted p n"
  using drifted_mono [of "- 1000000000" p n] by (simp add: drifted_def drift_factor_stopped dbl.rnd_0)

lemma unat_of_double:
  assumes "0 \<le> x" "x < 2 ^ 64"
  shows "int (unat (of_int (double_to_int x) :: u64)) = \<lfloor>x\<rfloor>"
proof -
  have "0 \<le> \<lfloor>x\<rfloor>" "\<lfloor>x\<rfloor> < 2 ^ 64" using assms by (simp_all add: floor_less_iff)
  then show ?thesis using assms by (simp add: double_to_int_def uint_nat [symmetric] uint_word_of_int)
qed

lemma drifted_bound:
  assumes "n \<le> 2 ^ 53" "p \<le> 1000000000"
  shows "drifted p n \<le> 2 ^ 54"
proof -
  have two: "drift_factor 1000000000 = 2" using dbl.rnd_nat [of 2] by (simp add: drift_factor_def dbl.rnd_1)
  have "dbl (2 ^ 54) = 2 ^ 54" by code_simp
  moreover have "of_nat n * 2 \<le> (2 ^ 54 :: rat)"
  proof -
    have "of_nat n \<le> (2 ^ 53 :: rat)" using assms(1) by (metis of_nat_le_iff of_nat_numeral of_nat_power)
    then show ?thesis by simp
  qed
  ultimately have "drifted 1000000000 n \<le> 2 ^ 54" using dbl_mono [of "of_nat n * 2" "2 ^ 54"] by (simp add: drifted_def two)
  with drifted_mono [OF assms(2), of n] show ?thesis by linarith
qed

text \<open>C36: One tick of an enabled clock by at most \<open>2 ^ 53\<close> nanoseconds (some hundred days) with an effective drift between minus and
  plus one billion parts per billion: the counter advances by a number that is not above the elapsed time when the clock is
  slow, not below it when it is fast, exactly the elapsed time when there is no drift, and never more than \<open>2 ^ 54\<close>.\<close>

theorem ptp_tick_direction:
  assumes "ptp_enabled (ptp_config c)" and "unat elapsed \<le> 2 ^ 53"
    and "- 1000000000 \<le> effective_drift_ppb c" and "effective_drift_ppb c \<le> 1000000000"
  shows "\<exists>n. counter (PTPClock_tick elapsed c) = counter c + of_nat n \<and> n \<le> 2 ^ 54 \<and>
    (effective_drift_ppb c \<le> 0 \<longrightarrow> n \<le> unat elapsed) \<and> (0 \<le> effective_drift_ppb c \<longrightarrow> unat elapsed \<le> n)"
proof -
  let ?p = "effective_drift_ppb c" and ?e = "unat elapsed"
  let ?n = "unat (adjusted_elapsed ?p elapsed)"
  have bounds: "0 \<le> drifted ?p ?e" "drifted ?p ?e \<le> 2 ^ 54" using drifted_nonneg drifted_bound assms by auto
  from bounds(2) have "drifted ?p ?e < 2 ^ 64" by (rule le_less_trans) simp
  then have n: "int ?n = \<lfloor>drifted ?p ?e\<rfloor>" using unat_of_double [OF bounds(1)] adjusted_elapsed_drifted [OF assms(2), of ?p] by simp
  have "int ?n \<le> 2 ^ 54" unfolding n using bounds(2) by (simp add: floor_le_iff)
  then have "?n \<le> 2 ^ 54" by (metis of_nat_le_iff of_nat_numeral of_nat_power)
  moreover have "?n \<le> ?e" if "?p \<le> 0"
    using drifted_mono [OF that, of ?e] drifted_0 [OF assms(2)] n by (simp add: floor_le_iff flip: of_nat_le_iff [where 'a = int])
  moreover have "?e \<le> ?n" if "0 \<le> ?p"
  proof -
    have "int ?e \<le> \<lfloor>drifted ?p ?e\<rfloor>" using drifted_mono [OF that, of ?e] drifted_0 [OF assms(2)] by (simp add: le_floor_iff)
    then show ?thesis using n by linarith
  qed
  moreover have "counter (PTPClock_tick elapsed c) = counter c + of_nat ?n" using assms(1) by (simp add: PTPClock_tick_def)
  ultimately show ?thesis by blast
qed

lemma ptp_tick_direction_witness:
  "\<exists>n. counter (PTPClock_tick 1000 (PTPClock_new PTPConfig_default)) = of_nat n \<and> n = 1000"
  using ptp_tick_direction [of "PTPClock_new PTPConfig_default" 1000]
  by (auto simp: PTPClock_new_def PTPConfig_default_def effective_drift_ppb_def dbl.rnd_0)

text \<open>A backward adjustment stops at zero, and only there the total adjustment and the counter disagree.\<close>

lemma adjust_time_back:
  assumes "ptp_enabled (ptp_config c)" "sint offset < 0" "sint offset \<noteq> - (2 ^ 63)"
  shows "int (unat (counter (adjust_time offset c))) = max 0 (int (unat (counter c)) + sint offset)"
proof -
  have "sint offset = uint offset - 2 ^ 64 * of_bool (bit (uint offset) 63)"
    using take_bit_int_eq_self [of "uint offset" 64] uint_lt2p [of offset] by (simp add: sint_uint signed_take_bit_eq_take_bit_minus)
  then have sint: "sint offset = uint offset - 2 ^ 64" using assms(2) by (cases "bit (uint offset) 63") simp_all
  have "uint offset \<noteq> 0" using assms(2) by (metis less_irrefl sint_0 uint_0_iff)
  then have "- uint offset mod 2 ^ 64 = 2 ^ 64 - uint offset"
    using uint_lt2p [of offset] by (simp add: zmod_zminus1_eq_if)
  then have neg: "uint (- offset) = - sint offset" using sint by (simp add: uint_word_ariths)
  show ?thesis
  proof (cases "counter c < - offset")
    case True
    then have "uint (counter c) < - sint offset" using neg by (simp add: word_less_def)
    with True assms show ?thesis by (simp add: adjust_time_def Let_def)
  next
    case False
    then have "- sint offset \<le> uint (counter c)" using neg by (simp add: word_less_def)
    moreover from False have "uint (counter c - - offset) = uint (counter c) - uint (- offset)" by (simp only: not_less uint_minus_simple_alt)
    ultimately show ?thesis using False assms neg by (simp add: adjust_time_def Let_def)
  qed
qed

lemma timestamps_are_readings:
  "fst (timestamp_tx_packet c (enable_tx_timestamping q True t) q) = counter c"
  "fst (timestamp_tx_packet c (enable_tx_timestamping q False t) q) = 0"
  "fst (timestamp_rx_packet c (enable_rx_timestamping q True t) q) = counter c"
  "fst (timestamp_rx_packet c (enable_rx_timestamping q False t) q) = 0"
  by (simp_all add: timestamp_tx_packet_def timestamp_rx_packet_def tx_timestamping_enabled_def rx_timestamping_enabled_def
      enable_tx_timestamping_def enable_rx_timestamping_def read_time_ns_def)

end
