(* ===== verification/Bit_Packing.thy ===== *)
theory Bit_Packing
  imports Nic_Interfaces
begin

text \<open>
  A packer that meets the \<open>bit_packer\<close> contract: fields in order, each most significant bit first, the bits
  cut into bytes. It is the layout the comments of \<^verbatim>\<open>rocev2/formats.h\<close> draw, and it shows that the laws the
  packet theory takes from the bit field library can be met.
\<close>

definition field_bits :: "nat \<Rightarrow> u64 \<Rightarrow> bool list" where
  "field_bits w v = map (bit v) (rev [0..<w])"

definition bits_value :: "bool list \<Rightarrow> u64" where
  "bits_value bs = horner_sum of_bool 2 (rev bs)"

fun pack_bytes :: "nat \<Rightarrow> bool list \<Rightarrow> bytes" where
  "pack_bytes 0 bs = []"
| "pack_bytes (Suc n) bs = ucast (bits_value (take 8 bs)) # pack_bytes n (drop 8 bs)"

definition unpack_bytes :: "bytes \<Rightarrow> bool list" where
  "unpack_bytes xs = concat (map (\<lambda>x. field_bits 8 (ucast x)) xs)"

definition msb_ser :: "nat list \<Rightarrow> u64 list \<Rightarrow> bytes" where
  "msb_ser ws vs = pack_bytes (sum_list ws div 8) (concat (map2 field_bits ws vs))"

fun read_fields :: "nat list \<Rightarrow> bool list \<Rightarrow> u64 list" where
  "read_fields [] bs = []"
| "read_fields (w # ws) bs = bits_value (take w bs) # read_fields ws (drop w bs)"

definition msb_des :: "nat list \<Rightarrow> bytes \<Rightarrow> u64 list" where
  "msb_des ws xs = read_fields ws (unpack_bytes xs)"

lemma length_field_bits [simp]: "length (field_bits w v) = w"
  by (simp add: field_bits_def)

lemma length_pack_bytes [simp]: "length (pack_bytes n bs) = n"
  by (induction n bs rule: pack_bytes.induct) simp_all

lemma bits_value_field: "bits_value (field_bits w v) = take_bit w v"
  by (simp add: bits_value_def field_bits_def rev_map horner_sum_bit_eq_take_bit)

lemma field_bits_value:
  assumes "length bs = 8"
  shows "field_bits 8 (ucast (ucast (bits_value bs) :: byte)) = bs"
proof (rule nth_equalityI)
  fix i assume "i < length (field_bits 8 (ucast (ucast (bits_value bs) :: byte)))"
  then have i: "i < 8" "7 - i < 8" "7 - i < (64 :: nat)" by simp_all
  then show "field_bits 8 (ucast (ucast (bits_value bs) :: byte)) ! i = bs ! i"
    using assms by (simp add: field_bits_def rev_nth bit_simps bits_value_def bit_horner_sum_bit_word_iff)
qed (simp add: assms)

lemma unpack_pack: "length bs = 8 * n \<Longrightarrow> unpack_bytes (pack_bytes n bs @ rest) = bs @ unpack_bytes rest"
proof (induction n bs rule: pack_bytes.induct)
  case (2 n bs)
  then have "length (take 8 bs) = 8" by simp
  from field_bits_value [OF this] 2 show ?case by (simp add: unpack_bytes_def)
qed simp

lemma read_fields_concat:
  "fits ws vs \<Longrightarrow> read_fields ws (concat (map2 field_bits ws vs) @ rest) = vs"
proof (induction ws arbitrary: vs)
  case (Cons w ws)
  then obtain v vs' where vs: "vs = v # vs'" by (cases vs) (auto simp: fits_def)
  have v: "take_bit w v = v" and rest: "fits ws vs'"
    using Cons.prems vs by (auto simp: fits_def word_unat_eq_iff unsigned_take_bit_eq take_bit_nat_eq_self)
  show ?case using Cons.IH [OF rest] by (simp add: vs bits_value_field v)
qed (simp add: fits_def)

lemma length_fields: "length vs = length ws \<Longrightarrow> length (concat (map2 field_bits ws vs)) = sum_list ws"
  by (induction ws vs rule: list_induct2') auto

interpretation msb: bit_packer msb_ser msb_des
proof unfold_locales
  fix ws vs and rest :: bytes
  assume d: "8 dvd sum_list ws" and f: "fits ws vs"
  show "length (msb_ser ws vs) = sum_list ws div 8" by (simp add: msb_ser_def)
  have "length (concat (map2 field_bits ws vs)) = 8 * (sum_list ws div 8)"
    using d f by (simp add: length_fields fits_def)
  then show "msb_des ws (msb_ser ws vs @ rest) = vs"
    using f by (simp add: msb_des_def msb_ser_def unpack_pack read_fields_concat)
qed

end
