(* ===== verification/Nic_Packet_Generator.thy ===== *)
theory Nic_Packet_Generator
  imports Nic_Checksum Bit_Packing
begin

text \<open>
  The packet generator (\<^verbatim>\<open>packet_generator.h/.cpp\<close>): Ethernet, IPv4, TCP and UDP packets with their checksums. The header
  formats belong to the bit field library and are parameters; the locale \<open>net_formats\<close> has the laws the generator relies on, and
  \<open>msb_library\<close> meets them. The generator adds all words first and folds the carries at the end, unlike \<^verbatim>\<open>checksum.cpp\<close>: the theory
  shows that the two agree, and that a receiver accepts every packet that is generated.
\<close>

section \<open>The network side of the bit field library\<close>

record net_library =
  net_ser :: "nat list \<Rightarrow> u64 list \<Rightarrow> bytes"
  kEthernetHeader :: "nat list"
  kVlanTag :: "nat list"
  kIpv4Header :: "nat list"
  kTcpHeader :: "nat list"
  kUdpHeader :: "nat list"

text \<open>Fields are written in order, so a format that starts with whole bytes can be cut there; a 16-bit field is in network byte order; the headers
  have the fields the calls of \<^verbatim>\<open>serialize\<close> name.\<close>

locale net_formats =
  fixes lib :: net_library
  assumes length_ser: "8 dvd sum_list ws \<Longrightarrow> fits ws vs \<Longrightarrow> length (net_ser lib ws vs) = sum_list ws div 8"
    and ser_append: "8 dvd sum_list ws \<Longrightarrow> 8 dvd sum_list ws' \<Longrightarrow> fits ws vs \<Longrightarrow> fits ws' vs' \<Longrightarrow>
      net_ser lib (ws @ ws') (vs @ vs') = net_ser lib ws vs @ net_ser lib ws' vs'"
    and ser_16: "unat v < 2 ^ 16 \<Longrightarrow> net_ser lib [16] [v] = [ucast (drop_bit 8 v), ucast v]"
    and ethernet: "kEthernetHeader lib = [48, 48, 16]"
    and vlan: "kVlanTag lib = [3, 1, 12]"
    and ipv4: "kIpv4Header lib = [4, 4, 6, 2, 16, 16, 3, 13, 8, 8, 16, 32, 32]"
    and tcp: "kTcpHeader lib = [16, 16, 32, 32, 4, 3, 9, 16, 16, 16]"
    and udp: "kUdpHeader lib = [16, 16, 16, 16]"

section \<open>Checksums\<close>

fun add_words :: "u32 \<Rightarrow> bytes \<Rightarrow> u32" where
  "add_words acc (hi # lo # rest) = add_words (acc + ucast (be16 hi lo)) rest"
| "add_words acc [b] = acc + ucast (be16 b 0)"
| "add_words acc [] = acc"

lemma unat_drop_bit_16: "unat (drop_bit 16 s :: u32) = unat s div 65536"
proof -
  have "unat (drop_bit 16 s) = drop_bit 16 (unat s)" by (rule unat_drop_bit_eq)
  also have "\<dots> = unat s div 65536" by (simp add: drop_bit_eq_div)
  finally show ?thesis .
qed

lemma fold_sum_nat: "unat ((s AND 0xFFFF) + drop_bit 16 s :: u32) = unat s mod 65536 + unat s div 65536"
proof -
  have "s AND 0xFFFF = take_bit 16 s" by (simp add: take_bit_eq_mask mask_eq_exp_minus_1)
  then have "unat (s AND 0xFFFF) = unat s mod 65536" by (simp add: take_bit_eq_mod unat_word_ariths)
  moreover have "unat s div 65536 < 65536" using unsigned_less [where 'a = nat, of s] by (simp add: less_mult_imp_div_less)
  moreover have "unat s mod 65536 < 65536" by simp
  ultimately show ?thesis by (simp add: unat_word_ariths(1) unat_drop_bit_16 del: mod_less_divisor)
qed

lemma fold_sum_decreases: "drop_bit 16 s \<noteq> 0 \<Longrightarrow> unat ((s AND 0xFFFF) + drop_bit 16 s :: u32) < unat s"
proof -
  assume "drop_bit 16 s \<noteq> 0"
  then have "unat (drop_bit 16 s) \<noteq> 0" by (simp only: unsigned_eq_0_iff not_False_eq_True)
  then have "0 < unat s div 65536" by (simp only: unat_drop_bit_16 neq0_conv)
  moreover have "unat s = unat s mod 65536 + unat s div 65536 * 65536" by simp
  ultimately show ?thesis unfolding fold_sum_nat by linarith
qed

function fold_sum :: "u32 \<Rightarrow> u32" where
  "fold_sum s = (if drop_bit 16 s \<noteq> 0 then fold_sum ((s AND 0xFFFF) + drop_bit 16 s) else s)"
  by pat_completeness auto
termination
  by (relation "measure unat") (use fold_sum_decreases in auto)

declare fold_sum.simps [simp del]

definition internet_checksum :: "bytes \<Rightarrow> u16" where
  "internet_checksum data = ucast (NOT (fold_sum (add_words 0 data)))"

definition ipv4_checksum :: "bytes \<Rightarrow> u16" where
  "ipv4_checksum header = internet_checksum header"

definition pseudo_header :: "u32 \<Rightarrow> u32 \<Rightarrow> u8 \<Rightarrow> nat \<Rightarrow> bytes" where
  "pseudo_header src_ip dst_ip protocol len =
     (let n = (of_nat len :: u16) in
      [ucast (drop_bit 24 src_ip), ucast (drop_bit 16 src_ip), ucast (drop_bit 8 src_ip), ucast src_ip,
       ucast (drop_bit 24 dst_ip), ucast (drop_bit 16 dst_ip), ucast (drop_bit 8 dst_ip), ucast dst_ip,
       0, protocol, ucast (drop_bit 8 n), ucast (n AND 0xFF)])"

definition tcp_checksum :: "u32 \<Rightarrow> u32 \<Rightarrow> bytes \<Rightarrow> u16" where
  "tcp_checksum src_ip dst_ip segment =
     ucast (NOT (fold_sum (add_words (add_words 0 (pseudo_header src_ip dst_ip 6 (length segment))) segment)))"

definition udp_checksum :: "u32 \<Rightarrow> u32 \<Rightarrow> bytes \<Rightarrow> u16" where
  "udp_checksum src_ip dst_ip datagram =
     (let result = ucast (NOT (fold_sum (add_words (add_words 0 (pseudo_header src_ip dst_ip 17 (length datagram))) datagram)))
      in if result = 0 then 0xFFFF else result)"

section \<open>Packets\<close>

record EthernetConfig =
  dst_mac :: u64
  src_mac :: u64
  ethertype :: u16
  eth_vlan_tag :: "u16 option"

record IPv4Config =
  ip_src :: u32
  ip_dst :: u32
  ip_protocol :: u8
  ip_ttl :: u8
  ip_tos :: u8
  identification :: u16
  dont_fragment :: bool

record TCPConfig =
  tcp_src_port :: u16
  tcp_dst_port :: u16
  seq_num :: u32
  ack_num :: u32
  tcp_flags :: u16
  tcp_window :: u16
  urgent_ptr :: u16

record UDPConfig =
  udp_src_port :: u16
  udp_dst_port :: u16

text \<open>A packet is a zeroed buffer into which the writer puts the headers one after the other from the start.\<close>

definition generate_ethernet :: "net_library \<Rightarrow> EthernetConfig \<Rightarrow> bytes \<Rightarrow> bytes" where
  "generate_ethernet lib cfg payload =
     (let total_size = 14 + (if eth_vlan_tag cfg \<noteq> None then 4 else 0) + length payload;
          header = net_ser lib (kEthernetHeader lib)
            [dst_mac cfg, src_mac cfg, if eth_vlan_tag cfg \<noteq> None then 0x8100 else ucast (ethertype cfg)];
          tag = (case eth_vlan_tag cfg of
              None \<Rightarrow> []
            | Some vlan \<Rightarrow> net_ser lib (kVlanTag lib) [0, 0, ucast (vlan AND 0x0FFF)] @ net_ser lib [16] [ucast (ethertype cfg)])
      in memcpy_at (total_size - length payload) payload (memcpy_at 0 (header @ tag) (replicate total_size 0)))"

definition ipv4_fields :: "IPv4Config \<Rightarrow> nat \<Rightarrow> u64 list" where
  "ipv4_fields cfg total_size =
     [4, 5, ucast (drop_bit 2 (ip_tos cfg) AND 0x3F), ucast (ip_tos cfg AND 0x03), ucast (of_nat total_size :: u16),
      ucast (identification cfg), if dont_fragment cfg then 0x02 else 0x00, 0, ucast (ip_ttl cfg), ucast (ip_protocol cfg), 0,
      ucast (ip_src cfg), ucast (ip_dst cfg)]"

definition put_checksum :: "nat \<Rightarrow> u16 \<Rightarrow> bytes \<Rightarrow> bytes" where
  "put_checksum i c bs = bs[i := ucast (drop_bit 8 c), i + 1 := ucast (c AND 0xFF)]"

definition generate_ipv4 :: "net_library \<Rightarrow> IPv4Config \<Rightarrow> bytes \<Rightarrow> bytes" where
  "generate_ipv4 lib cfg payload =
     (let total_size = 20 + length payload;
          packet = memcpy_at 0 (net_ser lib (kIpv4Header lib) (ipv4_fields cfg total_size)) (replicate total_size 0);
          packet1 = put_checksum 10 (ipv4_checksum (take 20 packet)) packet
      in memcpy_at 20 payload packet1)"

definition tcp_fields :: "TCPConfig \<Rightarrow> u64 list" where
  "tcp_fields cfg =
     [ucast (tcp_src_port cfg), ucast (tcp_dst_port cfg), ucast (seq_num cfg), ucast (ack_num cfg), 5, 0, ucast (tcp_flags cfg),
      ucast (tcp_window cfg), 0, ucast (urgent_ptr cfg)]"

definition generate_tcp :: "net_library \<Rightarrow> TCPConfig \<Rightarrow> u32 \<Rightarrow> u32 \<Rightarrow> bytes \<Rightarrow> bytes" where
  "generate_tcp lib cfg src_ip dst_ip payload =
     (let total_size = 20 + length payload;
          segment = memcpy_at 20 payload (memcpy_at 0 (net_ser lib (kTcpHeader lib) (tcp_fields cfg)) (replicate total_size 0))
      in put_checksum 16 (tcp_checksum src_ip dst_ip segment) segment)"

definition udp_fields :: "UDPConfig \<Rightarrow> nat \<Rightarrow> u64 list" where
  "udp_fields cfg total_size = [ucast (udp_src_port cfg), ucast (udp_dst_port cfg), ucast (of_nat total_size :: u16), 0]"

definition generate_udp :: "net_library \<Rightarrow> UDPConfig \<Rightarrow> u32 \<Rightarrow> u32 \<Rightarrow> bytes \<Rightarrow> bytes" where
  "generate_udp lib cfg src_ip dst_ip payload =
     (let total_size = 8 + length payload;
          datagram = memcpy_at 8 payload (memcpy_at 0 (net_ser lib (kUdpHeader lib) (udp_fields cfg total_size)) (replicate total_size 0))
      in put_checksum 6 (udp_checksum src_ip dst_ip datagram) datagram)"

definition generate_eth_ipv4_tcp :: "net_library \<Rightarrow> EthernetConfig \<Rightarrow> IPv4Config \<Rightarrow> TCPConfig \<Rightarrow> bytes \<Rightarrow> bytes" where
  "generate_eth_ipv4_tcp lib eth ipv4 tcp payload =
     generate_ethernet lib eth (generate_ipv4 lib ipv4 (generate_tcp lib tcp (ip_src ipv4) (ip_dst ipv4) payload))"

definition generate_eth_ipv4_udp :: "net_library \<Rightarrow> EthernetConfig \<Rightarrow> IPv4Config \<Rightarrow> UDPConfig \<Rightarrow> bytes \<Rightarrow> bytes" where
  "generate_eth_ipv4_udp lib eth ipv4 udp payload =
     generate_ethernet lib eth (generate_ipv4 lib ipv4 (generate_udp lib udp (ip_src ipv4) (ip_dst ipv4) payload))"

datatype PayloadPattern = Zeros | Ones | Incrementing | PatternRandom

text \<open>\<open>rng seed i\<close> stands for the \<open>i\<close>-th number drawn from the standard library's generator and distribution.\<close>

fun generate_payload :: "(u32 \<Rightarrow> nat \<Rightarrow> u32) \<Rightarrow> nat \<Rightarrow> PayloadPattern \<Rightarrow> u32 \<Rightarrow> bytes" where
  "generate_payload rng n Zeros seed = replicate n 0"
| "generate_payload rng n Ones seed = replicate n 0xFF"
| "generate_payload rng n Incrementing seed = map (\<lambda>i. of_nat (i mod 256)) [0..<n]"
| "generate_payload rng n PatternRandom seed = map (\<lambda>i. ucast (rng seed i)) [0..<n]"

section \<open>Deferred carries\<close>

lemma be16_sum_le: "be16_sum bs \<le> 65535 * ((length bs + 1) div 2)"
proof (induction bs rule: be16_sum.induct)
  case (1 hi lo rest)
  then show ?case using unat_byte_less [of hi] unat_byte_less [of lo] by simp
next
  case (2 b)
  then show ?case using unat_byte_less [of b] by simp
qed simp

lemma unat_add_words: "unat acc + be16_sum bs < 2 ^ 32 \<Longrightarrow> unat (add_words acc bs) = unat acc + be16_sum bs"
proof (induction acc bs rule: add_words.induct)
  case (1 acc hi lo rest)
  then have "unat (acc + ucast (be16 hi lo)) = unat acc + (256 * unat hi + unat lo)"
    by (simp add: unat_word_ariths unat_ucast_up unat_be16)
  with 1 show ?case by simp
next
  case (2 acc b)
  then show ?case by (simp add: unat_word_ariths unat_ucast_up unat_be16)
qed simp

lemma ones_residue_cong: "0 < s \<Longrightarrow> 0 < t \<Longrightarrow> s mod 65535 = t mod 65535 \<Longrightarrow> ones_residue s = ones_residue t"
proof -
  assume "0 < s" "0 < t" "s mod 65535 = t mod 65535"
  then have "(s + 65534) mod 65535 = (t + 65534) mod 65535" by (intro mod_add_cong) simp_all
  moreover have "(s + 65534) mod 65535 = (s - 1) mod 65535" "(t + 65534) mod 65535 = (t - 1) mod 65535"
    using \<open>0 < s\<close> \<open>0 < t\<close> mod_add_self2 [of "s - 1" 65535] mod_add_self2 [of "t - 1" 65535] by (simp_all add: add.commute)
  ultimately show ?thesis using \<open>0 < s\<close> \<open>0 < t\<close> by (simp add: ones_residue_def)
qed

lemma carry_residue: "ones_residue (n mod 65536 + n div 65536) = ones_residue n"
proof (cases "n = 0")
  case False
  have "n = (n mod 65536 + n div 65536) + n div 65536 * 65535" using mod_mult_div_eq [of n 65536] by linarith
  then have "n mod 65535 = ((n mod 65536 + n div 65536) + n div 65536 * 65535) mod 65535" by (rule arg_cong)
  then have "n mod 65535 = (n mod 65536 + n div 65536) mod 65535" by (simp only: mod_mult_self1)
  moreover have "0 < n mod 65536 + n div 65536" using False mod_mult_div_eq [of n 65536] by linarith
  ultimately show ?thesis using False by (intro ones_residue_cong) simp_all
qed simp

lemma unat_fold_sum: "unat (fold_sum s) = ones_residue (unat s)"
proof (induction s rule: fold_sum.induct)
  case (1 s)
  show ?case
  proof (cases "drop_bit 16 s = 0")
    case True
    then have "unat s div 65536 = 0" by (metis unat_drop_bit_16 unsigned_0)
    then have "unat s < 65536" by (simp add: div_eq_0_iff)
    then show ?thesis using True by (simp add: fold_sum.simps [of s] ones_residue_small)
  next
    case False
    then have "unat (fold_sum s) = unat (fold_sum ((s AND 0xFFFF) + drop_bit 16 s))"
      by (simp only: fold_sum.simps [of s] if_True not_False_eq_True)
    also have "\<dots> = ones_residue (unat s mod 65536 + unat s div 65536)"
      using 1 [OF False] by (simp only: fold_sum_nat)
    finally show ?thesis by (simp only: carry_residue)
  qed
qed

abbreviation folded_checksum :: "u32 \<Rightarrow> bytes \<Rightarrow> u16" where
  "folded_checksum base bs \<equiv> ucast (NOT (fold_sum (add_words base bs)))"

lemma unat_folded_checksum:
  assumes "unat base + be16_sum bs < 2 ^ 32"
  shows "unat (folded_checksum base bs) = 65535 - ones_residue (unat base + be16_sum bs)"
proof -
  let ?s = "fold_sum (add_words base bs)"
  have u: "unat ?s = ones_residue (unat base + be16_sum bs)" using assms by (simp add: unat_fold_sum unat_add_words)
  have "folded_checksum base bs = NOT (ucast ?s)" by (rule bit_word_eqI) (simp add: bit_simps)
  also have "\<dots> = 65535 - ucast ?s" by (simp add: not_eq_complement)
  finally have "folded_checksum base bs = of_nat 65535 - of_nat (unat ?s)" by simp
  also have "\<dots> = of_nat (65535 - ones_residue (unat base + be16_sum bs))"
    using ones_residue_le u by (simp add: of_nat_diff)
  finally show ?thesis by (simp add: unat_of_nat)
qed

text \<open>A checksum written over a zero field, possibly all ones for zero as UDP does, makes the sum verify.\<close>

lemma inserted_checksum_verifies:
  assumes "even (length xs)" and "unat base + be16_sum (xs @ [0, 0] @ ys) + 65535 < 2 ^ 32"
    and "c = folded_checksum base (xs @ [0, 0] @ ys) \<or> folded_checksum base (xs @ [0, 0] @ ys) = 0 \<and> c = 0xFFFF"
  shows "folded_checksum base (xs @ [ucast (drop_bit 8 c), ucast c] @ ys) = 0"
proof -
  let ?t = "unat base + be16_sum (xs @ [0, 0] @ ys)" and ?z = "xs @ [ucast (drop_bit 8 c), ucast c] @ ys"
  have z: "unat base + be16_sum ?z = ?t + unat c"
    using assms(1) be16_sum_bytes [of c] be16_sum_append [of "[ucast (drop_bit 8 c), ucast c]" ys] by (simp add: be16_sum_append)
  have f: "unat (folded_checksum base (xs @ [0, 0] @ ys)) = 65535 - ones_residue ?t"
    using assms(2) by (intro unat_folded_checksum) simp
  have m: "0 < ?t + unat c \<and> 65535 dvd ?t + unat c"
  proof (cases "c = folded_checksum base (xs @ [0, 0] @ ys)")
    case True
    then show ?thesis using ones_residue_complement [of ?t] f by simp
  next
    case False
    with assms(3) have "folded_checksum base (xs @ [0, 0] @ ys) = 0" "c = 0xFFFF" by auto
    then have "65535 - ones_residue ?t = 0" "unat c = 65535" using f by simp_all
    then show ?thesis using ones_residue_complement [of ?t] by simp
  qed
  have "?t + unat c < 2 ^ 32" using assms(2) unat_u16_less [of c] by linarith
  then have "unat (folded_checksum base ?z) = 65535 - ones_residue (?t + unat c)" using unat_folded_checksum [of base ?z] unfolding z by blast
  also have "\<dots> = 0" using m ones_residue_multiple by simp
  finally show ?thesis by (simp only: unsigned_eq_0_iff)
qed

lemma put_checksum_at: "length xs = i \<Longrightarrow> put_checksum i c (xs @ [a, b] @ ys) = xs @ [ucast (drop_bit 8 c), ucast c] @ ys"
proof -
  have "c AND 0xFF = take_bit 8 c" by (simp add: take_bit_eq_mask mask_eq_exp_minus_1)
  then have "ucast (c AND 0xFF) = (ucast c :: byte)" by (auto intro!: bit_word_eqI simp: bit_simps)
  then show "length xs = i \<Longrightarrow> ?thesis" by (simp add: put_checksum_def list_update_append)
qed

lemma pseudo_header_sum: "unat (add_words 0 (pseudo_header src dst p n)) \<le> 65535 * 6"
proof -
  have "length (pseudo_header src dst p n) = 12" by (simp add: pseudo_header_def Let_def)
  then have "be16_sum (pseudo_header src dst p n) \<le> 65535 * 6" using be16_sum_le [of "pseudo_header src dst p n"] by simp
  then show ?thesis using unat_add_words [of 0 "pseudo_header src dst p n"] by simp
qed

section \<open>Layout of the packets\<close>

lemma fits_Cons: "fits (w # ws) (v # vs) \<longleftrightarrow> w \<le> 64 \<and> unat v < 2 ^ w \<and> fits ws vs"
  by (auto simp: fits_def)

lemma fits_Nil: "fits [] []"
  by (simp add: fits_def)

lemma fits_append: "length ws = length vs \<Longrightarrow> fits (ws @ ws') (vs @ vs') \<longleftrightarrow> fits ws vs \<and> fits ws' vs'"
  by (auto simp: fits_def)

lemma ucast_field: "LENGTH('a) \<le> 64 \<Longrightarrow> unat (ucast (v :: 'a :: len word) :: u64) < 2 ^ LENGTH('a)"
  by (simp add: unat_ucast_up)

lemmas field_bounds =
  ucast_field [where 'a = 8, simplified] ucast_field [where 'a = 16, simplified] ucast_field [where 'a = 32, simplified]

lemma tos_fields: "unat (ucast (drop_bit 2 (t :: u8) AND 0x3F) :: u64) < 64" "unat (ucast (t AND 0x03) :: u64) < 4"
proof -
  have "drop_bit 2 t AND 0x3F = take_bit 6 (drop_bit 2 t)" "t AND 0x03 = take_bit 2 t"
    by (simp_all add: take_bit_eq_mask mask_eq_exp_minus_1)
  then show "unat (ucast (drop_bit 2 t AND 0x3F) :: u64) < 64" "unat (ucast (t AND 0x03) :: u64) < 4"
    using take_bit_nat_less_exp [of 6 "unat (drop_bit 2 t)"] take_bit_nat_less_exp [of 2 "unat t"]
    by (simp_all add: unat_ucast_up unsigned_take_bit_eq)
qed

context net_formats
begin

text \<open>A header with a 16-bit zero field after its first \<open>ws\<close>.\<close>

lemma ser_hole:
  assumes "8 dvd sum_list ws" "8 dvd sum_list ws'" "fits ws vs" "fits ws' vs'"
  shows "\<exists>xs ys. net_ser lib (ws @ 16 # ws') (vs @ 0 # vs') = xs @ [0, 0] @ ys \<and> length xs = sum_list ws div 8 \<and> length ys = sum_list ws' div 8"
proof -
  have f: "fits [16] [0]" by (simp add: fits_def)
  have "fits (16 # ws') (0 # vs')" using assms(4) by (simp add: fits_Cons)
  then have "net_ser lib (ws @ 16 # ws') (vs @ 0 # vs') = net_ser lib ws vs @ net_ser lib (16 # ws') (0 # vs')"
    using assms by (intro ser_append) (simp_all add: dvd_add)
  also have "net_ser lib (16 # ws') (0 # vs') = net_ser lib [16] [0] @ net_ser lib ws' vs'"
    using ser_append [OF _ assms(2) f assms(4)] by simp
  finally have "net_ser lib (ws @ 16 # ws') (vs @ 0 # vs') = net_ser lib ws vs @ [0, 0] @ net_ser lib ws' vs'"
    using ser_16 [of 0] by simp
  then show ?thesis using length_ser assms by blast
qed

lemma ipv4_header:
  "\<exists>xs ys. net_ser lib (kIpv4Header lib) (ipv4_fields cfg n) = xs @ [0, 0] @ ys \<and> length xs = 10 \<and> length ys = 8"
  using ser_hole [of "[4, 4, 6, 2, 16, 16, 3, 13, 8, 8]" "[32, 32]" "take 10 (ipv4_fields cfg n)" "drop 11 (ipv4_fields cfg n)"]
    tos_fields [of "ip_tos cfg"]
  by (simp add: ipv4 ipv4_fields_def fits_Cons fits_Nil field_bounds)

lemma tcp_header:
  "unat (tcp_flags cfg) < 512 \<Longrightarrow> \<exists>xs ys. net_ser lib (kTcpHeader lib) (tcp_fields cfg) = xs @ [0, 0] @ ys \<and> length xs = 16 \<and> length ys = 2"
  using ser_hole [of "[16, 16, 32, 32, 4, 3, 9, 16]" "[16]" "take 8 (tcp_fields cfg)" "drop 9 (tcp_fields cfg)"]
    unat_ucast_up [of "tcp_flags cfg", where 'b = 64]
  by (simp add: tcp tcp_fields_def fits_Cons fits_Nil field_bounds)

lemma udp_header:
  "\<exists>xs. net_ser lib (kUdpHeader lib) (udp_fields cfg n) = xs @ [0, 0] \<and> length xs = 6"
  using ser_hole [of "[16, 16, 16]" "[]" "take 3 (udp_fields cfg n)" "[]"]
  by (simp add: udp udp_fields_def fits_Cons fits_Nil field_bounds)

lemma ethernet_layout:
  assumes "unat (dst_mac cfg) < 2 ^ 48" "unat (src_mac cfg) < 2 ^ 48"
  shows "drop (if eth_vlan_tag cfg = None then 14 else 18) (generate_ethernet lib cfg payload) = payload"
proof -
  let ?h = "net_ser lib (kEthernetHeader lib) [dst_mac cfg, src_mac cfg, if eth_vlan_tag cfg \<noteq> None then 0x8100 else ucast (ethertype cfg)]"
  have h: "length ?h = 14"
    using assms length_ser [of "[48, 48, 16]"] by (simp add: ethernet fits_Cons fits_Nil field_bounds)
  have v: "length (net_ser lib (kVlanTag lib) [0, 0, ucast (vid AND 0x0FFF)]) = 2" for vid :: u16
  proof -
    have "vid AND 0x0FFF = take_bit 12 vid" by (simp add: take_bit_eq_mask mask_eq_exp_minus_1)
    then have "unat (ucast (vid AND 0x0FFF) :: u64) < 4096"
      using take_bit_nat_less_exp [of 12 "unat vid"] by (simp add: unat_ucast_up unsigned_take_bit_eq)
    then show ?thesis using length_ser [of "[3, 1, 12]"] by (simp add: vlan fits_Cons fits_Nil)
  qed
  show ?thesis
    using h v ser_16 field_bounds(2)
    by (cases "eth_vlan_tag cfg") (simp_all add: generate_ethernet_def Let_def memcpy_at_def)
qed

lemma ipv4_layout:
  "internet_checksum (take 20 (generate_ipv4 lib cfg payload)) = 0 \<and> drop 20 (generate_ipv4 lib cfg payload) = payload"
proof -
  let ?h = "net_ser lib (kIpv4Header lib) (ipv4_fields cfg (20 + length payload))"
  obtain xs ys where h: "?h = xs @ [0, 0] @ ys" "length xs = 10" "length ys = 8" using ipv4_header by blast
  let ?c = "folded_checksum 0 (xs @ [0, 0] @ ys)"
  have "generate_ipv4 lib cfg payload = (xs @ [ucast (drop_bit 8 ?c), ucast ?c] @ ys) @ payload"
    using h put_checksum_at [OF h(2), of ?c 0 0 "ys @ replicate (length payload) 0"]
    by (simp add: generate_ipv4_def Let_def memcpy_at_def ipv4_checksum_def internet_checksum_def)
  moreover have "folded_checksum 0 (xs @ [ucast (drop_bit 8 ?c), ucast ?c] @ ys) = 0"
    using h be16_sum_le [of "xs @ [0, 0] @ ys"] by (intro inserted_checksum_verifies) simp_all
  ultimately show ?thesis using h by (simp add: internet_checksum_def)
qed

lemma be16_nonzero: "(c :: u16) \<noteq> 0 \<Longrightarrow> [ucast (drop_bit 8 c), ucast c] \<noteq> [0 :: byte, 0]"
proof
  assume "c \<noteq> 0" and z: "[ucast (drop_bit 8 c), ucast c] = [0 :: byte, 0]"
  have "bit (ucast (drop_bit 8 c) :: byte) n = bit (0 :: byte) n" "bit (ucast c :: byte) n = bit (0 :: byte) n" for n using z by simp_all
  then have low: "\<not> bit c (8 + n)" "\<not> bit c n" if "n < 8" for n using that by (auto simp: bit_simps)
  then have "\<not> bit c n" if "n < 16" for n using low(1) [of "n - 8"] low(2) [of n] that by (cases "n < 8") simp_all
  then have "c = 0" by (intro bit_word_eqI) simp
  with \<open>c \<noteq> 0\<close> show False by contradiction
qed

lemma tcp_layout:
  assumes "unat (tcp_flags cfg) < 512" "length payload \<le> 65515"
  shows "tcp_checksum src dst (generate_tcp lib cfg src dst payload) = 0 \<and> drop 20 (generate_tcp lib cfg src dst payload) = payload"
proof -
  obtain xs ys where h: "net_ser lib (kTcpHeader lib) (tcp_fields cfg) = xs @ [0, 0] @ ys" "length xs = 16" "length ys = 2"
    using tcp_header assms(1) by blast
  let ?b = "add_words 0 (pseudo_header src dst 6 (20 + length payload))"
  let ?c = "folded_checksum ?b (xs @ [0, 0] @ ys @ payload)"
  have g: "generate_tcp lib cfg src dst payload = xs @ [ucast (drop_bit 8 ?c), ucast ?c] @ ys @ payload"
    using h put_checksum_at [OF h(2), of ?c 0 0 "ys @ payload"]
    by (simp add: generate_tcp_def Let_def memcpy_at_def tcp_checksum_def)
  have "folded_checksum ?b (xs @ [ucast (drop_bit 8 ?c), ucast ?c] @ ys @ payload) = 0"
    using h assms(2) be16_sum_le [of "xs @ [0, 0] @ ys @ payload"] pseudo_header_sum [of src dst 6 "20 + length payload"]
    by (intro inserted_checksum_verifies) simp_all
  then show ?thesis using h g by (simp add: tcp_checksum_def)
qed

lemma udp_layout:
  assumes "length payload \<le> 65527"
  shows "udp_checksum src dst (generate_udp lib cfg src dst payload) = 0xFFFF \<and> drop 8 (generate_udp lib cfg src dst payload) = payload
    \<and> subspan 6 2 (generate_udp lib cfg src dst payload) \<noteq> [0, 0]"
proof -
  obtain xs where h: "net_ser lib (kUdpHeader lib) (udp_fields cfg (8 + length payload)) = xs @ [0, 0]" "length xs = 6"
    using udp_header by blast
  let ?b = "add_words 0 (pseudo_header src dst 17 (8 + length payload))"
  let ?f = "folded_checksum ?b (xs @ [0, 0] @ payload)"
  define c where "c = udp_checksum src dst (xs @ [0, 0] @ payload)"
  have "c \<noteq> 0" by (simp add: c_def udp_checksum_def Let_def)
  have c: "c = ?f \<or> ?f = 0 \<and> c = 0xFFFF" using h by (auto simp: c_def udp_checksum_def Let_def)
  have g: "generate_udp lib cfg src dst payload = xs @ [ucast (drop_bit 8 c), ucast c] @ payload"
    using h put_checksum_at [OF h(2), of c 0 0 payload] by (simp add: generate_udp_def Let_def memcpy_at_def c_def)
  have "folded_checksum ?b (xs @ [ucast (drop_bit 8 c), ucast c] @ payload) = 0"
    using h c assms be16_sum_le [of "xs @ [0, 0] @ payload"] pseudo_header_sum [of src dst 17 "8 + length payload"]
    by (intro inserted_checksum_verifies) simp_all
  then show ?thesis using h g be16_nonzero [OF \<open>c \<noteq> 0\<close>] by (simp add: udp_checksum_def Let_def subspan_def)
qed

end

text \<open>Most significant bits first, cut into bytes, meets the laws.\<close>

definition msb_library :: net_library where
  "msb_library = \<lparr>net_ser = msb_ser, kEthernetHeader = [48, 48, 16], kVlanTag = [3, 1, 12],
     kIpv4Header = [4, 4, 6, 2, 16, 16, 3, 13, 8, 8, 16, 32, 32], kTcpHeader = [16, 16, 32, 32, 4, 3, 9, 16, 16, 16],
     kUdpHeader = [16, 16, 16, 16]\<rparr>"

lemma pack_bytes_append:
  "length bs = 8 * n \<Longrightarrow> pack_bytes (n + m) (bs @ cs) = pack_bytes n bs @ pack_bytes m cs"
  by (induction n bs rule: pack_bytes.induct) auto

lemma msb_ser_append:
  assumes "8 dvd sum_list ws" "8 dvd sum_list ws'" "fits ws vs"
  shows "msb_ser (ws @ ws') (vs @ vs') = msb_ser ws vs @ msb_ser ws' vs'"
proof -
  have l: "length (concat (map2 field_bits ws vs)) = 8 * (sum_list ws div 8)"
    using assms(1, 3) by (simp add: length_fields fits_def)
  have z: "zip (ws @ ws') (vs @ vs') = zip ws vs @ zip ws' vs'" using assms(3) by (simp add: fits_def)
  show ?thesis
    using pack_bytes_append [OF l] assms(1, 2) by (simp add: msb_ser_def z div_plus_div_distrib_dvd_left)
qed

lemma msb_ser_16: "unat v < 2 ^ 16 \<Longrightarrow> msb_ser [16] [v] = [ucast (drop_bit 8 v), ucast v]"
proof -
  have "field_bits 16 v = field_bits 8 (drop_bit 8 v) @ field_bits 8 v"
    by (simp add: field_bits_def upt_rec bit_drop_bit_eq eval_nat_numeral)
  then show ?thesis
    by (auto simp: msb_ser_def numeral_2_eq_2 bits_value_field intro!: bit_word_eqI simp: bit_simps)
qed

interpretation msb_net: net_formats msb_library
proof (unfold_locales, goal_cases)
  case (1 ws vs)
  then show ?case using msb.ser_length by (simp add: msb_library_def)
qed (simp_all add: msb_library_def msb_ser_append msb_ser_16)

section \<open>Properties\<close>

text \<open>C35: the receiver's view of a generated frame: after the Ethernet header, with or without a VLAN tag, there is an IPv4 packet whose header
  checksum verifies, in it a TCP segment or a UDP datagram whose checksum verifies over the pseudo header (for UDP the recomputed checksum 0 is given as all ones), and in that the payload
  unchanged. The checksum field stored at bytes 6 and 7 of the UDP datagram is never the 0 that means unchecked. The payload fits the 16-bit length fields; MAC addresses and flags fit their fields.\<close>

theorem generated_frames_verify:
  assumes "net_formats lib" and "unat (dst_mac eth) < 2 ^ 48" and "unat (src_mac eth) < 2 ^ 48"
    and "unat (tcp_flags tcp) < 2 ^ 9" and "length payload \<le> 65495"
  shows "(let packet = drop (if eth_vlan_tag eth = None then 14 else 18) (generate_eth_ipv4_tcp lib eth ip tcp payload); segment = drop 20 packet
      in ipv4_checksum (take 20 packet) = 0 \<and> tcp_checksum (ip_src ip) (ip_dst ip) segment = 0 \<and> drop 20 segment = payload) \<and>
    (let packet = drop (if eth_vlan_tag eth = None then 14 else 18) (generate_eth_ipv4_udp lib eth ip udp payload); datagram = drop 20 packet
      in ipv4_checksum (take 20 packet) = 0 \<and> udp_checksum (ip_src ip) (ip_dst ip) datagram = 0xFFFF \<and> drop 8 datagram = payload \<and>
        subspan 6 2 datagram \<noteq> [0, 0])"
  using net_formats.ethernet_layout [OF assms(1-3)] net_formats.ipv4_layout [OF assms(1)] net_formats.tcp_layout [OF assms(1)]
    net_formats.udp_layout [OF assms(1)] assms(4, 5)
  by (simp add: generate_eth_ipv4_tcp_def generate_eth_ipv4_udp_def ipv4_checksum_def Let_def del: drop_drop)

abbreviation sample_eth :: EthernetConfig where
  "sample_eth \<equiv> \<lparr>dst_mac = 0x020000000002, src_mac = 0x020000000001, ethertype = 0x0800, eth_vlan_tag = Some 100\<rparr>"

abbreviation sample_ip :: IPv4Config where
  "sample_ip \<equiv> \<lparr>ip_src = 0xC0A80001, ip_dst = 0xC0A80002, ip_protocol = 6, ip_ttl = 64, ip_tos = 0, identification = 0, dont_fragment = True\<rparr>"

abbreviation sample_tcp :: TCPConfig where
  "sample_tcp \<equiv> \<lparr>tcp_src_port = 1024, tcp_dst_port = 80, seq_num = 0, ack_num = 0, tcp_flags = 0x18, tcp_window = 65535, urgent_ptr = 0\<rparr>"

theorem generated_frames_verify_witness:
  "drop 40 (drop 18 (generate_eth_ipv4_tcp msb_library sample_eth sample_ip sample_tcp [1, 2, 3])) = [1, 2, 3]"
  using generated_frames_verify [OF msb_net.net_formats_axioms, of sample_eth sample_tcp "[1, 2, 3]" sample_ip]
  by (simp add: Let_def)

text \<open>The generator's routine and \<^verbatim>\<open>compute_checksum\<close> compute the same checksum as long as the 32-bit accumulator cannot overflow.\<close>

theorem internet_checksum_eq: "length data \<le> 2 ^ 16 \<Longrightarrow> internet_checksum data = compute_checksum data"
proof -
  assume "length data \<le> 2 ^ 16"
  then have "be16_sum data < 2 ^ 32" using be16_sum_le [of data] by simp
  then have "unat (internet_checksum data) = unat (compute_checksum data)"
    using unat_folded_checksum [of 0 data] by (simp add: internet_checksum_def unat_compute_checksum)
  then show ?thesis by (simp only: unsigned_word_eqI word_unat_eq_iff)
qed

end
