(* ===== verification/Host_Memory.thy ===== *)
theory Host_Memory
  imports Nic_Interfaces
begin

text \<open>
  Host memory (\<^verbatim>\<open>include/nic/host_memory.h\<close>, \<^verbatim>\<open>simple_host_memory.h/.cpp\<close>): the configuration, the
  error codes, address translation with the optional IOMMU translator and fault injector, reads and
  writes. The two \<^verbatim>\<open>std::function\<close> members are pure functions here. The theory shows the bounds of
  every access, what each error code means, and that the model meets the \<open>memory_port\<close> contract.
\<close>

section \<open>Data\<close>

record HostMemoryConfig =
  size_bytes :: nat
  page_size :: nat
  iommu_enabled :: bool

datatype HostMemoryError = HmNone | HmOutOfBounds | HmIommuFault | HmFaultInjected

record HostMemoryResult =
  hm_error :: HostMemoryError
  hm_bytes_processed :: nat

definition HostMemoryResult_ok :: "HostMemoryResult \<Rightarrow> bool" where
  "HostMemoryResult_ok r \<longleftrightarrow> hm_error r = HmNone"

text \<open>A view holds the offset into the buffer that the source's \<^verbatim>\<open>data\<close> pointer designates.\<close>

record HostMemoryView =
  view_offset :: nat
  view_length :: nat
  view_address :: u64

record SimpleHostMemory =
  mem_config :: HostMemoryConfig
  translator :: "(u64 \<Rightarrow> nat \<Rightarrow> u64 option) option"
  fault_injector :: "(u64 \<Rightarrow> nat \<Rightarrow> bool) option"
  mem_buffer :: bytes

section \<open>Operations\<close>

definition SimpleHostMemory_new ::
  "HostMemoryConfig \<Rightarrow> (u64 \<Rightarrow> nat \<Rightarrow> u64 option) option \<Rightarrow> (u64 \<Rightarrow> nat \<Rightarrow> bool) option \<Rightarrow> SimpleHostMemory"
where
  "SimpleHostMemory_new cfg tr fi =
     \<lparr>mem_config = (if page_size cfg = 0 then cfg\<lparr>page_size := 4096\<rparr> else cfg),
      translator = tr, fault_injector = fi,
      mem_buffer = replicate (size_bytes cfg) 0\<rparr>"

definition SimpleHostMemory_translate_view ::
  "SimpleHostMemory \<Rightarrow> u64 \<Rightarrow> nat \<Rightarrow> HostMemoryResult \<times> HostMemoryView option" where
  "SimpleHostMemory_translate_view m address n =
     (let fail = (\<lambda>e. (\<lparr>hm_error = e, hm_bytes_processed = 0\<rparr>, None)) in
      if (case fault_injector m of None \<Rightarrow> False | Some f \<Rightarrow> f address n) then fail HmFaultInjected
      else
        case (case translator m of None \<Rightarrow> Some address | Some t \<Rightarrow> t address n) of
          None \<Rightarrow> fail HmIommuFault
        | Some mapped \<Rightarrow>
            (let offset = unat mapped in
             if offset > length (mem_buffer m) then fail HmOutOfBounds
             else if n > length (mem_buffer m) - offset then fail HmOutOfBounds
             else (\<lparr>hm_error = HmNone, hm_bytes_processed = n\<rparr>,
                   Some \<lparr>view_offset = offset, view_length = n, view_address = mapped\<rparr>)))"

text \<open>The buffer given to \<^verbatim>\<open>read\<close> is returned with its new content.\<close>

definition SimpleHostMemory_read ::
  "SimpleHostMemory \<Rightarrow> u64 \<Rightarrow> bytes \<Rightarrow> HostMemoryResult \<times> bytes" where
  "SimpleHostMemory_read m address buf =
     (case SimpleHostMemory_translate_view m address (length buf) of
        (r, None) \<Rightarrow> (r, buf)
      | (r, Some v) \<Rightarrow>
          (r, if view_length v > 0 then subspan (view_offset v) (view_length v) (mem_buffer m) else buf))"

definition SimpleHostMemory_write ::
  "SimpleHostMemory \<Rightarrow> u64 \<Rightarrow> bytes \<Rightarrow> HostMemoryResult \<times> SimpleHostMemory" where
  "SimpleHostMemory_write m address data =
     (case SimpleHostMemory_translate_view m address (length data) of
        (r, None) \<Rightarrow> (r, m)
      | (r, Some v) \<Rightarrow>
          (r, if view_length v > 0
              then m\<lparr>mem_buffer := memcpy_at (view_offset v) data (mem_buffer m)\<rparr> else m))"

section \<open>The meaning of an access\<close>

text \<open>The physical offset of an access that succeeds.\<close>

definition hm_access :: "SimpleHostMemory \<Rightarrow> u64 \<Rightarrow> nat \<Rightarrow> nat option" where
  "hm_access m address n =
     (case SimpleHostMemory_translate_view m address n of
        (r, None) \<Rightarrow> None | (r, Some v) \<Rightarrow> Some (view_offset v))"

lemma translate_view_shape:
  "(\<exists>off. off + n \<le> length (mem_buffer m) \<and>
      SimpleHostMemory_translate_view m a n =
        (\<lparr>hm_error = HmNone, hm_bytes_processed = n\<rparr>,
         Some \<lparr>view_offset = off, view_length = n, view_address = of_nat off\<rparr>)) \<or>
   (\<exists>e. e \<noteq> HmNone \<and>
      SimpleHostMemory_translate_view m a n = (\<lparr>hm_error = e, hm_bytes_processed = 0\<rparr>, None))"
  unfolding SimpleHostMemory_translate_view_def Let_def
  by (split if_split option.split)+ (auto simp: not_less)

lemma translate_view_cases:
  obtains (ok) off where "hm_access m a n = Some off" "off + n \<le> length (mem_buffer m)"
      "SimpleHostMemory_translate_view m a n =
        (\<lparr>hm_error = HmNone, hm_bytes_processed = n\<rparr>,
         Some \<lparr>view_offset = off, view_length = n, view_address = of_nat off\<rparr>)"
  | (fault) e where "hm_access m a n = None" "e \<noteq> HmNone"
      "SimpleHostMemory_translate_view m a n = (\<lparr>hm_error = e, hm_bytes_processed = 0\<rparr>, None)"
  using translate_view_shape [of n m a] by (auto simp: hm_access_def)

lemma hm_access_bound: "hm_access m a n = Some off \<Longrightarrow> off + n \<le> length (mem_buffer m)"
  by (rule translate_view_cases [of m a n]) auto

lemma SimpleHostMemory_read_eq:
  "SimpleHostMemory_read m a buf =
     (fst (SimpleHostMemory_translate_view m a (length buf)),
      case hm_access m a (length buf) of None \<Rightarrow> buf
      | Some off \<Rightarrow> subspan off (length buf) (mem_buffer m))"
  by (rule translate_view_cases [of m a "length buf"])
    (auto simp: SimpleHostMemory_read_def subspan_def)

lemma SimpleHostMemory_write_eq:
  "SimpleHostMemory_write m a d =
     (fst (SimpleHostMemory_translate_view m a (length d)),
      case hm_access m a (length d) of None \<Rightarrow> m
      | Some off \<Rightarrow> m\<lparr>mem_buffer := memcpy_at off d (mem_buffer m)\<rparr>)"
  by (rule translate_view_cases [of m a "length d"])
    (auto simp: SimpleHostMemory_write_def memcpy_at_def)

lemma translate_view_ok_iff:
  "HostMemoryResult_ok (fst (SimpleHostMemory_translate_view m a n)) = (hm_access m a n \<noteq> None)"
  by (rule translate_view_cases [of m a n]) (auto simp: HostMemoryResult_ok_def)

lemma length_SimpleHostMemory_read [simp]:
  "length (snd (SimpleHostMemory_read m a buf)) = length buf"
  by (auto simp: SimpleHostMemory_read_eq dest: hm_access_bound split: option.splits)

lemma length_mem_buffer_write [simp]:
  "length (mem_buffer (snd (SimpleHostMemory_write m a d))) = length (mem_buffer m)"
  by (auto simp: SimpleHostMemory_write_eq dest: hm_access_bound split: option.splits)

text \<open>A translation depends on the address, the length and the buffer's size, not on its content.\<close>

lemma translate_view_write [simp]:
  "SimpleHostMemory_translate_view (snd (SimpleHostMemory_write m a d)) b n
     = SimpleHostMemory_translate_view m b n"
proof -
  have "length (memcpy_at off d (mem_buffer m)) = length (mem_buffer m)"
    if "hm_access m a (length d) = Some off" for off
    using hm_access_bound [OF that] by simp
  then show ?thesis
    by (auto simp: SimpleHostMemory_write_eq SimpleHostMemory_translate_view_def Let_def split: option.splits)
qed

lemma hm_access_write [simp]: "hm_access (snd (SimpleHostMemory_write m a d)) b n = hm_access m b n"
  by (simp add: hm_access_def)

section \<open>The memory contract\<close>

definition mem_rd :: "SimpleHostMemory \<Rightarrow> u64 \<Rightarrow> nat \<Rightarrow> bytes option" where
  "mem_rd m a n = (let (r, d) = SimpleHostMemory_read m a (replicate n 0)
     in if HostMemoryResult_ok r then Some d else None)"

definition mem_wr :: "SimpleHostMemory \<Rightarrow> u64 \<Rightarrow> bytes \<Rightarrow> SimpleHostMemory option" where
  "mem_wr m a d = (let (r, m') = SimpleHostMemory_write m a d
     in if HostMemoryResult_ok r then Some m' else None)"

definition mem_span :: "SimpleHostMemory \<Rightarrow> u64 \<Rightarrow> nat \<Rightarrow> nat set option" where
  "mem_span m a n = map_option (\<lambda>off. {off ..< off + n}) (hm_access m a n)"

lemma mem_rd_eq: "mem_rd m a n = map_option (\<lambda>off. subspan off n (mem_buffer m)) (hm_access m a n)"
  by (auto simp: mem_rd_def SimpleHostMemory_read_eq translate_view_ok_iff split: option.splits)

lemma mem_wr_eq: "mem_wr m a d =
  map_option (\<lambda>off. m\<lparr>mem_buffer := memcpy_at off d (mem_buffer m)\<rparr>) (hm_access m a (length d))"
  by (auto simp: mem_wr_def SimpleHostMemory_write_eq translate_view_ok_iff split: option.splits)

text \<open>The two outcomes of a read and of a write.\<close>

lemma shm_read_cases:
  obtains (ok) d where "mem_rd m a (length buf) = Some d"
      "SimpleHostMemory_read m a buf = (\<lparr>hm_error = HmNone, hm_bytes_processed = length buf\<rparr>, d)"
  | (fault) x where "mem_rd m a (length buf) = None" "x \<noteq> HmNone"
      "SimpleHostMemory_read m a buf = (\<lparr>hm_error = x, hm_bytes_processed = 0\<rparr>, buf)"
  by (rule translate_view_cases [of m a "length buf"]) (auto simp: mem_rd_eq SimpleHostMemory_read_eq)

lemma shm_write_cases:
  obtains (ok) m' where "mem_wr m a d = Some m'"
      "SimpleHostMemory_write m a d = (\<lparr>hm_error = HmNone, hm_bytes_processed = length d\<rparr>, m')"
  | (fault) x where "mem_wr m a d = None" "x \<noteq> HmNone"
      "SimpleHostMemory_write m a d = (\<lparr>hm_error = x, hm_bytes_processed = 0\<rparr>, m)"
  by (rule translate_view_cases [of m a "length d"]) (auto simp: mem_wr_eq SimpleHostMemory_write_eq)

lemma HostMemoryResult_ok_simp [simp]:
  "HostMemoryResult_ok \<lparr>hm_error = x, hm_bytes_processed = n\<rparr> = (x = HmNone)"
  by (simp add: HostMemoryResult_ok_def)

lemma mem_wr_snd: "mem_wr m a d = Some m' \<Longrightarrow> m' = snd (SimpleHostMemory_write m a d)"
  by (auto simp: mem_wr_def Let_def split: prod.splits if_splits)

interpretation shm: memory_port mem_rd mem_wr mem_span
proof unfold_locales
  fix m m' :: SimpleHostMemory and a b :: u64 and d :: bytes and n :: nat and s t :: "nat set"
  show "(mem_rd m a n = None) = (mem_span m a n = None)"
    by (simp add: mem_rd_eq mem_span_def)
  show "(mem_wr m a d = None) = (mem_span m a (length d) = None)"
    by (simp add: mem_wr_eq mem_span_def)
  show "mem_rd m a n = Some d \<Longrightarrow> length d = n"
    by (auto simp: mem_rd_eq dest: hm_access_bound)
  show "mem_span m' = mem_span m" if "mem_wr m a d = Some m'"
    using mem_wr_snd [OF that] by (simp add: fun_eq_iff mem_span_def)
  show "mem_rd m' a (length d) = Some d" if w: "mem_wr m a d = Some m'"
  proof -
    from w obtain off where off: "hm_access m a (length d) = Some off"
      and m': "m' = m\<lparr>mem_buffer := memcpy_at off d (mem_buffer m)\<rparr>"
      by (auto simp: mem_wr_eq)
    have "hm_access m' a (length d) = Some off"
      using mem_wr_snd [OF w] off by simp
    then show ?thesis
      using m' hm_access_bound [OF off] by (simp add: mem_rd_eq)
  qed
  show "mem_rd m' b n = mem_rd m b n"
    if w: "mem_wr m a d = Some m'" and s: "mem_span m a (length d) = Some s"
      and t: "mem_span m b n = Some t" and disj: "s \<inter> t = {}"
  proof -
    from s obtain o1 where o1: "hm_access m a (length d) = Some o1" "s = {o1 ..< o1 + length d}"
      by (auto simp: mem_span_def)
    from t obtain o2 where o2: "hm_access m b n = Some o2" "t = {o2 ..< o2 + n}"
      by (auto simp: mem_span_def)
    have m': "m' = m\<lparr>mem_buffer := memcpy_at o1 d (mem_buffer m)\<rparr>"
      using w o1(1) by (simp add: mem_wr_eq)
    have acc: "hm_access m' b n = Some o2"
      using mem_wr_snd [OF w] o2(1) by simp
    have "subspan o2 n (memcpy_at o1 d (mem_buffer m)) = subspan o2 n (mem_buffer m)"
    proof (cases "n = 0 \<or> d = []")
      case True
      then show ?thesis by auto
    next
      case False
      then have "o1 + length d \<le> o2 \<or> o2 + n \<le> o1"
        using disj o1(2) o2(2) by (fastforce simp: ivl_disj_int disjoint_iff)
      then show ?thesis
        using hm_access_bound [OF o1(1)] hm_access_bound [OF o2(1)] by (intro subspan_memcpy_at_disjoint)
    qed
    then show ?thesis using m' acc o2 by (simp add: mem_rd_eq)
  qed
qed

end
