(* ===== verification/Dma_Engine.thy ===== *)
theory Dma_Engine
  imports Host_Memory
begin

text \<open>
  The DMA engine (\<^verbatim>\<open>include/nic/dma_types.h\<close>, \<^verbatim>\<open>sgl.h\<close>, \<^verbatim>\<open>dma_engine.h\<close> and their sources): plain,
  strided burst and scatter-gather transfers between a device buffer and host memory, with counters.
  The engine owns the memory it transfers to, and every operation returns the engine's new state.
\<close>

section \<open>Data\<close>

datatype DmaError = DmaNone | DmaTranslationFault | DmaOutOfBounds | DmaFaultInjected
  | DmaAccessError | DmaAlignmentError | DmaInternalError

record DmaResult =
  dma_error :: DmaError
  dma_bytes_processed :: nat
  dma_message :: "string option"

definition DmaResult_ok :: "DmaResult \<Rightarrow> bool" where
  "DmaResult_ok r \<longleftrightarrow> dma_error r = DmaNone"

datatype DmaDirection = DmaRead | DmaWrite

fun ToDmaError :: "HostMemoryError \<Rightarrow> DmaError" where
  "ToDmaError HmNone = DmaNone"
| "ToDmaError HmOutOfBounds = DmaOutOfBounds"
| "ToDmaError HmIommuFault = DmaTranslationFault"
| "ToDmaError HmFaultInjected = DmaFaultInjected"

record SglEntry =
  sge_address :: u64
  sge_length :: nat

text \<open>The total is a \<^verbatim>\<open>size_t\<close> sum and wraps.\<close>

definition SglView_total_length :: "SglEntry list \<Rightarrow> u64" where
  "SglView_total_length sgl = foldl (\<lambda>tot e. tot + of_nat (sge_length e)) 0 sgl"

record DmaCounters =
  read_ops :: u64
  write_ops :: u64
  burst_read_ops :: u64
  burst_write_ops :: u64
  bytes_read :: u64
  bytes_written :: u64
  dma_errors :: u64

definition DmaCounters_zero :: DmaCounters where
  "DmaCounters_zero = \<lparr>read_ops = 0, write_ops = 0, burst_read_ops = 0, burst_write_ops = 0,
     bytes_read = 0, bytes_written = 0, dma_errors = 0\<rparr>"

record DMAEngine =
  dma_memory :: SimpleHostMemory
  dma_counters :: DmaCounters

abbreviation dma_ok_result :: "nat \<Rightarrow> DmaResult" where
  "dma_ok_result n \<equiv> \<lparr>dma_error = DmaNone, dma_bytes_processed = n, dma_message = None\<rparr>"

abbreviation dma_fail_result :: "DmaError \<Rightarrow> string \<Rightarrow> DmaResult" where
  "dma_fail_result e msg \<equiv> \<lparr>dma_error = e, dma_bytes_processed = 0, dma_message = Some msg\<rparr>"

section \<open>Operations\<close>

definition DMAEngine_new :: "SimpleHostMemory \<Rightarrow> DMAEngine" where
  "DMAEngine_new m = \<lparr>dma_memory = m, dma_counters = DmaCounters_zero\<rparr>"

definition DMAEngine_reset_counters :: "DMAEngine \<Rightarrow> DMAEngine" where
  "DMAEngine_reset_counters e = e\<lparr>dma_counters := DmaCounters_zero\<rparr>"

definition count_error :: "DMAEngine \<Rightarrow> DMAEngine" where
  "count_error e = e\<lparr>dma_counters := (dma_counters e)\<lparr>dma_errors := dma_errors (dma_counters e) + 1\<rparr>\<rparr>"

definition DMAEngine_map_result ::
  "DMAEngine \<Rightarrow> HostMemoryResult \<Rightarrow> DmaDirection \<Rightarrow> nat \<Rightarrow> string \<Rightarrow> DmaResult \<times> DMAEngine" where
  "DMAEngine_map_result e r dir requested context_msg =
     (if HostMemoryResult_ok r then (dma_ok_result requested, e)
      else (\<lparr>dma_error = ToDmaError (hm_error r), dma_bytes_processed = hm_bytes_processed r,
             dma_message = Some context_msg\<rparr>, count_error e))"

definition DMAEngine_read :: "DMAEngine \<Rightarrow> u64 \<Rightarrow> bytes \<Rightarrow> DmaResult \<times> bytes \<times> DMAEngine" where
  "DMAEngine_read e address buf =
     (let (hr, buf') = SimpleHostMemory_read (dma_memory e) address buf;
          (r, e1) = DMAEngine_map_result e hr DmaRead (length buf) ''dma_read'';
          c = dma_counters e1
      in (r, buf', if DmaResult_ok r
          then e1\<lparr>dma_counters := c\<lparr>read_ops := read_ops c + 1,
                 bytes_read := bytes_read c + of_nat (dma_bytes_processed r)\<rparr>\<rparr>
          else e1))"

definition DMAEngine_write :: "DMAEngine \<Rightarrow> u64 \<Rightarrow> bytes \<Rightarrow> DmaResult \<times> DMAEngine" where
  "DMAEngine_write e address data =
     (let (hr, m') = SimpleHostMemory_write (dma_memory e) address data;
          (r, e1) = DMAEngine_map_result (e\<lparr>dma_memory := m'\<rparr>) hr DmaWrite (length data) ''dma_write'';
          c = dma_counters e1
      in (r, if DmaResult_ok r
          then e1\<lparr>dma_counters := c\<lparr>write_ops := write_ops c + 1,
                 bytes_written := bytes_written c + of_nat (dma_bytes_processed r)\<rparr>\<rparr>
          else e1))"

text \<open>The beats of a burst: \<open>i\<close> is \<^verbatim>\<open>beat_index\<close>, \<open>n\<close> the number of beats left.\<close>

fun read_beats :: "DMAEngine \<Rightarrow> u64 \<Rightarrow> nat \<Rightarrow> u64 \<Rightarrow> nat \<Rightarrow> nat \<Rightarrow> nat \<Rightarrow> bytes
    \<Rightarrow> DmaResult \<times> bytes \<times> DMAEngine" where
  "read_beats e address beat stride i 0 tot buf = (dma_ok_result tot, buf, e)"
| "read_beats e address beat stride i (Suc n) tot buf =
     (let (hr, piece) = SimpleHostMemory_read (dma_memory e) (address + of_nat i * stride)
              (subspan (i * beat) beat buf);
          (r, e1) = DMAEngine_map_result e hr DmaRead beat ''dma_read_burst'';
          buf' = memcpy_at (i * beat) piece buf
      in if \<not> DmaResult_ok r then (r, buf', e1)
         else read_beats e1 address beat stride (Suc i) n (tot + dma_bytes_processed r) buf')"

definition DMAEngine_read_burst ::
  "DMAEngine \<Rightarrow> u64 \<Rightarrow> bytes \<Rightarrow> nat \<Rightarrow> u64 \<Rightarrow> DmaResult \<times> bytes \<times> DMAEngine" where
  "DMAEngine_read_burst e address buf beat_bytes stride_bytes =
     (if beat_bytes = 0 \<or> stride_bytes = 0
      then (dma_fail_result DmaAlignmentError ''invalid_stride'', buf, count_error e)
      else if length buf mod beat_bytes \<noteq> 0
      then (dma_fail_result DmaAlignmentError ''partial_beat'', buf, count_error e)
      else
        let c = dma_counters e;
            e1 = e\<lparr>dma_counters := c\<lparr>burst_read_ops := burst_read_ops c + 1\<rparr>\<rparr>;
            (r, buf', e2) = read_beats e1 address beat_bytes stride_bytes 0 (length buf div beat_bytes) 0 buf;
            c2 = dma_counters e2
        in (r, buf', if DmaResult_ok r
            then e2\<lparr>dma_counters := c2\<lparr>bytes_read := bytes_read c2 + of_nat (dma_bytes_processed r)\<rparr>\<rparr>
            else e2))"

fun write_beats :: "DMAEngine \<Rightarrow> u64 \<Rightarrow> nat \<Rightarrow> u64 \<Rightarrow> nat \<Rightarrow> nat \<Rightarrow> nat \<Rightarrow> bytes
    \<Rightarrow> DmaResult \<times> DMAEngine" where
  "write_beats e address beat stride i 0 tot data = (dma_ok_result tot, e)"
| "write_beats e address beat stride i (Suc n) tot data =
     (let (hr, m') = SimpleHostMemory_write (dma_memory e) (address + of_nat i * stride)
              (subspan (i * beat) beat data);
          (r, e1) = DMAEngine_map_result (e\<lparr>dma_memory := m'\<rparr>) hr DmaWrite beat ''dma_write_burst''
      in if \<not> DmaResult_ok r then (r, e1)
         else write_beats e1 address beat stride (Suc i) n (tot + dma_bytes_processed r) data)"

definition DMAEngine_write_burst ::
  "DMAEngine \<Rightarrow> u64 \<Rightarrow> bytes \<Rightarrow> nat \<Rightarrow> u64 \<Rightarrow> DmaResult \<times> DMAEngine" where
  "DMAEngine_write_burst e address data beat_bytes stride_bytes =
     (if beat_bytes = 0 \<or> stride_bytes = 0
      then (dma_fail_result DmaAlignmentError ''invalid_stride'', count_error e)
      else if length data mod beat_bytes \<noteq> 0
      then (dma_fail_result DmaAlignmentError ''partial_beat'', count_error e)
      else
        let c = dma_counters e;
            e1 = e\<lparr>dma_counters := c\<lparr>burst_write_ops := burst_write_ops c + 1\<rparr>\<rparr>;
            (r, e2) = write_beats e1 address beat_bytes stride_bytes 0 (length data div beat_bytes) 0 data;
            c2 = dma_counters e2
        in (r, if DmaResult_ok r
            then e2\<lparr>dma_counters := c2\<lparr>bytes_written := bytes_written c2 + of_nat (dma_bytes_processed r)\<rparr>\<rparr>
            else e2))"

fun sgl_entries :: "DMAEngine \<Rightarrow> SglEntry list \<Rightarrow> DmaDirection \<Rightarrow> nat \<Rightarrow> bytes
    \<Rightarrow> DmaResult \<times> bytes \<times> DMAEngine" where
  "sgl_entries e [] dir processed buf = (dma_ok_result processed, buf, e)"
| "sgl_entries e (entry # rest) dir processed buf =
     (if sge_length entry = 0 then sgl_entries e rest dir processed buf
      else
        let beat = subspan processed (sge_length entry) buf;
            (hr, piece, m', context_msg) =
              (case dir of
                 DmaRead \<Rightarrow>
                   (let (hr, p) = SimpleHostMemory_read (dma_memory e) (sge_address entry) beat
                    in (hr, p, dma_memory e, ''dma_sgl_read''))
               | DmaWrite \<Rightarrow>
                   (let (hr, m') = SimpleHostMemory_write (dma_memory e) (sge_address entry) beat
                    in (hr, beat, m', ''dma_sgl_write'')));
            (r, e1) = DMAEngine_map_result (e\<lparr>dma_memory := m'\<rparr>) hr dir (sge_length entry) context_msg;
            buf' = memcpy_at processed piece buf
        in if \<not> DmaResult_ok r then (r, buf', e1)
           else sgl_entries e1 rest dir (processed + dma_bytes_processed r) buf')"

definition DMAEngine_transfer_sgl ::
  "DMAEngine \<Rightarrow> SglEntry list \<Rightarrow> DmaDirection \<Rightarrow> bytes \<Rightarrow> DmaResult \<times> bytes \<times> DMAEngine" where
  "DMAEngine_transfer_sgl e sgl dir buf =
     (if sgl = [] then (dma_fail_result DmaAccessError ''empty_sgl'', buf, count_error e)
      else if length buf < unat (SglView_total_length sgl)
      then (dma_fail_result DmaAccessError ''buffer_too_small'', buf, count_error e)
      else
        let (r, buf', e1) = sgl_entries e sgl dir 0 buf; c = dma_counters e1; n = dma_bytes_processed r
        in (r, buf', if \<not> DmaResult_ok r then e1
            else case dir of
              DmaRead \<Rightarrow> e1\<lparr>dma_counters := c\<lparr>read_ops := read_ops c + 1, bytes_read := bytes_read c + of_nat n\<rparr>\<rparr>
            | DmaWrite \<Rightarrow> e1\<lparr>dma_counters := c\<lparr>write_ops := write_ops c + 1,
                             bytes_written := bytes_written c + of_nat n\<rparr>\<rparr>))"

section \<open>Single transfers\<close>

lemma ToDmaError_None_iff [simp]: "ToDmaError x = DmaNone \<longleftrightarrow> x = HmNone"
  by (cases x) auto

lemma dma_memory_count_error [simp]: "dma_memory (count_error e) = dma_memory e"
  by (simp add: count_error_def)

lemma map_result_ok [simp]:
  "DmaResult_ok (fst (DMAEngine_map_result e r dir n c)) = HostMemoryResult_ok r"
  by (auto simp: DMAEngine_map_result_def DmaResult_ok_def HostMemoryResult_ok_def)

lemma map_result_memory [simp]:
  "dma_memory (snd (DMAEngine_map_result e r dir n c)) = dma_memory e"
  by (simp add: DMAEngine_map_result_def)

lemma map_result_bytes: "HostMemoryResult_ok r \<Longrightarrow> DMAEngine_map_result e r dir n c = (dma_ok_result n, e)"
  by (simp add: DMAEngine_map_result_def)

lemma DmaResult_ok_simp [simp]:
  "DmaResult_ok \<lparr>dma_error = x, dma_bytes_processed = n, dma_message = msg\<rparr> = (x = DmaNone)"
  by (simp add: DmaResult_ok_def)

lemma DMAEngine_write_mem_wr:
  "DMAEngine_write e a d = (r, e') \<Longrightarrow>
     (if DmaResult_ok r then mem_wr (dma_memory e) a d = Some (dma_memory e') \<and> dma_bytes_processed r = length d
      else mem_wr (dma_memory e) a d = None \<and> dma_memory e' = dma_memory e)"
  by (rule shm_write_cases [of "dma_memory e" a d])
    (auto simp: DMAEngine_write_def DMAEngine_map_result_def Let_def)

lemma DMAEngine_read_mem_rd:
  "DMAEngine_read e a buf = (r, buf', e') \<Longrightarrow>
     dma_memory e' = dma_memory e \<and>
     (if DmaResult_ok r then mem_rd (dma_memory e) a (length buf) = Some buf' \<and> dma_bytes_processed r = length buf
      else mem_rd (dma_memory e) a (length buf) = None \<and> buf' = buf)"
  by (rule shm_read_cases [of "dma_memory e" a buf])
    (auto simp: DMAEngine_read_def DMAEngine_map_result_def Let_def)

section \<open>Scatter-gather transfers\<close>

text \<open>The pieces of the buffer that the entries of a list name, from offset \<open>p\<close> on.\<close>

fun sgl_pieces :: "SglEntry list \<Rightarrow> nat \<Rightarrow> bytes \<Rightarrow> (u64 \<times> bytes) list" where
  "sgl_pieces [] p buf = []"
| "sgl_pieces (x # xs) p buf =
     (if sge_length x = 0 then sgl_pieces xs p buf
      else (sge_address x, subspan p (sge_length x) buf) # sgl_pieces xs (p + sge_length x) buf)"

abbreviation sgl_size :: "SglEntry list \<Rightarrow> nat" where
  "sgl_size sgl \<equiv> sum_list (map sge_length sgl)"

lemma SglView_total_length_eq: "SglView_total_length sgl = of_nat (sgl_size sgl)"
proof -
  have "foldl (\<lambda>tot e. tot + of_nat (sge_length e)) t sgl = t + (of_nat (sgl_size sgl) :: u64)" for t
    by (induction sgl arbitrary: t) (auto simp: add.assoc)
  then show ?thesis by (simp add: SglView_total_length_def)
qed

lemma sgl_write_all:
  assumes "sgl_entries e sgl DmaWrite p buf = (r, buf', e')" "DmaResult_ok r"
    and "p + sgl_size sgl \<le> length buf"
  shows "shm.wr_all (dma_memory e) (sgl_pieces sgl p buf) = Some (dma_memory e') \<and> buf' = buf
    \<and> dma_bytes_processed r = p + sgl_size sgl"
  using assms
proof (induction sgl arbitrary: e p)
  case (Cons x xs)
  show ?case
  proof (cases "sge_length x = 0")
    case False
    let ?beat = "subspan p (sge_length x) buf"
    have self: "memcpy_at p ?beat buf = buf"
      using Cons.prems(3) by (intro memcpy_at_self) simp
    show ?thesis
    proof (cases rule: shm_write_cases [of "dma_memory e" "sge_address x" ?beat])
      case (ok m')
      then have "sgl_entries (e\<lparr>dma_memory := m'\<rparr>) xs DmaWrite (p + sge_length x) buf = (r, buf', e')"
        using Cons.prems(1) False self by (simp add: DMAEngine_map_result_def)
      from Cons.IH [OF this Cons.prems(2)] show ?thesis
        using Cons.prems(3) False ok(1) by simp
    next
      case (fault y)
      then show ?thesis
        using Cons.prems(1,2) False by (auto simp: DMAEngine_map_result_def)
    qed
  qed (use Cons in simp)
qed auto

lemma sgl_read_all:
  assumes "\<forall>(a, d) \<in> set (sgl_pieces sgl p buf). mem_rd (dma_memory e) a (length d) = Some d"
    and "p + sgl_size sgl \<le> length buf" "length buf2 = length buf"
  shows "sgl_entries e sgl DmaRead p buf2 =
    (dma_ok_result (p + sgl_size sgl), memcpy_at p (subspan p (sgl_size sgl) buf) buf2, e)"
  using assms
proof (induction sgl arbitrary: p buf2)
  case (Cons x xs)
  show ?case
  proof (cases "sge_length x = 0")
    case False
    let ?n = "sge_length x" and ?piece = "subspan p (sge_length x) buf"
    have "mem_rd (dma_memory e) (sge_address x) ?n = Some ?piece"
      using Cons.prems False by simp
    then have rd: "SimpleHostMemory_read (dma_memory e) (sge_address x) (subspan p ?n buf2)
        = (\<lparr>hm_error = HmNone, hm_bytes_processed = ?n\<rparr>, ?piece)"
      using Cons.prems
      by (cases rule: shm_read_cases [of "dma_memory e" "sge_address x" "subspan p ?n buf2"]) auto
    let ?buf3 = "memcpy_at p ?piece buf2"
    have "sgl_entries e (x # xs) DmaRead p buf2 = sgl_entries e xs DmaRead (p + ?n) ?buf3"
      using rd False by (simp add: DMAEngine_map_result_def)
    also have "\<dots> = (dma_ok_result (p + ?n + sgl_size xs),
        memcpy_at (p + ?n) (subspan (p + ?n) (sgl_size xs) buf) ?buf3, e)"
      using Cons.prems False by (intro Cons.IH) simp_all
    also have "memcpy_at (p + ?n) (subspan (p + ?n) (sgl_size xs) buf) ?buf3
        = memcpy_at p (subspan p (sgl_size (x # xs)) buf) buf2"
      using Cons.prems by (simp add: memcpy_at_append subspan_append [symmetric])
    finally show ?thesis by (simp add: add.assoc)
  qed (use Cons in simp)
qed simp

section \<open>Properties\<close>

lemma DMAEngine_read_ok:
  assumes "mem_rd (dma_memory e) a (length buf) = Some d"
  shows "\<exists>e''. DMAEngine_read e a buf = (dma_ok_result (length buf), d, e'') \<and> dma_memory e'' = dma_memory e"
  using assms by (cases rule: shm_read_cases [of "dma_memory e" a buf])
    (auto simp: DMAEngine_read_def DMAEngine_map_result_def Let_def)

text \<open>C12: a DMA write that succeeds is read back unchanged by a DMA read of the same address and length,
  whatever the memory's translator and fault injector are, and the read reports all bytes. A read of any other range that is
  translated to bytes the write did not cover reports the same result and the same bytes before and after the write.\<close>

theorem dma_write_read:
  assumes "DMAEngine_write e a d = (r, e')" and "DmaResult_ok r" and "length buf = length d"
  shows "(\<exists>e''. DMAEngine_read e' a buf = (dma_ok_result (length d), d, e'') \<and> dma_memory e'' = dma_memory e')
    \<and> (\<forall>b buf2 s t. mem_span (dma_memory e) a (length d) = Some s \<longrightarrow> mem_span (dma_memory e) b (length buf2) = Some t \<longrightarrow> s \<inter> t = {} \<longrightarrow>
        (\<exists>d2 f f'. DMAEngine_read e b buf2 = (dma_ok_result (length buf2), d2, f)
          \<and> DMAEngine_read e' b buf2 = (dma_ok_result (length buf2), d2, f')))"
proof (intro conjI allI impI)
  have w: "mem_wr (dma_memory e) a d = Some (dma_memory e')"
    using DMAEngine_write_mem_wr [OF assms(1)] assms(2) by auto
  then show "\<exists>e''. DMAEngine_read e' a buf = (dma_ok_result (length d), d, e'') \<and> dma_memory e'' = dma_memory e'"
    using DMAEngine_read_ok [of e' a buf d] shm.rd_wr_same assms(3) by simp
  fix b s t and buf2 :: bytes
  assume sp: "mem_span (dma_memory e) a (length d) = Some s" "mem_span (dma_memory e) b (length buf2) = Some t" "s \<inter> t = {}"
  then obtain d2 where "mem_rd (dma_memory e) b (length buf2) = Some d2" "mem_rd (dma_memory e') b (length buf2) = Some d2"
    using shm.rd_wr_other [OF w sp] shm.rd_span [of "dma_memory e" b "length buf2"] by auto
  then show "\<exists>d2 f f'. DMAEngine_read e b buf2 = (dma_ok_result (length buf2), d2, f)
      \<and> DMAEngine_read e' b buf2 = (dma_ok_result (length buf2), d2, f')"
    using DMAEngine_read_ok by metis
qed

abbreviation demo_engine :: DMAEngine where
  "demo_engine \<equiv> DMAEngine_new (SimpleHostMemory_new
     \<lparr>size_bytes = 8, page_size = 0, iommu_enabled = False\<rparr> None None)"

lemmas demo_defs = DMAEngine_new_def SimpleHostMemory_new_def DMAEngine_write_def DMAEngine_read_def
  SimpleHostMemory_write_def SimpleHostMemory_read_def SimpleHostMemory_translate_view_def
  DMAEngine_map_result_def DmaCounters_zero_def Let_def memcpy_at_def subspan_def

theorem dma_write_read_witness:
  "\<exists>e'' d2 f f'. DMAEngine_read (snd (DMAEngine_write demo_engine 2 [7, 9])) 2 [0, 0] = (dma_ok_result 2, [7, 9], e'')
     \<and> DMAEngine_read demo_engine 5 [1, 1, 1] = (dma_ok_result 3, d2, f)
     \<and> DMAEngine_read (snd (DMAEngine_write demo_engine 2 [7, 9])) 5 [1, 1, 1] = (dma_ok_result 3, d2, f')"
proof -
  have ok: "DmaResult_ok (fst (DMAEngine_write demo_engine 2 [7, 9]))"
    by (simp add: demo_defs)
  have sp: "mem_span (dma_memory demo_engine) 2 (length [7, 9 :: byte]) = Some {2 ..< 2 + 2}"
    "mem_span (dma_memory demo_engine) 5 (length [1, 1, 1 :: byte]) = Some {5 ..< 5 + 3}"
    by (simp_all add: demo_defs mem_span_def hm_access_def)
  note all = dma_write_read [OF surjective_pairing ok, of "[0, 0]"]
  have "\<exists>d2 f f'. DMAEngine_read demo_engine 5 [1, 1, 1] = (dma_ok_result 3, d2, f)
     \<and> DMAEngine_read (snd (DMAEngine_write demo_engine 2 [7, 9])) 5 [1, 1, 1] = (dma_ok_result 3, d2, f')"
    using all [THEN conjunct2, rule_format, OF _ sp] by (simp add: numeral_3_eq_3)
  with all show ?thesis by auto
qed

text \<open>A DMA write that fails leaves host memory as it was and reports an error that says why: the
  access was refused by the fault injector, had no translation, or lay outside the buffer. It counts
  one error and no operation.\<close>

theorem dma_write_fault:
  assumes "DMAEngine_write e a d = (r, e')" and "\<not> DmaResult_ok r"
  shows "dma_memory e' = dma_memory e \<and> dma_bytes_processed r = 0
    \<and> dma_error r \<in> {DmaFaultInjected, DmaTranslationFault, DmaOutOfBounds}
    \<and> dma_counters e' = (dma_counters e)\<lparr>dma_errors := dma_errors (dma_counters e) + 1\<rparr>"
proof (cases rule: shm_write_cases [of "dma_memory e" a d])
  case (ok m')
  then show ?thesis
    using assms by (auto simp: DMAEngine_write_def DMAEngine_map_result_def Let_def)
next
  case (fault x)
  then show ?thesis
    using assms by (cases x) (auto simp: DMAEngine_write_def DMAEngine_map_result_def count_error_def Let_def)
qed

theorem dma_write_fault_witness:
  "dma_memory (snd (DMAEngine_write demo_engine 7 [1, 2])) = dma_memory demo_engine"
proof -
  have "\<not> DmaResult_ok (fst (DMAEngine_write demo_engine 7 [1, 2]))"
    by (simp add: demo_defs)
  then show ?thesis
    using dma_write_fault [of demo_engine 7 "[1, 2]" "fst (DMAEngine_write demo_engine 7 [1, 2])"
        "snd (DMAEngine_write demo_engine 7 [1, 2])"] by simp
qed

text \<open>C13: scatter then gather. When a scatter-gather write of a buffer succeeds and the entries name
  disjoint spans of memory, a scatter-gather read of the same list returns exactly the bytes that were
  written, and leaves the rest of the destination buffer alone.\<close>

theorem sgl_scatter_gather:
  assumes "DMAEngine_transfer_sgl e sgl DmaWrite buf = (r, buf', e')" and "DmaResult_ok r"
    and "sgl_size sgl < 2 ^ 64" and "length buf2 = length buf"
    and "shm.disjoint_writes (dma_memory e) (sgl_pieces sgl 0 buf)"
  shows "\<exists>e''. DMAEngine_transfer_sgl e' sgl DmaRead buf2 =
    (dma_ok_result (sgl_size sgl), take (sgl_size sgl) buf @ drop (sgl_size sgl) buf2, e'')"
proof -
  have ne: "sgl \<noteq> []" and room: "sgl_size sgl \<le> length buf"
    using assms(1,2,3)
    by (auto simp: DMAEngine_transfer_sgl_def SglView_total_length_eq unat_of_nat split: if_splits)
  then obtain e1 where e1: "sgl_entries e sgl DmaWrite 0 buf = (r, buf', e1)" "dma_memory e' = dma_memory e1"
    using assms(1,2,3)
    by (auto simp: DMAEngine_transfer_sgl_def SglView_total_length_eq unat_of_nat Let_def split: prod.splits if_splits)
  have all: "shm.wr_all (dma_memory e) (sgl_pieces sgl 0 buf) = Some (dma_memory e')"
    using sgl_write_all [OF e1(1) assms(2)] room e1(2) by simp
  have "sgl_entries e' sgl DmaRead 0 buf2 =
    (dma_ok_result (sgl_size sgl), memcpy_at 0 (subspan 0 (sgl_size sgl) buf) buf2, e')"
    using sgl_read_all [of sgl 0 buf e' buf2] shm.wr_all_visible [OF all assms(5)] room assms(4) by auto
  then show ?thesis
    using ne room assms(3,4)
    by (simp add: DMAEngine_transfer_sgl_def SglView_total_length_eq unat_of_nat Let_def memcpy_at_def subspan_def)
qed

theorem sgl_scatter_gather_witness:
  "\<exists>e''. DMAEngine_transfer_sgl
      (snd (snd (DMAEngine_transfer_sgl demo_engine
         [\<lparr>sge_address = 5, sge_length = 2\<rparr>, \<lparr>sge_address = 1, sge_length = 1\<rparr>] DmaWrite [7, 8, 9])))
      [\<lparr>sge_address = 5, sge_length = 2\<rparr>, \<lparr>sge_address = 1, sge_length = 1\<rparr>] DmaRead [0, 0, 0]
    = (dma_ok_result 3, [7, 8, 9], e'')"
proof -
  let ?sgl = "[\<lparr>sge_address = 5, sge_length = 2\<rparr>, \<lparr>sge_address = 1, sge_length = 1\<rparr>] :: SglEntry list"
  let ?w = "DMAEngine_transfer_sgl demo_engine ?sgl DmaWrite [7, 8, 9]"
  have ok: "DmaResult_ok (fst ?w)"
    by (simp add: DMAEngine_transfer_sgl_def SglView_total_length_def demo_defs)
  have dis: "shm.disjoint_writes (dma_memory demo_engine) (sgl_pieces ?sgl 0 [7, 8, 9])"
    by (simp add: shm.disjoint_writes_def mem_span_def hm_access_def demo_defs)
  show ?thesis
    using sgl_scatter_gather [of demo_engine ?sgl "[7, 8, 9]" "fst ?w" "fst (snd ?w)" "snd (snd ?w)" "[0, 0, 0]"]
      ok dis by simp
qed

end
