(* ===== verification/Nic_Rings.thy ===== *)
theory Nic_Rings
  imports Dma_Engine
begin

text \<open>
  Doorbells (\<^verbatim>\<open>doorbell.h/.cpp\<close>), descriptor rings (\<^verbatim>\<open>descriptor_ring.h/.cpp\<close>) and the in-model completion
  queue (\<^verbatim>\<open>completion_queue.h/.cpp\<close>). A ring holds its doorbell, if it has one; the calls a doorbell makes
  to its callback are recorded in order. The theory shows that both rings are bounded queues: they meet
  the \<open>bounded_fifo\<close> contract, so nothing is lost, duplicated or reordered.
\<close>

section \<open>Doorbells\<close>

record DoorbellPayload =
  db_queue_id :: u16
  db_data :: u32

record Doorbell =
  has_callback :: bool
  callback_log :: "DoorbellPayload list"
  last_payload :: "DoorbellPayload option"
  rings :: u64
  db_masked :: bool

definition Doorbell_new :: Doorbell where
  "Doorbell_new = \<lparr>has_callback = False, callback_log = [], last_payload = None, rings = 0, db_masked = False\<rparr>"

definition Doorbell_ring :: "Doorbell \<Rightarrow> DoorbellPayload \<Rightarrow> Doorbell" where
  "Doorbell_ring d payload =
     (if db_masked d then d
      else d\<lparr>last_payload := Some payload, rings := rings d + 1,
             callback_log := (if has_callback d then callback_log d @ [payload] else callback_log d)\<rparr>)"

definition Doorbell_set_callback :: "Doorbell \<Rightarrow> bool \<Rightarrow> Doorbell" where
  "Doorbell_set_callback d cb = d\<lparr>has_callback := cb\<rparr>"

definition Doorbell_set_masked :: "Doorbell \<Rightarrow> bool \<Rightarrow> Doorbell" where
  "Doorbell_set_masked d m = d\<lparr>db_masked := m\<rparr>"

definition Doorbell_reset :: "Doorbell \<Rightarrow> Doorbell" where
  "Doorbell_reset d = d\<lparr>rings := 0, last_payload := None\<rparr>"

text \<open>\<^verbatim>\<open>if (doorbell_ != nullptr) doorbell_->ring(...)\<close>\<close>

definition ring_doorbell :: "Doorbell option \<Rightarrow> u16 \<Rightarrow> u32 \<Rightarrow> Doorbell option" where
  "ring_doorbell db qid idx = map_option (\<lambda>d. Doorbell_ring d \<lparr>db_queue_id = qid, db_data = idx\<rparr>) db"

section \<open>Descriptor rings\<close>

record DescriptorRingConfig =
  descriptor_size :: nat
  ring_size :: nat
  base_address :: u64
  ring_queue_id :: u16
  host_backed :: bool

text \<open>\<open>has_dma\<close> says that \<^verbatim>\<open>dma_engine_\<close> is not null; the engine itself is passed to the operations.\<close>

record DescriptorRing =
  ring_config :: DescriptorRingConfig
  ring_db :: "Doorbell option"
  has_dma :: bool
  ring_storage :: bytes
  producer_index :: u32
  consumer_index :: u32
  ring_count :: u32

definition DescriptorRing_new :: "DescriptorRingConfig \<Rightarrow> bool \<Rightarrow> Doorbell option \<Rightarrow> DescriptorRing" where
  "DescriptorRing_new cfg dma db =
     \<lparr>ring_config = cfg, ring_db = db, has_dma = dma,
      ring_storage = (if host_backed cfg then [] else replicate (descriptor_size cfg * ring_size cfg) 0),
      producer_index = 0, consumer_index = 0, ring_count = 0\<rparr>"

definition DescriptorRing_is_full :: "DescriptorRing \<Rightarrow> bool" where
  "DescriptorRing_is_full q \<longleftrightarrow> unat (ring_count q) = ring_size (ring_config q)"

definition DescriptorRing_is_empty :: "DescriptorRing \<Rightarrow> bool" where
  "DescriptorRing_is_empty q \<longleftrightarrow> ring_count q = 0"

definition DescriptorRing_available :: "DescriptorRing \<Rightarrow> nat" where
  "DescriptorRing_available q = unat (ring_count q)"

definition DescriptorRing_space :: "DescriptorRing \<Rightarrow> u64" where
  "DescriptorRing_space q = of_nat (ring_size (ring_config q)) - ucast (ring_count q)"

definition slot_address :: "DescriptorRing \<Rightarrow> u32 \<Rightarrow> u64" where
  "slot_address q slot =
     base_address (ring_config q) + of_nat (unat slot * descriptor_size (ring_config q))"

definition slot_offset :: "DescriptorRing \<Rightarrow> u32 \<Rightarrow> nat" where
  "slot_offset q slot = unat slot * descriptor_size (ring_config q)"

definition DescriptorRing_push_descriptor ::
  "DescriptorRing \<Rightarrow> DMAEngine \<Rightarrow> bytes \<Rightarrow> DmaResult \<times> DescriptorRing \<times> DMAEngine" where
  "DescriptorRing_push_descriptor q e descriptor =
     (let cfg = ring_config q;
          advance = (\<lambda>q.
            let p = ring_next (ring_size cfg) (producer_index q)
            in q\<lparr>producer_index := p, ring_count := ring_count q + 1,
                 ring_db := ring_doorbell (ring_db q) (ring_queue_id cfg) p\<rparr>)
      in
      if length descriptor \<noteq> descriptor_size cfg
      then (dma_fail_result DmaAccessError ''size_mismatch'', q, e)
      else if DescriptorRing_is_full q then (dma_fail_result DmaAccessError ''ring_full'', q, e)
      else if host_backed cfg then
        if \<not> has_dma q then (dma_fail_result DmaInternalError ''no_dma'', q, e)
        else (let (r, e') = DMAEngine_write e (slot_address q (producer_index q)) descriptor
              in if \<not> DmaResult_ok r then (r, q, e')
                 else (dma_ok_result (length descriptor), advance q, e'))
      else (dma_ok_result (length descriptor),
            advance (q\<lparr>ring_storage :=
              memcpy_at (slot_offset q (producer_index q)) descriptor (ring_storage q)\<rparr>), e))"

text \<open>The descriptor argument of \<^verbatim>\<open>pop\<close> is the caller's buffer; it is returned with its new content.\<close>

definition DescriptorRing_pop_descriptor ::
  "DescriptorRing \<Rightarrow> DMAEngine \<Rightarrow> bytes \<Rightarrow> DmaResult \<times> bytes \<times> DescriptorRing \<times> DMAEngine" where
  "DescriptorRing_pop_descriptor q e buf =
     (let cfg = ring_config q;
          advance = (\<lambda>q. q\<lparr>consumer_index := ring_next (ring_size cfg) (consumer_index q),
                           ring_count := ring_count q - 1\<rparr>)
      in
      if length buf \<noteq> descriptor_size cfg
      then (dma_fail_result DmaAccessError ''size_mismatch'', buf, q, e)
      else if DescriptorRing_is_empty q then (dma_fail_result DmaAccessError ''ring_empty'', buf, q, e)
      else if host_backed cfg then
        if \<not> has_dma q then (dma_fail_result DmaInternalError ''no_dma'', buf, q, e)
        else (let (r, buf', e') = DMAEngine_read e (slot_address q (consumer_index q)) buf
              in if \<not> DmaResult_ok r then (r, buf', q, e')
                 else (dma_ok_result (length buf), buf', advance q, e'))
      else (dma_ok_result (length buf),
            subspan (slot_offset q (consumer_index q)) (descriptor_size cfg) (ring_storage q), advance q, e))"

definition DescriptorRing_reset :: "DescriptorRing \<Rightarrow> DescriptorRing" where
  "DescriptorRing_reset q = q\<lparr>producer_index := 0, consumer_index := 0, ring_count := 0\<rparr>"

section \<open>Completion queues\<close>

record CompletionEntry =
  ce_queue_id :: u16
  ce_descriptor_index :: u16
  ce_status :: u32
  checksum_offloaded :: bool
  checksum_verified :: bool
  tso_performed :: bool
  gso_performed :: bool
  vlan_inserted :: bool
  vlan_stripped :: bool
  gro_aggregated :: bool
  segments_produced :: u16
  ce_vlan_tag :: u16

definition CompletionEntry_default :: CompletionEntry where
  "CompletionEntry_default = \<lparr>ce_queue_id = 0, ce_descriptor_index = 0, ce_status = 0,
     checksum_offloaded = False, checksum_verified = False, tso_performed = False, gso_performed = False,
     vlan_inserted = False, vlan_stripped = False, gro_aggregated = False, segments_produced = 1,
     ce_vlan_tag = 0\<rparr>"

record CompletionQueueConfig =
  cq_ring_size :: nat
  cq_queue_id :: u16

record CompletionQueue =
  cq_config :: CompletionQueueConfig
  cq_db :: "Doorbell option"
  cq_entries :: "CompletionEntry list"
  cq_producer :: u32
  cq_consumer :: u32
  cq_count :: u32

definition CompletionQueue_new :: "CompletionQueueConfig \<Rightarrow> Doorbell option \<Rightarrow> CompletionQueue" where
  "CompletionQueue_new cfg db =
     \<lparr>cq_config = cfg, cq_db = db, cq_entries = replicate (cq_ring_size cfg) CompletionEntry_default,
      cq_producer = 0, cq_consumer = 0, cq_count = 0\<rparr>"

definition CompletionQueue_is_full :: "CompletionQueue \<Rightarrow> bool" where
  "CompletionQueue_is_full q \<longleftrightarrow> unat (cq_count q) = cq_ring_size (cq_config q)"

definition CompletionQueue_is_empty :: "CompletionQueue \<Rightarrow> bool" where
  "CompletionQueue_is_empty q \<longleftrightarrow> cq_count q = 0"

definition CompletionQueue_available :: "CompletionQueue \<Rightarrow> nat" where
  "CompletionQueue_available q = unat (cq_count q)"

definition CompletionQueue_space :: "CompletionQueue \<Rightarrow> u64" where
  "CompletionQueue_space q = of_nat (cq_ring_size (cq_config q)) - ucast (cq_count q)"

definition CompletionQueue_post_completion :: "CompletionQueue \<Rightarrow> CompletionEntry \<Rightarrow> bool \<times> CompletionQueue" where
  "CompletionQueue_post_completion q entry =
     (if CompletionQueue_is_full q then (False, q)
      else
        let p = ring_next (cq_ring_size (cq_config q)) (cq_producer q)
        in (True, q\<lparr>cq_entries := (cq_entries q)[unat (cq_producer q) := entry],
                    cq_producer := p, cq_count := cq_count q + 1,
                    cq_db := ring_doorbell (cq_db q) (cq_queue_id (cq_config q)) p\<rparr>))"

definition CompletionQueue_poll_completion :: "CompletionQueue \<Rightarrow> CompletionEntry option \<times> CompletionQueue" where
  "CompletionQueue_poll_completion q =
     (if CompletionQueue_is_empty q then (None, q)
      else (Some (cq_entries q ! unat (cq_consumer q)),
            q\<lparr>cq_consumer := ring_next (cq_ring_size (cq_config q)) (cq_consumer q),
              cq_count := cq_count q - 1\<rparr>))"

definition CompletionQueue_reset :: "CompletionQueue \<Rightarrow> CompletionQueue" where
  "CompletionQueue_reset q = q\<lparr>cq_producer := 0, cq_consumer := 0, cq_count := 0\<rparr>"

section \<open>Ring indices\<close>

text \<open>What every ring keeps between its indices. Sizes are below \<open>2\<^sup>3\<^sup>2\<close>, the range of the count.\<close>

definition indices_ok :: "nat \<Rightarrow> u32 \<Rightarrow> u32 \<Rightarrow> u32 \<Rightarrow> bool" where
  "indices_ok n p c k \<longleftrightarrow> n < 2 ^ 32 \<and> unat k \<le> n \<and>
     (n > 0 \<longrightarrow> unat p < n \<and> unat c < n \<and> unat p = (unat c + unat k) mod n)"

lemma indices_ok_0 [simp]: "n < 2 ^ 32 \<Longrightarrow> indices_ok n 0 0 0"
  by (simp add: indices_ok_def)

lemma indices_ok_push:
  assumes "indices_ok n p c k" "unat k \<noteq> n"
  shows "indices_ok n (ring_next n p) c (k + 1) \<and> unat (k + 1) = Suc (unat k)"
proof -
  have "unat (k + 1) = Suc (unat k)"
    using assms by (simp add: indices_ok_def unat_word_ariths)
  then show ?thesis
    using assms by (auto simp: indices_ok_def mod_Suc_eq)
qed

lemma indices_ok_pop:
  assumes "indices_ok n p c k" "k \<noteq> 0"
  shows "indices_ok n p (ring_next n c) (k - 1) \<and> unat (k - 1) = unat k - 1"
proof -
  have k: "unat (k - 1) = unat k - 1" "0 < unat k"
    using assms(2) by (auto simp: unat_minus_1 unat_gt_0)
  have n: "0 < n" using assms k by (auto simp: indices_ok_def)
  have "((unat c + 1) mod n + (unat k - 1)) mod n = ((unat c + 1) + (unat k - 1)) mod n"
    by (rule mod_add_left_eq)
  also have "(unat c + 1) + (unat k - 1) = unat c + unat k"
    using k(2) by simp
  finally have "((unat c + 1) mod n + (unat k - 1)) mod n = (unat c + unat k) mod n" .
  then show ?thesis
    using assms k n by (auto simp: indices_ok_def)
qed

section \<open>The completion queue is a bounded queue\<close>

definition cq_contents :: "CompletionQueue \<Rightarrow> CompletionEntry list" where
  "cq_contents q = ring_list (\<lambda>i. cq_entries q ! i) (cq_ring_size (cq_config q))
     (unat (cq_consumer q)) (unat (cq_count q))"

definition cq_inv :: "CompletionQueue \<Rightarrow> bool" where
  "cq_inv q \<longleftrightarrow> indices_ok (cq_ring_size (cq_config q)) (cq_producer q) (cq_consumer q) (cq_count q)
     \<and> length (cq_entries q) = cq_ring_size (cq_config q)"

lemma cq_inv_new: "cq_ring_size cfg < 2 ^ 32 \<Longrightarrow> cq_inv (CompletionQueue_new cfg db)"
  by (simp add: cq_inv_def CompletionQueue_new_def)

lemma cq_inv_reset: "cq_inv q \<Longrightarrow> cq_inv (CompletionQueue_reset q)"
  by (simp add: cq_inv_def CompletionQueue_reset_def indices_ok_def)

lemma cq_post_cases:
  assumes "cq_inv q"
  shows "cq_inv (snd (CompletionQueue_post_completion q x)) \<and>
    (if length (cq_contents q) < cq_ring_size (cq_config q)
     then fst (CompletionQueue_post_completion q x)
       \<and> cq_contents (snd (CompletionQueue_post_completion q x)) = cq_contents q @ [x]
     else CompletionQueue_post_completion q x = (False, q))"
proof (cases "CompletionQueue_is_full q")
  case True
  then show ?thesis
    using assms by (simp add: CompletionQueue_post_completion_def CompletionQueue_is_full_def cq_contents_def)
next
  case False
  let ?n = "cq_ring_size (cq_config q)"
  have lt: "unat (cq_count q) < ?n"
    using False assms by (auto simp: CompletionQueue_is_full_def cq_inv_def indices_ok_def)
  have ix: "indices_ok ?n (cq_producer q) (cq_consumer q) (cq_count q)" and len: "length (cq_entries q) = ?n"
    using assms by (auto simp: cq_inv_def)
  have p: "unat (cq_producer q) = (unat (cq_consumer q) + unat (cq_count q)) mod ?n"
    using ix lt by (auto simp: indices_ok_def)
  have "ring_list (\<lambda>i. (cq_entries q)[unat (cq_producer q) := x] ! i) ?n (unat (cq_consumer q)) (Suc (unat (cq_count q)))
      = cq_contents q @ [x]"
    unfolding cq_contents_def using lt len p by (intro ring_list_push) auto
  then show ?thesis
    using False lt len indices_ok_push [OF ix] False
    by (auto simp: CompletionQueue_post_completion_def CompletionQueue_is_full_def cq_contents_def cq_inv_def Let_def)
qed

lemma cq_poll_cases:
  assumes "cq_inv q"
  shows "cq_inv (snd (CompletionQueue_poll_completion q)) \<and>
    (case cq_contents q of
       [] \<Rightarrow> CompletionQueue_poll_completion q = (None, q)
     | x # xs \<Rightarrow> fst (CompletionQueue_poll_completion q) = Some x
         \<and> cq_contents (snd (CompletionQueue_poll_completion q)) = xs)"
proof (cases "CompletionQueue_is_empty q")
  case True
  then show ?thesis
    using assms by (simp add: CompletionQueue_poll_completion_def CompletionQueue_is_empty_def cq_contents_def)
next
  case False
  let ?n = "cq_ring_size (cq_config q)"
  have ix: "indices_ok ?n (cq_producer q) (cq_consumer q) (cq_count q)" and k: "cq_count q \<noteq> 0"
    using assms False by (auto simp: cq_inv_def CompletionQueue_is_empty_def)
  have pos: "0 < unat (cq_count q)"
    using k by (simp add: unat_gt_0)
  then have bnd: "unat (cq_consumer q) < ?n" "?n < 2 ^ 32"
    using ix by (auto simp: indices_ok_def)
  show ?thesis
    using False assms indices_ok_pop [OF ix k] bnd
      ring_list_pop [OF pos, of "\<lambda>i. cq_entries q ! i" ?n "unat (cq_consumer q)"]
    by (simp add: CompletionQueue_poll_completion_def cq_contents_def cq_inv_def)
qed

lemma cq_post_config [nic_frame]:
  "cq_config (snd (CompletionQueue_post_completion q x)) = cq_config q"
  by (simp add: CompletionQueue_post_completion_def Let_def)

lemma cq_poll_config [nic_frame]: "cq_config (snd (CompletionQueue_poll_completion q)) = cq_config q"
  by (simp add: CompletionQueue_poll_completion_def)

interpretation cq: bounded_fifo CompletionQueue_post_completion CompletionQueue_poll_completion
  cq_contents "\<lambda>q. cq_ring_size (cq_config q)" "\<lambda>_ _. True" cq_inv
proof unfold_locales
  fix q :: CompletionQueue and x and xs
  assume inv: "cq_inv q"
  note post = cq_post_cases [OF inv, of x] and poll = cq_poll_cases [OF inv]
  show "length (cq_contents q) \<le> cq_ring_size (cq_config q)"
    using inv by (auto simp: cq_inv_def cq_contents_def indices_ok_def)
  show "cq_inv (snd (CompletionQueue_post_completion q x))" "cq_inv (snd (CompletionQueue_poll_completion q))"
    using post poll by blast+
  show "length (cq_contents q) < cq_ring_size (cq_config q) \<Longrightarrow>
      fst (CompletionQueue_post_completion q x) \<and>
      cq_contents (snd (CompletionQueue_post_completion q x)) = cq_contents q @ [x]"
    and "\<not> length (cq_contents q) < cq_ring_size (cq_config q) \<Longrightarrow>
      \<not> fst (CompletionQueue_post_completion q x) \<and>
      cq_contents (snd (CompletionQueue_post_completion q x)) = cq_contents q"
    using post by auto
  show "cq_contents q = [] \<Longrightarrow> fst (CompletionQueue_poll_completion q) = None \<and>
      cq_contents (snd (CompletionQueue_poll_completion q)) = []"
    and "cq_contents q = x # xs \<Longrightarrow> fst (CompletionQueue_poll_completion q) = Some x \<and>
      cq_contents (snd (CompletionQueue_poll_completion q)) = xs"
    using poll by auto
qed (simp_all add: nic_frame)

section \<open>The descriptor ring is a bounded queue\<close>

text \<open>The state of a ring is the ring and the engine it transfers through. A slot's content is in the
  ring's storage, or in host memory when the ring is host-backed.\<close>

definition slot_content :: "DescriptorRing \<Rightarrow> DMAEngine \<Rightarrow> nat \<Rightarrow> bytes" where
  "slot_content q e i =
     (let n = descriptor_size (ring_config q)
      in if host_backed (ring_config q) then the (mem_rd (dma_memory e) (slot_address q (of_nat i)) n)
         else subspan (i * n) n (ring_storage q))"

fun ring_contents :: "DescriptorRing \<times> DMAEngine \<Rightarrow> bytes list" where
  "ring_contents (q, e) = ring_list (slot_content q e) (ring_size (ring_config q))
     (unat (consumer_index q)) (unat (ring_count q))"

text \<open>The slots of a host-backed ring are accessible and do not overlap.\<close>

definition slot_span :: "DescriptorRing \<Rightarrow> DMAEngine \<Rightarrow> nat \<Rightarrow> nat set option" where
  "slot_span q e i = mem_span (dma_memory e) (slot_address q (of_nat i)) (descriptor_size (ring_config q))"

definition slots_mapped :: "DescriptorRing \<Rightarrow> DMAEngine \<Rightarrow> bool" where
  "slots_mapped q e \<longleftrightarrow>
     (\<forall>i < ring_size (ring_config q). slot_span q e i \<noteq> None \<and>
        (\<forall>j < ring_size (ring_config q). i \<noteq> j \<longrightarrow> the (slot_span q e i) \<inter> the (slot_span q e j) = {}))"

fun ring_inv :: "DescriptorRing \<times> DMAEngine \<Rightarrow> bool" where
  "ring_inv (q, e) \<longleftrightarrow>
     indices_ok (ring_size (ring_config q)) (producer_index q) (consumer_index q) (ring_count q)
     \<and> (if host_backed (ring_config q) then has_dma q \<and> slots_mapped q e
        else length (ring_storage q) = descriptor_size (ring_config q) * ring_size (ring_config q))"

fun ring_enq :: "DescriptorRing \<times> DMAEngine \<Rightarrow> bytes \<Rightarrow> bool \<times> (DescriptorRing \<times> DMAEngine)" where
  "ring_enq (q, e) d = (let (r, q', e') = DescriptorRing_push_descriptor q e d in (DmaResult_ok r, (q', e')))"

fun ring_deq :: "DescriptorRing \<times> DMAEngine \<Rightarrow> bytes option \<times> (DescriptorRing \<times> DMAEngine)" where
  "ring_deq (q, e) =
     (let (r, d, q', e') = DescriptorRing_pop_descriptor q e (replicate (descriptor_size (ring_config q)) 0)
      in (if DmaResult_ok r then Some d else None, (q', e')))"

fun ring_capacity :: "DescriptorRing \<times> DMAEngine \<Rightarrow> nat" where
  "ring_capacity (q, e) = ring_size (ring_config q)"

fun ring_elem_ok :: "DescriptorRing \<times> DMAEngine \<Rightarrow> bytes \<Rightarrow> bool" where
  "ring_elem_ok (q, e) d \<longleftrightarrow> length d = descriptor_size (ring_config q)"

lemma slots_mappedE:
  assumes "slots_mapped q e" "i < ring_size (ring_config q)" "j < ring_size (ring_config q)"
  obtains s t where "slot_span q e i = Some s" "slot_span q e j = Some t" "i \<noteq> j \<longrightarrow> s \<inter> t = {}"
  using assms unfolding slots_mapped_def by (metis not_None_eq option.sel)

text \<open>Writing a slot: the other slots keep their content. First for host-backed rings, then for both.\<close>

lemma host_slot_write:
  assumes "slots_mapped q e" "i < ring_size (ring_config q)" "length d = descriptor_size (ring_config q)"
  obtains e' where "DMAEngine_write e (slot_address q (of_nat i)) d = (dma_ok_result (length d), e')"
    "slot_span q e' = slot_span q e"
    "mem_rd (dma_memory e') (slot_address q (of_nat i)) (length d) = Some d"
    "\<And>j. j < ring_size (ring_config q) \<Longrightarrow> j \<noteq> i \<Longrightarrow>
       mem_rd (dma_memory e') (slot_address q (of_nat j)) (length d)
         = mem_rd (dma_memory e) (slot_address q (of_nat j)) (length d)"
proof -
  let ?a = "\<lambda>j. slot_address q (of_nat j)"
  have "mem_wr (dma_memory e) (?a i) d \<noteq> None"
    using assms shm.wr_span [of "dma_memory e" "?a i" d] by (auto simp: slots_mapped_def slot_span_def)
  then obtain m' where m': "mem_wr (dma_memory e) (?a i) d = Some m'" by blast
  then obtain e' where e': "DMAEngine_write e (?a i) d = (dma_ok_result (length d), e')" "dma_memory e' = m'"
    by (cases rule: shm_write_cases [of "dma_memory e" "?a i" d])
      (auto simp: DMAEngine_write_def DMAEngine_map_result_def Let_def)
  have "mem_rd m' (?a j) (length d) = mem_rd (dma_memory e) (?a j) (length d)"
    if "j < ring_size (ring_config q)" "j \<noteq> i" for j
    by (rule slots_mappedE [OF assms(1,2) that(1)])
      (use that shm.rd_wr_other [OF m'] in \<open>auto simp: slot_span_def assms(3)\<close>)
  then show thesis
    using that [of e'] e' shm.rd_wr_same [OF m'] shm.span_wr [OF m']
    by (auto simp: slot_span_def fun_eq_iff)
qed

lemma storage_slot_write:
  assumes "length st = n * k" "i < k" "length d = n"
  shows "length (memcpy_at (i * n) d st) = n * k"
    and "subspan (i * n) n (memcpy_at (i * n) d st) = d"
    and "j < k \<Longrightarrow> j \<noteq> i \<Longrightarrow> subspan (j * n) n (memcpy_at (i * n) d st) = subspan (j * n) n st"
proof -
  have le: "j * n + n \<le> length st" if "j < k" for j
    using that assms(1) by (metis Suc_leI mult.commute mult_Suc_right mult_le_mono2 add.commute)
  show "length (memcpy_at (i * n) d st) = n * k"
    and "subspan (i * n) n (memcpy_at (i * n) d st) = d"
    using assms le [of i] by auto
  assume "j < k" "j \<noteq> i"
  then have "i * n + n \<le> j * n \<or> j * n + n \<le> i * n"
    by (metis add.commute linorder_neqE_nat mult_Suc mult_le_mono1 Suc_leI)
  then show "subspan (j * n) n (memcpy_at (i * n) d st) = subspan (j * n) n st"
    using assms le [of i] le [of j] \<open>j < k\<close> by (intro subspan_memcpy_at_disjoint) auto
qed

lemma ring_inv_indices:
  "ring_inv (q, e) \<Longrightarrow>
     indices_ok (ring_size (ring_config q)) (producer_index q) (consumer_index q) (ring_count q)"
  by simp

lemma ring_push_update:
  assumes inv: "ring_inv (q, e)" and room: "\<not> DescriptorRing_is_full q"
    and upd: "ring_config q' = ring_config q" "has_dma q' = has_dma q"
      "producer_index q' = ring_next (ring_size (ring_config q)) (producer_index q)"
      "consumer_index q' = consumer_index q" "ring_count q' = ring_count q + 1"
    and backing: "if host_backed (ring_config q) then slots_mapped q' e'
      else length (ring_storage q') = descriptor_size (ring_config q) * ring_size (ring_config q)"
    and new: "slot_content q' e' (unat (producer_index q)) = d"
    and old: "\<And>j. j < ring_size (ring_config q) \<Longrightarrow> j \<noteq> unat (producer_index q) \<Longrightarrow>
      slot_content q' e' j = slot_content q e j"
  shows "ring_inv (q', e') \<and> ring_contents (q', e') = ring_contents (q, e) @ [d]"
proof -
  let ?n = "ring_size (ring_config q)" and ?p = "producer_index q"
  note ix = ring_inv_indices [OF inv]
  have lt: "unat (ring_count q) < ?n"
    using ix room by (auto simp: indices_ok_def DescriptorRing_is_full_def)
  have p: "unat ?p = (unat (consumer_index q) + unat (ring_count q)) mod ?n" "unat ?p < ?n"
    using ix lt by (auto simp: indices_ok_def)
  have ix': "indices_ok ?n (ring_next ?n ?p) (consumer_index q) (ring_count q + 1)"
      "unat (ring_count q + 1) = Suc (unat (ring_count q))"
    using indices_ok_push [OF ix] lt by auto
  have "ring_list (slot_content q' e') ?n (unat (consumer_index q)) (Suc (unat (ring_count q)))
      = ring_list (slot_content q e) ?n (unat (consumer_index q)) (unat (ring_count q)) @ [d]"
    using lt new old p by (intro ring_list_push) auto
  then show ?thesis using inv upd backing ix' by auto
qed

lemma ring_push_cases:
  assumes inv: "ring_inv (q, e)" and len: "length d = descriptor_size (ring_config q)"
    and room: "\<not> DescriptorRing_is_full q"
  shows "\<exists>q' e'. DescriptorRing_push_descriptor q e d = (dma_ok_result (length d), q', e')
    \<and> ring_inv (q', e') \<and> ring_contents (q', e') = ring_contents (q, e) @ [d]"
proof -
  let ?n = "ring_size (ring_config q)" and ?p = "producer_index q"
  let ?adv = "\<lambda>q :: DescriptorRing. q\<lparr>producer_index := ring_next ?n ?p, ring_count := ring_count q + 1,
     ring_db := ring_doorbell (ring_db q) (ring_queue_id (ring_config q)) (ring_next ?n ?p)\<rparr>"
  have p: "unat ?p < ?n"
    using ring_inv_indices [OF inv] room by (auto simp: indices_ok_def DescriptorRing_is_full_def)
  show ?thesis
  proof (cases "host_backed (ring_config q)")
    case True
    then have sm: "slots_mapped q e" "has_dma q" using inv by auto
    obtain e' where e': "DMAEngine_write e (slot_address q ?p) d = (dma_ok_result (length d), e')"
      "slot_span q e' = slot_span q e" "mem_rd (dma_memory e') (slot_address q ?p) (length d) = Some d"
      "\<And>j. j < ?n \<Longrightarrow> j \<noteq> unat ?p \<Longrightarrow> mem_rd (dma_memory e') (slot_address q (of_nat j)) (length d)
         = mem_rd (dma_memory e) (slot_address q (of_nat j)) (length d)"
      using host_slot_write [OF sm(1) p len] by auto
    have sa: "slot_address (?adv q) = slot_address q" "slot_span (?adv q) = slot_span q"
      by (simp_all add: slot_address_def slot_span_def fun_eq_iff)
    have "DescriptorRing_push_descriptor q e d = (dma_ok_result (length d), ?adv q, e')"
      using True sm e'(1) len room by (simp add: DescriptorRing_push_descriptor_def Let_def)
    moreover have "ring_inv (?adv q, e') \<and> ring_contents (?adv q, e') = ring_contents (q, e) @ [d]"
      by (rule ring_push_update [OF inv room])
        (use True sm e' len sa in \<open>simp_all add: slot_content_def slots_mapped_def Let_def\<close>)
    ultimately show ?thesis by blast
  next
    case False
    then have st: "length (ring_storage q) = descriptor_size (ring_config q) * ?n" using inv by simp
    let ?q = "?adv (q\<lparr>ring_storage := memcpy_at (slot_offset q ?p) d (ring_storage q)\<rparr>)"
    have "DescriptorRing_push_descriptor q e d = (dma_ok_result (length d), ?q, e)"
      using False room len by (simp add: DescriptorRing_push_descriptor_def Let_def)
    moreover have "ring_inv (?q, e) \<and> ring_contents (?q, e) = ring_contents (q, e) @ [d]"
      by (rule ring_push_update [OF inv room])
        (use False storage_slot_write [OF st p len] in \<open>simp_all add: slot_content_def slot_offset_def Let_def\<close>)
    ultimately show ?thesis by blast
  qed
qed

lemma ring_pop_cases:
  assumes inv: "ring_inv (q, e)" and len: "length buf = descriptor_size (ring_config q)"
    and some: "\<not> DescriptorRing_is_empty q"
  shows "\<exists>d q' e'. DescriptorRing_pop_descriptor q e buf = (dma_ok_result (length buf), d, q', e')
    \<and> ring_inv (q', e') \<and> ring_contents (q, e) = d # ring_contents (q', e')"
proof -
  let ?n = "ring_size (ring_config q)" and ?c = "consumer_index q" and ?s = "descriptor_size (ring_config q)"
  let ?q = "q\<lparr>consumer_index := ring_next ?n ?c, ring_count := ring_count q - 1\<rparr>"
  note ix = ring_inv_indices [OF inv]
  have k: "ring_count q \<noteq> 0" "0 < unat (ring_count q)"
    using some by (auto simp: DescriptorRing_is_empty_def unat_gt_0)
  then have c: "unat ?c < ?n" "?n < 2 ^ 32" using ix by (auto simp: indices_ok_def)
  note ix' = indices_ok_pop [OF ix k(1)]
  have sc: "slot_content ?q = slot_content q" "slots_mapped ?q = slots_mapped q"
    by (auto simp: fun_eq_iff slot_content_def slots_mapped_def slot_address_def slot_span_def Let_def)
  have head: "ring_contents (q, e) = slot_content q e (unat ?c) # ring_contents (?q, e)"
    using ring_list_pop [OF k(2), of "slot_content q e" ?n "unat ?c"] c ix' sc by simp
  have inv': "ring_inv (?q, e)" using inv ix' sc by simp
  show ?thesis
  proof (cases "host_backed (ring_config q)")
    case True
    then have sm: "slots_mapped q e" "has_dma q" using inv by auto
    then have "mem_rd (dma_memory e) (slot_address q ?c) ?s \<noteq> None"
      using c(1) shm.rd_span [of "dma_memory e" "slot_address q ?c" ?s]
      by (force simp: slots_mapped_def slot_span_def)
    then obtain e' where e': "DMAEngine_read e (slot_address q ?c) buf
        = (dma_ok_result ?s, slot_content q e (unat ?c), e')" "dma_memory e' = dma_memory e"
      using True len by (cases rule: shm_read_cases [of "dma_memory e" "slot_address q ?c" buf])
        (auto simp: DMAEngine_read_def DMAEngine_map_result_def Let_def slot_content_def)
    have "slot_content ?q e' = slot_content ?q e" "slots_mapped ?q e' = slots_mapped ?q e"
      using e'(2) by (auto simp: fun_eq_iff slot_content_def slots_mapped_def slot_span_def Let_def)
    then have "ring_inv (?q, e') \<and> ring_contents (?q, e') = ring_contents (?q, e)"
      using inv' by (auto split: if_splits)
    then show ?thesis
      using True sm e' len some head by (auto simp: DescriptorRing_pop_descriptor_def Let_def)
  next
    case False
    then show ?thesis
      using len some head inv'
      by (auto simp: DescriptorRing_pop_descriptor_def Let_def slot_content_def slot_offset_def)
  qed
qed

lemma ring_push_full:
  "DescriptorRing_is_full q \<Longrightarrow> \<not> DmaResult_ok (fst (DescriptorRing_push_descriptor q e d))
     \<and> snd (DescriptorRing_push_descriptor q e d) = (q, e)"
  by (simp add: DescriptorRing_push_descriptor_def Let_def)

lemma ring_pop_empty:
  "DescriptorRing_is_empty q \<Longrightarrow> \<not> DmaResult_ok (fst (DescriptorRing_pop_descriptor q e buf))
     \<and> snd (DescriptorRing_pop_descriptor q e buf) = (buf, q, e)"
  by (simp add: DescriptorRing_pop_descriptor_def Let_def)

lemma ring_push_config [nic_frame]:
  "DescriptorRing_push_descriptor q e d = (r, q', e') \<Longrightarrow> ring_config q' = ring_config q"
  by (auto simp: DescriptorRing_push_descriptor_def Let_def split: if_splits prod.splits)

lemma ring_pop_config [nic_frame]:
  "DescriptorRing_pop_descriptor q e d = (r, b, q', e') \<Longrightarrow> ring_config q' = ring_config q"
  by (auto simp: DescriptorRing_pop_descriptor_def Let_def split: if_splits prod.splits)

lemma ring_full_iff: "ring_inv s \<Longrightarrow> DescriptorRing_is_full (fst s) = (\<not> length (ring_contents s) < ring_capacity s)"
  by (cases s) (auto simp: DescriptorRing_is_full_def indices_ok_def)

lemma ring_empty_iff: "DescriptorRing_is_empty (fst s) = (ring_contents s = [])"
  by (cases s) (auto simp: DescriptorRing_is_empty_def unat_eq_zero simp flip: length_0_conv)

lemma ring_enq_frame:
  "ring_capacity (snd (ring_enq s d)) = ring_capacity s \<and> ring_elem_ok (snd (ring_enq s d)) = ring_elem_ok s"
  by (cases s) (auto simp: fun_eq_iff Let_def dest: ring_push_config split: prod.splits)

lemma ring_deq_frame:
  "ring_capacity (snd (ring_deq s)) = ring_capacity s \<and> ring_elem_ok (snd (ring_deq s)) = ring_elem_ok s"
  by (cases s) (auto simp: fun_eq_iff Let_def dest: ring_pop_config split: prod.splits)

lemma ring_enq_cases:
  assumes "ring_inv s" "ring_elem_ok s d"
  shows "ring_inv (snd (ring_enq s d)) \<and>
    (length (ring_contents s) < ring_capacity s \<longrightarrow>
       fst (ring_enq s d) \<and> ring_contents (snd (ring_enq s d)) = ring_contents s @ [d])"
proof -
  obtain q e where s: "s = (q, e)" by fastforce
  show ?thesis
  proof (cases "DescriptorRing_is_full q")
    case True
    then show ?thesis
      using ring_full_iff [OF assms(1)] ring_push_full [OF True, of e d] s assms(1)
      by (auto simp: Let_def simp del: ring_contents.simps ring_inv.simps split: prod.splits)
  next
    case False
    then show ?thesis
      using ring_push_cases [of q e d] assms s
      by (auto simp: Let_def simp del: ring_contents.simps ring_inv.simps)
  qed
qed

lemma ring_deq_cases:
  assumes "ring_inv s"
  shows "ring_inv (snd (ring_deq s)) \<and>
    (case ring_contents s of [] \<Rightarrow> ring_deq s = (None, s)
     | x # xs \<Rightarrow> fst (ring_deq s) = Some x \<and> ring_contents (snd (ring_deq s)) = xs)"
proof -
  obtain q e where s: "s = (q, e)" by fastforce
  let ?buf = "replicate (descriptor_size (ring_config q)) (0 :: byte)"
  show ?thesis
  proof (cases "DescriptorRing_is_empty q")
    case True
    then show ?thesis
      using ring_empty_iff [of s] ring_pop_empty [OF True, of e ?buf] s assms
      by (auto simp: Let_def simp del: ring_contents.simps ring_inv.simps split: prod.splits)
  next
    case False
    then show ?thesis
      using ring_pop_cases [of q e ?buf] assms s
      by (auto simp: Let_def simp del: ring_contents.simps ring_inv.simps)
  qed
qed

interpretation dring: bounded_fifo ring_enq ring_deq ring_contents ring_capacity ring_elem_ok ring_inv
proof unfold_locales
  fix s :: "DescriptorRing \<times> DMAEngine" and x and xs
  assume inv: "ring_inv s"
  note deq = ring_deq_cases [OF inv]
  show "ring_inv (snd (ring_deq s))" using deq by blast
  show "length (ring_contents s) \<le> ring_capacity s"
    using inv by (cases s) (auto simp: indices_ok_def)
  show "ring_elem_ok s x \<Longrightarrow> ring_inv (snd (ring_enq s x))"
    and "ring_elem_ok s x \<Longrightarrow> length (ring_contents s) < ring_capacity s \<Longrightarrow>
      fst (ring_enq s x) \<and> ring_contents (snd (ring_enq s x)) = ring_contents s @ [x]"
    using ring_enq_cases [OF inv] by blast+
  show "\<not> fst (ring_enq s x) \<and> ring_contents (snd (ring_enq s x)) = ring_contents s"
    if "\<not> length (ring_contents s) < ring_capacity s"
    using that ring_full_iff [OF inv] ring_push_full [of "fst s" "snd s" x]
    by (cases s) (auto simp: Let_def split: prod.splits)
  show "ring_contents s = [] \<Longrightarrow> fst (ring_deq s) = None \<and> ring_contents (snd (ring_deq s)) = []"
    and "ring_contents s = x # xs \<Longrightarrow> fst (ring_deq s) = Some x \<and> ring_contents (snd (ring_deq s)) = xs"
    using deq by auto
qed (use ring_enq_frame ring_deq_frame in blast)+

section \<open>Properties\<close>

text \<open>C3: over any sequence of pushes of full-size descriptors and pops, a descriptor ring (in the model's
  storage or in host memory) hands out descriptors in the order it accepted them: what was popped,
  followed by what is still in the ring, is what was in the ring followed by what was accepted. The ring
  behaves as the abstract bounded queue, and never holds more than its size.\<close>

theorem descriptor_ring_fifo:
  assumes "ring_inv (q, e)" and "\<forall>op \<in> set ops. op_ok (\<lambda>d. length d = descriptor_size (ring_config q)) op"
    and "fifo_run ring_enq ring_deq (q, e) ops = (accepted, popped, s')"
  shows "popped @ ring_contents s' = ring_contents (q, e) @ accepted
    \<and> spec_run (ring_size (ring_config q)) (ring_contents (q, e)) ops = (accepted, popped, ring_contents s')
    \<and> length (ring_contents s') \<le> ring_size (ring_config q)"
proof -
  have ok: "\<forall>op \<in> set ops. op_ok (ring_elem_ok (q, e)) op"
    using assms(2) by (metis (mono_tags, lifting) op_ok.elims(3) op_ok.simps(1) ring_elem_ok.simps)
  show ?thesis
    using dring.run_order [OF assms(1) ok assms(3)] dring.run_refines [OF assms(1) ok assms(3)]
      dring.run_bounded [OF assms(1) ok assms(3)] by simp
qed

abbreviation demo_ring :: DescriptorRing where
  "demo_ring \<equiv> DescriptorRing_new \<lparr>descriptor_size = 1, ring_size = 2, base_address = 0,
     ring_queue_id = 0, host_backed = False\<rparr> True None"

theorem descriptor_ring_fifo_witness:
  "\<exists>accepted popped s'. fifo_run ring_enq ring_deq (demo_ring, demo_engine) [Enq [7], Enq [8], Enq [9], Deq]
     = (accepted, popped, s') \<and> popped @ ring_contents s' = accepted"
proof -
  let ?ops = "[Enq [7], Enq [8], Enq [9], Deq] :: bytes fifo_op list"
  have inv: "ring_inv (demo_ring, demo_engine)"
    by (simp add: DescriptorRing_new_def)
  obtain a p s' where r: "fifo_run ring_enq ring_deq (demo_ring, demo_engine) ?ops = (a, p, s')"
    by (metis prod_cases3)
  show ?thesis
    using descriptor_ring_fifo [OF inv _ r] r by (simp add: DescriptorRing_new_def)
qed

text \<open>Over any sequence of posts and polls the completion queue is the abstract bounded queue:
  completions come out in the order they were accepted, a post is refused exactly when the queue is
  full, and a poll returns nothing exactly when it is empty.\<close>

theorem completion_queue_fifo:
  assumes "cq_inv q"
    and "fifo_run CompletionQueue_post_completion CompletionQueue_poll_completion q ops = (accepted, polled, q')"
  shows "spec_run (cq_ring_size (cq_config q)) (cq_contents q) ops = (accepted, polled, cq_contents q')
    \<and> polled @ cq_contents q' = cq_contents q @ accepted"
proof -
  have ok: "\<forall>op \<in> set ops. op_ok (\<lambda>_. True) op"
    by (metis op_ok.elims(3))
  show ?thesis
    using cq.run_refines [OF assms(1) ok assms(2)] cq.run_order [OF assms(1) ok assms(2)] by simp
qed

theorem completion_queue_fifo_witness:
  "\<exists>q'. fifo_run CompletionQueue_post_completion CompletionQueue_poll_completion
       (CompletionQueue_new \<lparr>cq_ring_size = 1, cq_queue_id = 0\<rparr> None)
       [Enq CompletionEntry_default, Enq CompletionEntry_default, Deq]
     = ([CompletionEntry_default], [CompletionEntry_default], q')"
proof -
  let ?q = "CompletionQueue_new \<lparr>cq_ring_size = 1, cq_queue_id = 0\<rparr> None"
  let ?ops = "[Enq CompletionEntry_default, Enq CompletionEntry_default, Deq]"
  obtain a p q' where r: "fifo_run CompletionQueue_post_completion CompletionQueue_poll_completion ?q ?ops = (a, p, q')"
    by (metis prod_cases3)
  have "cq_inv ?q" by (simp add: cq_inv_new)
  from completion_queue_fifo [OF this r]
  have "a = [CompletionEntry_default]" "p = [CompletionEntry_default]"
    by (auto simp: CompletionQueue_new_def cq_contents_def)
  with r show ?thesis by blast
qed

end
