(* ===== verification/Nic_Interrupts.thy ===== *)
theory Nic_Interrupts
  imports Nic_Rings
begin

text \<open>
  MSI-X tables and queue-to-vector mappings (\<^verbatim>\<open>msix.h/.cpp\<close>) and the interrupt dispatcher with
  coalescing, timers and adaptive moderation (\<^verbatim>\<open>interrupt_dispatcher.h/.cpp\<close>). Calls to the delivery
  callback are recorded in order in \<open>deliver_log\<close>. The theory shows that no completion is lost or
  signalled twice by coalescing, that a masked or disabled vector is never signalled, and that the
  adaptive threshold stays within its configured range.
\<close>

section \<open>MSI-X\<close>

record MsixVector =
  vec_address :: u64
  vec_data :: u32
  vec_enabled :: bool
  vec_masked :: bool

definition MsixVector_default :: MsixVector where
  "MsixVector_default = \<lparr>vec_address = 0, vec_data = 0, vec_enabled = True, vec_masked = False\<rparr>"

type_synonym MsixTable = "MsixVector list"

definition MsixTable_new :: "nat \<Rightarrow> MsixTable" where
  "MsixTable_new count = replicate count MsixVector_default"

definition MsixTable_valid_index :: "MsixTable \<Rightarrow> nat \<Rightarrow> bool" where
  "MsixTable_valid_index t idx \<longleftrightarrow> idx < length t"

definition MsixTable_set_vector :: "MsixTable \<Rightarrow> nat \<Rightarrow> MsixVector \<Rightarrow> bool \<times> MsixTable" where
  "MsixTable_set_vector t idx vec =
     (if \<not> MsixTable_valid_index t idx then (False, t) else (True, t[idx := vec]))"

definition MsixTable_vector :: "MsixTable \<Rightarrow> nat \<Rightarrow> MsixVector option" where
  "MsixTable_vector t idx = (if \<not> MsixTable_valid_index t idx then None else Some (t ! idx))"

definition MsixTable_mask :: "MsixTable \<Rightarrow> nat \<Rightarrow> bool \<Rightarrow> bool \<times> MsixTable" where
  "MsixTable_mask t idx masked =
     (if \<not> MsixTable_valid_index t idx then (False, t)
      else (True, t[idx := (t ! idx)\<lparr>vec_masked := masked\<rparr>]))"

definition MsixTable_enable :: "MsixTable \<Rightarrow> nat \<Rightarrow> bool \<Rightarrow> bool \<times> MsixTable" where
  "MsixTable_enable t idx enabled =
     (if \<not> MsixTable_valid_index t idx then (False, t)
      else (True, t[idx := (t ! idx)\<lparr>vec_enabled := enabled\<rparr>]))"

record MsixMapping =
  admin_vector :: u16
  default_vector :: u16
  queue_vectors :: "u16 list"

definition MsixMapping_new :: "nat \<Rightarrow> u16 \<Rightarrow> MsixMapping" where
  "MsixMapping_new queue_count dflt =
     \<lparr>admin_vector = dflt, default_vector = dflt, queue_vectors = replicate queue_count dflt\<rparr>"

definition MsixMapping_set_queue_vector :: "MsixMapping \<Rightarrow> nat \<Rightarrow> u16 \<Rightarrow> bool \<times> MsixMapping" where
  "MsixMapping_set_queue_vector m queue_id vec =
     (if queue_id \<ge> length (queue_vectors m) then (False, m)
      else (True, m\<lparr>queue_vectors := (queue_vectors m)[queue_id := vec]\<rparr>))"

definition MsixMapping_queue_vector :: "MsixMapping \<Rightarrow> nat \<Rightarrow> u16" where
  "MsixMapping_queue_vector m queue_id =
     (if queue_id \<ge> length (queue_vectors m) then default_vector m else queue_vectors m ! queue_id)"

definition MsixMapping_set_admin_vector :: "MsixMapping \<Rightarrow> u16 \<Rightarrow> MsixMapping" where
  "MsixMapping_set_admin_vector m vec = m\<lparr>admin_vector := vec\<rparr>"

section \<open>The dispatcher's state\<close>

record CoalesceConfig =
  packet_threshold :: u32
  timer_threshold_us :: u32

record AdaptiveConfig =
  ad_enabled :: bool
  min_threshold :: u32
  max_threshold :: u32
  low_batch_size :: u32
  high_batch_size :: u32
  sample_interval :: u32

definition AdaptiveConfig_default :: AdaptiveConfig where
  "AdaptiveConfig_default = \<lparr>ad_enabled = False, min_threshold = 1, max_threshold = 64,
     low_batch_size = 4, high_batch_size = 16, sample_interval = 100\<rparr>"

record InterruptStats =
  interrupts_fired :: u64
  coalesced_batches :: u64
  suppressed_masked :: u64
  suppressed_disabled :: u64
  manual_flushes :: u64
  timer_flushes :: u64
  per_vector_fired :: "(u16 \<times> u64) list"
  per_vector_suppressed_masked :: "(u16 \<times> u64) list"
  per_vector_suppressed_disabled :: "(u16 \<times> u64) list"

definition InterruptStats_zero :: InterruptStats where
  "InterruptStats_zero = \<lparr>interrupts_fired = 0, coalesced_batches = 0, suppressed_masked = 0,
     suppressed_disabled = 0, manual_flushes = 0, timer_flushes = 0, per_vector_fired = [],
     per_vector_suppressed_masked = [], per_vector_suppressed_disabled = []\<rparr>"

record AdaptiveState =
  interrupt_count :: u32
  total_batch_size :: u64
  current_threshold :: u32

definition AdaptiveState_default :: AdaptiveState where
  "AdaptiveState_default = \<lparr>interrupt_count = 0, total_batch_size = 0, current_threshold = 1\<rparr>"

record InterruptDispatcher =
  id_table :: MsixTable
  id_mapping :: MsixMapping
  id_coalesce :: CoalesceConfig
  id_adaptive :: AdaptiveConfig
  has_deliver :: bool
  deliver_log :: "(u16 \<times> u32) list"
  id_stats :: InterruptStats
  pending_counts :: "(u16 \<times> u32) list"
  pending_time_us :: "(u16 \<times> u32) list"
  per_queue_coalesce :: "(u16 \<times> CoalesceConfig) list"
  adaptive_state :: "(u16 \<times> AdaptiveState) list"

record InterruptEvent =
  ev_queue_id :: u16
  ev_completion :: CompletionEntry

text \<open>\<^verbatim>\<open>map[k] += 1\<close>, where a missing key starts at 0.\<close>

definition um_incr :: "'k \<Rightarrow> ('k \<times> 'n :: len word) list \<Rightarrow> ('k \<times> 'n word) list" where
  "um_incr k m = um_update k ((case um_lookup m k of None \<Rightarrow> 0 | Some n \<Rightarrow> n) + 1) m"

section \<open>The dispatcher's operations\<close>

definition InterruptDispatcher_new ::
  "MsixTable \<Rightarrow> MsixMapping \<Rightarrow> CoalesceConfig \<Rightarrow> bool \<Rightarrow> InterruptDispatcher" where
  "InterruptDispatcher_new table mapping config deliver =
     \<lparr>id_table = table, id_mapping = mapping, id_coalesce = config, id_adaptive = AdaptiveConfig_default,
      has_deliver = deliver, deliver_log = [], id_stats = InterruptStats_zero, pending_counts = [],
      pending_time_us = [], per_queue_coalesce = [], adaptive_state = []\<rparr>"

definition resolve_vector :: "InterruptDispatcher \<Rightarrow> u16 \<Rightarrow> u16 option" where
  "resolve_vector d queue_id = Some (MsixMapping_queue_vector (id_mapping d) (unat queue_id))"

definition get_coalesce_config :: "InterruptDispatcher \<Rightarrow> u16 \<Rightarrow> CoalesceConfig" where
  "get_coalesce_config d queue_id =
     (case um_lookup (per_queue_coalesce d) queue_id of Some c \<Rightarrow> c | None \<Rightarrow> id_coalesce d)"

definition adapt_threshold :: "AdaptiveConfig \<Rightarrow> AdaptiveState \<Rightarrow> u32 \<Rightarrow> AdaptiveState" where
  "adapt_threshold cfg st0 batch_size =
     (let st = st0\<lparr>interrupt_count := interrupt_count st0 + 1,
                   total_batch_size := total_batch_size st0 + ucast batch_size\<rparr> in
      if interrupt_count st < sample_interval cfg then st
      else
        let avg_batch = (ucast (total_batch_size st div ucast (interrupt_count st)) :: u32);
            t = current_threshold st;
            t' = (if avg_batch \<ge> high_batch_size cfg \<and> t < max_threshold cfg
                  then min (t + 1) (max_threshold cfg)
                  else if avg_batch \<le> low_batch_size cfg \<and> t > min_threshold cfg
                  then max (t - 1) (min_threshold cfg)
                  else t)
        in \<lparr>interrupt_count = 0, total_batch_size = 0, current_threshold = t'\<rparr>)"

definition update_adaptive_threshold :: "InterruptDispatcher \<Rightarrow> u16 \<Rightarrow> u32 \<Rightarrow> InterruptDispatcher" where
  "update_adaptive_threshold d vector_id batch_size =
     (if \<not> ad_enabled (id_adaptive d) then d
      else
        let st = (case um_lookup (adaptive_state d) vector_id of
                    Some st \<Rightarrow> st | None \<Rightarrow> AdaptiveState_default)
        in d\<lparr>adaptive_state :=
               um_update vector_id (adapt_threshold (id_adaptive d) st batch_size) (adaptive_state d)\<rparr>)"

definition suppress_disabled :: "InterruptDispatcher \<Rightarrow> u16 \<Rightarrow> InterruptDispatcher" where
  "suppress_disabled d v = d\<lparr>id_stats := (id_stats d)
     \<lparr>suppressed_disabled := suppressed_disabled (id_stats d) + 1,
      per_vector_suppressed_disabled := um_incr v (per_vector_suppressed_disabled (id_stats d))\<rparr>\<rparr>"

definition suppress_masked :: "InterruptDispatcher \<Rightarrow> u16 \<Rightarrow> InterruptDispatcher" where
  "suppress_masked d v = d\<lparr>id_stats := (id_stats d)
     \<lparr>suppressed_masked := suppressed_masked (id_stats d) + 1,
      per_vector_suppressed_masked := um_incr v (per_vector_suppressed_masked (id_stats d))\<rparr>\<rparr>"

text \<open>The tail of \<^verbatim>\<open>try_fire\<close>, for a vector that is enabled and not masked.\<close>

definition fire_vector :: "InterruptDispatcher \<Rightarrow> u16 \<Rightarrow> InterruptDispatcher" where
  "fire_vector d v =
     (let pend = (case um_lookup (pending_counts d) v of None \<Rightarrow> 0 | Some n \<Rightarrow> n);
          d1 = d\<lparr>pending_counts := um_erase v (pending_counts d)\<rparr>;
          batch = (if pend = 0 then 1 else pend);
          d2 = (if pend = 0 then d1
                else d1\<lparr>id_stats := (id_stats d1)\<lparr>coalesced_batches := coalesced_batches (id_stats d1) + 1\<rparr>\<rparr>);
          d3 = update_adaptive_threshold d2 v batch;
          d4 = (if has_deliver d3 then d3\<lparr>deliver_log := deliver_log d3 @ [(v, batch)]\<rparr> else d3)
      in d4\<lparr>id_stats := (id_stats d4)\<lparr>interrupts_fired := interrupts_fired (id_stats d4) + 1,
             per_vector_fired := um_incr v (per_vector_fired (id_stats d4))\<rparr>\<rparr>)"

definition InterruptDispatcher_try_fire :: "InterruptDispatcher \<Rightarrow> u16 \<Rightarrow> InterruptDispatcher" where
  "InterruptDispatcher_try_fire d v =
     (if \<not> MsixTable_valid_index (id_table d) (unat v) then d
      else case MsixTable_vector (id_table d) (unat v) of
        None \<Rightarrow> d
      | Some vec \<Rightarrow>
          if \<not> vec_enabled vec then suppress_disabled d v
          else if vec_masked vec then suppress_masked d v
          else fire_vector d v)"

text \<open>The first completion of a vector under adaptive moderation creates its state with the static threshold;
  the comparison of that call uses the static threshold too.\<close>

definition InterruptDispatcher_on_completion ::
  "InterruptDispatcher \<Rightarrow> InterruptEvent \<Rightarrow> bool \<times> InterruptDispatcher" where
  "InterruptDispatcher_on_completion d ev =
     (case resolve_vector d (ev_queue_id ev) of None \<Rightarrow> (False, d) | Some v \<Rightarrow>
      (case MsixTable_vector (id_table d) (unat v) of None \<Rightarrow> (False, d) | Some vec \<Rightarrow>
       if \<not> vec_enabled vec then (False, suppress_disabled d v)
       else if vec_masked vec then (False, suppress_masked d v)
       else
         let cfg = get_coalesce_config d (ev_queue_id ev);
             cnt = (case um_lookup (pending_counts d) v of None \<Rightarrow> 0 | Some n \<Rightarrow> n) + 1;
             d1 = d\<lparr>pending_counts := um_update v cnt (pending_counts d),
                    pending_time_us := um_update v 0 (pending_time_us d)\<rparr>;
             (threshold, d2) =
               (if ad_enabled (id_adaptive d1) then
                  (case um_lookup (adaptive_state d1) v of
                     Some st \<Rightarrow> (current_threshold st, d1)
                   | None \<Rightarrow> (packet_threshold cfg,
                       d1\<lparr>adaptive_state := um_update v
                         (AdaptiveState_default\<lparr>current_threshold := packet_threshold cfg\<rparr>) (adaptive_state d1)\<rparr>))
                else (packet_threshold cfg, d1))
         in if cnt \<ge> threshold
            then (let d3 = InterruptDispatcher_try_fire d2 v
                  in (True, d3\<lparr>pending_time_us := um_erase v (pending_time_us d3)\<rparr>))
            else (True, d2)))"

definition flush_vector :: "u16 \<Rightarrow> InterruptDispatcher \<Rightarrow> InterruptDispatcher" where
  "flush_vector v d =
     (let d' = InterruptDispatcher_try_fire d v in d'\<lparr>pending_time_us := um_erase v (pending_time_us d')\<rparr>)"

definition InterruptDispatcher_flush :: "InterruptDispatcher \<Rightarrow> u16 option \<Rightarrow> InterruptDispatcher" where
  "InterruptDispatcher_flush d vector_id =
     (let d' = (case vector_id of
                  Some v \<Rightarrow> flush_vector v d
                | None \<Rightarrow> fold flush_vector (map fst (pending_counts d)) d)
      in d'\<lparr>id_stats := (id_stats d')\<lparr>manual_flushes := manual_flushes (id_stats d') + 1\<rparr>\<rparr>)"

text \<open>The loop over \<^verbatim>\<open>pending_time_us_\<close>; firing does not touch that map, so its entries are passed and the
  kept ones returned.\<close>

fun timer_loop :: "InterruptDispatcher \<Rightarrow> u32 \<Rightarrow> (u16 \<times> u32) list \<Rightarrow> InterruptDispatcher \<times> (u16 \<times> u32) list" where
  "timer_loop d elapsed_us [] = (d, [])"
| "timer_loop d elapsed_us ((v, t) # rest) =
     (if t + elapsed_us \<ge> timer_threshold_us (id_coalesce d)
      then
        let d1 = InterruptDispatcher_try_fire d v
        in timer_loop (d1\<lparr>id_stats := (id_stats d1)\<lparr>timer_flushes := timer_flushes (id_stats d1) + 1\<rparr>\<rparr>)
             elapsed_us rest
      else
        let (d', kept) = timer_loop d elapsed_us rest in (d', (v, t + elapsed_us) # kept))"

definition try_emplace_all :: "(u16 \<times> u32) list \<Rightarrow> (u16 \<times> u32) list \<Rightarrow> (u16 \<times> u32) list" where
  "try_emplace_all counts timers =
     fold (\<lambda>(v, _) m. if um_lookup m v = None then um_update v 0 m else m) counts timers"

definition InterruptDispatcher_on_timer_tick :: "InterruptDispatcher \<Rightarrow> u32 \<Rightarrow> InterruptDispatcher" where
  "InterruptDispatcher_on_timer_tick d elapsed_us =
     (if timer_threshold_us (id_coalesce d) = 0 \<or> pending_counts d = [] then d
      else
        let (d', kept) = timer_loop d elapsed_us (try_emplace_all (pending_counts d) (pending_time_us d))
        in d'\<lparr>pending_time_us := kept\<rparr>)"

definition InterruptDispatcher_set_queue_vector ::
  "InterruptDispatcher \<Rightarrow> u16 \<Rightarrow> u16 \<Rightarrow> bool \<times> InterruptDispatcher" where
  "InterruptDispatcher_set_queue_vector d queue_id vector_id =
     (let (ok, m) = MsixMapping_set_queue_vector (id_mapping d) (unat queue_id) vector_id
      in (ok, d\<lparr>id_mapping := m\<rparr>))"

definition InterruptDispatcher_mask_vector ::
  "InterruptDispatcher \<Rightarrow> u16 \<Rightarrow> bool \<Rightarrow> bool \<times> InterruptDispatcher" where
  "InterruptDispatcher_mask_vector d vector_id masked =
     (let (ok, t) = MsixTable_mask (id_table d) (unat vector_id) masked in (ok, d\<lparr>id_table := t\<rparr>))"

definition InterruptDispatcher_enable_vector ::
  "InterruptDispatcher \<Rightarrow> u16 \<Rightarrow> bool \<Rightarrow> bool \<times> InterruptDispatcher" where
  "InterruptDispatcher_enable_vector d vector_id enabled =
     (let (ok, t) = MsixTable_enable (id_table d) (unat vector_id) enabled in (ok, d\<lparr>id_table := t\<rparr>))"

definition InterruptDispatcher_set_queue_coalesce_config ::
  "InterruptDispatcher \<Rightarrow> u16 \<Rightarrow> CoalesceConfig \<Rightarrow> bool \<times> InterruptDispatcher" where
  "InterruptDispatcher_set_queue_coalesce_config d queue_id config =
     (True, d\<lparr>per_queue_coalesce := um_update queue_id config (per_queue_coalesce d)\<rparr>)"

definition InterruptDispatcher_queue_coalesce_config ::
  "InterruptDispatcher \<Rightarrow> u16 \<Rightarrow> CoalesceConfig option" where
  "InterruptDispatcher_queue_coalesce_config d queue_id = um_lookup (per_queue_coalesce d) queue_id"

definition InterruptDispatcher_clear_queue_coalesce_config ::
  "InterruptDispatcher \<Rightarrow> u16 \<Rightarrow> InterruptDispatcher" where
  "InterruptDispatcher_clear_queue_coalesce_config d queue_id =
     d\<lparr>per_queue_coalesce := um_erase queue_id (per_queue_coalesce d)\<rparr>"

definition InterruptDispatcher_set_adaptive_config ::
  "InterruptDispatcher \<Rightarrow> AdaptiveConfig \<Rightarrow> InterruptDispatcher" where
  "InterruptDispatcher_set_adaptive_config d config =
     (let d' = d\<lparr>id_adaptive := config\<rparr> in
      if ad_enabled config
      then d'\<lparr>adaptive_state := map (\<lambda>(v, _). (v, \<lparr>interrupt_count = 0, total_batch_size = 0,
              current_threshold = packet_threshold (id_coalesce d)\<rparr>)) (adaptive_state d')\<rparr>
      else d')"

section \<open>Runs\<close>

text \<open>Every call the dispatcher's clients can make, and what a call owes: the vectors for which it
  accepts a completion, and a vector with nothing pending that an explicit flush signals anyway.\<close>

datatype int_op = IntCompletion InterruptEvent | IntFlush "u16 option" | IntTick u32
  | IntMask u16 bool | IntEnable u16 bool | IntMapQueue u16 u16
  | IntCoalesce u16 CoalesceConfig | IntClearCoalesce u16 | IntAdaptive AdaptiveConfig

fun int_step :: "InterruptDispatcher \<Rightarrow> int_op \<Rightarrow> InterruptDispatcher" where
  "int_step d (IntCompletion ev) = snd (InterruptDispatcher_on_completion d ev)"
| "int_step d (IntFlush v) = InterruptDispatcher_flush d v"
| "int_step d (IntTick us) = InterruptDispatcher_on_timer_tick d us"
| "int_step d (IntMask v b) = snd (InterruptDispatcher_mask_vector d v b)"
| "int_step d (IntEnable v b) = snd (InterruptDispatcher_enable_vector d v b)"
| "int_step d (IntMapQueue q v) = snd (InterruptDispatcher_set_queue_vector d q v)"
| "int_step d (IntCoalesce q c) = snd (InterruptDispatcher_set_queue_coalesce_config d q c)"
| "int_step d (IntClearCoalesce q) = InterruptDispatcher_clear_queue_coalesce_config d q"
| "int_step d (IntAdaptive c) = InterruptDispatcher_set_adaptive_config d c"

definition fireable :: "InterruptDispatcher \<Rightarrow> u16 \<Rightarrow> bool" where
  "fireable d v \<longleftrightarrow> unat v < length (id_table d) \<and> vec_enabled (id_table d ! unat v)
     \<and> \<not> vec_masked (id_table d ! unat v)"

definition pend :: "InterruptDispatcher \<Rightarrow> u16 \<Rightarrow> nat" where
  "pend d v = (case um_lookup (pending_counts d) v of None \<Rightarrow> 0 | Some n \<Rightarrow> unat n)"

definition delivered :: "InterruptDispatcher \<Rightarrow> u16 \<Rightarrow> nat" where
  "delivered d v = sum_list (map (\<lambda>(w, b). if w = v then unat b else 0) (deliver_log d))"

fun op_credit :: "InterruptDispatcher \<Rightarrow> int_op \<Rightarrow> u16 list" where
  "op_credit d (IntCompletion ev) =
     (if fst (InterruptDispatcher_on_completion d ev)
      then [MsixMapping_queue_vector (id_mapping d) (unat (ev_queue_id ev))] else [])"
| "op_credit d (IntFlush (Some v)) = (if pend d v = 0 \<and> fireable d v then [v] else [])"
| "op_credit d _ = []"

fun int_run :: "InterruptDispatcher \<Rightarrow> int_op list \<Rightarrow> u16 list \<times> InterruptDispatcher" where
  "int_run d [] = ([], d)"
| "int_run d (op # ops) =
     (let (credits, d') = int_run (int_step d op) ops in (op_credit d op @ credits, d'))"

section \<open>Firing one vector\<close>

lemma update_adaptive_frame [simp, nic_frame]:
  "id_table (update_adaptive_threshold d v b) = id_table d"
  "id_coalesce (update_adaptive_threshold d v b) = id_coalesce d"
  "has_deliver (update_adaptive_threshold d v b) = has_deliver d"
  "deliver_log (update_adaptive_threshold d v b) = deliver_log d"
  "pending_counts (update_adaptive_threshold d v b) = pending_counts d"
  "pending_time_us (update_adaptive_threshold d v b) = pending_time_us d"
  by (simp_all add: update_adaptive_threshold_def Let_def)

lemma fire_vector_frame [simp, nic_frame]:
  "id_table (fire_vector d v) = id_table d"
  "id_coalesce (fire_vector d v) = id_coalesce d"
  "has_deliver (fire_vector d v) = has_deliver d"
  "pending_counts (fire_vector d v) = um_erase v (pending_counts d)"
  "pending_time_us (fire_vector d v) = pending_time_us d"
  "deliver_log (fire_vector d v) =
     (if has_deliver d then deliver_log d @ [(v, if pend d v = 0 then 1 else of_nat (pend d v))] else deliver_log d)"
  by (simp_all add: fire_vector_def Let_def pend_def unat_eq_zero split: option.splits)

lemma suppress_frame [simp, nic_frame]:
  "id_table (suppress_disabled d v) = id_table d" "id_table (suppress_masked d v) = id_table d"
  "id_coalesce (suppress_disabled d v) = id_coalesce d" "id_coalesce (suppress_masked d v) = id_coalesce d"
  "has_deliver (suppress_disabled d v) = has_deliver d" "has_deliver (suppress_masked d v) = has_deliver d"
  "deliver_log (suppress_disabled d v) = deliver_log d" "deliver_log (suppress_masked d v) = deliver_log d"
  "pending_counts (suppress_disabled d v) = pending_counts d"
  "pending_counts (suppress_masked d v) = pending_counts d"
  "pending_time_us (suppress_disabled d v) = pending_time_us d"
  "pending_time_us (suppress_masked d v) = pending_time_us d"
  by (simp_all add: suppress_disabled_def suppress_masked_def)

lemma try_fire_frame [simp, nic_frame]:
  "id_table (InterruptDispatcher_try_fire d v) = id_table d"
  "id_coalesce (InterruptDispatcher_try_fire d v) = id_coalesce d"
  "has_deliver (InterruptDispatcher_try_fire d v) = has_deliver d"
  "pending_time_us (InterruptDispatcher_try_fire d v) = pending_time_us d"
  by (simp_all add: InterruptDispatcher_try_fire_def MsixTable_vector_def)

lemma try_fire_effect:
  "pending_counts (InterruptDispatcher_try_fire d v) =
     (if fireable d v then um_erase v (pending_counts d) else pending_counts d)"
  "deliver_log (InterruptDispatcher_try_fire d v) =
     (if fireable d v then deliver_log (fire_vector d v) else deliver_log d)"
  by (auto simp: InterruptDispatcher_try_fire_def MsixTable_vector_def MsixTable_valid_index_def fireable_def)

lemma pend_less: "pend d v < 2 ^ 32"
  using unsigned_less [where 'a = nat and 'b = 32] by (auto simp: pend_def split: option.splits)

definition balance :: "InterruptDispatcher \<Rightarrow> u16 \<Rightarrow> nat" where
  "balance d v = delivered d v + pend d v"

lemma balance_cong:
  "deliver_log d = deliver_log d' \<Longrightarrow> pending_counts d = pending_counts d' \<Longrightarrow> balance d = balance d'"
  by (simp add: fun_eq_iff balance_def delivered_def pend_def)

lemma try_fire_balance:
  assumes "has_deliver d"
  shows "balance (InterruptDispatcher_try_fire d v) w =
    balance d w + (if w = v \<and> fireable d v \<and> pend d v = 0 then 1 else 0)"
proof (cases "fireable d v")
  case True
  have "pend (InterruptDispatcher_try_fire d v) w = (if w = v then 0 else pend d w)"
    using True by (simp add: pend_def try_fire_effect)
  moreover have "delivered (InterruptDispatcher_try_fire d v) w =
      delivered d w + (if w = v then if pend d v = 0 then 1 else pend d v else 0)"
    using True assms pend_less [of d v]
    by (auto simp: delivered_def try_fire_effect unat_of_nat take_bit_nat_eq_self)
  ultimately show ?thesis using True by (simp add: balance_def)
next
  case False
  then show ?thesis using balance_cong [of "InterruptDispatcher_try_fire d v" d]
    by (simp add: try_fire_effect)
qed

section \<open>The invariant\<close>

text \<open>Delivery is connected, a pending count is never 0, and only vectors with a pending count have a timer.\<close>

definition int_inv :: "InterruptDispatcher \<Rightarrow> bool" where
  "int_inv d \<longleftrightarrow> has_deliver d \<and> um_wf (pending_counts d) \<and> um_wf (pending_time_us d)
     \<and> (\<forall>v. um_lookup (pending_counts d) v \<noteq> Some 0)
     \<and> (\<forall>v. um_lookup (pending_time_us d) v \<noteq> None \<longrightarrow> um_lookup (pending_counts d) v \<noteq> None)"

lemma int_inv_pend: "int_inv d \<Longrightarrow> um_lookup (pending_counts d) v \<noteq> None \<longleftrightarrow> 0 < pend d v"
  by (auto simp: int_inv_def pend_def unat_gt_0 split: option.splits)

lemma flush_vector_inv: "int_inv d \<Longrightarrow> int_inv (flush_vector v d)"
  by (auto simp: int_inv_def flush_vector_def Let_def try_fire_effect)

lemma flush_vector_balance:
  "has_deliver d \<Longrightarrow> balance (flush_vector v d) w =
     balance d w + (if w = v \<and> fireable d v \<and> pend d v = 0 then 1 else 0)"
  using try_fire_balance [of d v w] balance_cong [of "flush_vector v d" "InterruptDispatcher_try_fire d v"]
  by (simp add: flush_vector_def Let_def)

lemma flush_vector_counts:
  "w \<noteq> v \<Longrightarrow> um_lookup (pending_counts (flush_vector v d)) w = um_lookup (pending_counts d) w"
  by (simp add: flush_vector_def Let_def try_fire_effect)

lemma flush_all_inv_balance:
  "int_inv d \<Longrightarrow> distinct vs \<Longrightarrow> \<forall>v \<in> set vs. um_lookup (pending_counts d) v \<noteq> None \<Longrightarrow>
     int_inv (fold flush_vector vs d) \<and> balance (fold flush_vector vs d) = balance d"
proof (induction vs arbitrary: d)
  case (Cons v vs)
  let ?d = "flush_vector v d"
  have "pend d v \<noteq> 0" using Cons.prems int_inv_pend by fastforce
  moreover have "has_deliver d" using Cons.prems(1) by (simp add: int_inv_def)
  ultimately have "balance ?d = balance d" by (auto simp: fun_eq_iff flush_vector_balance)
  moreover have "\<forall>w \<in> set vs. um_lookup (pending_counts ?d) w \<noteq> None"
    using Cons.prems by (metis distinct.simps(2) flush_vector_counts list.set_intros(2))
  ultimately show ?case
    using Cons.IH [of ?d] Cons.prems flush_vector_inv by simp
qed simp

lemma flush_inv [nic_inv]: "int_inv d \<Longrightarrow> int_inv (InterruptDispatcher_flush d v)"
  and flush_balance: "int_inv d \<Longrightarrow> balance (InterruptDispatcher_flush d v) w =
    balance d w + count_list (op_credit d (IntFlush v)) w"
proof -
  assume inv: "int_inv d"
  let ?d = "case v of Some v \<Rightarrow> flush_vector v d | None \<Rightarrow> fold flush_vector (map fst (pending_counts d)) d"
  have hd: "has_deliver d" "distinct (map fst (pending_counts d))"
    using inv by (auto simp: int_inv_def um_wf_def)
  have all: "int_inv (fold flush_vector (map fst (pending_counts d)) d)
      \<and> balance (fold flush_vector (map fst (pending_counts d)) d) = balance d"
    using flush_all_inv_balance [OF inv hd(2)] by (metis map_of_eq_None_iff set_map)
  have "int_inv ?d" using inv flush_vector_inv all by (simp split: option.splits)
  then show "int_inv (InterruptDispatcher_flush d v)"
    by (simp add: InterruptDispatcher_flush_def int_inv_def Let_def)
  have "balance (InterruptDispatcher_flush d v) = balance ?d"
    by (rule balance_cong) (simp_all add: InterruptDispatcher_flush_def Let_def)
  then show "balance (InterruptDispatcher_flush d v) w = balance d w + count_list (op_credit d (IntFlush v)) w"
    using all hd flush_vector_balance [OF hd(1)] by (auto split: option.splits)
qed

section \<open>The timer\<close>

lemma try_emplace_all_lookup:
  "um_lookup (try_emplace_all counts timers) v =
     (case um_lookup timers v of Some t \<Rightarrow> Some t | None \<Rightarrow> if v \<in> fst ` set counts then Some 0 else None)"
  unfolding try_emplace_all_def
  by (induction counts arbitrary: timers) (auto split: option.splits if_splits)

lemma try_emplace_all_wf: "um_wf timers \<Longrightarrow> um_wf (try_emplace_all counts timers)"
  unfolding try_emplace_all_def by (induction counts arbitrary: timers) auto

abbreviation timer_inv :: "InterruptDispatcher \<Rightarrow> (u16 \<times> u32) list \<Rightarrow> bool" where
  "timer_inv d timers \<equiv> int_inv (d\<lparr>pending_time_us := timers\<rparr>)"

lemma timer_inv_tail:
  assumes "timer_inv d ((v, t) # rest)"
  shows "timer_inv d rest" and "um_lookup rest v = None"
proof -
  show n: "um_lookup rest v = None"
    using assms by (simp add: int_inv_def um_wf_def map_of_eq_None_iff)
  have "um_lookup rest w \<noteq> None \<longrightarrow> um_lookup ((v, t) # rest) w \<noteq> None" for w by simp
  then show "timer_inv d rest"
    using assms unfolding int_inv_def by (auto simp: um_wf_def)
qed

lemma timer_inv_cons:
  assumes "timer_inv d rest" and "v \<notin> fst ` set rest" and "um_lookup (pending_counts d) v \<noteq> None"
  shows "timer_inv d ((v, t) # rest)"
  using assms unfolding int_inv_def by (auto simp: um_wf_def simp del: not_None_eq split: if_splits)

lemma timer_inv_fire:
  assumes "timer_inv d rest" and "um_lookup rest v = None"
    and "pending_counts d' = pending_counts (InterruptDispatcher_try_fire d v)" and "has_deliver d' = has_deliver d"
  shows "timer_inv d' rest"
proof -
  have "um_lookup rest w \<noteq> None \<longrightarrow> w \<noteq> v" for w using assms(2) by auto
  then show ?thesis
    using assms by (auto simp: int_inv_def try_fire_effect)
qed

lemma timer_loop_inv_balance:
  "timer_inv d timers \<Longrightarrow> timer_loop d us timers = (d', kept) \<Longrightarrow>
     timer_inv d' kept \<and> balance d' = balance d \<and> fst ` set kept \<subseteq> fst ` set timers
     \<and> (\<forall>w. w \<notin> fst ` set timers \<longrightarrow> um_lookup (pending_counts d') w = um_lookup (pending_counts d) w)"
proof (induction d us timers arbitrary: d' kept rule: timer_loop.induct)
  case (2 d us v t rest)
  have v: "v \<notin> fst ` set rest" using 2(3) by (auto simp: int_inv_def um_wf_def)
  have look: "um_lookup ((v, t) # rest) v \<noteq> None" by simp
  have counts: "um_lookup (pending_counts d) v \<noteq> None"
    using 2(3) look by (simp add: int_inv_def)
  have hd: "has_deliver d" and p: "pend d v \<noteq> 0"
    using 2(3) counts int_inv_pend [of "d\<lparr>pending_time_us := (v, t) # rest\<rparr>" v]
    by (auto simp: int_inv_def pend_def)
  show ?case
  proof (cases "t + us \<ge> timer_threshold_us (id_coalesce d)")
    case True
    let ?f = "InterruptDispatcher_try_fire d v"
    let ?d = "?f\<lparr>id_stats := (id_stats ?f)\<lparr>timer_flushes := timer_flushes (id_stats ?f) + 1\<rparr>\<rparr>"
    have bal: "balance ?d = balance d"
      using try_fire_balance [OF hd, of v] p balance_cong [of ?d ?f] by (auto simp: fun_eq_iff)
    have same: "w \<noteq> v \<Longrightarrow> um_lookup (pending_counts ?d) w = um_lookup (pending_counts d) w" for w
      by (simp add: try_fire_effect)
    have "timer_inv ?d rest"
      by (rule timer_inv_fire [OF timer_inv_tail [OF 2(3)], of ?d]) simp_all
    then show ?thesis
      using 2(1) [OF True refl, of d' kept] True 2(4) bal same v by (auto simp: Let_def)
  next
    case False
    obtain dr kr where r: "timer_loop d us rest = (dr, kr)" by fastforce
    have "timer_inv d rest" using timer_inv_tail [OF 2(3)] by blast
    then have ih: "timer_inv dr kr" "balance dr = balance d" "fst ` set kr \<subseteq> fst ` set rest"
      "\<forall>w. w \<notin> fst ` set rest \<longrightarrow> um_lookup (pending_counts dr) w = um_lookup (pending_counts d) w"
      using 2(2) [OF False _ r] by auto
    have "timer_inv dr ((v, t + us) # kr)"
      using ih v counts by (intro timer_inv_cons) auto
    moreover have "d' = dr" "kept = (v, t + us) # kr" using False r 2(4) by (auto simp: Let_def)
    ultimately show ?thesis using ih(2-4) by (simp only: list.set image_insert fst_conv insert_mono) simp
  qed
qed simp

lemma timer_tick_inv_balance:
  assumes "int_inv d"
  shows "int_inv (InterruptDispatcher_on_timer_tick d us)"
    and "balance (InterruptDispatcher_on_timer_tick d us) = balance d"
proof -
  let ?t = "try_emplace_all (pending_counts d) (pending_time_us d)"
  obtain d' kept where r: "timer_loop d us ?t = (d', kept)" by fastforce
  have "timer_inv d ?t"
    using assms by (auto simp: int_inv_def try_emplace_all_wf try_emplace_all_lookup map_of_eq_None_iff
        simp del: not_None_eq split: option.splits if_splits) (metis fst_conv image_eqI map_of_SomeD)
  from timer_loop_inv_balance [OF this r]
  have inv: "timer_inv d' kept" and bal: "balance d' = balance d" by auto
  show "int_inv (InterruptDispatcher_on_timer_tick d us)"
    using assms inv r by (simp add: InterruptDispatcher_on_timer_tick_def)
  have "balance (d'\<lparr>pending_time_us := kept\<rparr>) = balance d'" by (rule balance_cong) simp_all
  then show "balance (InterruptDispatcher_on_timer_tick d us) = balance d"
    using bal r by (simp add: InterruptDispatcher_on_timer_tick_def)
qed

section \<open>Completions\<close>

lemma on_completion_accepts:
  assumes "v = MsixMapping_queue_vector (id_mapping d) (unat (ev_queue_id ev))" and "fireable d v"
    and "cnt = (case um_lookup (pending_counts d) v of None \<Rightarrow> 0 | Some n \<Rightarrow> n) + 1"
  shows "\<exists>d2. InterruptDispatcher_on_completion d ev \<in> {(True, d2), (True, flush_vector v d2)}
    \<and> pending_counts d2 = um_update v cnt (pending_counts d)
    \<and> pending_time_us d2 = um_update v 0 (pending_time_us d)
    \<and> deliver_log d2 = deliver_log d \<and> has_deliver d2 = has_deliver d \<and> id_table d2 = id_table d"
proof -
  let ?cfg = "get_coalesce_config d (ev_queue_id ev)"
  let ?d1 = "d\<lparr>pending_counts := um_update v cnt (pending_counts d),
               pending_time_us := um_update v 0 (pending_time_us d)\<rparr>"
  define d2 where "d2 = (if ad_enabled (id_adaptive d) \<and> um_lookup (adaptive_state d) v = None
    then ?d1\<lparr>adaptive_state := um_update v
           (AdaptiveState_default\<lparr>current_threshold := packet_threshold ?cfg\<rparr>) (adaptive_state d)\<rparr>
    else ?d1)"
  have "InterruptDispatcher_on_completion d ev \<in> {(True, d2), (True, flush_vector v d2)}"
    using assms unfolding InterruptDispatcher_on_completion_def d2_def
    by (auto simp: resolve_vector_def MsixTable_vector_def MsixTable_valid_index_def fireable_def
        flush_vector_def Let_def assms(3)[symmetric] split: option.splits)
  then show ?thesis by (intro exI [of _ d2]) (simp add: d2_def)
qed

lemma on_completion_refuses:
  assumes "v = MsixMapping_queue_vector (id_mapping d) (unat (ev_queue_id ev))" and "\<not> fireable d v"
  shows "\<not> fst (InterruptDispatcher_on_completion d ev)"
    and "deliver_log (snd (InterruptDispatcher_on_completion d ev)) = deliver_log d"
    and "pending_counts (snd (InterruptDispatcher_on_completion d ev)) = pending_counts d"
    and "pending_time_us (snd (InterruptDispatcher_on_completion d ev)) = pending_time_us d"
    and "has_deliver (snd (InterruptDispatcher_on_completion d ev)) = has_deliver d"
    and "id_table (snd (InterruptDispatcher_on_completion d ev)) = id_table d"
  using assms by (auto simp: InterruptDispatcher_on_completion_def resolve_vector_def
      MsixTable_vector_def MsixTable_valid_index_def fireable_def)

lemma on_completion_inv_balance:
  assumes inv: "int_inv d"
    and room: "pend d (MsixMapping_queue_vector (id_mapping d) (unat (ev_queue_id ev))) < 2 ^ 32 - 1"
  shows "int_inv (snd (InterruptDispatcher_on_completion d ev))
    \<and> balance (snd (InterruptDispatcher_on_completion d ev)) w
      = balance d w + count_list (op_credit d (IntCompletion ev)) w"
proof -
  define v where "v = MsixMapping_queue_vector (id_mapping d) (unat (ev_queue_id ev))"
  define cnt where "cnt = (case um_lookup (pending_counts d) v of None \<Rightarrow> 0 | Some n \<Rightarrow> n) + 1"
  have cnt: "unat cnt = pend d v + 1"
    using room unfolding cnt_def pend_def v_def [symmetric]
    by (auto simp: unat_add_1_no_wrap split: option.splits)
  show ?thesis
  proof (cases "fireable d v")
    case False
    note ref = on_completion_refuses [OF v_def False]
    from inv ref balance_cong [OF ref(2,3)] show ?thesis by (simp add: int_inv_def)
  next
    case True
    from on_completion_accepts [OF v_def True cnt_def] obtain d2 where
      r: "InterruptDispatcher_on_completion d ev \<in> {(True, d2), (True, flush_vector v d2)}"
      and d2: "pending_counts d2 = um_update v cnt (pending_counts d)"
        "pending_time_us d2 = um_update v 0 (pending_time_us d)"
        "deliver_log d2 = deliver_log d" "has_deliver d2 = has_deliver d" by blast
    have "cnt \<noteq> 0" using cnt by auto
    with inv d2 have inv2: "int_inv d2" by (simp add: int_inv_def)
    have p2: "pend d2 w = (if w = v then pend d w + 1 else pend d w)" for w
      using d2 cnt by (simp add: pend_def)
    then have bal2: "balance d2 w = balance d w + (if w = v then 1 else 0)"
      using d2 by (simp add: balance_def delivered_def)
    have "balance (flush_vector v d2) w = balance d2 w"
      using flush_vector_balance [of d2 v w] inv2 p2 by (simp add: int_inv_def)
    then show ?thesis
      using r inv2 bal2 flush_vector_inv [OF inv2] by (auto simp: v_def)
  qed
qed

lemma int_step_inv_balance:
  assumes "int_inv d" and "\<And>v. pend d v < 2 ^ 32 - 1"
  shows "int_inv (int_step d op) \<and> balance (int_step d op) w = balance d w + count_list (op_credit d op) w"
proof -
  have frame: "balance d' = balance d \<and> int_inv d'"
    if "deliver_log d' = deliver_log d" "pending_counts d' = pending_counts d"
      "pending_time_us d' = pending_time_us d" "has_deliver d' = has_deliver d" for d'
    using balance_cong [OF that(1,2)] assms(1) that by (simp add: int_inv_def)
  show ?thesis
  proof (cases op)
    case (IntCompletion ev)
    then show ?thesis using on_completion_inv_balance [OF assms(1,2)] by simp
  next
    case (IntFlush v)
    then show ?thesis using flush_inv [OF assms(1)] flush_balance [OF assms(1)] by simp
  next
    case (IntTick us)
    then show ?thesis using timer_tick_inv_balance [OF assms(1)] by simp
  qed (use frame [of "int_step d op"] in \<open>simp_all add: InterruptDispatcher_mask_vector_def
      InterruptDispatcher_enable_vector_def InterruptDispatcher_set_queue_vector_def
      InterruptDispatcher_set_queue_coalesce_config_def InterruptDispatcher_clear_queue_coalesce_config_def
      InterruptDispatcher_set_adaptive_config_def Let_def split: prod.splits if_splits\<close>)
qed

lemma count_op_credit_le: "count_list (op_credit d op) v \<le> 1"
  by (cases "(d, op)" rule: op_credit.cases) auto

lemma int_run_balance:
  "int_inv d \<Longrightarrow> \<forall>v. balance d v + length ops < 2 ^ 32 \<Longrightarrow> int_run d ops = (credits, d') \<Longrightarrow>
     int_inv d' \<and> balance d' w = balance d w + count_list credits w"
proof (induction ops arbitrary: d credits)
  case (Cons op ops)
  obtain cs where r: "int_run (int_step d op) ops = (cs, d')" and c: "credits = op_credit d op @ cs"
    using Cons.prems(3) by (auto split: prod.splits)
  have p: "pend d v < 2 ^ 32 - 1" for v
    using Cons.prems(2) [rule_format, of v] by (simp add: balance_def)
  note st = int_step_inv_balance [OF Cons.prems(1) p]
  have "balance (int_step d op) v + length ops < 2 ^ 32" for v
    using st [of op v] Cons.prems(2) [rule_format, of v] count_op_credit_le [of d op v] by simp
  with Cons.IH [OF _ _ r] st [of op w] c show ?case
    using st [of op] by simp
qed auto

section \<open>Blocked vectors\<close>

definition signals :: "InterruptDispatcher \<Rightarrow> u16 \<Rightarrow> u32 list" where
  "signals d v = map snd (filter (\<lambda>(w, _). w = v) (deliver_log d))"

lemma flush_vector_frame [simp]: "id_table (flush_vector v d) = id_table d"
  by (simp add: flush_vector_def Let_def)

lemma try_fire_signals: "\<not> fireable d v \<Longrightarrow> signals (InterruptDispatcher_try_fire d w) v = signals d v"
  by (auto simp: signals_def try_fire_effect)

lemma fireable_cong: "id_table d = id_table d' \<Longrightarrow> fireable d = fireable d'"
  by (simp add: fireable_def fun_eq_iff)

lemma flush_vector_signals: "\<not> fireable d v \<Longrightarrow> signals (flush_vector w d) v = signals d v"
  using try_fire_signals [of d v w] by (simp add: flush_vector_def Let_def signals_def)

lemma fold_flush_signals:
  "\<not> fireable d v \<Longrightarrow> signals (fold flush_vector ws d) v = signals d v \<and> id_table (fold flush_vector ws d) = id_table d"
proof (induction ws arbitrary: d)
  case (Cons w ws)
  then show ?case
    using flush_vector_signals [of d v w] fireable_cong [of "flush_vector w d" d] by simp
qed simp

lemma timer_loop_signals:
  "\<not> fireable d v \<Longrightarrow> timer_loop d us ts = (d', kept) \<Longrightarrow> signals d' v = signals d v \<and> id_table d' = id_table d"
proof (induction d us ts arbitrary: d' kept rule: timer_loop.induct)
  case (2 d us w t rest)
  let ?f = "InterruptDispatcher_try_fire d w"
  let ?d = "?f\<lparr>id_stats := (id_stats ?f)\<lparr>timer_flushes := timer_flushes (id_stats ?f) + 1\<rparr>\<rparr>"
  have "\<not> fireable ?d v" "signals ?d v = signals d v" "id_table ?d = id_table d"
    using 2(3) fireable_cong [of ?d d] try_fire_signals [OF 2(3), of w] by (simp_all add: signals_def)
  note fired = this
  show ?case
  proof (cases "t + us \<ge> timer_threshold_us (id_coalesce d)")
    case True
    have "timer_loop ?d us rest = (d', kept)" using True 2(4) by (simp add: Let_def)
    from 2(1) [OF True refl fired(1) this] fired show ?thesis by simp
  next
    case False
    then obtain kr where "timer_loop d us rest = (d', kr)" using 2(4) by (auto simp: Let_def split: prod.splits)
    from 2(2) [OF False 2(3) this] show ?thesis .
  qed
qed simp

fun sets_vector :: "u16 \<Rightarrow> int_op \<Rightarrow> bool" where
  "sets_vector v (IntMask w b) = (w = v)"
| "sets_vector v (IntEnable w b) = (w = v)"
| "sets_vector v _ = False"

lemma completion_signals:
  assumes "\<not> fireable d v"
  shows "signals (snd (InterruptDispatcher_on_completion d ev)) v = signals d v
    \<and> id_table (snd (InterruptDispatcher_on_completion d ev)) = id_table d"
proof -
  define u where "u = MsixMapping_queue_vector (id_mapping d) (unat (ev_queue_id ev))"
  show ?thesis
  proof (cases "fireable d u")
    case False
    then show ?thesis using on_completion_refuses [OF u_def] by (simp add: signals_def)
  next
    case True
    from on_completion_accepts [OF u_def True refl] obtain d2 where
      r: "InterruptDispatcher_on_completion d ev \<in> {(True, d2), (True, flush_vector u d2)}"
      and d2: "deliver_log d2 = deliver_log d" "id_table d2 = id_table d" by blast
    have "signals d2 v = signals d v" "\<not> fireable d2 v"
      using d2 assms fireable_cong [OF d2(2)] by (simp_all add: signals_def)
    then show ?thesis using r d2 flush_vector_signals by auto
  qed
qed

lemma int_step_signals:
  assumes "\<not> fireable d v" and "\<not> sets_vector v op"
  shows "signals (int_step d op) v = signals d v \<and> \<not> fireable (int_step d op) v"
proof (cases op)
  case (IntCompletion ev)
  then show ?thesis
    using completion_signals [OF assms(1), of ev] assms(1)
      fireable_cong [of "snd (InterruptDispatcher_on_completion d ev)" d] by simp
next
  case (IntFlush w)
  let ?d = "case w of Some v \<Rightarrow> flush_vector v d | None \<Rightarrow> fold flush_vector (map fst (pending_counts d)) d"
  have "signals ?d v = signals d v \<and> id_table ?d = id_table d"
    using fold_flush_signals [OF assms(1)] flush_vector_signals [OF assms(1)] by (simp split: option.splits)
  then show ?thesis
    using assms(1) IntFlush by (simp add: InterruptDispatcher_flush_def Let_def signals_def fireable_def)
next
  case (IntTick us)
  then show ?thesis
    using timer_loop_signals [OF assms(1)] assms(1)
    by (auto simp: InterruptDispatcher_on_timer_tick_def signals_def fireable_def split: prod.splits)
qed (use assms in \<open>auto simp: InterruptDispatcher_mask_vector_def InterruptDispatcher_enable_vector_def
    InterruptDispatcher_set_queue_vector_def InterruptDispatcher_set_queue_coalesce_config_def
    InterruptDispatcher_clear_queue_coalesce_config_def InterruptDispatcher_set_adaptive_config_def
    MsixTable_mask_def MsixTable_enable_def Let_def signals_def fireable_def word_unat_eq_iff
    split: prod.splits if_splits\<close>)

section \<open>Properties\<close>

text \<open>C14: coalescing loses no completion and signals none twice. Over any sequence of fewer than \<open>2 ^ 32\<close>
  calls (completions, flushes, timer ticks, masking, remapping, reconfiguration) on a new dispatcher, the
  batch sizes delivered for a vector plus the count still pending for it equal the completions accepted
  for it plus the explicit flushes that signalled it with nothing pending.\<close>

theorem interrupts_conserved:
  assumes "length ops < 2 ^ 32"
    and "int_run (InterruptDispatcher_new table mapping config True) ops = (credits, d)"
  shows "delivered d v + pend d v = count_list credits v"
proof -
  let ?d = "InterruptDispatcher_new table mapping config True"
  have "int_inv ?d" "\<forall>v. balance ?d v = 0"
    by (simp_all add: InterruptDispatcher_new_def int_inv_def balance_def delivered_def pend_def)
  from int_run_balance [OF this(1) _ assms(2), of v] this(2) assms(1) show ?thesis
    by (simp add: balance_def)
qed

abbreviation demo_dispatcher :: InterruptDispatcher where
  "demo_dispatcher \<equiv> InterruptDispatcher_new (MsixTable_new 2) (MsixMapping_new 1 1)
     \<lparr>packet_threshold = 2, timer_threshold_us = 10\<rparr> True"

abbreviation demo_event :: InterruptEvent where
  "demo_event \<equiv> \<lparr>ev_queue_id = 0, ev_completion = CompletionEntry_default\<rparr>"

theorem interrupts_conserved_witness:
  "delivered (snd (int_run demo_dispatcher [IntCompletion demo_event, IntCompletion demo_event, IntTick 5])) 1
   + pend (snd (int_run demo_dispatcher [IntCompletion demo_event, IntCompletion demo_event, IntTick 5])) 1
   = count_list (fst (int_run demo_dispatcher [IntCompletion demo_event, IntCompletion demo_event, IntTick 5])) 1"
  by (rule interrupts_conserved [where ops = "[IntCompletion demo_event, IntCompletion demo_event, IntTick 5]"])
    simp_all

text \<open>C15: a vector that is masked, disabled or outside the table is never signalled: no sequence of calls
  that leaves the vector's own mask and enable bits alone delivers it, whatever is pending.\<close>

theorem blocked_vector_silent:
  assumes "\<not> fireable d v" and "\<forall>op \<in> set ops. \<not> sets_vector v op"
  shows "signals (snd (int_run d ops)) v = signals d v"
  using assms
proof (induction ops arbitrary: d)
  case (Cons op ops)
  then show ?case using int_step_signals [of d v op] by (simp split: prod.splits) (metis snd_conv)
qed simp

theorem blocked_vector_silent_witness:
  "signals (snd (int_run (snd (InterruptDispatcher_mask_vector demo_dispatcher 1 True))
     [IntCompletion demo_event, IntFlush (Some 1)])) 1 = []"
proof -
  let ?d = "snd (InterruptDispatcher_mask_vector demo_dispatcher 1 True)"
  have "\<not> fireable ?d 1"
    by (simp add: InterruptDispatcher_mask_vector_def InterruptDispatcher_new_def MsixTable_mask_def
        MsixTable_new_def MsixTable_valid_index_def fireable_def Let_def)
  moreover have "signals ?d 1 = []"
    by (simp add: InterruptDispatcher_mask_vector_def InterruptDispatcher_new_def MsixTable_mask_def
        MsixTable_new_def MsixTable_valid_index_def signals_def Let_def)
  ultimately show ?thesis
    using blocked_vector_silent [of ?d 1 "[IntCompletion demo_event, IntFlush (Some 1)]"] by simp
qed

text \<open>Adaptive moderation keeps a threshold that is within the configured range within it, and moves it
  by at most one per sample, up only under load and down only when idle.\<close>

theorem adaptive_threshold_bounded:
  assumes "min_threshold cfg \<le> current_threshold st" and "current_threshold st \<le> max_threshold cfg"
  shows "min_threshold cfg \<le> current_threshold (adapt_threshold cfg st batch)
    \<and> current_threshold (adapt_threshold cfg st batch) \<le> max_threshold cfg
    \<and> current_threshold (adapt_threshold cfg st batch)
        \<in> {current_threshold st - 1, current_threshold st, current_threshold st + 1}"
proof -
  let ?t = "current_threshold st" and ?lo = "min_threshold cfg" and ?hi = "max_threshold cfg"
  have up: "min (?t + 1) ?hi = ?t + 1 \<and> ?lo \<le> ?t + 1 \<and> ?t + 1 \<le> ?hi" if "?t < ?hi"
    using assms(1) that unat_add_1_less [OF that] by (auto simp: min_def word_le_nat_alt word_less_nat_alt)
  have down: "max (?t - 1) ?lo = ?t - 1 \<and> ?lo \<le> ?t - 1 \<and> ?t - 1 \<le> ?hi" if "?lo < ?t"
    using that assms(2) unat_minus_1 [of ?t] word_not_simps(1)
    by (cases "?t = 0") (auto simp: max_def word_le_nat_alt word_less_nat_alt word_unat_eq_iff)
  show ?thesis
    using up down assms by (auto simp: adapt_threshold_def Let_def)
qed

theorem adaptive_threshold_bounded_witness:
  "current_threshold (adapt_threshold AdaptiveConfig_default
     \<lparr>interrupt_count = 99, total_batch_size = 9900, current_threshold = 64\<rparr> 100) \<le> 64"
  using adaptive_threshold_bounded [of AdaptiveConfig_default
      "\<lparr>interrupt_count = 99, total_batch_size = 9900, current_threshold = 64\<rparr>" 100]
  by (simp add: AdaptiveConfig_default_def)

end
