(* ===== verification/Nic_Queue_Pair.thy ===== *)
theory Nic_Queue_Pair
  imports Nic_Interrupts Nic_Checksum
begin

text \<open>
  The transmit/receive queue pair (\<^verbatim>\<open>queue_pair.h/.cpp\<close>, descriptors of \<^verbatim>\<open>tx_rx.h\<close>, limits of
  \<^verbatim>\<open>offload.h\<close>): a transmit descriptor is taken from its ring, its buffer is read by DMA, checked,
  segmented and looped back into the buffers of receive descriptors, with completions and interrupts.
  The DMA engine and the interrupt dispatcher are shared by all queue pairs and are passed in \<open>NicEnv\<close>.
  The theory shows that segmentation covers the payload exactly, that every transmit descriptor that is
  accepted is answered by exactly one transmit completion if there is room for it, and that a packet reported as delivered is in
  the receive buffer.
\<close>

section \<open>Descriptors\<close>

text \<open>Descriptors are copied byte for byte into C++ structures; the model reads the fields at the offsets of
  the little-endian 64-bit layout. \<^verbatim>\<open>ChecksumMode\<close> keeps its raw byte: the code only tests for \<^verbatim>\<open>None\<close> (0).\<close>

record TxDescriptor =
  txd_buffer_address :: u64
  txd_length :: u32
  txd_checksum :: u8
  txd_descriptor_index :: u16
  txd_checksum_value :: u16
  txd_checksum_offload :: bool
  txd_tso_enabled :: bool
  txd_gso_enabled :: bool
  txd_mss :: u16
  txd_header_length :: u16
  txd_vlan_insert :: bool
  txd_vlan_tag :: u16

record RxDescriptor =
  rxd_buffer_address :: u64
  rxd_buffer_length :: u32
  rxd_checksum :: u8
  rxd_descriptor_index :: u16
  rxd_checksum_offload :: bool
  rxd_vlan_strip :: bool
  rxd_vlan_present :: bool
  rxd_vlan_tag :: u16
  rxd_gro_enabled :: bool

definition le_val :: "bytes \<Rightarrow> nat" where
  "le_val bs = foldr (\<lambda>b acc. unat b + 256 * acc) bs 0"

definition le_field :: "bytes \<Rightarrow> nat \<Rightarrow> nat \<Rightarrow> 'n :: len word" where
  "le_field bs off n = of_nat (le_val (subspan off n bs))"

definition sizeof_TxDescriptor :: nat where "sizeof_TxDescriptor = 32"
definition sizeof_RxDescriptor :: nat where "sizeof_RxDescriptor = 24"

definition decode_tx_descriptor :: "bytes \<Rightarrow> TxDescriptor option" where
  "decode_tx_descriptor bs =
     (if length bs < sizeof_TxDescriptor then None
      else Some \<lparr>txd_buffer_address = le_field bs 0 8, txd_length = le_field bs 8 4, txd_checksum = bs ! 12,
                 txd_descriptor_index = le_field bs 14 2, txd_checksum_value = le_field bs 16 2,
                 txd_checksum_offload = (bs ! 18 \<noteq> 0), txd_tso_enabled = (bs ! 19 \<noteq> 0),
                 txd_gso_enabled = (bs ! 20 \<noteq> 0), txd_mss = le_field bs 22 2,
                 txd_header_length = le_field bs 24 2, txd_vlan_insert = (bs ! 26 \<noteq> 0),
                 txd_vlan_tag = le_field bs 28 2\<rparr>)"

definition decode_rx_descriptor :: "bytes \<Rightarrow> RxDescriptor option" where
  "decode_rx_descriptor bs =
     (if length bs < sizeof_RxDescriptor then None
      else Some \<lparr>rxd_buffer_address = le_field bs 0 8, rxd_buffer_length = le_field bs 8 4, rxd_checksum = bs ! 12,
                 rxd_descriptor_index = le_field bs 14 2, rxd_checksum_offload = (bs ! 16 \<noteq> 0),
                 rxd_vlan_strip = (bs ! 17 \<noteq> 0), rxd_vlan_present = (bs ! 18 \<noteq> 0),
                 rxd_vlan_tag = le_field bs 20 2, rxd_gro_enabled = (bs ! 22 \<noteq> 0)\<rparr>)"

datatype CompletionCode = CcSuccess | CcBufferTooSmall | CcChecksumError | CcNoDescriptor | CcFault
  | CcMtuExceeded | CcInvalidMss | CcTooManySegments

fun completion_code :: "CompletionCode \<Rightarrow> u32" where
  "completion_code CcSuccess = 0"
| "completion_code CcBufferTooSmall = 1"
| "completion_code CcChecksumError = 2"
| "completion_code CcNoDescriptor = 3"
| "completion_code CcFault = 4"
| "completion_code CcMtuExceeded = 5"
| "completion_code CcInvalidMss = 6"
| "completion_code CcTooManySegments = 7"

definition kJumboMtu :: nat where "kJumboMtu = 9000"
definition kMaxTsoSegments :: nat where "kMaxTsoSegments = 64"
definition kMinMss :: nat where "kMinMss = 1"
definition kMaxMss :: nat where "kMaxMss = 9000"

section \<open>State\<close>

text \<open>\<open>has_dispatcher\<close> says that \<^verbatim>\<open>interrupt_dispatcher\<close> is not null.\<close>

record QueuePairConfig =
  qpc_queue_id :: u16
  qpc_tx_ring :: DescriptorRingConfig
  qpc_rx_ring :: DescriptorRingConfig
  qpc_tx_completion :: CompletionQueueConfig
  qpc_rx_completion :: CompletionQueueConfig
  qpc_tx_doorbell :: "Doorbell option"
  qpc_rx_doorbell :: "Doorbell option"
  qpc_tx_completion_doorbell :: "Doorbell option"
  qpc_rx_completion_doorbell :: "Doorbell option"
  has_dispatcher :: bool
  qpc_weight :: u8
  max_mtu :: nat
  enable_tx_interrupts :: bool
  enable_rx_interrupts :: bool

record QueuePairStats =
  tx_packets :: u64
  rx_packets :: u64
  tx_bytes :: u64
  rx_bytes :: u64
  drops_checksum :: u64
  drops_no_rx_desc :: u64
  drops_buffer_small :: u64
  drops_mtu_exceeded :: u64
  drops_invalid_mss :: u64
  drops_too_many_segments :: u64
  tx_tso_segments :: u64
  tx_gso_segments :: u64
  tx_vlan_insertions :: u64
  rx_vlan_strips :: u64
  rx_checksum_verified :: u64
  rx_gro_aggregated :: u64

definition QueuePairStats_zero :: QueuePairStats where
  "QueuePairStats_zero = \<lparr>tx_packets = 0, rx_packets = 0, tx_bytes = 0, rx_bytes = 0, drops_checksum = 0,
     drops_no_rx_desc = 0, drops_buffer_small = 0, drops_mtu_exceeded = 0, drops_invalid_mss = 0,
     drops_too_many_segments = 0, tx_tso_segments = 0, tx_gso_segments = 0, tx_vlan_insertions = 0,
     rx_vlan_strips = 0, rx_checksum_verified = 0, rx_gro_aggregated = 0\<rparr>"

record QueuePair =
  qp_config :: QueuePairConfig
  qp_tx_ring :: DescriptorRing
  qp_rx_ring :: DescriptorRing
  qp_tx_completion :: CompletionQueue
  qp_rx_completion :: CompletionQueue
  qp_stats :: QueuePairStats

record NicEnv =
  env_dma :: DMAEngine
  env_intr :: InterruptDispatcher

type_synonym qp_state = "QueuePair \<times> NicEnv"

definition QueuePair_new :: "QueuePairConfig \<Rightarrow> QueuePair" where
  "QueuePair_new cfg =
     \<lparr>qp_config = cfg,
      qp_tx_ring = DescriptorRing_new (qpc_tx_ring cfg) True (qpc_tx_doorbell cfg),
      qp_rx_ring = DescriptorRing_new (qpc_rx_ring cfg) True (qpc_rx_doorbell cfg),
      qp_tx_completion = CompletionQueue_new (qpc_tx_completion cfg) (qpc_tx_completion_doorbell cfg),
      qp_rx_completion = CompletionQueue_new (qpc_rx_completion cfg) (qpc_rx_completion_doorbell cfg),
      qp_stats = QueuePairStats_zero\<rparr>"

definition QueuePair_reset :: "QueuePair \<Rightarrow> QueuePair" where
  "QueuePair_reset qp =
     qp\<lparr>qp_tx_ring := DescriptorRing_reset (qp_tx_ring qp), qp_rx_ring := DescriptorRing_reset (qp_rx_ring qp),
        qp_tx_completion := CompletionQueue_reset (qp_tx_completion qp),
        qp_rx_completion := CompletionQueue_reset (qp_rx_completion qp), qp_stats := QueuePairStats_zero\<rparr>"

definition QueuePair_reset_stats :: "QueuePair \<Rightarrow> QueuePair" where
  "QueuePair_reset_stats qp = qp\<lparr>qp_stats := QueuePairStats_zero\<rparr>"

section \<open>Completions\<close>

definition make_completion :: "QueuePair \<Rightarrow> u16 \<Rightarrow> CompletionCode \<Rightarrow> CompletionEntry" where
  "make_completion qp idx status =
     CompletionEntry_default\<lparr>ce_queue_id := qpc_queue_id (qp_config qp), ce_descriptor_index := idx,
       ce_status := completion_code status\<rparr>"

definition make_tx_completion ::
  "QueuePair \<Rightarrow> TxDescriptor \<Rightarrow> CompletionCode \<Rightarrow> nat \<Rightarrow> bool \<Rightarrow> bool \<Rightarrow> CompletionEntry" where
  "make_tx_completion qp d status segments_count tso gso =
     (let entry = (make_completion qp (txd_descriptor_index d) status)
            \<lparr>checksum_offloaded := txd_checksum_offload d, tso_performed := tso, gso_performed := gso,
             segments_produced := of_nat (min segments_count 65535)\<rparr>
      in if txd_vlan_insert d then entry\<lparr>vlan_inserted := True, ce_vlan_tag := txd_vlan_tag d\<rparr> else entry)"

definition post_tx :: "CompletionEntry \<Rightarrow> qp_state \<Rightarrow> qp_state" where
  "post_tx entry = (\<lambda>(qp, env).
     (qp\<lparr>qp_tx_completion := snd (CompletionQueue_post_completion (qp_tx_completion qp) entry)\<rparr>, env))"

definition post_rx :: "CompletionEntry \<Rightarrow> qp_state \<Rightarrow> qp_state" where
  "post_rx entry = (\<lambda>(qp, env).
     (qp\<lparr>qp_rx_completion := snd (CompletionQueue_post_completion (qp_rx_completion qp) entry)\<rparr>, env))"

definition fire_tx_interrupt :: "CompletionEntry \<Rightarrow> qp_state \<Rightarrow> qp_state" where
  "fire_tx_interrupt entry = (\<lambda>(qp, env).
     if enable_tx_interrupts (qp_config qp) \<and> has_dispatcher (qp_config qp)
     then (qp, env\<lparr>env_intr := snd (InterruptDispatcher_on_completion (env_intr env)
             \<lparr>ev_queue_id = qpc_queue_id (qp_config qp), ev_completion = entry\<rparr>)\<rparr>)
     else (qp, env))"

definition fire_rx_interrupt :: "CompletionEntry \<Rightarrow> qp_state \<Rightarrow> qp_state" where
  "fire_rx_interrupt entry = (\<lambda>(qp, env).
     if enable_rx_interrupts (qp_config qp) \<and> has_dispatcher (qp_config qp)
     then (qp, env\<lparr>env_intr := snd (InterruptDispatcher_on_completion (env_intr env)
             \<lparr>ev_queue_id = qpc_queue_id (qp_config qp), ev_completion = entry\<rparr>)\<rparr>)
     else (qp, env))"

definition qp_count :: "(QueuePairStats \<Rightarrow> QueuePairStats) \<Rightarrow> qp_state \<Rightarrow> qp_state" where
  "qp_count f = (\<lambda>(qp, env). (qp\<lparr>qp_stats := f (qp_stats qp)\<rparr>, env))"

text \<open>The sequence the error paths share: a completion without segments, its interrupt, a counter.\<close>

definition tx_drop :: "TxDescriptor \<Rightarrow> CompletionCode \<Rightarrow> bool \<Rightarrow> bool \<Rightarrow> (QueuePairStats \<Rightarrow> QueuePairStats) \<Rightarrow> qp_state \<Rightarrow> qp_state" where
  "tx_drop d status tso gso f st =
     (let entry = make_tx_completion (fst st) d status 0 tso gso
      in qp_count f (fire_tx_interrupt entry (post_tx entry st)))"

section \<open>Transmit\<close>

definition QueuePair_validate_mtu :: "qp_state \<Rightarrow> TxDescriptor \<Rightarrow> bytes \<Rightarrow> bool \<times> qp_state" where
  "QueuePair_validate_mtu st d packet =
     (if length packet > max_mtu (qp_config (fst st))
      then (False, tx_drop d CcMtuExceeded False False
              (\<lambda>s. s\<lparr>drops_mtu_exceeded := drops_mtu_exceeded s + 1\<rparr>) st)
      else (True, st))"

text \<open>The segmentation loop: the payload in chunks of at most \<open>mss\<close> bytes, each behind the header. The
  argument is the payload from \<^verbatim>\<open>payload_offset\<close> on. An \<open>mss\<close> of 0 never reaches the loop.\<close>

function segment_loop :: "bytes \<Rightarrow> nat \<Rightarrow> bytes \<Rightarrow> bytes list" where
  "segment_loop header mss payload =
     (if payload = [] \<or> mss = 0 then []
      else let chunk = min mss (length payload)
           in (header @ take chunk payload) # segment_loop header mss (drop chunk payload))"
  by pat_completeness auto
termination
  by (relation "measure (\<lambda>(h, m, p). length p)") auto

declare segment_loop.simps [simp del]

definition QueuePair_build_segments ::
  "qp_state \<Rightarrow> TxDescriptor \<Rightarrow> bytes \<Rightarrow> bytes list option \<times> qp_state" where
  "QueuePair_build_segments st d packet =
     (let mss = unat (txd_mss d);
          hlen = unat (txd_header_length d);
          segmentation_enabled = ((txd_tso_enabled d \<or> txd_gso_enabled d) \<and> mss > 0 \<and> length packet > mss);
          bad_mss = tx_drop d CcInvalidMss False False (\<lambda>s. s\<lparr>drops_invalid_mss := drops_invalid_mss s + 1\<rparr>)
      in
      if \<not> segmentation_enabled then (Some [packet], st)
      else if mss < kMinMss \<or> mss > kMaxMss then (None, bad_mss st)
      else if hlen > length packet then (None, bad_mss st)
      else
        let header_len = min hlen (length packet);
            header = take header_len packet;
            segments = (if header_len \<ge> length packet then [packet]
                        else segment_loop header mss (drop header_len packet))
        in
        if length segments > kMaxTsoSegments
        then (None, tx_drop d CcTooManySegments False False
                (\<lambda>s. s\<lparr>drops_too_many_segments := drops_too_many_segments s + 1\<rparr>) st)
        else (Some segments, st))"

definition QueuePair_finalize_tx_success ::
  "TxDescriptor \<Rightarrow> nat \<Rightarrow> nat \<Rightarrow> bool \<Rightarrow> bool \<Rightarrow> qp_state \<Rightarrow> qp_state" where
  "QueuePair_finalize_tx_success d total_segments packet_bytes tso gso st =
     (let entry = make_tx_completion (fst st) d CcSuccess total_segments tso gso;
          n = of_nat total_segments
      in qp_count (\<lambda>s.
           let s1 = s\<lparr>tx_packets := tx_packets s + n, tx_bytes := tx_bytes s + of_nat packet_bytes\<rparr>;
               s2 = (if tso then s1\<lparr>tx_tso_segments := tx_tso_segments s1 + n\<rparr> else s1);
               s3 = (if gso then s2\<lparr>tx_gso_segments := tx_gso_segments s2 + n\<rparr> else s2)
           in if txd_vlan_insert d then s3\<lparr>tx_vlan_insertions := tx_vlan_insertions s3 + n\<rparr> else s3)
         (fire_tx_interrupt entry (post_tx entry st)))"

section \<open>Receive\<close>

definition rx_vlan_entry :: "TxDescriptor \<Rightarrow> RxDescriptor \<Rightarrow> bool \<Rightarrow> CompletionEntry \<Rightarrow> CompletionEntry" where
  "rx_vlan_entry d r has_vlan entry =
     (if rxd_vlan_strip r \<and> has_vlan
      then entry\<lparr>vlan_stripped := True, ce_vlan_tag := (if txd_vlan_insert d then txd_vlan_tag d else rxd_vlan_tag r)\<rparr>
      else entry\<lparr>vlan_stripped := False\<rparr>)"

definition QueuePair_handle_rx_segment ::
  "bytes \<Rightarrow> TxDescriptor \<Rightarrow> RxDescriptor \<Rightarrow> nat \<Rightarrow> bool \<Rightarrow> bool \<Rightarrow> qp_state \<Rightarrow> bool \<times> qp_state" where
  "QueuePair_handle_rx_segment segment0 d r total_segments tso gso st =
     (let has_vlan = (txd_vlan_insert d \<or> rxd_vlan_present r);
          segment = (if rxd_vlan_strip r \<and> has_vlan \<and> length segment0 \<ge> 4 then drop 4 segment0 else segment0);
          tx = (\<lambda>status st. post_tx (make_tx_completion (fst st) d status total_segments tso gso) st)
      in
      if unat (rxd_buffer_length r) < length segment then
        let st1 = tx CcSuccess st;
            entry = rx_vlan_entry d r has_vlan (make_completion (fst st1) (rxd_descriptor_index r) CcBufferTooSmall)
        in (False, qp_count (\<lambda>s. s\<lparr>drops_buffer_small := drops_buffer_small s + 1\<rparr>)
                     (fire_rx_interrupt entry (post_rx entry st1)))
      else
        let (res, e') = DMAEngine_write (env_dma (snd st)) (rxd_buffer_address r) segment;
            st0 = (fst st, (snd st)\<lparr>env_dma := e'\<rparr>)
        in
        if \<not> DmaResult_ok res then
          let st1 = tx CcFault st0;
              entry = make_completion (fst st1) (rxd_descriptor_index r) CcFault
          in (False, fire_rx_interrupt entry (post_rx entry st1))
        else
          let entry = (make_completion (fst st0) (rxd_descriptor_index r) CcSuccess)
                        \<lparr>gro_aggregated := rxd_gro_enabled r\<rparr>;
              st1 = (if rxd_gro_enabled r
                     then qp_count (\<lambda>s. s\<lparr>rx_gro_aggregated := rx_gro_aggregated s + 1\<rparr>) st0 else st0);
              verify = (rxd_checksum_offload r \<and> rxd_checksum r \<noteq> 0);
              entry1 = (if verify then entry\<lparr>checksum_verified := True\<rparr> else entry);
              st2 = (if verify
                     then qp_count (\<lambda>s. s\<lparr>rx_checksum_verified := rx_checksum_verified s + 1\<rparr>) st1 else st1)
          in
          if verify \<and> compute_checksum segment \<noteq> 0 then
            let entry2 = entry1\<lparr>ce_status := completion_code CcChecksumError\<rparr>
            in (False, qp_count (\<lambda>s. s\<lparr>drops_checksum := drops_checksum s + 1\<rparr>)
                         (tx CcSuccess (fire_rx_interrupt entry2 (post_rx entry2 st2))))
          else
            let entry2 = rx_vlan_entry d r has_vlan entry1;
                st3 = (if rxd_vlan_strip r \<and> has_vlan
                       then qp_count (\<lambda>s. s\<lparr>rx_vlan_strips := rx_vlan_strips s + 1\<rparr>) st2 else st2)
            in (True, qp_count (\<lambda>s. s\<lparr>rx_packets := rx_packets s + 1,
                                     rx_bytes := rx_bytes s + of_nat (length segment)\<rparr>)
                        (fire_rx_interrupt entry2 (post_rx entry2 st3))))"

definition vlan_header :: "u16 \<Rightarrow> bytes" where
  "vlan_header tag = [0x81, 0x00, ucast (drop_bit 8 tag AND 0xFF), ucast (tag AND 0xFF)]"

text \<open>The loop over the segments. The answer \<open>None\<close> means the loop ran to its end, \<open>Some b\<close> that
  \<^verbatim>\<open>process_segments\<close> returned \<open>b\<close> from within it.\<close>

fun rx_loop :: "TxDescriptor \<Rightarrow> nat \<Rightarrow> bool \<Rightarrow> bool \<Rightarrow> bytes list \<Rightarrow> qp_state \<Rightarrow> bool option \<times> qp_state" where
  "rx_loop d total_segments tso gso [] st = (None, st)"
| "rx_loop d total_segments tso gso (base_segment # rest) st =
     (let (qp, env) = st;
          rx_bytes = replicate (descriptor_size (qpc_rx_ring (qp_config qp))) 0;
          (res, bs, ring', e') = DescriptorRing_pop_descriptor (qp_rx_ring qp) (env_dma env) rx_bytes;
          st1 = (qp\<lparr>qp_rx_ring := ring'\<rparr>, env\<lparr>env_dma := e'\<rparr>)
      in
      if \<not> DmaResult_ok res then (Some False, st1)
      else case decode_rx_descriptor bs of
        None \<Rightarrow> (Some False, st1)
      | Some r0 \<Rightarrow>
          let r = (if txd_vlan_insert d then r0\<lparr>rxd_vlan_present := True\<rparr> else r0);
              segment = (if txd_vlan_insert d then vlan_header (txd_vlan_tag d) @ base_segment else base_segment);
              (ok, st2) = QueuePair_handle_rx_segment segment d r total_segments tso gso st1
          in if \<not> ok then (Some True, st2) else rx_loop d total_segments tso gso rest st2)"

definition QueuePair_process_segments :: "TxDescriptor \<Rightarrow> bytes \<Rightarrow> qp_state \<Rightarrow> bool \<times> qp_state" where
  "QueuePair_process_segments d packet st =
     (let (mtu_ok, st1) = QueuePair_validate_mtu st d packet in
      if \<not> mtu_ok then (True, st1)
      else
        let (maybe_segments, st2) = QueuePair_build_segments st1 d packet in
        case maybe_segments of
          None \<Rightarrow> (True, st2)
        | Some segments \<Rightarrow>
            let total_segments = length segments;
                tso = (txd_tso_enabled d \<and> total_segments > 1);
                gso = (txd_gso_enabled d \<and> total_segments > 1)
            in
            if DescriptorRing_available (qp_rx_ring (fst st2)) < total_segments
            then (True, tx_drop d CcNoDescriptor tso gso
                    (\<lambda>s. s\<lparr>drops_no_rx_desc := drops_no_rx_desc s + 1\<rparr>) st2)
            else
              let (early, st3) = rx_loop d total_segments tso gso segments st2 in
              case early of
                Some b \<Rightarrow> (b, st3)
              | None \<Rightarrow> (True, QueuePair_finalize_tx_success d total_segments (length packet) tso gso st3))"

definition QueuePair_process_once :: "qp_state \<Rightarrow> bool \<times> qp_state" where
  "QueuePair_process_once st =
     (let (qp, env) = st in
      if DescriptorRing_is_empty (qp_tx_ring qp) then (False, st)
      else
        let buf = replicate (descriptor_size (qpc_tx_ring (qp_config qp))) 0;
            (res, bs, ring', e') = DescriptorRing_pop_descriptor (qp_tx_ring qp) (env_dma env) buf;
            st1 = (qp\<lparr>qp_tx_ring := ring'\<rparr>, env\<lparr>env_dma := e'\<rparr>)
        in
        if \<not> DmaResult_ok res then (False, st1)
        else case decode_tx_descriptor bs of
          None \<Rightarrow> (False, st1)
        | Some d \<Rightarrow>
            if DescriptorRing_is_empty (qp_rx_ring (fst st1))
            then (True, tx_drop d CcNoDescriptor False False
                    (\<lambda>s. s\<lparr>drops_no_rx_desc := drops_no_rx_desc s + 1\<rparr>) st1)
            else
              let (rd, packet, e2) = DMAEngine_read (env_dma (snd st1)) (txd_buffer_address d)
                                       (replicate (unat (txd_length d)) 0);
                  st2 = (fst st1, (snd st1)\<lparr>env_dma := e2\<rparr>)
              in
              if \<not> DmaResult_ok rd then (True, tx_drop d CcFault False False id st2)
              else if \<not> txd_checksum_offload d \<and> txd_checksum d \<noteq> 0
                      \<and> compute_checksum packet \<noteq> txd_checksum_value d
              then (True, tx_drop d CcChecksumError False False
                      (\<lambda>s. s\<lparr>drops_checksum := drops_checksum s + 1\<rparr>) st2)
              else QueuePair_process_segments d packet st2)"

section \<open>Segmentation\<close>

lemma segment_loop_Nil [simp]: "segment_loop h m [] = []"
  by (simp add: segment_loop.simps)

lemma segment_loop_step:
  "p \<noteq> [] \<Longrightarrow> 0 < m \<Longrightarrow> segment_loop h m p = (h @ take m p) # segment_loop h m (drop m p)"
  by (subst segment_loop.simps) (simp add: Let_def min_def)

lemma segment_loop_cover:
  assumes "0 < m"
  shows "concat (map (drop (length h)) (segment_loop h m p)) = p
    \<and> (\<forall>s \<in> set (segment_loop h m p). take (length h) s = h \<and> length h < length s \<and> length s \<le> length h + m)"
  using assms
proof (induction h m p rule: segment_loop.induct)
  case (1 h m p)
  show ?case
  proof (cases "p = []")
    case False
    have "drop (min m (length p)) p = drop m p" by (simp add: min_def)
    with 1 False show ?thesis by (auto simp: segment_loop_step Let_def)
  qed simp
qed

lemma segment_loop_nonempty: "0 < m \<Longrightarrow> p \<noteq> [] \<Longrightarrow> segment_loop h m p \<noteq> []"
  by (simp add: segment_loop_step)

section \<open>What an operation leaves alone\<close>

lemma qp_frames [simp, nic_frame]:
  "qp_tx_completion (fst (post_rx en st)) = qp_tx_completion (fst st)"
  "qp_tx_completion (fst (fire_tx_interrupt en st)) = qp_tx_completion (fst st)"
  "qp_tx_completion (fst (fire_rx_interrupt en st)) = qp_tx_completion (fst st)"
  "qp_tx_completion (fst (qp_count f st)) = qp_tx_completion (fst st)"
  "qp_tx_completion (fst (post_tx en st)) = snd (CompletionQueue_post_completion (qp_tx_completion (fst st)) en)"
  "qp_config (fst (post_rx en st)) = qp_config (fst st)"
  "qp_config (fst (post_tx en st)) = qp_config (fst st)"
  "qp_config (fst (fire_tx_interrupt en st)) = qp_config (fst st)"
  "qp_config (fst (fire_rx_interrupt en st)) = qp_config (fst st)"
  "qp_config (fst (qp_count f st)) = qp_config (fst st)"
  by (auto simp: post_rx_def post_tx_def fire_tx_interrupt_def fire_rx_interrupt_def qp_count_def
      split: prod.splits)

lemma qp_frames_dma [simp, nic_frame]:
  "env_dma (snd (post_rx en st)) = env_dma (snd st)"
  "env_dma (snd (post_tx en st)) = env_dma (snd st)"
  "env_dma (snd (fire_tx_interrupt en st)) = env_dma (snd st)"
  "env_dma (snd (fire_rx_interrupt en st)) = env_dma (snd st)"
  "env_dma (snd (qp_count f st)) = env_dma (snd st)"
  by (auto simp: post_rx_def post_tx_def fire_tx_interrupt_def fire_rx_interrupt_def qp_count_def
      split: prod.splits)

section \<open>One completion per descriptor\<close>

text \<open>\<open>tx_posted d st st'\<close>: between the two states \<^verbatim>\<open>post_completion\<close> was called exactly once on the transmit completion queue, with an
  entry that names the queue and the descriptor; its result is not looked at.\<close>

definition tx_posted :: "TxDescriptor \<Rightarrow> qp_state \<Rightarrow> qp_state \<Rightarrow> bool" where
  "tx_posted d st st' \<longleftrightarrow> (\<exists>entry.
     qp_tx_completion (fst st') = snd (CompletionQueue_post_completion (qp_tx_completion (fst st)) entry)
     \<and> ce_queue_id entry = qpc_queue_id (qp_config (fst st))
     \<and> ce_descriptor_index entry = txd_descriptor_index d)"

lemma make_tx_completion_ids [simp]:
  "ce_queue_id (make_tx_completion qp d c n tso gso) = qpc_queue_id (qp_config qp)"
  "ce_descriptor_index (make_tx_completion qp d c n tso gso) = txd_descriptor_index d"
  by (simp_all add: make_tx_completion_def make_completion_def Let_def)

lemma tx_posted_cong:
  "tx_posted d st1 st' \<Longrightarrow> qp_tx_completion (fst st1) = qp_tx_completion (fst st) \<Longrightarrow>
     qp_config (fst st1) = qp_config (fst st) \<Longrightarrow> tx_posted d st st'"
  by (simp add: tx_posted_def)

lemma tx_drop_posted: "tx_posted d st (tx_drop d c tso gso f st)"
  unfolding tx_posted_def tx_drop_def Let_def
  by (rule exI [of _ "make_tx_completion (fst st) d c 0 tso gso"]) simp

lemma finalize_posted: "tx_posted d st (QueuePair_finalize_tx_success d n k tso gso st)"
  unfolding tx_posted_def QueuePair_finalize_tx_success_def Let_def
  by (rule exI [of _ "make_tx_completion (fst st) d CcSuccess n tso gso"]) simp

lemma tx_posted_frames [simp]:
  "tx_posted d st (qp_count f st') = tx_posted d st st'"
  "tx_posted d st (fire_rx_interrupt en st') = tx_posted d st st'"
  "tx_posted d st (fire_tx_interrupt en st') = tx_posted d st st'"
  "tx_posted d st (post_rx en st') = tx_posted d st st'"
  by (simp_all add: tx_posted_def)

lemma post_tx_posted [simp]:
  "qp_tx_completion (fst st') = qp_tx_completion (fst st) \<Longrightarrow> qp_config qp = qp_config (fst st) \<Longrightarrow>
     tx_posted d st (post_tx (make_tx_completion qp d c n tso gso) st')"
  unfolding tx_posted_def by (rule exI [of _ "make_tx_completion qp d c n tso gso"]) simp

lemma handle_rx_segment_answers:
  assumes "QueuePair_handle_rx_segment seg d r n tso gso st = (ok, st')"
  shows "if ok then qp_tx_completion (fst st') = qp_tx_completion (fst st) \<and> qp_config (fst st') = qp_config (fst st)
    else tx_posted d st st'"
  using assms unfolding QueuePair_handle_rx_segment_def Let_def
  by (simp split: if_splits prod.splits) (clarsimp; simp)+

lemma rx_loop_answers:
  "rx_loop d n tso gso segs st = (early, st') \<Longrightarrow>
     (case early of
        None \<Rightarrow> qp_tx_completion (fst st') = qp_tx_completion (fst st) \<and> qp_config (fst st') = qp_config (fst st)
      | Some b \<Rightarrow> if b then tx_posted d st st' else qp_tx_completion (fst st') = qp_tx_completion (fst st))"
proof (induction segs arbitrary: st)
  case (Cons base rest)
  obtain qp env where st: "st = (qp, env)" by fastforce
  obtain res bs ring' e' where pop: "DescriptorRing_pop_descriptor (qp_rx_ring qp) (env_dma env)
      (replicate (descriptor_size (qpc_rx_ring (qp_config qp))) 0) = (res, bs, ring', e')"
    by (metis prod_cases4)
  let ?st1 = "(qp\<lparr>qp_rx_ring := ring'\<rparr>, env\<lparr>env_dma := e'\<rparr>)"
  show ?case
  proof (cases "DmaResult_ok res \<and> decode_rx_descriptor bs \<noteq> None")
    case False
    then show ?thesis using Cons.prems st pop by (auto simp: Let_def split: option.splits if_splits)
  next
    case True
    then obtain r0 where r0: "decode_rx_descriptor bs = Some r0" by auto
    let ?r = "if txd_vlan_insert d then r0\<lparr>rxd_vlan_present := True\<rparr> else r0"
    let ?seg = "if txd_vlan_insert d then vlan_header (txd_vlan_tag d) @ base else base"
    obtain ok st2 where h: "QueuePair_handle_rx_segment ?seg d ?r n tso gso ?st1 = (ok, st2)"
      by (metis surj_pair)
    have eq: "rx_loop d n tso gso (base # rest) st = (if \<not> ok then (Some True, st2) else rx_loop d n tso gso rest st2)"
      using True r0 st pop h by (simp add: Let_def)
    have same: "qp_tx_completion (fst ?st1) = qp_tx_completion (fst st)" "qp_config (fst ?st1) = qp_config (fst st)"
      using st by simp_all
    show ?thesis
    proof (cases ok)
      case True
      with handle_rx_segment_answers [OF h] same eq Cons.prems Cons.IH [of st2] show ?thesis
        by (auto simp: tx_posted_def split: option.splits if_splits)
    next
      case False
      with handle_rx_segment_answers [OF h] same eq Cons.prems show ?thesis
        by (auto dest: tx_posted_cong)
    qed
  qed
qed simp

lemma validate_mtu_answers:
  "QueuePair_validate_mtu st d packet = (ok, st') \<Longrightarrow> if ok then st' = st else tx_posted d st st'"
  by (auto simp: QueuePair_validate_mtu_def tx_drop_posted split: if_splits)

lemma build_segments_answers:
  "QueuePair_build_segments st d packet = (segs, st') \<Longrightarrow> if segs = None then tx_posted d st st' else st' = st"
  by (auto simp: QueuePair_build_segments_def Let_def tx_drop_posted split: if_splits)

lemma process_segments_answers:
  assumes "QueuePair_process_segments d packet st = (ok, st')"
  shows "if ok then tx_posted d st st' else qp_tx_completion (fst st') = qp_tx_completion (fst st)"
proof -
  obtain m st1 where v: "QueuePair_validate_mtu st d packet = (m, st1)" by (metis surj_pair)
  show ?thesis
  proof (cases m)
    case False
    with assms v validate_mtu_answers [OF v] show ?thesis by (simp add: QueuePair_process_segments_def)
  next
    case True
    then have st1: "st1 = st" using validate_mtu_answers [OF v] by simp
    obtain ms st2 where b: "QueuePair_build_segments st d packet = (ms, st2)" by (metis surj_pair)
    show ?thesis
    proof (cases ms)
      case None
      with assms v True st1 b build_segments_answers [OF b] show ?thesis
        by (simp add: QueuePair_process_segments_def)
    next
      case (Some segs)
      then have st2: "st2 = st" using build_segments_answers [OF b] by simp
      let ?tso = "txd_tso_enabled d \<and> length segs > 1" and ?gso = "txd_gso_enabled d \<and> length segs > 1"
      obtain early st3 where r: "rx_loop d (length segs) ?tso ?gso segs st = (early, st3)" by (metis surj_pair)
      have "tx_posted d st (QueuePair_finalize_tx_success d n k tso gso st3)" if "early = None" for n k tso gso
        using that rx_loop_answers [OF r] tx_posted_cong [OF finalize_posted] by simp
      then show ?thesis
        using assms v True st1 b Some st2 r rx_loop_answers [OF r] tx_drop_posted [of d st]
        by (auto simp: QueuePair_process_segments_def Let_def split: if_splits option.splits)
    qed
  qed
qed

section \<open>Delivery\<close>

lemma ring_pop_memory: "DescriptorRing_pop_descriptor q e buf = (r, d, q', e') \<Longrightarrow> dma_memory e' = dma_memory e"
  by (auto simp: DescriptorRing_pop_descriptor_def Let_def dest: DMAEngine_read_mem_rd
      split: if_splits prod.splits)

lemma ring_memory_cong:
  assumes "dma_memory e = dma_memory e'"
  shows "ring_inv (q, e) = ring_inv (q, e')" and "ring_contents (q, e) = ring_contents (q, e')"
proof -
  have "slot_content q e = slot_content q e'" "slots_mapped q e = slots_mapped q e'"
    using assms by (auto simp: fun_eq_iff slot_content_def slots_mapped_def slot_span_def Let_def)
  then show "ring_inv (q, e) = ring_inv (q, e')" "ring_contents (q, e) = ring_contents (q, e')"
    by simp_all
qed

lemma ring_pop_head:
  assumes "ring_inv (q, e)" and "ring_contents (q, e) = d # ds" and "n = descriptor_size (ring_config q)"
  obtains q' e' where "DescriptorRing_pop_descriptor q e (replicate n 0) = (dma_ok_result n, d, q', e')"
    "dma_memory e' = dma_memory e" "ring_inv (q', e)" "ring_contents (q', e) = ds" "ring_config q' = ring_config q"
proof -
  have "\<not> DescriptorRing_is_empty q" using ring_empty_iff [of "(q, e)"] assms(2) by auto
  from ring_pop_cases [OF assms(1) _ this, of "replicate n 0"] assms(2,3) obtain q' e'
    where pop: "DescriptorRing_pop_descriptor q e (replicate n 0) = (dma_ok_result n, d, q', e')"
      and q': "ring_inv (q', e')" "ring_contents (q', e') = ds"
    by (auto simp del: ring_contents.simps ring_inv.simps)
  have "ring_config q' = ring_config q"
    using pop by (auto simp: DescriptorRing_pop_descriptor_def Let_def split: if_splits prod.splits)
  then show ?thesis
    using that [OF pop ring_pop_memory [OF pop]] q' ring_memory_cong [OF ring_pop_memory [OF pop], of q'] by metis
qed

lemma qp_frames_stats [simp, nic_frame]:
  "qp_stats (fst (post_rx en st)) = qp_stats (fst st)" "qp_stats (fst (post_tx en st)) = qp_stats (fst st)"
  "qp_stats (fst (fire_tx_interrupt en st)) = qp_stats (fst st)" "qp_stats (fst (fire_rx_interrupt en st)) = qp_stats (fst st)"
  "qp_stats (fst (qp_count f st)) = f (qp_stats (fst st))"
  by (auto simp: post_rx_def post_tx_def fire_tx_interrupt_def fire_rx_interrupt_def qp_count_def
      split: prod.splits)

text \<open>What one delivery adds to the receive counters.\<close>

definition rx_counted :: "nat \<Rightarrow> QueuePairStats \<Rightarrow> QueuePairStats \<Rightarrow> bool" where
  "rx_counted n s s' \<longleftrightarrow> rx_packets s' = rx_packets s + 1 \<and> rx_bytes s' = rx_bytes s + of_nat n"

lemma handle_rx_plain:
  assumes "\<not> txd_vlan_insert d" "\<not> rxd_vlan_strip r" "\<not> (rxd_checksum_offload r \<and> rxd_checksum r \<noteq> 0)"
    and "length seg \<le> unat (rxd_buffer_length r)"
    and "mem_wr (dma_memory (env_dma (snd st))) (rxd_buffer_address r) seg = Some m'"
    and out: "out = QueuePair_handle_rx_segment seg d r n tso gso st"
  shows "fst out \<and> dma_memory (env_dma (snd (snd out))) = m' \<and> rx_counted (length seg) (qp_stats (fst st)) (qp_stats (fst (snd out)))"
proof -
  obtain res e' where w: "DMAEngine_write (env_dma (snd st)) (rxd_buffer_address r) seg = (res, e')" by fastforce
  then have "DmaResult_ok res" "dma_memory e' = m'"
    using DMAEngine_write_mem_wr [OF w] assms(5) by (auto split: if_splits)
  then show ?thesis
    using assms(1-4) w by (auto simp: out QueuePair_handle_rx_segment_def Let_def rx_counted_def)
qed

section \<open>Progress\<close>

declare ring_inv.simps [simp del]

text \<open>A well-formed queue pair: its rings are well formed over the memory it uses and their descriptors are
  large enough to decode.\<close>

definition qp_ok :: "QueuePair \<Rightarrow> DMAEngine \<Rightarrow> bool" where
  "qp_ok qp e \<longleftrightarrow> ring_inv (qp_tx_ring qp, e) \<and> ring_inv (qp_rx_ring qp, e)
     \<and> ring_config (qp_tx_ring qp) = qpc_tx_ring (qp_config qp)
     \<and> ring_config (qp_rx_ring qp) = qpc_rx_ring (qp_config qp)
     \<and> sizeof_TxDescriptor \<le> descriptor_size (qpc_tx_ring (qp_config qp))
     \<and> sizeof_RxDescriptor \<le> descriptor_size (qpc_rx_ring (qp_config qp))"

lemma qp_frames_rings [simp, nic_frame]:
  "qp_tx_ring (fst (post_rx en st)) = qp_tx_ring (fst st)" "qp_rx_ring (fst (post_rx en st)) = qp_rx_ring (fst st)"
  "qp_tx_ring (fst (post_tx en st)) = qp_tx_ring (fst st)" "qp_rx_ring (fst (post_tx en st)) = qp_rx_ring (fst st)"
  "qp_tx_ring (fst (fire_tx_interrupt en st)) = qp_tx_ring (fst st)"
  "qp_rx_ring (fst (fire_tx_interrupt en st)) = qp_rx_ring (fst st)"
  "qp_tx_ring (fst (fire_rx_interrupt en st)) = qp_tx_ring (fst st)"
  "qp_rx_ring (fst (fire_rx_interrupt en st)) = qp_rx_ring (fst st)"
  "qp_tx_ring (fst (qp_count f st)) = qp_tx_ring (fst st)" "qp_rx_ring (fst (qp_count f st)) = qp_rx_ring (fst st)"
  by (auto simp: post_rx_def post_tx_def fire_tx_interrupt_def fire_rx_interrupt_def qp_count_def
      split: prod.splits)

text \<open>Engines over the same mapping: every read or write leaves the mapping alone.\<close>

definition same_span :: "DMAEngine \<Rightarrow> DMAEngine \<Rightarrow> bool" where
  "same_span e e' \<longleftrightarrow> mem_span (dma_memory e') = mem_span (dma_memory e)"

lemma same_span_refl [simp]: "same_span e e"
  by (simp add: same_span_def)

lemma same_span_trans [trans]: "same_span e e' \<Longrightarrow> same_span e' e'' \<Longrightarrow> same_span e e''"
  by (simp add: same_span_def)

lemma ring_inv_span: "same_span e e' \<Longrightarrow> ring_inv (q, e) = ring_inv (q, e')"
  by (simp add: ring_inv.simps same_span_def slots_mapped_def slot_span_def)

lemma write_same_span: "DMAEngine_write e a d = (r, e') \<Longrightarrow> same_span e e'"
  using DMAEngine_write_mem_wr [of e a d r e'] shm.span_wr
  by (auto simp: same_span_def split: if_splits)

lemma qp_ok_span: "same_span e e' \<Longrightarrow> qp_ok qp e = qp_ok qp e'"
  using ring_inv_span [of e e'] by (simp add: qp_ok_def)

text \<open>\<open>keeps st st'\<close>: the step kept the rings, the configuration and the mapping.\<close>

definition keeps :: "qp_state \<Rightarrow> qp_state \<Rightarrow> bool" where
  "keeps st st' \<longleftrightarrow> qp_tx_ring (fst st') = qp_tx_ring (fst st) \<and> qp_rx_ring (fst st') = qp_rx_ring (fst st)
     \<and> qp_config (fst st') = qp_config (fst st) \<and> same_span (env_dma (snd st)) (env_dma (snd st'))"

lemma keeps_frames [simp]:
  "keeps st (post_rx en st') = keeps st st'" "keeps st (post_tx en st') = keeps st st'"
  "keeps st (fire_rx_interrupt en st') = keeps st st'" "keeps st (fire_tx_interrupt en st') = keeps st st'"
  "keeps st (qp_count f st') = keeps st st'" "keeps st st"
  by (simp_all add: keeps_def)

lemma keeps_dma: "same_span (env_dma (snd st)) e' \<Longrightarrow> keeps st (fst st, (snd st)\<lparr>env_dma := e'\<rparr>)"
  by (simp add: keeps_def)

lemma keeps_qp_ok: "keeps st st' \<Longrightarrow> qp_ok (fst st) (env_dma (snd st)) \<Longrightarrow> qp_ok (fst st') (env_dma (snd st'))"
  using qp_ok_span [of "env_dma (snd st)" "env_dma (snd st')" "fst st"]
  by (simp add: keeps_def qp_ok_def)

lemma tx_drop_keeps [simp]: "keeps st (tx_drop d c tso gso f st)"
  by (simp add: tx_drop_def Let_def)

lemma finalize_keeps [simp]: "keeps st (QueuePair_finalize_tx_success d n k tso gso st)"
  by (simp add: QueuePair_finalize_tx_success_def Let_def)

lemma handle_rx_keeps: "keeps st (snd (QueuePair_handle_rx_segment seg d r n tso gso st))"
proof -
  have "keeps st (fst st, (snd st)\<lparr>env_dma := snd (DMAEngine_write (env_dma (snd st)) a s)\<rparr>)" for a s
    by (rule keeps_dma) (metis prod.collapse write_same_span)
  then show ?thesis
    by (auto simp: QueuePair_handle_rx_segment_def Let_def split_beta)
qed

lemma ring_pop_length:
  assumes "ring_inv (q, e)" and "0 < unat (ring_count q)" and "length buf = descriptor_size (ring_config q)"
    and "DescriptorRing_pop_descriptor q e buf = (r, d, q', e')" and "DmaResult_ok r"
  shows "length d = descriptor_size (ring_config q)"
proof (cases "host_backed (ring_config q)")
  case True
  obtain rr bb ee where rd: "DMAEngine_read e (slot_address q (consumer_index q)) buf = (rr, bb, ee)"
    by (metis prod_cases3)
  with True assms(4,5) have "DmaResult_ok rr" "length buf = descriptor_size (ring_config q) \<longrightarrow> d = bb"
    by (auto simp: DescriptorRing_pop_descriptor_def Let_def split: if_splits)
  then show ?thesis
    using DMAEngine_read_mem_rd [OF rd] shm.rd_length assms(3) by auto
next
  case False
  let ?s = "descriptor_size (ring_config q)" and ?c = "unat (consumer_index q)"
  have "?c < ring_size (ring_config q)" using assms(1,2) by (auto simp: ring_inv.simps indices_ok_def)
  then have "(?c + 1) * ?s \<le> ring_size (ring_config q) * ?s" by (intro mult_le_mono1) simp
  then have "slot_offset q (consumer_index q) + ?s \<le> length (ring_storage q)"
    using assms(1) False by (simp add: ring_inv.simps slot_offset_def algebra_simps)
  then show ?thesis
    using assms(3-5) False
    by (auto simp: DescriptorRing_pop_descriptor_def Let_def split: if_splits prod.splits)
qed

lemma ring_pop_works:
  assumes "ring_inv (q, e)" and "0 < unat (ring_count q)" and "n = descriptor_size (ring_config q)"
  shows "\<exists>d q' e'. DescriptorRing_pop_descriptor q e (replicate n 0) = (dma_ok_result n, d, q', e')
    \<and> length d = n \<and> ring_inv (q', e') \<and> dma_memory e' = dma_memory e \<and> ring_config q' = ring_config q
    \<and> unat (ring_count q') = unat (ring_count q) - 1"
proof -
  have "\<not> DescriptorRing_is_empty q" using assms(2) by (auto simp: DescriptorRing_is_empty_def)
  from ring_pop_cases [OF assms(1) _ this, of "replicate n 0"] assms(3) obtain d q' e'
    where pop: "DescriptorRing_pop_descriptor q e (replicate n 0) = (dma_ok_result n, d, q', e')"
      and inv: "ring_inv (q', e')" and c: "ring_contents (q, e) = d # ring_contents (q', e')"
    by (auto simp del: ring_contents.simps)
  have "unat (ring_count q) = Suc (unat (ring_count q'))" using arg_cong [OF c, of length] by simp
  moreover have "length d = n"
    using ring_pop_length [OF assms(1,2) _ pop] assms(3) by simp
  ultimately show ?thesis using pop inv ring_pop_memory [OF pop] ring_pop_config [OF pop] by auto
qed

lemma decode_rx_works: "sizeof_RxDescriptor \<le> length bs \<Longrightarrow> \<exists>r. decode_rx_descriptor bs = Some r"
  by (simp add: decode_rx_descriptor_def)

lemma decode_tx_works: "sizeof_TxDescriptor \<le> length bs \<Longrightarrow> \<exists>d. decode_tx_descriptor bs = Some d"
  by (simp add: decode_tx_descriptor_def)

lemma rx_loop_progress:
  "qp_ok (fst st) (env_dma (snd st)) \<Longrightarrow> length segs \<le> unat (ring_count (qp_rx_ring (fst st))) \<Longrightarrow>
     rx_loop d n tso gso segs st = (early, st') \<Longrightarrow>
     early \<noteq> Some False \<and> qp_ok (fst st') (env_dma (snd st')) \<and> same_span (env_dma (snd st)) (env_dma (snd st'))"
proof (induction segs arbitrary: st)
  case (Cons base rest)
  obtain qp env where st: "st = (qp, env)" by fastforce
  let ?n = "descriptor_size (qpc_rx_ring (qp_config qp))"
  have ok: "qp_ok qp (env_dma env)" "0 < unat (ring_count (qp_rx_ring qp))" using Cons.prems st by auto
  then obtain bs q' e' where pop: "DescriptorRing_pop_descriptor (qp_rx_ring qp) (env_dma env) (replicate ?n 0)
      = (dma_ok_result ?n, bs, q', e')" and len: "length bs = ?n"
    and q': "ring_inv (q', e')" "dma_memory e' = dma_memory (env_dma env)" "ring_config q' = qpc_rx_ring (qp_config qp)"
      "unat (ring_count q') = unat (ring_count (qp_rx_ring qp)) - 1"
    using ring_pop_works [of "qp_rx_ring qp" "env_dma env" ?n] by (auto simp: qp_ok_def)
  obtain r0 where r0: "decode_rx_descriptor bs = Some r0"
    using decode_rx_works [of bs] len ok(1) by (auto simp: qp_ok_def)
  let ?st1 = "(qp\<lparr>qp_rx_ring := q'\<rparr>, env\<lparr>env_dma := e'\<rparr>)"
  have span: "same_span (env_dma env) e'" using q'(2) by (simp add: same_span_def)
  have ok1: "qp_ok (fst ?st1) (env_dma (snd ?st1))"
    using ok(1) q'(1,3) ring_inv_span [OF span] by (simp add: qp_ok_def)
  let ?r = "if txd_vlan_insert d then r0\<lparr>rxd_vlan_present := True\<rparr> else r0"
  let ?seg = "if txd_vlan_insert d then vlan_header (txd_vlan_tag d) @ base else base"
  obtain b st2 where h: "QueuePair_handle_rx_segment ?seg d ?r n tso gso ?st1 = (b, st2)" by (metis surj_pair)
  have k: "keeps ?st1 st2" using handle_rx_keeps [of ?st1 ?seg d ?r n tso gso] h by simp
  have ok2: "qp_ok (fst st2) (env_dma (snd st2))" by (rule keeps_qp_ok [OF k ok1])
  have span2: "same_span (env_dma env) (env_dma (snd st2))" and rings: "qp_rx_ring (fst st2) = q'"
    using k span same_span_trans by (auto simp: keeps_def)
  have eq: "rx_loop d n tso gso (base # rest) st = (if \<not> b then (Some True, st2) else rx_loop d n tso gso rest st2)"
    using r0 st pop h by (simp add: Let_def)
  show ?case
  proof (cases b)
    case True
    then have "rx_loop d n tso gso rest st2 = (early, st')" using eq Cons.prems(3) by simp
    from Cons.IH [OF ok2 _ this] Cons.prems(2) st q'(4) rings span2 show ?thesis
      using same_span_trans by auto
  next
    case False
    then show ?thesis using eq Cons.prems(3) ok2 span2 st by auto
  qed
qed simp

lemma build_segments_keeps: "keeps st (snd (QueuePair_build_segments st d packet))"
  by (simp add: QueuePair_build_segments_def Let_def)

lemma process_segments_progress:
  assumes ok: "qp_ok (fst st) (env_dma (snd st))" and run: "QueuePair_process_segments d packet st = (worked, st')"
  shows "worked \<and> qp_ok (fst st') (env_dma (snd st')) \<and> same_span (env_dma (snd st)) (env_dma (snd st'))"
proof -
  have keeps: ?thesis if "worked" "keeps st st'"
    using that keeps_qp_ok ok by (auto simp: keeps_def)
  obtain ms st2 where b: "QueuePair_build_segments st d packet = (ms, st2)" by (metis surj_pair)
  show ?thesis
  proof (cases "length packet > max_mtu (qp_config (fst st)) \<or> ms = None")
    case True
    then show ?thesis
      using run b build_segments_keeps [of st d packet]
      by (intro keeps) (auto simp: QueuePair_process_segments_def QueuePair_validate_mtu_def split: if_splits)
  next
    case False
    then obtain segs where segs: "ms = Some segs" by auto
    then have st2: "st2 = st" using build_segments_answers [OF b] by simp
    let ?tso = "txd_tso_enabled d \<and> length segs > 1" and ?gso = "txd_gso_enabled d \<and> length segs > 1"
    obtain early st3 where r: "rx_loop d (length segs) ?tso ?gso segs st = (early, st3)" by (metis surj_pair)
    let ?fin = "QueuePair_finalize_tx_success d (length segs) (length packet) ?tso ?gso st3"
    have eq: "QueuePair_process_segments d packet st =
        (if DescriptorRing_available (qp_rx_ring (fst st)) < length segs
         then (True, tx_drop d CcNoDescriptor ?tso ?gso (\<lambda>s. s\<lparr>drops_no_rx_desc := drops_no_rx_desc s + 1\<rparr>) st)
         else case early of Some b \<Rightarrow> (b, st3) | None \<Rightarrow> (True, ?fin))"
      using False b segs st2 r
      by (simp add: QueuePair_process_segments_def QueuePair_validate_mtu_def Let_def split: option.splits)
    show ?thesis
    proof (cases "DescriptorRing_available (qp_rx_ring (fst st)) < length segs")
      case True
      then show ?thesis using eq run by (intro keeps) auto
    next
      case False
      then have "length segs \<le> unat (ring_count (qp_rx_ring (fst st)))"
        by (simp add: DescriptorRing_available_def)
      note lp = rx_loop_progress [OF ok this r]
      have "keeps st3 ?fin" by simp
      with lp keeps_qp_ok [OF this] same_span_trans eq False run show ?thesis
        by (cases early) (auto simp: keeps_def)
    qed
  qed
qed

lemma process_once_progress:
  assumes "qp_ok qp (env_dma env)" and "QueuePair_process_once (qp, env) = (worked, st')"
  shows "worked = (\<not> DescriptorRing_is_empty (qp_tx_ring qp)) \<and> qp_ok (fst st') (env_dma (snd st'))
    \<and> same_span (env_dma env) (env_dma (snd st')) \<and> (\<not> worked \<longrightarrow> st' = (qp, env))"
proof (cases "DescriptorRing_is_empty (qp_tx_ring qp)")
  case True
  then show ?thesis using assms by (auto simp: QueuePair_process_once_def)
next
  case False
  let ?n = "descriptor_size (qpc_tx_ring (qp_config qp))"
  have "0 < unat (ring_count (qp_tx_ring qp))"
    using False by (simp add: DescriptorRing_is_empty_def unat_gt_0)
  then obtain bs q' e' where pop: "DescriptorRing_pop_descriptor (qp_tx_ring qp) (env_dma env) (replicate ?n 0)
      = (dma_ok_result ?n, bs, q', e')" and len: "length bs = ?n"
    and q': "ring_inv (q', e')" "dma_memory e' = dma_memory (env_dma env)" "ring_config q' = qpc_tx_ring (qp_config qp)"
    using ring_pop_works [of "qp_tx_ring qp" "env_dma env" ?n] assms(1) by (auto simp: qp_ok_def)
  obtain d where d: "decode_tx_descriptor bs = Some d"
    using decode_tx_works [of bs] len assms(1) by (auto simp: qp_ok_def)
  obtain rd packet e2 where rd: "DMAEngine_read e' (txd_buffer_address d) (replicate (unat (txd_length d)) 0)
      = (rd, packet, e2)" by (metis prod_cases3)
  have span: "same_span (env_dma env) e'" "same_span (env_dma env) e2"
    using q'(2) DMAEngine_read_mem_rd [OF rd] by (simp_all add: same_span_def)
  let ?st1 = "(qp\<lparr>qp_tx_ring := q'\<rparr>, env\<lparr>env_dma := e'\<rparr>)" and ?st2 = "(qp\<lparr>qp_tx_ring := q'\<rparr>, env\<lparr>env_dma := e2\<rparr>)"
  have ok: "qp_ok (fst ?st1) (env_dma (snd ?st1))"
    using assms(1) q'(1,3) ring_inv_span [OF span(1)] by (simp add: qp_ok_def)
  then have ok2: "qp_ok (fst ?st2) (env_dma (snd ?st2))"
    using qp_ok_span [of e' e2 "fst ?st1"] span by (simp add: same_span_def)
  have cases: "worked \<and> (keeps ?st1 st' \<or> keeps ?st2 st') \<or> QueuePair_process_segments d packet ?st2 = (worked, st')"
    using assms(2) pop d rd False
    by (auto simp: QueuePair_process_once_def Let_def split: if_splits)
  have "worked \<and> qp_ok (fst st') (env_dma (snd st')) \<and> same_span (env_dma env) (env_dma (snd st'))"
    using cases
  proof (elim disjE conjE)
    assume "worked" "keeps ?st1 st'"
    then show ?thesis using keeps_qp_ok [OF _ ok] span(1) same_span_trans by (auto simp: keeps_def)
  next
    assume "worked" "keeps ?st2 st'"
    then show ?thesis using keeps_qp_ok [OF _ ok2] span(2) same_span_trans by (auto simp: keeps_def)
  next
    assume "QueuePair_process_segments d packet ?st2 = (worked, st')"
    from process_segments_progress [OF ok2 this] show ?thesis using span(2) same_span_trans by auto
  qed
  with False show ?thesis by simp
qed

section \<open>Properties\<close>

text \<open>When segmentation answers with segments, it changed nothing else, there are between 1 and 64 of
  them, and either the packet was sent whole or every segment is the header followed by at most \<open>mss\<close>
  bytes of payload and the payloads, in order, are exactly the packet's payload.\<close>

theorem segments_cover_packet:
  assumes "QueuePair_build_segments st d packet = (Some segs, st')"
  shows "st' = st \<and> 1 \<le> length segs \<and> length segs \<le> 64
    \<and> (segs = [packet] \<or>
       (let h = unat (txd_header_length d) in
          concat (map (drop h) segs) = drop h packet
          \<and> (\<forall>s \<in> set segs. take h s = take h packet \<and> h < length s \<and> length s \<le> h + unat (txd_mss d))))"
proof -
  let ?h = "unat (txd_header_length d)" and ?m = "unat (txd_mss d)"
  have st: "st' = st" using build_segments_answers [OF assms] by simp
  show ?thesis
  proof (cases "segs = [packet]")
    case False
    then have m: "0 < ?m" and h: "?h < length packet" "length segs \<le> 64"
      and segs: "segs = segment_loop (take ?h packet) ?m (drop ?h packet)"
      using assms by (auto simp: QueuePair_build_segments_def Let_def kMaxTsoSegments_def split: if_splits)
    have "segs \<noteq> []" using segment_loop_nonempty [OF m, of "drop ?h packet"] h segs by simp
    then show ?thesis
      using segment_loop_cover [OF m, of "take ?h packet" "drop ?h packet"] segs h st
      by (simp add: Let_def min_def Suc_le_eq)
  qed (simp add: st)
qed

abbreviation demo_txd :: TxDescriptor where
  "demo_txd \<equiv> \<lparr>txd_buffer_address = 0, txd_length = 5, txd_checksum = 0, txd_descriptor_index = 7,
     txd_checksum_value = 0, txd_checksum_offload = False, txd_tso_enabled = True, txd_gso_enabled = False,
     txd_mss = 2, txd_header_length = 1, txd_vlan_insert = False, txd_vlan_tag = 0\<rparr>"

abbreviation demo_qp_config :: QueuePairConfig where
  "demo_qp_config \<equiv> \<lparr>qpc_queue_id = 3,
     qpc_tx_ring = \<lparr>descriptor_size = 32, ring_size = 2, base_address = 0, ring_queue_id = 3, host_backed = False\<rparr>,
     qpc_rx_ring = \<lparr>descriptor_size = 24, ring_size = 2, base_address = 0, ring_queue_id = 3, host_backed = False\<rparr>,
     qpc_tx_completion = \<lparr>cq_ring_size = 4, cq_queue_id = 3\<rparr>,
     qpc_rx_completion = \<lparr>cq_ring_size = 4, cq_queue_id = 3\<rparr>,
     qpc_tx_doorbell = None, qpc_rx_doorbell = None, qpc_tx_completion_doorbell = None,
     qpc_rx_completion_doorbell = None, has_dispatcher = True, qpc_weight = 1, max_mtu = 9000,
     enable_tx_interrupts = True, enable_rx_interrupts = True\<rparr>"

abbreviation demo_env :: NicEnv where
  "demo_env \<equiv> \<lparr>env_dma = demo_engine, env_intr = demo_dispatcher\<rparr>"

theorem segments_cover_packet_witness:
  "\<exists>segs. fst (QueuePair_build_segments (QueuePair_new demo_qp_config, demo_env) demo_txd [9, 1, 2, 3]) = Some segs
     \<and> length segs \<le> 64"
proof -
  let ?st = "(QueuePair_new demo_qp_config, demo_env)"
  have "QueuePair_build_segments ?st demo_txd [9, 1, 2, 3] = (Some [[9, 1, 2], [9, 3]], ?st)"
    by (simp add: QueuePair_build_segments_def Let_def kMinMss_def kMaxMss_def kMaxTsoSegments_def
        segment_loop_step)
  from segments_cover_packet [OF this] this show ?thesis by simp
qed

text \<open>The transmit descriptor at the head of the ring, as \<^verbatim>\<open>process_once\<close> takes it.\<close>

definition popped_tx :: "qp_state \<Rightarrow> TxDescriptor option" where
  "popped_tx st =
     (let (qp, env) = st;
          (res, bs, _, _) = DescriptorRing_pop_descriptor (qp_tx_ring qp) (env_dma env)
            (replicate (descriptor_size (qpc_tx_ring (qp_config qp))) 0)
      in if DmaResult_ok res then decode_tx_descriptor bs else None)"

lemma process_once_cases:
  assumes "QueuePair_process_once st = (worked, st')"
  shows "qp_tx_completion (fst st') = qp_tx_completion (fst st) \<and> \<not> worked
    \<or> (\<exists>d st2. popped_tx st = Some d \<and> qp_tx_completion (fst st2) = qp_tx_completion (fst st)
         \<and> qp_config (fst st2) = qp_config (fst st)
         \<and> (worked \<and> tx_posted d st2 st' \<or> (\<exists>packet. QueuePair_process_segments d packet st2 = (worked, st'))))"
proof -
  obtain qp env where st: "st = (qp, env)" by fastforce
  obtain res bs ring' e' where pop: "DescriptorRing_pop_descriptor (qp_tx_ring qp) (env_dma env)
      (replicate (descriptor_size (qpc_tx_ring (qp_config qp))) 0) = (res, bs, ring', e')"
    by (metis prod_cases4)
  let ?st1 = "(qp\<lparr>qp_tx_ring := ring'\<rparr>, env\<lparr>env_dma := e'\<rparr>)"
  show ?thesis
  proof (cases "DescriptorRing_is_empty (qp_tx_ring qp) \<or> \<not> DmaResult_ok res \<or> decode_tx_descriptor bs = None")
    case True
    then show ?thesis using assms st pop by (auto simp: QueuePair_process_once_def Let_def split: if_splits)
  next
    case False
    then obtain d where d: "decode_tx_descriptor bs = Some d" by auto
    then have p: "popped_tx st = Some d" using False st pop by (simp add: popped_tx_def)
    obtain rd packet e2 where rd: "DMAEngine_read e' (txd_buffer_address d) (replicate (unat (txd_length d)) 0)
        = (rd, packet, e2)" by (metis prod_cases3)
    let ?st2 = "(fst ?st1, (snd ?st1)\<lparr>env_dma := e2\<rparr>)"
    have same: "qp_tx_completion (fst ?st1) = qp_tx_completion (fst st)" "qp_config (fst ?st1) = qp_config (fst st)"
      "qp_tx_completion (fst ?st2) = qp_tx_completion (fst st)" "qp_config (fst ?st2) = qp_config (fst st)"
      using st by simp_all
    have "(worked \<and> (\<exists>st2 \<in> {?st1, ?st2}. tx_posted d st2 st'))
        \<or> QueuePair_process_segments d packet ?st2 = (worked, st')"
      using assms st pop False d rd tx_drop_posted
      by (auto simp: QueuePair_process_once_def Let_def split: if_splits)
    then show ?thesis using p same by blast
  qed
qed

text \<open>C20: every transmit descriptor that \<^verbatim>\<open>process_once\<close> takes and handles is answered by exactly one transmit
  completion that names the queue and the descriptor, on every path: delivered, no receive descriptor,
  DMA fault, checksum error, MTU exceeded, bad segmentation, receive buffer too small. The completion is the new last entry of the transmit completion
  queue if that queue has room; the result of posting is not checked, so with a full queue the completion is lost and the queue stays as it was. When \<^verbatim>\<open>process_once\<close> reports
  no work, the completion queue is unchanged.\<close>

theorem tx_answered_once:
  assumes inv: "cq_inv (qp_tx_completion (fst st))" and run: "QueuePair_process_once st = (worked, st')"
  shows "let q = qp_tx_completion (fst st); q' = qp_tx_completion (fst st') in
    if worked then cq_inv q' \<and> (\<exists>d entry. popped_tx st = Some d
      \<and> ce_queue_id entry = qpc_queue_id (qp_config (fst st)) \<and> ce_descriptor_index entry = txd_descriptor_index d
      \<and> cq_contents q' = (if length (cq_contents q) < cq_ring_size (cq_config q) then cq_contents q @ [entry] else cq_contents q))
    else q' = q"
proof -
  have "if worked then \<exists>d. popped_tx st = Some d \<and> tx_posted d st st' else qp_tx_completion (fst st') = qp_tx_completion (fst st)"
    using process_once_cases [OF run]
  proof (elim disjE exE conjE)
    fix d st2 packet
    assume p: "popped_tx st = Some d" and same: "qp_tx_completion (fst st2) = qp_tx_completion (fst st)"
      "qp_config (fst st2) = qp_config (fst st)" and seg: "QueuePair_process_segments d packet st2 = (worked, st')"
    from process_segments_answers [OF seg] p same show ?thesis by (auto dest: tx_posted_cong)
  qed (auto dest: tx_posted_cong)
  then show ?thesis using cq_post_cases [OF inv] unfolding tx_posted_def Let_def by (cases worked) fastforce+
qed

text \<open>The receive side after one delivery: the head of the receive ring is used up and the counters are up.\<close>

definition rx_taken :: "bytes list \<Rightarrow> nat \<Rightarrow> qp_state \<Rightarrow> qp_state \<Rightarrow> bool" where
  "rx_taken rxs n st st' \<longleftrightarrow> qp_config (fst st') = qp_config (fst st) \<and>
     ring_config (qp_rx_ring (fst st')) = ring_config (qp_rx_ring (fst st)) \<and> ring_inv (qp_rx_ring (fst st'), env_dma (snd st)) \<and>
     ring_contents (qp_rx_ring (fst st'), env_dma (snd st)) = rxs \<and> rx_counted n (qp_stats (fst st)) (qp_stats (fst st'))"

lemma finalize_rx_counted: "rx_counted n s (qp_stats (fst (QueuePair_finalize_tx_success d k b tso gso st))) = rx_counted n s (qp_stats (fst st))"
  by (simp add: QueuePair_finalize_tx_success_def Let_def rx_counted_def)

lemma finalize_memory [simp]: "env_dma (snd (QueuePair_finalize_tx_success d k b tso gso st)) = env_dma (snd st)"
  by (simp add: QueuePair_finalize_tx_success_def Let_def)

lemma process_segments_plain:
  assumes "length packet \<le> max_mtu (qp_config qp)" "\<not> txd_tso_enabled d" "\<not> txd_gso_enabled d"
    and "ring_inv (qp_rx_ring qp, env_dma env)" "ring_contents (qp_rx_ring qp, env_dma env) = rxb # rxs"
    and "ring_config (qp_rx_ring qp) = qpc_rx_ring (qp_config qp)" "decode_rx_descriptor rxb = Some r"
    and "\<not> txd_vlan_insert d" "\<not> rxd_vlan_strip r" "\<not> (rxd_checksum_offload r \<and> rxd_checksum r \<noteq> 0)"
    and "length packet \<le> unat (rxd_buffer_length r)"
    and "mem_wr (dma_memory (env_dma env)) (rxd_buffer_address r) packet = Some m'"
  shows "\<exists>st'. QueuePair_process_segments d packet (qp, env) = (True, st') \<and> dma_memory (env_dma (snd st')) = m' \<and>
    rx_taken rxs (length packet) (qp, env) st' \<and> qp_tx_ring (fst st') = qp_tx_ring qp"
proof -
  let ?n = "descriptor_size (qpc_rx_ring (qp_config qp))"
  obtain q' e' where pop: "DescriptorRing_pop_descriptor (qp_rx_ring qp) (env_dma env) (replicate ?n 0)
      = (dma_ok_result ?n, rxb, q', e')" "dma_memory e' = dma_memory (env_dma env)"
    and q': "ring_inv (q', env_dma env)" "ring_contents (q', env_dma env) = rxs" "ring_config q' = ring_config (qp_rx_ring qp)"
    by (rule ring_pop_head [OF assms(4,5)]) (use assms(6) in auto)
  let ?st1 = "(qp\<lparr>qp_rx_ring := q'\<rparr>, env\<lparr>env_dma := e'\<rparr>)"
  obtain st2 where h: "QueuePair_handle_rx_segment packet d r 1 False False ?st1 = (True, st2)"
    "dma_memory (env_dma (snd st2)) = m'" "rx_counted (length packet) (qp_stats qp) (qp_stats (fst st2))"
    using handle_rx_plain [OF assms(8-11) _ refl, of ?st1 m' 1 False False] assms(12) pop(2)
    by (auto simp: prod_eq_iff)
  let ?st' = "QueuePair_finalize_tx_success d 1 (length packet) False False st2"
  have k: "keeps ?st1 ?st'"
    using handle_rx_keeps [of ?st1 packet d r 1 False False] h(1) by (simp add: QueuePair_finalize_tx_success_def Let_def)
  have "rx_loop d 1 False False [packet] (qp, env) = (None, st2)"
    using pop assms(7,8) h(1) by (simp add: Let_def)
  moreover have "\<not> DescriptorRing_available (qp_rx_ring qp) < 1"
    using assms(5) by (auto simp: DescriptorRing_available_def not_less Suc_le_eq simp flip: length_greater_0_conv
        dest: arg_cong [of _ _ length])
  ultimately have "QueuePair_process_segments d packet (qp, env) = (True, ?st')"
    using assms(1-3) by (simp add: QueuePair_process_segments_def QueuePair_validate_mtu_def QueuePair_build_segments_def Let_def)
  with k h(2, 3) q' show ?thesis
    by (auto simp: rx_taken_def keeps_def finalize_rx_counted simp del: ring_contents.simps)
qed

lemma loopback_effect:
  assumes tx: "ring_inv (qp_tx_ring qp, env_dma env)" "ring_contents (qp_tx_ring qp, env_dma env) = txb # txs"
    "ring_config (qp_tx_ring qp) = qpc_tx_ring (qp_config qp)" "decode_tx_descriptor txb = Some d"
    and rx: "ring_inv (qp_rx_ring qp, env_dma env)" "ring_contents (qp_rx_ring qp, env_dma env) = rxb # rxs"
    "ring_config (qp_rx_ring qp) = qpc_rx_ring (qp_config qp)" "decode_rx_descriptor rxb = Some r"
    and buf: "mem_rd (dma_memory (env_dma env)) (txd_buffer_address d) (unat (txd_length d)) = Some packet"
    "mem_wr (dma_memory (env_dma env)) (rxd_buffer_address r) packet = Some m'"
    and size: "length packet \<le> max_mtu (qp_config qp)" "length packet \<le> unat (rxd_buffer_length r)"
    and plain: "\<not> txd_tso_enabled d" "\<not> txd_gso_enabled d" "\<not> txd_vlan_insert d" "\<not> rxd_vlan_strip r"
    "\<not> (rxd_checksum_offload r \<and> rxd_checksum r \<noteq> 0)"
    and sum: "txd_checksum_offload d \<or> txd_checksum d = 0 \<or> compute_checksum packet = txd_checksum_value d"
  shows "\<exists>st'. QueuePair_process_once (qp, env) = (True, st') \<and> dma_memory (env_dma (snd st')) = m' \<and>
    rx_taken rxs (length packet) (qp, env) st' \<and> ring_config (qp_tx_ring (fst st')) = ring_config (qp_tx_ring qp) \<and>
    ring_inv (qp_tx_ring (fst st'), env_dma env) \<and> ring_contents (qp_tx_ring (fst st'), env_dma env) = txs"
proof -
  let ?n = "descriptor_size (qpc_tx_ring (qp_config qp))"
  obtain q' e' where pop: "DescriptorRing_pop_descriptor (qp_tx_ring qp) (env_dma env) (replicate ?n 0)
      = (dma_ok_result ?n, txb, q', e')" and m: "dma_memory e' = dma_memory (env_dma env)"
    and q': "ring_inv (q', env_dma env)" "ring_contents (q', env_dma env) = txs" "ring_config q' = ring_config (qp_tx_ring qp)"
    by (rule ring_pop_head [OF tx(1,2)]) (use tx(3) in auto)
  obtain rd bs e2 where rd: "DMAEngine_read e' (txd_buffer_address d) (replicate (unat (txd_length d)) 0)
      = (rd, bs, e2)" by (metis prod_cases3)
  have ok: "DmaResult_ok rd" "bs = packet" and m2: "dma_memory e2 = dma_memory (env_dma env)"
    using DMAEngine_read_mem_rd [OF rd] m buf(1) by (auto split: if_splits)
  let ?qp = "qp\<lparr>qp_tx_ring := q'\<rparr>" and ?env = "env\<lparr>env_dma := e2\<rparr>"
  have ne: "\<not> DescriptorRing_is_empty (qp_tx_ring qp)" "\<not> DescriptorRing_is_empty (qp_rx_ring qp)"
    using ring_empty_iff [of "(qp_tx_ring qp, env_dma env)"] ring_empty_iff [of "(qp_rx_ring qp, env_dma env)"] tx rx
    by (auto simp del: ring_contents.simps)
  note cong = ring_memory_cong [of e2 "env_dma env", OF m2]
  obtain st' where s: "QueuePair_process_segments d packet (?qp, ?env) = (True, st')"
    "dma_memory (env_dma (snd st')) = m'" "rx_taken rxs (length packet) (?qp, ?env) st'" "qp_tx_ring (fst st') = q'"
    using process_segments_plain [of packet ?qp d ?env rxb rxs r m'] size plain rx buf(2) m2 cong [of "qp_rx_ring qp"]
    by (auto simp del: ring_contents.simps)
  have "QueuePair_process_once (qp, env) = (True, st')"
    using ne pop rd ok tx(4) sum s(1) by (auto simp: QueuePair_process_once_def Let_def)
  with s q' cong show ?thesis by (auto simp: rx_taken_def simp del: ring_contents.simps)
qed

text \<open>End-to-end delivery. When the head of the transmit ring describes a plain packet (no segmentation, no
  VLAN tag, a correct checksum if one is given) within the MTU, and the head of the receive ring a buffer
  that is mapped and large enough, \<^verbatim>\<open>process_once\<close> succeeds, and a read of the receive buffer then gives
  exactly the packet that was in the transmit buffer.\<close>

theorem loopback_delivers:
  assumes tx: "ring_inv (qp_tx_ring qp, env_dma env)" "ring_contents (qp_tx_ring qp, env_dma env) = txb # txs"
    "ring_config (qp_tx_ring qp) = qpc_tx_ring (qp_config qp)" "decode_tx_descriptor txb = Some d"
    and rx: "ring_inv (qp_rx_ring qp, env_dma env)" "ring_contents (qp_rx_ring qp, env_dma env) = rxb # rxs"
    "ring_config (qp_rx_ring qp) = qpc_rx_ring (qp_config qp)" "decode_rx_descriptor rxb = Some r"
    and buf: "mem_rd (dma_memory (env_dma env)) (txd_buffer_address d) (unat (txd_length d)) = Some packet"
    "mem_wr (dma_memory (env_dma env)) (rxd_buffer_address r) packet = Some m'"
    and size: "length packet \<le> max_mtu (qp_config qp)" "length packet \<le> unat (rxd_buffer_length r)"
    and plain: "\<not> txd_tso_enabled d" "\<not> txd_gso_enabled d" "\<not> txd_vlan_insert d" "\<not> rxd_vlan_strip r"
    "\<not> (rxd_checksum_offload r \<and> rxd_checksum r \<noteq> 0)"
    and sum: "txd_checksum_offload d \<or> txd_checksum d = 0 \<or> compute_checksum packet = txd_checksum_value d"
  shows "\<exists>st'. QueuePair_process_once (qp, env) = (True, st')
    \<and> mem_rd (dma_memory (env_dma (snd st'))) (rxd_buffer_address r) (length packet) = Some packet"
  using loopback_effect [OF tx rx buf size plain sum] shm.rd_wr_same [OF buf(2)] by auto

lemma ring_one_push:
  fixes cfg :: DescriptorRingConfig and d :: bytes
  assumes "\<not> host_backed cfg" "0 < ring_size cfg" "ring_size cfg < 2 ^ 32" "length d = descriptor_size cfg"
    and q: "q = fst (snd (DescriptorRing_push_descriptor (DescriptorRing_new cfg True db) e d))"
  shows "ring_inv (q, e)" and "ring_contents (q, e) = [d]" and "ring_config q = cfg"
proof -
  let ?q0 = "DescriptorRing_new cfg True db"
  have "ring_inv (?q0, e)" "ring_config ?q0 = cfg" "\<not> DescriptorRing_is_full ?q0" "ring_contents (?q0, e) = []"
    using assms by (simp_all add: ring_inv.simps DescriptorRing_new_def DescriptorRing_is_full_def)
  then obtain e' where "DescriptorRing_push_descriptor ?q0 e d = (dma_ok_result (length d), q, e')"
      "ring_inv (q, e')" "ring_contents (q, e') = [d]"
    using ring_push_cases [of ?q0 e d] assms by (auto simp del: ring_contents.simps)
  moreover from this(1) have "e' = e" "ring_config q = cfg"
    using assms(1-4) by (auto simp: DescriptorRing_push_descriptor_def DescriptorRing_new_def Let_def split: if_splits)
  ultimately show "ring_inv (q, e)" "ring_contents (q, e) = [d]" "ring_config q = cfg" by simp_all
qed

abbreviation demo_rx_bytes :: bytes where
  "demo_rx_bytes \<equiv> [4, 0, 0, 0, 0, 0, 0, 0, 3, 0, 0, 0, 0, 0, 1, 0, 0, 0, 0, 0, 0, 0, 0, 0]"

abbreviation demo_plain_tx_bytes :: bytes where
  "demo_plain_tx_bytes \<equiv> [1, 0, 0, 0, 0, 0, 0, 0, 2, 0, 0, 0, 0, 0, 7, 0,
     0, 0, 0, 0, 0, 0, 0, 0, 0, 0, 0, 0, 0, 0, 0, 0]"

abbreviation demo_loop_qp :: QueuePair where
  "demo_loop_qp \<equiv> (QueuePair_new demo_qp_config)
     \<lparr>qp_tx_ring := fst (snd (DescriptorRing_push_descriptor
         (DescriptorRing_new (qpc_tx_ring demo_qp_config) True None) demo_engine demo_plain_tx_bytes)),
      qp_rx_ring := fst (snd (DescriptorRing_push_descriptor
         (DescriptorRing_new (qpc_rx_ring demo_qp_config) True None) demo_engine demo_rx_bytes))\<rparr>"

lemma demo_decode:
  "decode_tx_descriptor demo_plain_tx_bytes = Some \<lparr>txd_buffer_address = 1, txd_length = 2, txd_checksum = 0,
     txd_descriptor_index = 7, txd_checksum_value = 0, txd_checksum_offload = False, txd_tso_enabled = False,
     txd_gso_enabled = False, txd_mss = 0, txd_header_length = 0, txd_vlan_insert = False, txd_vlan_tag = 0\<rparr>"
  "decode_rx_descriptor demo_rx_bytes = Some \<lparr>rxd_buffer_address = 4, rxd_buffer_length = 3, rxd_checksum = 0,
     rxd_descriptor_index = 1, rxd_checksum_offload = False, rxd_vlan_strip = False, rxd_vlan_present = False,
     rxd_vlan_tag = 0, rxd_gro_enabled = False\<rparr>"
  by (simp_all add: decode_tx_descriptor_def decode_rx_descriptor_def sizeof_TxDescriptor_def
      sizeof_RxDescriptor_def le_field_def le_val_def subspan_def)

theorem loopback_delivers_witness:
  "\<exists>st'. QueuePair_process_once (demo_loop_qp, demo_env) = (True, st')
    \<and> mem_rd (dma_memory (env_dma (snd st'))) 4 2 = Some [0, 0]"
proof -
  note tx = ring_one_push [OF _ _ _ _ refl, of "qpc_tx_ring demo_qp_config" demo_plain_tx_bytes None demo_engine]
  note rx = ring_one_push [OF _ _ _ _ refl, of "qpc_rx_ring demo_qp_config" demo_rx_bytes None demo_engine]
  have rd: "mem_rd (dma_memory demo_engine) 1 2 = Some [0, 0]"
    by (simp add: mem_rd_def demo_defs numeral_2_eq_2)
  obtain m' where wr: "mem_wr (dma_memory demo_engine) 4 [0, 0] = Some m'"
    by (simp add: mem_wr_def demo_defs)
  have cfg: "qp_config demo_loop_qp = demo_qp_config" by (simp add: QueuePair_new_def)
  have tx: "ring_inv (qp_tx_ring demo_loop_qp, env_dma demo_env)"
    "ring_contents (qp_tx_ring demo_loop_qp, env_dma demo_env) = [demo_plain_tx_bytes]"
    "ring_config (qp_tx_ring demo_loop_qp) = qpc_tx_ring (qp_config demo_loop_qp)"
    using tx cfg by (simp_all del: ring_contents.simps)
  have rx: "ring_inv (qp_rx_ring demo_loop_qp, env_dma demo_env)"
    "ring_contents (qp_rx_ring demo_loop_qp, env_dma demo_env) = [demo_rx_bytes]"
    "ring_config (qp_rx_ring demo_loop_qp) = qpc_rx_ring (qp_config demo_loop_qp)"
    using rx cfg by (simp_all del: ring_contents.simps)
  have "\<exists>st'. QueuePair_process_once (demo_loop_qp, demo_env) = (True, st')
    \<and> mem_rd (dma_memory (env_dma (snd st'))) (rxd_buffer_address (the (decode_rx_descriptor demo_rx_bytes)))
        (length [0, 0 :: byte]) = Some [0, 0]"
    unfolding demo_decode option.sel
    by (rule loopback_delivers [OF tx demo_decode(1) rx demo_decode(2)])
      (use rd wr cfg in simp_all)
  then show ?thesis unfolding demo_decode by (simp add: numeral_2_eq_2 del: split_paired_Ex)
qed

text \<open>Progress. A well-formed queue pair does work exactly when its transmit ring is not empty, whatever
  the descriptors, the buffers and the completion queues contain, and it is well formed afterwards; when it
  reports no work, nothing changed.\<close>

theorem queue_pair_progress:
  assumes "qp_ok qp (env_dma env)" and "QueuePair_process_once (qp, env) = (worked, qp', env')"
  shows "worked = (\<not> DescriptorRing_is_empty (qp_tx_ring qp)) \<and> qp_ok qp' (env_dma env')
    \<and> (\<not> worked \<longrightarrow> qp' = qp \<and> env' = env)"
  using process_once_progress [OF assms] by simp

theorem queue_pair_progress_witness:
  "\<exists>qp' env'. QueuePair_process_once (QueuePair_new demo_qp_config, demo_env) = (False, qp', env')
     \<and> qp_ok qp' (env_dma env')"
proof -
  have ok: "qp_ok (QueuePair_new demo_qp_config) (env_dma demo_env)"
    by (simp add: qp_ok_def QueuePair_new_def DescriptorRing_new_def ring_inv.simps sizeof_TxDescriptor_def
        sizeof_RxDescriptor_def)
  obtain w qp' env' where r: "QueuePair_process_once (QueuePair_new demo_qp_config, demo_env) = (w, qp', env')"
    by (metis prod_cases3)
  have "DescriptorRing_is_empty (qp_tx_ring (QueuePair_new demo_qp_config))"
    by (simp add: QueuePair_new_def DescriptorRing_new_def DescriptorRing_is_empty_def)
  with queue_pair_progress [OF ok r] have "w = False" "qp_ok qp' (env_dma env')" by blast+
  with r show ?thesis by blast
qed

abbreviation demo_tx_bytes :: bytes where
  "demo_tx_bytes \<equiv> (replicate 32 0)[8 := 5, 14 := 7]"

abbreviation demo_qp :: QueuePair where
  "demo_qp \<equiv> (QueuePair_new demo_qp_config)\<lparr>qp_tx_ring :=
     fst (snd (DescriptorRing_push_descriptor (qp_tx_ring (QueuePair_new demo_qp_config)) demo_engine demo_tx_bytes))\<rparr>"

lemma demo_qp_works: "fst (QueuePair_process_once (demo_qp, demo_env))"
  by (simp add: QueuePair_process_once_def Let_def QueuePair_new_def DescriptorRing_new_def
      DescriptorRing_push_descriptor_def DescriptorRing_pop_descriptor_def DescriptorRing_is_full_def
      DescriptorRing_is_empty_def ring_next_def decode_tx_descriptor_def sizeof_TxDescriptor_def
      slot_offset_def subspan_def memcpy_at_def)

theorem tx_answered_once_witness:
  "\<exists>d entry. popped_tx (demo_qp, demo_env) = Some d \<and> ce_descriptor_index entry = txd_descriptor_index d
     \<and> cq_contents (qp_tx_completion (fst (snd (QueuePair_process_once (demo_qp, demo_env))))) = [entry]"
proof -
  have run: "QueuePair_process_once (demo_qp, demo_env) = (True, snd (QueuePair_process_once (demo_qp, demo_env)))"
    by (rule prod_eqI) (simp_all only: demo_qp_works fst_conv snd_conv)
  have inv: "cq_inv (qp_tx_completion (fst (demo_qp, demo_env)))" by (simp add: QueuePair_new_def cq_inv_new)
  have q: "cq_contents (qp_tx_completion (fst (demo_qp, demo_env))) = []"
    "cq_ring_size (cq_config (qp_tx_completion (fst (demo_qp, demo_env)))) > 0"
    by (simp_all add: QueuePair_new_def cq_contents_def CompletionQueue_new_def)
  from tx_answered_once [OF inv run] show ?thesis unfolding Let_def if_True q using q(2) by (elim conjE exE) auto
qed

end
