(* ===== verification/Nic_Queue_Manager.thy ===== *)
theory Nic_Queue_Manager
  imports Nic_Queue_Pair
begin

text \<open>
  The queue manager (\<^verbatim>\<open>queue_manager.h/.cpp\<close>): a weighted round-robin scheduler over queue pairs that share
  a DMA engine and an interrupt dispatcher, and the sum of their statistics. The theory shows that the
  scheduler is work-conserving (it reports no work only when every queue reported none), serves a queue
  at most its weight in a row, and reaches a busy queue whatever the other queues do.
\<close>

section \<open>State\<close>

record QueueManagerStats =
  total_tx_packets :: u64
  total_rx_packets :: u64
  total_tx_bytes :: u64
  total_rx_bytes :: u64
  total_drops_checksum :: u64
  total_drops_no_rx_desc :: u64
  total_drops_buffer_small :: u64
  total_tx_tso_segments :: u64
  total_tx_gso_segments :: u64
  total_tx_vlan_insertions :: u64
  total_rx_vlan_strips :: u64
  total_rx_checksum_verified :: u64
  total_rx_gro_aggregated :: u64
  qms_scheduler_advances :: u64
  qms_scheduler_skips :: u64

record QueueManager =
  queue_pairs :: "QueuePair list"
  scheduler_index :: nat
  scheduler_credit :: nat
  weights :: "u8 list"
  scheduler_advances :: u64
  scheduler_skips :: u64

section \<open>Operations\<close>

definition QueueManager_new :: "QueuePairConfig list \<Rightarrow> QueueManager" where
  "QueueManager_new cfgs =
     (let cfgs' = map (\<lambda>c. if qpc_weight c = 0 then c\<lparr>qpc_weight := 1\<rparr> else c) cfgs;
          ws = map qpc_weight cfgs'
      in \<lparr>queue_pairs = map QueuePair_new cfgs', scheduler_index = 0,
          scheduler_credit = (if cfgs' = [] then 0 else unat (hd ws)), weights = ws,
          scheduler_advances = 0, scheduler_skips = 0\<rparr>)"

definition QueueManager_queue :: "QueueManager \<Rightarrow> nat \<Rightarrow> QueuePair option" where
  "QueueManager_queue m index = (if index \<ge> length (queue_pairs m) then None else Some (queue_pairs m ! index))"

definition QueueManager_queue_stats :: "QueueManager \<Rightarrow> nat \<Rightarrow> QueuePairStats option" where
  "QueueManager_queue_stats m index =
     (if index \<ge> length (queue_pairs m) then None else Some (qp_stats (queue_pairs m ! index)))"

definition next_queue :: "QueueManager \<Rightarrow> QueueManager" where
  "next_queue m =
     (let i = (scheduler_index m + 1) mod length (queue_pairs m)
      in m\<lparr>scheduler_index := i, scheduler_credit := unat (weights m ! i)\<rparr>)"

text \<open>The loop of \<^verbatim>\<open>process_once\<close>; the first argument counts the rounds left.\<close>

fun schedule_loop :: "nat \<Rightarrow> QueueManager \<Rightarrow> NicEnv \<Rightarrow> bool \<times> QueueManager \<times> NicEnv" where
  "schedule_loop 0 m env = (False, m, env)"
| "schedule_loop (Suc n) m env =
     (let i = scheduler_index m;
          (worked, qp', env') = QueuePair_process_once (queue_pairs m ! i, env);
          m1 = m\<lparr>queue_pairs := (queue_pairs m)[i := qp']\<rparr>
      in
      if worked then
        let m2 = (if scheduler_credit m1 > 1 then m1\<lparr>scheduler_credit := scheduler_credit m1 - 1\<rparr>
                  else next_queue m1)
        in (True, m2\<lparr>scheduler_advances := scheduler_advances m2 + 1\<rparr>, env')
      else
        schedule_loop n (next_queue (m1\<lparr>scheduler_skips := scheduler_skips m1 + 1\<rparr>)) env')"

definition QueueManager_process_once :: "QueueManager \<Rightarrow> NicEnv \<Rightarrow> bool \<times> QueueManager \<times> NicEnv" where
  "QueueManager_process_once m env =
     (if queue_pairs m = [] then (False, m, env) else schedule_loop (length (queue_pairs m)) m env)"

definition QueueManager_reset :: "QueueManager \<Rightarrow> QueueManager" where
  "QueueManager_reset m =
     m\<lparr>scheduler_index := 0,
       scheduler_credit := (if queue_pairs m = [] then 0 else unat (hd (weights m))),
       scheduler_advances := 0, scheduler_skips := 0, queue_pairs := map QueuePair_reset (queue_pairs m)\<rparr>"

definition add_qp_stats :: "QueueManagerStats \<Rightarrow> QueuePairStats \<Rightarrow> QueueManagerStats" where
  "add_qp_stats out s = out
     \<lparr>total_tx_packets := total_tx_packets out + tx_packets s,
      total_rx_packets := total_rx_packets out + rx_packets s,
      total_tx_bytes := total_tx_bytes out + tx_bytes s,
      total_rx_bytes := total_rx_bytes out + rx_bytes s,
      total_drops_checksum := total_drops_checksum out + drops_checksum s,
      total_drops_no_rx_desc := total_drops_no_rx_desc out + drops_no_rx_desc s,
      total_drops_buffer_small := total_drops_buffer_small out + drops_buffer_small s,
      total_tx_tso_segments := total_tx_tso_segments out + tx_tso_segments s,
      total_tx_gso_segments := total_tx_gso_segments out + tx_gso_segments s,
      total_tx_vlan_insertions := total_tx_vlan_insertions out + tx_vlan_insertions s,
      total_rx_vlan_strips := total_rx_vlan_strips out + rx_vlan_strips s,
      total_rx_checksum_verified := total_rx_checksum_verified out + rx_checksum_verified s,
      total_rx_gro_aggregated := total_rx_gro_aggregated out + rx_gro_aggregated s\<rparr>"

definition QueueManagerStats_zero :: QueueManagerStats where
  "QueueManagerStats_zero = \<lparr>total_tx_packets = 0, total_rx_packets = 0, total_tx_bytes = 0, total_rx_bytes = 0,
     total_drops_checksum = 0, total_drops_no_rx_desc = 0, total_drops_buffer_small = 0,
     total_tx_tso_segments = 0, total_tx_gso_segments = 0, total_tx_vlan_insertions = 0,
     total_rx_vlan_strips = 0, total_rx_checksum_verified = 0, total_rx_gro_aggregated = 0,
     qms_scheduler_advances = 0, qms_scheduler_skips = 0\<rparr>"

definition QueueManager_stats :: "QueueManager \<Rightarrow> QueueManagerStats" where
  "QueueManager_stats m =
     (let out = foldl (\<lambda>out qp. add_qp_stats out (qp_stats qp)) QueueManagerStats_zero (queue_pairs m)
      in out\<lparr>qms_scheduler_advances := qms_scheduler_advances out + scheduler_advances m,
             qms_scheduler_skips := qms_scheduler_skips out + scheduler_skips m\<rparr>)"

section \<open>The invariant\<close>

definition qm_inv :: "QueueManager \<Rightarrow> bool" where
  "qm_inv m \<longleftrightarrow> length (weights m) = length (queue_pairs m) \<and> (\<forall>w \<in> set (weights m). w \<noteq> 0)
     \<and> (queue_pairs m \<noteq> [] \<longrightarrow> scheduler_index m < length (queue_pairs m)
          \<and> 1 \<le> scheduler_credit m \<and> scheduler_credit m \<le> unat (weights m ! scheduler_index m))"

lemma qm_inv_new [nic_inv]: "qm_inv (QueueManager_new cfgs)"
  by (cases cfgs) (auto simp: qm_inv_def QueueManager_new_def Let_def unat_gt_0 Suc_le_eq)

lemma qm_inv_reset [nic_inv]: "qm_inv m \<Longrightarrow> qm_inv (QueueManager_reset m)"
  by (cases "weights m") (auto simp: qm_inv_def QueueManager_reset_def unat_gt_0 Suc_le_eq)

lemma qm_inv_next:
  assumes "queue_pairs m \<noteq> []" "length (weights m) = length (queue_pairs m)" "\<forall>w \<in> set (weights m). w \<noteq> 0"
  shows "qm_inv (next_queue m)"
  using assms by (auto simp: qm_inv_def next_queue_def Let_def unat_gt_0 Suc_le_eq)

lemma next_queue_frame [simp]:
  "queue_pairs (next_queue m) = queue_pairs m" "weights (next_queue m) = weights m"
  "scheduler_index (next_queue m) = (scheduler_index m + 1) mod length (queue_pairs m)"
  by (simp_all add: next_queue_def Let_def)

lemma qm_inv_advances [simp]:
  "qm_inv (m\<lparr>scheduler_advances := x\<rparr>) = qm_inv m" "qm_inv (m\<lparr>scheduler_skips := y\<rparr>) = qm_inv m"
  by (simp_all add: qm_inv_def)

lemma qm_inv_credit: "qm_inv m \<Longrightarrow> 1 < scheduler_credit m \<Longrightarrow> qm_inv (m\<lparr>scheduler_credit := scheduler_credit m - 1\<rparr>)"
  by (auto simp: qm_inv_def)

lemma schedule_loop_inv:
  "qm_inv m \<Longrightarrow> queue_pairs m \<noteq> [] \<Longrightarrow> schedule_loop n m env = (w, m', env') \<Longrightarrow>
     qm_inv m' \<and> length (queue_pairs m') = length (queue_pairs m) \<and> weights m' = weights m"
proof (induction n arbitrary: m env)
  case (Suc n)
  obtain b qp' e1 where p: "QueuePair_process_once (queue_pairs m ! scheduler_index m, env) = (b, qp', e1)"
    by (metis prod_cases3)
  let ?m1 = "m\<lparr>queue_pairs := (queue_pairs m)[scheduler_index m := qp']\<rparr>"
  let ?ms = "?m1\<lparr>scheduler_skips := scheduler_skips ?m1 + 1\<rparr>"
  have inv: "qm_inv ?m1" using Suc.prems(1) by (simp add: qm_inv_def)
  have "qm_inv (next_queue ?m1)" "qm_inv (next_queue ?ms)"
    by (rule qm_inv_next; use Suc.prems(1,2) in \<open>simp add: qm_inv_def\<close>)+
  note inv = inv this
  show ?case
  proof (cases b)
    case True
    then show ?thesis
      using Suc.prems(3) p inv(1,2) qm_inv_credit [OF inv(1)] by (auto simp: Let_def split: if_splits)
  next
    case False
    then have "schedule_loop n (next_queue ?ms) e1 = (w, m', env')" using Suc.prems(3) p by (simp add: Let_def)
    from Suc.IH [OF inv(3) _ this] Suc.prems(2) show ?thesis by simp
  qed
qed auto

section \<open>Work conservation\<close>

definition all_ok :: "QueueManager \<Rightarrow> NicEnv \<Rightarrow> bool" where
  "all_ok m env \<longleftrightarrow> (\<forall>qp \<in> set (queue_pairs m). qp_ok qp (env_dma env))"

definition idle :: "QueuePair \<Rightarrow> bool" where
  "idle qp \<longleftrightarrow> DescriptorRing_is_empty (qp_tx_ring qp)"

lemma all_ok_step:
  assumes "all_ok m env" "i < length (queue_pairs m)"
    and "QueuePair_process_once (queue_pairs m ! i, env) = (worked, qp', env')"
  shows "worked = (\<not> idle (queue_pairs m ! i))" and "all_ok (m\<lparr>queue_pairs := (queue_pairs m)[i := qp']\<rparr>) env'"
    and "\<not> worked \<Longrightarrow> qp' = queue_pairs m ! i \<and> env' = env"
proof -
  let ?qp = "queue_pairs m ! i"
  have "qp_ok ?qp (env_dma env)" using assms(1,2) by (simp add: all_ok_def)
  note pr = process_once_progress [OF this assms(3)]
  show "worked = (\<not> idle ?qp)" "\<not> worked \<Longrightarrow> qp' = ?qp \<and> env' = env" using pr by (auto simp: idle_def)
  show "all_ok (m\<lparr>queue_pairs := (queue_pairs m)[i := qp']\<rparr>) env'"
    using assms(1) pr qp_ok_span [of "env_dma env" "env_dma env'"]
    by (auto simp: all_ok_def dest!: set_update_subset_insert [THEN subsetD])
qed

text \<open>The queues the loop visits in \<open>n\<close> rounds.\<close>

definition visits :: "QueueManager \<Rightarrow> nat \<Rightarrow> QueuePair set" where
  "visits m n = (\<lambda>k. queue_pairs m ! ((scheduler_index m + k) mod length (queue_pairs m))) ` {..<n}"

lemma schedule_loop_work:
  "qm_inv m \<Longrightarrow> queue_pairs m \<noteq> [] \<Longrightarrow> all_ok m env \<Longrightarrow> schedule_loop n m env = (w, m', env') \<Longrightarrow>
     w = (\<exists>qp \<in> visits m n. \<not> idle qp) \<and> all_ok m' env'"
proof (induction n arbitrary: m env)
  case 0
  then show ?case by (auto simp: visits_def)
next
  case (Suc n)
  let ?i = "scheduler_index m" and ?N = "length (queue_pairs m)"
  obtain b qp' e1 where p: "QueuePair_process_once (queue_pairs m ! ?i, env) = (b, qp', e1)" by (metis prod_cases3)
  let ?m1 = "m\<lparr>queue_pairs := (queue_pairs m)[?i := qp']\<rparr>"
  let ?ms = "next_queue (?m1\<lparr>scheduler_skips := scheduler_skips ?m1 + 1\<rparr>)"
  have i: "?i < ?N" using Suc.prems(1,2) by (simp add: qm_inv_def)
  note st = all_ok_step [OF Suc.prems(3) i p]
  have first: "visits m (Suc n) = insert (queue_pairs m ! ?i) ((\<lambda>k. queue_pairs m ! ((?i + Suc k) mod ?N)) ` {..<n})"
    using i unfolding visits_def lessThan_Suc_eq_insert_0 image_insert image_image by simp
  show ?case
  proof (cases b)
    case True
    then show ?thesis using Suc.prems(4) p st(1,2) first by (auto simp: Let_def all_ok_def split: if_splits)
  next
    case False
    then have same: "qp' = queue_pairs m ! ?i" "e1 = env" using st(3) by auto
    then have qs: "queue_pairs ?ms = queue_pairs m" by simp
    have "qm_inv ?ms" by (rule qm_inv_next; use Suc.prems(1,2) in \<open>simp add: qm_inv_def\<close>)
    moreover have "all_ok ?ms e1" using st(2) by (simp add: all_ok_def)
    moreover have "schedule_loop n ?ms e1 = (w, m', env')" using False Suc.prems(4) p by (simp add: Let_def)
    moreover have "visits ?ms n = (\<lambda>k. queue_pairs m ! ((?i + Suc k) mod ?N)) ` {..<n}"
      using same(1) by (simp add: visits_def mod_simps)
    ultimately show ?thesis
      using Suc.IH [of ?ms e1] Suc.prems(2) qs first st(1) False by auto
  qed
qed

lemma visits_all:
  assumes "scheduler_index m < length (queue_pairs m)"
  shows "visits m (length (queue_pairs m)) = set (queue_pairs m)"
proof -
  let ?n = "length (queue_pairs m)" and ?i = "scheduler_index m"
  have "\<exists>k < ?n. j = (?i + k) mod ?n" if "j < ?n" for j
  proof -
    have "0 < ?n" using that by linarith
    then show ?thesis
      using that assms by (intro exI [of _ "(j + (?n - ?i)) mod ?n"]) (simp add: mod_simps)
  qed
  moreover have "(?i + k) mod ?n < ?n" for k using assms by (intro mod_less_divisor) linarith
  ultimately show ?thesis
    unfolding visits_def by (fastforce simp: in_set_conv_nth image_iff)
qed

section \<open>Properties\<close>

text \<open>C21: the scheduler is work-conserving: with well-formed queue pairs it reports work exactly when some
  queue has a transmit descriptor, whichever queue its turn is at, and it keeps its own invariant (index in
  range, credit between 1 and the weight of the current queue) and the queues well formed.\<close>

theorem scheduler_work_conserving:
  assumes "qm_inv m" and "all_ok m env" and "QueueManager_process_once m env = (worked, m', env')"
  shows "worked = (\<exists>qp \<in> set (queue_pairs m). \<not> idle qp) \<and> qm_inv m' \<and> all_ok m' env'"
proof (cases "queue_pairs m = []")
  case True
  then show ?thesis using assms by (auto simp: QueueManager_process_once_def)
next
  case False
  then have r: "schedule_loop (length (queue_pairs m)) m env = (worked, m', env')"
    using assms(3) by (simp add: QueueManager_process_once_def)
  have i: "scheduler_index m < length (queue_pairs m)" using assms(1) False by (simp add: qm_inv_def)
  show ?thesis
    using schedule_loop_work [OF assms(1) False assms(2) r] schedule_loop_inv [OF assms(1) False r]
      visits_all [OF i] by simp
qed

theorem scheduler_work_conserving_witness:
  "\<not> fst (QueueManager_process_once (QueueManager_new [demo_qp_config, demo_qp_config]) demo_env)"
proof -
  let ?m = "QueueManager_new [demo_qp_config, demo_qp_config]"
  have qs: "queue_pairs ?m = [QueuePair_new demo_qp_config, QueuePair_new demo_qp_config]"
    by (simp add: QueueManager_new_def Let_def)
  have ok: "all_ok ?m demo_env"
    unfolding all_ok_def qs
    by (simp add: qp_ok_def QueuePair_new_def DescriptorRing_new_def ring_inv.simps sizeof_TxDescriptor_def
        sizeof_RxDescriptor_def)
  have idle: "idle (QueuePair_new demo_qp_config)"
    by (simp add: idle_def QueuePair_new_def DescriptorRing_new_def DescriptorRing_is_empty_def)
  obtain w m' env' where r: "QueueManager_process_once ?m demo_env = (w, m', env')" by (metis prod_cases3)
  from scheduler_work_conserving [OF qm_inv_new ok r] have "\<not> w" unfolding qs using idle by auto
  then show ?thesis unfolding r by simp
qed

text \<open>The state after \<open>k\<close> calls.\<close>

fun qm_iter :: "nat \<Rightarrow> QueueManager \<times> NicEnv \<Rightarrow> QueueManager \<times> NicEnv" where
  "qm_iter 0 s = s"
| "qm_iter (Suc k) s = qm_iter k (snd (QueueManager_process_once (fst s) (snd s)))"

lemma process_once_serves:
  assumes "qm_inv m" "queue_pairs m \<noteq> []" "QueuePair_process_once (queue_pairs m ! scheduler_index m, env) = (True, qp', env')"
    and "QueueManager_process_once m env = (w, m', env'')"
  shows "w \<and> env'' = env' \<and> queue_pairs m' = (queue_pairs m)[scheduler_index m := qp'] \<and> weights m' = weights m
    \<and> (if 1 < scheduler_credit m then scheduler_index m' = scheduler_index m \<and> scheduler_credit m' = scheduler_credit m - 1
       else let i = (scheduler_index m + 1) mod length (queue_pairs m)
            in scheduler_index m' = i \<and> scheduler_credit m' = unat (weights m ! i))"
proof -
  obtain n where n: "length (queue_pairs m) = Suc n" using assms(2) by (cases "queue_pairs m") auto
  show ?thesis
    using assms(3,4) unfolding QueueManager_process_once_def n using assms(2)
    by (auto simp: Let_def next_queue_def n split: if_splits)
qed

text \<open>C22: weighted turns. As long as the current queue has work, consecutive calls serve it until its credit
  (its weight, at the start of its turn) is used up; then the turn passes to the next queue with that
  queue's full weight. So a busy queue gets exactly its weight in a row and never more.\<close>

theorem weighted_turn:
  assumes "qm_inv m" and "queue_pairs m \<noteq> []" and "0 < c" and "c = scheduler_credit m"
    and "\<forall>k < c. fst (QueuePair_process_once
           (queue_pairs (fst (qm_iter k (m, env))) ! scheduler_index m, snd (qm_iter k (m, env))))"
  shows "(\<forall>k < c. scheduler_index (fst (qm_iter k (m, env))) = scheduler_index m)
    \<and> (let i = (scheduler_index m + 1) mod length (queue_pairs m); m' = fst (qm_iter c (m, env))
       in scheduler_index m' = i \<and> scheduler_credit m' = unat (weights m ! i))"
  using assms
proof (induction c arbitrary: m env)
  case (Suc c)
  obtain qp' e1 where p: "QueuePair_process_once (queue_pairs m ! scheduler_index m, env) = (True, qp', e1)"
    using Suc.prems(5) [rule_format, of 0] by (cases "QueuePair_process_once (queue_pairs m ! scheduler_index m, env)") auto
  obtain w m1 e2 where q: "QueueManager_process_once m env = (w, m1, e2)" by (metis prod_cases3)
  note sv = process_once_serves [OF Suc.prems(1,2) p q]
  have inv1: "qm_inv m1"
    using schedule_loop_inv [OF Suc.prems(1,2)] q Suc.prems(2) by (fastforce simp: QueueManager_process_once_def)
  have step: "qm_iter (Suc k) (m, env) = qm_iter k (m1, e2)" for k using q by simp
  show ?case
  proof (cases "c = 0")
    case True
    then have "scheduler_credit m = 1" using Suc.prems(4) by simp
    then show ?thesis using sv True step [of 0] by (auto simp: Let_def)
  next
    case False
    then have cr: "scheduler_index m1 = scheduler_index m" "scheduler_credit m1 = c" using sv Suc.prems(4) by auto
    have len: "queue_pairs m1 \<noteq> []" "length (queue_pairs m1) = length (queue_pairs m)"
      using sv Suc.prems(2) by auto
    have "\<forall>k < c. fst (QueuePair_process_once
        (queue_pairs (fst (qm_iter k (m1, e2))) ! scheduler_index m1, snd (qm_iter k (m1, e2))))"
      using Suc.prems(5) step cr(1) by (metis Suc_mono)
    from Suc.IH [OF inv1 len(1) _ cr(2) [symmetric] this] False cr len(2) sv step show ?thesis
      by (auto simp: Let_def less_Suc_eq_0_disj)
  qed
qed simp

theorem weighted_turn_witness:
  "scheduler_index (fst (qm_iter 1 ((QueueManager_new [demo_qp_config, demo_qp_config])
     \<lparr>queue_pairs := [demo_qp, QueuePair_new demo_qp_config]\<rparr>, demo_env))) = 1"
proof -
  let ?m = "(QueueManager_new [demo_qp_config, demo_qp_config])\<lparr>queue_pairs := [demo_qp, QueuePair_new demo_qp_config]\<rparr>"
  have m: "qm_inv ?m" "scheduler_credit ?m = 1" "scheduler_index ?m = 0" "length (queue_pairs ?m) = 2"
    "queue_pairs ?m ! 0 = demo_qp"
    by (simp_all add: qm_inv_def QueueManager_new_def Let_def)
  have work: "\<forall>k < 1. fst (QueuePair_process_once
      (queue_pairs (fst (qm_iter k (?m, demo_env))) ! scheduler_index ?m, snd (qm_iter k (?m, demo_env))))"
    using demo_qp_works m(3,5) by (simp only: less_one simp_thms qm_iter.simps fst_conv snd_conv)
  have ne: "queue_pairs ?m \<noteq> []" by simp
  from weighted_turn [OF m(1) ne _ m(2) [symmetric] work] show ?thesis
    unfolding Let_def m(3,4) by simp
qed

end
