(* ===== verification/Nic_Vf_Device.thy ===== *)
theory Nic_Vf_Device
  imports Nic_Queue_Manager Nic_Sriov
begin

text \<open>
  The device a virtual function presents to its driver (\<^verbatim>\<open>vf_device.h/.cpp\<close>): queue pairs on the queue identifiers the physical
  function gave it, each with four doorbells. A doorbell belongs to the ring or completion queue that rings it, so the vectors of
  doorbells are read off the queue pairs. The theory shows that the devices of the virtual functions of one manager use disjoint queues,
  and that their rings are created without a descriptor size, so that no descriptor is ever accepted.
\<close>

section \<open>State\<close>

text \<open>\<open>vd_has_dispatcher\<close> says that \<^verbatim>\<open>interrupt_dispatcher\<close> is not null and \<open>vd_has_dma\<close> that \<^verbatim>\<open>dma_engine\<close> is not; both objects are the
  environment of the queue pairs.\<close>

record VFDeviceConfig =
  vd_vf_id :: u16
  vd_vf :: "VirtualFunction option"
  vd_has_dma :: bool
  vd_has_dispatcher :: bool
  vd_num_queue_pairs :: u16
  queue_depth :: u16
  completion_queue_depth :: u16

record VFDevice =
  vd_config :: VFDeviceConfig
  vd_queue_pairs :: "QueuePair list"

record VFDeviceStats =
  vds_tx_packets :: u64
  vds_rx_packets :: u64
  vds_tx_bytes :: u64
  vds_rx_bytes :: u64
  vds_drops :: u64

section \<open>Operations\<close>

text \<open>The designated initialisers name the ring size only: the descriptor size and the queue identifier of the rings keep their
  default, zero.\<close>

definition vf_queue_pair_config :: "VFDeviceConfig \<Rightarrow> u16 \<Rightarrow> QueuePairConfig" where
  "vf_queue_pair_config c queue_id =
     (let ring = \<lparr>descriptor_size = 0, ring_size = unat (queue_depth c), base_address = 0, ring_queue_id = 0, host_backed = False\<rparr>;
          completion = \<lparr>cq_ring_size = unat (completion_queue_depth c), cq_queue_id = 0\<rparr>
      in \<lparr>qpc_queue_id = queue_id, qpc_tx_ring = ring, qpc_rx_ring = ring, qpc_tx_completion = completion,
          qpc_rx_completion = completion, qpc_tx_doorbell = Some Doorbell_new, qpc_rx_doorbell = Some Doorbell_new,
          qpc_tx_completion_doorbell = Some Doorbell_new, qpc_rx_completion_doorbell = Some Doorbell_new,
          has_dispatcher = vd_has_dispatcher c, qpc_weight = 1, max_mtu = kJumboMtu, enable_tx_interrupts = False,
          enable_rx_interrupts = True\<rparr>)"

definition initialize_queue_pairs :: "VFDeviceConfig \<Rightarrow> QueuePair list" where
  "initialize_queue_pairs c =
     (case vd_vf c of
        None \<Rightarrow> []
      | Some vf \<Rightarrow>
          if \<not> vd_has_dma c then []
          else
            let num_qps = unat (min (vd_num_queue_pairs c) (of_nat (length (queue_ids vf))))
            in map (\<lambda>queue_id. QueuePair_new (vf_queue_pair_config c queue_id)) (take num_qps (queue_ids vf)))"

definition VFDevice_new :: "VFDeviceConfig \<Rightarrow> VFDevice" where
  "VFDevice_new c = \<lparr>vd_config = c, vd_queue_pairs = initialize_queue_pairs c\<rparr>"

definition VFDevice_queue_pair :: "VFDevice \<Rightarrow> nat \<Rightarrow> QueuePair option" where
  "VFDevice_queue_pair d index = (if index < length (vd_queue_pairs d) then Some (vd_queue_pairs d ! index) else None)"

definition process_queue_pair :: "nat \<Rightarrow> VFDevice \<times> NicEnv \<Rightarrow> bool \<times> VFDevice \<times> NicEnv" where
  "process_queue_pair index = (\<lambda>(d, env).
     case VFDevice_queue_pair d index of
       None \<Rightarrow> (False, d, env)
     | Some qp \<Rightarrow>
         let (worked, qp', env') = QueuePair_process_once (qp, env)
         in (worked, d\<lparr>vd_queue_pairs := (vd_queue_pairs d)[index := qp']\<rparr>, env'))"

definition VFDevice_process_all :: "VFDevice \<times> NicEnv \<Rightarrow> nat \<times> VFDevice \<times> NicEnv" where
  "VFDevice_process_all st =
     fold (\<lambda>i (n, st). let (worked, st') = process_queue_pair i st in (if worked then n + 1 else n, st'))
       [0..<length (vd_queue_pairs (fst st))] (0, st)"

definition tx_doorbell :: "VFDevice \<Rightarrow> nat \<Rightarrow> Doorbell option" where
  "tx_doorbell d i = (if i < length (vd_queue_pairs d) then ring_db (qp_tx_ring (vd_queue_pairs d ! i)) else None)"

definition rx_doorbell :: "VFDevice \<Rightarrow> nat \<Rightarrow> Doorbell option" where
  "rx_doorbell d i = (if i < length (vd_queue_pairs d) then ring_db (qp_rx_ring (vd_queue_pairs d ! i)) else None)"

definition tx_completion_doorbell :: "VFDevice \<Rightarrow> nat \<Rightarrow> Doorbell option" where
  "tx_completion_doorbell d i = (if i < length (vd_queue_pairs d) then cq_db (qp_tx_completion (vd_queue_pairs d ! i)) else None)"

definition rx_completion_doorbell :: "VFDevice \<Rightarrow> nat \<Rightarrow> Doorbell option" where
  "rx_completion_doorbell d i = (if i < length (vd_queue_pairs d) then cq_db (qp_rx_completion (vd_queue_pairs d ! i)) else None)"

definition add_vf_stats :: "QueuePairStats \<Rightarrow> VFDeviceStats \<Rightarrow> VFDeviceStats" where
  "add_vf_stats s out = out
     \<lparr>vds_tx_packets := vds_tx_packets out + tx_packets s, vds_rx_packets := vds_rx_packets out + rx_packets s,
      vds_tx_bytes := vds_tx_bytes out + tx_bytes s, vds_rx_bytes := vds_rx_bytes out + rx_bytes s,
      vds_drops := vds_drops out + (drops_checksum s + drops_no_rx_desc s + drops_buffer_small s + drops_mtu_exceeded s
        + drops_invalid_mss s + drops_too_many_segments s)\<rparr>"

definition aggregate_stats :: "VFDevice \<Rightarrow> VFDeviceStats" where
  "aggregate_stats d = fold (\<lambda>qp. add_vf_stats (qp_stats qp)) (vd_queue_pairs d)
     \<lparr>vds_tx_packets = 0, vds_rx_packets = 0, vds_tx_bytes = 0, vds_rx_bytes = 0, vds_drops = 0\<rparr>"

definition VFDevice_reset_stats :: "VFDevice \<Rightarrow> VFDevice" where
  "VFDevice_reset_stats d = d\<lparr>vd_queue_pairs := map QueuePair_reset_stats (vd_queue_pairs d)\<rparr>"

definition reset_doorbells :: "QueuePair \<Rightarrow> QueuePair" where
  "reset_doorbells qp =
     qp\<lparr>qp_tx_ring := (qp_tx_ring qp)\<lparr>ring_db := map_option Doorbell_reset (ring_db (qp_tx_ring qp))\<rparr>,
        qp_rx_ring := (qp_rx_ring qp)\<lparr>ring_db := map_option Doorbell_reset (ring_db (qp_rx_ring qp))\<rparr>,
        qp_tx_completion := (qp_tx_completion qp)\<lparr>cq_db := map_option Doorbell_reset (cq_db (qp_tx_completion qp))\<rparr>,
        qp_rx_completion := (qp_rx_completion qp)\<lparr>cq_db := map_option Doorbell_reset (cq_db (qp_rx_completion qp))\<rparr>\<rparr>"

definition VFDevice_reset :: "VFDevice \<Rightarrow> VFDevice" where
  "VFDevice_reset d = d\<lparr>vd_queue_pairs := map (\<lambda>qp. reset_doorbells (QueuePair_reset qp)) (vd_queue_pairs d)\<rparr>"

section \<open>Use of a device\<close>

text \<open>What a driver and the physical function do with a device: they push descriptors through the queue pairs they are given, let the device
  process, and reset it.\<close>

definition on_qp :: "nat \<Rightarrow> (QueuePair \<times> NicEnv \<Rightarrow> QueuePair \<times> NicEnv) \<Rightarrow> VFDevice \<times> NicEnv \<Rightarrow> VFDevice \<times> NicEnv" where
  "on_qp i f = (\<lambda>(d, env).
     case VFDevice_queue_pair d i of
       None \<Rightarrow> (d, env)
     | Some qp \<Rightarrow> let (qp', env') = f (qp, env) in (d\<lparr>vd_queue_pairs := (vd_queue_pairs d)[i := qp']\<rparr>, env'))"

definition push_tx :: "bytes \<Rightarrow> QueuePair \<times> NicEnv \<Rightarrow> QueuePair \<times> NicEnv" where
  "push_tx bs = (\<lambda>(qp, env).
     let (r, ring, dma) = DescriptorRing_push_descriptor (qp_tx_ring qp) (env_dma env) bs
     in (qp\<lparr>qp_tx_ring := ring\<rparr>, env\<lparr>env_dma := dma\<rparr>))"

definition push_rx :: "bytes \<Rightarrow> QueuePair \<times> NicEnv \<Rightarrow> QueuePair \<times> NicEnv" where
  "push_rx bs = (\<lambda>(qp, env).
     let (r, ring, dma) = DescriptorRing_push_descriptor (qp_rx_ring qp) (env_dma env) bs
     in (qp\<lparr>qp_rx_ring := ring\<rparr>, env\<lparr>env_dma := dma\<rparr>))"

datatype vf_dev_call = PushTx nat bytes | PushRx nat bytes | ProcessQueuePair nat | ResetVfStats | ResetVfDevice

fun vf_dev_step :: "vf_dev_call \<Rightarrow> VFDevice \<times> NicEnv \<Rightarrow> VFDevice \<times> NicEnv" where
  "vf_dev_step (PushTx i bs) st = on_qp i (push_tx bs) st"
| "vf_dev_step (PushRx i bs) st = on_qp i (push_rx bs) st"
| "vf_dev_step (ProcessQueuePair i) st = snd (process_queue_pair i st)"
| "vf_dev_step ResetVfStats st = (VFDevice_reset_stats (fst st), snd st)"
| "vf_dev_step ResetVfDevice st = (VFDevice_reset (fst st), snd st)"

text \<open>Every queue pair of the device: its transmit ring has descriptors of no bytes and nothing was ever counted.\<close>

definition inert :: "QueuePair \<Rightarrow> bool" where
  "inert qp \<longleftrightarrow> ring_config (qp_tx_ring qp) = qpc_tx_ring (qp_config qp) \<and> descriptor_size (qpc_tx_ring (qp_config qp)) = 0 \<and>
     \<not> host_backed (qpc_tx_ring (qp_config qp)) \<and> qp_stats qp = QueuePairStats_zero"

lemma inert_process:
  assumes "inert qp"
  shows "\<exists>qp'. QueuePair_process_once (qp, env) = (False, qp', env) \<and> inert qp' \<and> qp_config qp' = qp_config qp"
proof (cases "DescriptorRing_is_empty (qp_tx_ring qp)")
  case False
  then show ?thesis
    using assms by (simp add: QueuePair_process_once_def Let_def DescriptorRing_pop_descriptor_def inert_def decode_tx_descriptor_def
        sizeof_TxDescriptor_def)
qed (use assms in \<open>simp add: QueuePair_process_once_def\<close>)

lemma inert_push:
  assumes "inert qp"
  shows "inert (fst (push_tx bs (qp, env)))" "inert (fst (push_rx bs (qp, env)))"
    "qp_config (fst (push_tx bs (qp, env))) = qp_config qp" "qp_config (fst (push_rx bs (qp, env))) = qp_config qp"
  using assms
  by (auto simp: push_tx_def push_rx_def inert_def DescriptorRing_push_descriptor_def Let_def split: prod.splits if_splits)

lemma inert_reset:
  assumes "inert qp"
  shows "inert (QueuePair_reset_stats qp)" "inert (reset_doorbells (QueuePair_reset qp))"
    "qp_config (QueuePair_reset_stats qp) = qp_config qp" "qp_config (reset_doorbells (QueuePair_reset qp)) = qp_config qp"
  using assms
  by (simp_all add: inert_def QueuePair_reset_stats_def reset_doorbells_def QueuePair_reset_def DescriptorRing_reset_def)

definition vd_inv :: "VFDeviceConfig \<Rightarrow> VFDevice \<Rightarrow> bool" where
  "vd_inv c d \<longleftrightarrow> list_all inert (vd_queue_pairs d) \<and>
     map qp_config (vd_queue_pairs d) = map qp_config (initialize_queue_pairs c)"

lemma vd_inv_new: "vd_inv c (VFDevice_new c)"
  by (auto simp: vd_inv_def VFDevice_new_def initialize_queue_pairs_def list_all_iff inert_def QueuePair_new_def DescriptorRing_new_def
      vf_queue_pair_config_def Let_def split: option.split)

lemma vd_inv_update:
  assumes "vd_inv c d" "i < length (vd_queue_pairs d)" "inert qp'" "qp_config qp' = qp_config (vd_queue_pairs d ! i)"
  shows "vd_inv c (d\<lparr>vd_queue_pairs := (vd_queue_pairs d)[i := qp']\<rparr>)"
proof -
  have "map qp_config ((vd_queue_pairs d)[i := qp']) = map qp_config (vd_queue_pairs d)"
    using assms(2, 4) by (intro nth_equalityI) (auto simp: nth_list_update)
  moreover have "list_all inert ((vd_queue_pairs d)[i := qp'])"
    using assms(1, 3) by (auto simp: vd_inv_def list_all_iff dest!: set_update_subset_insert [THEN subsetD])
  ultimately show ?thesis using assms(1) by (simp add: vd_inv_def)
qed

lemma vd_inv_on_qp:
  assumes "vd_inv c d" and f: "\<And>qp. inert qp \<Longrightarrow> inert (fst (f (qp, env))) \<and> qp_config (fst (f (qp, env))) = qp_config qp"
  shows "vd_inv c (fst (on_qp i f (d, env)))"
  using assms(1) f [of "vd_queue_pairs d ! i"] vd_inv_update [OF assms(1), of i]
  by (auto simp: on_qp_def VFDevice_queue_pair_def vd_inv_def list_all_length Let_def split: prod.splits)

lemma vd_process:
  assumes "vd_inv c d"
  shows "\<not> fst (process_queue_pair i (d, env)) \<and> vd_inv c (fst (snd (process_queue_pair i (d, env))))"
proof (cases "i < length (vd_queue_pairs d)")
  case True
  then have "inert (vd_queue_pairs d ! i)" using assms by (simp add: vd_inv_def list_all_length)
  then obtain qp' where qp: "QueuePair_process_once (vd_queue_pairs d ! i, env) = (False, qp', env)" "inert qp'"
      "qp_config qp' = qp_config (vd_queue_pairs d ! i)"
    using inert_process by blast
  with True vd_inv_update [OF assms True qp(2,3)] show ?thesis by (simp add: process_queue_pair_def VFDevice_queue_pair_def)
qed (use assms in \<open>simp add: process_queue_pair_def VFDevice_queue_pair_def\<close>)

lemma vd_inv_reset: "vd_inv c d \<Longrightarrow> vd_inv c (VFDevice_reset_stats d)" "vd_inv c d \<Longrightarrow> vd_inv c (VFDevice_reset d)"
  by (auto simp: vd_inv_def VFDevice_reset_stats_def VFDevice_reset_def list_all_iff inert_reset list.map_comp comp_def cong: map_cong)

lemma vd_inv_step: "vd_inv c (fst st) \<Longrightarrow> vd_inv c (fst (vf_dev_step call st))"
  using vd_inv_on_qp [of c "fst st" "push_tx bs" "snd st" for bs] vd_inv_on_qp [of c "fst st" "push_rx bs" "snd st" for bs] vd_process [of c "fst st" _ "snd st"]
  by (cases call) (simp_all add: inert_push vd_inv_reset)

lemma vd_inv_run: "vd_inv c (fst st) \<Longrightarrow> vd_inv c (fst (fold vf_dev_step calls st))"
proof (induction calls arbitrary: st)
  case (Cons call calls)
  from Cons.IH [OF vd_inv_step [OF Cons.prems]] show ?case by simp
qed simp

lemma process_all_inert:
  assumes "vd_inv c (fst st)"
  shows "fst (VFDevice_process_all st) = 0 \<and> vd_inv c (fst (snd (VFDevice_process_all st)))"
proof -
  have "\<exists>st'. fold (\<lambda>i (n, st). let (worked, st') = process_queue_pair i st in (if worked then n + 1 else n, st')) is (0 :: nat, st) = (0, st') \<and>
      vd_inv c (fst st')" for "is"
    using assms
  proof (induction "is" arbitrary: st)
    case (Cons i "is")
    obtain w st' where p: "process_queue_pair i st = (w, st')" by (metis surj_pair)
    then have "\<not> w" "vd_inv c (fst st')" using vd_process [OF Cons.prems, of i "snd st"] by simp_all
    from Cons.IH [OF this(2)] this(1) p show ?case by simp
  qed simp
  then show ?thesis unfolding VFDevice_process_all_def by (metis fst_conv snd_conv)
qed

definition device_queues :: "VFDevice \<Rightarrow> u16 list" where
  "device_queues d = map (\<lambda>qp. qpc_queue_id (qp_config qp)) (vd_queue_pairs d)"

lemma device_queues_inv: "vd_inv c d \<Longrightarrow> device_queues d = map qpc_queue_id (map qp_config (initialize_queue_pairs c))"
  unfolding vd_inv_def device_queues_def by (drule conjunct2, drule arg_cong [where f = "map qpc_queue_id"]) (simp add: comp_def)

lemma initial_queues:
  "map qpc_queue_id (map qp_config (initialize_queue_pairs c)) =
     (case vd_vf c of None \<Rightarrow> [] | Some vf \<Rightarrow>
        if vd_has_dma c then take (unat (min (vd_num_queue_pairs c) (of_nat (length (queue_ids vf))))) (queue_ids vf) else [])"
  by (simp add: initialize_queue_pairs_def vf_queue_pair_config_def QueuePair_new_def Let_def comp_def split: option.split)

section \<open>Properties\<close>

text \<open>C33: isolation of virtual devices. Take any history of a manager and, for each of two of its virtual functions, a device made
  for it and used in any way. Each device works on the first queues of its function, as many as it was configured for, and on
  no others; so no queue is served by both devices, and none is a queue of the physical function.\<close>

theorem vf_devices_isolated:
  assumes "vd_vf c = um_lookup (vfs (manager_run pf history)) k" and "vd_vf c' = um_lookup (vfs (manager_run pf history)) k'" and "k \<noteq> k'"
  shows "set (device_queues (fst (fold vf_dev_step calls (VFDevice_new c, env)))) \<inter>
      set (device_queues (fst (fold vf_dev_step calls' (VFDevice_new c', env')))) = {} \<and>
    (\<forall>q \<in> set (device_queues (fst (fold vf_dev_step calls (VFDevice_new c, env)))). pf_reserved_queues pf \<le> q \<and> q < total_queues pf) \<and>
    (\<forall>vf. vd_vf c = Some vf \<and> vd_has_dma c \<and> length (queue_ids vf) < 2 ^ 16 \<longrightarrow>
       device_queues (fst (fold vf_dev_step calls (VFDevice_new c, env))) =
         take (min (unat (vd_num_queue_pairs c)) (length (queue_ids vf))) (queue_ids vf))"
proof -
  define m where "m = manager_run pf history"
  have ok: "manager_ok m" "pf_config m = pf" using manager_run_ok [of pf history] by (simp_all add: m_def)
  then have "tracks (unat (total_queues pf)) (unat (pf_reserved_queues pf)) (queue_ranges m) (queue_allocated m)"
    by (auto simp: manager_ok_def)
  from tracks_isolated [OF this owned_ranges(1) [OF ok(1)]]
  have iso: "\<forall>k. \<forall>q \<in> vf_queues m k. pf_reserved_queues pf \<le> q \<and> q < total_queues pf" "vf_queues m k \<inter> vf_queues m k' = {}"
    using assms(3) by (auto simp: isolated_def)
  have dq: "device_queues (fst (fold vf_dev_step calls (VFDevice_new c, env))) = map qpc_queue_id (map qp_config (initialize_queue_pairs c))"
    for calls c env using device_queues_inv [OF vd_inv_run] vd_inv_new by simp
  have sub: "set (map qpc_queue_id (map qp_config (initialize_queue_pairs c))) \<subseteq> vf_queues m k" if "vd_vf c = um_lookup (vfs m) k" for c k
    unfolding initial_queues using that by (auto simp: vf_queues_def dest: in_set_takeD split: option.splits if_splits)
  have "unat (min (vd_num_queue_pairs c) (of_nat n)) = min (unat (vd_num_queue_pairs c)) n" if "n < 2 ^ 16" for n
    using that by (simp add: min_def word_le_nat_alt unat_of_nat)
  then have "map qpc_queue_id (map qp_config (initialize_queue_pairs c)) = take (min (unat (vd_num_queue_pairs c)) (length (queue_ids vf))) (queue_ids vf)"
    if "vd_vf c = Some vf" "vd_has_dma c" "length (queue_ids vf) < 2 ^ 16" for vf using that by (simp add: initial_queues del: map_map)
  moreover note sub [OF assms(1) [folded m_def]] sub [OF assms(2) [folded m_def]] iso
  ultimately show ?thesis unfolding dq by blast
qed

theorem vf_devices_isolated_witness:
  "device_queues (fst (fold vf_dev_step [PushTx 0 [], ProcessQueuePair 0, ResetVfDevice]
     (VFDevice_new \<lparr>vd_vf_id = 2, vd_vf = um_lookup (vfs (manager_run demo_pf [CreateVf 1 (demo_vf 1), CreateVf 2 (demo_vf 2)])) 2,
        vd_has_dma = True, vd_has_dispatcher = False, vd_num_queue_pairs = 2, queue_depth = 4, completion_queue_depth = 4\<rparr>, demo_env))) = [4, 5]"
proof -
  let ?m = "manager_run demo_pf [CreateVf 1 (demo_vf 1), CreateVf 2 (demo_vf 2)]"
  have "map_option queue_ids (um_lookup (vfs ?m) 2) = Some [4, 5, 6]" by code_simp
  then obtain v where v: "um_lookup (vfs ?m) 2 = Some v" "queue_ids v = [4, 5, 6]" by (auto simp: map_option_case split: option.splits)
  then show ?thesis
    using vf_devices_isolated [where pf = demo_pf and history = "[CreateVf 1 (demo_vf 1), CreateVf 2 (demo_vf 2)]" and k = 2 and k' = 1
        and c = "\<lparr>vd_vf_id = 2, vd_vf = um_lookup (vfs ?m) 2, vd_has_dma = True, vd_has_dispatcher = False, vd_num_queue_pairs = 2,
          queue_depth = 4, completion_queue_depth = 4\<rparr>"
        and c' = "\<lparr>vd_vf_id = 1, vd_vf = um_lookup (vfs ?m) 1, vd_has_dma = True, vd_has_dispatcher = False, vd_num_queue_pairs = 2,
          queue_depth = 4, completion_queue_depth = 4\<rparr>"
        and calls = "[PushTx 0 [], ProcessQueuePair 0, ResetVfDevice]" and env = demo_env]
    by simp
qed

text \<open>The rings of a virtual device are created without a descriptor size. So a transmit descriptor is refused, the device never
  does any work, and its statistics stay zero, whatever its driver does.\<close>

theorem vf_device_inert:
  assumes "d = fst (fold vf_dev_step calls (VFDevice_new c, env))"
  shows "\<not> fst (process_queue_pair i (d, env')) \<and> fst (VFDevice_process_all (d, env')) = 0 \<and>
    (\<forall>qp \<in> set (vd_queue_pairs d). qp_stats qp = QueuePairStats_zero \<and>
       (\<forall>bs. length bs = sizeof_TxDescriptor \<longrightarrow>
          \<not> DmaResult_ok (fst (DescriptorRing_push_descriptor (qp_tx_ring qp) (env_dma env') bs))))"
proof -
  have inv: "vd_inv c d" unfolding assms by (rule vd_inv_run) (simp add: vd_inv_new)
  then have "inert qp" if "qp \<in> set (vd_queue_pairs d)" for qp using that by (auto simp: vd_inv_def list_all_iff)
  then show ?thesis
    using vd_process [OF inv, of i env'] process_all_inert [of c "(d, env')"] inv
    by (auto simp: inert_def DescriptorRing_push_descriptor_def sizeof_TxDescriptor_def DmaResult_ok_def)
qed

end
