(* ===== verification/Nic_Registers.thy ===== *)
theory Nic_Registers
  imports Nic_Prelude
begin

text \<open>
  The register file of the device (\<^verbatim>\<open>register.h/.cpp\<close>) and the field layouts of its registers
  (\<^verbatim>\<open>register_formats.h\<close>). A register definition says who may change which bits: the theory shows that, over any sequence of
  writes, each register is a cell of its own whose bits follow the rule of its access type, and that reading leaves the
  register file alone, also for a read-to-clear register.
\<close>

section \<open>Register file\<close>

datatype RegisterAccess = RO | RW | RW1C | RW1S | WO | RC

datatype RegisterWidth = Bits8 | Bits16 | Bits32 | Bits64

record RegisterDef =
  reg_name :: string
  reg_offset :: u32
  reg_width :: RegisterWidth
  reg_access :: RegisterAccess
  reset_value :: u64
  write_mask :: u64

text \<open>\<open>has_write_callback\<close> says that a callback is set; its calls are logged with offset, old and new value.\<close>

record RegisterFile =
  registers :: "(u32 \<times> RegisterDef) list"
  reg_values :: "(u32 \<times> u64) list"
  has_write_callback :: bool
  write_log :: "(u32 \<times> u64 \<times> u64) list"

definition RegisterFile_new :: RegisterFile where
  "RegisterFile_new = \<lparr>registers = [], reg_values = [], has_write_callback = False, write_log = []\<rparr>"

definition add_register :: "RegisterDef \<Rightarrow> RegisterFile \<Rightarrow> RegisterFile" where
  "add_register d f = f\<lparr>registers := um_update (reg_offset d) d (registers f)\<rparr>"

definition add_registers :: "RegisterDef list \<Rightarrow> RegisterFile \<Rightarrow> RegisterFile" where
  "add_registers ds f = fold add_register ds f"

definition RegisterFile_reset :: "RegisterFile \<Rightarrow> RegisterFile" where
  "RegisterFile_reset f =
     f\<lparr>reg_values := fold (\<lambda>(offset, d) vs. um_update offset (reset_value d) vs) (registers f) []\<rparr>"

definition RegisterFile_read32 :: "RegisterFile \<Rightarrow> u32 \<Rightarrow> u32" where
  "RegisterFile_read32 f offset =
     (case um_lookup (reg_values f) offset of
        None \<Rightarrow> 0xFFFFFFFF
      | Some v \<Rightarrow>
          (case um_lookup (registers f) offset of
             Some d \<Rightarrow> if reg_access d = WO then 0 else ucast (v AND 0xFFFFFFFF)
           | None \<Rightarrow> ucast (v AND 0xFFFFFFFF)))"

definition RegisterFile_read64 :: "RegisterFile \<Rightarrow> u32 \<Rightarrow> u64" where
  "RegisterFile_read64 f offset =
     (case um_lookup (reg_values f) offset of
        None \<Rightarrow> 0xFFFFFFFFFFFFFFFF
      | Some v \<Rightarrow>
          (case um_lookup (registers f) offset of
             Some d \<Rightarrow> if reg_access d = WO then 0 else v
           | None \<Rightarrow> v))"

definition apply_write :: "RegisterDef \<Rightarrow> u64 \<Rightarrow> u64 \<Rightarrow> u64" where
  "apply_write d old_value write_value =
     (let masked = write_value AND write_mask d;
          preserved = old_value AND NOT (write_mask d)
      in case reg_access d of
           RW \<Rightarrow> preserved OR masked
         | WO \<Rightarrow> preserved OR masked
         | RW1C \<Rightarrow> old_value AND NOT masked
         | RW1S \<Rightarrow> old_value OR masked
         | RO \<Rightarrow> old_value
         | RC \<Rightarrow> old_value)"

text \<open>\<^verbatim>\<open>write32\<close> and \<^verbatim>\<open>write64\<close> have the same body; the 32-bit value is zero-extended.\<close>

definition RegisterFile_write64 :: "RegisterFile \<Rightarrow> u32 \<Rightarrow> u64 \<Rightarrow> RegisterFile" where
  "RegisterFile_write64 f offset v =
     (case um_lookup (registers f) offset of
        None \<Rightarrow> f
      | Some d \<Rightarrow>
          if reg_access d = RO then f
          else
            let old_value = (case um_lookup (reg_values f) offset of None \<Rightarrow> reset_value d | Some v \<Rightarrow> v);
                new_value = apply_write d old_value v;
                f1 = f\<lparr>reg_values := um_update offset new_value (reg_values f)\<rparr>
            in if has_write_callback f1 then f1\<lparr>write_log := write_log f1 @ [(offset, old_value, new_value)]\<rparr> else f1)"

definition RegisterFile_write32 :: "RegisterFile \<Rightarrow> u32 \<Rightarrow> u32 \<Rightarrow> RegisterFile" where
  "RegisterFile_write32 f offset v = RegisterFile_write64 f offset (ucast v)"

definition set_write_callback :: "RegisterFile \<Rightarrow> RegisterFile" where
  "set_write_callback f = f\<lparr>has_write_callback := True\<rparr>"

definition has_register :: "RegisterFile \<Rightarrow> u32 \<Rightarrow> bool" where
  "has_register f offset \<longleftrightarrow> um_lookup (registers f) offset \<noteq> None"

definition get_register_def :: "RegisterFile \<Rightarrow> u32 \<Rightarrow> RegisterDef option" where
  "get_register_def f offset = um_lookup (registers f) offset"

definition nic_reg :: "string \<Rightarrow> u32 \<Rightarrow> RegisterAccess \<Rightarrow> u64 \<Rightarrow> RegisterDef" where
  "nic_reg name offset access wmask =
     \<lparr>reg_name = name, reg_offset = offset, reg_width = Bits32, reg_access = access, reset_value = 0, write_mask = wmask\<rparr>"

definition MakeDefaultNicRegisters :: "RegisterDef list" where
  "MakeDefaultNicRegisters =
     [nic_reg ''CTRL'' 0x0000 RW 0xFFFFFFFF, nic_reg ''STATUS'' 0x0008 RO 0, nic_reg ''ICR'' 0x00C0 RC 0,
      nic_reg ''ICS'' 0x00C8 WO 0xFFFFFFFF, nic_reg ''IMS'' 0x00D0 RW1S 0xFFFFFFFF, nic_reg ''IMC'' 0x00D8 WO 0xFFFFFFFF,
      nic_reg ''RCTL'' 0x0100 RW 0xFFFFFFFF, nic_reg ''TCTL'' 0x0400 RW 0xFFFFFFFF]"

section \<open>Field layouts\<close>

text \<open>A \<^verbatim>\<open>RegisterFormat\<close> is the list of its fields with their widths, from bit 0 up.\<close>

type_synonym register_format = "(string \<times> nat) list"

definition format_bits :: "register_format \<Rightarrow> nat" where
  "format_bits fmt = sum_list (map snd fmt)"

definition kCtrlRegisterFormat :: register_format where
  "kCtrlRegisterFormat =
     [(''full_duplex'', 1), (''_reserved0'', 1), (''gio_master_disable'', 1), (''link_reset'', 1), (''_reserved1'', 2),
      (''set_link_up'', 1), (''speed_selection'', 3), (''force_speed'', 1), (''force_duplex'', 1), (''_reserved2'', 14),
      (''device_reset'', 1), (''rx_flow_control'', 1), (''tx_flow_control'', 1), (''_reserved3'', 1), (''vlan_mode'', 1),
      (''phy_reset'', 1)]"

definition kNicStatusRegisterFormat :: register_format where
  "kNicStatusRegisterFormat =
     [(''full_duplex'', 1), (''link_up'', 1), (''function_id'', 2), (''tx_paused'', 1), (''_reserved0'', 1), (''speed'', 3),
      (''_reserved1'', 3), (''auto_neg_done'', 1), (''_reserved2'', 6), (''gio_master_en'', 1), (''_reserved3'', 12)]"

definition kIcrRegisterFormat :: register_format where
  "kIcrRegisterFormat =
     [(''tx_desc_written'', 1), (''tx_queue_empty'', 1), (''link_status_change'', 1), (''rx_seq_error'', 1),
      (''rx_desc_min_thresh'', 1), (''_reserved0'', 1), (''rx_overrun'', 1), (''rx_timer'', 1), (''_reserved1'', 1),
      (''mdio_access_done'', 1), (''_reserved2'', 5), (''tx_low_thresh'', 1), (''small_rx_packet'', 1), (''_reserved3'', 15)]"

definition kImsRegisterFormat :: register_format where
  "kImsRegisterFormat =
     [(''tx_desc_written'', 1), (''tx_queue_empty'', 1), (''link_status_change'', 1), (''rx_seq_error'', 1),
      (''rx_desc_min_thresh'', 1), (''_reserved0'', 1), (''rx_overrun'', 1), (''rx_timer'', 1), (''_reserved1'', 1),
      (''mdio_access_done'', 1), (''_reserved2'', 5), (''tx_low_thresh'', 1), (''small_rx_packet'', 1), (''_reserved3'', 15)]"

definition kRctlRegisterFormat :: register_format where
  "kRctlRegisterFormat =
     [(''_reserved0'', 1), (''rx_enable'', 1), (''store_bad_packets'', 1), (''unicast_promisc'', 1), (''multicast_promisc'', 1),
      (''long_packet_enable'', 1), (''loopback_mode'', 2), (''rx_desc_thresh'', 2), (''_reserved1'', 2), (''multicast_offset'', 2),
      (''_reserved2'', 1), (''broadcast_accept'', 1), (''rx_buffer_size'', 2), (''vlan_filter_enable'', 1), (''_reserved3'', 1),
      (''canonical_form_ind'', 1), (''_reserved4'', 1), (''discard_pause'', 1), (''pass_mac_ctrl'', 1), (''_reserved5'', 1),
      (''buffer_size_ext'', 1), (''strip_crc'', 1), (''_reserved6'', 5)]"

definition kTctlRegisterFormat :: register_format where
  "kTctlRegisterFormat =
     [(''_reserved0'', 1), (''tx_enable'', 1), (''_reserved1'', 1), (''pad_short_packets'', 1), (''collision_thresh'', 8),
      (''collision_dist'', 10), (''software_xoff'', 1), (''_reserved2'', 1), (''retx_on_late_coll'', 1), (''_reserved3'', 7)]"

text \<open>The interrupt cause and mask registers share their layout, and every layout fills its 32 bits.\<close>

lemma nic_formats_32:
  "\<forall>fmt \<in> {kCtrlRegisterFormat, kNicStatusRegisterFormat, kIcrRegisterFormat, kImsRegisterFormat, kRctlRegisterFormat,
     kTctlRegisterFormat}. format_bits fmt = 32 \<and> distinct (map fst fmt)"
  "kImsRegisterFormat = kIcrRegisterFormat"
  by code_simp+

section \<open>Bits of a register\<close>

text \<open>What a write does to one bit of a register: \<open>m\<close> is the mask bit, \<open>b\<close> the bit before, \<open>w\<close> the bit written.\<close>

fun spec_bit :: "RegisterAccess \<Rightarrow> bool \<Rightarrow> bool \<Rightarrow> bool \<Rightarrow> bool" where
  "spec_bit RO m b w = b"
| "spec_bit RC m b w = b"
| "spec_bit RW m b w = (if m then w else b)"
| "spec_bit WO m b w = (if m then w else b)"
| "spec_bit RW1C m b w = (b \<and> \<not> (m \<and> w))"
| "spec_bit RW1S m b w = (b \<or> m \<and> w)"

lemma bit_apply_write:
  "n < 64 \<Longrightarrow> bit (apply_write d old w) n = spec_bit (reg_access d) (bit (write_mask d) n) (bit old n) (bit w n)"
  by (cases "reg_access d") (auto simp: apply_write_def Let_def bit_simps)

section \<open>Registers as cells\<close>

text \<open>The value of a register: its entry, or the reset value when it was added after the last reset.\<close>

definition reg_value :: "RegisterFile \<Rightarrow> u32 \<Rightarrow> RegisterDef \<Rightarrow> u64" where
  "reg_value f offset d = (case um_lookup (reg_values f) offset of None \<Rightarrow> reset_value d | Some v \<Rightarrow> v)"

datatype reg_write = Write32 u32 u32 | Write64 u32 u64

fun reg_step :: "reg_write \<Rightarrow> RegisterFile \<Rightarrow> RegisterFile" where
  "reg_step (Write32 offset v) f = RegisterFile_write32 f offset v"
| "reg_step (Write64 offset v) f = RegisterFile_write64 f offset v"

fun register_of :: "reg_write \<Rightarrow> u32" where
  "register_of (Write32 offset v) = offset"
| "register_of (Write64 offset v) = offset"

fun write_value :: "reg_write \<Rightarrow> u64" where
  "write_value (Write32 offset v) = ucast v"
| "write_value (Write64 offset v) = v"

definition writes_to :: "u32 \<Rightarrow> reg_write list \<Rightarrow> u64 list" where
  "writes_to offset ops = map write_value (filter (\<lambda>op. register_of op = offset) ops)"

lemma reg_step_alt: "reg_step op f = RegisterFile_write64 f (register_of op) (write_value op)"
  by (cases op) (simp_all add: RegisterFile_write32_def)

lemma write64_registers [simp]: "registers (RegisterFile_write64 f offset v) = registers f"
  by (simp add: RegisterFile_write64_def Let_def split: option.split)

lemma reg_steps_registers [simp]: "registers (fold reg_step ops f) = registers f"
  by (induction ops arbitrary: f) (simp_all add: reg_step_alt)

lemma write64_value:
  assumes "um_lookup (registers f) offset = Some d"
  shows "reg_value (RegisterFile_write64 f other v) offset d =
    (if other = offset then apply_write d (reg_value f offset d) v else reg_value f offset d)"
  using assms by (auto simp: RegisterFile_write64_def reg_value_def apply_write_def Let_def split: option.split)

lemma reg_steps_value:
  assumes "um_lookup (registers f) offset = Some d"
  shows "reg_value (fold reg_step ops f) offset d = fold (\<lambda>w old. apply_write d old w) (writes_to offset ops) (reg_value f offset d)"
  using assms
  by (induction ops arbitrary: f) (simp_all add: reg_step_alt write64_value writes_to_def)

lemma bit_apply_writes:
  "n < 64 \<Longrightarrow> bit (fold (\<lambda>w old. apply_write d old w) ws old) n =
     fold (\<lambda>w b. spec_bit (reg_access d) (bit (write_mask d) n) b (bit w n)) ws (bit old n)"
  by (induction ws arbitrary: old) (simp_all add: bit_apply_write)

text \<open>After a reset every register has an entry, and keeps it.\<close>

lemma reset_lookup:
  assumes "um_wf (registers f)"
  shows "um_lookup (reg_values (RegisterFile_reset f)) offset = map_option reset_value (um_lookup (registers f) offset)"
proof -
  have "um_wf rs \<Longrightarrow> um_lookup (fold (\<lambda>(offset, d) vs. um_update offset (reset_value d) vs) rs vs) offset =
      (case um_lookup rs offset of Some d \<Rightarrow> Some (reset_value d) | None \<Rightarrow> um_lookup vs offset)" for rs :: "(u32 \<times> RegisterDef) list" and vs
    by (induction rs arbitrary: vs) (auto simp: um_wf_def map_of_eq_None_iff image_iff split: option.split)
  with assms show ?thesis by (simp add: RegisterFile_reset_def split: option.split)
qed

definition values_complete :: "RegisterFile \<Rightarrow> bool" where
  "values_complete f \<longleftrightarrow> (\<forall>offset. um_lookup (reg_values f) offset = None \<longleftrightarrow> um_lookup (registers f) offset = None)"

lemma values_complete_step: "values_complete f \<Longrightarrow> values_complete (fold reg_step ops f)"
proof (induction ops arbitrary: f)
  case (Cons op ops)
  have "values_complete (reg_step op f)"
    using Cons.prems by (auto simp: reg_step_alt values_complete_def RegisterFile_write64_def Let_def split: option.split)
  with Cons.IH show ?case by simp
qed simp

lemma values_complete_reset: "um_wf (registers f) \<Longrightarrow> values_complete (RegisterFile_reset f)"
  by (simp add: values_complete_def reset_lookup) (simp add: RegisterFile_reset_def)

lemma reset_registers [simp]: "registers (RegisterFile_reset f) = registers f"
  by (simp add: RegisterFile_reset_def)

lemma read64_complete:
  "values_complete f \<Longrightarrow> um_lookup (registers f) offset = Some d \<Longrightarrow>
     RegisterFile_read64 f offset = (if reg_access d = WO then 0 else reg_value f offset d)"
  by (auto simp: RegisterFile_read64_def values_complete_def reg_value_def split: option.split)

lemma read32_low: "RegisterFile_read32 f offset = ucast (RegisterFile_read64 f offset)"
proof -
  have low: "(0xFFFFFFFF :: u64) = mask 32" by (simp add: mask_eq_exp_minus_1)
  have "(ucast (v AND 0xFFFFFFFF :: u64) :: u32) = ucast v" for v :: u64
    unfolding low by (rule bit_word_eqI) (simp add: bit_simps)
  then show ?thesis by (auto simp: RegisterFile_read32_def RegisterFile_read64_def split: option.split)
qed

text \<open>C37: Over any sequence of 32-bit and 64-bit writes after a reset, each register is a cell of its own: what a read returns is
  determined, bit by bit, by the reset value and the writes to that register alone, under the rule of its access type
  (ordinary, write-one-to-clear, write-one-to-set, ignored), with bits outside the write mask kept; a write-only register
  reads as zero, a 32-bit read gives the low half, and an offset without a register reads as all ones.\<close>

theorem register_file_refines:
  fixes f :: RegisterFile and ops :: "reg_write list" and offset :: u32
  defines "f' \<equiv> fold reg_step ops (RegisterFile_reset f)"
  assumes wf: "um_wf (registers f)"
  shows "RegisterFile_read32 f' offset = ucast (RegisterFile_read64 f' offset) \<and>
    (case um_lookup (registers f) offset of
       None \<Rightarrow> RegisterFile_read64 f' offset = - 1
     | Some d \<Rightarrow> if reg_access d = WO then RegisterFile_read64 f' offset = 0
         else \<forall>n < 64. bit (RegisterFile_read64 f' offset) n =
           fold (\<lambda>w b. spec_bit (reg_access d) (bit (write_mask d) n) b (bit w n)) (writes_to offset ops) (bit (reset_value d) n))"
proof (cases "um_lookup (registers f) offset")
  case None
  have "values_complete f'" unfolding f'_def by (intro values_complete_step values_complete_reset wf)
  moreover have "registers f' = registers f" by (simp add: f'_def)
  ultimately have "um_lookup (reg_values f') offset = None" using None by (simp add: values_complete_def)
  then show ?thesis using None by (simp add: read32_low) (simp add: RegisterFile_read64_def)
next
  case (Some d)
  have complete: "values_complete f'" unfolding f'_def by (intro values_complete_step values_complete_reset wf)
  have d: "um_lookup (registers f') offset = Some d" using Some by (simp add: f'_def)
  have "reg_value (RegisterFile_reset f) offset d = reset_value d" using Some by (simp add: reg_value_def reset_lookup [OF wf])
  then have "reg_value f' offset d = fold (\<lambda>w old. apply_write d old w) (writes_to offset ops) (reset_value d)"
    using reg_steps_value [of "RegisterFile_reset f" offset d ops] Some by (simp add: f'_def)
  then show ?thesis using Some by (simp add: read32_low read64_complete [OF complete d] bit_apply_writes)
qed

lemma register_file_refines_witness:
  "RegisterFile_read32 (fold reg_step [Write32 0xD0 5, Write32 0xD0 8, Write32 0x100 1]
     (RegisterFile_reset (add_registers MakeDefaultNicRegisters RegisterFile_new))) 0xD0 =
   ucast (RegisterFile_read64 (fold reg_step [Write32 0xD0 5, Write32 0xD0 8, Write32 0x100 1]
     (RegisterFile_reset (add_registers MakeDefaultNicRegisters RegisterFile_new))) 0xD0) \<and>
   um_wf (registers (add_registers MakeDefaultNicRegisters RegisterFile_new))"
proof -
  have wf: "um_wf (registers (add_registers MakeDefaultNicRegisters RegisterFile_new))" by code_simp
  from register_file_refines [OF this, of "[Write32 0xD0 5, Write32 0xD0 8, Write32 0x100 1]" "0xD0"] wf
  show ?thesis by blast
qed

text \<open>Reading is a function of the register file and does not change it. In particular the interrupt cause register, declared
  read-to-clear, reads the same value until the next reset, and no write changes it.\<close>

lemma icr_never_changes:
  "RegisterFile_read32 (fold reg_step ops (RegisterFile_reset (add_registers MakeDefaultNicRegisters RegisterFile_new))) 0xC0 = 0"
proof -
  let ?f = "RegisterFile_reset (add_registers MakeDefaultNicRegisters RegisterFile_new)"
  have icr: "um_lookup (registers ?f) 0xC0 = Some (nic_reg ''ICR'' 0x00C0 RC 0)" "reg_value ?f 0xC0 (nic_reg ''ICR'' 0x00C0 RC 0) = 0"
    by code_simp+
  have "fold (\<lambda>w old. apply_write (nic_reg ''ICR'' 0x00C0 RC 0) old w) ws v = v" for ws v
    by (induction ws arbitrary: v) (simp_all add: apply_write_def nic_reg_def)
  with icr have "reg_value (fold reg_step ops ?f) 0xC0 (nic_reg ''ICR'' 0x00C0 RC 0) = 0" by (simp add: reg_steps_value)
  moreover have "values_complete (fold reg_step ops ?f)"
    by (intro values_complete_step values_complete_reset) code_simp
  ultimately show ?thesis
    using icr by (simp add: read32_low read64_complete [of _ _ "nic_reg ''ICR'' 0x00C0 RC 0"] nic_reg_def)
qed

end
