(* ===== verification/Nic_Config_Space.thy ===== *)
theory Nic_Config_Space
  imports Nic_Registers Bit_Packing
begin

text \<open>
  The PCI configuration space: base address registers (\<^verbatim>\<open>bar.h\<close>), capabilities (\<^verbatim>\<open>capability.h\<close>), register layouts
  (\<^verbatim>\<open>pcie_formats.h\<close>) and the 4 KB space itself (\<^verbatim>\<open>config_space.h/.cpp\<close>). The little-endian readers and writers of the bit
  field library are parameters; the locale \<open>le_bits\<close> has the laws the code relies on, and \<open>lsb_library\<close> meets them. The theory
  shows that a host that walks the capability list finds the configured capabilities, that naturally aligned writes leave
  the identity of the device alone, that the command bits are independent of each other, and how the read-only check is evaded.
\<close>

section \<open>The little-endian side of the bit field library\<close>

text \<open>\<open>le_write n v\<close> is \<^verbatim>\<open>write_aligned\<close> of an \<open>n\<close>-byte value and \<open>le_read n\<close> is \<^verbatim>\<open>read_aligned\<close>; \<open>le_ser\<close>, \<open>le_des\<close>, \<open>le_read_field\<close> and
  \<open>le_write_bits\<close> are \<^verbatim>\<open>serialize\<close>, \<^verbatim>\<open>deserialize\<close>, \<^verbatim>\<open>read_field\<close> and a run of \<^verbatim>\<open>write_bits_runtime\<close>, all with a format given as the
  list of its field widths. The two capability headers are formats of the library.\<close>

record le_library =
  le_write :: "nat \<Rightarrow> u64 \<Rightarrow> bytes"
  le_read :: "nat \<Rightarrow> bytes \<Rightarrow> u64"
  le_ser :: "nat list \<Rightarrow> u64 list \<Rightarrow> bytes"
  le_des :: "nat list \<Rightarrow> bytes \<Rightarrow> u64 list"
  le_read_field :: "nat list \<Rightarrow> nat \<Rightarrow> bytes \<Rightarrow> u64"
  le_write_bits :: "(nat \<times> u64) list \<Rightarrow> bytes"
  pci_cap_header :: "u8 \<Rightarrow> u8 \<Rightarrow> bytes"
  pcie_ext_cap_header :: "u16 \<Rightarrow> u16 \<Rightarrow> u16 \<Rightarrow> bytes"

definition le_bytes :: "nat \<Rightarrow> u64 \<Rightarrow> bytes" where
  "le_bytes n v = map (\<lambda>i. ucast (drop_bit (8 * i) v)) [0..<n]"

definition le_value :: "bytes \<Rightarrow> u64" where
  "le_value bs = foldr (\<lambda>b acc. ucast b OR push_bit 8 acc) bs 0"

text \<open>Byte 0 of a capability header is the id and byte 1 the next pointer; an extended header is a little-endian 32-bit word with the id in
  bits 0 to 15, the version in bits 16 to 19 and the next offset in bits 20 to 31.\<close>

locale le_bits =
  fixes lib :: le_library
  assumes write_le: "n \<le> 8 \<Longrightarrow> le_write lib n v = le_bytes n v"
    and read_le: "length bs \<le> 8 \<Longrightarrow> le_read lib (length bs) bs = le_value bs"
    and packer: "bit_packer (le_ser lib) (le_des lib)"
    and des_fits: "8 dvd sum_list ws \<Longrightarrow> list_all (\<lambda>w. w \<le> 64) ws \<Longrightarrow> length bs = sum_list ws div 8 \<Longrightarrow> fits ws (le_des lib ws bs)"
    and read_field: "i < length ws \<Longrightarrow> le_read_field lib ws i bs = le_des lib ws bs ! i"
    and write_bits: "length vs = length ws \<Longrightarrow> le_write_bits lib (zip ws vs) = le_ser lib ws vs"
    and cap_header: "pci_cap_header lib cid nxt = [cid, nxt]"
    and ext_cap_header: "pcie_ext_cap_header lib j ver off =
      le_bytes 4 (ucast j OR push_bit 16 (ucast (ver AND 0xF)) OR push_bit 20 (ucast (off AND 0xFFF)))"

section \<open>Base address registers\<close>

datatype BarType = Memory32 | Memory64 | BarIO | BarDisabled

record Bar =
  bar_base_address :: u64
  bar_size :: u64
  bar_type :: BarType
  prefetchable :: bool

definition Bar_default :: Bar where
  "Bar_default = \<lparr>bar_base_address = 0, bar_size = 0, bar_type = BarDisabled, prefetchable = False\<rparr>"

definition Bar_is_enabled :: "Bar \<Rightarrow> bool" where
  "Bar_is_enabled b \<longleftrightarrow> bar_type b \<noteq> BarDisabled \<and> bar_size b > 0"

definition Bar_is_memory :: "Bar \<Rightarrow> bool" where
  "Bar_is_memory b \<longleftrightarrow> bar_type b = Memory32 \<or> bar_type b = Memory64"

definition Bar_is_64bit :: "Bar \<Rightarrow> bool" where
  "Bar_is_64bit b \<longleftrightarrow> bar_type b = Memory64"

definition bar_type_field :: "Bar \<Rightarrow> u64" where
  "bar_type_field b = (if Bar_is_64bit b then 0x02 else 0x00)"

definition memory_bar_address_field :: "Bar \<Rightarrow> u64" where
  "memory_bar_address_field b = drop_bit 4 (bar_base_address b) AND 0x0FFFFFFF"

definition io_bar_address_field :: "Bar \<Rightarrow> u64" where
  "io_bar_address_field b = drop_bit 2 (bar_base_address b) AND 0x3FFFFFFF"

definition upper_address_dword :: "Bar \<Rightarrow> u32" where
  "upper_address_dword b = ucast (drop_bit 32 (bar_base_address b))"

definition kMaxBars :: nat where
  "kMaxBars = 6"

definition MakeDefaultBars :: "Bar list" where
  "MakeDefaultBars = (replicate kMaxBars Bar_default)
     [0 := \<lparr>bar_base_address = 0, bar_size = 64 * 1024, bar_type = Memory64, prefetchable = False\<rparr>,
      2 := \<lparr>bar_base_address = 0, bar_size = 16 * 1024, bar_type = Memory64, prefetchable = False\<rparr>]"

section \<open>Capabilities\<close>

datatype CapabilityId =
    CapPowerManagement | CapAGP | CapVPD | CapSlotId | CapMSI | CapCompactPCIHotSwap | CapPCIX | CapHyperTransport
  | CapVendorSpecific | CapDebugPort | CapCompactPCICRC | CapPCIHotPlug | CapPCIBridgeSubsystemVID | CapAGP8x
  | CapSecureDevice | CapPCIExpress | CapMSIX | CapSATA | CapAdvancedFeatures | CapEnhancedAllocation
  | CapFlatteningPortalBridge

fun capability_id :: "CapabilityId \<Rightarrow> u8" where
  "capability_id CapPowerManagement = 0x01"
| "capability_id CapAGP = 0x02"
| "capability_id CapVPD = 0x03"
| "capability_id CapSlotId = 0x04"
| "capability_id CapMSI = 0x05"
| "capability_id CapCompactPCIHotSwap = 0x06"
| "capability_id CapPCIX = 0x07"
| "capability_id CapHyperTransport = 0x08"
| "capability_id CapVendorSpecific = 0x09"
| "capability_id CapDebugPort = 0x0A"
| "capability_id CapCompactPCICRC = 0x0B"
| "capability_id CapPCIHotPlug = 0x0C"
| "capability_id CapPCIBridgeSubsystemVID = 0x0D"
| "capability_id CapAGP8x = 0x0E"
| "capability_id CapSecureDevice = 0x0F"
| "capability_id CapPCIExpress = 0x10"
| "capability_id CapMSIX = 0x11"
| "capability_id CapSATA = 0x12"
| "capability_id CapAdvancedFeatures = 0x13"
| "capability_id CapEnhancedAllocation = 0x14"
| "capability_id CapFlatteningPortalBridge = 0x15"

datatype ExtCapabilityId =
    ExtAdvancedErrorReporting | ExtVirtualChannel | ExtDeviceSerialNumber | ExtPowerBudgeting
  | ExtRootComplexLinkDecl | ExtRootComplexInternalLink | ExtRootComplexEventCollector | ExtMFVC
  | ExtVirtualChannelMFVC | ExtRCRB | ExtVendorSpecific | ExtConfigAccessCorrelation | ExtACS | ExtARI | ExtATS
  | ExtSRIOV | ExtMRIOV | ExtMulticast | ExtPageRequestInterface | ExtResizableBAR | ExtDynamicPowerAllocation
  | ExtTPHRequester | ExtLatencyToleranceReporting | ExtSecondaryPCIExpress | ExtPMUX | ExtPASID | ExtLNR | ExtDPC
  | ExtL1PMSubstates | ExtPrecisionTimeMeasurement | ExtMPCIe | ExtFRSQueueing | ExtReadinessTimeReporting
  | ExtDesignatedVendorSpecific | ExtVFResizableBAR | ExtDataLinkFeature | ExtPhysicalLayer16GT
  | ExtLaneMarginReceiver | ExtHierarchyId | ExtNPEM | ExtPhysicalLayer32GT | ExtAlternateProtocol
  | ExtSystemFirmwareIntermediary

fun ext_capability_id :: "ExtCapabilityId \<Rightarrow> u16" where
  "ext_capability_id ExtAdvancedErrorReporting = 0x0001"
| "ext_capability_id ExtVirtualChannel = 0x0002"
| "ext_capability_id ExtDeviceSerialNumber = 0x0003"
| "ext_capability_id ExtPowerBudgeting = 0x0004"
| "ext_capability_id ExtRootComplexLinkDecl = 0x0005"
| "ext_capability_id ExtRootComplexInternalLink = 0x0006"
| "ext_capability_id ExtRootComplexEventCollector = 0x0007"
| "ext_capability_id ExtMFVC = 0x0008"
| "ext_capability_id ExtVirtualChannelMFVC = 0x0009"
| "ext_capability_id ExtRCRB = 0x000A"
| "ext_capability_id ExtVendorSpecific = 0x000B"
| "ext_capability_id ExtConfigAccessCorrelation = 0x000C"
| "ext_capability_id ExtACS = 0x000D"
| "ext_capability_id ExtARI = 0x000E"
| "ext_capability_id ExtATS = 0x000F"
| "ext_capability_id ExtSRIOV = 0x0010"
| "ext_capability_id ExtMRIOV = 0x0011"
| "ext_capability_id ExtMulticast = 0x0012"
| "ext_capability_id ExtPageRequestInterface = 0x0013"
| "ext_capability_id ExtResizableBAR = 0x0015"
| "ext_capability_id ExtDynamicPowerAllocation = 0x0016"
| "ext_capability_id ExtTPHRequester = 0x0017"
| "ext_capability_id ExtLatencyToleranceReporting = 0x0018"
| "ext_capability_id ExtSecondaryPCIExpress = 0x0019"
| "ext_capability_id ExtPMUX = 0x001A"
| "ext_capability_id ExtPASID = 0x001B"
| "ext_capability_id ExtLNR = 0x001C"
| "ext_capability_id ExtDPC = 0x001D"
| "ext_capability_id ExtL1PMSubstates = 0x001E"
| "ext_capability_id ExtPrecisionTimeMeasurement = 0x001F"
| "ext_capability_id ExtMPCIe = 0x0020"
| "ext_capability_id ExtFRSQueueing = 0x0021"
| "ext_capability_id ExtReadinessTimeReporting = 0x0022"
| "ext_capability_id ExtDesignatedVendorSpecific = 0x0023"
| "ext_capability_id ExtVFResizableBAR = 0x0024"
| "ext_capability_id ExtDataLinkFeature = 0x0025"
| "ext_capability_id ExtPhysicalLayer16GT = 0x0026"
| "ext_capability_id ExtLaneMarginReceiver = 0x0027"
| "ext_capability_id ExtHierarchyId = 0x0028"
| "ext_capability_id ExtNPEM = 0x0029"
| "ext_capability_id ExtPhysicalLayer32GT = 0x002A"
| "ext_capability_id ExtAlternateProtocol = 0x002B"
| "ext_capability_id ExtSystemFirmwareIntermediary = 0x002C"

record Capability =
  cap_id :: CapabilityId
  cap_offset :: u8
  cap_next :: u8
  cap_length :: u16

record ExtCapability =
  ext_id :: ExtCapabilityId
  ext_version :: u16
  ext_offset :: u16
  ext_next :: u16
  ext_length :: u16

record CapabilityList =
  cap_standard :: "Capability list"
  cap_extended :: "ExtCapability list"

definition first_capability_offset :: "CapabilityList \<Rightarrow> u8" where
  "first_capability_offset caps = (case cap_standard caps of [] \<Rightarrow> 0 | c # _ \<Rightarrow> cap_offset c)"

definition MakeDefaultCapabilities :: CapabilityList where
  "MakeDefaultCapabilities =
     \<lparr>cap_standard =
        [\<lparr>cap_id = CapPowerManagement, cap_offset = 0x40, cap_next = 0x50, cap_length = 8\<rparr>,
         \<lparr>cap_id = CapMSIX, cap_offset = 0x50, cap_next = 0x70, cap_length = 12\<rparr>,
         \<lparr>cap_id = CapPCIExpress, cap_offset = 0x70, cap_next = 0x00, cap_length = 60\<rparr>],
      cap_extended =
        [\<lparr>ext_id = ExtAdvancedErrorReporting, ext_version = 2, ext_offset = 0x100, ext_next = 0x150, ext_length = 48\<rparr>,
         \<lparr>ext_id = ExtSRIOV, ext_version = 1, ext_offset = 0x150, ext_next = 0x200, ext_length = 64\<rparr>,
         \<lparr>ext_id = ExtARI, ext_version = 1, ext_offset = 0x200, ext_next = 0x000, ext_length = 8\<rparr>]\<rparr>"

section \<open>Register layouts\<close>

definition kCommandRegisterFormat :: register_format where
  "kCommandRegisterFormat =
     [(''io_space_enable'', 1), (''memory_space_enable'', 1), (''bus_master_enable'', 1), (''special_cycles'', 1),
      (''mem_write_invalidate'', 1), (''vga_palette_snoop'', 1), (''parity_error_response'', 1), (''_reserved0'', 1),
      (''serr_enable'', 1), (''fast_b2b_enable'', 1), (''interrupt_disable'', 1), (''_reserved1'', 5)]"

definition kPciStatusRegisterFormat :: register_format where
  "kPciStatusRegisterFormat =
     [(''_reserved0'', 3), (''interrupt_status'', 1), (''capabilities_list'', 1), (''mhz_66_capable'', 1), (''_reserved1'', 1),
      (''fast_b2b_capable'', 1), (''master_data_parity_error'', 1), (''devsel_timing'', 2), (''signaled_target_abort'', 1),
      (''received_target_abort'', 1), (''received_master_abort'', 1), (''signaled_system_error'', 1), (''detected_parity_error'', 1)]"

definition kMemoryBarFormat :: register_format where
  "kMemoryBarFormat = [(''io_space'', 1), (''type'', 2), (''prefetchable'', 1), (''base_address'', 28)]"

definition kIoBarFormat :: register_format where
  "kIoBarFormat = [(''io_space'', 1), (''_reserved'', 1), (''base_address'', 30)]"

definition kMsixEntryFormat :: register_format where
  "kMsixEntryFormat = [(''message_address'', 64), (''message_data'', 32), (''masked'', 1), (''_reserved'', 31)]"

definition kCapabilityHeaderFormat :: register_format where
  "kCapabilityHeaderFormat = [(''capability_id'', 8), (''next_pointer'', 8), (''capability_specific'', 16)]"

definition widths :: "register_format \<Rightarrow> nat list" where
  "widths fmt = map snd fmt"

text \<open>\<^verbatim>\<open>field_index\<close>: the position of the field with a name.\<close>

fun field_index :: "register_format \<Rightarrow> string \<Rightarrow> nat option" where
  "field_index [] name = None"
| "field_index ((n, w) # fmt) name = (if n = name then Some 0 else map_option Suc (field_index fmt name))"

lemma pcie_formats_sizes:
  "format_bits kCommandRegisterFormat = 16" "format_bits kPciStatusRegisterFormat = 16" "format_bits kMemoryBarFormat = 32"
  "format_bits kIoBarFormat = 32" "format_bits kMsixEntryFormat = 128" "format_bits kCapabilityHeaderFormat = 32"
  by code_simp+

section \<open>Configuration space\<close>

definition kConfigSpaceSize :: nat where
  "kConfigSpaceSize = 4096"

record ConfigSpace =
  cs_data :: "u8 list"

definition ConfigSpace_new :: ConfigSpace where
  "ConfigSpace_new = \<lparr>cs_data = replicate kConfigSpaceSize 0\<rparr>"

definition is_read_only :: "u16 \<Rightarrow> bool" where
  "is_read_only offset \<longleftrightarrow> offset \<le> 0x02 + 1 \<or> (offset \<ge> 0x08 \<and> offset < 0x0C) \<or> offset = 0x0E"

definition ConfigSpace_read8 :: "ConfigSpace \<Rightarrow> u16 \<Rightarrow> u8" where
  "ConfigSpace_read8 c offset = (if unat offset \<ge> kConfigSpaceSize then 0xFF else cs_data c ! unat offset)"

definition ConfigSpace_read16 :: "le_library \<Rightarrow> ConfigSpace \<Rightarrow> u16 \<Rightarrow> u16" where
  "ConfigSpace_read16 lib c offset =
     (if unat offset + 1 \<ge> kConfigSpaceSize then 0xFFFF
      else ucast (le_read lib 2 (subspan (unat offset) 2 (cs_data c))))"

definition ConfigSpace_read32 :: "le_library \<Rightarrow> ConfigSpace \<Rightarrow> u16 \<Rightarrow> u32" where
  "ConfigSpace_read32 lib c offset =
     (if unat offset + 3 \<ge> kConfigSpaceSize then 0xFFFFFFFF
      else ucast (le_read lib 4 (subspan (unat offset) 4 (cs_data c))))"

definition put_bytes :: "nat \<Rightarrow> bytes \<Rightarrow> ConfigSpace \<Rightarrow> ConfigSpace" where
  "put_bytes offset bs c = c\<lparr>cs_data := memcpy_at offset bs (cs_data c)\<rparr>"

definition raw_write8 :: "u16 \<Rightarrow> u8 \<Rightarrow> ConfigSpace \<Rightarrow> ConfigSpace" where
  "raw_write8 offset v c = (if unat offset \<ge> kConfigSpaceSize then c else put_bytes (unat offset) [v] c)"

definition raw_write16 :: "le_library \<Rightarrow> u16 \<Rightarrow> u16 \<Rightarrow> ConfigSpace \<Rightarrow> ConfigSpace" where
  "raw_write16 lib offset v c =
     (if unat offset + 1 \<ge> kConfigSpaceSize then c else put_bytes (unat offset) (le_write lib 2 (ucast v)) c)"

definition raw_write32 :: "le_library \<Rightarrow> u16 \<Rightarrow> u32 \<Rightarrow> ConfigSpace \<Rightarrow> ConfigSpace" where
  "raw_write32 lib offset v c =
     (if unat offset + 3 \<ge> kConfigSpaceSize then c else put_bytes (unat offset) (le_write lib 4 (ucast v)) c)"

definition ConfigSpace_write8 :: "u16 \<Rightarrow> u8 \<Rightarrow> ConfigSpace \<Rightarrow> ConfigSpace" where
  "ConfigSpace_write8 offset v c =
     (if unat offset \<ge> kConfigSpaceSize then c
      else if is_read_only offset then c
      else put_bytes (unat offset) [v] c)"

definition ConfigSpace_write16 :: "le_library \<Rightarrow> u16 \<Rightarrow> u16 \<Rightarrow> ConfigSpace \<Rightarrow> ConfigSpace" where
  "ConfigSpace_write16 lib offset v c =
     (if unat offset + 1 \<ge> kConfigSpaceSize then c
      else if is_read_only offset then c
      else put_bytes (unat offset) (le_write lib 2 (ucast v)) c)"

definition ConfigSpace_write32 :: "le_library \<Rightarrow> u16 \<Rightarrow> u32 \<Rightarrow> ConfigSpace \<Rightarrow> ConfigSpace" where
  "ConfigSpace_write32 lib offset v c =
     (if unat offset + 3 \<ge> kConfigSpaceSize then c
      else if is_read_only offset then c
      else put_bytes (unat offset) (le_write lib 4 (ucast v)) c)"

definition bar_offset :: "nat \<Rightarrow> nat" where
  "bar_offset i = [0x10, 0x14, 0x18, 0x1C, 0x20, 0x24] ! i"

text \<open>One round of \<^verbatim>\<open>initialize_bars\<close>: the new space and the number of slots used. Constructing a writer clears its buffer, so a
  disabled slot is zero.\<close>

definition initialize_bar :: "le_library \<Rightarrow> Bar \<Rightarrow> nat \<Rightarrow> ConfigSpace \<Rightarrow> nat \<times> ConfigSpace" where
  "initialize_bar lib bar i c =
     (let c0 = put_bytes (bar_offset i) [0, 0, 0, 0] c in
      if Bar_is_enabled bar then
        if Bar_is_memory bar then
          let c1 = put_bytes (bar_offset i) (le_ser lib (widths kMemoryBarFormat)
                [0, bar_type_field bar, (if prefetchable bar then 1 else 0), memory_bar_address_field bar]) c0
          in if Bar_is_64bit bar \<and> i + 1 < kMaxBars
             then (2, put_bytes (bar_offset (i + 1)) (le_write lib 4 (ucast (upper_address_dword bar))) c1)
             else (1, c1)
        else (1, put_bytes (bar_offset i) (le_ser lib (widths kIoBarFormat) [1, 0, io_bar_address_field bar]) c0)
      else if Bar_is_64bit bar \<and> i + 1 < kMaxBars then (2, put_bytes (bar_offset (i + 1)) [0, 0, 0, 0] c0)
      else (1, c0))"

lemma initialize_bar_advances: "0 < fst (initialize_bar lib bar i c)"
  by (simp add: initialize_bar_def Let_def)

function bars_loop :: "le_library \<Rightarrow> Bar list \<Rightarrow> nat \<Rightarrow> ConfigSpace \<Rightarrow> ConfigSpace" where
  "bars_loop lib bars i c =
     (if i < kMaxBars
      then let (n, c') = initialize_bar lib (bars ! i) i c in bars_loop lib bars (i + n) c'
      else c)"
  by pat_completeness auto
termination
proof (relation "measure (\<lambda>(lib, bars, i, c). kMaxBars - i)", goal_cases)
  case (2 lib bars i c r n c')
  then show ?case using initialize_bar_advances [of lib "bars ! i" i c] by (cases "initialize_bar lib (bars ! i) i c") auto
qed simp

declare bars_loop.simps [simp del]

definition initialize_bars :: "le_library \<Rightarrow> Bar list \<Rightarrow> ConfigSpace \<Rightarrow> ConfigSpace" where
  "initialize_bars lib bars c = bars_loop lib bars 0 c"

definition put_cap :: "le_library \<Rightarrow> Capability \<Rightarrow> ConfigSpace \<Rightarrow> ConfigSpace" where
  "put_cap lib cap c = put_bytes (unat (cap_offset cap)) (pci_cap_header lib (capability_id (cap_id cap)) (cap_next cap)) c"

definition put_ext_cap :: "le_library \<Rightarrow> ExtCapability \<Rightarrow> ConfigSpace \<Rightarrow> ConfigSpace" where
  "put_ext_cap lib cap c =
     (if ext_offset cap \<ge> 0x100
      then put_bytes (unat (ext_offset cap)) (pcie_ext_cap_header lib (ext_capability_id (ext_id cap)) (ext_version cap) (ext_next cap)) c
      else c)"

definition initialize_capabilities :: "le_library \<Rightarrow> CapabilityList \<Rightarrow> ConfigSpace \<Rightarrow> ConfigSpace" where
  "initialize_capabilities lib caps c =
     fold (put_ext_cap lib) (cap_extended caps) (fold (put_cap lib) (cap_standard caps) c)"

definition ConfigSpace_initialize :: "le_library \<Rightarrow> u16 \<Rightarrow> u16 \<Rightarrow> u8 \<Rightarrow> Bar list \<Rightarrow> CapabilityList \<Rightarrow> ConfigSpace \<Rightarrow> ConfigSpace" where
  "ConfigSpace_initialize lib vendor_id device_id revision bars caps c =
     (let c0 = c\<lparr>cs_data := replicate kConfigSpaceSize 0\<rparr>;
          c1 = raw_write16 lib 0x02 device_id (raw_write16 lib 0x00 vendor_id c0);
          c2 = raw_write16 lib 0x04 (push_bit 10 1) c1;
          c3 = raw_write16 lib 0x06 (push_bit 4 1) c2;
          c4 = raw_write8 0x08 revision c3;
          c5 = raw_write8 (0x09 + 2) 0x02 (raw_write8 (0x09 + 1) 0x00 (raw_write8 0x09 0x00 c4));
          c6 = raw_write8 0x0E 0x00 c5;
          c7 = initialize_bars lib bars c6;
          c8 = ConfigSpace_write8 0x34 (first_capability_offset caps) c7;
          c9 = initialize_capabilities lib caps c8
      in ConfigSpace_write8 0x3D 0x01 c9)"

text \<open>The field accessors. The formats fit their two bytes, so the exceptions the code catches do not occur.\<close>

definition is_command_bit_set :: "le_library \<Rightarrow> ConfigSpace \<Rightarrow> string \<Rightarrow> bool" where
  "is_command_bit_set lib c name =
     (case field_index kCommandRegisterFormat name of
        None \<Rightarrow> False
      | Some i \<Rightarrow> le_read_field lib (widths kCommandRegisterFormat) i (subspan 0x04 2 (cs_data c)) \<noteq> 0)"

definition set_command_bit :: "le_library \<Rightarrow> string \<Rightarrow> bool \<Rightarrow> ConfigSpace \<Rightarrow> ConfigSpace" where
  "set_command_bit lib name v c =
     (case field_index kCommandRegisterFormat name of
        None \<Rightarrow> c
      | Some i \<Rightarrow>
          let parsed = le_des lib (widths kCommandRegisterFormat) (subspan 0x04 2 (cs_data c));
              updated = parsed[i := (if v then 1 else 0)]
          in put_bytes 0x04 (le_write_bits lib (zip (widths kCommandRegisterFormat) updated)) c)"

definition get_status_field :: "le_library \<Rightarrow> ConfigSpace \<Rightarrow> string \<Rightarrow> u64" where
  "get_status_field lib c name =
     (case field_index kPciStatusRegisterFormat name of
        None \<Rightarrow> 0
      | Some i \<Rightarrow> le_read_field lib (widths kPciStatusRegisterFormat) i (subspan 0x06 2 (cs_data c)))"

section \<open>A library that meets the laws\<close>

definition lsb_ser :: "nat list \<Rightarrow> u64 list \<Rightarrow> bytes" where
  "lsb_ser ws vs = rev (msb_ser (rev ws) (rev vs))"

definition lsb_des :: "nat list \<Rightarrow> bytes \<Rightarrow> u64 list" where
  "lsb_des ws bs = rev (msb_des (rev ws) (rev (take (sum_list ws div 8) bs)))"

definition lsb_library :: le_library where
  "lsb_library = \<lparr>le_write = le_bytes, le_read = (\<lambda>n. le_value), le_ser = lsb_ser, le_des = lsb_des,
     le_read_field = (\<lambda>ws i bs. lsb_des ws bs ! i), le_write_bits = (\<lambda>ps. lsb_ser (map fst ps) (map snd ps)),
     pci_cap_header = (\<lambda>i nxt. [i, nxt]),
     pcie_ext_cap_header = (\<lambda>j ver off. le_bytes 4 (ucast j OR push_bit 16 (ucast (ver AND 0xF)) OR push_bit 20 (ucast (off AND 0xFFF))))\<rparr>"

lemma fits_rev: "fits ws vs \<Longrightarrow> fits (rev ws) (rev vs)"
  by (auto simp: fits_def zip_rev)

lemma bits_value_less: "length bs \<le> w \<Longrightarrow> w \<le> 64 \<Longrightarrow> unat (bits_value bs) < 2 ^ w"
proof -
  assume "length bs \<le> w" "w \<le> 64"
  then have "take_bit w (bits_value bs) = bits_value bs"
    by (intro bit_word_eqI) (auto simp: bits_value_def bit_simps bit_horner_sum_bit_word_iff)
  then have "take_bit w (unat (bits_value bs)) = unat (bits_value bs)" by (metis unsigned_take_bit_eq)
  then show ?thesis by (metis take_bit_nat_less_exp)
qed

lemma read_fields_fits: "list_all (\<lambda>w. w \<le> 64) ws \<Longrightarrow> fits ws (read_fields ws bs)"
  by (induction ws arbitrary: bs) (auto simp: fits_def bits_value_less)

lemma fits_length: "fits ws vs \<Longrightarrow> length vs = length ws"
  by (simp add: fits_def)

interpretation lsb: le_bits lsb_library
proof (unfold_locales, goal_cases)
  case (1 n v) then show ?case by (simp add: lsb_library_def)
next
  case (2 bs) then show ?case by (simp add: lsb_library_def)
next
  case (3 ws vs) then show ?case using msb.ser_length [OF _ fits_rev, of ws vs] by (simp add: lsb_library_def lsb_ser_def)
next
  case (4 ws vs rest)
  then have "length (lsb_ser ws vs) = sum_list ws div 8" "8 dvd sum_list (rev ws)"
    using msb.ser_length [OF _ fits_rev, of ws vs] by (simp_all add: lsb_ser_def)
  then show ?case using msb.des_ser [OF _ fits_rev [OF 4(2)], of "[]"] by (simp add: lsb_library_def lsb_des_def lsb_ser_def)
next
  case (5 ws bs)
  then show ?case using fits_rev [OF read_fields_fits [of "rev ws"]] by (simp add: lsb_library_def lsb_des_def msb_des_def)
next
  case (6 i ws bs) then show ?case by (simp add: lsb_library_def)
next
  case (7 vs ws) then show ?case by (simp add: lsb_library_def)
next
  case 8 then show ?case by (simp add: lsb_library_def)
next
  case 9 then show ?case by (simp add: lsb_library_def)
qed

section \<open>Bytes of the space\<close>

definition cs_valid :: "ConfigSpace \<Rightarrow> bool" where
  "cs_valid c \<longleftrightarrow> length (cs_data c) = kConfigSpaceSize"

lemma length_le_bytes [simp]: "length (le_bytes n v) = n"
  by (simp add: le_bytes_def)

lemma cs_valid_put [simp]: "cs_valid c \<Longrightarrow> off + length bs \<le> kConfigSpaceSize \<Longrightarrow> cs_valid (put_bytes off bs c)"
  by (simp add: cs_valid_def put_bytes_def)

lemma nth_put_bytes:
  "cs_valid c \<Longrightarrow> off + length bs \<le> kConfigSpaceSize \<Longrightarrow> i < kConfigSpaceSize \<Longrightarrow>
     cs_data (put_bytes off bs c) ! i = (if off \<le> i \<and> i < off + length bs then bs ! (i - off) else cs_data c ! i)"
  by (simp add: cs_valid_def put_bytes_def nth_memcpy_at)

text \<open>\<open>same_bytes S c c'\<close>: the bytes at the positions \<open>S\<close> are the same.\<close>

definition same_bytes :: "nat set \<Rightarrow> ConfigSpace \<Rightarrow> ConfigSpace \<Rightarrow> bool" where
  "same_bytes S c c' \<longleftrightarrow> cs_valid c' \<and> (\<forall>i \<in> S. i < kConfigSpaceSize \<longrightarrow> cs_data c' ! i = cs_data c ! i)"

lemma same_bytes_trans: "same_bytes S c c' \<Longrightarrow> same_bytes S c' c'' \<Longrightarrow> same_bytes S c c''"
  by (simp add: same_bytes_def)

lemma same_bytes_refl: "cs_valid c \<Longrightarrow> same_bytes S c c"
  by (simp add: same_bytes_def)

lemma same_bytes_put:
  assumes "cs_valid c" "off + length bs \<le> kConfigSpaceSize" "\<forall>i \<in> S. i < off \<or> off + length bs \<le> i"
  shows "same_bytes S c (put_bytes off bs c)"
  using assms by (auto simp: same_bytes_def nth_put_bytes)

lemma same_bytes_mono: "same_bytes S c c' \<Longrightarrow> T \<subseteq> S \<Longrightarrow> same_bytes T c c'"
  by (auto simp: same_bytes_def)

lemma same_bytes_valid: "same_bytes S c c' \<Longrightarrow> cs_valid c'"
  by (simp add: same_bytes_def)

section \<open>Initialisation\<close>

text \<open>A header of a capability list that a host can follow: in the legacy space behind the standard header, apart from the other
  headers, each pointing to the next; extended headers inside the space.\<close>

fun cap_chain :: "Capability list \<Rightarrow> bool" where
  "cap_chain [] = True"
| "cap_chain [c] = (cap_next c = 0)"
| "cap_chain (c # d # cs) = (cap_next c = cap_offset d \<and> cap_chain (d # cs))"

definition apart :: "Capability \<Rightarrow> Capability \<Rightarrow> bool" where
  "apart c d \<longleftrightarrow> unat (cap_offset c) + 2 \<le> unat (cap_offset d) \<or> unat (cap_offset d) + 2 \<le> unat (cap_offset c)"

definition caps_ok :: "CapabilityList \<Rightarrow> bool" where
  "caps_ok caps \<longleftrightarrow> list_all (\<lambda>c. 0x40 \<le> cap_offset c \<and> cap_offset c \<le> 0xFE) (cap_standard caps) \<and>
     sorted_wrt apart (cap_standard caps) \<and> cap_chain (cap_standard caps) \<and>
     list_all (\<lambda>e. unat (ext_offset e) + 4 \<le> kConfigSpaceSize) (cap_extended caps)"

lemma bar_offset_range: "i < kMaxBars \<Longrightarrow> 0x10 \<le> bar_offset i \<and> bar_offset i + 4 \<le> 0x28"
proof -
  assume "i < kMaxBars"
  then have "i \<in> {0, 1, 2, 3, 4, 5}" by (auto simp: kMaxBars_def)
  then show ?thesis by (auto simp: bar_offset_def)
qed

context le_bits
begin

lemma bar_fields_fit:
  "fits (widths kMemoryBarFormat) [0, bar_type_field bar, (if b then 1 else 0), memory_bar_address_field bar]"
  "fits (widths kIoBarFormat) [1, 0, io_bar_address_field bar]"
proof -
  have m: "(0x0FFFFFFF :: u64) = mask 28" "(0x3FFFFFFF :: u64) = mask 30" by (simp_all add: mask_eq_exp_minus_1)
  have "unat (memory_bar_address_field bar) < 2 ^ 28" "unat (io_bar_address_field bar) < 2 ^ 30"
    unfolding memory_bar_address_field_def io_bar_address_field_def m take_bit_eq_mask [symmetric]
    by (simp_all only: unsigned_take_bit_eq take_bit_nat_less_exp)
  then show "fits (widths kMemoryBarFormat) [0, bar_type_field bar, (if b then 1 else 0), memory_bar_address_field bar]"
    "fits (widths kIoBarFormat) [1, 0, io_bar_address_field bar]"
    by (simp_all add: fits_def widths_def kMemoryBarFormat_def kIoBarFormat_def bar_type_field_def)
qed

lemma bar_bytes_length:
  "length (le_ser lib (widths kMemoryBarFormat) [0, bar_type_field bar, (if b then 1 else 0), memory_bar_address_field bar]) = 4"
  "length (le_ser lib (widths kIoBarFormat) [1, 0, io_bar_address_field bar]) = 4"
  using bit_packer.ser_length [OF packer _ bar_fields_fit(1), of bar b] bit_packer.ser_length [OF packer _ bar_fields_fit(2), of bar]
  by (simp_all add: widths_def kMemoryBarFormat_def kIoBarFormat_def)

lemma put_bar_same:
  "i < kMaxBars \<Longrightarrow> cs_valid c \<Longrightarrow> length bs = 4 \<Longrightarrow> same_bytes (- {0x10..<0x28}) c (put_bytes (bar_offset i) bs c)"
  using bar_offset_range [of i] by (intro same_bytes_put) (auto simp: kConfigSpaceSize_def)

lemma put_bar_more:
  "same_bytes (- {0x10..<0x28}) c c1 \<Longrightarrow> i < kMaxBars \<Longrightarrow> length bs = 4 \<Longrightarrow> same_bytes (- {0x10..<0x28}) c (put_bytes (bar_offset i) bs c1)"
  using same_bytes_trans put_bar_same same_bytes_valid by blast

lemma initialize_bar_same:
  assumes "i < kMaxBars" "cs_valid c"
  shows "same_bytes (- {0x10..<0x28}) c (snd (initialize_bar lib bar i c))"
proof -
  define mem io where "mem = le_ser lib (widths kMemoryBarFormat)
      [0, bar_type_field bar, (if prefetchable bar then 1 else 0), memory_bar_address_field bar]"
    and "io = le_ser lib (widths kIoBarFormat) [1, 0, io_bar_address_field bar]"
  have len: "length mem = 4" "length io = 4" "\<And>v. length (le_write lib 4 v) = 4"
    using bar_bytes_length by (simp_all add: mem_def io_def write_le)
  have same: "same_bytes (- {0x10..<0x28}) c (put_bytes (bar_offset i) [0, 0, 0, 0] c)"
    using assms by (intro put_bar_same) simp_all
  show ?thesis
    using assms same len unfolding initialize_bar_def Let_def mem_def [symmetric] io_def [symmetric]
    by (simp add: put_bar_more)
qed

lemma bars_loop_same: "cs_valid c \<Longrightarrow> same_bytes (- {0x10..<0x28}) c (bars_loop lib bars i c)"
proof (induction "kMaxBars - i" arbitrary: i c rule: less_induct)
  case less
  show ?case
  proof (cases "i < kMaxBars")
    case True
    let ?r = "initialize_bar lib (bars ! i) i c"
    have step: "same_bytes (- {0x10..<0x28}) c (snd ?r)" using initialize_bar_same [OF True less.prems] .
    have "same_bytes (- {0x10..<0x28}) (snd ?r) (bars_loop lib bars (i + fst ?r) (snd ?r))"
      using True initialize_bar_advances [of lib "bars ! i" i c] same_bytes_valid [OF step] by (intro less.hyps) auto
    then show ?thesis
      using same_bytes_trans [OF step] True by (simp add: bars_loop.simps [of lib bars i c] case_prod_beta)
  next
    case False
    then show ?thesis using less.prems by (simp add: bars_loop.simps [of lib bars i c] same_bytes_refl)
  qed
qed

lemma put_cap_same:
  assumes "cs_valid c" "0x40 \<le> cap_offset x" "cap_offset x \<le> 0xFE"
  shows "same_bytes (- {unat (cap_offset x), Suc (unat (cap_offset x))}) c (put_cap lib x c)"
  using assms unfolding put_cap_def
  by (intro same_bytes_put) (auto simp: cap_header kConfigSpaceSize_def word_le_nat_alt)

lemma put_cap_header:
  assumes "cs_valid c" "cap_offset x \<le> 0xFE"
  shows "cs_data (put_cap lib x c) ! unat (cap_offset x) = capability_id (cap_id x)"
    "cs_data (put_cap lib x c) ! Suc (unat (cap_offset x)) = cap_next x"
  using assms unfolding put_cap_def by (simp_all add: nth_put_bytes cap_header kConfigSpaceSize_def word_le_nat_alt)

lemma put_caps_same:
  assumes "cs_valid c" "list_all (\<lambda>x. 0x40 \<le> cap_offset x \<and> cap_offset x \<le> 0xFE) cs"
    and "\<forall>x \<in> set cs. \<forall>i \<in> S. i < unat (cap_offset x) \<or> unat (cap_offset x) + 2 \<le> i"
  shows "same_bytes S c (fold (put_cap lib) cs c)"
  using assms
proof (induction cs arbitrary: c)
  case (Cons x cs)
  have step: "same_bytes S c (put_cap lib x c)"
    by (rule same_bytes_mono [OF put_cap_same]) (use Cons.prems in auto)
  with Cons show ?case using same_bytes_trans [OF step] same_bytes_valid [OF step] by simp
qed (simp add: same_bytes_refl)

lemma put_caps_headers:
  assumes "cs_valid c" "list_all (\<lambda>x. 0x40 \<le> cap_offset x \<and> cap_offset x \<le> 0xFE) cs" "sorted_wrt apart cs" "x \<in> set cs"
  shows "cs_data (fold (put_cap lib) cs c) ! unat (cap_offset x) = capability_id (cap_id x) \<and>
    cs_data (fold (put_cap lib) cs c) ! Suc (unat (cap_offset x)) = cap_next x"
  using assms
proof (induction cs arbitrary: c)
  case (Cons y cs)
  have valid: "cs_valid (put_cap lib y c)" using put_cap_same [of c y] Cons.prems by (auto dest: same_bytes_valid)
  show ?case
  proof (cases "x \<in> set cs")
    case True
    then show ?thesis using Cons.IH [OF valid] Cons.prems by simp
  next
    case False
    then have x: "x = y" using Cons.prems by simp
    have "same_bytes {unat (cap_offset y), Suc (unat (cap_offset y))} (put_cap lib y c) (fold (put_cap lib) cs (put_cap lib y c))"
      using Cons.prems by (intro put_caps_same valid) (auto simp: apart_def)
    moreover have "Suc (unat (cap_offset y)) < kConfigSpaceSize"
      using Cons.prems by (simp add: kConfigSpaceSize_def word_le_nat_alt)
    ultimately show ?thesis
      using put_cap_header [of c y] Cons.prems x by (simp add: same_bytes_def)
  qed
qed simp

lemma put_ext_caps_same:
  assumes "cs_valid c" "list_all (\<lambda>e. unat (ext_offset e) + 4 \<le> kConfigSpaceSize) es"
  shows "same_bytes {..<0x100} c (fold (put_ext_cap lib) es c)"
  using assms
proof (induction es arbitrary: c)
  case (Cons e es)
  have step: "same_bytes {..<0x100} c (put_ext_cap lib e c)"
  proof (cases "ext_offset e \<ge> 0x100")
    case True
    then show ?thesis
      using Cons.prems by (auto simp: put_ext_cap_def ext_cap_header word_le_nat_alt intro!: same_bytes_put)
  qed (use Cons.prems in \<open>simp add: put_ext_cap_def same_bytes_refl\<close>)
  with Cons show ?case using same_bytes_trans [OF step] same_bytes_valid [OF step] by simp
qed (simp add: same_bytes_refl)

lemma le_write_2: "le_write lib 2 v = [ucast v, ucast (drop_bit 8 v)]"
  by (simp add: write_le le_bytes_def upt_rec)

lemma put_identity:
  fixes c :: ConfigSpace and vendor_id device_id :: u16 and revision :: u8
  defines "raw \<equiv> raw_write8 0x0E 0 (raw_write8 (0x09 + 2) 2 (raw_write8 (0x09 + 1) 0 (raw_write8 0x09 0
     (raw_write8 0x08 revision (raw_write16 lib 0x06 (push_bit 4 1) (raw_write16 lib 0x04 (push_bit 10 1)
       (raw_write16 lib 0x02 device_id (raw_write16 lib 0x00 vendor_id (c\<lparr>cs_data := replicate kConfigSpaceSize 0\<rparr>)))))))))"
  shows "cs_valid raw \<and> cs_data raw ! 0 = ucast vendor_id \<and> cs_data raw ! 1 = ucast (drop_bit 8 vendor_id) \<and>
    cs_data raw ! 2 = ucast device_id \<and> cs_data raw ! 3 = ucast (drop_bit 8 device_id) \<and> cs_data raw ! 8 = revision \<and>
    cs_data raw ! 9 = 0 \<and> cs_data raw ! 10 = 0 \<and> cs_data raw ! 11 = 2 \<and> cs_data raw ! 14 = 0"
proof -
  have v: "cs_valid (c\<lparr>cs_data := replicate kConfigSpaceSize 0\<rparr>)" by (simp add: cs_valid_def)
  have u: "ucast (ucast (x :: u16) :: u64) = (ucast x :: u8)" "ucast (drop_bit 8 (ucast (x :: u16) :: u64)) = (ucast (drop_bit 8 x) :: u8)" for x
    by (auto intro!: bit_word_eqI simp: bit_simps)
  show ?thesis
    using v by (simp add: raw_def raw_write8_def raw_write16_def le_write_2 nth_put_bytes kConfigSpaceSize_def u)
qed

lemma initialize_stages:
  fixes c :: ConfigSpace
  assumes "caps_ok caps"
  obtains raw c8 c9 where
    "cs_valid raw" "cs_data raw ! 0 = ucast vendor_id" "cs_data raw ! 1 = ucast (drop_bit 8 vendor_id)"
    "cs_data raw ! 2 = ucast device_id" "cs_data raw ! 3 = ucast (drop_bit 8 device_id)" "cs_data raw ! 8 = revision"
    "cs_data raw ! 9 = 0" "cs_data raw ! 10 = 0" "cs_data raw ! 11 = 2" "cs_data raw ! 14 = 0"
    "same_bytes {..<0x10} raw c8" "cs_data c8 ! 0x34 = first_capability_offset caps"
    "c9 = initialize_capabilities lib caps c8"
    "same_bytes (- {0x3D}) c9 (ConfigSpace_initialize lib vendor_id device_id revision bars caps c)"
proof -
  define raw where "raw = raw_write8 0x0E 0 (raw_write8 (0x09 + 2) 2 (raw_write8 (0x09 + 1) 0 (raw_write8 0x09 0
     (raw_write8 0x08 revision (raw_write16 lib 0x06 (push_bit 4 1) (raw_write16 lib 0x04 (push_bit 10 1)
       (raw_write16 lib 0x02 device_id (raw_write16 lib 0x00 vendor_id (c\<lparr>cs_data := replicate kConfigSpaceSize 0\<rparr>)))))))))"
  define c7 where "c7 = initialize_bars lib bars raw"
  define c8 where "c8 = ConfigSpace_write8 0x34 (first_capability_offset caps) c7"
  define c9 where "c9 = initialize_capabilities lib caps c8"
  note raw = put_identity [where c = c and vendor_id = vendor_id and device_id = device_id and revision = revision, folded raw_def]
  have "same_bytes (- {0x10..<0x28}) raw c7" using raw by (simp add: c7_def initialize_bars_def bars_loop_same)
  then have c7: "same_bytes {..<0x10} raw c7" "cs_valid c7" by (auto elim: same_bytes_mono dest: same_bytes_valid)
  then have c8: "same_bytes {..<0x10} raw c8" "cs_data c8 ! 0x34 = first_capability_offset caps" "cs_valid c8"
    by (auto simp: c8_def ConfigSpace_write8_def is_read_only_def kConfigSpaceSize_def nth_put_bytes same_bytes_def)
  have "cs_valid c9"
    unfolding c9_def initialize_capabilities_def using assms c8(3)
    by (intro same_bytes_valid [OF put_ext_caps_same] same_bytes_valid [OF put_caps_same [where S = "{}"]]) (simp_all add: caps_ok_def)
  then have "same_bytes (- {0x3D}) c9 (ConfigSpace_write8 0x3D 0x01 c9)"
    by (auto simp: ConfigSpace_write8_def is_read_only_def kConfigSpaceSize_def intro!: same_bytes_put)
  moreover have "ConfigSpace_write8 0x3D 0x01 c9 = ConfigSpace_initialize lib vendor_id device_id revision bars caps c"
    by (simp add: ConfigSpace_initialize_def raw_def c7_def c8_def c9_def Let_def)
  ultimately show ?thesis using that [of raw c8 c9] raw c8 by (simp add: c9_def)
qed

lemma initialize_capabilities_low:
  assumes "caps_ok caps" "cs_valid c"
  shows "same_bytes {..<0x40} c (initialize_capabilities lib caps c)"
proof -
  have cap: "list_all (\<lambda>c. 0x40 \<le> cap_offset c \<and> cap_offset c \<le> 0xFE) (cap_standard caps)"
    and ext: "list_all (\<lambda>e. unat (ext_offset e) + 4 \<le> kConfigSpaceSize) (cap_extended caps)"
    using assms by (auto simp: caps_ok_def)
  have std: "same_bytes {..<0x40} c (fold (put_cap lib) (cap_standard caps) c)"
    using cap by (intro put_caps_same assms cap) (auto simp: list_all_iff word_le_nat_alt)
  show ?thesis
    unfolding initialize_capabilities_def
    by (rule same_bytes_trans [OF std same_bytes_mono [OF put_ext_caps_same [OF same_bytes_valid [OF std] ext]]]) auto
qed

lemma initialize_capabilities_headers:
  assumes "caps_ok caps" "cs_valid c" "x \<in> set (cap_standard caps)"
  shows "cs_data (initialize_capabilities lib caps c) ! unat (cap_offset x) = capability_id (cap_id x) \<and>
    cs_data (initialize_capabilities lib caps c) ! Suc (unat (cap_offset x)) = cap_next x"
proof -
  have cap: "list_all (\<lambda>c. 0x40 \<le> cap_offset c \<and> cap_offset c \<le> 0xFE) (cap_standard caps)" "sorted_wrt apart (cap_standard caps)"
    and ext: "list_all (\<lambda>e. unat (ext_offset e) + 4 \<le> kConfigSpaceSize) (cap_extended caps)"
    using assms by (auto simp: caps_ok_def)
  have "cs_valid (fold (put_cap lib) (cap_standard caps) c)"
    by (rule same_bytes_valid [OF put_caps_same [where S = "{}"]]) (use assms cap in auto)
  from put_ext_caps_same [OF this ext] put_caps_headers [OF assms(2) cap assms(3)] cap assms(3)
  show ?thesis by (auto simp: initialize_capabilities_def same_bytes_def list_all_iff word_le_nat_alt kConfigSpaceSize_def)
qed

lemma command_parsed:
  assumes "cs_valid c"
  shows "fits (widths kCommandRegisterFormat) (le_des lib (widths kCommandRegisterFormat) (subspan 0x04 2 (cs_data c)))"
  using assms by (intro des_fits) (simp_all add: widths_def kCommandRegisterFormat_def cs_valid_def kConfigSpaceSize_def)

lemma fits_nth: "fits ws vs \<longleftrightarrow> length vs = length ws \<and> (\<forall>k < length ws. ws ! k \<le> 64 \<and> unat (vs ! k) < 2 ^ (ws ! k))"
  unfolding fits_def by (auto simp: all_set_conv_all_nth)

lemma command_updated:
  assumes "fits (widths kCommandRegisterFormat) vs"
  shows "fits (widths kCommandRegisterFormat) (vs[i := (if v then 1 else 0)])"
proof -
  let ?ws = "widths kCommandRegisterFormat"
  have "list_all (\<lambda>w. 0 < w) ?ws" by (simp add: widths_def kCommandRegisterFormat_def)
  then have pos: "0 < ?ws ! k" if "k < length ?ws" for k using that by (simp add: list_all_length)
  have "unat (vs[i := (if v then 1 else 0)] ! k) < 2 ^ (?ws ! k)" if k: "k < length ?ws" for k
  proof (cases "i = k")
    case True
    have "(1 :: nat) < 2 ^ (?ws ! k)" using pos [OF k] by (intro one_less_power) simp_all
    then show ?thesis using True k assms by (auto simp: fits_nth)
  qed (use assms k in \<open>simp add: fits_nth\<close>)
  with assms show ?thesis by (simp add: fits_nth)
qed

lemma set_command_bit_put:
  assumes "cs_valid c" "field_index kCommandRegisterFormat name = Some i"
  shows "set_command_bit lib name v c = put_bytes 4 (le_ser lib (widths kCommandRegisterFormat)
      ((le_des lib (widths kCommandRegisterFormat) (subspan 4 2 (cs_data c)))[i := (if v then 1 else 0)])) c"
    "length (le_ser lib (widths kCommandRegisterFormat)
      ((le_des lib (widths kCommandRegisterFormat) (subspan 4 2 (cs_data c)))[i := (if v then 1 else 0)])) = 2"
proof -
  note f = command_updated [OF command_parsed [OF assms(1)], of i v]
  have "8 dvd sum_list (widths kCommandRegisterFormat)" "sum_list (widths kCommandRegisterFormat) div 8 = 2"
    by (simp_all add: widths_def kCommandRegisterFormat_def)
  with bit_packer.ser_length [OF packer this(1) f]
  show "length (le_ser lib (widths kCommandRegisterFormat)
      ((le_des lib (widths kCommandRegisterFormat) (subspan 4 2 (cs_data c)))[i := (if v then 1 else 0)])) = 2" by simp
  show "set_command_bit lib name v c = put_bytes 4 (le_ser lib (widths kCommandRegisterFormat)
      ((le_des lib (widths kCommandRegisterFormat) (subspan 4 2 (cs_data c)))[i := (if v then 1 else 0)])) c"
    using assms(2) fits_length [OF f] by (simp add: set_command_bit_def Let_def write_bits)
qed

lemma set_command_bit_same: "cs_valid c \<Longrightarrow> same_bytes (- {4, 5}) c (set_command_bit lib name v c)"
proof (cases "field_index kCommandRegisterFormat name")
  case (Some i)
  assume valid: "cs_valid c"
  have out: "x < 4 \<or> 4 + n \<le> x" if "x \<in> - {4, 5}" "n = 2" for x n :: nat using that by auto
  show ?thesis
    unfolding set_command_bit_put(1) [OF valid Some]
    by (rule same_bytes_put [OF valid]) (use set_command_bit_put(2) [OF valid Some, of v] out in \<open>auto simp: kConfigSpaceSize_def\<close>)
qed (simp add: set_command_bit_def same_bytes_refl)

lemma field_index_nth: "field_index fmt name = Some i \<Longrightarrow> i < length fmt \<and> fst (fmt ! i) = name"
  by (induction fmt name arbitrary: i rule: field_index.induct) (auto split: if_splits)

lemma command_bit_after:
  assumes "cs_valid c" "field_index kCommandRegisterFormat name = Some i"
  shows "is_command_bit_set lib (set_command_bit lib name v c) other =
    (if other = name then v else is_command_bit_set lib c other)"
proof (cases "field_index kCommandRegisterFormat other")
  case (Some j)
  let ?ws = "widths kCommandRegisterFormat"
  let ?vs = "le_des lib ?ws (subspan 4 2 (cs_data c))"
  note f = command_updated [OF command_parsed [OF assms(1)], of i v]
  have ij: "i < length ?ws" "j < length ?ws" "length ?vs = length ?ws"
    using field_index_nth [OF assms(2)] field_index_nth [OF Some] fits_length [OF command_parsed [OF assms(1)]]
    by (simp_all add: widths_def)
  have eq: "i = j \<longleftrightarrow> other = name"
    using field_index_nth [OF assms(2)] field_index_nth [OF Some] Some assms(2) by (metis option.inject)
  have "8 dvd sum_list ?ws" by (simp add: widths_def kCommandRegisterFormat_def)
  from bit_packer.des_ser [OF packer this f, of "[]"]
  have "le_des lib ?ws (subspan 4 2 (cs_data (set_command_bit lib name v c))) = ?vs[i := (if v then 1 else 0)]"
    using set_command_bit_put [OF assms, of v] assms(1)
    by (simp add: put_bytes_def cs_valid_def kConfigSpaceSize_def)
  then have "is_command_bit_set lib (set_command_bit lib name v c) other \<longleftrightarrow> ?vs[i := (if v then 1 else 0)] ! j \<noteq> 0"
    using ij(2) Some by (simp add: is_command_bit_set_def read_field)
  moreover have "is_command_bit_set lib c other \<longleftrightarrow> ?vs ! j \<noteq> 0" using ij(2) Some by (simp add: is_command_bit_set_def read_field)
  ultimately show ?thesis using ij eq by (cases "i = j") (simp_all add: nth_list_update)
next
  case None
  then show ?thesis using assms(2) by (auto simp: is_command_bit_set_def)
qed

end

section \<open>Host accesses\<close>

datatype cfg_write = CfgWrite8 u16 u8 | CfgWrite16 u16 u16 | CfgWrite32 u16 u32 | CfgCommand string bool

fun cfg_step :: "le_library \<Rightarrow> cfg_write \<Rightarrow> ConfigSpace \<Rightarrow> ConfigSpace" where
  "cfg_step lib (CfgWrite8 offset v) c = ConfigSpace_write8 offset v c"
| "cfg_step lib (CfgWrite16 offset v) c = ConfigSpace_write16 lib offset v c"
| "cfg_step lib (CfgWrite32 offset v) c = ConfigSpace_write32 lib offset v c"
| "cfg_step lib (CfgCommand name v) c = set_command_bit lib name v c"

fun cfg_aligned :: "cfg_write \<Rightarrow> bool" where
  "cfg_aligned (CfgWrite8 offset v) = True"
| "cfg_aligned (CfgWrite16 offset v) = (unat offset mod 2 = 0)"
| "cfg_aligned (CfgWrite32 offset v) = (unat offset mod 4 = 0)"
| "cfg_aligned (CfgCommand name v) = True"

text \<open>The bytes of vendor id, device id, revision and class code, and the header type unless a 32-bit write goes to \<open>0x0C\<close>.\<close>

definition identity_bytes :: "nat set" where
  "identity_bytes = {0, 1, 2, 3, 8, 9, 10, 11}"

fun hits_header_type :: "cfg_write \<Rightarrow> bool" where
  "hits_header_type (CfgWrite32 offset v) = (offset = 0x0C)"
| "hits_header_type _ = False"

lemma read_only_nat: "is_read_only x \<longleftrightarrow> unat x \<le> 3 \<or> (8 \<le> unat x \<and> unat x < 12) \<or> unat x = 14"
  by (simp add: is_read_only_def word_le_nat_alt word_less_nat_alt word_unat_eq_iff)

context le_bits
begin

lemma aligned_clear:
  fixes x n :: nat
  assumes "3 < x" "x < 8 \<or> 12 \<le> x" "x \<noteq> 14" "x mod n = 0" "n \<in> {1, 2, 4}"
  shows "(4 \<le> x \<and> x + n \<le> 8) \<or> 12 \<le> x" "(n = 4 \<and> x = 12) \<or> x + n \<le> 14 \<or> 15 \<le> x"
proof -
  consider "n = 1" | "n = 2" | "n = 4" using assms(5) by auto
  then have "((4 \<le> x \<and> x + n \<le> 8) \<or> 12 \<le> x) \<and> ((n = 4 \<and> x = 12) \<or> x + n \<le> 14 \<or> 15 \<le> x)"
  proof cases
    case 1 with assms(1-3) show ?thesis by auto
  next
    case 2 show ?thesis unfolding 2 using assms(1-4) [unfolded 2] by presburger
  next
    case 3 show ?thesis unfolding 3 using assms(1-4) [unfolded 3] by presburger
  qed
  then show "(4 \<le> x \<and> x + n \<le> 8) \<or> 12 \<le> x" "(n = 4 \<and> x = 12) \<or> x + n \<le> 14 \<or> 15 \<le> x" by blast+
qed

lemma put_identity_same:
  assumes "cs_valid c" "off + length bs \<le> kConfigSpaceSize" "(4 \<le> off \<and> off + length bs \<le> 8) \<or> 12 \<le> off"
    and "h \<or> off + length bs \<le> 14 \<or> 15 \<le> off"
  shows "same_bytes (identity_bytes \<union> (if h then {} else {14})) c (put_bytes off bs c)"
proof (rule same_bytes_put [OF assms(1,2)], rule ballI)
  fix i assume "i \<in> identity_bytes \<union> (if h then {} else {14})"
  then have "i \<le> 3 \<or> (8 \<le> i \<and> i \<le> 11) \<or> (i = 14 \<and> \<not> h)" by (auto simp: identity_bytes_def split: if_splits)
  then show "i < off \<or> off + length bs \<le> i" using assms(3,4) by linarith
qed

lemma cfg_step_same:
  assumes valid: "cs_valid c" and aligned: "cfg_aligned op"
  shows "same_bytes (identity_bytes \<union> (if hits_header_type op then {} else {14})) c (cfg_step lib op c)"
proof -
  have put: "same_bytes (identity_bytes \<union> (if h then {} else {14})) c (put_bytes (unat x) bs c)"
    if "unat x + length bs \<le> kConfigSpaceSize" "\<not> is_read_only x" "unat x mod length bs = 0" "length bs \<in> {1, 2, 4}" "h \<longleftrightarrow> length bs = 4 \<and> unat x = 12"
    for x :: u16 and bs h
  proof (rule put_identity_same [OF valid that(1)])
    have x: "3 < unat x" "unat x < 8 \<or> 12 \<le> unat x" "unat x \<noteq> 14" using that(2) by (auto simp: read_only_nat)
    from aligned_clear [OF x that(3,4)]
    show "(4 \<le> unat x \<and> unat x + length bs \<le> 8) \<or> 12 \<le> unat x" "h \<or> unat x + length bs \<le> 14 \<or> 15 \<le> unat x"
      using that(5) by auto
  qed
  show ?thesis
  proof (cases op)
    case (CfgWrite8 x v)
    then show ?thesis using put [of x "[v]" False] same_bytes_refl [OF valid] by (simp add: ConfigSpace_write8_def)
  next
    case (CfgWrite16 x v)
    then show ?thesis
      using put [of x "le_write lib 2 (ucast v)" False] same_bytes_refl [OF valid] aligned by (simp add: ConfigSpace_write16_def write_le)
  next
    case (CfgWrite32 x v)
    then have "hits_header_type op \<longleftrightarrow> unat x = 12" by (simp add: word_unat_eq_iff)
    with CfgWrite32 show ?thesis
      using put [of x "le_write lib 4 (ucast v)" "hits_header_type op"] same_bytes_refl [OF valid] aligned
      by (simp add: ConfigSpace_write32_def write_le)
  next
    case (CfgCommand name v)
    then show ?thesis using same_bytes_mono [OF set_command_bit_same [OF valid, of name v]] by (simp add: identity_bytes_def)
  qed
qed

lemma cfg_steps_same:
  assumes "cs_valid c" "list_all cfg_aligned ops"
  shows "same_bytes (identity_bytes \<union> (if list_ex hits_header_type ops then {} else {14})) c (fold (cfg_step lib) ops c)"
  using assms
proof (induction ops arbitrary: c)
  case (Cons op ops)
  let ?S = "identity_bytes \<union> (if list_ex hits_header_type (op # ops) then {} else {14})"
  have step: "same_bytes ?S c (cfg_step lib op c)"
    using Cons.prems by (intro same_bytes_mono [OF cfg_step_same]) auto
  have "same_bytes ?S (cfg_step lib op c) (fold (cfg_step lib) ops (cfg_step lib op c))"
    using Cons.prems by (intro same_bytes_mono [OF Cons.IH [OF same_bytes_valid [OF step]]]) auto
  with step show ?case by (auto intro: same_bytes_trans)
qed (simp add: same_bytes_refl)

end

section \<open>Walking the capability list\<close>

text \<open>What a host does: start at an offset, note the id, follow the next pointer until it is zero. The first argument bounds the steps.\<close>

fun cap_walk :: "nat \<Rightarrow> ConfigSpace \<Rightarrow> u8 \<Rightarrow> u8 list option" where
  "cap_walk 0 c off = None"
| "cap_walk (Suc n) c off =
     (if off = 0 then Some []
      else map_option ((#) (ConfigSpace_read8 c (ucast off))) (cap_walk n c (ConfigSpace_read8 c (ucast off + 1))))"

lemma read_header:
  assumes "off \<le> (0xFE :: u8)"
  shows "ConfigSpace_read8 c (ucast off) = cs_data c ! unat off" "ConfigSpace_read8 c (ucast off + 1) = cs_data c ! Suc (unat off)"
proof -
  have "unat off \<le> 254" using assms by (simp add: word_le_nat_alt)
  then have "unat (ucast off :: u16) = unat off" "unat (ucast off + 1 :: u16) = Suc (unat off)"
    by (simp_all add: unat_ucast_up unat_word_ariths)
  with \<open>unat off \<le> 254\<close> show "ConfigSpace_read8 c (ucast off) = cs_data c ! unat off" "ConfigSpace_read8 c (ucast off + 1) = cs_data c ! Suc (unat off)"
    by (simp_all add: ConfigSpace_read8_def kConfigSpaceSize_def)
qed

lemma cap_walk_chain:
  assumes "cap_chain cs" "list_all (\<lambda>x. 0x40 \<le> cap_offset x \<and> cap_offset x \<le> 0xFE) cs"
    and "\<forall>x \<in> set cs. cs_data c ! unat (cap_offset x) = capability_id (cap_id x) \<and> cs_data c ! Suc (unat (cap_offset x)) = cap_next x"
  shows "cap_walk (Suc (length cs)) c (case cs of [] \<Rightarrow> 0 | x # _ \<Rightarrow> cap_offset x) = Some (map (\<lambda>x. capability_id (cap_id x)) cs)"
  using assms
proof (induction cs rule: cap_chain.induct)
  case (2 x)
  then have "cap_offset x \<noteq> 0" by auto
  with 2 show ?case by (simp add: read_header)
next
  case (3 x y cs)
  then have "cap_offset x \<noteq> 0" by auto
  with 3 show ?case by (simp add: read_header)
qed simp

text \<open>C38: A host that starts at the capabilities pointer of an initialised configuration space and follows the next pointers finds exactly
  the configured standard capabilities, in order, and reaches the end of the list. This holds for every capability list whose
  headers lie in the legacy space behind the standard header, do not overlap and point to each other in order.\<close>

theorem capability_walk_complete:
  assumes "le_bits lib" and "caps_ok caps"
  shows "cap_walk (Suc (length (cap_standard caps))) (ConfigSpace_initialize lib vendor_id device_id revision bars caps c)
      (ConfigSpace_read8 (ConfigSpace_initialize lib vendor_id device_id revision bars caps c) 0x34) =
    Some (map (\<lambda>x. capability_id (cap_id x)) (cap_standard caps))"
proof -
  let ?c = "ConfigSpace_initialize lib vendor_id device_id revision bars caps c"
  have range: "list_all (\<lambda>x. 0x40 \<le> cap_offset x \<and> cap_offset x \<le> 0xFE) (cap_standard caps)" "cap_chain (cap_standard caps)"
    using assms(2) by (auto simp: caps_ok_def)
  obtain c8 c9 where c8: "cs_valid c8" "cs_data c8 ! 0x34 = first_capability_offset caps" "c9 = initialize_capabilities lib caps c8"
    and last: "same_bytes (- {0x3D}) c9 ?c"
    using le_bits.initialize_stages [OF assms] same_bytes_valid by metis
  have "cs_data c9 ! 0x34 = first_capability_offset caps"
    using le_bits.initialize_capabilities_low [OF assms c8(1)] c8(2,3) by (simp add: same_bytes_def kConfigSpaceSize_def)
  then have start: "ConfigSpace_read8 ?c 0x34 = (case cap_standard caps of [] \<Rightarrow> 0 | x # _ \<Rightarrow> cap_offset x)"
    using last by (simp add: same_bytes_def ConfigSpace_read8_def kConfigSpaceSize_def first_capability_offset_def)
  have "cs_data ?c ! unat (cap_offset x) = capability_id (cap_id x) \<and> cs_data ?c ! Suc (unat (cap_offset x)) = cap_next x"
    if x: "x \<in> set (cap_standard caps)" for x
  proof -
    have "0x40 \<le> unat (cap_offset x)" "unat (cap_offset x) \<le> 0xFE" using range(1) x by (auto simp: list_all_iff word_le_nat_alt)
    then show ?thesis
      using le_bits.initialize_capabilities_headers [OF assms c8(1) x] last c8(3) by (simp add: same_bytes_def kConfigSpaceSize_def)
  qed
  then show ?thesis unfolding start by (intro cap_walk_chain range) blast
qed

lemma default_caps_ok: "caps_ok MakeDefaultCapabilities"
  by (simp add: caps_ok_def MakeDefaultCapabilities_def apart_def kConfigSpaceSize_def)

lemma capability_walk_complete_witness:
  "cap_walk 4 (ConfigSpace_initialize lsb_library 0x8086 0x10D3 1 MakeDefaultBars MakeDefaultCapabilities ConfigSpace_new)
      (ConfigSpace_read8 (ConfigSpace_initialize lsb_library 0x8086 0x10D3 1 MakeDefaultBars MakeDefaultCapabilities ConfigSpace_new) 0x34) =
    Some [0x01, 0x11, 0x10]"
  using capability_walk_complete [OF lsb.le_bits_axioms default_caps_ok, of "0x8086" "0x10D3" 1 MakeDefaultBars ConfigSpace_new]
  by (simp add: MakeDefaultCapabilities_def eval_nat_numeral)

section \<open>Identity\<close>

lemma le_value_16: "ucast (le_value [ucast (v :: u16), ucast (drop_bit 8 v)]) = v"
  by (rule bit_word_eqI) (auto simp: le_value_def bit_simps)

lemma identity_kept:
  fixes ops :: "cfg_write list" and c :: ConfigSpace and vendor_id device_id :: u16 and revision :: u8 and bars :: "Bar list"
  assumes "le_bits lib" and "caps_ok caps" and "list_all cfg_aligned ops"
  defines "c' \<equiv> fold (cfg_step lib) ops (ConfigSpace_initialize lib vendor_id device_id revision bars caps c)"
  shows "ConfigSpace_read16 lib c' 0x00 = vendor_id \<and> ConfigSpace_read16 lib c' 0x02 = device_id \<and> ConfigSpace_read8 c' 0x08 = revision \<and>
    map (ConfigSpace_read8 c') [0x09, 0x0A, 0x0B] = [0x00, 0x00, 0x02] \<and>
    (\<not> list_ex hits_header_type ops \<longrightarrow> ConfigSpace_read8 c' 0x0E = 0x00)"
proof -
  let ?c = "ConfigSpace_initialize lib vendor_id device_id revision bars caps c"
  obtain raw c8 c9 where raw: "cs_valid raw" "cs_data raw ! 0 = ucast vendor_id" "cs_data raw ! 1 = ucast (drop_bit 8 vendor_id)"
    "cs_data raw ! 2 = ucast device_id" "cs_data raw ! 3 = ucast (drop_bit 8 device_id)" "cs_data raw ! 8 = revision"
    "cs_data raw ! 9 = 0" "cs_data raw ! 10 = 0" "cs_data raw ! 11 = 2" "cs_data raw ! 14 = 0"
    and c8: "same_bytes {..<0x10} raw c8" and c9: "c9 = initialize_capabilities lib caps c8" and last: "same_bytes (- {0x3D}) c9 ?c"
    by (rule le_bits.initialize_stages [OF assms(1,2)])
  have "same_bytes {..<0x10} c8 c9"
    unfolding c9 by (rule same_bytes_mono [OF le_bits.initialize_capabilities_low [OF assms(1,2) same_bytes_valid [OF c8]]]) auto
  moreover have "same_bytes {..<0x10} c9 ?c" by (rule same_bytes_mono [OF last]) auto
  ultimately have init: "same_bytes {..<0x10} raw ?c" using c8 same_bytes_trans by blast
  have valid: "cs_valid ?c" using init by (rule same_bytes_valid)
  note ops = le_bits.cfg_steps_same [OF assms(1) valid assms(3), folded c'_def]
  have kept: "cs_data c' ! i = cs_data raw ! i" if "i \<in> identity_bytes \<or> i = 14 \<and> \<not> list_ex hits_header_type ops" for i
  proof -
    have "i < 16" using that by (auto simp: identity_bytes_def)
    moreover from this have "i < kConfigSpaceSize" by (simp add: kConfigSpaceSize_def)
    ultimately show ?thesis using ops init that by (auto simp: same_bytes_def)
  qed
  have sub: "subspan 0 2 (cs_data c') = [cs_data c' ! 0, cs_data c' ! 1]" "subspan 2 2 (cs_data c') = [cs_data c' ! 2, cs_data c' ! 3]"
    using same_bytes_valid [OF ops]
    by (auto intro!: nth_equalityI simp: nth_subspan cs_valid_def kConfigSpaceSize_def less_Suc_eq numeral_2_eq_2 numeral_3_eq_3)
  have read: "le_read lib 2 [a, b] = le_value [a, b]" for a b
    using le_bits.read_le [OF assms(1), of "[a, b]"] by (simp add: numeral_2_eq_2)
  show ?thesis
    using kept raw by (simp add: ConfigSpace_read16_def ConfigSpace_read8_def kConfigSpaceSize_def sub read le_value_16 identity_bytes_def)
qed

text \<open>C39: After initialisation, no sequence of naturally aligned 8-, 16- and 32-bit writes and command bit updates changes
  what the host reads as vendor id, device id, revision and class code; the header type stays as well unless a 32-bit write goes to
  \<open>0x0C\<close>.\<close>

theorem config_identity_stable:
  fixes ops :: "cfg_write list" and c :: ConfigSpace and vendor_id device_id :: u16 and revision :: u8 and bars :: "Bar list"
  assumes "le_bits lib" and "caps_ok caps" and "list_all cfg_aligned ops"
  defines "c' \<equiv> fold (cfg_step lib) ops (ConfigSpace_initialize lib vendor_id device_id revision bars caps c)"
  shows "ConfigSpace_read16 lib c' 0x00 = vendor_id \<and> ConfigSpace_read16 lib c' 0x02 = device_id \<and> ConfigSpace_read8 c' 0x08 = revision \<and>
    map (ConfigSpace_read8 c') [0x09, 0x0A, 0x0B] = [0x00, 0x00, 0x02] \<and>
    (\<not> list_ex hits_header_type ops \<longrightarrow> ConfigSpace_read8 c' 0x0E = 0x00)"
  unfolding c'_def by (rule identity_kept [OF assms(1-3)])

lemma config_identity_stable_witness:
  "ConfigSpace_read16 lsb_library (fold (cfg_step lsb_library) [CfgWrite32 0x08 0xFFFFFFFF, CfgWrite16 0x04 7]
     (ConfigSpace_initialize lsb_library 0x8086 0x10D3 1 MakeDefaultBars MakeDefaultCapabilities ConfigSpace_new)) 0x00 = 0x8086"
  using config_identity_stable [OF lsb.le_bits_axioms default_caps_ok, of "[CfgWrite32 0x08 0xFFFFFFFF, CfgWrite16 0x04 7]" "0x8086" "0x10D3" 1
      MakeDefaultBars ConfigSpace_new] by simp

text \<open>The read-only check looks at the first byte of a write only: an aligned 32-bit write to \<open>0x0C\<close> reaches the header type, and a 16-bit
  write to \<open>0x07\<close> the revision.\<close>

lemma read_only_bytes_reached:
  assumes "le_bits lib" "cs_valid c"
  shows "ConfigSpace_read8 (ConfigSpace_write32 lib 0x0C 0xFFFFFFFF c) 0x0E = 0xFF \<and>
    ConfigSpace_read8 (ConfigSpace_write16 lib 0x07 0xFFFF c) 0x08 = 0xFF"
  using assms(2)
  by (simp add: ConfigSpace_read8_def ConfigSpace_write16_def ConfigSpace_write32_def is_read_only_def kConfigSpaceSize_def
      le_bits.write_le [OF assms(1)] nth_put_bytes le_bytes_def upt_rec)

section \<open>Command bits\<close>

text \<open>Setting a field of the command register by name makes it read as set, leaves every other field of the register as it
  was, and changes no other byte of the configuration space.\<close>

theorem command_bits_independent:
  assumes "le_bits lib" and "cs_valid c" and "field_index kCommandRegisterFormat name = Some i"
  shows "(\<forall>other. is_command_bit_set lib (set_command_bit lib name v c) other =
      (if other = name then v else is_command_bit_set lib c other)) \<and>
    (\<forall>offset. offset \<noteq> 0x04 \<and> offset \<noteq> 0x05 \<longrightarrow> ConfigSpace_read8 (set_command_bit lib name v c) offset = ConfigSpace_read8 c offset)"
proof -
  have "unat offset \<noteq> 4 \<and> unat offset \<noteq> 5" if "offset \<noteq> 0x04" "offset \<noteq> 0x05" for offset :: u16
    using that by (simp add: word_unat_eq_iff)
  then show ?thesis
    using le_bits.command_bit_after [OF assms] le_bits.set_command_bit_same [OF assms(1,2), of name v]
    by (simp add: ConfigSpace_read8_def same_bytes_def)
qed

lemma command_bits_independent_witness:
  "is_command_bit_set lsb_library (set_command_bit lsb_library ''bus_master_enable'' True ConfigSpace_new) ''bus_master_enable''"
  using command_bits_independent [OF lsb.le_bits_axioms, of ConfigSpace_new "''bus_master_enable''" 2 True]
  by (simp add: cs_valid_def ConfigSpace_new_def kCommandRegisterFormat_def)

end
