(* ===== verification/Rocev2_Types.thy ===== *)
theory Rocev2_Types
  imports Dma_Engine
begin

text \<open>
  The RDMA types of \<^verbatim>\<open>rocev2/types.h\<close>, \<^verbatim>\<open>wqe.h\<close> and \<^verbatim>\<open>cqe.h\<close>, and the arithmetic of 24-bit packet sequence
  numbers. Opcodes and AETH syndromes come off the wire as raw bytes that are cast to the enumeration, so
  they are bytes here with the enumerators as named values.
\<close>

section \<open>Enumerations\<close>

definition kRoceUdpPort :: u16 where "kRoceUdpPort = 4791"
definition kMaxPsn :: u32 where "kMaxPsn = 0x00FFFFFF"
definition kDefaultPkey :: u16 where "kDefaultPkey = 0xFFFF"

datatype QpType = QptRc | QptUc | QptUd

datatype QpState = QpReset | QpInit | QpRtr | QpRts | QpSqd | QpSqErr | QpError

type_synonym RdmaOpcode = u8

abbreviation kRcSendFirst :: RdmaOpcode where "kRcSendFirst \<equiv> 0x00"
abbreviation kRcSendMiddle :: RdmaOpcode where "kRcSendMiddle \<equiv> 0x01"
abbreviation kRcSendLast :: RdmaOpcode where "kRcSendLast \<equiv> 0x02"
abbreviation kRcSendLastImm :: RdmaOpcode where "kRcSendLastImm \<equiv> 0x03"
abbreviation kRcSendOnly :: RdmaOpcode where "kRcSendOnly \<equiv> 0x04"
abbreviation kRcSendOnlyImm :: RdmaOpcode where "kRcSendOnlyImm \<equiv> 0x05"
abbreviation kRcWriteFirst :: RdmaOpcode where "kRcWriteFirst \<equiv> 0x06"
abbreviation kRcWriteMiddle :: RdmaOpcode where "kRcWriteMiddle \<equiv> 0x07"
abbreviation kRcWriteLast :: RdmaOpcode where "kRcWriteLast \<equiv> 0x08"
abbreviation kRcWriteLastImm :: RdmaOpcode where "kRcWriteLastImm \<equiv> 0x09"
abbreviation kRcWriteOnly :: RdmaOpcode where "kRcWriteOnly \<equiv> 0x0A"
abbreviation kRcWriteOnlyImm :: RdmaOpcode where "kRcWriteOnlyImm \<equiv> 0x0B"
abbreviation kRcReadRequest :: RdmaOpcode where "kRcReadRequest \<equiv> 0x0C"
abbreviation kRcReadResponseFirst :: RdmaOpcode where "kRcReadResponseFirst \<equiv> 0x0D"
abbreviation kRcReadResponseMiddle :: RdmaOpcode where "kRcReadResponseMiddle \<equiv> 0x0E"
abbreviation kRcReadResponseLast :: RdmaOpcode where "kRcReadResponseLast \<equiv> 0x0F"
abbreviation kRcReadResponseOnly :: RdmaOpcode where "kRcReadResponseOnly \<equiv> 0x10"
abbreviation kRcAck :: RdmaOpcode where "kRcAck \<equiv> 0x11"
abbreviation kCnp :: RdmaOpcode where "kCnp \<equiv> 0x81"

datatype WqeOpcode = WqSend | WqSendImm | WqRdmaWrite | WqRdmaWriteImm | WqRdmaRead

datatype WqeStatus = WsSuccess | WsLocalLengthError | WsLocalQpOperationError | WsLocalProtectionError
  | WsWrFlushError | WsMemoryWindowBindError | WsBadResponseError | WsLocalAccessError
  | WsRemoteInvalidRequestError | WsRemoteAccessError | WsRemoteOperationError | WsRetryExceededError
  | WsRnrRetryExceededError | WsTransportRetryExceededError | WsInvalidQpStateError

type_synonym AethSyndrome = u8

abbreviation asAck :: AethSyndrome where "asAck \<equiv> 0x00"
abbreviation asRnrNak :: AethSyndrome where "asRnrNak \<equiv> 0x20"
abbreviation asPsnSeqError :: AethSyndrome where "asPsnSeqError \<equiv> 0x60"
abbreviation asInvalidRequest :: AethSyndrome where "asInvalidRequest \<equiv> 0x61"
abbreviation asRemoteAccessError :: AethSyndrome where "asRemoteAccessError \<equiv> 0x62"
abbreviation asRemoteOpError :: AethSyndrome where "asRemoteOpError \<equiv> 0x63"

record AccessFlags =
  local_read :: bool
  local_write :: bool
  remote_read :: bool
  remote_write :: bool
  zero_based :: bool

section \<open>Work requests and completions\<close>

record SendWqe =
  swqe_wr_id :: u64
  swqe_opcode :: WqeOpcode
  swqe_sgl :: "SglEntry list"
  swqe_total_length :: u32
  signaled :: bool
  solicited :: bool
  fence :: bool
  inline_data :: bool
  swqe_immediate_data :: u32
  remote_address :: u64
  swqe_rkey :: u32
  local_lkey :: u32

record RecvWqe =
  rwqe_wr_id :: u64
  rwqe_sgl :: "SglEntry list"
  rwqe_total_length :: u32

record RdmaCqe =
  cqe_wr_id :: u64
  cqe_status :: WqeStatus
  cqe_opcode :: WqeOpcode
  cqe_qp_number :: u32
  bytes_completed :: u32
  cqe_immediate_data :: u32
  cqe_has_immediate :: bool
  cqe_is_send :: bool

definition RdmaCqe_default :: RdmaCqe where
  "RdmaCqe_default = \<lparr>cqe_wr_id = 0, cqe_status = WsSuccess, cqe_opcode = WqSend, cqe_qp_number = 0,
     bytes_completed = 0, cqe_immediate_data = 0, cqe_has_immediate = False, cqe_is_send = True\<rparr>"

text \<open>The sum is a 32-bit one; each length is a \<^verbatim>\<open>size_t\<close> that is truncated when added.\<close>

definition compute_sgl_length :: "SglEntry list \<Rightarrow> u32" where
  "compute_sgl_length sgl = foldl (\<lambda>tot e. tot + of_nat (sge_length e)) 0 sgl"

section \<open>Packet sequence numbers\<close>

definition advance_psn :: "u32 \<Rightarrow> u32 \<Rightarrow> u32" where
  "advance_psn psn increment = (psn + increment) AND kMaxPsn"

definition psn_in_window :: "u32 \<Rightarrow> u32 \<Rightarrow> u32 \<Rightarrow> bool" where
  "psn_in_window psn base window_size \<longleftrightarrow> (psn - base) AND kMaxPsn < window_size"

text \<open>A sequence number is a number below \<open>2 ^ 24\<close>.\<close>

abbreviation psn_ok :: "u32 \<Rightarrow> bool" where
  "psn_ok p \<equiv> unat p < 2 ^ 24"

lemma unat_and_kMaxPsn: "unat (w AND kMaxPsn) = unat w mod 2 ^ 24"
proof -
  have "w AND kMaxPsn = take_bit 24 w" by (simp add: kMaxPsn_def take_bit_eq_mask mask_eq_exp_minus_1)
  then show ?thesis by (simp add: unsigned_take_bit_eq take_bit_eq_mod unat_word_ariths)
qed

lemma unat_advance_psn: "unat (advance_psn p n) = (unat p + unat n) mod 2 ^ 24"
proof -
  have "(2 :: nat) ^ 24 dvd 2 ^ 32" by (rule le_imp_power_dvd) simp
  then show ?thesis
    unfolding advance_psn_def unat_and_kMaxPsn by (simp add: unat_word_ariths mod_mod_cancel)
qed

lemma psn_ok_advance [simp]: "unat (advance_psn p n) < 16777216"
  by (simp add: unat_advance_psn)

lemma advance_psn_add: "unat a + unat b < 2 ^ 32 \<Longrightarrow> advance_psn (advance_psn p a) b = advance_psn p (a + b)"
proof -
  assume "unat a + unat b < 2 ^ 32"
  then have "unat (a + b) = unat a + unat b" by (simp add: unat_word_ariths)
  then show ?thesis
    unfolding word_unat_eq_iff unat_advance_psn by (simp only: mod_add_left_eq add.assoc)
qed

lemma advance_psn_0: "psn_ok p \<Longrightarrow> advance_psn p 0 = p"
  by (simp add: word_unat_eq_iff unat_advance_psn)

lemma unat_psn_diff:
  assumes "psn_ok p" "psn_ok b"
  shows "unat ((p - b) AND kMaxPsn) = (unat p + 2 ^ 24 - unat b) mod 2 ^ 24"
proof (cases "unat b \<le> unat p")
  case True
  then have "unat (p - b) = unat p - unat b" by (simp add: unat_sub word_le_nat_alt)
  moreover have "(unat p + 2 ^ 24 - unat b) mod 2 ^ 24 = (unat p - unat b) mod 2 ^ 24"
    using True by (simp add: Nat.diff_add_assoc2 [symmetric] flip: mod_add_self2 [of "unat p - unat b"])
  ultimately show ?thesis by (simp add: unat_and_kMaxPsn)
next
  case False
  then have "unat (p - b) = 2 ^ 32 + unat p - unat b" by (simp add: unat_sub_if_size word_size)
  moreover have "(2 ^ 32 + unat p - unat b) mod 2 ^ 24 = (unat p + 2 ^ 24 - unat b) mod (2 ^ 24 :: nat)"
  proof -
    have "2 ^ 32 + unat p - unat b = (unat p + 2 ^ 24 - unat b) + 255 * 2 ^ 24" using assms by simp
    then show ?thesis by (simp only: mod_mult_self1)
  qed
  ultimately show ?thesis by (simp add: unat_and_kMaxPsn)
qed

lemma psn_window_iff:
  assumes "psn_ok p" "psn_ok b" "unat w \<le> 2 ^ 24"
  shows "psn_in_window p b w \<longleftrightarrow> (\<exists>k. unat k < unat w \<and> p = advance_psn b k)"
proof
  let ?d = "(p - b) AND kMaxPsn"
  assume "psn_in_window p b w"
  then have d: "unat ?d < unat w" by (simp add: psn_in_window_def word_less_nat_alt)
  have "(unat b + (unat p + 2 ^ 24 - unat b) mod 2 ^ 24) mod 2 ^ 24 = unat p"
    using assms(1,2) by (simp only: mod_add_right_eq) simp
  then have "p = advance_psn b ?d"
    by (simp add: word_unat_eq_iff unat_advance_psn unat_psn_diff [OF assms(1,2)])
  with d show "\<exists>k. unat k < unat w \<and> p = advance_psn b k" by blast
next
  assume "\<exists>k. unat k < unat w \<and> p = advance_psn b k"
  then obtain k where k: "unat k < unat w" "p = advance_psn b k" by blast
  have "unat ((p - b) AND kMaxPsn) = ((unat b + unat k) mod 2 ^ 24 + (2 ^ 24 - unat b)) mod 2 ^ 24"
    using unat_psn_diff [OF assms(1,2)] k(2) assms(2) by (simp add: unat_advance_psn)
  also have "\<dots> = (unat k + 2 ^ 24) mod 2 ^ 24" using assms(2) by (simp only: mod_add_left_eq) simp
  also have "\<dots> = unat k" using k(1) assms(3) by simp
  finally show "psn_in_window p b w" using k(1) by (simp add: psn_in_window_def word_less_nat_alt)
qed

section \<open>Properties\<close>

text \<open>the 32-bit subtraction and mask of \<^verbatim>\<open>psn_in_window\<close> decide the window of 24-bit sequence numbers,
  around the wrap: a number is in the window of size \<open>w\<close> from \<open>b\<close> exactly when it is \<open>b\<close> advanced by some
  \<open>k < w\<close>.\<close>

theorem psn_window_correct:
  assumes "psn_ok p" and "psn_ok b" and "unat w \<le> 2 ^ 24"
  shows "psn_in_window p b w \<longleftrightarrow> (\<exists>k. unat k < unat w \<and> p = advance_psn b k)"
  by (rule psn_window_iff [OF assms])

theorem psn_window_correct_witness: "psn_in_window 1 0xFFFFFF 3"
proof -
  have "(1 :: u32) = advance_psn 0xFFFFFF 2" by (simp add: advance_psn_def kMaxPsn_def)
  then have "\<exists>k. unat k < unat (3 :: u32) \<and> (1 :: u32) = advance_psn 0xFFFFFF k"
    by (intro exI [of _ 2]) simp
  with psn_window_correct [of 1 "0xFFFFFF" 3] show ?thesis by simp
qed

end
