(* ===== verification/Rocev2_Packet.thy ===== *)
theory Rocev2_Packet
  imports Rocev2_Types Bit_Packing
begin

text \<open>
  RoCEv2 packets (\<^verbatim>\<open>rocev2/packet.h/.cpp\<close>, \<^verbatim>\<open>formats.h\<close>): the invariant CRC, the packet builder and the
  parser. The bit field library is a git submodule; its serializer and deserializer are the arguments
  \<open>ser\<close> and \<open>des\<close> of the definitions that call it, with the laws of the \<open>bit_packer\<close> contract. The aligned
  32-bit write and read of the CRC are the format of one 32-bit field. The theory shows that the
  table-driven CRC is the bit-serial CRC-32C and detects every change of a single byte, and that the parser
  gets back from a built packet every field and the payload.
\<close>

section \<open>Formats\<close>

definition kBthFormat :: "nat list" where "kBthFormat = [8, 1, 1, 2, 4, 16, 8, 24, 1, 7, 24]"
definition kRethFormat :: "nat list" where "kRethFormat = [64, 32, 32]"
definition kAethFormat :: "nat list" where "kAethFormat = [8, 24]"
definition kImmediateFormat :: "nat list" where "kImmediateFormat = [32]"
definition kAtomicEthFormat :: "nat list" where "kAtomicEthFormat = [64, 32, 64, 64]"
definition kAtomicAckEthFormat :: "nat list" where "kAtomicAckEthFormat = [64]"

definition kBthSize :: nat where "kBthSize = 12"
definition kRethSize :: nat where "kRethSize = 16"
definition kAethSize :: nat where "kAethSize = 4"
definition kImmSize :: nat where "kImmSize = 4"
definition kIcrcSize :: nat where "kIcrcSize = 4"

lemmas packet_sizes = kBthSize_def kRethSize_def kAethSize_def kImmSize_def kIcrcSize_def
lemmas packet_formats = kBthFormat_def kRethFormat_def kAethFormat_def kImmediateFormat_def

section \<open>Invariant CRC\<close>

definition crc_round :: "u32 \<Rightarrow> u32" where
  "crc_round crc = (if crc AND 1 \<noteq> 0 then drop_bit 1 crc XOR 0x82F63B78 else drop_bit 1 crc)"

definition kCrc32cTable :: "u32 list" where
  "kCrc32cTable = map (\<lambda>table_idx. (crc_round ^^ 8) (of_nat table_idx)) [0..<256]"

definition update_crc :: "u32 \<Rightarrow> byte \<Rightarrow> u32" where
  "update_crc crc b =
     (let index = (ucast (crc XOR ucast b) :: u8)
      in kCrc32cTable ! unat index XOR drop_bit 8 crc)"

definition IcrcCalculator_calculate :: "bytes \<Rightarrow> u32" where
  "IcrcCalculator_calculate data = foldl update_crc 0xFFFFFFFF data XOR 0xFFFFFFFF"

definition IcrcCalculator_verify :: "(nat list \<Rightarrow> bytes \<Rightarrow> u64 list) \<Rightarrow> bytes \<Rightarrow> bool" where
  "IcrcCalculator_verify des data =
     (if length data < kIcrcSize then False
      else
        let payload = subspan 0 (length data - kIcrcSize) data;
            icrc_bytes = subspan (length data - kIcrcSize) kIcrcSize data;
            stored = (ucast (des [32] icrc_bytes ! 0) :: u32)
        in IcrcCalculator_calculate payload = stored)"

section \<open>Builder\<close>

record RdmaPacketBuilder =
  b_opcode :: RdmaOpcode
  b_dest_qp :: u32
  b_psn :: u32
  b_partition_key :: u16
  b_ack_request :: bool
  b_solicited_event :: bool
  b_pad_count :: u8
  b_fecn :: bool
  b_becn :: bool
  b_remote_address :: u64
  b_rkey :: u32
  b_dma_length :: u32
  b_syndrome :: AethSyndrome
  b_msn :: u32
  b_immediate :: u32
  b_has_immediate :: bool
  b_payload :: bytes

definition RdmaPacketBuilder_new :: RdmaPacketBuilder where
  "RdmaPacketBuilder_new = \<lparr>b_opcode = kRcSendOnly, b_dest_qp = 0, b_psn = 0, b_partition_key = kDefaultPkey,
     b_ack_request = True, b_solicited_event = False, b_pad_count = 0, b_fecn = False, b_becn = False,
     b_remote_address = 0, b_rkey = 0, b_dma_length = 0, b_syndrome = asAck, b_msn = 0, b_immediate = 0,
     b_has_immediate = False, b_payload = []\<rparr>"

definition set_opcode :: "RdmaOpcode \<Rightarrow> RdmaPacketBuilder \<Rightarrow> RdmaPacketBuilder" where
  "set_opcode x b = b\<lparr>b_opcode := x\<rparr>"
definition set_dest_qp :: "u32 \<Rightarrow> RdmaPacketBuilder \<Rightarrow> RdmaPacketBuilder" where
  "set_dest_qp x b = b\<lparr>b_dest_qp := x AND 0x00FFFFFF\<rparr>"
definition set_psn :: "u32 \<Rightarrow> RdmaPacketBuilder \<Rightarrow> RdmaPacketBuilder" where
  "set_psn x b = b\<lparr>b_psn := x AND kMaxPsn\<rparr>"
definition set_partition_key :: "u16 \<Rightarrow> RdmaPacketBuilder \<Rightarrow> RdmaPacketBuilder" where
  "set_partition_key x b = b\<lparr>b_partition_key := x\<rparr>"
definition set_ack_request :: "bool \<Rightarrow> RdmaPacketBuilder \<Rightarrow> RdmaPacketBuilder" where
  "set_ack_request x b = b\<lparr>b_ack_request := x\<rparr>"
definition set_solicited_event :: "bool \<Rightarrow> RdmaPacketBuilder \<Rightarrow> RdmaPacketBuilder" where
  "set_solicited_event x b = b\<lparr>b_solicited_event := x\<rparr>"
definition set_pad_count :: "u8 \<Rightarrow> RdmaPacketBuilder \<Rightarrow> RdmaPacketBuilder" where
  "set_pad_count x b = b\<lparr>b_pad_count := x AND 0x03\<rparr>"
definition set_fecn :: "bool \<Rightarrow> RdmaPacketBuilder \<Rightarrow> RdmaPacketBuilder" where
  "set_fecn x b = b\<lparr>b_fecn := x\<rparr>"
definition set_becn :: "bool \<Rightarrow> RdmaPacketBuilder \<Rightarrow> RdmaPacketBuilder" where
  "set_becn x b = b\<lparr>b_becn := x\<rparr>"
definition set_remote_address :: "u64 \<Rightarrow> RdmaPacketBuilder \<Rightarrow> RdmaPacketBuilder" where
  "set_remote_address x b = b\<lparr>b_remote_address := x\<rparr>"
definition set_rkey :: "u32 \<Rightarrow> RdmaPacketBuilder \<Rightarrow> RdmaPacketBuilder" where
  "set_rkey x b = b\<lparr>b_rkey := x\<rparr>"
definition set_dma_length :: "u32 \<Rightarrow> RdmaPacketBuilder \<Rightarrow> RdmaPacketBuilder" where
  "set_dma_length x b = b\<lparr>b_dma_length := x\<rparr>"
definition set_syndrome :: "AethSyndrome \<Rightarrow> RdmaPacketBuilder \<Rightarrow> RdmaPacketBuilder" where
  "set_syndrome x b = b\<lparr>b_syndrome := x\<rparr>"
definition set_msn :: "u32 \<Rightarrow> RdmaPacketBuilder \<Rightarrow> RdmaPacketBuilder" where
  "set_msn x b = b\<lparr>b_msn := x AND 0x00FFFFFF\<rparr>"
definition set_immediate :: "u32 \<Rightarrow> RdmaPacketBuilder \<Rightarrow> RdmaPacketBuilder" where
  "set_immediate x b = b\<lparr>b_immediate := x, b_has_immediate := True\<rparr>"
definition set_payload :: "bytes \<Rightarrow> RdmaPacketBuilder \<Rightarrow> RdmaPacketBuilder" where
  "set_payload x b = b\<lparr>b_payload := x\<rparr>"

definition RdmaPacketBuilder_reset :: "RdmaPacketBuilder \<Rightarrow> RdmaPacketBuilder" where
  "RdmaPacketBuilder_reset b = RdmaPacketBuilder_new"

definition needs_reth :: "RdmaOpcode \<Rightarrow> bool" where
  "needs_reth op \<longleftrightarrow> op \<in> {kRcWriteFirst, kRcWriteOnly, kRcWriteOnlyImm, kRcReadRequest}"
definition needs_aeth :: "RdmaOpcode \<Rightarrow> bool" where
  "needs_aeth op \<longleftrightarrow> op \<in> {kRcAck, kRcReadResponseFirst, kRcReadResponseLast, kRcReadResponseOnly}"
definition has_immediate_variant :: "RdmaOpcode \<Rightarrow> bool" where
  "has_immediate_variant op \<longleftrightarrow> op \<in> {kRcSendLastImm, kRcSendOnlyImm, kRcWriteLastImm, kRcWriteOnlyImm}"

definition bool_bit :: "bool \<Rightarrow> u64" where
  "bool_bit x = (if x then 1 else 0)"

definition fecn_becn :: "bool \<Rightarrow> bool \<Rightarrow> u8" where
  "fecn_becn f b = (if f then 0x80 else 0) OR (if b then 0x40 else 0)"

definition bth_values :: "RdmaPacketBuilder \<Rightarrow> u64 list" where
  "bth_values b = [ucast (b_opcode b), bool_bit (b_solicited_event b), 0, ucast (b_pad_count b AND 0x03), 0,
     ucast (b_partition_key b), ucast (fecn_becn (b_fecn b) (b_becn b)), ucast (b_dest_qp b),
     bool_bit (b_ack_request b), 0, ucast (b_psn b)]"

definition write_bth :: "(nat list \<Rightarrow> u64 list \<Rightarrow> bytes) \<Rightarrow> RdmaPacketBuilder \<Rightarrow> bytes" where
  "write_bth ser b = ser kBthFormat (bth_values b)"
definition write_reth :: "(nat list \<Rightarrow> u64 list \<Rightarrow> bytes) \<Rightarrow> RdmaPacketBuilder \<Rightarrow> bytes" where
  "write_reth ser b = ser kRethFormat [b_remote_address b, ucast (b_rkey b), ucast (b_dma_length b)]"
definition write_aeth :: "(nat list \<Rightarrow> u64 list \<Rightarrow> bytes) \<Rightarrow> RdmaPacketBuilder \<Rightarrow> bytes" where
  "write_aeth ser b = ser kAethFormat [ucast (b_syndrome b), ucast (b_msn b)]"
definition write_immediate :: "(nat list \<Rightarrow> u64 list \<Rightarrow> bytes) \<Rightarrow> RdmaPacketBuilder \<Rightarrow> bytes" where
  "write_immediate ser b = ser kImmediateFormat [ucast (b_immediate b)]"

text \<open>The buffer is filled from the front, header by header, so the packet is their concatenation.\<close>

definition RdmaPacketBuilder_build :: "(nat list \<Rightarrow> u64 list \<Rightarrow> bytes) \<Rightarrow> RdmaPacketBuilder \<Rightarrow> bytes" where
  "RdmaPacketBuilder_build ser b =
     (let op = b_opcode b;
          crc_data = write_bth ser b
            @ (if needs_reth op then write_reth ser b else [])
            @ (if needs_aeth op then write_aeth ser b else [])
            @ (if b_has_immediate b \<and> has_immediate_variant op then write_immediate ser b else [])
            @ b_payload b
      in crc_data @ ser [32] [ucast (IcrcCalculator_calculate crc_data)])"

section \<open>Parser\<close>

record BthFields =
  bth_opcode :: RdmaOpcode
  bth_solicited_event :: bool
  bth_mig_req :: bool
  bth_pad_count :: u8
  bth_transport_version :: u8
  bth_partition_key :: u16
  bth_fecn :: bool
  bth_becn :: bool
  bth_dest_qp :: u32
  bth_ack_request :: bool
  bth_psn :: u32

record RethFields =
  reth_virtual_address :: u64
  reth_rkey :: u32
  reth_dma_length :: u32

record AethFields =
  aeth_syndrome :: AethSyndrome
  aeth_msn :: u32

text \<open>What a successful parse holds; the optional headers are the fields the \<^verbatim>\<open>has_\<close> flags guard.\<close>

record RdmaPacketParser =
  p_bth :: BthFields
  p_reth :: "RethFields option"
  p_aeth :: "AethFields option"
  p_immediate :: "u32 option"
  p_payload :: bytes

definition parse_bth :: "(nat list \<Rightarrow> bytes \<Rightarrow> u64 list) \<Rightarrow> bytes \<Rightarrow> BthFields option" where
  "parse_bth des data =
     (if length data < kBthSize then None
      else
        let v = des kBthFormat data;
            fbr = (ucast (v ! 6) :: u8)
        in Some \<lparr>bth_opcode = ucast (v ! 0), bth_solicited_event = (v ! 1 \<noteq> 0), bth_mig_req = (v ! 2 \<noteq> 0),
                 bth_pad_count = ucast (v ! 3), bth_transport_version = ucast (v ! 4),
                 bth_partition_key = ucast (v ! 5), bth_fecn = (fbr AND 0x80 \<noteq> 0), bth_becn = (fbr AND 0x40 \<noteq> 0),
                 bth_dest_qp = ucast (v ! 7), bth_ack_request = (v ! 8 \<noteq> 0), bth_psn = ucast (v ! 10)\<rparr>)"

text \<open>\<^verbatim>\<open>determine_headers\<close>: the flags for RETH, AETH and immediate data.\<close>

definition determine_headers :: "RdmaOpcode \<Rightarrow> bool \<times> bool \<times> bool" where
  "determine_headers op =
     (if op \<in> {kRcWriteFirst, kRcWriteOnly, kRcReadRequest} then (True, False, False)
      else if op = kRcWriteOnlyImm then (True, False, True)
      else if op \<in> {kRcSendLastImm, kRcSendOnlyImm, kRcWriteLastImm} then (False, False, True)
      else if op = kRcAck then (False, True, False)
      else if op \<in> {kRcReadResponseFirst, kRcReadResponseLast, kRcReadResponseOnly} then (False, True, False)
      else (False, False, False))"

definition RdmaPacketParser_parse :: "(nat list \<Rightarrow> bytes \<Rightarrow> u64 list) \<Rightarrow> bytes \<Rightarrow> RdmaPacketParser option" where
  "RdmaPacketParser_parse des data =
     (let payload_end = length data - kIcrcSize in
      if length data < kBthSize + kIcrcSize then None
      else case parse_bth des data of None \<Rightarrow> None | Some bth \<Rightarrow>
        let (has_reth, has_aeth, has_imm) = determine_headers (bth_opcode bth);
            off1 = kBthSize;
            off2 = (if has_reth then off1 + kRethSize else off1);
            off3 = (if has_aeth then off2 + kAethSize else off2);
            off4 = (if has_imm then off3 + kImmSize else off3);
            rv = des kRethFormat (subspan off1 kRethSize data);
            av = des kAethFormat (subspan off2 kAethSize data);
            iv = des kImmediateFormat (subspan off3 kImmSize data)
        in
        if has_reth \<and> off1 + kRethSize > payload_end then None
        else if has_aeth \<and> off2 + kAethSize > payload_end then None
        else if has_imm \<and> off3 + kImmSize > payload_end then None
        else Some
          \<lparr>p_bth = bth,
           p_reth = (if has_reth then Some \<lparr>reth_virtual_address = rv ! 0, reth_rkey = ucast (rv ! 1),
                       reth_dma_length = ucast (rv ! 2)\<rparr> else None),
           p_aeth = (if has_aeth then Some \<lparr>aeth_syndrome = ucast (av ! 0), aeth_msn = ucast (av ! 1)\<rparr> else None),
           p_immediate = (if has_imm then Some (ucast (iv ! 0)) else None),
           p_payload = (if off4 < payload_end then subspan off4 (payload_end - off4) data else [])\<rparr>)"

definition RdmaPacketParser_verify_icrc :: "(nat list \<Rightarrow> bytes \<Rightarrow> u64 list) \<Rightarrow> bytes \<Rightarrow> bool" where
  "RdmaPacketParser_verify_icrc des data = IcrcCalculator_verify des data"

section \<open>Opcode classes\<close>

definition opcode_is_first :: "RdmaOpcode \<Rightarrow> bool" where
  "opcode_is_first op \<longleftrightarrow> op \<in> {kRcSendFirst, kRcWriteFirst, kRcReadResponseFirst}"
definition opcode_is_middle :: "RdmaOpcode \<Rightarrow> bool" where
  "opcode_is_middle op \<longleftrightarrow> op \<in> {kRcSendMiddle, kRcWriteMiddle, kRcReadResponseMiddle}"
definition opcode_is_last :: "RdmaOpcode \<Rightarrow> bool" where
  "opcode_is_last op \<longleftrightarrow> op \<in> {kRcSendLast, kRcSendLastImm, kRcWriteLast, kRcWriteLastImm, kRcReadResponseLast}"
definition opcode_is_only :: "RdmaOpcode \<Rightarrow> bool" where
  "opcode_is_only op \<longleftrightarrow> op \<in> {kRcSendOnly, kRcSendOnlyImm, kRcWriteOnly, kRcWriteOnlyImm, kRcReadResponseOnly}"
definition opcode_has_payload :: "RdmaOpcode \<Rightarrow> bool" where
  "opcode_has_payload op \<longleftrightarrow> op \<notin> {kRcAck, kRcReadRequest, kCnp}"
definition opcode_is_read_response :: "RdmaOpcode \<Rightarrow> bool" where
  "opcode_is_read_response op \<longleftrightarrow>
     op \<in> {kRcReadResponseFirst, kRcReadResponseMiddle, kRcReadResponseLast, kRcReadResponseOnly}"

lemmas opcode_defs = needs_reth_def needs_aeth_def has_immediate_variant_def determine_headers_def
  opcode_is_first_def opcode_is_middle_def opcode_is_last_def opcode_is_only_def opcode_has_payload_def
  opcode_is_read_response_def

section \<open>CRC lemmas\<close>

lemma crc_round_alt: "crc_round x = drop_bit 1 x XOR (if bit x 0 then 0x82F63B78 else 0)"
  by (simp add: crc_round_def bit_0 and_one_eq odd_iff_mod_2_eq_one)

lemma crc_round_xor: "crc_round (x XOR y) = crc_round x XOR crc_round y"
  by (auto simp: crc_round_alt drop_bit_xor bit_xor_iff xor.assoc xor.left_commute)

lemma crc_rounds_xor: "(crc_round ^^ n) (x XOR y) = (crc_round ^^ n) x XOR (crc_round ^^ n) y"
  by (induction n) (simp_all add: crc_round_xor)

lemma crc_rounds_high: "(\<And>k. k < n \<Longrightarrow> \<not> bit x k) \<Longrightarrow> (crc_round ^^ n) x = drop_bit n x"
proof (induction n)
  case (Suc n)
  then have "(crc_round ^^ n) x = drop_bit n x" "\<not> bit x n" by auto
  then show ?case by (simp add: crc_round_alt [of "drop_bit n x"] bit_drop_bit_eq)
qed simp

lemma crc_table_nth: "kCrc32cTable ! unat (i :: u8) = (crc_round ^^ 8) (ucast i)"
  using unat_byte_less [of i] by (simp add: kCrc32cTable_def)

text \<open>One table step is eight bit-serial rounds.\<close>

lemma update_crc_rounds: "update_crc crc b = (crc_round ^^ 8) (crc XOR ucast b)"
proof -
  let ?x = "crc XOR ucast b" and ?lo = "ucast (ucast (crc XOR ucast b) :: u8) :: u32"
  have split: "?x = ?lo XOR push_bit 8 (drop_bit 8 crc)"
    by (rule bit_word_eqI) (auto simp: bit_simps dest: bit_imp_le_length)
  have "(crc_round ^^ 8) (push_bit 8 (drop_bit 8 crc)) = drop_bit 8 (push_bit 8 (drop_bit 8 crc))"
    by (rule crc_rounds_high) (simp add: bit_push_bit_iff)
  also have "\<dots> = drop_bit 8 crc"
    by (rule bit_word_eqI) (auto simp: bit_simps dest: bit_imp_le_length)
  finally have "(crc_round ^^ 8) ?x = (crc_round ^^ 8) ?lo XOR drop_bit 8 crc"
    by (subst split) (simp only: crc_rounds_xor)
  then show ?thesis by (simp only: update_crc_def Let_def crc_table_nth)
qed

lemma crc_round_inj: "crc_round x = crc_round y \<Longrightarrow> x = y"
proof -
  assume eq: "crc_round x = crc_round y"
  have top: "bit (crc_round z) 31 = bit z 0" for z
    by (auto simp: crc_round_alt bit_xor_iff bit_drop_bit_eq dest: bit_imp_le_length)
  have p: "bit x 0 = bit y 0" using top [of x] top [of y] eq by simp
  have d: "drop_bit 1 x = drop_bit 1 y" using eq p unfolding crc_round_alt by (simp only: xor_cancel_right)
  show "x = y"
  proof (rule bit_word_eqI)
    fix n assume "n < LENGTH(32)"
    show "bit x n = bit y n"
    proof (cases n)
      case (Suc m)
      then show ?thesis using arg_cong [OF d, of "\<lambda>z. bit z m"] by (simp add: bit_drop_bit_eq)
    qed (simp add: p)
  qed
qed

lemma crc_rounds_inj: "(crc_round ^^ n) x = (crc_round ^^ n) y \<Longrightarrow> x = y"
  by (induction n) (auto dest: crc_round_inj)

lemma update_crc_inj: "update_crc c b = update_crc c' b \<Longrightarrow> c = c'"
  unfolding update_crc_rounds by (drule crc_rounds_inj) (simp only: xor_cancel_right)

lemma update_crc_inj_byte: "update_crc c b = update_crc c b' \<Longrightarrow> b = b'"
proof -
  assume "update_crc c b = update_crc c b'"
  then have "c XOR ucast b = c XOR ucast b'" unfolding update_crc_rounds by (rule crc_rounds_inj)
  then have "(ucast b :: u32) = ucast b'" by (simp only: xor.commute [of c] xor_cancel_right)
  then have "unat (ucast b :: u32) = unat (ucast b' :: u32)" by (rule arg_cong)
  then show "b = b'" by (simp add: unat_ucast_up word_unat_eq_iff)
qed

lemma crc_suffix: "foldl update_crc c xs = foldl update_crc c' xs \<Longrightarrow> c = c'"
  by (induction xs arbitrary: c c') (auto dest: update_crc_inj)

lemma crc_byte_change:
  assumes "i < length data" and "data ! i \<noteq> b"
  shows "IcrcCalculator_calculate (data[i := b]) \<noteq> IcrcCalculator_calculate data"
proof
  let ?c = "foldl update_crc 0xFFFFFFFF (take i data)"
  assume "IcrcCalculator_calculate (data[i := b]) = IcrcCalculator_calculate data"
  then have "foldl update_crc 0xFFFFFFFF (data[i := b]) = foldl update_crc 0xFFFFFFFF data"
    unfolding IcrcCalculator_calculate_def by (simp only: xor_cancel_right)
  then have "foldl update_crc (update_crc ?c b) (drop (Suc i) data)
      = foldl update_crc (update_crc ?c (data ! i)) (drop (Suc i) data)"
    using assms(1) arg_cong [OF id_take_nth_drop [OF assms(1)], of "foldl update_crc 0xFFFFFFFF"]
    by (simp add: upd_conv_take_nth_drop)
  then show False using crc_suffix update_crc_inj_byte assms(2) by blast
qed

section \<open>Builders reached through the setters\<close>

inductive builder_reachable :: "RdmaPacketBuilder \<Rightarrow> bool" where
  br_new: "builder_reachable RdmaPacketBuilder_new"
| br_opcode: "builder_reachable b \<Longrightarrow> builder_reachable (set_opcode op b)"
| br_dest_qp: "builder_reachable b \<Longrightarrow> builder_reachable (set_dest_qp q b)"
| br_psn: "builder_reachable b \<Longrightarrow> builder_reachable (set_psn n b)"
| br_partition_key: "builder_reachable b \<Longrightarrow> builder_reachable (set_partition_key pk b)"
| br_ack_request: "builder_reachable b \<Longrightarrow> builder_reachable (set_ack_request f b)"
| br_solicited_event: "builder_reachable b \<Longrightarrow> builder_reachable (set_solicited_event f b)"
| br_pad_count: "builder_reachable b \<Longrightarrow> builder_reachable (set_pad_count c b)"
| br_fecn: "builder_reachable b \<Longrightarrow> builder_reachable (set_fecn f b)"
| br_becn: "builder_reachable b \<Longrightarrow> builder_reachable (set_becn f b)"
| br_remote_address: "builder_reachable b \<Longrightarrow> builder_reachable (set_remote_address a b)"
| br_rkey: "builder_reachable b \<Longrightarrow> builder_reachable (set_rkey k b)"
| br_dma_length: "builder_reachable b \<Longrightarrow> builder_reachable (set_dma_length l b)"
| br_syndrome: "builder_reachable b \<Longrightarrow> builder_reachable (set_syndrome y b)"
| br_msn: "builder_reachable b \<Longrightarrow> builder_reachable (set_msn n b)"
| br_immediate: "builder_reachable b \<Longrightarrow> builder_reachable (set_immediate i b)"
| br_payload: "builder_reachable b \<Longrightarrow> builder_reachable (set_payload xs b)"
| br_reset: "builder_reachable b \<Longrightarrow> builder_reachable (RdmaPacketBuilder_reset b)"

definition builder_ok :: "RdmaPacketBuilder \<Rightarrow> bool" where
  "builder_ok b \<longleftrightarrow> unat (b_dest_qp b) < 2 ^ 24 \<and> unat (b_psn b) < 2 ^ 24 \<and> unat (b_msn b) < 2 ^ 24 \<and> unat (b_pad_count b) < 4"

lemmas builder_setters = set_opcode_def set_dest_qp_def set_psn_def set_partition_key_def set_ack_request_def
  set_solicited_event_def set_pad_count_def set_fecn_def set_becn_def set_remote_address_def set_rkey_def
  set_dma_length_def set_syndrome_def set_msn_def set_immediate_def set_payload_def

lemma unat_and_mask24: "unat ((x :: u32) AND 0x00FFFFFF) < 2 ^ 24"
proof -
  have "x AND 0x00FFFFFF = take_bit 24 x" by (simp add: take_bit_eq_mask mask_eq_exp_minus_1)
  then show ?thesis using take_bit_nat_less_exp [of 24 "unat x"] by (simp add: unsigned_take_bit_eq)
qed

lemma unat_and_mask2: "unat ((x :: u8) AND 0x03) < 4"
proof -
  have "x AND 0x03 = take_bit 2 x" by (simp add: take_bit_eq_mask mask_eq_exp_minus_1)
  then show ?thesis using take_bit_nat_less_exp [of 2 "unat x"] by (simp add: unsigned_take_bit_eq)
qed

lemma builder_reachable_ok: "builder_reachable b \<Longrightarrow> builder_ok b"
  by (induction rule: builder_reachable.induct)
    (use unat_and_mask24 unat_and_mask2 in \<open>simp_all add: builder_ok_def builder_setters RdmaPacketBuilder_reset_def RdmaPacketBuilder_new_def kMaxPsn_def\<close>)

section \<open>Parsing a built packet\<close>

text \<open>What the parser must hold after a packet built from \<open>b\<close>.\<close>

definition parsed_builder :: "RdmaPacketBuilder \<Rightarrow> RdmaPacketParser" where
  "parsed_builder b =
     \<lparr>p_bth = \<lparr>bth_opcode = b_opcode b, bth_solicited_event = b_solicited_event b, bth_mig_req = False,
        bth_pad_count = b_pad_count b, bth_transport_version = 0, bth_partition_key = b_partition_key b,
        bth_fecn = b_fecn b, bth_becn = b_becn b, bth_dest_qp = b_dest_qp b, bth_ack_request = b_ack_request b,
        bth_psn = b_psn b\<rparr>,
      p_reth = (if needs_reth (b_opcode b) then Some \<lparr>reth_virtual_address = b_remote_address b,
        reth_rkey = b_rkey b, reth_dma_length = b_dma_length b\<rparr> else None),
      p_aeth = (if needs_aeth (b_opcode b) then Some \<lparr>aeth_syndrome = b_syndrome b, aeth_msn = b_msn b\<rparr> else None),
      p_immediate = (if has_immediate_variant (b_opcode b) then Some (b_immediate b) else None),
      p_payload = b_payload b\<rparr>"

lemma determine_headers_eq: "determine_headers op = (needs_reth op, needs_aeth op, has_immediate_variant op)"
  by (simp add: opcode_defs)

lemma subspan_middle: "n = length xs \<Longrightarrow> k = length ys \<Longrightarrow> subspan n k (xs @ ys @ zs) = ys"
  by (simp add: subspan_def)

lemma fecn_becn_bits:
  "(fecn_becn f b AND 0x80 \<noteq> 0) = f" "(fecn_becn f b AND 0x40 \<noteq> 0) = b"
  by (cases f; cases b; simp add: fecn_becn_def)+

lemma unat_u32_less: "unat (x :: u32) < 4294967296"
  using unsigned_less [where 'a = nat, of x] by simp

lemma pad_count_masked: "unat (x :: u8) < 4 \<Longrightarrow> x AND 0x03 = x"
proof -
  assume "unat x < 4"
  have "x AND 0x03 = take_bit 2 x" by (simp add: take_bit_eq_mask mask_eq_exp_minus_1)
  with \<open>unat x < 4\<close> show ?thesis by (simp add: word_unat_eq_iff unsigned_take_bit_eq take_bit_nat_eq_self)
qed

lemma bth_fits: "builder_ok b \<Longrightarrow> fits kBthFormat (bth_values b)"
  using unat_byte_less [of "b_opcode b"] unat_u16_less [of "b_partition_key b"]
    unat_byte_less [of "fecn_becn (b_fecn b) (b_becn b)"]
  by (simp add: fits_def kBthFormat_def bth_values_def builder_ok_def bool_bit_def unat_ucast_up pad_count_masked)

lemma reth_fits: "fits kRethFormat [b_remote_address b, ucast (b_rkey b), ucast (b_dma_length b)]"
  using unsigned_less [where 'a = nat, of "b_remote_address b"] unat_u32_less [of "b_rkey b"] unat_u32_less [of "b_dma_length b"]
  by (simp add: fits_def kRethFormat_def unat_ucast_up)

lemma aeth_fits: "builder_ok b \<Longrightarrow> fits kAethFormat [ucast (b_syndrome b), ucast (b_msn b)]"
  using unat_byte_less [of "b_syndrome b"]
  by (simp add: fits_def kAethFormat_def builder_ok_def unat_ucast_up)

lemma u32_fits: "fits [32] [ucast (x :: u32)]"
  using unat_u32_less [of x] by (simp add: fits_def unat_ucast_up)

lemma ucast_back: "LENGTH('a) \<le> LENGTH('b) \<Longrightarrow> ucast (ucast (x :: 'a::len word) :: 'b::len word) = x"
  by (rule bit_word_eqI) (auto simp: bit_simps)

context bit_packer
begin

lemma write_lengths:
  "length (write_reth ser b) = kRethSize"
  "length (write_immediate ser b) = kImmSize"
  "builder_ok b \<Longrightarrow> length (write_bth ser b) = kBthSize"
  "builder_ok b \<Longrightarrow> length (write_aeth ser b) = kAethSize"
  "length (ser [32] [ucast (x :: u32)]) = kIcrcSize"
  using ser_length [OF _ reth_fits] ser_length [OF _ u32_fits] ser_length [OF _ bth_fits] ser_length [OF _ aeth_fits]
  by (simp_all add: write_reth_def write_immediate_def write_bth_def write_aeth_def packet_sizes packet_formats)

lemma read_back:
  "des kRethFormat (write_reth ser b) = [b_remote_address b, ucast (b_rkey b), ucast (b_dma_length b)]"
  "des kImmediateFormat (write_immediate ser b) = [ucast (b_immediate b)]"
  "builder_ok b \<Longrightarrow> des kBthFormat (write_bth ser b @ rest) = bth_values b"
  "builder_ok b \<Longrightarrow> des kAethFormat (write_aeth ser b) = [ucast (b_syndrome b), ucast (b_msn b)]"
  "des [32] (ser [32] [ucast (x :: u32)]) = [ucast x]"
  using des_ser [OF _ reth_fits, of b "[]"] des_ser [OF _ u32_fits, of _ "[]"] des_ser [OF _ bth_fits, of b rest]
    des_ser [OF _ aeth_fits, of b "[]"]
  by (simp_all add: write_reth_def write_immediate_def write_bth_def write_aeth_def packet_formats)

lemma parse_bth_built:
  "builder_ok b \<Longrightarrow> parse_bth des (write_bth ser b @ rest) = Some (p_bth (parsed_builder b))"
  by (simp add: parse_bth_def write_lengths read_back Let_def)
    (simp add: bth_values_def parsed_builder_def fecn_becn_bits ucast_back bool_bit_def builder_ok_def pad_count_masked)

lemma parse_built:
  assumes ok: "builder_ok b" and imm: "has_immediate_variant (b_opcode b) \<Longrightarrow> b_has_immediate b"
  shows "RdmaPacketParser_parse des (RdmaPacketBuilder_build ser b) = Some (parsed_builder b)"
proof -
  define op where "op = b_opcode b"
  define reth where "reth = (if needs_reth op then write_reth ser b else [])"
  define aeth where "aeth = (if needs_aeth op then write_aeth ser b else [])"
  define im where "im = (if has_immediate_variant op then write_immediate ser b else [])"
  define crc where "crc = ser [32] [ucast (IcrcCalculator_calculate (write_bth ser b @ reth @ aeth @ im @ b_payload b)) :: u64]"
  have data: "RdmaPacketBuilder_build ser b = write_bth ser b @ reth @ aeth @ im @ b_payload b @ crc"
    using imm by (auto simp: RdmaPacketBuilder_build_def Let_def reth_def aeth_def im_def crc_def op_def)
  have len: "length (write_bth ser b) = kBthSize" "length crc = kIcrcSize"
    "length reth = (if needs_reth op then kRethSize else 0)" "length aeth = (if needs_aeth op then kAethSize else 0)"
    "length im = (if has_immediate_variant op then kImmSize else 0)"
    using ok by (simp_all add: write_lengths crc_def reth_def aeth_def im_def)
  have r: "needs_reth op \<Longrightarrow> subspan kBthSize kRethSize (RdmaPacketBuilder_build ser b) = write_reth ser b"
    using len subspan_middle [of kBthSize "write_bth ser b" kRethSize reth] by (simp add: data reth_def)
  have a: "needs_aeth op \<Longrightarrow> subspan (kBthSize + length reth) kAethSize (RdmaPacketBuilder_build ser b) = write_aeth ser b"
    using len subspan_middle [of "kBthSize + length reth" "write_bth ser b @ reth" kAethSize aeth] by (simp add: data aeth_def)
  have i: "has_immediate_variant op \<Longrightarrow>
      subspan (kBthSize + length reth + length aeth) kImmSize (RdmaPacketBuilder_build ser b) = write_immediate ser b"
    using len subspan_middle [of "kBthSize + length reth + length aeth" "write_bth ser b @ reth @ aeth" kImmSize im]
    by (simp add: data im_def)
  have p: "subspan (kBthSize + length reth + length aeth + length im) (length (b_payload b)) (RdmaPacketBuilder_build ser b)
      = b_payload b"
    using len subspan_middle [of "kBthSize + length reth + length aeth + length im" "write_bth ser b @ reth @ aeth @ im"]
    by (simp add: data)
  have "parse_bth des (RdmaPacketBuilder_build ser b) = Some (p_bth (parsed_builder b))"
    using parse_bth_built [OF ok] by (simp add: data)
  moreover have "bth_opcode (p_bth (parsed_builder b)) = op" by (simp add: parsed_builder_def op_def)
  ultimately show ?thesis
    using r a i p len ok
    by (cases "needs_reth op"; cases "needs_aeth op"; cases "has_immediate_variant op")
      (simp_all add: RdmaPacketParser_parse_def determine_headers_eq read_back ucast_back parsed_builder_def data op_def [symmetric] Let_def ac_simps)
qed

lemma verify_appended: "RdmaPacketParser_verify_icrc des (xs @ ser [32] [ucast (IcrcCalculator_calculate xs)])"
  by (simp add: RdmaPacketParser_verify_icrc_def IcrcCalculator_verify_def write_lengths subspan_def read_back ucast_back)

lemma verify_built: "RdmaPacketParser_verify_icrc des (RdmaPacketBuilder_build ser b)"
  unfolding RdmaPacketBuilder_build_def Let_def by (rule verify_appended)

end

section \<open>The bit-serial reference\<close>

text \<open>CRC-32C as its definition has it: the message bit by bit, least significant bit of each byte first, through
  the reflected shift register with the Castagnoli polynomial.\<close>

definition crc_bit :: "u32 \<Rightarrow> bool \<Rightarrow> u32" where
  "crc_bit crc x = (if bit crc 0 \<noteq> x then drop_bit 1 crc XOR 0x82F63B78 else drop_bit 1 crc)"

definition crc32c_reference :: "bytes \<Rightarrow> u32" where
  "crc32c_reference data = foldl crc_bit 0xFFFFFFFF (concat (map (\<lambda>b. map (bit b) [0..<8]) data)) XOR 0xFFFFFFFF"

lemma crc_bit_round: "crc_bit c x = crc_round (c XOR of_bool x)"
proof -
  have "drop_bit 1 (of_bool x :: u32) = 0" by (cases x) simp_all
  then show ?thesis by (auto simp: crc_bit_def crc_round_alt bit_xor_iff drop_bit_xor)
qed

lemma crc_bits_rounds:
  fixes b :: byte
  assumes "n \<le> 8"
  shows "foldl crc_bit c (map (bit b) [0..<n]) = (crc_round ^^ n) (c XOR take_bit n (ucast b))"
  using assms
proof (induction n)
  case (Suc n)
  let ?t = "push_bit n (of_bool (bit b n)) :: u32"
  have split: "take_bit (Suc n) (ucast b :: u32) = take_bit n (ucast b) XOR ?t"
    using Suc.prems by (intro bit_word_eqI) (auto simp: bit_simps less_Suc_eq dest: bit_imp_le_length)
  have "(crc_round ^^ n) ?t = drop_bit n ?t" by (rule crc_rounds_high) (simp add: bit_push_bit_iff)
  also have "\<dots> = of_bool (bit b n)"
    using Suc.prems by (intro bit_word_eqI) (auto simp: bit_simps)
  finally show ?case
    using Suc by (simp add: split xor.assoc [symmetric] crc_rounds_xor crc_bit_round)
qed simp

lemma update_crc_bits: "foldl crc_bit c (map (bit b) [0..<8]) = update_crc c b"
proof -
  have "take_bit 8 (ucast b :: u32) = ucast b"
    by (rule bit_word_eqI) (auto simp: bit_simps dest: bit_imp_le_length)
  then show ?thesis using crc_bits_rounds [of 8 c b] by (simp only: update_crc_rounds)
qed

lemma crc_fold_bits: "foldl crc_bit c (concat (map (\<lambda>b. map (bit b) [0..<8]) data)) = foldl update_crc c data"
proof (induction data arbitrary: c)
  case (Cons b data)
  then show ?case by (simp only: concat.simps list.map foldl_append update_crc_bits foldl_Cons)
qed simp

section \<open>Properties\<close>

text \<open>C27: The table-driven invariant CRC of the packet code is CRC-32C: on every byte string it equals the
  bit-serial shift register with the Castagnoli polynomial, initial value and final inversion all ones.\<close>

theorem icrc_is_crc32c: "IcrcCalculator_calculate data = crc32c_reference data"
  by (simp only: IcrcCalculator_calculate_def crc32c_reference_def crc_fold_bits)

text \<open>The invariant CRC detects every corruption of one byte. If a packet verifies, then replacing any one
  byte in front of its four CRC bytes by a different byte gives a packet that does not verify, whatever the
  deserializer of the stored CRC.\<close>

theorem icrc_detects_byte_change:
  assumes ok: "RdmaPacketParser_verify_icrc des packet"
    and i: "i < length packet - 4" and b: "packet ! i \<noteq> b"
  shows "\<not> RdmaPacketParser_verify_icrc des (packet[i := b])"
proof -
  let ?n = "length packet - 4"
  have "take ?n packet ! i \<noteq> b" and "i < length (take ?n packet)" using i b by simp_all
  then have "IcrcCalculator_calculate ((take ?n packet)[i := b]) \<noteq> IcrcCalculator_calculate (take ?n packet)"
    by (intro crc_byte_change)
  then show ?thesis
    using ok i unfolding RdmaPacketParser_verify_icrc_def IcrcCalculator_verify_def kIcrcSize_def subspan_def Let_def
    by (auto simp: take_update_swap split: if_splits)
qed

text \<open>C9: The packet format is lossless. Whatever builder the setters reach from a new one, if an opcode with
  immediate data had its immediate set, then parsing the built packet succeeds and gives back every BTH field, the RETH,
  AETH and immediate headers exactly where the opcode has them, and the payload; and its CRC verifies.\<close>

theorem packet_roundtrip:
  assumes packer: "bit_packer ser des" and b: "builder_reachable b"
    and imm: "has_immediate_variant (b_opcode b) \<Longrightarrow> b_has_immediate b"
  shows "RdmaPacketParser_parse des (RdmaPacketBuilder_build ser b) = Some (parsed_builder b)
    \<and> RdmaPacketParser_verify_icrc des (RdmaPacketBuilder_build ser b)"
  using bit_packer.parse_built [OF packer builder_reachable_ok [OF b] imm] bit_packer.verify_built [OF packer]
  by blast

definition witness_builder :: RdmaPacketBuilder where
  "witness_builder = set_payload [1, 2, 3] (set_immediate 7 (set_rkey 5 (set_psn 0xFFFFFF (set_opcode kRcWriteOnlyImm
     RdmaPacketBuilder_new))))"

lemma witness_builder_reachable: "builder_reachable witness_builder"
  unfolding witness_builder_def by (intro builder_reachable.intros)

lemma witness_builder_fields:
  "b_opcode witness_builder = kRcWriteOnlyImm" "b_has_immediate witness_builder"
  "b_payload witness_builder = [1, 2, 3]"
  by (simp_all add: witness_builder_def builder_setters)

theorem packet_roundtrip_witness:
  "RdmaPacketParser_parse msb_des (RdmaPacketBuilder_build msb_ser witness_builder) = Some (parsed_builder witness_builder)
    \<and> RdmaPacketParser_verify_icrc msb_des (RdmaPacketBuilder_build msb_ser witness_builder)"
  by (rule packet_roundtrip [OF msb.bit_packer_axioms witness_builder_reachable]) (simp add: witness_builder_fields)

theorem icrc_detects_byte_change_witness:
  "RdmaPacketParser_verify_icrc msb_des ([1, 2, 3] @ msb_ser [32] [ucast (IcrcCalculator_calculate [1, 2, 3])])
    \<and> \<not> RdmaPacketParser_verify_icrc msb_des
          (([1, 2, 3] @ msb_ser [32] [ucast (IcrcCalculator_calculate [1, 2, 3])])[1 := 9])"
proof (rule conjI [OF msb.verify_appended])
  show "\<not> RdmaPacketParser_verify_icrc msb_des
          (([1, 2, 3] @ msb_ser [32] [ucast (IcrcCalculator_calculate [1, 2, 3])])[1 := 9])"
    by (rule icrc_detects_byte_change [OF msb.verify_appended])
      (simp_all add: msb.write_lengths(5) kIcrcSize_def)
qed

end
