(* ===== verification/Rocev2_Queue_Pair.thy ===== *)
theory Rocev2_Queue_Pair
  imports Rocev2_Types "HOL-Library.Sublist"
begin

text \<open>
  The RDMA queue pair (\<^verbatim>\<open>rocev2/queue_pair.h/.cpp\<close>): the state machine of the InfiniBand queue pair, the
  send and receive queues, the packet sequence numbers and the list of operations that wait for an
  acknowledgement. Queue lengths and depths are \<^verbatim>\<open>size_t\<close> and are natural numbers here; statistics, sequence
  numbers and times keep their width. The theory shows that work requests leave in the order in which they were
  accepted and only in the states that allow it, that every reachable queue pair is well formed and that its state
  follows the transition table, and which operations an acknowledgement or a timeout affects.
\<close>

section \<open>Data\<close>

record RdmaQpConfig =
  qpc_type :: QpType
  send_queue_depth :: nat
  recv_queue_depth :: nat
  max_send_sge :: u32
  max_recv_sge :: u32
  qpc_pd_handle :: u32
  send_cq_number :: u32
  recv_cq_number :: u32
  max_inline_data :: u32
  qpc_retry_count :: u32
  rnr_retry_count :: u32
  qpc_timeout :: u32
  min_rnr_timer :: u32

definition RdmaQpConfig_default :: RdmaQpConfig where
  "RdmaQpConfig_default = \<lparr>qpc_type = QptRc, send_queue_depth = 256, recv_queue_depth = 256, max_send_sge = 8,
     max_recv_sge = 8, qpc_pd_handle = 0, send_cq_number = 0, recv_cq_number = 0, max_inline_data = 256,
     qpc_retry_count = 7, rnr_retry_count = 7, qpc_timeout = 14, min_rnr_timer = 12\<rparr>"

record RdmaQpModifyParams =
  target_state :: "QpState option"
  mp_dest_qp_number :: "u32 option"
  initial_psn :: "u32 option"
  expected_psn :: "u32 option"
  mp_dest_ip :: "bytes option"
  mp_dest_port :: "u16 option"
  mp_sq_psn :: "u32 option"
  mp_rq_psn :: "u32 option"
  mp_path_mtu :: "u8 option"

record PendingOperation =
  po_wqe :: SendWqe
  po_psn :: u32
  num_packets :: u32
  po_timestamp_us :: u64
  po_retry_count :: u8

record RdmaQpStats =
  send_wqes_posted :: u64
  recv_wqes_posted :: u64
  send_completions :: u64
  recv_completions :: u64
  packets_sent :: u64
  packets_received :: u64
  bytes_sent :: u64
  bytes_received :: u64
  qp_retransmits :: u64
  rnr_naks_received :: u64
  sequence_errors :: u64
  local_errors :: u64
  remote_errors :: u64

definition RdmaQpStats_zero :: RdmaQpStats where
  "RdmaQpStats_zero = \<lparr>send_wqes_posted = 0, recv_wqes_posted = 0, send_completions = 0, recv_completions = 0,
     packets_sent = 0, packets_received = 0, bytes_sent = 0, bytes_received = 0, qp_retransmits = 0,
     rnr_naks_received = 0, sequence_errors = 0, local_errors = 0, remote_errors = 0\<rparr>"

record RdmaQueuePair =
  qp_number :: u32
  qp_config :: RdmaQpConfig
  qp_state :: QpState
  dest_qp_number :: u32
  dest_ip :: bytes
  dest_port :: u16
  path_mtu :: u8
  sq_psn :: u32
  rq_psn :: u32
  last_acked_psn :: u32
  send_queue :: "SendWqe list"
  recv_queue :: "RecvWqe list"
  pending_operations :: "PendingOperation list"
  qp_current_time_us :: u64
  qp_stats :: RdmaQpStats

definition RdmaQueuePair_new :: "u32 \<Rightarrow> RdmaQpConfig \<Rightarrow> RdmaQueuePair" where
  "RdmaQueuePair_new n config = \<lparr>qp_number = n, qp_config = config, qp_state = QpReset, dest_qp_number = 0,
     dest_ip = [0, 0, 0, 0], dest_port = kRoceUdpPort, path_mtu = 3, sq_psn = 0, rq_psn = 0, last_acked_psn = 0,
     send_queue = [], recv_queue = [], pending_operations = [], qp_current_time_us = 0, qp_stats = RdmaQpStats_zero\<rparr>"

section \<open>State transitions\<close>

definition count_local_error :: "RdmaQueuePair \<Rightarrow> RdmaQueuePair" where
  "count_local_error q = q\<lparr>qp_stats := (qp_stats q)\<lparr>local_errors := local_errors (qp_stats q) + 1\<rparr>\<rparr>"

fun is_valid_transition :: "QpState \<Rightarrow> QpState \<Rightarrow> bool" where
  "is_valid_transition QpReset t = (t = QpInit \<or> t = QpReset)"
| "is_valid_transition QpInit t = (t = QpRtr \<or> t = QpReset \<or> t = QpError)"
| "is_valid_transition QpRtr t = (t = QpRts \<or> t = QpReset \<or> t = QpError)"
| "is_valid_transition QpRts t = (t = QpSqd \<or> t = QpReset \<or> t = QpError \<or> t = QpSqErr)"
| "is_valid_transition QpSqd t = (t = QpRts \<or> t = QpReset \<or> t = QpError)"
| "is_valid_transition QpSqErr t = (t = QpReset \<or> t = QpError)"
| "is_valid_transition QpError t = (t = QpReset)"

definition with_param :: "'a option \<Rightarrow> 'a \<Rightarrow> 'a" where
  "with_param p x = (case p of Some v \<Rightarrow> v | None \<Rightarrow> x)"

definition apply_params :: "RdmaQpModifyParams \<Rightarrow> RdmaQueuePair \<Rightarrow> RdmaQueuePair" where
  "apply_params p q = q\<lparr>
     dest_qp_number := with_param (mp_dest_qp_number p) (dest_qp_number q),
     dest_ip := with_param (mp_dest_ip p) (dest_ip q),
     dest_port := with_param (mp_dest_port p) (dest_port q),
     sq_psn := with_param (map_option (\<lambda>v. v AND kMaxPsn) (mp_sq_psn p)) (sq_psn q),
     rq_psn := with_param (map_option (\<lambda>v. v AND kMaxPsn) (mp_rq_psn p)) (rq_psn q),
     path_mtu := with_param (mp_path_mtu p) (path_mtu q)\<rparr>"

definition RdmaQueuePair_modify :: "RdmaQueuePair \<Rightarrow> RdmaQpModifyParams \<Rightarrow> bool \<times> RdmaQueuePair" where
  "RdmaQueuePair_modify q p =
     (case target_state p of
        Some target \<Rightarrow>
          if \<not> is_valid_transition (qp_state q) target then (False, count_local_error q)
          else (True, apply_params p (q\<lparr>qp_state := target\<rparr>))
      | None \<Rightarrow> (True, apply_params p q))"

section \<open>Work queues\<close>

definition can_post :: "QpState \<Rightarrow> bool" where
  "can_post st \<longleftrightarrow> \<not> (st \<noteq> QpInit \<and> st \<noteq> QpRtr \<and> st \<noteq> QpRts)"

definition RdmaQueuePair_can_post_send :: "RdmaQueuePair \<Rightarrow> bool" where
  "RdmaQueuePair_can_post_send q \<longleftrightarrow> can_post (qp_state q) \<and> length (send_queue q) < send_queue_depth (qp_config q)"

definition RdmaQueuePair_can_post_recv :: "RdmaQueuePair \<Rightarrow> bool" where
  "RdmaQueuePair_can_post_recv q \<longleftrightarrow> can_post (qp_state q) \<and> length (recv_queue q) < recv_queue_depth (qp_config q)"

definition RdmaQueuePair_can_send :: "RdmaQueuePair \<Rightarrow> bool" where
  "RdmaQueuePair_can_send q \<longleftrightarrow> qp_state q = QpRts"

definition RdmaQueuePair_can_receive :: "RdmaQueuePair \<Rightarrow> bool" where
  "RdmaQueuePair_can_receive q \<longleftrightarrow> qp_state q = QpRtr \<or> qp_state q = QpRts"

definition RdmaQueuePair_post_send :: "RdmaQueuePair \<Rightarrow> SendWqe \<Rightarrow> bool \<times> RdmaQueuePair" where
  "RdmaQueuePair_post_send q wqe =
     (if \<not> RdmaQueuePair_can_post_send q then (False, count_local_error q)
      else (True, q\<lparr>send_queue := send_queue q @ [wqe],
                    qp_stats := (qp_stats q)\<lparr>send_wqes_posted := send_wqes_posted (qp_stats q) + 1\<rparr>\<rparr>))"

definition RdmaQueuePair_post_recv :: "RdmaQueuePair \<Rightarrow> RecvWqe \<Rightarrow> bool \<times> RdmaQueuePair" where
  "RdmaQueuePair_post_recv q wqe =
     (if \<not> RdmaQueuePair_can_post_recv q then (False, count_local_error q)
      else (True, q\<lparr>recv_queue := recv_queue q @ [wqe],
                    qp_stats := (qp_stats q)\<lparr>recv_wqes_posted := recv_wqes_posted (qp_stats q) + 1\<rparr>\<rparr>))"

definition RdmaQueuePair_get_next_send :: "RdmaQueuePair \<Rightarrow> SendWqe option \<times> RdmaQueuePair" where
  "RdmaQueuePair_get_next_send q =
     (if \<not> RdmaQueuePair_can_send q then (None, q)
      else case send_queue q of [] \<Rightarrow> (None, q) | wqe # rest \<Rightarrow> (Some wqe, q\<lparr>send_queue := rest\<rparr>))"

definition RdmaQueuePair_consume_recv :: "RdmaQueuePair \<Rightarrow> RecvWqe option \<times> RdmaQueuePair" where
  "RdmaQueuePair_consume_recv q =
     (if \<not> RdmaQueuePair_can_receive q then (None, q)
      else case recv_queue q of [] \<Rightarrow> (None, q) | wqe # rest \<Rightarrow> (Some wqe, q\<lparr>recv_queue := rest\<rparr>))"

definition RdmaQueuePair_record_packet_sent :: "RdmaQueuePair \<Rightarrow> nat \<Rightarrow> RdmaQueuePair" where
  "RdmaQueuePair_record_packet_sent q n =
     q\<lparr>qp_stats := (qp_stats q)\<lparr>packets_sent := packets_sent (qp_stats q) + 1,
                                bytes_sent := bytes_sent (qp_stats q) + of_nat n\<rparr>\<rparr>"

definition RdmaQueuePair_record_packet_received :: "RdmaQueuePair \<Rightarrow> nat \<Rightarrow> RdmaQueuePair" where
  "RdmaQueuePair_record_packet_received q n =
     q\<lparr>qp_stats := (qp_stats q)\<lparr>packets_received := packets_received (qp_stats q) + 1,
                                bytes_received := bytes_received (qp_stats q) + of_nat n\<rparr>\<rparr>"

section \<open>Acknowledgements and timeouts\<close>

definition op_last_psn :: "PendingOperation \<Rightarrow> u32" where
  "op_last_psn op = advance_psn (po_psn op) (num_packets op - 1)"

fun ack_loop :: "u32 \<Rightarrow> u32 \<Rightarrow> u64 \<Rightarrow> PendingOperation list \<Rightarrow> u64 \<times> PendingOperation list" where
  "ack_loop lo acked n [] = (n, [])"
| "ack_loop lo acked n (op # ops) =
     (if psn_in_window (op_last_psn op) lo (acked - lo + 1) then ack_loop lo acked (n + 1) ops else (n, op # ops))"

definition RdmaQueuePair_handle_ack :: "RdmaQueuePair \<Rightarrow> u32 \<Rightarrow> AethSyndrome \<Rightarrow> RdmaQueuePair" where
  "RdmaQueuePair_handle_ack q acked_psn syndrome =
     (let st = qp_stats q in
      if syndrome = asAck then
        let (n, ops) = ack_loop (last_acked_psn q) acked_psn (send_completions st) (pending_operations q)
        in q\<lparr>pending_operations := ops, qp_stats := st\<lparr>send_completions := n\<rparr>, last_acked_psn := acked_psn\<rparr>
      else if syndrome = asRnrNak then q\<lparr>qp_stats := st\<lparr>rnr_naks_received := rnr_naks_received st + 1\<rparr>\<rparr>
      else if syndrome = asPsnSeqError then
        q\<lparr>qp_stats := st\<lparr>sequence_errors := sequence_errors st + 1, qp_retransmits := qp_retransmits st + 1\<rparr>\<rparr>
      else q\<lparr>qp_stats := st\<lparr>remote_errors := remote_errors st + 1\<rparr>, qp_state := QpError\<rparr>)"

definition RdmaQueuePair_add_pending_operation :: "RdmaQueuePair \<Rightarrow> SendWqe \<Rightarrow> u32 \<Rightarrow> RdmaQueuePair" where
  "RdmaQueuePair_add_pending_operation q wqe n =
     q\<lparr>pending_operations := pending_operations q @
        [\<lparr>po_wqe = wqe, po_psn = sq_psn q, num_packets = n, po_timestamp_us = qp_current_time_us q,
          po_retry_count = ucast (qpc_retry_count (qp_config q))\<rparr>]\<rparr>"

definition timeout_us :: "RdmaQpConfig \<Rightarrow> u64" where
  "timeout_us c = push_bit (unat (min (qpc_timeout c) 31)) 4"

text \<open>The body of the scan: the operations with their new timers, the requests to send again, and whether the
  scan stopped at an operation with no retries left.\<close>

fun timeout_loop :: "u64 \<Rightarrow> u64 \<Rightarrow> PendingOperation list \<Rightarrow> PendingOperation list \<times> SendWqe list \<times> bool" where
  "timeout_loop now t [] = ([], [], False)"
| "timeout_loop now t (op # ops) =
     (if now - po_timestamp_us op \<ge> t then
        if po_retry_count op > 0 then
          let (ops', rs, stop) = timeout_loop now t ops
          in (op\<lparr>po_retry_count := po_retry_count op - 1, po_timestamp_us := now\<rparr> # ops', po_wqe op # rs, stop)
        else (op # ops, [], True)
      else let (ops', rs, stop) = timeout_loop now t ops in (op # ops', rs, stop))"

definition RdmaQueuePair_check_timeouts :: "RdmaQueuePair \<Rightarrow> u64 \<Rightarrow> SendWqe list \<times> RdmaQueuePair" where
  "RdmaQueuePair_check_timeouts q now =
     (let (ops, rs, stop) = timeout_loop now (timeout_us (qp_config q)) (pending_operations q);
          st = (qp_stats q)\<lparr>qp_retransmits := qp_retransmits (qp_stats q) + of_nat (length rs)\<rparr>;
          q1 = q\<lparr>pending_operations := ops, qp_stats := st\<rparr>
      in (rs, if stop then count_local_error (q1\<lparr>qp_state := QpError\<rparr>) else q1))"

definition RdmaQueuePair_advance_time :: "RdmaQueuePair \<Rightarrow> u64 \<Rightarrow> RdmaQueuePair" where
  "RdmaQueuePair_advance_time q elapsed = q\<lparr>qp_current_time_us := qp_current_time_us q + elapsed\<rparr>"

section \<open>Sequence numbers, MTU and reset\<close>

definition RdmaQueuePair_next_send_psn :: "RdmaQueuePair \<Rightarrow> u32 \<times> RdmaQueuePair" where
  "RdmaQueuePair_next_send_psn q = (sq_psn q, q\<lparr>sq_psn := advance_psn (sq_psn q) 1\<rparr>)"

definition RdmaQueuePair_last_sent_psn :: "RdmaQueuePair \<Rightarrow> u32" where
  "RdmaQueuePair_last_sent_psn q = (if sq_psn q = 0 then kMaxPsn else sq_psn q - 1)"

definition RdmaQueuePair_advance_recv_psn :: "RdmaQueuePair \<Rightarrow> RdmaQueuePair" where
  "RdmaQueuePair_advance_recv_psn q = q\<lparr>rq_psn := advance_psn (rq_psn q) 1\<rparr>"

definition RdmaQueuePair_mtu_bytes :: "RdmaQueuePair \<Rightarrow> u32" where
  "RdmaQueuePair_mtu_bytes q =
     (if path_mtu q = 1 then 256 else if path_mtu q = 2 then 512 else if path_mtu q = 3 then 1024
      else if path_mtu q = 4 then 2048 else if path_mtu q = 5 then 4096 else 1024)"

definition RdmaQueuePair_reset :: "RdmaQueuePair \<Rightarrow> RdmaQueuePair" where
  "RdmaQueuePair_reset q =
     q\<lparr>qp_state := QpReset, dest_qp_number := 0, dest_ip := [0, 0, 0, 0], dest_port := kRoceUdpPort, sq_psn := 0,
       rq_psn := 0, last_acked_psn := 0, send_queue := [], recv_queue := [], pending_operations := [],
       qp_current_time_us := 0, qp_stats := RdmaQpStats_zero\<rparr>"

section \<open>The queues in the states that run them\<close>

lemmas qp_queue_defs = RdmaQueuePair_post_send_def RdmaQueuePair_post_recv_def RdmaQueuePair_get_next_send_def
  RdmaQueuePair_consume_recv_def RdmaQueuePair_can_post_send_def RdmaQueuePair_can_post_recv_def
  RdmaQueuePair_can_send_def RdmaQueuePair_can_receive_def can_post_def count_local_error_def

lemmas qp_op_defs = qp_queue_defs RdmaQueuePair_modify_def apply_params_def RdmaQueuePair_record_packet_sent_def
  RdmaQueuePair_record_packet_received_def RdmaQueuePair_handle_ack_def RdmaQueuePair_add_pending_operation_def
  RdmaQueuePair_check_timeouts_def RdmaQueuePair_advance_time_def RdmaQueuePair_next_send_psn_def
  RdmaQueuePair_advance_recv_psn_def RdmaQueuePair_reset_def

interpretation sq: bounded_fifo RdmaQueuePair_post_send RdmaQueuePair_get_next_send send_queue
    "\<lambda>q. send_queue_depth (qp_config q)" "\<lambda>_ _. True"
    "\<lambda>q. qp_state q = QpRts \<and> length (send_queue q) \<le> send_queue_depth (qp_config q)"
  by unfold_locales (auto simp: qp_queue_defs split: list.splits)

interpretation rq: bounded_fifo RdmaQueuePair_post_recv RdmaQueuePair_consume_recv recv_queue
    "\<lambda>q. recv_queue_depth (qp_config q)" "\<lambda>_ _. True"
    "\<lambda>q. qp_state q \<in> {QpRtr, QpRts} \<and> length (recv_queue q) \<le> recv_queue_depth (qp_config q)"
  by unfold_locales (auto simp: qp_queue_defs split: list.splits)

section \<open>Runs of a queue pair\<close>

text \<open>Every call a client can make, and what an observer records since the queue pair was created or last reset: the
  work requests that were accepted and those that were taken for execution, and the states it went through, latest
  last.\<close>

datatype QpCall = CModify RdmaQpModifyParams | CPostSend SendWqe | CPostRecv RecvWqe | CNextSend | CConsumeRecv
  | CSent nat | CReceived nat | CAck u32 AethSyndrome | CPending SendWqe u32 | CTimeouts u64 | CTime u64
  | CNextPsn | CAdvanceRecv | CReset

record QpLog =
  sends_accepted :: "SendWqe list"
  sends_taken :: "SendWqe list"
  recvs_accepted :: "RecvWqe list"
  recvs_taken :: "RecvWqe list"
  states_seen :: "QpState list"

definition QpLog_empty :: QpLog where
  "QpLog_empty = \<lparr>sends_accepted = [], sends_taken = [], recvs_accepted = [], recvs_taken = [], states_seen = [QpReset]\<rparr>"

definition note_state :: "RdmaQueuePair \<Rightarrow> QpLog \<Rightarrow> QpLog" where
  "note_state q l = l\<lparr>states_seen := states_seen l @ [qp_state q]\<rparr>"

definition opt_list :: "'a option \<Rightarrow> 'a list" where
  "opt_list r = (case r of None \<Rightarrow> [] | Some x \<Rightarrow> [x])"

fun qp_call :: "QpCall \<Rightarrow> QpLog \<times> RdmaQueuePair \<Rightarrow> QpLog \<times> RdmaQueuePair" where
  "qp_call (CModify p) (l, q) = (let q' = snd (RdmaQueuePair_modify q p) in (note_state q' l, q'))"
| "qp_call (CPostSend w) (l, q) =
     (let (ok, q') = RdmaQueuePair_post_send q w
      in (l\<lparr>sends_accepted := sends_accepted l @ (if ok then [w] else [])\<rparr>, q'))"
| "qp_call (CPostRecv w) (l, q) =
     (let (ok, q') = RdmaQueuePair_post_recv q w
      in (l\<lparr>recvs_accepted := recvs_accepted l @ (if ok then [w] else [])\<rparr>, q'))"
| "qp_call CNextSend (l, q) =
     (let (r, q') = RdmaQueuePair_get_next_send q in (l\<lparr>sends_taken := sends_taken l @ opt_list r\<rparr>, q'))"
| "qp_call CConsumeRecv (l, q) =
     (let (r, q') = RdmaQueuePair_consume_recv q in (l\<lparr>recvs_taken := recvs_taken l @ opt_list r\<rparr>, q'))"
| "qp_call (CSent n) (l, q) = (l, RdmaQueuePair_record_packet_sent q n)"
| "qp_call (CReceived n) (l, q) = (l, RdmaQueuePair_record_packet_received q n)"
| "qp_call (CAck p s) (l, q) = (let q' = RdmaQueuePair_handle_ack q p s in (note_state q' l, q'))"
| "qp_call (CPending w n) (l, q) = (l, RdmaQueuePair_add_pending_operation q w n)"
| "qp_call (CTimeouts t) (l, q) = (let q' = snd (RdmaQueuePair_check_timeouts q t) in (note_state q' l, q'))"
| "qp_call (CTime e) (l, q) = (l, RdmaQueuePair_advance_time q e)"
| "qp_call CNextPsn (l, q) = (l, snd (RdmaQueuePair_next_send_psn q))"
| "qp_call CAdvanceRecv (l, q) = (l, RdmaQueuePair_advance_recv_psn q)"
| "qp_call CReset (l, q) = (QpLog_empty, RdmaQueuePair_reset q)"

inductive qp_reachable :: "u32 \<Rightarrow> RdmaQpConfig \<Rightarrow> QpLog \<times> RdmaQueuePair \<Rightarrow> bool" for n c where
  qpr_new: "qp_reachable n c (QpLog_empty, RdmaQueuePair_new n c)"
| qpr_call: "qp_reachable n c s \<Longrightarrow> qp_reachable n c (qp_call a s)"

text \<open>The states a queue pair must have been through to be where it is.\<close>

fun state_path :: "QpState \<Rightarrow> QpState list" where
  "state_path QpInit = [QpInit]"
| "state_path QpRtr = [QpInit, QpRtr]"
| "state_path QpRts = [QpInit, QpRtr, QpRts]"
| "state_path QpSqd = [QpInit, QpRtr, QpRts]"
| "state_path QpSqErr = [QpInit, QpRtr, QpRts]"
| "state_path _ = []"

definition queues_inv :: "QpLog \<Rightarrow> RdmaQueuePair \<Rightarrow> bool" where
  "queues_inv l q \<longleftrightarrow>
     sends_taken l @ send_queue q = sends_accepted l \<and> length (send_queue q) \<le> send_queue_depth (qp_config q) \<and>
     recvs_taken l @ recv_queue q = recvs_accepted l \<and> length (recv_queue q) \<le> recv_queue_depth (qp_config q)"

definition psns_inv :: "RdmaQueuePair \<Rightarrow> bool" where
  "psns_inv q \<longleftrightarrow> psn_ok (sq_psn q) \<and> psn_ok (rq_psn q)"

definition path_inv :: "QpLog \<Rightarrow> RdmaQueuePair \<Rightarrow> bool" where
  "path_inv l q \<longleftrightarrow> states_seen l \<noteq> [] \<and> List.last (states_seen l) = qp_state q \<and>
     subseq (state_path (qp_state q)) (states_seen l) \<and>
     (sends_taken l \<noteq> [] \<longrightarrow> subseq [QpInit, QpRtr, QpRts] (states_seen l)) \<and>
     (recvs_taken l \<noteq> [] \<longrightarrow> subseq [QpInit, QpRtr] (states_seen l))"

lemma queues_inv_call: "queues_inv l q \<Longrightarrow> qp_call a (l, q) = (l', q') \<Longrightarrow> queues_inv l' q'"
  by (cases a)
    (auto simp: queues_inv_def qp_op_defs note_state_def opt_list_def QpLog_empty_def Let_def
      split: list.splits option.splits if_splits prod.splits)

lemma psns_inv_call: "psns_inv q \<Longrightarrow> qp_call a (l, q) = (l', q') \<Longrightarrow> psns_inv q'"
  by (cases a)
    (auto simp: psns_inv_def qp_op_defs note_state_def with_param_def unat_and_kMaxPsn Let_def
      split: list.splits option.splits if_splits prod.splits)

lemma qp_config_call: "qp_call a (l, q) = (l', q') \<Longrightarrow> qp_config q' = qp_config q \<and> qp_number q' = qp_number q"
  by (cases a)
    (auto simp: qp_op_defs note_state_def Let_def split: list.splits option.splits if_splits prod.splits)

text \<open>A call moves the state along the transition table, to Error, or back to the start by a reset.\<close>

definition state_moves :: "QpState \<Rightarrow> QpState \<Rightarrow> bool" where
  "state_moves s t \<longleftrightarrow> t = s \<or> is_valid_transition s t \<or> t = QpError"

lemma modify_moves: "state_moves (qp_state q) (qp_state (snd (RdmaQueuePair_modify q p)))"
  by (auto simp: state_moves_def RdmaQueuePair_modify_def apply_params_def count_local_error_def split: option.splits)

lemma handle_ack_moves: "state_moves (qp_state q) (qp_state (RdmaQueuePair_handle_ack q p s))"
  by (auto simp: state_moves_def RdmaQueuePair_handle_ack_def Let_def split: prod.splits)

lemma check_timeouts_moves: "state_moves (qp_state q) (qp_state (snd (RdmaQueuePair_check_timeouts q t)))"
  by (auto simp: state_moves_def RdmaQueuePair_check_timeouts_def count_local_error_def Let_def split: prod.splits)

lemma note_state_path:
  assumes inv: "path_inv l q" and moves: "state_moves (qp_state q) (qp_state q')"
  shows "path_inv (note_state q' l) q'"
proof -
  let ?h = "states_seen l"
  have sub: "subseq (state_path (qp_state q)) ?h" using inv by (simp add: path_inv_def)
  have keep: "subseq xs (?h @ [qp_state q'])" if "subseq xs ?h" for xs
    using that by (rule subseq_rev_drop_many [of _ _ "[qp_state q']", simplified] )
  have step: "subseq (xs @ [qp_state q']) (?h @ [qp_state q'])" if "subseq xs ?h" for xs
    using that by (simp add: subseq_append)
  have "subseq (state_path (qp_state q')) (?h @ [qp_state q'])"
    using moves sub keep [OF sub] step [OF sub]
    by (cases "qp_state q"; cases "qp_state q'") (auto simp: state_moves_def)
  then show ?thesis using inv keep by (auto simp: path_inv_def note_state_def)
qed

lemma path_inv_call:
  assumes "path_inv l q" "qp_call a (l, q) = (l', q')"
  shows "path_inv l' q'"
proof (cases a)
  case (CModify p)
  then show ?thesis using note_state_path [OF assms(1) modify_moves [of q p]] assms(2) by (auto simp: Let_def)
next
  case (CAck p s)
  then show ?thesis using note_state_path [OF assms(1) handle_ack_moves [of q p s]] assms(2) by (auto simp: Let_def)
next
  case (CTimeouts t)
  then show ?thesis using note_state_path [OF assms(1) check_timeouts_moves [of q t]] assms(2) by (auto simp: Let_def)
next
  case CNextSend
  then show ?thesis
    using assms by (auto simp: path_inv_def RdmaQueuePair_get_next_send_def RdmaQueuePair_can_send_def opt_list_def
        split: list.splits if_splits)
next
  case CConsumeRecv
  have "subseq [QpInit, QpRtr] h" if "subseq [QpInit, QpRtr, QpRts] h" for h
    using that by (rule subseq_order.trans [rotated]) simp
  with CConsumeRecv show ?thesis
    using assms by (auto simp: path_inv_def RdmaQueuePair_consume_recv_def RdmaQueuePair_can_receive_def opt_list_def
        split: list.splits if_splits)
next
  case (CPostSend w)
  then show ?thesis using assms by (auto simp: path_inv_def RdmaQueuePair_post_send_def count_local_error_def split: if_splits)
next
  case (CPostRecv w)
  then show ?thesis using assms by (auto simp: path_inv_def RdmaQueuePair_post_recv_def count_local_error_def split: if_splits)
next
  case CReset
  then show ?thesis using assms by (auto simp: path_inv_def RdmaQueuePair_reset_def QpLog_empty_def)
qed (use assms in \<open>auto simp: path_inv_def RdmaQueuePair_record_packet_sent_def RdmaQueuePair_record_packet_received_def
      RdmaQueuePair_add_pending_operation_def RdmaQueuePair_advance_time_def RdmaQueuePair_next_send_psn_def
      RdmaQueuePair_advance_recv_psn_def\<close>)

lemma qp_reachable_inv:
  assumes "qp_reachable n c s"
  shows "queues_inv (fst s) (snd s) \<and> psns_inv (snd s) \<and> path_inv (fst s) (snd s) \<and> qp_config (snd s) = c"
  using assms
proof (induction rule: qp_reachable.induct)
  case qpr_new
  then show ?case by (simp add: queues_inv_def psns_inv_def path_inv_def QpLog_empty_def RdmaQueuePair_new_def)
next
  case (qpr_call s a)
  obtain l q l' q' where s: "s = (l, q)" "qp_call a (l, q) = (l', q')" by (metis surj_pair)
  show ?case
    using qpr_call.IH queues_inv_call [OF _ s(2)] psns_inv_call [OF _ s(2)] path_inv_call [OF _ s(2)] qp_config_call [OF s(2)]
    by (simp add: s)
qed

section \<open>What an acknowledgement completes\<close>

lemma ack_loop_dropWhile:
  "ack_loop lo acked n ops =
     (n + of_nat (length (takeWhile (\<lambda>op. psn_in_window (op_last_psn op) lo (acked - lo + 1)) ops)),
      dropWhile (\<lambda>op. psn_in_window (op_last_psn op) lo (acked - lo + 1)) ops)"
  by (induction ops arbitrary: n) simp_all

text \<open>The window from the last acknowledged number: the numbers up to the acknowledged one while the 24-bit
  counter has not wrapped in between, every number when it has.\<close>

lemma ack_window:
  assumes "psn_ok p" "psn_ok lo" "psn_ok acked"
  shows "psn_in_window p lo (acked - lo + 1) \<longleftrightarrow> (if lo \<le> acked then lo \<le> p \<and> p \<le> acked else acked + 1 \<noteq> lo)"
proof (cases "lo \<le> acked")
  case True
  then have d: "unat (acked - lo) = unat acked - unat lo" by (rule unat_sub)
  have "unat (acked - lo + 1) = unat acked - unat lo + 1"
    using assms(3) d unat_add_1_no_wrap [of "acked - lo"] by simp
  moreover have "(unat p + 2 ^ 24 - unat lo) mod 2 ^ 24 = (if lo \<le> p then unat p - unat lo else unat p + 2 ^ 24 - unat lo)"
  proof (cases "lo \<le> p")
    case True
    then have "unat p + 2 ^ 24 - unat lo = (unat p - unat lo) + 2 ^ 24" by (simp add: word_le_nat_alt)
    moreover have "unat p - unat lo < 2 ^ 24" using assms(1) by linarith
    ultimately show ?thesis using True by (simp only: if_True mod_add_self2 mod_less)
  next
    case False
    then have "unat p + 2 ^ 24 - unat lo < 2 ^ 24" using assms(2) unfolding word_le_nat_alt by linarith
    with False show ?thesis by (simp only: if_False mod_less)
  qed
  ultimately show ?thesis
    using assms True by (auto simp: psn_in_window_def word_less_nat_alt word_le_nat_alt unat_psn_diff)
next
  case False
  then have d: "unat (acked - lo) = 2 ^ 32 + unat acked - unat lo" and lt: "unat acked < unat lo"
    by (simp_all add: unat_sub_if_size word_size word_le_nat_alt)
  show ?thesis
  proof (cases "acked + 1 = lo")
    case True
    then have "acked - lo + 1 = 0" by (metis add.commute add_diff_eq diff_self)
    then show ?thesis using False True by (simp add: psn_in_window_def)
  next
    case neq: False
    then have "unat lo \<noteq> unat acked + 1"
      using assms(3) unat_add_1_no_wrap [of acked] by (auto simp: word_unat_eq_iff)
    with lt have "unat (acked - lo + 1) = 2 ^ 32 + unat acked - unat lo + 1"
      using assms(2) d unat_add_1_no_wrap [of "acked - lo"] by simp
    then have "2 ^ 24 < unat (acked - lo + 1)" using assms by simp
    moreover have "unat ((p - lo) AND kMaxPsn) < 2 ^ 24" by (simp add: unat_and_kMaxPsn)
    ultimately show ?thesis using False neq by (simp add: psn_in_window_def word_less_nat_alt)
  qed
qed

section \<open>Timeouts\<close>

definition expired :: "u64 \<Rightarrow> u64 \<Rightarrow> PendingOperation \<Rightarrow> bool" where
  "expired now t op \<longleftrightarrow> now - po_timestamp_us op \<ge> t"

definition exhausted :: "u64 \<Rightarrow> u64 \<Rightarrow> PendingOperation \<Rightarrow> bool" where
  "exhausted now t op \<longleftrightarrow> expired now t op \<and> po_retry_count op = 0"

lemma timeout_loop_resent:
  "fst (snd (timeout_loop now t ops)) = map po_wqe (filter (expired now t) (takeWhile (\<lambda>op. \<not> exhausted now t op) ops))"
  by (induction ops) (auto simp: expired_def exhausted_def Let_def word_gt_0 split: prod.splits)

lemma timeout_loop_stop: "snd (snd (timeout_loop now t ops)) \<longleftrightarrow> (\<exists>op \<in> set ops. exhausted now t op)"
  by (induction ops) (auto simp: expired_def exhausted_def Let_def word_gt_0 split: prod.splits)

text \<open>The retries the operations have left pay for every request that is sent again.\<close>

definition retry_budget :: "PendingOperation list \<Rightarrow> nat" where
  "retry_budget ops = sum_list (map (\<lambda>op. unat (po_retry_count op)) ops)"

lemma timeout_loop_budget:
  "length (fst (snd (timeout_loop now t ops))) + retry_budget (fst (timeout_loop now t ops)) = retry_budget ops"
proof (induction ops)
  case (Cons op ops)
  have "unat (po_retry_count op) = Suc (unat (po_retry_count op - 1))" if "po_retry_count op > 0"
    using that by (simp add: unat_minus_one word_gt_0 unat_gt_0)
  with Cons show ?case by (auto simp: retry_budget_def Let_def split: prod.splits)
qed (simp add: retry_budget_def)

fun timeouts_run :: "u64 list \<Rightarrow> RdmaQueuePair \<Rightarrow> SendWqe list \<times> RdmaQueuePair" where
  "timeouts_run [] q = ([], q)"
| "timeouts_run (t # ts) q =
     (let (rs, q1) = RdmaQueuePair_check_timeouts q t; (rs', q2) = timeouts_run ts q1 in (rs @ rs', q2))"

lemma check_timeouts_budget:
  "length (fst (RdmaQueuePair_check_timeouts q now)) + retry_budget (pending_operations (snd (RdmaQueuePair_check_timeouts q now)))
     = retry_budget (pending_operations q)"
  using timeout_loop_budget [of now "timeout_us (qp_config q)" "pending_operations q"]
  by (auto simp: RdmaQueuePair_check_timeouts_def count_local_error_def Let_def split: prod.splits)

lemma timeouts_run_budget:
  "length (fst (timeouts_run ts q)) + retry_budget (pending_operations (snd (timeouts_run ts q))) = retry_budget (pending_operations q)"
proof (induction ts arbitrary: q)
  case (Cons t ts)
  obtain rs q1 where c: "RdmaQueuePair_check_timeouts q t = (rs, q1)" by fastforce
  from Cons [of q1] check_timeouts_budget [of q t] c show ?case by (auto simp: Let_def split: prod.splits)
qed simp

section \<open>Properties\<close>

text \<open>C10: the queue pair never reorders, loses or duplicates work. Over every sequence of calls since the creation or
  the last reset, the send requests handed out followed by those still queued are exactly the accepted ones in order, and
  likewise for receives; the queues stay within their depths and both sequence numbers within 24 bits; and no send was
  handed out unless the queue pair had gone through Init, RTR and RTS in this order, no receive unless through Init
  and RTR.\<close>

theorem qp_order_and_states:
  assumes "qp_reachable n c (l, q)"
  shows "sends_taken l @ send_queue q = sends_accepted l \<and> length (send_queue q) \<le> send_queue_depth c
    \<and> recvs_taken l @ recv_queue q = recvs_accepted l \<and> length (recv_queue q) \<le> recv_queue_depth c
    \<and> psn_ok (sq_psn q) \<and> psn_ok (rq_psn q)
    \<and> (if sends_taken l = [] then True else subseq [QpInit, QpRtr, QpRts] (states_seen l))
    \<and> (if recvs_taken l = [] then True else subseq [QpInit, QpRtr] (states_seen l))"
  using qp_reachable_inv [OF assms] by (auto simp: queues_inv_def psns_inv_def path_inv_def)

definition ready_params :: "QpState \<Rightarrow> RdmaQpModifyParams" where
  "ready_params st = \<lparr>target_state = Some st, mp_dest_qp_number = None, initial_psn = None, expected_psn = None,
     mp_dest_ip = None, mp_dest_port = None, mp_sq_psn = None, mp_rq_psn = None, mp_path_mtu = None\<rparr>"

definition sample_send :: "u64 \<Rightarrow> SendWqe" where
  "sample_send i = \<lparr>swqe_wr_id = i, swqe_opcode = WqSend, swqe_sgl = [], swqe_total_length = 0, signaled = True,
     solicited = False, fence = False, inline_data = False, swqe_immediate_data = 0, remote_address = 0, swqe_rkey = 0,
     local_lkey = 0\<rparr>"

lemma qp_reachable_foldl: "qp_reachable n c s \<Longrightarrow> qp_reachable n c (foldl (\<lambda>s a. qp_call a s) s as)"
  by (induction "as" arbitrary: s) (simp_all only: foldl.simps qpr_call)

theorem qp_order_and_states_witness:
  "subseq [QpInit, QpRtr, QpRts] (states_seen (fst (foldl (\<lambda>s a. qp_call a s)
      (QpLog_empty, RdmaQueuePair_new 1 RdmaQpConfig_default)
      [CModify (ready_params QpInit), CPostSend (sample_send 1), CModify (ready_params QpRtr), CNextSend,
       CModify (ready_params QpRts), CNextSend])))"
proof -
  define s where "s = foldl (\<lambda>s a. qp_call a s) (QpLog_empty, RdmaQueuePair_new 1 RdmaQpConfig_default)
      [CModify (ready_params QpInit), CPostSend (sample_send 1), CModify (ready_params QpRtr), CNextSend,
       CModify (ready_params QpRts), CNextSend]"
  have "qp_reachable 1 RdmaQpConfig_default (fst s, snd s)"
    unfolding s_def prod.collapse by (rule qp_reachable_foldl [OF qpr_new])
  moreover have "sends_taken (fst s) \<noteq> []"
    by (simp add: s_def qp_queue_defs RdmaQueuePair_modify_def apply_params_def ready_params_def RdmaQueuePair_new_def
        RdmaQpConfig_default_def QpLog_empty_def note_state_def opt_list_def Let_def)
  ultimately show ?thesis unfolding s_def [symmetric] using qp_order_and_states [of 1 RdmaQpConfig_default "fst s" "snd s"] by simp
qed

text \<open>An acknowledgement completes the operations at the head of the pending list whose last sequence number lies
  between the last acknowledged number and the acknowledged one, and no others, as long as the acknowledged number
  has not wrapped below the last one. The number right below it completes nothing. Any other smaller number, as the first
  acknowledgement after the 24-bit counter wrapped has, completes every pending operation, sent or not: the window size
  is not reduced to 24 bits.\<close>

theorem handle_ack_completes:
  assumes "psn_ok (last_acked_psn q)" and "psn_ok acked_psn"
  shows "pending_operations (RdmaQueuePair_handle_ack q acked_psn asAck) =
    (if last_acked_psn q \<le> acked_psn
     then dropWhile (\<lambda>op. last_acked_psn q \<le> op_last_psn op \<and> op_last_psn op \<le> acked_psn) (pending_operations q)
     else if acked_psn + 1 = last_acked_psn q then pending_operations q else [])"
proof -
  have "psn_ok (op_last_psn op)" for op by (simp add: op_last_psn_def)
  then have w: "psn_in_window (op_last_psn op) (last_acked_psn q) (acked_psn - last_acked_psn q + 1) \<longleftrightarrow>
      (if last_acked_psn q \<le> acked_psn then last_acked_psn q \<le> op_last_psn op \<and> op_last_psn op \<le> acked_psn
       else acked_psn + 1 \<noteq> last_acked_psn q)" for op
    using ack_window [OF _ assms] by blast
  have "pending_operations (RdmaQueuePair_handle_ack q acked_psn asAck) =
    dropWhile (\<lambda>op. psn_in_window (op_last_psn op) (last_acked_psn q) (acked_psn - last_acked_psn q + 1)) (pending_operations q)"
    by (simp add: RdmaQueuePair_handle_ack_def ack_loop_dropWhile Let_def)
  then show ?thesis unfolding w by (auto simp: dropWhile_eq_self_iff)
qed

definition sample_pending :: "u32 \<Rightarrow> PendingOperation" where
  "sample_pending psn = \<lparr>po_wqe = sample_send 1, po_psn = psn, num_packets = 1, po_timestamp_us = 0, po_retry_count = 7\<rparr>"

theorem handle_ack_completes_witness:
  "pending_operations (RdmaQueuePair_handle_ack
      (RdmaQueuePair_new 1 RdmaQpConfig_default\<lparr>pending_operations := [sample_pending 3, sample_pending 4, sample_pending 9]\<rparr>) 5 asAck)
    = [sample_pending 9]"
proof -
  let ?q = "RdmaQueuePair_new 1 RdmaQpConfig_default\<lparr>pending_operations := [sample_pending 3, sample_pending 4, sample_pending 9]\<rparr>"
  have "psn_ok (last_acked_psn ?q)" "psn_ok (5 :: u32)" by (simp_all add: RdmaQueuePair_new_def)
  from handle_ack_completes [OF this] show ?thesis
    by (simp add: RdmaQueuePair_new_def op_last_psn_def sample_pending_def advance_psn_def kMaxPsn_def)
qed

text \<open>C28: a timeout scan resends the requests of exactly the expired operations in front of the first expired one that
  has no retries left, in order, and moves the queue pair to Error exactly when there is such an operation. Every resent
  request is paid by a retry: however often the scan runs, the number of requests it resends is at most the sum of
  the retry counters the operations started with, so resending ends.\<close>

theorem retries_bounded:
  "fst (RdmaQueuePair_check_timeouts q now) = map po_wqe
      (filter (expired now (timeout_us (qp_config q)))
        (takeWhile (\<lambda>op. \<not> exhausted now (timeout_us (qp_config q)) op) (pending_operations q)))
   \<and> qp_state (snd (RdmaQueuePair_check_timeouts q now)) =
      (if \<exists>op. op \<in> set (pending_operations q) \<and> exhausted now (timeout_us (qp_config q)) op then QpError else qp_state q)
   \<and> length (fst (timeouts_run ts q)) \<le> retry_budget (pending_operations q)"
proof -
  let ?l = "timeout_loop now (timeout_us (qp_config q)) (pending_operations q)"
  obtain ops rs stop where l: "?l = (ops, rs, stop)" by (metis prod_cases3)
  have "fst (RdmaQueuePair_check_timeouts q now) = rs"
    "qp_state (snd (RdmaQueuePair_check_timeouts q now)) = (if stop then QpError else qp_state q)"
    by (simp_all add: RdmaQueuePair_check_timeouts_def l count_local_error_def Let_def)
  then show ?thesis
    using timeout_loop_resent [of now "timeout_us (qp_config q)" "pending_operations q"]
      timeout_loop_stop [of now "timeout_us (qp_config q)" "pending_operations q"] timeouts_run_budget [of ts q]
    by (simp add: l Bex_def)
qed

end
