(* ===== verification/Rocev2_Resources.thy ===== *)
theory Rocev2_Resources
  imports Rocev2_Types
begin

text \<open>
  The RDMA completion queue, the protection domain table and the memory region table
  (\<^verbatim>\<open>rocev2/completion_queue\<close>, \<^verbatim>\<open>protection_domain\<close>, \<^verbatim>\<open>memory_region\<close>). A memory region is never changed
  after its registration, so the pointer the \<^verbatim>\<open>rkey\<close> map holds is modelled by the region itself. The
  theory shows that the completion queue is a bounded queue, that a granted remote access lies within a
  registered region of the requester's protection domain with the right permission, and that the bounds
  check can be passed by an access that wraps around the address space.
\<close>

text \<open>\<^verbatim>\<open>emplace\<close>: an existing key keeps its value.\<close>

definition um_emplace :: "'k \<Rightarrow> 'v \<Rightarrow> ('k \<times> 'v) list \<Rightarrow> ('k \<times> 'v) list" where
  "um_emplace k v m = (if um_lookup m k = None then um_update k v m else m)"

section \<open>Completion queue\<close>

record RdmaCqStats =
  cqes_posted :: u64
  cqes_polled :: u64
  cq_overflows :: u64
  arm_count :: u64

definition RdmaCqStats_zero :: RdmaCqStats where
  "RdmaCqStats_zero = \<lparr>cqes_posted = 0, cqes_polled = 0, cq_overflows = 0, arm_count = 0\<rparr>"

record RdmaCompletionQueue =
  cq_number :: u32
  cq_depth :: nat
  cqes :: "RdmaCqe list"
  cq_armed :: bool
  has_new_completions :: bool
  rcq_stats :: RdmaCqStats

definition RdmaCompletionQueue_new :: "u32 \<Rightarrow> nat \<Rightarrow> RdmaCompletionQueue" where
  "RdmaCompletionQueue_new n depth = \<lparr>cq_number = n, cq_depth = depth, cqes = [], cq_armed = False,
     has_new_completions = False, rcq_stats = RdmaCqStats_zero\<rparr>"

definition RdmaCompletionQueue_is_full :: "RdmaCompletionQueue \<Rightarrow> bool" where
  "RdmaCompletionQueue_is_full q \<longleftrightarrow> length (cqes q) \<ge> cq_depth q"

definition RdmaCompletionQueue_post :: "RdmaCompletionQueue \<Rightarrow> RdmaCqe \<Rightarrow> bool \<times> RdmaCompletionQueue" where
  "RdmaCompletionQueue_post q cqe =
     (if RdmaCompletionQueue_is_full q
      then (False, q\<lparr>rcq_stats := (rcq_stats q)\<lparr>cq_overflows := cq_overflows (rcq_stats q) + 1\<rparr>\<rparr>)
      else (True, q\<lparr>cqes := cqes q @ [cqe],
                    rcq_stats := (rcq_stats q)\<lparr>cqes_posted := cqes_posted (rcq_stats q) + 1\<rparr>,
                    has_new_completions := True\<rparr>))"

definition RdmaCompletionQueue_poll :: "RdmaCompletionQueue \<Rightarrow> nat \<Rightarrow> RdmaCqe list \<times> RdmaCompletionQueue" where
  "RdmaCompletionQueue_poll q max_cqes =
     (let to_poll = min max_cqes (length (cqes q));
          q1 = q\<lparr>cqes := drop to_poll (cqes q),
                 rcq_stats := (rcq_stats q)\<lparr>cqes_polled := cqes_polled (rcq_stats q) + of_nat to_poll\<rparr>\<rparr>
      in (take to_poll (cqes q), if cqes q1 \<noteq> [] then q1\<lparr>has_new_completions := False\<rparr> else q1))"

definition RdmaCompletionQueue_poll_one :: "RdmaCompletionQueue \<Rightarrow> RdmaCqe option \<times> RdmaCompletionQueue" where
  "RdmaCompletionQueue_poll_one q =
     (case cqes q of
        [] \<Rightarrow> (None, q)
      | cqe # rest \<Rightarrow>
          let q1 = q\<lparr>cqes := rest, rcq_stats := (rcq_stats q)\<lparr>cqes_polled := cqes_polled (rcq_stats q) + 1\<rparr>\<rparr>
          in (Some cqe, if rest = [] then q1\<lparr>has_new_completions := False\<rparr> else q1))"

definition RdmaCompletionQueue_arm :: "RdmaCompletionQueue \<Rightarrow> RdmaCompletionQueue" where
  "RdmaCompletionQueue_arm q = q\<lparr>cq_armed := True, has_new_completions := False,
     rcq_stats := (rcq_stats q)\<lparr>arm_count := arm_count (rcq_stats q) + 1\<rparr>\<rparr>"

definition RdmaCompletionQueue_clear_arm :: "RdmaCompletionQueue \<Rightarrow> RdmaCompletionQueue" where
  "RdmaCompletionQueue_clear_arm q = q\<lparr>cq_armed := False\<rparr>"

definition RdmaCompletionQueue_should_notify :: "RdmaCompletionQueue \<Rightarrow> bool" where
  "RdmaCompletionQueue_should_notify q \<longleftrightarrow> cq_armed q \<and> has_new_completions q"

definition RdmaCompletionQueue_reset :: "RdmaCompletionQueue \<Rightarrow> RdmaCompletionQueue" where
  "RdmaCompletionQueue_reset q =
     q\<lparr>cqes := [], cq_armed := False, has_new_completions := False, rcq_stats := RdmaCqStats_zero\<rparr>"

interpretation rcq: bounded_fifo RdmaCompletionQueue_post RdmaCompletionQueue_poll_one cqes cq_depth
    "\<lambda>_ _. True" "\<lambda>q. length (cqes q) \<le> cq_depth q"
  by unfold_locales
    (auto simp: RdmaCompletionQueue_post_def RdmaCompletionQueue_poll_one_def RdmaCompletionQueue_is_full_def
      Let_def split: list.splits)

section \<open>Protection domains\<close>

record PdTableStats =
  pd_allocations :: u64
  pd_deallocations :: u64
  pd_allocation_failures :: u64

definition PdTableStats_zero :: PdTableStats where
  "PdTableStats_zero = \<lparr>pd_allocations = 0, pd_deallocations = 0, pd_allocation_failures = 0\<rparr>"

text \<open>A protection domain is its handle.\<close>

record PdTable =
  max_pds :: nat
  pds :: "(u32 \<times> u32) list"
  next_handle :: u32
  pd_stats :: PdTableStats

definition PdTable_new :: "nat \<Rightarrow> PdTable" where
  "PdTable_new n = \<lparr>max_pds = n, pds = [], next_handle = 1, pd_stats = PdTableStats_zero\<rparr>"

definition PdTable_allocate :: "PdTable \<Rightarrow> u32 option \<times> PdTable" where
  "PdTable_allocate t =
     (if length (pds t) \<ge> max_pds t
      then (None, t\<lparr>pd_stats := (pd_stats t)\<lparr>pd_allocation_failures := pd_allocation_failures (pd_stats t) + 1\<rparr>\<rparr>)
      else
        let handle = next_handle t
        in (Some handle, t\<lparr>next_handle := next_handle t + 1, pds := um_emplace handle handle (pds t),
              pd_stats := (pd_stats t)\<lparr>pd_allocations := pd_allocations (pd_stats t) + 1\<rparr>\<rparr>))"

definition PdTable_deallocate :: "PdTable \<Rightarrow> u32 \<Rightarrow> bool \<times> PdTable" where
  "PdTable_deallocate t handle =
     (if um_lookup (pds t) handle = None then (False, t)
      else (True, t\<lparr>pds := um_erase handle (pds t),
              pd_stats := (pd_stats t)\<lparr>pd_deallocations := pd_deallocations (pd_stats t) + 1\<rparr>\<rparr>))"

definition PdTable_is_valid :: "PdTable \<Rightarrow> u32 \<Rightarrow> bool" where
  "PdTable_is_valid t handle \<longleftrightarrow> um_lookup (pds t) handle \<noteq> None"

definition PdTable_get :: "PdTable \<Rightarrow> u32 \<Rightarrow> u32 option" where
  "PdTable_get t handle = um_lookup (pds t) handle"

definition PdTable_reset :: "PdTable \<Rightarrow> PdTable" where
  "PdTable_reset t = t\<lparr>pds := [], next_handle := 1, pd_stats := PdTableStats_zero\<rparr>"

section \<open>Memory regions\<close>

record MemoryRegion =
  mr_lkey :: u32
  mr_rkey :: u32
  mr_virtual_address :: u64
  mr_length :: u64
  mr_pd_handle :: u32
  mr_access :: AccessFlags
  mr_is_valid :: bool

record MrTableStats =
  mr_registrations :: u64
  mr_deregistrations :: u64
  lkey_validations :: u64
  rkey_validations :: u64
  mr_access_errors :: u64
  registration_failures :: u64

definition MrTableStats_zero :: MrTableStats where
  "MrTableStats_zero = \<lparr>mr_registrations = 0, mr_deregistrations = 0, lkey_validations = 0,
     rkey_validations = 0, mr_access_errors = 0, registration_failures = 0\<rparr>"

record MemoryRegionTable =
  max_mrs :: nat
  mrs_by_lkey :: "(u32 \<times> MemoryRegion) list"
  mrs_by_rkey :: "(u32 \<times> MemoryRegion) list"
  next_key :: u32
  mr_stats :: MrTableStats

definition MemoryRegionTable_new :: "nat \<Rightarrow> MemoryRegionTable" where
  "MemoryRegionTable_new n =
     \<lparr>max_mrs = n, mrs_by_lkey = [], mrs_by_rkey = [], next_key = 0x100, mr_stats = MrTableStats_zero\<rparr>"

definition generate_key :: "MemoryRegionTable \<Rightarrow> u32 \<times> MemoryRegionTable" where
  "generate_key t = (next_key t, t\<lparr>next_key := next_key t + 1\<rparr>)"

definition MemoryRegionTable_register_mr ::
  "MemoryRegionTable \<Rightarrow> u32 \<Rightarrow> u64 \<Rightarrow> u64 \<Rightarrow> AccessFlags \<Rightarrow> u32 option \<times> MemoryRegionTable" where
  "MemoryRegionTable_register_mr t pd_handle virtual_address len access =
     (let fail = t\<lparr>mr_stats := (mr_stats t)\<lparr>registration_failures := registration_failures (mr_stats t) + 1\<rparr>\<rparr> in
      if length (mrs_by_lkey t) \<ge> max_mrs t then (None, fail)
      else if len = 0 then (None, fail)
      else
        let (lkey, t1) = generate_key t;
            (rkey, t2) = generate_key t1;
            mr = \<lparr>mr_lkey = lkey, mr_rkey = rkey, mr_virtual_address = virtual_address, mr_length = len,
                  mr_pd_handle = pd_handle, mr_access = access, mr_is_valid = True\<rparr>
        in (Some lkey, t2\<lparr>mrs_by_lkey := um_emplace lkey mr (mrs_by_lkey t2),
              mrs_by_rkey := um_emplace rkey mr (mrs_by_rkey t2),
              mr_stats := (mr_stats t2)\<lparr>mr_registrations := mr_registrations (mr_stats t2) + 1\<rparr>\<rparr>))"

definition MemoryRegionTable_deregister_mr :: "MemoryRegionTable \<Rightarrow> u32 \<Rightarrow> bool \<times> MemoryRegionTable" where
  "MemoryRegionTable_deregister_mr t lkey =
     (case um_lookup (mrs_by_lkey t) lkey of
        None \<Rightarrow> (False, t)
      | Some mr \<Rightarrow> (True, t\<lparr>mrs_by_rkey := um_erase (mr_rkey mr) (mrs_by_rkey t),
              mrs_by_lkey := um_erase lkey (mrs_by_lkey t),
              mr_stats := (mr_stats t)\<lparr>mr_deregistrations := mr_deregistrations (mr_stats t) + 1\<rparr>\<rparr>))"

definition MemoryRegionTable_get_by_lkey :: "MemoryRegionTable \<Rightarrow> u32 \<Rightarrow> MemoryRegion option" where
  "MemoryRegionTable_get_by_lkey t lkey = um_lookup (mrs_by_lkey t) lkey"

definition MemoryRegionTable_get_by_rkey :: "MemoryRegionTable \<Rightarrow> u32 \<Rightarrow> MemoryRegion option" where
  "MemoryRegionTable_get_by_rkey t rkey = um_lookup (mrs_by_rkey t) rkey"

definition access_error :: "MemoryRegionTable \<Rightarrow> bool \<times> MemoryRegionTable" where
  "access_error t = (False, t\<lparr>mr_stats := (mr_stats t)\<lparr>mr_access_errors := mr_access_errors (mr_stats t) + 1\<rparr>\<rparr>)"

definition MemoryRegionTable_validate_access ::
  "MemoryRegionTable \<Rightarrow> MemoryRegion option \<Rightarrow> u64 \<Rightarrow> u64 \<Rightarrow> bool \<Rightarrow> bool \<Rightarrow> bool \<times> MemoryRegionTable" where
  "MemoryRegionTable_validate_access t mr_opt address len is_write is_remote =
     (case mr_opt of
        None \<Rightarrow> access_error t
      | Some mr \<Rightarrow>
          if \<not> mr_is_valid mr then access_error t
          else if address < mr_virtual_address mr then access_error t
          else
            let offset = address - mr_virtual_address mr in
            if offset + len > mr_length mr then access_error t
            else if is_remote then
              if is_write \<and> \<not> remote_write (mr_access mr) then access_error t
              else if \<not> is_write \<and> \<not> remote_read (mr_access mr) then access_error t
              else (True, t)
            else
              if is_write \<and> \<not> local_write (mr_access mr) then access_error t
              else if \<not> is_write \<and> \<not> local_read (mr_access mr) then access_error t
              else (True, t))"

definition MemoryRegionTable_validate_lkey ::
  "MemoryRegionTable \<Rightarrow> u32 \<Rightarrow> u64 \<Rightarrow> u64 \<Rightarrow> bool \<Rightarrow> bool \<times> MemoryRegionTable" where
  "MemoryRegionTable_validate_lkey t lkey address len is_write =
     (let t1 = t\<lparr>mr_stats := (mr_stats t)\<lparr>lkey_validations := lkey_validations (mr_stats t) + 1\<rparr>\<rparr>
      in MemoryRegionTable_validate_access t1 (MemoryRegionTable_get_by_lkey t1 lkey) address len is_write False)"

definition MemoryRegionTable_validate_rkey ::
  "MemoryRegionTable \<Rightarrow> u32 \<Rightarrow> u32 \<Rightarrow> u64 \<Rightarrow> u64 \<Rightarrow> bool \<Rightarrow> bool \<times> MemoryRegionTable" where
  "MemoryRegionTable_validate_rkey t rkey pd_handle address len is_write =
     (let t1 = t\<lparr>mr_stats := (mr_stats t)\<lparr>rkey_validations := rkey_validations (mr_stats t) + 1\<rparr>\<rparr> in
      case MemoryRegionTable_get_by_rkey t1 rkey of
        None \<Rightarrow> access_error t1
      | Some mr \<Rightarrow>
          if mr_pd_handle mr \<noteq> pd_handle then access_error t1
          else MemoryRegionTable_validate_access t1 (Some mr) address len is_write True)"

definition MemoryRegionTable_reset :: "MemoryRegionTable \<Rightarrow> MemoryRegionTable" where
  "MemoryRegionTable_reset t =
     t\<lparr>mrs_by_rkey := [], mrs_by_lkey := [], next_key := 0x100, mr_stats := MrTableStats_zero\<rparr>"

section \<open>Reachable tables\<close>

text \<open>The tables the calls can reach, with the set of regions that are registered and not yet deregistered.
  Keys are drawn from a 32-bit counter; the relation stops before it wraps.\<close>

inductive mr_reachable :: "MemoryRegionTable \<Rightarrow> MemoryRegion set \<Rightarrow> bool" where
  init: "mr_reachable (MemoryRegionTable_new n) {}"
| register: "mr_reachable t live \<Longrightarrow> unat (next_key t) < 2 ^ 32 - 2 \<Longrightarrow>
    MemoryRegionTable_register_mr t pd va len acc = (Some lkey, t') \<Longrightarrow>
    mr_reachable t' (insert \<lparr>mr_lkey = lkey, mr_rkey = lkey + 1, mr_virtual_address = va, mr_length = len,
      mr_pd_handle = pd, mr_access = acc, mr_is_valid = True\<rparr> live)"
| register_fail: "mr_reachable t live \<Longrightarrow> MemoryRegionTable_register_mr t pd va len acc = (None, t') \<Longrightarrow>
    mr_reachable t' live"
| deregister: "mr_reachable t live \<Longrightarrow> MemoryRegionTable_deregister_mr t lkey = (ok, t') \<Longrightarrow>
    mr_reachable t' {mr \<in> live. mr_lkey mr \<noteq> lkey}"
| validate_lkey: "mr_reachable t live \<Longrightarrow> mr_reachable (snd (MemoryRegionTable_validate_lkey t k a l w)) live"
| validate_rkey: "mr_reachable t live \<Longrightarrow> mr_reachable (snd (MemoryRegionTable_validate_rkey t k pd a l w)) live"
| reset: "mr_reachable t live \<Longrightarrow> mr_reachable (MemoryRegionTable_reset t) {}"

definition mr_inv :: "MemoryRegionTable \<Rightarrow> MemoryRegion set \<Rightarrow> bool" where
  "mr_inv t live \<longleftrightarrow>
     (\<forall>k mr. um_lookup (mrs_by_lkey t) k = Some mr \<longleftrightarrow> mr \<in> live \<and> mr_lkey mr = k)
     \<and> (\<forall>k mr. um_lookup (mrs_by_rkey t) k = Some mr \<longleftrightarrow> mr \<in> live \<and> mr_rkey mr = k)
     \<and> (\<forall>mr \<in> live. unat (mr_lkey mr) < unat (next_key t) \<and> unat (mr_rkey mr) < unat (next_key t)
          \<and> mr_is_valid mr)"

lemma validate_access_frame [simp]:
  "mrs_by_lkey (snd (MemoryRegionTable_validate_access t m a l w r)) = mrs_by_lkey t"
  "mrs_by_rkey (snd (MemoryRegionTable_validate_access t m a l w r)) = mrs_by_rkey t"
  "next_key (snd (MemoryRegionTable_validate_access t m a l w r)) = next_key t"
  by (auto simp: MemoryRegionTable_validate_access_def access_error_def Let_def split: option.splits)

lemma validate_frame:
  "mr_inv (snd (MemoryRegionTable_validate_lkey t k a l w)) live = mr_inv t live"
  "mr_inv (snd (MemoryRegionTable_validate_rkey t k pd a l w)) live = mr_inv t live"
  by (auto simp: mr_inv_def MemoryRegionTable_validate_lkey_def MemoryRegionTable_validate_rkey_def
      access_error_def Let_def split: option.splits)

lemma register_inv:
  assumes inv: "mr_inv t live" and room: "unat (next_key t) < 2 ^ 32 - 2"
    and reg: "MemoryRegionTable_register_mr t pd va len acc = (Some lkey, t')"
  shows "mr_inv t' (insert \<lparr>mr_lkey = lkey, mr_rkey = lkey + 1, mr_virtual_address = va, mr_length = len,
      mr_pd_handle = pd, mr_access = acc, mr_is_valid = True\<rparr> live)" (is "mr_inv t' (insert ?mr live)")
proof -
  let ?n = "next_key t"
  have u: "unat (?n + 1) = unat ?n + 1" "unat (?n + 1 + 1) = unat ?n + 2"
    using room by (simp_all add: unat_word_ariths)
  have fresh: "um_lookup (mrs_by_lkey t) ?n = None" "um_lookup (mrs_by_rkey t) (?n + 1) = None"
    "\<forall>mr \<in> live. mr_lkey mr \<noteq> ?n \<and> mr_rkey mr \<noteq> ?n + 1"
    using inv u by (auto simp: mr_inv_def simp flip: not_Some_eq)
  have t': "lkey = ?n" "next_key t' = ?n + 1 + 1" "mrs_by_lkey t' = um_update ?n ?mr (mrs_by_lkey t)"
    "mrs_by_rkey t' = um_update (?n + 1) ?mr (mrs_by_rkey t)"
    using reg fresh(1,2)
    by (auto simp: MemoryRegionTable_register_mr_def generate_key_def um_emplace_def Let_def split: if_splits)
  have lt: "unat (mr_lkey mr) < unat ?n + 2" "unat (mr_rkey mr) < unat ?n + 2" "mr_is_valid mr" if "mr \<in> live" for mr
    using inv that by (auto simp: mr_inv_def less_Suc_eq)
  show ?thesis
    unfolding mr_inv_def t'(2-4) using inv fresh(3) lt u t'(1) by (auto simp: mr_inv_def)
qed

lemma deregister_inv:
  assumes "mr_inv t live" and "MemoryRegionTable_deregister_mr t lkey = (ok, t')"
  shows "mr_inv t' {mr \<in> live. mr_lkey mr \<noteq> lkey}"
proof (cases "um_lookup (mrs_by_lkey t) lkey")
  case None
  then have "\<forall>mr \<in> live. mr_lkey mr \<noteq> lkey" using assms(1) by (force simp: mr_inv_def)
  then have "{mr \<in> live. mr_lkey mr \<noteq> lkey} = live" by auto
  with None assms show ?thesis by (simp add: MemoryRegionTable_deregister_mr_def)
next
  case (Some mr)
  then have mr: "mr \<in> live" "mr_lkey mr = lkey" using assms(1) by (auto simp: mr_inv_def)
  have uniq: "m = mr" if "m \<in> live" "mr_lkey m = lkey \<or> mr_rkey m = mr_rkey mr" for m
    using assms(1) mr that unfolding mr_inv_def by (metis option.inject)
  have t': "mrs_by_lkey t' = um_erase lkey (mrs_by_lkey t)" "mrs_by_rkey t' = um_erase (mr_rkey mr) (mrs_by_rkey t)"
    "next_key t' = next_key t"
    using assms(2) Some by (auto simp: MemoryRegionTable_deregister_mr_def)
  show ?thesis
    unfolding mr_inv_def t' using assms(1) uniq mr by (auto simp: mr_inv_def)
qed

lemma mr_reachable_inv: "mr_reachable t live \<Longrightarrow> mr_inv t live"
proof (induction rule: mr_reachable.induct)
  case (register_fail t live pd va len acc t')
  then show ?case
    by (auto simp: MemoryRegionTable_register_mr_def generate_key_def mr_inv_def Let_def split: if_splits)
next
  case (reset t live)
  then show ?case by (simp add: mr_inv_def MemoryRegionTable_reset_def)
qed (auto simp: validate_frame register_inv deregister_inv, simp add: mr_inv_def MemoryRegionTable_new_def)

lemma validate_access_granted:
  assumes "fst (MemoryRegionTable_validate_access t (Some mr) a len w True)" and "unat a + unat len < 2 ^ 64"
  shows "unat (mr_virtual_address mr) \<le> unat a
    \<and> unat a + unat len \<le> unat (mr_virtual_address mr) + unat (mr_length mr)
    \<and> (if w then remote_write (mr_access mr) else remote_read (mr_access mr))"
proof -
  let ?va = "mr_virtual_address mr"
  have c: "\<not> a < ?va" "\<not> mr_length mr < a - ?va + len"
    "if w then remote_write (mr_access mr) else remote_read (mr_access mr)"
    using assms(1) by (auto simp: MemoryRegionTable_validate_access_def access_error_def Let_def split: if_splits)
  then have va: "unat ?va \<le> unat a" by (simp add: word_less_nat_alt)
  then have "unat (a - ?va) = unat a - unat ?va" by (simp add: unat_sub word_le_nat_alt)
  then have "unat (a - ?va + len) = unat a - unat ?va + unat len"
    using assms(2) va by (simp add: unat_word_ariths)
  then show ?thesis using c va by (simp add: word_less_nat_alt)
qed

lemma validate_rkey_eq:
  "fst (MemoryRegionTable_validate_rkey t k pd a n w) \<longleftrightarrow>
     (case um_lookup (mrs_by_rkey t) k of None \<Rightarrow> False
      | Some mr \<Rightarrow> mr_pd_handle mr = pd \<and> mr_is_valid mr \<and> mr_virtual_address mr \<le> a
          \<and> a - mr_virtual_address mr + n \<le> mr_length mr
          \<and> (if w then remote_write (mr_access mr) else remote_read (mr_access mr)))"
  by (auto simp: MemoryRegionTable_validate_rkey_def MemoryRegionTable_validate_access_def MemoryRegionTable_get_by_rkey_def
      access_error_def Let_def not_less not_le split: option.splits)

section \<open>Properties\<close>

text \<open>C11: a remote access that the table grants, and that does not run past the end of the address space, is
  to a region that was registered and not deregistered since, under the given key and in the requester's
  protection domain; the whole range lies within the region, and the region allows the access.\<close>

theorem rkey_access_sound:
  assumes "mr_reachable t live" and "fst (MemoryRegionTable_validate_rkey t rkey pd address len is_write)"
    and "unat address + unat len < 2 ^ 64"
  shows "\<exists>mr \<in> live. mr_rkey mr = rkey \<and> mr_pd_handle mr = pd
    \<and> unat (mr_virtual_address mr) \<le> unat address
    \<and> unat address + unat len \<le> unat (mr_virtual_address mr) + unat (mr_length mr)
    \<and> (if is_write then remote_write (mr_access mr) else remote_read (mr_access mr))"
proof -
  obtain mr t1 where mr: "um_lookup (mrs_by_rkey t) rkey = Some mr" "mr_pd_handle mr = pd"
    "fst (MemoryRegionTable_validate_access t1 (Some mr) address len is_write True)"
    using assms(2) by (auto simp: MemoryRegionTable_validate_rkey_def MemoryRegionTable_get_by_rkey_def
        access_error_def Let_def split: option.splits if_splits)
  then have "mr \<in> live" "mr_rkey mr = rkey" using mr_reachable_inv [OF assms(1)] by (auto simp: mr_inv_def)
  with validate_access_granted [OF mr(3) assms(3)] mr(2) show ?thesis by blast
qed

abbreviation demo_access :: AccessFlags where
  "demo_access \<equiv> \<lparr>local_read = True, local_write = True, remote_read = False, remote_write = True, zero_based = False\<rparr>"

abbreviation demo_mr_table :: MemoryRegionTable where
  "demo_mr_table \<equiv> snd (MemoryRegionTable_register_mr (MemoryRegionTable_new 4) 7 0x1000 16 demo_access)"

theorem rkey_access_sound_witness:
  "\<exists>live. mr_reachable demo_mr_table live \<and> (\<exists>mr \<in> live. mr_rkey mr = 0x101 \<and> mr_pd_handle mr = 7)"
proof -
  have reg: "MemoryRegionTable_register_mr (MemoryRegionTable_new 4) 7 0x1000 16 demo_access = (Some 0x100, demo_mr_table)"
    by (simp add: MemoryRegionTable_register_mr_def MemoryRegionTable_new_def generate_key_def Let_def)
  have "unat (next_key (MemoryRegionTable_new 4)) < 2 ^ 32 - 2" by (simp add: MemoryRegionTable_new_def)
  from mr_reachable.register [OF mr_reachable.init this reg]
  obtain live where r: "mr_reachable demo_mr_table live" by blast
  have "fst (MemoryRegionTable_validate_rkey demo_mr_table 0x101 7 0x1004 12 True)"
    by (simp add: MemoryRegionTable_register_mr_def MemoryRegionTable_new_def generate_key_def um_emplace_def
        MemoryRegionTable_validate_rkey_def MemoryRegionTable_get_by_rkey_def MemoryRegionTable_validate_access_def Let_def)
  from rkey_access_sound [OF r this] r show ?thesis by auto
qed

text \<open>C30: exactly which remote accesses the table grants, whatever was registered, deregistered, checked and reset before: those under the key of a region that was registered and not
  deregistered since, in the requester's protection domain, that start at or above the region's address, ask for a permission the region has, and whose end, relative to the start of the region and computed modulo \<open>2 ^ 64\<close>,
  is within the region's length. The end is compared after it has wrapped: an access that starts above the region and is long enough to
  wrap around the address space is granted too, although not all of its bytes lie in the region.\<close>

theorem rkey_access_exact:
  assumes "mr_reachable t live"
  shows "fst (MemoryRegionTable_validate_rkey t rkey pd address len is_write) \<longleftrightarrow>
    (\<exists>mr \<in> live. mr_rkey mr = rkey \<and> mr_pd_handle mr = pd
      \<and> unat (mr_virtual_address mr) \<le> unat address
      \<and> (unat address - unat (mr_virtual_address mr) + unat len) mod 2 ^ 64 \<le> unat (mr_length mr)
      \<and> (if is_write then remote_write (mr_access mr) else remote_read (mr_access mr)))"
proof -
  note inv = mr_reachable_inv [OF assms]
  have live: "um_lookup (mrs_by_rkey t) rkey = Some mr \<longleftrightarrow> mr \<in> live \<and> mr_rkey mr = rkey" for mr
    using inv by (auto simp: mr_inv_def)
  have valid: "mr_is_valid mr" if "mr \<in> live" for mr using inv that by (simp add: mr_inv_def)
  have offset: "address - va + len \<le> n \<longleftrightarrow> (unat address - unat va + unat len) mod 2 ^ 64 \<le> unat n" if "va \<le> address" for va n :: u64
    using that by (simp add: word_le_nat_alt unat_word_ariths unat_sub)
  have "fst (MemoryRegionTable_validate_rkey t rkey pd address len is_write) \<longleftrightarrow>
    (\<exists>mr. um_lookup (mrs_by_rkey t) rkey = Some mr \<and> mr_pd_handle mr = pd \<and> mr_is_valid mr \<and> mr_virtual_address mr \<le> address
      \<and> address - mr_virtual_address mr + len \<le> mr_length mr
      \<and> (if is_write then remote_write (mr_access mr) else remote_read (mr_access mr)))"
    by (auto simp: validate_rkey_eq split: option.split)
  then show ?thesis unfolding live using valid offset by (auto simp: word_le_nat_alt)
qed

theorem rkey_access_exact_witness:
  "fst (MemoryRegionTable_validate_rkey demo_mr_table 0x101 7 0xFFFFFFFFFFFFFFF8 0x1010 True)
   \<and> \<not> fst (MemoryRegionTable_validate_rkey demo_mr_table 0x101 7 0x1004 13 True)"
proof -
  have reg: "MemoryRegionTable_register_mr (MemoryRegionTable_new 4) 7 0x1000 16 demo_access = (Some 0x100, demo_mr_table)"
    by (simp add: MemoryRegionTable_register_mr_def MemoryRegionTable_new_def generate_key_def Let_def)
  have "unat (next_key (MemoryRegionTable_new 4)) < 2 ^ 32 - 2" by (simp add: MemoryRegionTable_new_def)
  note r = mr_reachable.register [OF mr_reachable.init this reg]
  show ?thesis unfolding rkey_access_exact [OF r] by simp
qed

text \<open>Over any sequence of posts and single polls the RDMA completion queue is the abstract bounded queue:
  completions come out once each, in the order they were accepted, and a post is refused exactly when the
  queue holds its depth.\<close>

theorem rdma_cq_fifo:
  assumes "length (cqes q) \<le> cq_depth q"
    and "fifo_run RdmaCompletionQueue_post RdmaCompletionQueue_poll_one q ops = (accepted, polled, q')"
  shows "spec_run (cq_depth q) (cqes q) ops = (accepted, polled, cqes q') \<and> polled @ cqes q' = cqes q @ accepted"
proof -
  have ok: "\<forall>op \<in> set ops. op_ok (\<lambda>_. True) op" by (metis op_ok.elims(3))
  show ?thesis
    using rcq.run_refines [OF assms(1) ok assms(2)] rcq.run_order [OF assms(1) ok assms(2)] by simp
qed

theorem rdma_cq_fifo_witness:
  "snd (snd (fifo_run RdmaCompletionQueue_post RdmaCompletionQueue_poll_one (RdmaCompletionQueue_new 1 1)
      [Enq RdmaCqe_default, Enq RdmaCqe_default, Deq])) \<in> {q. cqes q = []}"
proof -
  let ?ops = "[Enq RdmaCqe_default, Enq RdmaCqe_default, Deq]" and ?q = "RdmaCompletionQueue_new 1 1"
  obtain a p q' where r: "fifo_run RdmaCompletionQueue_post RdmaCompletionQueue_poll_one ?q ?ops = (a, p, q')"
    by (metis prod_cases3)
  have "length (cqes ?q) \<le> cq_depth ?q" by (simp add: RdmaCompletionQueue_new_def)
  from rdma_cq_fifo [OF this r] have "cqes q' = []" by (auto simp: RdmaCompletionQueue_new_def)
  then show ?thesis unfolding r by simp
qed

end
