(* ===== verification/Rocev2_Segmentation.thy ===== *)
theory Rocev2_Segmentation
  imports Rocev2_Packet Rocev2_Queue_Pair Rocev2_Resources
begin

text \<open>
  What the SEND, WRITE and READ processors (\<^verbatim>\<open>rocev2/send_recv.cpp\<close>, \<^verbatim>\<open>rdma_write.cpp\<close>, \<^verbatim>\<open>rdma_read.cpp\<close>)
  share: the packet count, the loop that cuts a message into packets of the path MTU, the gathering of a
  message from host memory, and the access to host memory without translation. The processors repeat the same
  loop with a different builder in its body, so the builder is a parameter \<open>mk\<close> of the loop here. The theory shows
  that the loop emits one packet per chunk of the message, numbered consecutively, with the first and the last marked.
\<close>

section \<open>Operations\<close>

text \<open>The host memory and the region table a processor refers to, and the queue pair it is called with.\<close>

record RdmaSide =
  side_memory :: SimpleHostMemory
  side_mrs :: MemoryRegionTable
  side_qp :: RdmaQueuePair

definition calculate_packet_count :: "u32 \<Rightarrow> u32 \<Rightarrow> u32" where
  "calculate_packet_count total_length mtu = (if total_length = 0 then 1 else (total_length + mtu - 1) div mtu)"

definition pad_count_of :: "bool \<Rightarrow> nat \<Rightarrow> u8" where
  "pad_count_of is_last payload_size =
     (if is_last then of_nat ((payload_size + 3) div 4 * 4 - payload_size) else 0)"

text \<open>The body's builder gets whether the packet is the first and the last of the message, the sequence number, the
  size of the payload and the payload. The loop returns the packets, the offset it stopped at and the queue pair.\<close>

function packet_loop ::
  "(nat list \<Rightarrow> u64 list \<Rightarrow> bytes) \<Rightarrow> (bool \<Rightarrow> bool \<Rightarrow> u32 \<Rightarrow> bytes \<Rightarrow> RdmaPacketBuilder) \<Rightarrow> nat \<Rightarrow> nat \<Rightarrow> bytes \<Rightarrow>
   nat \<Rightarrow> nat \<Rightarrow> RdmaQueuePair \<Rightarrow> bytes list \<times> nat \<times> RdmaQueuePair" where
  "packet_loop ser mk mtu np data pkt_idx offset qp =
     (if pkt_idx < np then
        let is_first = (pkt_idx = 0);
            is_last = (pkt_idx = np - 1);
            payload_size = min mtu (length data - offset);
            payload = subspan offset payload_size data;
            (psn, qp1) = RdmaQueuePair_next_send_psn qp;
            packet = RdmaPacketBuilder_build ser (mk is_first is_last psn payload);
            qp2 = RdmaQueuePair_record_packet_sent qp1 (length packet);
            (packets, off, qp3) = packet_loop ser mk mtu np data (pkt_idx + 1) (offset + payload_size) qp2
        in (packet # packets, off, qp3)
      else ([], offset, qp))"
  by pat_completeness auto
termination
  by (relation "measure (\<lambda>(ser, mk, mtu, n, data, i, off, qp). n - i)") auto

declare packet_loop.simps [simp del]

text \<open>\<^verbatim>\<open>read_from_sgl\<close>: gather the entries, each validated with the local key first. An error gives the empty vector.\<close>

fun read_from_sgl_loop ::
  "SimpleHostMemory \<Rightarrow> u32 \<Rightarrow> SglEntry list \<Rightarrow> bytes \<Rightarrow> MemoryRegionTable \<Rightarrow> bytes \<times> MemoryRegionTable" where
  "read_from_sgl_loop mem lkey [] data mrs = (data, mrs)"
| "read_from_sgl_loop mem lkey (e # es) data mrs =
     (let (ok, mrs1) = MemoryRegionTable_validate_lkey mrs lkey (sge_address e) (of_nat (sge_length e)) False in
      if \<not> ok then ([], mrs1)
      else let (r, bs) = SimpleHostMemory_read mem (sge_address e) (replicate (sge_length e) 0)
           in if \<not> HostMemoryResult_ok r then ([], mrs1)
              else read_from_sgl_loop mem lkey es (data @ bs) mrs1)"

definition read_from_sgl :: "SimpleHostMemory \<Rightarrow> SglEntry list \<Rightarrow> u32 \<Rightarrow> MemoryRegionTable \<Rightarrow> bytes \<times> MemoryRegionTable" where
  "read_from_sgl mem sgl lkey mrs = read_from_sgl_loop mem lkey sgl [] mrs"

text \<open>\<^verbatim>\<open>write_to_sgl\<close>: scatter \<open>data\<close> from the cursor (entry \<open>idx\<close>, offset \<open>off\<close> in it). The READ processor's copy validates the
  local key before each write, the SEND processor's does not: \<open>lkey\<close> is the key to validate, if any. The result is the
  number of bytes written, the memory, the region table and the cursor. The offset stays within the entry, so
  the subtraction does not wrap.\<close>

function write_to_sgl ::
  "u32 option \<Rightarrow> SglEntry list \<Rightarrow> bytes \<Rightarrow> nat \<Rightarrow> nat \<Rightarrow> SimpleHostMemory \<Rightarrow> MemoryRegionTable \<Rightarrow>
   nat \<times> SimpleHostMemory \<times> MemoryRegionTable \<times> nat \<times> nat" where
  "write_to_sgl lkey sgl data idx off mem mrs =
     (if data = [] \<or> length sgl \<le> idx then (0, mem, mrs, idx, off)
      else
        let e = sgl ! idx;
            to_write = min (sge_length e - off) (length data);
            dest_addr = sge_address e + of_nat off;
            (ok, mrs1) = (case lkey of None \<Rightarrow> (True, mrs)
              | Some k \<Rightarrow> MemoryRegionTable_validate_lkey mrs k dest_addr (of_nat to_write) True)
        in
        if \<not> ok then (0, mem, mrs1, idx, off)
        else
          let (r, mem1) = SimpleHostMemory_write mem dest_addr (take to_write data) in
          if \<not> HostMemoryResult_ok r then (0, mem1, mrs1, idx, off)
          else
            let (idx1, off1) = (if off + to_write \<ge> sge_length e then (idx + 1, 0) else (idx, off + to_write));
                (n, mem2, mrs2, idx2, off2) = write_to_sgl lkey sgl (drop to_write data) idx1 off1 mem1 mrs1
            in (to_write + n, mem2, mrs2, idx2, off2))"
  by pat_completeness auto
termination
proof (relation "measures [\<lambda>(lkey, sgl, data, idx, off, mem, mrs). length data + (length sgl - idx)]", goal_cases)
  case (2 lkey sgl data idx off mem mrs)
  moreover from 2 have "0 < length data" "idx < length sgl" by auto
  ultimately show ?case by (auto split: if_splits simp del: length_greater_0_conv)
qed simp

declare write_to_sgl.simps [simp del]

section \<open>Chunks of a message\<close>

function chunks :: "nat \<Rightarrow> 'a list \<Rightarrow> 'a list list" where
  "chunks mtu xs = (if xs = [] \<or> mtu = 0 then [] else take mtu xs # chunks mtu (drop mtu xs))"
  by pat_completeness auto
termination
  by (relation "measure (\<lambda>(mtu, xs). length xs)") (auto simp: less_imp_diff_less)

declare chunks.simps [simp del]

lemma chunks_Nil [simp]: "chunks mtu [] = []"
  by (simp add: chunks.simps)

lemma chunks_step: "xs \<noteq> [] \<Longrightarrow> 0 < mtu \<Longrightarrow> chunks mtu xs = take mtu xs # chunks mtu (drop mtu xs)"
  by (simp add: chunks.simps)

lemma chunks_Nil_iff: "0 < mtu \<Longrightarrow> chunks mtu xs = [] \<longleftrightarrow> xs = []"
  by (cases "xs = []") (simp_all add: chunks_step)

lemma concat_chunks: "0 < mtu \<Longrightarrow> concat (chunks mtu xs) = xs"
  by (induction mtu xs rule: chunks.induct) (metis append_take_drop_id bot_nat_0.not_eq_extremum chunks.simps concat.simps)

lemma chunks_bound: "c \<in> set (chunks mtu xs) \<Longrightarrow> c \<noteq> [] \<and> length c \<le> mtu"
proof (induction mtu xs rule: chunks.induct)
  case (1 mtu xs)
  then show ?case by (cases "xs = [] \<or> mtu = 0") (auto simp: chunks_step chunks.simps [of 0])
qed

lemma length_chunks: "0 < mtu \<Longrightarrow> length (chunks mtu xs) = (length xs + mtu - 1) div mtu"
proof (induction mtu xs rule: chunks.induct)
  case (1 mtu xs)
  show ?case
  proof (cases "xs = []")
    case False
    have len: "length (chunks mtu xs) = Suc ((length xs - mtu + mtu - 1) div mtu)"
      using 1 False by (simp add: chunks_step)
    show ?thesis
    proof (cases "length xs \<le> mtu")
      case True
      have "(length xs + mtu - 1) div mtu = Suc ((length xs - 1) div mtu)"
        using False 1(2) div_add_self2 [of mtu "length xs - 1"] by (cases xs) simp_all
      then show ?thesis using len True 1(2) False by (cases xs) auto
    next
      case gt: False
      then have "length xs + mtu - 1 = (length xs - mtu + mtu - 1) + mtu" using 1(2) by simp
      then show ?thesis using len 1(2) by (simp only: div_add_self2)
    qed
  qed (use 1(2) in simp)
qed

lemma packet_count_chunks:
  assumes "length data = unat len" and "len \<noteq> 0" and "0 < unat mtu" and "unat len + unat mtu \<le> 2 ^ 32"
  shows "unat (calculate_packet_count len mtu) = length (chunks (unat mtu) data)"
proof -
  have "unat len + unat mtu - 1 < 2 ^ 32" and l: "0 < unat len" using assms by (simp_all add: unat_gt_0)
  have e: "len + mtu - 1 = len + (mtu - 1)" by simp
  have m: "unat (mtu - 1) = unat mtu - 1" using assms(3) unat_minus_one [of mtu] by fastforce
  moreover from this have "unat (len + (mtu - 1)) = unat len + unat (mtu - 1)"
    using assms(3,4) l m by (simp add: unat_word_ariths)
  ultimately have "unat (len + mtu - 1) = unat len + unat mtu - 1" using assms(3) unfolding e by simp
  then show ?thesis
    using assms by (simp add: calculate_packet_count_def length_chunks unat_div_distrib)
qed

text \<open>The builders of a message, one per chunk, with consecutive sequence numbers.\<close>

fun message_builders :: "(bool \<Rightarrow> bool \<Rightarrow> u32 \<Rightarrow> bytes \<Rightarrow> RdmaPacketBuilder) \<Rightarrow> bool \<Rightarrow> u32 \<Rightarrow> bytes list \<Rightarrow> RdmaPacketBuilder list"
where
  "message_builders mk first psn [] = []"
| "message_builders mk first psn (c # cs) =
     mk first (cs = []) psn c # message_builders mk False (advance_psn psn 1) cs"

lemma unat_advance_of_nat: "unat (advance_psn p (of_nat n)) = (unat p + n) mod 2 ^ 24"
proof -
  have "(2 :: nat) ^ 24 dvd 2 ^ 32" by (rule le_imp_power_dvd) simp
  then have "(unat p + n mod 2 ^ 32) mod 2 ^ 24 = (unat p + n) mod (2 ^ 24 :: nat)"
    by (metis mod_add_right_eq mod_mod_cancel)
  then show ?thesis by (simp add: unat_advance_psn unat_of_nat)
qed

lemma advance_psn_Suc: "advance_psn (advance_psn p 1) (of_nat n) = advance_psn p (of_nat (Suc n))"
proof -
  have "((unat p + 1) mod 2 ^ 24 + n) mod 2 ^ 24 = (unat p + Suc n) mod (2 ^ 24 :: nat)"
    using mod_add_left_eq [of "unat p + 1" "2 ^ 24" n] by (simp only: add_Suc_right add_Suc Suc_eq_plus1 ac_simps)
  then show ?thesis
    unfolding word_unat_eq_iff unat_advance_of_nat unat_advance_psn [of p] by simp
qed

text \<open>The loop is the builders of the chunks, and the queue pair changes in its send sequence number and its
  statistics only.\<close>

lemma packet_loop_chunks:
  assumes "0 < mtu" and "off \<le> length data" and "n = idx + length (chunks mtu (drop off data))" and "psn_ok (sq_psn qp)"
  shows "\<exists>st. packet_loop ser mk mtu n data idx off qp =
    (map (RdmaPacketBuilder_build ser) (message_builders mk (idx = 0) (sq_psn qp) (chunks mtu (drop off data))),
     length data,
     qp\<lparr>sq_psn := advance_psn (sq_psn qp) (of_nat (length (chunks mtu (drop off data)))), qp_stats := st\<rparr>)"
  using assms
proof (induction "length data - off" arbitrary: off idx qp rule: less_induct)
  case less
  show ?case
  proof (cases "off = length data")
    case True
    then show ?thesis
      using less.prems
      by (intro exI [of _ "qp_stats qp"], subst packet_loop.simps) (simp add: advance_psn_0)
  next
    case False
    define k where "k = min mtu (length data - off)"
    define c where "c = take mtu (drop off data)"
    define rest where "rest = chunks mtu (drop (off + k) data)"
    have k: "0 < k" "off + k \<le> length data" using False less.prems by (auto simp: k_def)
    have ch: "chunks mtu (drop off data) = c # rest"
      using less.prems(1,2) False
      by (subst chunks_step) (auto simp: c_def rest_def k_def min_def add.commute intro: arg_cong [of _ _ "chunks mtu"])
    have c: "subspan off k data = c" by (simp add: subspan_def c_def k_def min_def)
    define pkt where "pkt = RdmaPacketBuilder_build ser (mk (idx = 0) (rest = []) (sq_psn qp) c)"
    define qp2 where "qp2 = RdmaQueuePair_record_packet_sent (snd (RdmaQueuePair_next_send_psn qp)) (length pkt)"
    have sq2: "sq_psn qp2 = advance_psn (sq_psn qp) 1"
      by (simp add: qp2_def RdmaQueuePair_record_packet_sent_def RdmaQueuePair_next_send_psn_def)
    have n: "n = Suc idx + length rest" using less.prems(3) ch by simp
    have ok2: "psn_ok (sq_psn qp2)" by (simp add: sq2)
    have smaller: "length data - (off + k) < length data - off" using k by simp
    obtain st where IH: "packet_loop ser mk mtu n data (Suc idx) (off + k) qp2 =
        (map (RdmaPacketBuilder_build ser) (message_builders mk False (sq_psn qp2) rest), length data,
         qp2\<lparr>sq_psn := advance_psn (sq_psn qp2) (of_nat (length rest)), qp_stats := st\<rparr>)"
      using less.hyps [OF smaller less.prems(1) k(2) _ ok2, of "Suc idx"] n rest_def by auto
    have lst: "(idx = n - 1) = (rest = [])" using n by auto
    have step: "packet_loop ser mk mtu n data idx off qp =
        (let (ps, o', q) = packet_loop ser mk mtu n data (Suc idx) (off + k) qp2 in (pkt # ps, o', q))"
      using n lst c by (subst packet_loop.simps)
        (simp add: k_def [symmetric] pkt_def qp2_def RdmaQueuePair_next_send_psn_def Let_def)
    have "qp2\<lparr>sq_psn := advance_psn (sq_psn qp2) (of_nat (length rest)), qp_stats := st\<rparr>
        = qp\<lparr>sq_psn := advance_psn (sq_psn qp) (of_nat (length (c # rest))), qp_stats := st\<rparr>"
      using advance_psn_Suc [of "sq_psn qp" "length rest"]
      by (simp add: sq2, simp add: qp2_def RdmaQueuePair_record_packet_sent_def RdmaQueuePair_next_send_psn_def)
    then show ?thesis unfolding step IH ch by (auto simp: pkt_def sq2)
  qed
qed

lemma packet_loop_message:
  assumes "0 < mtu" and "n = length (chunks mtu data)" and "psn_ok (sq_psn qp)"
  shows "\<exists>st. packet_loop ser mk mtu n data 0 0 qp =
    (map (RdmaPacketBuilder_build ser) (message_builders mk True (sq_psn qp) (chunks mtu data)), length data,
     qp\<lparr>sq_psn := advance_psn (sq_psn qp) (of_nat (length (chunks mtu data))), qp_stats := st\<rparr>)"
  using packet_loop_chunks [OF assms(1) _ _ assms(3), of 0 data n 0] assms(2) by simp

section \<open>Untranslated memory\<close>

definition mem_flat :: "SimpleHostMemory \<Rightarrow> bool" where
  "mem_flat m \<longleftrightarrow> translator m = None \<and> fault_injector m = None \<and> length (mem_buffer m) < 2 ^ 64"

lemma flat_access:
  "mem_flat m \<Longrightarrow> hm_access m a n = (if unat a + n \<le> length (mem_buffer m) then Some (unat a) else None)"
  by (auto simp: mem_flat_def hm_access_def SimpleHostMemory_translate_view_def Let_def)

lemma flat_write:
  assumes "mem_flat m" and "unat a + length d \<le> length (mem_buffer m)"
  shows "SimpleHostMemory_write m a d =
    (\<lparr>hm_error = HmNone, hm_bytes_processed = length d\<rparr>, m\<lparr>mem_buffer := memcpy_at (unat a) d (mem_buffer m)\<rparr>)"
  using assms flat_access [of m a "length d"]
  by (cases rule: shm_write_cases [of m a d]) (simp_all add: mem_wr_eq)

lemma flat_memcpy:
  "mem_flat m \<Longrightarrow> off + length d \<le> length (mem_buffer m) \<Longrightarrow> mem_flat (m\<lparr>mem_buffer := memcpy_at off d (mem_buffer m)\<rparr>)"
  by (simp add: mem_flat_def)

lemma ucast_of_nat32: "n < 2 ^ 32 \<Longrightarrow> (ucast (of_nat n :: u32) :: u64) = of_nat n"
  by (simp add: word_unat_eq_iff unat_ucast_up unat_of_nat)

lemma unat_of_nat64: "n < 2 ^ 64 \<Longrightarrow> unat (of_nat n :: u64) = n"
  by (simp add: unat_of_nat)

lemma memcpy_at_twice:
  assumes "off + length xs + length ys \<le> length m"
  shows "memcpy_at (off + length xs) ys (memcpy_at off xs m) = memcpy_at off (xs @ ys) m"
  using assms by (simp add: memcpy_at_def ac_simps)

section \<open>Ranges a remote key grants\<close>

lemma validate_rkey_frame [simp]: "mrs_by_rkey (snd (MemoryRegionTable_validate_rkey t k pd a n w)) = mrs_by_rkey t"
  by (auto simp: MemoryRegionTable_validate_rkey_def access_error_def Let_def split: option.splits)

lemma validate_lkey_frame [simp]:
  "mrs_by_lkey (snd (MemoryRegionTable_validate_lkey t k a n w)) = mrs_by_lkey t"
  "mrs_by_rkey (snd (MemoryRegionTable_validate_lkey t k a n w)) = mrs_by_rkey t"
  by (auto simp: MemoryRegionTable_validate_lkey_def access_error_def Let_def split: option.splits)

lemma validate_lkey_eq:
  "fst (MemoryRegionTable_validate_lkey t k a n w) \<longleftrightarrow>
     (case um_lookup (mrs_by_lkey t) k of None \<Rightarrow> False
      | Some mr \<Rightarrow> mr_is_valid mr \<and> mr_virtual_address mr \<le> a \<and> a - mr_virtual_address mr + n \<le> mr_length mr
          \<and> (if w then local_write (mr_access mr) else local_read (mr_access mr)))"
  by (auto simp: MemoryRegionTable_validate_lkey_def MemoryRegionTable_validate_access_def MemoryRegionTable_get_by_lkey_def
      access_error_def Let_def not_less not_le split: option.splits)

text \<open>The bounds check passes for a part of a range that does not wrap when it passes for the range.\<close>

lemma range_sub:
  fixes a d va len n size :: u64
  assumes "va \<le> a" and "a - va + len \<le> size" and nowrap: "unat a + unat len < 2 ^ 64" and sub: "unat d + unat n \<le> unat len"
  shows "va \<le> a + d \<and> a + d - va + n \<le> size"
proof -
  have ad: "unat (a + d) = unat a + unat d" using nowrap sub by (simp add: unat_word_ariths)
  have le: "va \<le> a + d" using assms(1) ad by (simp add: word_le_nat_alt)
  have "unat (a - va) = unat a - unat va" using assms(1) by (rule unat_sub)
  then have l: "unat (a - va + len) = unat a - unat va + unat len"
    using nowrap by (simp add: unat_word_ariths)
  have "unat (a + d - va) = unat a + unat d - unat va" using unat_sub [OF le] ad by simp
  then have "unat (a + d - va + n) = unat a + unat d - unat va + unat n"
    using nowrap sub by (simp add: unat_word_ariths)
  then have "a + d - va + n \<le> size"
    using assms(1,2) l sub unfolding word_le_nat_alt by linarith
  with le show ?thesis by simp
qed

lemma validate_rkey_sub:
  assumes "fst (MemoryRegionTable_validate_rkey t k pd a len w)" and "unat a + unat len < 2 ^ 64"
    and "unat d + unat n \<le> unat len" and "mrs_by_rkey t' = mrs_by_rkey t"
  shows "fst (MemoryRegionTable_validate_rkey t' k pd (a + d) n w)"
  using assms range_sub [OF _ _ assms(2,3)] by (auto simp: validate_rkey_eq split: option.splits)

lemma validate_lkey_sub:
  assumes "fst (MemoryRegionTable_validate_lkey t k a len w)" and "unat a + unat len < 2 ^ 64"
    and "unat d + unat n \<le> unat len" and "mrs_by_lkey t' = mrs_by_lkey t"
  shows "fst (MemoryRegionTable_validate_lkey t' k (a + d) n w)"
  using assms range_sub [OF _ _ assms(2,3)] by (auto simp: validate_lkey_eq split: option.splits)

section \<open>From packets to parsers\<close>

text \<open>A receiver drops what does not parse.\<close>

definition parse_all :: "(nat list \<Rightarrow> bytes \<Rightarrow> u64 list) \<Rightarrow> bytes list \<Rightarrow> RdmaPacketParser list" where
  "parse_all des packets = List.map_filter (RdmaPacketParser_parse des) packets"

definition sound_builder :: "RdmaPacketBuilder \<Rightarrow> bool" where
  "sound_builder b \<longleftrightarrow> builder_reachable b \<and> (has_immediate_variant (b_opcode b) \<longrightarrow> b_has_immediate b)"

lemma parse_all_built:
  assumes "bit_packer ser des" and "\<forall>b \<in> set bs. sound_builder b"
  shows "parse_all des (map (RdmaPacketBuilder_build ser) bs) = map parsed_builder bs"
  using assms(2)
proof (induction bs)
  case (Cons b bs)
  then have "RdmaPacketParser_parse des (RdmaPacketBuilder_build ser b) = Some (parsed_builder b)"
    by (intro bit_packer.parse_built [OF assms(1)]) (auto simp: sound_builder_def builder_reachable_ok)
  with Cons show ?case by (simp add: parse_all_def map_filter_simps)
qed (simp add: parse_all_def map_filter_simps)

lemma message_builders_all:
  assumes "\<And>f l p c. P (mk f l p c)" shows "\<forall>b \<in> set (message_builders mk f psn cs). P b"
  using assms by (induction cs arbitrary: f psn) auto

lemma length_message_builders [simp]: "length (message_builders mk f psn cs) = length cs"
  by (induction cs arbitrary: f psn) auto

lemma mtu_bounds: "0 < unat (RdmaQueuePair_mtu_bytes q)" "unat (RdmaQueuePair_mtu_bytes q) \<le> 4096"
  by (auto simp: RdmaQueuePair_mtu_bytes_def)

section \<open>Scattering\<close>

text \<open>The physical bytes a scatter-gather list names, in order, and the writing of data to such bytes one by one.\<close>

definition sge_bytes :: "SglEntry \<Rightarrow> nat list" where
  "sge_bytes e = [unat (sge_address e) ..< unat (sge_address e) + sge_length e]"

definition sgl_bytes :: "SglEntry list \<Rightarrow> nat list" where
  "sgl_bytes sgl = concat (map sge_bytes sgl)"

fun poke :: "nat list \<Rightarrow> 'a list \<Rightarrow> 'a list \<Rightarrow> 'a list" where
  "poke (i # is) (x # xs) m = poke is xs (m[i := x])"
| "poke _ _ m = m"

lemma length_poke [simp]: "length (poke is xs m) = length m"
  by (induction "is" xs m rule: poke.induct) simp_all

lemma poke_append: "length is = length xs \<Longrightarrow> poke (is @ js) (xs @ ys) m = poke js ys (poke is xs m)"
  by (induction "is" xs m rule: poke.induct) simp_all

lemma poke_twice:
  assumes "k + length c + length d \<le> length bs"
  shows "poke (take (length d) (drop (k + length c) bs)) d (poke (take (length c) (drop k bs)) c m) =
    poke (take (length (c @ d)) (drop k bs)) (c @ d) m"
proof -
  have "take (length c + length d) (drop k bs) = take (length c) (drop k bs) @ take (length d) (drop (k + length c) bs)"
    using take_add [of "length c" "length d" "drop k bs"] by (simp add: add.commute)
  moreover have "length (take (length c) (drop k bs)) = length c" using assms by simp
  ultimately show ?thesis by (simp add: poke_append)
qed

lemma poke_outside: "j \<notin> set (take (length xs) is) \<Longrightarrow> poke is xs m ! j = m ! j"
  by (induction "is" xs m rule: poke.induct) auto

text \<open>Read back at the same distinct positions, poked data is what was poked.\<close>

lemma poke_read:
  "distinct is \<Longrightarrow> length is = length xs \<Longrightarrow> \<forall>i \<in> set is. i < length m \<Longrightarrow> map ((!) (poke is xs m)) is = xs"
proof (induction "is" xs m rule: poke.induct)
  case (1 i "is" x xs m)
  then have "poke is xs (m[i := x]) ! i = m[i := x] ! i" by (intro poke_outside) simp
  with 1 show ?case by simp
qed simp_all

lemma memcpy_at_poke: "off + length xs \<le> length m \<Longrightarrow> memcpy_at off xs m = poke [off ..< off + length xs] xs m"
proof (induction xs arbitrary: off m)
  case (Cons x xs)
  have "memcpy_at off (x # xs) m = memcpy_at (Suc off) xs (m[off := x])"
    using Cons.prems by (simp add: memcpy_at_def upd_conv_take_nth_drop take_Suc_conv_app_nth ac_simps)
  also have "\<dots> = poke [Suc off ..< Suc off + length xs] xs (m[off := x])" using Cons by simp
  finally show ?case by (simp add: upt_conv_Cons del: upt_Suc)
qed simp

text \<open>The cursor \<open>(idx, off)\<close> stands at byte \<open>k\<close> of the list.\<close>

definition at_byte :: "SglEntry list \<Rightarrow> nat \<Rightarrow> nat \<Rightarrow> nat \<Rightarrow> bool" where
  "at_byte sgl idx off k \<longleftrightarrow> idx \<le> length sgl \<and> k = length (sgl_bytes (take idx sgl)) + off
     \<and> (if idx < length sgl then off \<le> sge_length (sgl ! idx) else off = 0)"

lemma at_byte_0: "at_byte sgl 0 0 0"
  by (simp add: at_byte_def sgl_bytes_def)

lemma sgl_bytes_split:
  "idx < length sgl \<Longrightarrow> sgl_bytes sgl = sgl_bytes (take idx sgl) @ sge_bytes (sgl ! idx) @ sgl_bytes (drop (Suc idx) sgl)"
  by (subst id_take_nth_drop [of idx sgl]) (simp_all add: sgl_bytes_def)

lemma at_byte_step:
  assumes "at_byte sgl idx off k" and "idx < length sgl" and "w = min (sge_length (sgl ! idx) - off) n"
    and "(idx1, off1) = (if off + w \<ge> sge_length (sgl ! idx) then (idx + 1, 0) else (idx, off + w))"
  shows "at_byte sgl idx1 off1 (k + w)" "take w (drop k (sgl_bytes sgl)) = [unat (sge_address (sgl ! idx)) + off ..<
      unat (sge_address (sgl ! idx)) + off + w]"
proof -
  have k: "k = length (sgl_bytes (take idx sgl)) + off" "off \<le> sge_length (sgl ! idx)" using assms(1,2) by (simp_all add: at_byte_def)
  have suc: "length (sgl_bytes (take (Suc idx) sgl)) = length (sgl_bytes (take idx sgl)) + sge_length (sgl ! idx)"
    using assms(2) by (simp add: sgl_bytes_def take_Suc_conv_app_nth sge_bytes_def)
  show "at_byte sgl idx1 off1 (k + w)"
    using assms(2-4) k suc by (auto simp: at_byte_def split: if_splits)
  have "drop k (sgl_bytes sgl) = drop off (sge_bytes (sgl ! idx)) @ sgl_bytes (drop (Suc idx) sgl)"
    using k by (subst sgl_bytes_split [OF assms(2)]) (simp add: sge_bytes_def)
  then show "take w (drop k (sgl_bytes sgl)) = [unat (sge_address (sgl ! idx)) + off ..< unat (sge_address (sgl ! idx)) + off + w]"
    using k(2) assms(3) by (simp add: sge_bytes_def take_upt)
qed
text \<open>Every entry lies in the memory and, where a key is validated, within its region.\<close>

definition sgl_target :: "u32 option \<Rightarrow> SglEntry list \<Rightarrow> SimpleHostMemory \<Rightarrow> MemoryRegionTable \<Rightarrow> bool" where
  "sgl_target lkey sgl mem mrs \<longleftrightarrow> mem_flat mem \<and>
     (\<forall>e \<in> set sgl. unat (sge_address e) + sge_length e \<le> length (mem_buffer mem) \<and>
        (case lkey of None \<Rightarrow> True
         | Some k \<Rightarrow> fst (MemoryRegionTable_validate_lkey mrs k (sge_address e) (of_nat (sge_length e)) True)))"

lemma sgl_target_mono:
  assumes "sgl_target lkey sgl mem mrs" and "mem_flat mem'" and "length (mem_buffer mem') = length (mem_buffer mem)"
    and "mrs_by_lkey mrs' = mrs_by_lkey mrs"
  shows "sgl_target lkey sgl mem' mrs'"
  using assms by (cases lkey) (simp_all add: sgl_target_def validate_lkey_eq)

lemma sgl_write_step:
  assumes t: "sgl_target lkey sgl mem mrs" and idx: "idx < length sgl" "off + w \<le> sge_length (sgl ! idx)"
    and d: "length d = w"
  obtains mrs1 where "(case lkey of None \<Rightarrow> (True, mrs)
      | Some k \<Rightarrow> MemoryRegionTable_validate_lkey mrs k (sge_address (sgl ! idx) + of_nat off) (of_nat w) True) = (True, mrs1)"
    "mrs_by_lkey mrs1 = mrs_by_lkey mrs" "mrs_by_rkey mrs1 = mrs_by_rkey mrs"
    "SimpleHostMemory_write mem (sge_address (sgl ! idx) + of_nat off) d = (\<lparr>hm_error = HmNone, hm_bytes_processed = w\<rparr>,
       mem\<lparr>mem_buffer := memcpy_at (unat (sge_address (sgl ! idx)) + off) d (mem_buffer mem)\<rparr>)"
proof -
  let ?e = "sgl ! idx"
  have e: "?e \<in> set sgl" using idx by simp
  have flat: "mem_flat mem" and fit: "unat (sge_address ?e) + sge_length ?e \<le> length (mem_buffer mem)"
    using t e by (auto simp: sgl_target_def)
  then have lt: "unat (sge_address ?e) + sge_length ?e < 2 ^ 64" by (simp add: mem_flat_def)
  have u: "unat (of_nat off :: u64) = off" "unat (of_nat w :: u64) = w" "unat (of_nat (sge_length ?e) :: u64) = sge_length ?e"
    using lt idx(2) by (simp_all add: unat_of_nat64)
  have a: "unat (sge_address ?e + of_nat off) = unat (sge_address ?e) + off" using lt idx(2) u by (simp add: unat_word_ariths)
  have wr: "SimpleHostMemory_write mem (sge_address ?e + of_nat off) d = (\<lparr>hm_error = HmNone, hm_bytes_processed = w\<rparr>,
       mem\<lparr>mem_buffer := memcpy_at (unat (sge_address ?e) + off) d (mem_buffer mem)\<rparr>)"
    using flat_write [OF flat, of "sge_address ?e + of_nat off" d] fit idx(2) a d by simp
  show thesis
  proof (cases lkey)
    case None
    then show thesis using that [of mrs] wr by simp
  next
    case (Some k)
    then have "fst (MemoryRegionTable_validate_lkey mrs k (sge_address ?e) (of_nat (sge_length ?e)) True)"
      using t e by (auto simp: sgl_target_def)
    then have "fst (MemoryRegionTable_validate_lkey mrs k (sge_address ?e + of_nat off) (of_nat w) True)"
      by (rule validate_lkey_sub) (use lt u idx(2) in auto)
    then have "MemoryRegionTable_validate_lkey mrs k (sge_address ?e + of_nat off) (of_nat w) True =
        (True, snd (MemoryRegionTable_validate_lkey mrs k (sge_address ?e + of_nat off) (of_nat w) True))"
      by (simp add: prod_eq_iff)
    then show thesis
      using Some wr that [of "snd (MemoryRegionTable_validate_lkey mrs k (sge_address ?e + of_nat off) (of_nat w) True)"]
      by simp
  qed
qed

text \<open>Scattering from byte \<open>k\<close> writes all of the data, to the next bytes of the list.\<close>

lemma write_to_sgl_pokes:
  assumes "sgl_target lkey sgl mem mrs" and "at_byte sgl idx off k" and "k + length data \<le> length (sgl_bytes sgl)"
  shows "\<exists>mrs' idx' off'. write_to_sgl lkey sgl data idx off mem mrs =
      (length data, mem\<lparr>mem_buffer := poke (take (length data) (drop k (sgl_bytes sgl))) data (mem_buffer mem)\<rparr>, mrs', idx', off')
    \<and> at_byte sgl idx' off' (k + length data) \<and> mrs_by_lkey mrs' = mrs_by_lkey mrs \<and> mrs_by_rkey mrs' = mrs_by_rkey mrs"
  using assms
proof (induction "length data + (length sgl - idx)" arbitrary: data idx off k mem mrs rule: less_induct)
  case less
  show ?case
  proof (cases "data = []")
    case True
    then show ?thesis using less.prems by (subst write_to_sgl.simps) simp
  next
    case False
    then have idx: "idx < length sgl"
      using less.prems(2,3) by (cases "idx = length sgl") (auto simp: at_byte_def)
    define w where "w = min (sge_length (sgl ! idx) - off) (length data)"
    define ix where "ix = (if off + w \<ge> sge_length (sgl ! idx) then (idx + 1, 0) else (idx, off + w))"
    define mem1 where "mem1 = mem\<lparr>mem_buffer := poke (take w (drop k (sgl_bytes sgl))) (take w data) (mem_buffer mem)\<rparr>"
    obtain idx1 off1 where ix: "(idx1, off1) = ix" by (metis surj_pair)
    have w: "off + w \<le> sge_length (sgl ! idx)" "length (take w data) = w"
      using less.prems(2) idx by (auto simp: at_byte_def w_def)
    note step = at_byte_step [OF less.prems(2) idx w_def ix [unfolded ix_def]]
    obtain mrs1 where v: "(case lkey of None \<Rightarrow> (True, mrs)
        | Some k \<Rightarrow> MemoryRegionTable_validate_lkey mrs k (sge_address (sgl ! idx) + of_nat off) (of_nat w) True) = (True, mrs1)"
      and m1: "mrs_by_lkey mrs1 = mrs_by_lkey mrs" "mrs_by_rkey mrs1 = mrs_by_rkey mrs"
      and wr: "SimpleHostMemory_write mem (sge_address (sgl ! idx) + of_nat off) (take w data) =
        (\<lparr>hm_error = HmNone, hm_bytes_processed = w\<rparr>,
         mem\<lparr>mem_buffer := memcpy_at (unat (sge_address (sgl ! idx)) + off) (take w data) (mem_buffer mem)\<rparr>)"
      using sgl_write_step [OF less.prems(1) idx w] by metis
    have "unat (sge_address (sgl ! idx)) + sge_length (sgl ! idx) \<le> length (mem_buffer mem)"
      using less.prems(1) nth_mem [OF idx] unfolding sgl_target_def by blast
    then have "unat (sge_address (sgl ! idx)) + off + w \<le> length (mem_buffer mem)" using w(1) by linarith
    then have wr1: "SimpleHostMemory_write mem (sge_address (sgl ! idx) + of_nat off) (take w data) =
        (\<lparr>hm_error = HmNone, hm_bytes_processed = w\<rparr>, mem1)"
      using wr w(2) step(2) by (simp add: mem1_def memcpy_at_poke)
    have go: "\<not> (data = [] \<or> length sgl \<le> idx)" using False idx by simp
    have run: "write_to_sgl lkey sgl data idx off mem mrs =
        (case write_to_sgl lkey sgl (drop w data) idx1 off1 mem1 mrs1 of (n, m, r, i, j) \<Rightarrow> (w + n, m, r, i, j))"
      by (subst write_to_sgl.simps)
        (simp only: go if_False Let_def w_def [symmetric] v prod.case simp_thms wr1 HostMemoryResult_ok_simp
          ix_def [symmetric] ix [symmetric])
    have t1: "sgl_target lkey sgl mem1 mrs1"
      by (rule sgl_target_mono [OF less.prems(1)]) (use less.prems(1) m1 in \<open>simp_all add: mem1_def sgl_target_def mem_flat_def\<close>)
    have small: "length (drop w data) + (length sgl - idx1) < length data + (length sgl - idx)"
    proof -
      have "0 < length data" using False by simp
      then show ?thesis
        using idx ix by (auto simp: ix_def w_def min_def split: if_splits simp del: length_greater_0_conv)
    qed
    have le: "w \<le> length data" by (simp add: w_def)
    have "k + w + length (drop w data) \<le> length (sgl_bytes sgl)" using less.prems(3) le by simp
    note IH = less.hyps [OF small t1 step(1) this]
    have "take (length data) (drop k (sgl_bytes sgl)) =
        take w (drop k (sgl_bytes sgl)) @ take (length data - w) (drop (k + w) (sgl_bytes sgl))"
      using take_add [of w "length data - w" "drop k (sgl_bytes sgl)"] le by (simp add: add.commute)
    then have "poke (take (length data) (drop k (sgl_bytes sgl))) data (mem_buffer mem) =
        poke (take (length data - w) (drop (k + w) (sgl_bytes sgl))) (drop w data) (mem_buffer mem1)"
      using poke_append [of "take w (drop k (sgl_bytes sgl))" "take w data" "take (length data - w) (drop (k + w) (sgl_bytes sgl))"
          "drop w data" "mem_buffer mem"] less.prems(3) le by (simp add: mem1_def)
    then show ?thesis using IH m1 le unfolding run by (auto simp: mem1_def)
  qed
qed

section \<open>A sample side\<close>

text \<open>A small untranslated memory, one region of eight bytes at address 4 with every permission under the keys
  0x100 and 0x101, and a queue pair that is ready to send with one receive request posted.\<close>

definition sample_memory :: "bytes \<Rightarrow> SimpleHostMemory" where
  "sample_memory bs = (SimpleHostMemory_new \<lparr>size_bytes = 0, page_size = 4096, iommu_enabled = False\<rparr> None None)\<lparr>mem_buffer := bs\<rparr>"

definition sample_mrs :: MemoryRegionTable where
  "sample_mrs = snd (MemoryRegionTable_register_mr (MemoryRegionTable_new 4) 0 4 8
     \<lparr>local_read = True, local_write = True, remote_read = True, remote_write = True, zero_based = False\<rparr>)"

definition sample_recv :: RecvWqe where
  "sample_recv = \<lparr>rwqe_wr_id = 77, rwqe_sgl = [\<lparr>sge_address = 4, sge_length = 2\<rparr>, \<lparr>sge_address = 8, sge_length = 3\<rparr>], rwqe_total_length = 5\<rparr>"

definition sample_side :: "bytes \<Rightarrow> RdmaSide" where
  "sample_side bs = \<lparr>side_memory = sample_memory bs, side_mrs = sample_mrs,
     side_qp = (RdmaQueuePair_new 1 RdmaQpConfig_default)\<lparr>qp_state := QpRts, recv_queue := [sample_recv]\<rparr>\<rparr>"

lemmas sample_defs = sample_side_def sample_memory_def SimpleHostMemory_new_def RdmaQueuePair_new_def RdmaQpConfig_default_def

lemma sample_flat: "length bs < 2 ^ 64 \<Longrightarrow> mem_flat (side_memory (sample_side bs))"
  by (simp add: mem_flat_def sample_defs)

lemma sample_mrs_maps:
  "mrs_by_rkey sample_mrs = [(0x101, \<lparr>mr_lkey = 0x100, mr_rkey = 0x101, mr_virtual_address = 4, mr_length = 8,
     mr_pd_handle = 0, mr_access = \<lparr>local_read = True, local_write = True, remote_read = True, remote_write = True,
     zero_based = False\<rparr>, mr_is_valid = True\<rparr>)]"
  "mrs_by_lkey sample_mrs = [(0x100, \<lparr>mr_lkey = 0x100, mr_rkey = 0x101, mr_virtual_address = 4, mr_length = 8,
     mr_pd_handle = 0, mr_access = \<lparr>local_read = True, local_write = True, remote_read = True, remote_write = True,
     zero_based = False\<rparr>, mr_is_valid = True\<rparr>)]"
  by (simp_all add: sample_mrs_def MemoryRegionTable_register_mr_def MemoryRegionTable_new_def generate_key_def
      um_emplace_def Let_def)

lemma sample_read:
  "fst (read_from_sgl (side_memory (sample_side [0, 1, 2, 3, 4, 5, 6, 7, 8, 9, 10, 11])) [\<lparr>sge_address = 5, sge_length = 3\<rparr>]
      0x100 (side_mrs (sample_side bs))) = [5, 6, 7]"
proof -
  have rd: "SimpleHostMemory_read (side_memory (sample_side [0, 1, 2, 3, 4, 5, 6, 7, 8, 9, 10, 11])) 5 [0, 0, 0] =
      (\<lparr>hm_error = HmNone, hm_bytes_processed = 3\<rparr>, [5, 6, 7])"
    by (simp add: sample_defs SimpleHostMemory_read_def SimpleHostMemory_translate_view_def subspan_def Let_def)
  obtain mrs1 where v: "MemoryRegionTable_validate_lkey sample_mrs 0x100 5 3 False = (True, mrs1)"
    by (simp add: MemoryRegionTable_validate_lkey_def MemoryRegionTable_get_by_lkey_def MemoryRegionTable_validate_access_def
        sample_mrs_maps Let_def)
  have m: "side_mrs (sample_side bs) = sample_mrs" by (simp add: sample_side_def)
  show ?thesis
    using rd v by (simp add: read_from_sgl_def m numeral_3_eq_3)
qed

end
