(* ===== verification/Rocev2_Send_Recv.thy ===== *)
theory Rocev2_Send_Recv
  imports Rocev2_Segmentation
begin

text \<open>
  The SEND/RECV processor (\<^verbatim>\<open>rocev2/send_recv.h/.cpp\<close>): the sender cuts the buffer of a work request into packets,
  the receiver consumes a receive request per message and scatters the payloads over its list. The theory shows that a
  send arrives: its packets, processed in order, put the sender's bytes into the bytes the receive request's list names,
  in order, and complete that request; and that a packet out of sequence changes nothing but a counter.
\<close>

section \<open>Data\<close>

record RecvResult =
  r_success :: bool
  r_needs_ack :: bool
  r_is_message_complete :: bool
  r_ack_psn :: u32
  r_syndrome :: AethSyndrome
  r_cqe :: "RdmaCqe option"

definition RecvResult_default :: RecvResult where
  "RecvResult_default = \<lparr>r_success = False, r_needs_ack = False, r_is_message_complete = False, r_ack_psn = 0,
     r_syndrome = asAck, r_cqe = None\<rparr>"

record RecvMessageState =
  rms_wr_id :: u64
  rms_bytes_received :: u32
  rms_expected_psn :: u32
  rms_sgl :: "SglEntry list"
  rms_current_sge_idx :: nat
  rms_sge_offset :: nat
  rms_in_progress :: bool
  rms_immediate_data :: u32
  rms_has_immediate :: bool

definition RecvMessageState_default :: RecvMessageState where
  "RecvMessageState_default = \<lparr>rms_wr_id = 0, rms_bytes_received = 0, rms_expected_psn = 0, rms_sgl = [],
     rms_current_sge_idx = 0, rms_sge_offset = 0, rms_in_progress = False, rms_immediate_data = 0,
     rms_has_immediate = False\<rparr>"

record SendRecvStats =
  sends_started :: u64
  sends_completed :: u64
  recvs_completed :: u64
  send_packets_generated :: u64
  recv_packets_processed :: u64
  srs_rnr_naks_sent :: u64
  srs_sequence_errors :: u64
  srs_bytes_sent :: u64
  srs_bytes_received :: u64

definition SendRecvStats_zero :: SendRecvStats where
  "SendRecvStats_zero = \<lparr>sends_started = 0, sends_completed = 0, recvs_completed = 0, send_packets_generated = 0,
     recv_packets_processed = 0, srs_rnr_naks_sent = 0, srs_sequence_errors = 0, srs_bytes_sent = 0, srs_bytes_received = 0\<rparr>"

record SendRecvProcessor =
  sr_stats :: SendRecvStats
  recv_states :: "(u32 \<times> RecvMessageState) list"

definition SendRecvProcessor_new :: SendRecvProcessor where
  "SendRecvProcessor_new = \<lparr>sr_stats = SendRecvStats_zero, recv_states = []\<rparr>"

section \<open>Sender\<close>

definition get_send_opcode :: "bool \<Rightarrow> bool \<Rightarrow> bool \<Rightarrow> RdmaOpcode" where
  "get_send_opcode is_first is_last has_immediate =
     (if is_first \<and> is_last then (if has_immediate then kRcSendOnlyImm else kRcSendOnly)
      else if is_first then kRcSendFirst
      else if is_last then (if has_immediate then kRcSendLastImm else kRcSendLast)
      else kRcSendMiddle)"

definition send_builder :: "u32 \<Rightarrow> SendWqe \<Rightarrow> bool \<Rightarrow> bool \<Rightarrow> bool \<Rightarrow> u32 \<Rightarrow> bytes \<Rightarrow> RdmaPacketBuilder" where
  "send_builder dest_qp wqe has_immediate is_first is_last psn payload =
     (let b = set_payload payload (set_ack_request is_last (set_solicited_event (solicited wqe \<and> is_last)
            (set_pad_count (pad_count_of is_last (length payload)) (set_psn psn (set_dest_qp dest_qp
              (set_opcode (get_send_opcode is_first is_last (has_immediate \<and> is_last)) RdmaPacketBuilder_new))))))
      in if has_immediate \<and> is_last then set_immediate (swqe_immediate_data wqe) b else b)"

definition zero_send_builder :: "u32 \<Rightarrow> SendWqe \<Rightarrow> bool \<Rightarrow> u32 \<Rightarrow> RdmaPacketBuilder" where
  "zero_send_builder dest_qp wqe has_immediate psn =
     (let b = set_ack_request True (set_solicited_event (solicited wqe) (set_psn psn (set_dest_qp dest_qp
                (set_opcode (if has_immediate then kRcSendOnlyImm else kRcSendOnly) RdmaPacketBuilder_new))))
      in if has_immediate then set_immediate (swqe_immediate_data wqe) b else b)"

definition generate_send_packets ::
  "(nat list \<Rightarrow> u64 list \<Rightarrow> bytes) \<Rightarrow> SendRecvProcessor \<Rightarrow> RdmaSide \<Rightarrow> SendWqe \<Rightarrow> bytes list \<times> SendRecvProcessor \<times> RdmaSide"
where
  "generate_send_packets ser p s wqe =
     (if swqe_opcode wqe \<noteq> WqSend \<and> swqe_opcode wqe \<noteq> WqSendImm then ([], p, s)
      else
        let (data, mrs1) = read_from_sgl (side_memory s) (swqe_sgl wqe) (local_lkey wqe) (side_mrs s);
            s1 = s\<lparr>side_mrs := mrs1\<rparr>
        in
        if length data \<noteq> unat (swqe_total_length wqe) then ([], p, s1)
        else
          let qp = side_qp s;
              mtu = RdmaQueuePair_mtu_bytes qp;
              np = calculate_packet_count (swqe_total_length wqe) mtu;
              has_immediate = (swqe_opcode wqe = WqSendImm);
              st = (sr_stats p)\<lparr>sends_started := sends_started (sr_stats p) + 1\<rparr>
          in
          if swqe_total_length wqe = 0 then
            let (psn, qp1) = RdmaQueuePair_next_send_psn qp;
                packet = RdmaPacketBuilder_build ser (zero_send_builder (dest_qp_number qp) wqe has_immediate psn);
                qp2 = RdmaQueuePair_add_pending_operation qp1 wqe 1;
                qp3 = RdmaQueuePair_record_packet_sent qp2 (length packet)
            in ([packet], p\<lparr>sr_stats := st\<lparr>send_packets_generated := send_packets_generated st + 1\<rparr>\<rparr>, s1\<lparr>side_qp := qp3\<rparr>)
          else
            let (packets, off, qp1) = packet_loop ser (send_builder (dest_qp_number qp) wqe has_immediate)
                  (unat mtu) (unat np) data 0 0 qp;
                st1 = st\<lparr>send_packets_generated := send_packets_generated st + of_nat (length packets),
                         srs_bytes_sent := srs_bytes_sent st + of_nat off\<rparr>
            in (packets, p\<lparr>sr_stats := st1\<rparr>, s1\<lparr>side_qp := RdmaQueuePair_add_pending_operation qp1 wqe np\<rparr>))"

section \<open>Receiver\<close>

definition is_send_opcode :: "RdmaOpcode \<Rightarrow> bool" where
  "is_send_opcode op \<longleftrightarrow>
     op \<in> {kRcSendFirst, kRcSendMiddle, kRcSendLast, kRcSendLastImm, kRcSendOnly, kRcSendOnlyImm}"

definition recv_nak :: "AethSyndrome \<Rightarrow> u32 \<Rightarrow> RecvResult" where
  "recv_nak syndrome psn = RecvResult_default\<lparr>r_syndrome := syndrome, r_needs_ack := True, r_ack_psn := psn\<rparr>"

text \<open>The first packet of a message consumes a receive request.\<close>

definition start_recv :: "RdmaSide \<Rightarrow> u32 \<Rightarrow> RecvMessageState option \<times> RdmaSide" where
  "start_recv s psn =
     (let (recv_wqe, qp1) = RdmaQueuePair_consume_recv (side_qp s); s1 = s\<lparr>side_qp := qp1\<rparr> in
      case recv_wqe of
        None \<Rightarrow> (None, s1)
      | Some wqe \<Rightarrow> (Some \<lparr>rms_wr_id = rwqe_wr_id wqe, rms_bytes_received = 0, rms_expected_psn = psn,
            rms_sgl = rwqe_sgl wqe, rms_current_sge_idx = 0, rms_sge_offset = 0, rms_in_progress = True,
            rms_immediate_data = 0, rms_has_immediate = False\<rparr>, s1))"

definition put_recv_state :: "RdmaSide \<Rightarrow> RecvMessageState \<Rightarrow> SendRecvProcessor \<Rightarrow> SendRecvProcessor" where
  "put_recv_state s rs p = p\<lparr>recv_states := um_update (qp_number (side_qp s)) rs (recv_states p)\<rparr>"

text \<open>After the payload is scattered: the counters, the immediate data, the completion and the ACK.\<close>

definition finish_recv ::
  "SendRecvProcessor \<Rightarrow> RdmaSide \<Rightarrow> RdmaPacketParser \<Rightarrow> RecvMessageState \<Rightarrow> RecvResult \<times> SendRecvProcessor \<times> RdmaSide"
where
  "finish_recv p s parser rs =
     (let bth = p_bth parser; op = bth_opcode bth;
          n = length (p_payload parser);
          ends = opcode_is_last op \<or> opcode_is_only op;
          qp1 = RdmaQueuePair_record_packet_received (RdmaQueuePair_advance_recv_psn (side_qp s)) n;
          s1 = s\<lparr>side_qp := qp1\<rparr>;
          st = (sr_stats p)\<lparr>srs_bytes_received := srs_bytes_received (sr_stats p) + of_nat n,
                            recv_packets_processed := recv_packets_processed (sr_stats p) + 1\<rparr>;
          rs1 = rs\<lparr>rms_bytes_received := rms_bytes_received rs + of_nat n, rms_expected_psn := advance_psn (bth_psn bth) 1\<rparr>;
          rs2 = (case p_immediate parser of None \<Rightarrow> rs1
                 | Some imm \<Rightarrow> rs1\<lparr>rms_has_immediate := True, rms_immediate_data := imm\<rparr>);
          ack = (\<lambda>r. if bth_ack_request bth \<or> ends
                     then r\<lparr>r_success := True, r_needs_ack := True, r_ack_psn := bth_psn bth, r_syndrome := asAck\<rparr>
                     else r\<lparr>r_success := True\<rparr>)
      in
      if ends then
        let cqe = RdmaCqe_default\<lparr>cqe_wr_id := rms_wr_id rs2, cqe_status := WsSuccess,
              cqe_opcode := if rms_has_immediate rs2 then WqSendImm else WqSend, cqe_qp_number := qp_number (side_qp s),
              bytes_completed := rms_bytes_received rs2, cqe_has_immediate := rms_has_immediate rs2,
              cqe_immediate_data := rms_immediate_data rs2, cqe_is_send := False\<rparr>
        in (ack (RecvResult_default\<lparr>r_is_message_complete := True, r_cqe := Some cqe\<rparr>),
            put_recv_state s (rs2\<lparr>rms_in_progress := False\<rparr>)
              (p\<lparr>sr_stats := st\<lparr>recvs_completed := recvs_completed st + 1\<rparr>\<rparr>), s1)
      else (ack RecvResult_default, put_recv_state s rs2 (p\<lparr>sr_stats := st\<rparr>), s1))"

definition process_recv_packet ::
  "SendRecvProcessor \<Rightarrow> RdmaSide \<Rightarrow> RdmaPacketParser \<Rightarrow> RecvResult \<times> SendRecvProcessor \<times> RdmaSide" where
  "process_recv_packet p s parser =
     (let bth = p_bth parser; op = bth_opcode bth; qp = side_qp s;
          starts = opcode_is_first op \<or> opcode_is_only op;
          count_seq = (\<lambda>p. p\<lparr>sr_stats := (sr_stats p)\<lparr>srs_sequence_errors := srs_sequence_errors (sr_stats p) + 1\<rparr>\<rparr>)
      in
      if \<not> is_send_opcode op then (RecvResult_default, p, s)
      else if \<not> RdmaQueuePair_can_receive qp then (recv_nak asInvalidRequest (bth_psn bth), p, s)
      else if bth_psn bth \<noteq> rq_psn qp then (recv_nak asPsnSeqError (rq_psn qp), count_seq p, s)
      else
        let rs0 = (case um_lookup (recv_states p) (qp_number qp) of None \<Rightarrow> RecvMessageState_default | Some rs \<Rightarrow> rs);
            p0 = put_recv_state s rs0 p;
            (started, s1) = (if starts then start_recv s (bth_psn bth) else (Some rs0, s))
        in
        case started of
          None \<Rightarrow>
            (recv_nak asRnrNak (bth_psn bth),
             p0\<lparr>sr_stats := (sr_stats p0)\<lparr>srs_rnr_naks_sent := srs_rnr_naks_sent (sr_stats p0) + 1\<rparr>\<rparr>, s1)
        | Some rs \<Rightarrow>
            let p1 = put_recv_state s rs p0 in
            if \<not> rms_in_progress rs then (recv_nak asInvalidRequest (bth_psn bth), p1, s1)
            else if \<not> starts \<and> rms_expected_psn rs \<noteq> bth_psn bth
            then (recv_nak asPsnSeqError (rms_expected_psn rs), count_seq p1, s1)
            else
              let (n, mem1, mrs1, idx, off) = write_to_sgl None (rms_sgl rs) (p_payload parser) (rms_current_sge_idx rs)
                    (rms_sge_offset rs) (side_memory s1) (side_mrs s1);
                  s2 = s1\<lparr>side_memory := mem1, side_mrs := mrs1\<rparr>;
                  rs1 = rs\<lparr>rms_current_sge_idx := idx, rms_sge_offset := off\<rparr>
              in
              if n \<noteq> length (p_payload parser)
              then (recv_nak asRemoteAccessError (bth_psn bth), put_recv_state s (rs1\<lparr>rms_in_progress := False\<rparr>) p1, s2)
              else finish_recv p1 s2 parser rs1)"

definition generate_ack ::
  "(nat list \<Rightarrow> u64 list \<Rightarrow> bytes) \<Rightarrow> RdmaQueuePair \<Rightarrow> u32 \<Rightarrow> AethSyndrome \<Rightarrow> u32 \<Rightarrow> bytes" where
  "generate_ack ser qp psn syndrome msn =
     RdmaPacketBuilder_build ser (set_ack_request False (set_msn msn (set_syndrome syndrome (set_psn psn
       (set_dest_qp (dest_qp_number qp) (set_opcode kRcAck RdmaPacketBuilder_new))))))"

definition SendRecvProcessor_reset :: "SendRecvProcessor \<Rightarrow> SendRecvProcessor" where
  "SendRecvProcessor_reset p = \<lparr>sr_stats = SendRecvStats_zero, recv_states = []\<rparr>"

definition clear_recv_state :: "SendRecvProcessor \<Rightarrow> u32 \<Rightarrow> SendRecvProcessor" where
  "clear_recv_state p n = p\<lparr>recv_states := um_erase n (recv_states p)\<rparr>"

section \<open>Packets of a send request\<close>

lemma send_builder_reachable:
  "builder_reachable (send_builder q wqe imm f l psn c)" "builder_reachable (zero_send_builder q wqe imm psn)"
  unfolding send_builder_def zero_send_builder_def Let_def by (auto intro!: builder_reachable.intros)

lemma send_builder_fields:
  "b_opcode (send_builder q wqe imm f l psn c) = get_send_opcode f l (imm \<and> l)"
  "b_has_immediate (send_builder q wqe imm f l psn c) = (imm \<and> l)"
  "b_opcode (zero_send_builder q wqe imm psn) = get_send_opcode True True imm"
  "b_has_immediate (zero_send_builder q wqe imm psn) = imm"
  by (simp_all add: send_builder_def zero_send_builder_def builder_setters RdmaPacketBuilder_new_def Let_def get_send_opcode_def)

lemma send_opcode_classes:
  "is_send_opcode (get_send_opcode f l i)"
  "opcode_is_first (get_send_opcode f l i) \<or> opcode_is_only (get_send_opcode f l i) \<longleftrightarrow> f"
  "opcode_is_last (get_send_opcode f l i) \<or> opcode_is_only (get_send_opcode f l i) \<longleftrightarrow> l"
  "has_immediate_variant (get_send_opcode f l i) \<longleftrightarrow> i \<and> l"
  by (simp_all add: get_send_opcode_def is_send_opcode_def opcode_defs)

lemma send_parsed:
  assumes "psn_ok psn"
  shows "bth_opcode (p_bth (parsed_builder (send_builder q wqe imm f l psn c))) = get_send_opcode f l (imm \<and> l)"
    "bth_psn (p_bth (parsed_builder (send_builder q wqe imm f l psn c))) = psn"
    "bth_ack_request (p_bth (parsed_builder (send_builder q wqe imm f l psn c))) = l"
    "p_payload (parsed_builder (send_builder q wqe imm f l psn c)) = c"
    "p_immediate (parsed_builder (send_builder q wqe imm f l psn c)) =
       (if imm \<and> l then Some (swqe_immediate_data wqe) else None)"
proof -
  have "psn AND kMaxPsn = psn" using assms by (simp add: word_unat_eq_iff unat_and_kMaxPsn)
  then show "bth_opcode (p_bth (parsed_builder (send_builder q wqe imm f l psn c))) = get_send_opcode f l (imm \<and> l)"
    "bth_psn (p_bth (parsed_builder (send_builder q wqe imm f l psn c))) = psn"
    "bth_ack_request (p_bth (parsed_builder (send_builder q wqe imm f l psn c))) = l"
    "p_payload (parsed_builder (send_builder q wqe imm f l psn c)) = c"
    "p_immediate (parsed_builder (send_builder q wqe imm f l psn c)) =
       (if imm \<and> l then Some (swqe_immediate_data wqe) else None)"
    by (simp_all add: parsed_builder_def send_builder_fields send_opcode_classes)
      (simp_all add: send_builder_def builder_setters RdmaPacketBuilder_new_def Let_def)
qed

lemma zero_send_parsed:
  "parsed_builder (zero_send_builder q wqe imm psn) = parsed_builder (send_builder q wqe imm True True psn [])"
  by (cases imm)
    (simp_all add: parsed_builder_def zero_send_builder_def send_builder_def builder_setters RdmaPacketBuilder_new_def
      Let_def get_send_opcode_def pad_count_of_def)

section \<open>A packet at the receiver\<close>

definition active_recv :: "RecvWqe \<Rightarrow> u32 \<Rightarrow> nat \<Rightarrow> nat \<Rightarrow> nat \<Rightarrow> RecvMessageState" where
  "active_recv r psn k idx off = \<lparr>rms_wr_id = rwqe_wr_id r, rms_bytes_received = of_nat k, rms_expected_psn = psn,
     rms_sgl = rwqe_sgl r, rms_current_sge_idx = idx, rms_sge_offset = off, rms_in_progress = True,
     rms_immediate_data = 0, rms_has_immediate = False\<rparr>"

lemma active_recv_fields:
  "rms_sgl (active_recv r psn k idx off) = rwqe_sgl r" "rms_current_sge_idx (active_recv r psn k idx off) = idx"
  "rms_sge_offset (active_recv r psn k idx off) = off" "rms_expected_psn (active_recv r psn k idx off) = psn"
  "rms_in_progress (active_recv r psn k idx off)"
  "active_recv r psn k idx off\<lparr>rms_current_sge_idx := i, rms_sge_offset := j\<rparr> = active_recv r psn k i j"
  by (simp_all add: active_recv_def)

text \<open>The receiver waits for packet \<open>psn\<close> of a message for the receive request \<open>r\<close>, \<open>k\<close> bytes of which have arrived.\<close>

definition recv_ready :: "SendRecvProcessor \<Rightarrow> RdmaSide \<Rightarrow> RecvWqe \<Rightarrow> bool \<Rightarrow> u32 \<Rightarrow> nat \<Rightarrow> bool" where
  "recv_ready p s r f psn k \<longleftrightarrow>
     RdmaQueuePair_can_receive (side_qp s) \<and> psn_ok psn \<and> rq_psn (side_qp s) = psn
     \<and> sgl_target None (rwqe_sgl r) (side_memory s) (side_mrs s)
     \<and> (if f then k = 0 \<and> (\<exists>rest. recv_queue (side_qp s) = r # rest)
        else \<exists>idx off. at_byte (rwqe_sgl r) idx off k
               \<and> um_lookup (recv_states p) (qp_number (side_qp s)) = Some (active_recv r psn k idx off))"

lemma recv_ready_more:
  assumes "RdmaQueuePair_can_receive (side_qp s)" "psn_ok psn" "rq_psn (side_qp s) = psn"
    "sgl_target None (rwqe_sgl r) (side_memory s) (side_mrs s)" "at_byte (rwqe_sgl r) idx off k"
    "um_lookup (recv_states p) (qp_number (side_qp s)) = Some (active_recv r psn k idx off)"
  shows "recv_ready p s r False psn k"
  using assms unfolding recv_ready_def by auto

definition scattered :: "RecvWqe \<Rightarrow> nat \<Rightarrow> bytes \<Rightarrow> SimpleHostMemory \<Rightarrow> SimpleHostMemory" where
  "scattered r k c m = m\<lparr>mem_buffer := poke (take (length c) (drop k (sgl_bytes (rwqe_sgl r)))) c (mem_buffer m)\<rparr>"

text \<open>What a packet leaves of the queue pair when it is accepted; the first one also consumes the receive request.\<close>

definition same_recv_qp :: "RdmaQueuePair \<Rightarrow> RdmaQueuePair \<Rightarrow> bool" where
  "same_recv_qp q q' \<longleftrightarrow> qp_number q' = qp_number q \<and> qp_state q' = qp_state q \<and> rq_psn q' = rq_psn q"

lemma recv_started:
  assumes "recv_ready p s r f psn k"
  obtains s1 idx off where "(if f then start_recv s psn else (Some (case um_lookup (recv_states p) (qp_number (side_qp s)) of
        None \<Rightarrow> RecvMessageState_default | Some rs \<Rightarrow> rs), s)) = (Some (active_recv r psn k idx off), s1)"
    "at_byte (rwqe_sgl r) idx off k" "same_recv_qp (side_qp s) (side_qp s1)" "side_memory s1 = side_memory s" "side_mrs s1 = side_mrs s"
proof (cases f)
  case True
  then obtain rest where r: "recv_queue (side_qp s) = r # rest" "k = 0" using assms by (auto simp: recv_ready_def)
  have "start_recv s psn = (Some (active_recv r psn 0 0 0), s\<lparr>side_qp := (side_qp s)\<lparr>recv_queue := rest\<rparr>\<rparr>)"
    using assms r by (simp add: recv_ready_def start_recv_def RdmaQueuePair_consume_recv_def active_recv_def)
  then show thesis
    using True r at_byte_0 by (intro that [of 0 0 "s\<lparr>side_qp := (side_qp s)\<lparr>recv_queue := rest\<rparr>\<rparr>"]) (auto simp: same_recv_qp_def)
next
  case False
  then obtain idx off where "at_byte (rwqe_sgl r) idx off k"
    "um_lookup (recv_states p) (qp_number (side_qp s)) = Some (active_recv r psn k idx off)"
    using assms by (auto simp: recv_ready_def)
  then show thesis using False by (intro that [of idx off s]) (auto simp: same_recv_qp_def)
qed

lemma recv_accepts:
  assumes ready: "recv_ready p s r f psn k" and k: "k + length c \<le> length (sgl_bytes (rwqe_sgl r))"
  obtains p1 s2 idx off where "process_recv_packet p s (parsed_builder (send_builder q wqe imm f l psn c)) =
      finish_recv p1 s2 (parsed_builder (send_builder q wqe imm f l psn c)) (active_recv r psn k idx off)"
    "at_byte (rwqe_sgl r) idx off (k + length c)" "same_recv_qp (side_qp s) (side_qp s2)"
    "side_memory s2 = scattered r k c (side_memory s)" "sgl_target None (rwqe_sgl r) (side_memory s2) (side_mrs s2)"
proof -
  let ?pk = "parsed_builder (send_builder q wqe imm f l psn c)"
  define rs0 where "rs0 = (case um_lookup (recv_states p) (qp_number (side_qp s)) of
      None \<Rightarrow> RecvMessageState_default | Some rs \<Rightarrow> rs)"
  have h: "RdmaQueuePair_can_receive (side_qp s)" "psn_ok psn" "rq_psn (side_qp s) = psn"
    and t: "sgl_target None (rwqe_sgl r) (side_memory s) (side_mrs s)" using ready by (simp_all add: recv_ready_def)
  obtain s1 idx off where s1: "(if f then start_recv s psn else (Some rs0, s)) = (Some (active_recv r psn k idx off), s1)"
      "at_byte (rwqe_sgl r) idx off k" "same_recv_qp (side_qp s) (side_qp s1)"
      "side_memory s1 = side_memory s" "side_mrs s1 = side_mrs s"
    using recv_started [OF ready] unfolding rs0_def by metis
  obtain mrs' i j where w: "write_to_sgl None (rwqe_sgl r) c idx off (side_memory s1) (side_mrs s1) =
      (length c, scattered r k c (side_memory s), mrs', i, j)" "at_byte (rwqe_sgl r) i j (k + length c)"
      "mrs_by_lkey mrs' = mrs_by_lkey (side_mrs s)"
    using write_to_sgl_pokes [OF t s1(2) k] unfolding s1(4,5) scattered_def by blast
  define s2 where "s2 = s1\<lparr>side_memory := scattered r k c (side_memory s), side_mrs := mrs'\<rparr>"
  have "process_recv_packet p s ?pk =
      finish_recv (put_recv_state s (active_recv r psn k idx off) (put_recv_state s rs0 p)) s2 ?pk (active_recv r psn k i j)"
    by (simp only: process_recv_packet_def Let_def send_parsed [OF h(2)] send_opcode_classes rs0_def [symmetric]
        s1(1) prod.case option.case active_recv_fields h w(1) simp_thms if_True if_False s2_def)
  moreover have "sgl_target None (rwqe_sgl r) (side_memory s2) (side_mrs s2)"
    by (rule sgl_target_mono [OF t]) (use t w(3) in \<open>simp_all add: s2_def scattered_def sgl_target_def mem_flat_def\<close>)
  ultimately show thesis using that w(2) s1(3) by (simp add: s2_def)
qed

definition recv_cqe :: "u32 \<Rightarrow> SendWqe \<Rightarrow> bool \<Rightarrow> RecvWqe \<Rightarrow> RdmaCqe" where
  "recv_cqe n wqe imm r = \<lparr>cqe_wr_id = rwqe_wr_id r, cqe_status = WsSuccess, cqe_opcode = (if imm then WqSendImm else WqSend),
     cqe_qp_number = n, bytes_completed = swqe_total_length wqe,
     cqe_immediate_data = (if imm then swqe_immediate_data wqe else 0), cqe_has_immediate = imm, cqe_is_send = False\<rparr>"

definition recv_answer :: "SendWqe \<Rightarrow> bool \<Rightarrow> u32 \<Rightarrow> RecvWqe \<Rightarrow> u32 \<Rightarrow> RecvResult" where
  "recv_answer wqe imm n r psn = \<lparr>r_success = True, r_needs_ack = True, r_is_message_complete = True, r_ack_psn = psn,
     r_syndrome = asAck, r_cqe = Some (recv_cqe n wqe imm r)\<rparr>"

lemma recv_step_more:
  assumes ready: "recv_ready p s r f psn k" and k: "k + length c \<le> length (sgl_bytes (rwqe_sgl r))"
  shows "\<exists>p' s'. process_recv_packet p s (parsed_builder (send_builder q wqe imm f False psn c)) =
      (RecvResult_default\<lparr>r_success := True\<rparr>, p', s')
    \<and> recv_ready p' s' r False (advance_psn psn 1) (k + length c)
    \<and> side_memory s' = scattered r k c (side_memory s) \<and> qp_number (side_qp s') = qp_number (side_qp s)"
proof -
  let ?pk = "parsed_builder (send_builder q wqe imm f False psn c)"
  have psn: "psn_ok psn" using ready by (simp add: recv_ready_def)
  obtain p1 s2 idx off where step: "process_recv_packet p s ?pk = finish_recv p1 s2 ?pk (active_recv r psn k idx off)"
      "at_byte (rwqe_sgl r) idx off (k + length c)" "same_recv_qp (side_qp s) (side_qp s2)"
      "side_memory s2 = scattered r k c (side_memory s)" "sgl_target None (rwqe_sgl r) (side_memory s2) (side_mrs s2)"
    using recv_accepts [OF ready k] by metis
  define s3 where "s3 = s2\<lparr>side_qp := RdmaQueuePair_record_packet_received (RdmaQueuePair_advance_recv_psn (side_qp s2)) (length c)\<rparr>"
  have "\<exists>st. finish_recv p1 s2 ?pk (active_recv r psn k idx off) = (RecvResult_default\<lparr>r_success := True\<rparr>,
      put_recv_state s2 (active_recv r (advance_psn psn 1) (k + length c) idx off) (p1\<lparr>sr_stats := st\<rparr>), s3)"
    using send_opcode_classes(3) [of f False "imm \<and> False"]
    by (intro exI) (simp add: finish_recv_def send_parsed [OF psn] Let_def active_recv_def s3_def)
  moreover have qp3: "qp_number (side_qp s3) = qp_number (side_qp s)" "rq_psn (side_qp s3) = advance_psn psn 1"
    "qp_state (side_qp s3) = qp_state (side_qp s)" "side_memory s3 = side_memory s2" "side_mrs s3 = side_mrs s2"
    using step(3) ready by (simp_all add: s3_def same_recv_qp_def recv_ready_def
        RdmaQueuePair_record_packet_received_def RdmaQueuePair_advance_recv_psn_def)
  moreover have "recv_ready (put_recv_state s2 (active_recv r (advance_psn psn 1) (k + length c) idx off) p2) s3 r False
      (advance_psn psn 1) (k + length c)" for p2
    by (rule recv_ready_more [OF _ _ _ _ step(2)])
      (use qp3 step(3,5) ready in \<open>simp_all add: recv_ready_def put_recv_state_def RdmaQueuePair_can_receive_def same_recv_qp_def\<close>)
  ultimately show ?thesis using step(1,4) by auto
qed

lemma recv_step_end:
  assumes ready: "recv_ready p s r f psn k" and k: "k + length c \<le> length (sgl_bytes (rwqe_sgl r))"
    and len: "k + length c = unat (swqe_total_length wqe)"
  shows "\<exists>p' s'. process_recv_packet p s (parsed_builder (send_builder q wqe imm f True psn c)) =
      (recv_answer wqe imm (qp_number (side_qp s)) r psn, p', s')
    \<and> side_memory s' = scattered r k c (side_memory s) \<and> rq_psn (side_qp s') = advance_psn psn 1"
proof -
  let ?pk = "parsed_builder (send_builder q wqe imm f True psn c)"
  have psn: "psn_ok psn" using ready by (simp add: recv_ready_def)
  have n: "of_nat k + of_nat (length c) = swqe_total_length wqe"
    using arg_cong [OF len, of "of_nat :: nat \<Rightarrow> u32"] by simp
  have e: "opcode_is_last (get_send_opcode f True i) \<or> opcode_is_only (get_send_opcode f True i)" for i
    using send_opcode_classes(3) by blast
  obtain p1 s2 idx off where step: "process_recv_packet p s ?pk = finish_recv p1 s2 ?pk (active_recv r psn k idx off)"
      "same_recv_qp (side_qp s) (side_qp s2)" "side_memory s2 = scattered r k c (side_memory s)"
    using recv_accepts [OF ready k] by metis
  have "\<exists>p'. finish_recv p1 s2 ?pk (active_recv r psn k idx off) = (recv_answer wqe imm (qp_number (side_qp s)) r psn, p',
      s2\<lparr>side_qp := RdmaQueuePair_record_packet_received (RdmaQueuePair_advance_recv_psn (side_qp s2)) (length c)\<rparr>)"
    using e [of imm] n step(2)
    by (cases imm) (simp_all add: finish_recv_def send_parsed [OF psn] Let_def active_recv_def recv_answer_def recv_cqe_def
        RecvResult_default_def RdmaCqe_default_def same_recv_qp_def)
  then show ?thesis
    using step ready by (auto simp: recv_ready_def same_recv_qp_def
        RdmaQueuePair_record_packet_received_def RdmaQueuePair_advance_recv_psn_def)
qed

section \<open>A message at the receiver\<close>

fun recv_run :: "SendRecvProcessor \<Rightarrow> RdmaSide \<Rightarrow> RdmaPacketParser list \<Rightarrow> RecvResult list \<times> SendRecvProcessor \<times> RdmaSide" where
  "recv_run p s [] = ([], p, s)"
| "recv_run p s (q # qs) =
     (let (r, p1, s1) = process_recv_packet p s q; (rs, p2, s2) = recv_run p1 s1 qs in (r # rs, p2, s2))"

lemma scattered_twice:
  assumes "k + length c + length d \<le> length (sgl_bytes (rwqe_sgl r))"
  shows "scattered r (k + length c) d (scattered r k c m) = scattered r k (c @ d) m"
  using poke_twice [OF assms] by (simp add: scattered_def)

lemma recv_run_message:
  assumes "cs \<noteq> []" and "recv_ready p s r f psn k" and "k + length (concat cs) = unat (swqe_total_length wqe)"
    and "k + length (concat cs) \<le> length (sgl_bytes (rwqe_sgl r))"
  shows "\<exists>rs p' s'. recv_run p s (map parsed_builder (message_builders (send_builder q wqe imm) f psn cs)) = (rs, p', s')
    \<and> rs = replicate (length cs - 1) (RecvResult_default\<lparr>r_success := True\<rparr>)
        @ [recv_answer wqe imm (qp_number (side_qp s)) r (advance_psn psn (of_nat (length cs - 1)))]
    \<and> side_memory s' = scattered r k (concat cs) (side_memory s)
    \<and> rq_psn (side_qp s') = advance_psn psn (of_nat (length cs))"
  using assms
proof (induction cs arbitrary: s p psn k f)
  case (Cons c cs)
  show ?case
  proof (cases "cs = []")
    case True
    then show ?thesis
      using recv_step_end [OF Cons.prems(2), of c wqe q imm] Cons.prems(2-4)
      by (auto simp: advance_psn_0 recv_ready_def recv_answer_def)
  next
    case False
    obtain p3 s3 where step: "process_recv_packet p s (parsed_builder (send_builder q wqe imm f False psn c)) =
        (RecvResult_default\<lparr>r_success := True\<rparr>, p3, s3)"
      and r3: "recv_ready p3 s3 r False (advance_psn psn 1) (k + length c)"
      and s3: "side_memory s3 = scattered r k c (side_memory s)" "qp_number (side_qp s3) = qp_number (side_qp s)"
      using recv_step_more [OF Cons.prems(2), of c q wqe imm] Cons.prems(4) by auto
    obtain rs p' s' where IH:
      "recv_run p3 s3 (map parsed_builder (message_builders (send_builder q wqe imm) False (advance_psn psn 1) cs)) = (rs, p', s')"
      "rs = replicate (length cs - 1) (RecvResult_default\<lparr>r_success := True\<rparr>)
        @ [recv_answer wqe imm (qp_number (side_qp s3)) r (advance_psn (advance_psn psn 1) (of_nat (length cs - 1)))]"
      "side_memory s' = scattered r (k + length c) (concat cs) (side_memory s3)"
      "rq_psn (side_qp s') = advance_psn (advance_psn psn 1) (of_nat (length cs))"
      using Cons.IH [OF False r3] Cons.prems(3,4) by auto
    obtain m where m: "length cs = Suc m" using False by (cases cs) simp_all
    have "RecvResult_default\<lparr>r_success := True\<rparr> # rs =
        replicate (length (c # cs) - 1) (RecvResult_default\<lparr>r_success := True\<rparr>) @
        [recv_answer wqe imm (qp_number (side_qp s)) r (advance_psn psn (of_nat (length (c # cs) - 1)))]"
      unfolding IH(2) s3(2) using advance_psn_Suc [of psn m] by (simp add: m)
    then show ?thesis
      using IH(1,3,4) step s3 False advance_psn_Suc [of psn "length cs"] scattered_twice [of k c "concat cs" r "side_memory s"] Cons.prems(4)
      by simp
  qed
qed simp

section \<open>The sender's packets\<close>

definition send_builders :: "RdmaQueuePair \<Rightarrow> SendWqe \<Rightarrow> bytes \<Rightarrow> RdmaPacketBuilder list" where
  "send_builders qp wqe data =
     (let imm = (swqe_opcode wqe = WqSendImm) in
      if data = [] then [zero_send_builder (dest_qp_number qp) wqe imm (sq_psn qp)]
      else message_builders (send_builder (dest_qp_number qp) wqe imm) True (sq_psn qp)
             (chunks (unat (RdmaQueuePair_mtu_bytes qp)) data))"

lemma send_builders_sound: "\<forall>b \<in> set (send_builders qp wqe data). sound_builder b"
proof -
  have "sound_builder (send_builder q wqe imm f l psn c)" "sound_builder (zero_send_builder q wqe imm psn)" for q imm f l psn c
    by (simp_all add: sound_builder_def send_builder_reachable send_builder_fields send_opcode_classes)
  then show ?thesis
    using message_builders_all [of sound_builder "send_builder (dest_qp_number qp) wqe (swqe_opcode wqe = WqSendImm)"]
    by (simp add: send_builders_def Let_def)
qed

lemma send_builders_parsed:
  "map parsed_builder (send_builders qp wqe data) = map parsed_builder
    (message_builders (send_builder (dest_qp_number qp) wqe (swqe_opcode wqe = WqSendImm)) True (sq_psn qp)
      (if data = [] then [[]] else chunks (unat (RdmaQueuePair_mtu_bytes qp)) data))"
  by (simp add: send_builders_def Let_def zero_send_parsed)

lemma generate_send_builders:
  assumes op: "swqe_opcode wqe \<in> {WqSend, WqSendImm}"
    and data: "fst (read_from_sgl (side_memory s) (swqe_sgl wqe) (local_lkey wqe) (side_mrs s)) = data"
    and len: "length data = unat (swqe_total_length wqe)"
    and size: "unat (swqe_total_length wqe) + unat (RdmaQueuePair_mtu_bytes (side_qp s)) \<le> 2 ^ 32"
    and psn: "psn_ok (sq_psn (side_qp s))"
  shows "\<exists>p' s'. generate_send_packets ser p s wqe = (map (RdmaPacketBuilder_build ser) (send_builders (side_qp s) wqe data), p', s')
    \<and> sq_psn (side_qp s') = advance_psn (sq_psn (side_qp s)) (of_nat (length (send_builders (side_qp s) wqe data)))"
proof -
  let ?qp = "side_qp s" and ?mtu = "RdmaQueuePair_mtu_bytes (side_qp s)" and ?len = "swqe_total_length wqe"
  obtain mrs1 where rd: "read_from_sgl (side_memory s) (swqe_sgl wqe) (local_lkey wqe) (side_mrs s) = (data, mrs1)"
    using data by (metis prod.collapse)
  have op': "\<not> (swqe_opcode wqe \<noteq> WqSend \<and> swqe_opcode wqe \<noteq> WqSendImm)" using op by auto
  show ?thesis
  proof (cases "?len = 0")
    case True
    then have "data = []" using len by simp
    then show ?thesis
      using True rd op' by (simp add: generate_send_packets_def send_builders_def Let_def RdmaQueuePair_next_send_psn_def
          RdmaQueuePair_add_pending_operation_def RdmaQueuePair_record_packet_sent_def)
  next
    case False
    then have ne: "data \<noteq> []" using len by (auto simp: unat_eq_0)
    have cnt: "unat (calculate_packet_count ?len ?mtu) = length (chunks (unat ?mtu) data)"
      by (rule packet_count_chunks [OF len False mtu_bounds(1) size])
    obtain st where loop: "packet_loop ser (send_builder (dest_qp_number ?qp) wqe (swqe_opcode wqe = WqSendImm)) (unat ?mtu)
        (unat (calculate_packet_count ?len ?mtu)) data 0 0 ?qp =
        (map (RdmaPacketBuilder_build ser) (send_builders ?qp wqe data), length data,
         ?qp\<lparr>sq_psn := advance_psn (sq_psn ?qp) (of_nat (length (send_builders ?qp wqe data))), qp_stats := st\<rparr>)"
      using packet_loop_message [OF mtu_bounds(1) cnt psn] ne by (auto simp: send_builders_def Let_def)
    show ?thesis
      using rd op' len False loop
      by (auto simp: generate_send_packets_def Let_def RdmaQueuePair_add_pending_operation_def)
  qed
qed

section \<open>Delivery\<close>

lemma send_packets_nonempty:
  assumes "swqe_opcode wqe \<in> {WqSend, WqSendImm}"
    and "fst (read_from_sgl (side_memory s) (swqe_sgl wqe) (local_lkey wqe) (side_mrs s)) = data"
    and "length data = unat (swqe_total_length wqe)"
    and "unat (swqe_total_length wqe) + unat (RdmaQueuePair_mtu_bytes (side_qp s)) \<le> 2 ^ 32" and "psn_ok (sq_psn (side_qp s))"
    and "generate_send_packets ser p s wqe = (packets, p', s')"
  shows "packets \<noteq> []"
proof -
  have "packets = map (RdmaPacketBuilder_build ser) (send_builders (side_qp s) wqe data)"
    using generate_send_builders [OF assms(1-5), of ser p] assms(6) by auto
  moreover have "map parsed_builder (send_builders (side_qp s) wqe data) \<noteq> []"
    unfolding send_builders_parsed by (cases "data = []") (auto simp: chunks_Nil_iff mtu_bounds(1) dest!: arg_cong [of _ _ length])
  ultimately show ?thesis by auto
qed

lemma send_delivers:
  assumes packer: "bit_packer ser des"
    and op: "swqe_opcode wqe \<in> {WqSend, WqSendImm}"
    and data: "fst (read_from_sgl (side_memory a) (swqe_sgl wqe) (local_lkey wqe) (side_mrs a)) = data"
    and len: "length data = unat (swqe_total_length wqe)"
    and size: "unat (swqe_total_length wqe) + unat (RdmaQueuePair_mtu_bytes (side_qp a)) \<le> 2 ^ 32"
    and psn: "psn_ok (sq_psn (side_qp a))" "rq_psn (side_qp b) = sq_psn (side_qp a)"
    and ready: "RdmaQueuePair_can_receive (side_qp b)" and recv: "recv_queue (side_qp b) = r # rest"
    and target: "sgl_target None (rwqe_sgl r) (side_memory b) (side_mrs b)"
    and room: "length data \<le> length (sgl_bytes (rwqe_sgl r))"
    and gen: "generate_send_packets ser p a wqe = (packets, p', a')"
  shows "\<exists>rs q' b'. recv_run q b (parse_all des packets) = (rs, q', b')
    \<and> rs = replicate (length packets - 1) (RecvResult_default\<lparr>r_success := True\<rparr>)
        @ [recv_answer wqe (swqe_opcode wqe = WqSendImm) (qp_number (side_qp b)) r
             (advance_psn (sq_psn (side_qp a)) (of_nat (length packets - 1)))]
    \<and> side_memory b' = (side_memory b)\<lparr>mem_buffer :=
        poke (take (length data) (sgl_bytes (rwqe_sgl r))) data (mem_buffer (side_memory b))\<rparr>
    \<and> rq_psn (side_qp b') = sq_psn (side_qp a')"
proof -
  let ?imm = "swqe_opcode wqe = WqSendImm" and ?mk = "send_builder (dest_qp_number (side_qp a)) wqe"
  define cs where "cs = (if data = [] then [[]] else chunks (unat (RdmaQueuePair_mtu_bytes (side_qp a))) data)"
  have cs: "cs \<noteq> []" "concat cs = data"
    using mtu_bounds(1) by (auto simp: cs_def chunks_Nil_iff concat_chunks)
  have bs: "packets = map (RdmaPacketBuilder_build ser) (send_builders (side_qp a) wqe data)"
    "sq_psn (side_qp a') = advance_psn (sq_psn (side_qp a)) (of_nat (length packets))"
    using generate_send_builders [OF op data len size psn(1), of ser p] gen by auto
  have parsed: "parse_all des packets = map parsed_builder (message_builders (?mk ?imm) True (sq_psn (side_qp a)) cs)"
    unfolding bs(1) parse_all_built [OF packer send_builders_sound] cs_def by (rule send_builders_parsed)
  have np: "length packets = length cs"
    using arg_cong [OF send_builders_parsed, of length] by (simp add: bs(1) cs_def)
  have "recv_ready q b r True (sq_psn (side_qp a)) 0"
    using psn ready recv target by (simp add: recv_ready_def)
  from recv_run_message [OF cs(1) this, of wqe] show ?thesis
    unfolding parsed using cs len np bs(2) room by (auto simp: scattered_def)
qed

section \<open>Properties\<close>

text \<open>A send arrives. The sender turns a request whose local buffer it can read into packets; a receiver that expects the
  sender's next sequence number and whose first receive request names enough bytes, all within its memory, accepts every
  packet in order. Byte \<open>i\<close> of the message is then in byte \<open>i\<close> of the request's scatter list and the rest of the
  memory is unchanged; both ends agree on the next sequence number; and the answer to the last packet acknowledges it and
  completes the receive request with the message's length and immediate data.\<close>

theorem rdma_send_delivers:
  assumes packer: "bit_packer ser des"
    and op: "swqe_opcode wqe \<in> {WqSend, WqSendImm}"
    and data: "fst (read_from_sgl (side_memory a) (swqe_sgl wqe) (local_lkey wqe) (side_mrs a)) = data"
    and len: "length data = unat (swqe_total_length wqe)"
    and size: "unat (swqe_total_length wqe) + unat (RdmaQueuePair_mtu_bytes (side_qp a)) \<le> 2 ^ 32"
    and psn: "psn_ok (sq_psn (side_qp a))" "rq_psn (side_qp b) = sq_psn (side_qp a)"
    and ready: "RdmaQueuePair_can_receive (side_qp b)" and recv: "recv_queue (side_qp b) = r # rest"
    and target: "sgl_target None (rwqe_sgl r) (side_memory b) (side_mrs b)"
    and room: "length data \<le> length (sgl_bytes (rwqe_sgl r))"
    and gen: "generate_send_packets ser p a wqe = (packets, p', a')"
  shows "\<exists>rs q' b'. recv_run q b (parse_all des packets) = (rs, q', b')
    \<and> length rs = length packets \<and> (\<forall>r \<in> set rs. r_success r)
    \<and> List.last rs = recv_answer wqe (swqe_opcode wqe = WqSendImm) (qp_number (side_qp b)) r
        (advance_psn (sq_psn (side_qp a)) (of_nat (length packets - 1)))
    \<and> side_memory b' = (side_memory b)\<lparr>mem_buffer :=
        poke (take (length data) (sgl_bytes (rwqe_sgl r))) data (mem_buffer (side_memory b))\<rparr>
    \<and> rq_psn (side_qp b') = sq_psn (side_qp a')"
proof -
  obtain rs q' b' where run: "recv_run q b (parse_all des packets) = (rs, q', b')"
    and rs: "rs = replicate (length packets - 1) (RecvResult_default\<lparr>r_success := True\<rparr>)
        @ [recv_answer wqe (swqe_opcode wqe = WqSendImm) (qp_number (side_qp b)) r
             (advance_psn (sq_psn (side_qp a)) (of_nat (length packets - 1)))]"
    and rest: "side_memory b' = (side_memory b)\<lparr>mem_buffer :=
        poke (take (length data) (sgl_bytes (rwqe_sgl r))) data (mem_buffer (side_memory b))\<rparr>" "rq_psn (side_qp b') = sq_psn (side_qp a')"
    using send_delivers [OF assms, of q] by blast
  have "packets \<noteq> []" by (rule send_packets_nonempty [OF op data len size psn(1) gen])
  then have "length rs = length packets" by (simp add: rs)
  moreover have "\<forall>r \<in> set rs. r_success r" by (auto simp: rs recv_answer_def)
  ultimately show ?thesis using run rs rest by auto
qed

definition sample_send_req :: SendWqe where
  "sample_send_req = (sample_send 5)\<lparr>swqe_opcode := WqSendImm, swqe_sgl := [\<lparr>sge_address = 5, sge_length = 3\<rparr>],
     swqe_total_length := 3, swqe_immediate_data := 9, local_lkey := 0x100\<rparr>"

theorem rdma_send_delivers_witness:
  "\<exists>rs q' b'. recv_run SendRecvProcessor_new (sample_side [0, 0, 0, 0, 0, 0, 0, 0, 0, 0, 0, 0])
      (parse_all msb_des (fst (generate_send_packets msb_ser SendRecvProcessor_new
        (sample_side [0, 1, 2, 3, 4, 5, 6, 7, 8, 9, 10, 11]) sample_send_req))) = (rs, q', b')
    \<and> mem_buffer (side_memory b') = [0, 0, 0, 0, 5, 6, 0, 0, 7, 0, 0, 0]
    \<and> map_option cqe_wr_id (r_cqe (List.last rs)) = Some 77"
proof -
  let ?a = "sample_side [0, 1, 2, 3, 4, 5, 6, 7, 8, 9, 10, 11]" and ?b = "sample_side [0, 0, 0, 0, 0, 0, 0, 0, 0, 0, 0, 0]"
  let ?w = sample_send_req
  obtain packets p' a' where gen: "generate_send_packets msb_ser SendRecvProcessor_new ?a ?w = (packets, p', a')"
    by (metis prod_cases3)
  have t: "sgl_target None (rwqe_sgl sample_recv) (side_memory ?b) (side_mrs ?b)"
    using sample_flat [of "[0, 0, 0, 0, 0, 0, 0, 0, 0, 0, 0, 0]"]
    by (simp add: sgl_target_def sample_recv_def) (simp add: sample_defs)
  have d: "fst (read_from_sgl (side_memory ?a) (swqe_sgl ?w) (local_lkey ?w) (side_mrs ?a)) = [5, 6, 7]"
    using sample_read [of "[0, 1, 2, 3, 4, 5, 6, 7, 8, 9, 10, 11]"] by (simp add: sample_send_req_def)
  have bytes: "sgl_bytes (rwqe_sgl sample_recv) = [4, 5, 8, 9, 10]"
    by (simp add: sgl_bytes_def sge_bytes_def sample_recv_def upt_rec)
  have wr: "rwqe_wr_id sample_recv = 77" by (simp add: sample_recv_def)
  have "\<exists>rs q' b'. recv_run SendRecvProcessor_new ?b (parse_all msb_des packets) = (rs, q', b')
    \<and> length rs = length packets \<and> (\<forall>r \<in> set rs. r_success r)
    \<and> List.last rs = recv_answer ?w (swqe_opcode ?w = WqSendImm) (qp_number (side_qp ?b)) sample_recv
        (advance_psn (sq_psn (side_qp ?a)) (of_nat (length packets - 1)))
    \<and> side_memory b' = (side_memory ?b)\<lparr>mem_buffer :=
        poke (take (length [5, 6, 7 :: byte]) (sgl_bytes (rwqe_sgl sample_recv))) [5, 6, 7] (mem_buffer (side_memory ?b))\<rparr>
    \<and> rq_psn (side_qp b') = sq_psn (side_qp a')"
    by (rule rdma_send_delivers [OF msb.bit_packer_axioms _ d _ _ _ _ _ _ t _ gen])
      (simp_all add: sample_send_req_def sample_send_def sample_defs RdmaQueuePair_mtu_bytes_def RdmaQueuePair_can_receive_def bytes)
  then show ?thesis
    unfolding gen bytes using wr by (auto simp: recv_answer_def recv_cqe_def sample_defs)
qed

text \<open>A receiver never delivers a packet twice or out of order. Whatever packets come in, if none carries the sequence
  number the receiver expects, then the memory, the queue pair with its receive requests, the region table and the
  message in progress stay as they are, no packet is accepted and no completion is produced.\<close>

theorem recv_ignores_out_of_order:
  assumes "\<forall>x \<in> set xs. bth_psn (p_bth x) \<noteq> rq_psn (side_qp s)" and "recv_run p s xs = (rs, p', s')"
  shows "s' = s \<and> recv_states p' = recv_states p \<and> (\<forall>r \<in> set rs. \<not> r_success r \<and> r_cqe r = None)"
  using assms
proof (induction xs arbitrary: p rs)
  case (Cons x xs)
  obtain r p1 s1 where step: "process_recv_packet p s x = (r, p1, s1)" by (metis prod_cases3)
  then have *: "s1 = s" "recv_states p1 = recv_states p" "\<not> r_success r" "r_cqe r = None"
    using Cons.prems(1) by (auto simp: process_recv_packet_def Let_def recv_nak_def RecvResult_default_def split: if_splits)
  from Cons.prems(2) step *(1) obtain rs1 where "recv_run p1 s xs = (rs1, p', s')" "rs = r # rs1"
    by (auto split: prod.splits)
  with Cons.IH [of p1 rs1] Cons.prems(1) * show ?case by auto
qed simp

theorem recv_ignores_out_of_order_witness:
  "snd (snd (recv_run SendRecvProcessor_new (sample_side [0, 0]) [parsed_builder (send_builder 1 (sample_send 3) False True True 7 [1, 2])]))
    = sample_side [0, 0]"
proof -
  let ?x = "parsed_builder (send_builder 1 (sample_send 3) False True True 7 [1, 2])"
  obtain rs p' s' where run: "recv_run SendRecvProcessor_new (sample_side [0, 0]) [?x] = (rs, p', s')" by (metis prod_cases3)
  have "bth_psn (p_bth ?x) = 7" by (rule send_parsed) simp
  moreover have "rq_psn (side_qp (sample_side [0, 0])) = 0" by (simp add: sample_defs)
  ultimately have "\<forall>x \<in> set [?x]. bth_psn (p_bth x) \<noteq> rq_psn (side_qp (sample_side [0, 0]))" by simp
  from recv_ignores_out_of_order [OF this run] show ?thesis unfolding run by simp
qed

end
