(* ===== verification/Rocev2_Write.thy ===== *)
theory Rocev2_Write
  imports Rocev2_Segmentation
begin

text \<open>
  The RDMA WRITE processor (\<^verbatim>\<open>rocev2/rdma_write.h/.cpp\<close>): the requester cuts the local buffer of a work
  request into packets, the responder checks each packet against the queue pair, the remote key and the message in
  progress and writes its payload to host memory. Host memory and the region table are references in the class and
  are passed and returned here. The theory shows that a write request arrives: processed in order, its packets put
  exactly the requester's data at the remote address.
\<close>

section \<open>Data\<close>

record WriteResult =
  w_success :: bool
  w_needs_ack :: bool
  w_is_message_complete :: bool
  w_ack_psn :: u32
  w_syndrome :: AethSyndrome
  w_recv_cqe :: "RdmaCqe option"

definition WriteResult_default :: WriteResult where
  "WriteResult_default = \<lparr>w_success = False, w_needs_ack = False, w_is_message_complete = False, w_ack_psn = 0,
     w_syndrome = asAck, w_recv_cqe = None\<rparr>"

record WriteMessageState =
  wms_remote_address :: u64
  wms_rkey :: u32
  wms_total_length :: u32
  wms_bytes_written :: u32
  wms_expected_psn :: u32
  wms_in_progress :: bool
  wms_immediate_data :: u32
  wms_has_immediate :: bool

definition WriteMessageState_default :: WriteMessageState where
  "WriteMessageState_default = \<lparr>wms_remote_address = 0, wms_rkey = 0, wms_total_length = 0, wms_bytes_written = 0,
     wms_expected_psn = 0, wms_in_progress = False, wms_immediate_data = 0, wms_has_immediate = False\<rparr>"

record WriteStats =
  writes_started :: u64
  writes_completed :: u64
  write_packets_generated :: u64
  write_packets_processed :: u64
  ws_bytes_written :: u64
  ws_rkey_errors :: u64
  ws_sequence_errors :: u64
  ws_access_errors :: u64

definition WriteStats_zero :: WriteStats where
  "WriteStats_zero = \<lparr>writes_started = 0, writes_completed = 0, write_packets_generated = 0,
     write_packets_processed = 0, ws_bytes_written = 0, ws_rkey_errors = 0, ws_sequence_errors = 0, ws_access_errors = 0\<rparr>"

record WriteProcessor =
  wp_stats :: WriteStats
  write_states :: "(u32 \<times> WriteMessageState) list"

definition WriteProcessor_new :: WriteProcessor where
  "WriteProcessor_new = \<lparr>wp_stats = WriteStats_zero, write_states = []\<rparr>"

section \<open>Requester\<close>

definition get_write_opcode :: "bool \<Rightarrow> bool \<Rightarrow> bool \<Rightarrow> RdmaOpcode" where
  "get_write_opcode is_first is_last has_immediate =
     (if is_first \<and> is_last then (if has_immediate then kRcWriteOnlyImm else kRcWriteOnly)
      else if is_first then kRcWriteFirst
      else if is_last then (if has_immediate then kRcWriteLastImm else kRcWriteLast)
      else kRcWriteMiddle)"

definition write_builder :: "u32 \<Rightarrow> SendWqe \<Rightarrow> bool \<Rightarrow> bool \<Rightarrow> bool \<Rightarrow> u32 \<Rightarrow> bytes \<Rightarrow> RdmaPacketBuilder" where
  "write_builder dest_qp wqe has_immediate is_first is_last psn payload =
     (let b1 = set_payload payload (set_ack_request is_last (set_pad_count (pad_count_of is_last (length payload))
            (set_psn psn (set_dest_qp dest_qp
              (set_opcode (get_write_opcode is_first is_last (has_immediate \<and> is_last)) RdmaPacketBuilder_new)))));
          b2 = (if is_first then set_dma_length (swqe_total_length wqe) (set_rkey (swqe_rkey wqe)
                  (set_remote_address (remote_address wqe) b1)) else b1)
      in if has_immediate \<and> is_last then set_immediate (swqe_immediate_data wqe) b2 else b2)"

definition zero_write_builder :: "u32 \<Rightarrow> SendWqe \<Rightarrow> bool \<Rightarrow> u32 \<Rightarrow> RdmaPacketBuilder" where
  "zero_write_builder dest_qp wqe has_immediate psn =
     (let b = set_dma_length 0 (set_rkey (swqe_rkey wqe) (set_remote_address (remote_address wqe)
                (set_ack_request True (set_psn psn (set_dest_qp dest_qp
                  (set_opcode (if has_immediate then kRcWriteOnlyImm else kRcWriteOnly) RdmaPacketBuilder_new))))))
      in if has_immediate then set_immediate (swqe_immediate_data wqe) b else b)"

definition generate_write_packets ::
  "(nat list \<Rightarrow> u64 list \<Rightarrow> bytes) \<Rightarrow> WriteProcessor \<Rightarrow> RdmaSide \<Rightarrow> SendWqe \<Rightarrow> bytes list \<times> WriteProcessor \<times> RdmaSide" where
  "generate_write_packets ser p s wqe =
     (if swqe_opcode wqe \<noteq> WqRdmaWrite \<and> swqe_opcode wqe \<noteq> WqRdmaWriteImm then ([], p, s)
      else
        let (data, mrs1) = read_from_sgl (side_memory s) (swqe_sgl wqe) (local_lkey wqe) (side_mrs s);
            s1 = s\<lparr>side_mrs := mrs1\<rparr>
        in
        if length data \<noteq> unat (swqe_total_length wqe) then ([], p, s1)
        else
          let qp = side_qp s;
              mtu = RdmaQueuePair_mtu_bytes qp;
              np = calculate_packet_count (swqe_total_length wqe) mtu;
              has_immediate = (swqe_opcode wqe = WqRdmaWriteImm);
              st = (wp_stats p)\<lparr>writes_started := writes_started (wp_stats p) + 1\<rparr>
          in
          if swqe_total_length wqe = 0 then
            let (psn, qp1) = RdmaQueuePair_next_send_psn qp;
                packet = RdmaPacketBuilder_build ser (zero_write_builder (dest_qp_number qp) wqe has_immediate psn);
                qp2 = RdmaQueuePair_add_pending_operation qp1 wqe 1;
                qp3 = RdmaQueuePair_record_packet_sent qp2 (length packet)
            in ([packet], p\<lparr>wp_stats := st\<lparr>write_packets_generated := write_packets_generated st + 1\<rparr>\<rparr>, s1\<lparr>side_qp := qp3\<rparr>)
          else
            let (packets, off, qp1) = packet_loop ser (write_builder (dest_qp_number qp) wqe has_immediate)
                  (unat mtu) (unat np) data 0 0 qp;
                st1 = st\<lparr>write_packets_generated := write_packets_generated st + of_nat (length packets),
                         ws_bytes_written := ws_bytes_written st + of_nat off\<rparr>
            in (packets, p\<lparr>wp_stats := st1\<rparr>, s1\<lparr>side_qp := RdmaQueuePair_add_pending_operation qp1 wqe np\<rparr>))"

section \<open>Responder\<close>

definition write_to_remote :: "RdmaSide \<Rightarrow> u64 \<Rightarrow> u32 \<Rightarrow> bytes \<Rightarrow> bool \<times> RdmaSide" where
  "write_to_remote s address rkey data =
     (let (ok, mrs1) = MemoryRegionTable_validate_rkey (side_mrs s) rkey (qpc_pd_handle (qp_config (side_qp s)))
            address (of_nat (length data)) True
      in if \<not> ok then (False, s\<lparr>side_mrs := mrs1\<rparr>)
         else let (r, mem1) = SimpleHostMemory_write (side_memory s) address data
              in (HostMemoryResult_ok r, s\<lparr>side_memory := mem1, side_mrs := mrs1\<rparr>))"

definition is_write_opcode :: "RdmaOpcode \<Rightarrow> bool" where
  "is_write_opcode op \<longleftrightarrow>
     op \<in> {kRcWriteFirst, kRcWriteMiddle, kRcWriteLast, kRcWriteLastImm, kRcWriteOnly, kRcWriteOnlyImm}"

definition write_nak :: "AethSyndrome \<Rightarrow> u32 \<Rightarrow> WriteResult" where
  "write_nak syndrome psn = WriteResult_default\<lparr>w_syndrome := syndrome, w_needs_ack := True, w_ack_psn := psn\<rparr>"

text \<open>The first packet of a message: the new message state, or the syndrome of the refusal.\<close>

definition start_write :: "RdmaSide \<Rightarrow> RdmaPacketParser \<Rightarrow> (AethSyndrome + WriteMessageState) \<times> RdmaSide" where
  "start_write s parser =
     (case p_reth parser of
        None \<Rightarrow> (Inl asInvalidRequest, s)
      | Some reth \<Rightarrow>
          let (ok, mrs1) = MemoryRegionTable_validate_rkey (side_mrs s) (reth_rkey reth)
                (qpc_pd_handle (qp_config (side_qp s))) (reth_virtual_address reth) (ucast (reth_dma_length reth)) True;
              s1 = s\<lparr>side_mrs := mrs1\<rparr>
          in if \<not> ok then (Inl asRemoteAccessError, s1)
             else (Inr \<lparr>wms_remote_address = reth_virtual_address reth, wms_rkey = reth_rkey reth,
                        wms_total_length = reth_dma_length reth, wms_bytes_written = 0,
                        wms_expected_psn = bth_psn (p_bth parser), wms_in_progress = True, wms_immediate_data = 0,
                        wms_has_immediate = False\<rparr>, s1))"

definition put_write_state :: "RdmaSide \<Rightarrow> WriteMessageState \<Rightarrow> WriteProcessor \<Rightarrow> WriteProcessor" where
  "put_write_state s ws p = p\<lparr>write_states := um_update (qp_number (side_qp s)) ws (write_states p)\<rparr>"

text \<open>After the payload is in memory: the counters, the immediate data, the completion and the ACK.\<close>

definition finish_write ::
  "WriteProcessor \<Rightarrow> RdmaSide \<Rightarrow> RdmaPacketParser \<Rightarrow> WriteMessageState \<Rightarrow> WriteResult \<times> WriteProcessor \<times> RdmaSide" where
  "finish_write p s parser ws =
     (let bth = p_bth parser; op = bth_opcode bth;
          payload = p_payload parser;
          ends = opcode_is_last op \<or> opcode_is_only op;
          qp1 = RdmaQueuePair_record_packet_received (RdmaQueuePair_advance_recv_psn (side_qp s)) (length payload);
          s1 = s\<lparr>side_qp := qp1\<rparr>;
          st = (wp_stats p)\<lparr>write_packets_processed := write_packets_processed (wp_stats p) + 1\<rparr>;
          ws1 = ws\<lparr>wms_bytes_written := wms_bytes_written ws + of_nat (length payload),
                   wms_expected_psn := advance_psn (bth_psn bth) 1\<rparr>;
          ws2 = (case p_immediate parser of None \<Rightarrow> ws1
                 | Some imm \<Rightarrow> ws1\<lparr>wms_has_immediate := True, wms_immediate_data := imm\<rparr>);
          ack = (\<lambda>r. if bth_ack_request bth \<or> ends
                     then r\<lparr>w_success := True, w_needs_ack := True, w_ack_psn := bth_psn bth, w_syndrome := asAck\<rparr>
                     else r\<lparr>w_success := True\<rparr>)
      in
      if ends then
        let ws3 = ws2\<lparr>wms_in_progress := False\<rparr>;
            p1 = put_write_state s ws3 (p\<lparr>wp_stats := st\<lparr>writes_completed := writes_completed st + 1\<rparr>\<rparr>);
            r = WriteResult_default\<lparr>w_is_message_complete := True\<rparr>
        in
        if wms_has_immediate ws3 then
          let (recv_wqe, qp2) = RdmaQueuePair_consume_recv qp1; s2 = s\<lparr>side_qp := qp2\<rparr> in
          case recv_wqe of
            None \<Rightarrow> (r\<lparr>w_syndrome := asRnrNak, w_needs_ack := True, w_ack_psn := bth_psn bth\<rparr>, p1, s2)
          | Some wqe \<Rightarrow>
              let cqe = RdmaCqe_default\<lparr>cqe_wr_id := rwqe_wr_id wqe, cqe_status := WsSuccess,
                    cqe_opcode := WqRdmaWriteImm, cqe_qp_number := qp_number (side_qp s),
                    bytes_completed := wms_bytes_written ws3, cqe_has_immediate := True,
                    cqe_immediate_data := wms_immediate_data ws3, cqe_is_send := False\<rparr>
              in (ack (r\<lparr>w_recv_cqe := Some cqe\<rparr>), p1, s2)
        else (ack r, p1, s1)
      else (ack WriteResult_default, put_write_state s ws2 (p\<lparr>wp_stats := st\<rparr>), s1))"

definition process_write_packet ::
  "WriteProcessor \<Rightarrow> RdmaSide \<Rightarrow> RdmaPacketParser \<Rightarrow> WriteResult \<times> WriteProcessor \<times> RdmaSide" where
  "process_write_packet p s parser =
     (let bth = p_bth parser; op = bth_opcode bth; qp = side_qp s;
          starts = opcode_is_first op \<or> opcode_is_only op;
          count_seq = (\<lambda>p. p\<lparr>wp_stats := (wp_stats p)\<lparr>ws_sequence_errors := ws_sequence_errors (wp_stats p) + 1\<rparr>\<rparr>)
      in
      if \<not> is_write_opcode op then (WriteResult_default, p, s)
      else if \<not> RdmaQueuePair_can_receive qp then (write_nak asInvalidRequest (bth_psn bth), p, s)
      else if bth_psn bth \<noteq> rq_psn qp then (write_nak asPsnSeqError (rq_psn qp), count_seq p, s)
      else
        let ws0 = (case um_lookup (write_states p) (qp_number qp) of None \<Rightarrow> WriteMessageState_default | Some ws \<Rightarrow> ws);
            p0 = put_write_state s ws0 p;
            (started, s1) = (if starts then start_write s parser else (Inr ws0, s))
        in
        case started of
          Inl syndrome \<Rightarrow>
            (write_nak syndrome (bth_psn bth),
             if syndrome = asRemoteAccessError
             then p0\<lparr>wp_stats := (wp_stats p0)\<lparr>ws_rkey_errors := ws_rkey_errors (wp_stats p0) + 1\<rparr>\<rparr> else p0, s1)
        | Inr ws \<Rightarrow>
            let p1 = put_write_state s ws p0 in
            if \<not> wms_in_progress ws then (write_nak asInvalidRequest (bth_psn bth), p1, s1)
            else if \<not> starts \<and> wms_expected_psn ws \<noteq> bth_psn bth
            then (write_nak asPsnSeqError (wms_expected_psn ws), count_seq p1, s1)
            else
              let write_addr = wms_remote_address ws + ucast (wms_bytes_written ws);
                  (ok, s2) = (if p_payload parser = [] then (True, s1)
                              else write_to_remote s1 write_addr (wms_rkey ws) (p_payload parser))
              in
              if \<not> ok then
                (write_nak asRemoteAccessError (bth_psn bth),
                 put_write_state s (ws\<lparr>wms_in_progress := False\<rparr>)
                   (p1\<lparr>wp_stats := (wp_stats p1)\<lparr>ws_access_errors := ws_access_errors (wp_stats p1) + 1\<rparr>\<rparr>), s2)
              else finish_write p1 s2 parser ws)"

definition WriteProcessor_reset :: "WriteProcessor \<Rightarrow> WriteProcessor" where
  "WriteProcessor_reset p = \<lparr>wp_stats = WriteStats_zero, write_states = []\<rparr>"

definition clear_write_state :: "WriteProcessor \<Rightarrow> u32 \<Rightarrow> WriteProcessor" where
  "clear_write_state p n = p\<lparr>write_states := um_erase n (write_states p)\<rparr>"

section \<open>Packets of a write request\<close>

lemma psn_masked: "psn_ok p \<Longrightarrow> p AND kMaxPsn = p"
  by (simp add: word_unat_eq_iff unat_and_kMaxPsn)

lemma write_builder_reachable:
  "builder_reachable (write_builder q wqe imm f l psn c)" "builder_reachable (zero_write_builder q wqe imm psn)"
  unfolding write_builder_def zero_write_builder_def Let_def by (auto intro!: builder_reachable.intros)

lemma write_builder_fields:
  "b_opcode (write_builder q wqe imm f l psn c) = get_write_opcode f l (imm \<and> l)"
  "b_has_immediate (write_builder q wqe imm f l psn c) = (imm \<and> l)"
  "b_opcode (zero_write_builder q wqe imm psn) = get_write_opcode True True imm"
  "b_has_immediate (zero_write_builder q wqe imm psn) = imm"
  by (simp_all add: write_builder_def zero_write_builder_def builder_setters RdmaPacketBuilder_new_def Let_def get_write_opcode_def)

lemma write_opcode_classes:
  "is_write_opcode (get_write_opcode f l i)"
  "opcode_is_first (get_write_opcode f l i) \<or> opcode_is_only (get_write_opcode f l i) \<longleftrightarrow> f"
  "opcode_is_last (get_write_opcode f l i) \<or> opcode_is_only (get_write_opcode f l i) \<longleftrightarrow> l"
  "needs_reth (get_write_opcode f l i) \<longleftrightarrow> f"
  "has_immediate_variant (get_write_opcode f l i) \<longleftrightarrow> i \<and> l"
  by (simp_all add: get_write_opcode_def is_write_opcode_def opcode_defs)

text \<open>What the responder's parser holds for a packet of the message.\<close>

lemma write_parsed:
  assumes "psn_ok psn"
  shows "bth_opcode (p_bth (parsed_builder (write_builder q wqe imm f l psn c))) = get_write_opcode f l (imm \<and> l)"
    "bth_psn (p_bth (parsed_builder (write_builder q wqe imm f l psn c))) = psn"
    "bth_ack_request (p_bth (parsed_builder (write_builder q wqe imm f l psn c))) = l"
    "p_payload (parsed_builder (write_builder q wqe imm f l psn c)) = c"
    "p_reth (parsed_builder (write_builder q wqe imm f l psn c)) =
       (if f then Some \<lparr>reth_virtual_address = remote_address wqe, reth_rkey = swqe_rkey wqe,
                        reth_dma_length = swqe_total_length wqe\<rparr> else None)"
    "p_immediate (parsed_builder (write_builder q wqe imm f l psn c)) =
       (if imm \<and> l then Some (swqe_immediate_data wqe) else None)"
  using psn_masked [OF assms]
  by (simp_all add: parsed_builder_def write_builder_fields write_opcode_classes)
    (simp_all add: write_builder_def builder_setters RdmaPacketBuilder_new_def Let_def)

lemma zero_write_parsed:
  assumes "psn_ok psn" and "swqe_total_length wqe = 0"
  shows "parsed_builder (zero_write_builder q wqe imm psn) = parsed_builder (write_builder q wqe imm True True psn [])"
  using assms by (cases imm)
    (simp_all add: parsed_builder_def zero_write_builder_def write_builder_def builder_setters RdmaPacketBuilder_new_def Let_def
      get_write_opcode_def pad_count_of_def)

section \<open>A packet at the responder\<close>

text \<open>The responder can place \<open>len\<close> bytes at \<open>a\<close>: the key grants the range and the memory has it.\<close>

definition write_target :: "RdmaSide \<Rightarrow> u32 \<Rightarrow> u64 \<Rightarrow> u32 \<Rightarrow> bool" where
  "write_target s rkey a len \<longleftrightarrow>
     fst (MemoryRegionTable_validate_rkey (side_mrs s) rkey (qpc_pd_handle (qp_config (side_qp s))) a (ucast len) True)
     \<and> mem_flat (side_memory s) \<and> unat a + unat len \<le> length (mem_buffer (side_memory s))"

definition active_write :: "SendWqe \<Rightarrow> u32 \<Rightarrow> nat \<Rightarrow> WriteMessageState" where
  "active_write wqe psn k = \<lparr>wms_remote_address = remote_address wqe, wms_rkey = swqe_rkey wqe,
     wms_total_length = swqe_total_length wqe, wms_bytes_written = of_nat k, wms_expected_psn = psn,
     wms_in_progress = True, wms_immediate_data = 0, wms_has_immediate = False\<rparr>"

lemma active_write_fields:
  "wms_remote_address (active_write wqe psn k) = remote_address wqe" "wms_rkey (active_write wqe psn k) = swqe_rkey wqe"
  "wms_bytes_written (active_write wqe psn k) = of_nat k" "wms_expected_psn (active_write wqe psn k) = psn"
  "wms_in_progress (active_write wqe psn k)" "\<not> wms_has_immediate (active_write wqe psn k)"
  by (simp_all add: active_write_def)

text \<open>The side after \<open>c\<close> was written at offset \<open>k\<close> of the message.\<close>

definition wrote :: "SendWqe \<Rightarrow> nat \<Rightarrow> bytes \<Rightarrow> RdmaSide \<Rightarrow> RdmaSide \<Rightarrow> bool" where
  "wrote wqe k c s s' \<longleftrightarrow> side_qp s' = side_qp s \<and> mrs_by_rkey (side_mrs s') = mrs_by_rkey (side_mrs s) \<and>
     side_memory s' = (side_memory s)\<lparr>mem_buffer := memcpy_at (unat (remote_address wqe) + k) c (mem_buffer (side_memory s))\<rparr>"

lemma write_target_mono:
  assumes "write_target s r a len" and "mrs_by_rkey (side_mrs s') = mrs_by_rkey (side_mrs s)"
    and "qp_config (side_qp s') = qp_config (side_qp s)" and "mem_flat (side_memory s')"
    and "length (mem_buffer (side_memory s')) = length (mem_buffer (side_memory s))"
  shows "write_target s' r a len"
  using assms by (simp add: write_target_def validate_rkey_eq)

lemma write_to_remote_ok:
  assumes t: "write_target s (swqe_rkey wqe) (remote_address wqe) (swqe_total_length wqe)"
    and k: "k + length c \<le> unat (swqe_total_length wqe)"
  obtains s' where "write_to_remote s (remote_address wqe + ucast (of_nat k :: u32)) (swqe_rkey wqe) c = (True, s')"
    "wrote wqe k c s s'"
proof -
  let ?a = "remote_address wqe" and ?len = "swqe_total_length wqe"
  let ?pd = "qpc_pd_handle (qp_config (side_qp s))"
  have fit: "unat ?a + unat ?len \<le> length (mem_buffer (side_memory s))" and flat: "mem_flat (side_memory s)"
    using t by (simp_all add: write_target_def)
  then have lt: "unat ?a + unat ?len < 2 ^ 64" by (simp add: mem_flat_def)
  have u: "(ucast (of_nat k :: u32) :: u64) = of_nat k" and uk: "unat (of_nat k :: u64) = k"
    and uc: "unat (of_nat (length c) :: u64) = length c" and ul: "unat (ucast ?len :: u64) = unat ?len"
    using k unat_u32_less [of ?len] by (simp_all add: ucast_of_nat32 unat_of_nat64 unat_ucast_up)
  obtain ok mrs1 where v: "MemoryRegionTable_validate_rkey (side_mrs s) (swqe_rkey wqe) ?pd (?a + of_nat k)
      (of_nat (length c)) True = (ok, mrs1)" by fastforce
  have "fst (MemoryRegionTable_validate_rkey (side_mrs s) (swqe_rkey wqe) ?pd (?a + of_nat k) (of_nat (length c)) True)"
    using t k lt ul uk uc unfolding write_target_def by (intro validate_rkey_sub [where len = "ucast ?len"]) auto
  then have ok: "ok" and m: "mrs_by_rkey mrs1 = mrs_by_rkey (side_mrs s)"
    using v by (simp, metis snd_conv validate_rkey_frame)
  have ak: "unat (?a + of_nat k) = unat ?a + k" using lt k uk by (simp add: unat_word_ariths)
  have "SimpleHostMemory_write (side_memory s) (?a + of_nat k) c = (\<lparr>hm_error = HmNone, hm_bytes_processed = length c\<rparr>,
      (side_memory s)\<lparr>mem_buffer := memcpy_at (unat ?a + k) c (mem_buffer (side_memory s))\<rparr>)"
    using flat_write [OF flat, of "?a + of_nat k" c] fit k ak by simp
  with v ok have "write_to_remote s (?a + ucast (of_nat k :: u32)) (swqe_rkey wqe) c = (True, s\<lparr>side_memory :=
      (side_memory s)\<lparr>mem_buffer := memcpy_at (unat ?a + k) c (mem_buffer (side_memory s))\<rparr>, side_mrs := mrs1\<rparr>)"
    by (simp add: write_to_remote_def u)
  then show thesis by (rule that) (simp add: wrote_def m)
qed

lemma start_write_ok:
  assumes t: "write_target s (swqe_rkey wqe) (remote_address wqe) (swqe_total_length wqe)" and psn: "psn_ok psn"
  obtains s' where "start_write s (parsed_builder (write_builder q wqe imm True l psn c)) = (Inr (active_write wqe psn 0), s')"
    "wrote wqe 0 [] s s'"
proof -
  obtain ok mrs1 where v: "MemoryRegionTable_validate_rkey (side_mrs s) (swqe_rkey wqe) (qpc_pd_handle (qp_config (side_qp s)))
      (remote_address wqe) (ucast (swqe_total_length wqe)) True = (ok, mrs1)" by fastforce
  then have "ok" and m: "mrs_by_rkey mrs1 = mrs_by_rkey (side_mrs s)"
    using t by (simp add: write_target_def, metis snd_conv validate_rkey_frame)
  then have "start_write s (parsed_builder (write_builder q wqe imm True l psn c)) =
      (Inr (active_write wqe psn 0), s\<lparr>side_mrs := mrs1\<rparr>)"
    using v by (simp add: start_write_def write_parsed [OF psn] active_write_def)
  then show thesis by (rule that) (simp add: wrote_def m)
qed

lemma wrote_target:
  assumes "wrote wqe k c s s'" and "write_target s r (remote_address wqe) len" and "k + length c \<le> unat len"
  shows "write_target s' r (remote_address wqe) len"
  by (rule write_target_mono [OF assms(2)])
    (use assms in \<open>simp_all add: wrote_def write_target_def mem_flat_def\<close>)

lemma wrote_Nil_trans: "wrote wqe 0 [] s s1 \<Longrightarrow> wrote wqe k c s1 s2 \<Longrightarrow> wrote wqe k c s s2"
  by (simp add: wrote_def)

lemma write_payload_ok:
  assumes "write_target s (swqe_rkey wqe) (remote_address wqe) (swqe_total_length wqe)"
    and "k + length c \<le> unat (swqe_total_length wqe)"
  obtains s' where "(if c = [] then (True, s)
      else write_to_remote s (remote_address wqe + ucast (of_nat k :: u32)) (swqe_rkey wqe) c) = (True, s')"
    "wrote wqe k c s s'"
proof (cases "c = []")
  case True
  then show thesis by (intro that [of s]) (simp_all add: wrote_def)
next
  case False
  with write_to_remote_ok [OF assms] that show thesis by metis
qed

lemma write_accepts:
  assumes ready: "RdmaQueuePair_can_receive (side_qp s)" and psn: "psn_ok psn" "rq_psn (side_qp s) = psn"
    and t: "write_target s (swqe_rkey wqe) (remote_address wqe) (swqe_total_length wqe)"
    and k: "k + length c \<le> unat (swqe_total_length wqe)" and f: "f \<Longrightarrow> k = 0"
    and act: "\<not> f \<Longrightarrow> um_lookup (write_states p) (qp_number (side_qp s)) = Some (active_write wqe psn k)"
  obtains p1 s2 where "process_write_packet p s (parsed_builder (write_builder q wqe imm f l psn c)) =
      finish_write p1 s2 (parsed_builder (write_builder q wqe imm f l psn c)) (active_write wqe psn k)"
    "wrote wqe k c s s2"
proof -
  let ?pk = "parsed_builder (write_builder q wqe imm f l psn c)" and ?ws = "active_write wqe psn k"
  define ws0 where "ws0 = (case um_lookup (write_states p) (qp_number (side_qp s)) of
      None \<Rightarrow> WriteMessageState_default | Some ws \<Rightarrow> ws)"
  obtain s1 where s1: "(if f then start_write s ?pk else (Inr ws0, s)) = (Inr ?ws, s1)" "wrote wqe 0 [] s s1"
  proof (cases f)
    case True
    then show thesis using start_write_ok [OF t psn(1)] f that by metis
  next
    case False
    then show thesis using act by (intro that [of s]) (simp_all add: ws0_def wrote_def)
  qed
  obtain s2 where s2: "(if c = [] then (True, s1)
      else write_to_remote s1 (remote_address wqe + ucast (of_nat k :: u32)) (swqe_rkey wqe) c) = (True, s2)"
    "wrote wqe k c s1 s2"
    using write_payload_ok [OF wrote_target [OF s1(2) t] k] by auto
  have "process_write_packet p s ?pk = finish_write (put_write_state s ?ws (put_write_state s ws0 p)) s2 ?pk ?ws"
    by (simp only: process_write_packet_def Let_def write_parsed [OF psn(1)] write_opcode_classes ws0_def [symmetric]
        s1(1) prod.case sum.case active_write_fields psn(2) ready s2(1) simp_thms if_True if_False)
  then show thesis using that wrote_Nil_trans [OF s1(2) s2(2)] by blast
qed

lemmas recv_frames = RdmaQueuePair_record_packet_received_def RdmaQueuePair_advance_recv_psn_def

text \<open>A packet that does not end the message.\<close>

lemma finish_write_more:
  assumes "psn_ok psn"
  shows "\<exists>st. finish_write p s (parsed_builder (write_builder q wqe imm f False psn c)) (active_write wqe psn k) =
    (WriteResult_default\<lparr>w_success := True\<rparr>,
     put_write_state s (active_write wqe (advance_psn psn 1) (k + length c)) (p\<lparr>wp_stats := st\<rparr>),
     s\<lparr>side_qp := RdmaQueuePair_record_packet_received (RdmaQueuePair_advance_recv_psn (side_qp s)) (length c)\<rparr>)"
  using write_opcode_classes(3) [of f False "imm \<and> False"]
  by (intro exI) (simp add: finish_write_def write_parsed [OF assms] Let_def active_write_def)

definition write_cqe :: "u32 \<Rightarrow> SendWqe \<Rightarrow> RecvWqe \<Rightarrow> RdmaCqe" where
  "write_cqe n wqe rwqe = \<lparr>cqe_wr_id = rwqe_wr_id rwqe, cqe_status = WsSuccess, cqe_opcode = WqRdmaWriteImm,
     cqe_qp_number = n, bytes_completed = swqe_total_length wqe, cqe_immediate_data = swqe_immediate_data wqe,
     cqe_has_immediate = True, cqe_is_send = False\<rparr>"

lemma finish_write_end:
  assumes psn: "psn_ok psn" and k: "k + length c = unat (swqe_total_length wqe)"
    and ready: "RdmaQueuePair_can_receive (side_qp s)" and imm: "imm \<Longrightarrow> recv_queue (side_qp s) \<noteq> []"
  shows "\<exists>p' qp'. finish_write p s (parsed_builder (write_builder q wqe imm f True psn c)) (active_write wqe psn k) =
    (WriteResult_default\<lparr>w_success := True, w_is_message_complete := True, w_needs_ack := True, w_ack_psn := psn,
       w_recv_cqe := if imm then Some (write_cqe (qp_number (side_qp s)) wqe (hd (recv_queue (side_qp s)))) else None\<rparr>,
     p', s\<lparr>side_qp := qp'\<rparr>) \<and> rq_psn qp' = advance_psn (rq_psn (side_qp s)) 1
    \<and> recv_queue qp' = (if imm then tl (recv_queue (side_qp s)) else recv_queue (side_qp s))"
proof -
  have n: "of_nat k + of_nat (length c) = swqe_total_length wqe"
    using arg_cong [OF k, of "of_nat :: nat \<Rightarrow> u32"] by simp
  have e: "opcode_is_last (get_write_opcode f True i) \<or> opcode_is_only (get_write_opcode f True i)" for i
    using write_opcode_classes(3) by blast
  show ?thesis
  proof (cases imm)
    case True
    then obtain r rs where q: "recv_queue (side_qp s) = r # rs" using imm by (cases "recv_queue (side_qp s)") auto
    have "RdmaQueuePair_consume_recv (RdmaQueuePair_record_packet_received (RdmaQueuePair_advance_recv_psn (side_qp s)) (length c))
      = (Some r, (RdmaQueuePair_record_packet_received (RdmaQueuePair_advance_recv_psn (side_qp s)) (length c))\<lparr>recv_queue := rs\<rparr>)"
      using ready q by (simp add: RdmaQueuePair_consume_recv_def RdmaQueuePair_can_receive_def recv_frames)
    then show ?thesis
      using True q e [of True] n
      by (simp add: finish_write_def write_parsed [OF psn] Let_def active_write_def WriteResult_default_def write_cqe_def
          RdmaCqe_default_def) (auto simp: recv_frames)
  next
    case False
    then show ?thesis
      using e [of False] by (simp add: finish_write_def write_parsed [OF psn] Let_def active_write_def WriteResult_default_def)
        (auto simp: recv_frames)
  qed
qed

section \<open>A message at the responder\<close>

fun write_run :: "WriteProcessor \<Rightarrow> RdmaSide \<Rightarrow> RdmaPacketParser list \<Rightarrow> WriteResult list \<times> WriteProcessor \<times> RdmaSide" where
  "write_run p s [] = ([], p, s)"
| "write_run p s (q # qs) =
     (let (r, p1, s1) = process_write_packet p s q; (rs, p2, s2) = write_run p1 s1 qs in (r # rs, p2, s2))"

text \<open>The answer to the last packet of a message whose first sequence number is \<open>psn\<close>.\<close>

definition write_answer :: "SendWqe \<Rightarrow> bool \<Rightarrow> RdmaQueuePair \<Rightarrow> u32 \<Rightarrow> WriteResult" where
  "write_answer wqe imm qp psn = \<lparr>w_success = True, w_needs_ack = True, w_is_message_complete = True, w_ack_psn = psn,
     w_syndrome = asAck,
     w_recv_cqe = (if imm then Some (write_cqe (qp_number qp) wqe (hd (recv_queue qp))) else None)\<rparr>"

text \<open>The responder waits for the packet \<open>psn\<close> of the message, \<open>k\<close> bytes of which have arrived; \<open>f\<close> says that it
  is the first one.\<close>

definition write_ready :: "WriteProcessor \<Rightarrow> RdmaSide \<Rightarrow> SendWqe \<Rightarrow> bool \<Rightarrow> bool \<Rightarrow> u32 \<Rightarrow> nat \<Rightarrow> bool" where
  "write_ready p s wqe imm f psn k \<longleftrightarrow>
     RdmaQueuePair_can_receive (side_qp s) \<and> psn_ok psn \<and> rq_psn (side_qp s) = psn
     \<and> write_target s (swqe_rkey wqe) (remote_address wqe) (swqe_total_length wqe)
     \<and> (if f then k = 0 else um_lookup (write_states p) (qp_number (side_qp s)) = Some (active_write wqe psn k))
     \<and> (imm \<longrightarrow> recv_queue (side_qp s) \<noteq> [])"

definition placed :: "SendWqe \<Rightarrow> nat \<Rightarrow> bytes \<Rightarrow> SimpleHostMemory \<Rightarrow> SimpleHostMemory" where
  "placed wqe k c m = m\<lparr>mem_buffer := memcpy_at (unat (remote_address wqe) + k) c (mem_buffer m)\<rparr>"

lemma write_ready_accepts:
  assumes "write_ready p s wqe imm f psn k" and "k + length c \<le> unat (swqe_total_length wqe)"
  obtains p1 s2 where "process_write_packet p s (parsed_builder (write_builder q wqe imm f l psn c)) =
      finish_write p1 s2 (parsed_builder (write_builder q wqe imm f l psn c)) (active_write wqe psn k)"
    "wrote wqe k c s s2" "side_qp s2 = side_qp s" "side_memory s2 = placed wqe k c (side_memory s)"
    "write_target s2 (swqe_rkey wqe) (remote_address wqe) (swqe_total_length wqe)"
proof -
  note r = assms(1) [unfolded write_ready_def]
  obtain p1 s2 where s2: "process_write_packet p s (parsed_builder (write_builder q wqe imm f l psn c)) =
      finish_write p1 s2 (parsed_builder (write_builder q wqe imm f l psn c)) (active_write wqe psn k)" "wrote wqe k c s s2"
    by (rule write_accepts [where p = p and s = s and psn = psn and c = c and k = k and f = f])
      (use r assms(2) in \<open>auto split: if_splits\<close>)
  then show thesis
    using wrote_target [OF s2(2), of "swqe_rkey wqe" "swqe_total_length wqe"] r assms(2)
    by (intro that) (auto simp: wrote_def placed_def)
qed

lemma write_step_more:
  assumes r: "write_ready p s wqe imm f psn k" and k: "k + length c \<le> unat (swqe_total_length wqe)"
  shows "\<exists>p' s'. process_write_packet p s (parsed_builder (write_builder q wqe imm f False psn c)) =
      (WriteResult_default\<lparr>w_success := True\<rparr>, p', s')
    \<and> write_ready p' s' wqe imm False (advance_psn psn 1) (k + length c)
    \<and> side_memory s' = placed wqe k c (side_memory s) \<and> qp_number (side_qp s') = qp_number (side_qp s)
    \<and> recv_queue (side_qp s') = recv_queue (side_qp s)"
proof -
  obtain p1 s2 where step: "process_write_packet p s (parsed_builder (write_builder q wqe imm f False psn c)) =
      finish_write p1 s2 (parsed_builder (write_builder q wqe imm f False psn c)) (active_write wqe psn k)"
    and s2: "side_qp s2 = side_qp s" "side_memory s2 = placed wqe k c (side_memory s)"
    and t2: "write_target s2 (swqe_rkey wqe) (remote_address wqe) (swqe_total_length wqe)"
    using write_ready_accepts [OF r k] by metis
  define s3 where "s3 = s2\<lparr>side_qp := RdmaQueuePair_record_packet_received (RdmaQueuePair_advance_recv_psn (side_qp s2)) (length c)\<rparr>"
  obtain st where "finish_write p1 s2 (parsed_builder (write_builder q wqe imm f False psn c)) (active_write wqe psn k) =
      (WriteResult_default\<lparr>w_success := True\<rparr>,
       put_write_state s2 (active_write wqe (advance_psn psn 1) (k + length c)) (p1\<lparr>wp_stats := st\<rparr>), s3)"
    using finish_write_more [of psn p1 s2 q wqe imm f c k] r by (auto simp: s3_def write_ready_def)
  moreover have t3: "write_target s3 (swqe_rkey wqe) (remote_address wqe) (swqe_total_length wqe)"
    using t2 by (simp add: write_target_def s3_def recv_frames)
  ultimately show ?thesis
    using step r s2 by (auto simp: write_ready_def s3_def recv_frames RdmaQueuePair_can_receive_def put_write_state_def)
qed

lemma write_step_end:
  assumes r: "write_ready p s wqe imm f psn k" and k: "k + length c = unat (swqe_total_length wqe)"
  shows "\<exists>p' s'. process_write_packet p s (parsed_builder (write_builder q wqe imm f True psn c)) =
      (write_answer wqe imm (side_qp s) psn, p', s')
    \<and> side_memory s' = placed wqe k c (side_memory s) \<and> rq_psn (side_qp s') = advance_psn psn 1"
proof -
  obtain p1 s2 where step: "process_write_packet p s (parsed_builder (write_builder q wqe imm f True psn c)) =
      finish_write p1 s2 (parsed_builder (write_builder q wqe imm f True psn c)) (active_write wqe psn k)"
    and s2: "side_qp s2 = side_qp s" "side_memory s2 = placed wqe k c (side_memory s)"
    using write_ready_accepts [OF r] k by (metis order_refl)
  with finish_write_end [OF _ k, of psn s2 imm p1 q f] r show ?thesis
    by (auto simp: write_ready_def write_answer_def WriteResult_default_def)
qed

lemma write_run_message:
  assumes "cs \<noteq> []" and "write_ready p s wqe imm f psn k" and "k + length (concat cs) = unat (swqe_total_length wqe)"
  shows "\<exists>rs p' s'. write_run p s (map parsed_builder (message_builders (write_builder q wqe imm) f psn cs)) = (rs, p', s')
    \<and> rs = replicate (length cs - 1) (WriteResult_default\<lparr>w_success := True\<rparr>)
        @ [write_answer wqe imm (side_qp s) (advance_psn psn (of_nat (length cs - 1)))]
    \<and> side_memory s' = placed wqe k (concat cs) (side_memory s)
    \<and> rq_psn (side_qp s') = advance_psn psn (of_nat (length cs))"
  using assms
proof (induction cs arbitrary: s p psn k f)
  case (Cons c cs)
  show ?case
  proof (cases "cs = []")
    case True
    then show ?thesis
      using write_step_end [OF Cons.prems(2), of c q] Cons.prems(2,3)
      by (auto simp: advance_psn_0 write_ready_def write_answer_def)
  next
    case False
    obtain p3 s3 where step: "process_write_packet p s (parsed_builder (write_builder q wqe imm f False psn c)) =
        (WriteResult_default\<lparr>w_success := True\<rparr>, p3, s3)"
      and r3: "write_ready p3 s3 wqe imm False (advance_psn psn 1) (k + length c)"
      and s3: "side_memory s3 = placed wqe k c (side_memory s)" "qp_number (side_qp s3) = qp_number (side_qp s)"
        "recv_queue (side_qp s3) = recv_queue (side_qp s)"
      using write_step_more [OF Cons.prems(2), of c q] Cons.prems(3) by auto
    obtain rs p' s' where IH:
      "write_run p3 s3 (map parsed_builder (message_builders (write_builder q wqe imm) False (advance_psn psn 1) cs)) = (rs, p', s')"
      "rs = replicate (length cs - 1) (WriteResult_default\<lparr>w_success := True\<rparr>)
        @ [write_answer wqe imm (side_qp s3) (advance_psn (advance_psn psn 1) (of_nat (length cs - 1)))]"
      "side_memory s' = placed wqe (k + length c) (concat cs) (side_memory s3)"
      "rq_psn (side_qp s') = advance_psn (advance_psn psn 1) (of_nat (length cs))"
      using Cons.IH [OF False r3] Cons.prems(3) by auto
    have "placed wqe (k + length c) (concat cs) (side_memory s3) = placed wqe k (c @ concat cs) (side_memory s)"
      using memcpy_at_twice [of "unat (remote_address wqe) + k" c "concat cs" "mem_buffer (side_memory s)"] Cons.prems(2,3)
      by (simp add: s3 placed_def write_ready_def write_target_def add.assoc)
    moreover have "advance_psn (advance_psn psn 1) (of_nat (length cs - 1)) = advance_psn psn (of_nat (length cs))"
      using advance_psn_Suc [of psn "length cs - 1"] False by simp
    moreover have "write_answer wqe imm (side_qp s3) = write_answer wqe imm (side_qp s)"
      by (simp add: write_answer_def s3 fun_eq_iff)
    moreover have "replicate (length cs) x = x # replicate (length cs - 1) x" for x :: WriteResult
      using False by (cases cs) simp_all
    ultimately show ?thesis
      using IH step False advance_psn_Suc [of psn "length cs"] by simp
  qed
qed simp

section \<open>The requester's packets\<close>

definition write_builders :: "RdmaQueuePair \<Rightarrow> SendWqe \<Rightarrow> bytes \<Rightarrow> RdmaPacketBuilder list" where
  "write_builders qp wqe data =
     (let imm = (swqe_opcode wqe = WqRdmaWriteImm) in
      if data = [] then [zero_write_builder (dest_qp_number qp) wqe imm (sq_psn qp)]
      else message_builders (write_builder (dest_qp_number qp) wqe imm) True (sq_psn qp)
             (chunks (unat (RdmaQueuePair_mtu_bytes qp)) data))"

lemma write_builders_sound: "\<forall>b \<in> set (write_builders qp wqe data). sound_builder b"
proof -
  have "sound_builder (write_builder q wqe imm f l psn c)" "sound_builder (zero_write_builder q wqe imm psn)" for q imm f l psn c
    by (simp_all add: sound_builder_def write_builder_reachable write_builder_fields write_opcode_classes)
  then show ?thesis
    using message_builders_all [of sound_builder "write_builder (dest_qp_number qp) wqe (swqe_opcode wqe = WqRdmaWriteImm)"]
    by (simp add: write_builders_def Let_def)
qed

lemma write_builders_parsed:
  assumes "psn_ok (sq_psn qp)" and "length data = unat (swqe_total_length wqe)"
  shows "map parsed_builder (write_builders qp wqe data) = map parsed_builder
    (message_builders (write_builder (dest_qp_number qp) wqe (swqe_opcode wqe = WqRdmaWriteImm)) True (sq_psn qp)
      (if data = [] then [[]] else chunks (unat (RdmaQueuePair_mtu_bytes qp)) data))"
  using assms zero_write_parsed [OF assms(1), of wqe] by (auto simp: write_builders_def Let_def unat_eq_0)

lemma generate_write_builders:
  assumes op: "swqe_opcode wqe \<in> {WqRdmaWrite, WqRdmaWriteImm}"
    and data: "fst (read_from_sgl (side_memory s) (swqe_sgl wqe) (local_lkey wqe) (side_mrs s)) = data"
    and len: "length data = unat (swqe_total_length wqe)"
    and size: "unat (swqe_total_length wqe) + unat (RdmaQueuePair_mtu_bytes (side_qp s)) \<le> 2 ^ 32"
    and psn: "psn_ok (sq_psn (side_qp s))"
  shows "\<exists>p' s'. generate_write_packets ser p s wqe = (map (RdmaPacketBuilder_build ser) (write_builders (side_qp s) wqe data), p', s')
    \<and> sq_psn (side_qp s') = advance_psn (sq_psn (side_qp s)) (of_nat (length (write_builders (side_qp s) wqe data)))"
proof -
  let ?qp = "side_qp s" and ?mtu = "RdmaQueuePair_mtu_bytes (side_qp s)" and ?len = "swqe_total_length wqe"
  obtain mrs1 where rd: "read_from_sgl (side_memory s) (swqe_sgl wqe) (local_lkey wqe) (side_mrs s) = (data, mrs1)"
    using data by (metis prod.collapse)
  have op': "\<not> (swqe_opcode wqe \<noteq> WqRdmaWrite \<and> swqe_opcode wqe \<noteq> WqRdmaWriteImm)" using op by auto
  show ?thesis
  proof (cases "?len = 0")
    case True
    then have "data = []" using len by simp
    then show ?thesis
      using True rd op' by (simp add: generate_write_packets_def write_builders_def Let_def RdmaQueuePair_next_send_psn_def
          RdmaQueuePair_add_pending_operation_def RdmaQueuePair_record_packet_sent_def)
  next
    case False
    then have ne: "data \<noteq> []" using len by (auto simp: unat_eq_0)
    have cnt: "unat (calculate_packet_count ?len ?mtu) = length (chunks (unat ?mtu) data)"
      by (rule packet_count_chunks [OF len False mtu_bounds(1) size])
    obtain st where loop: "packet_loop ser (write_builder (dest_qp_number ?qp) wqe (swqe_opcode wqe = WqRdmaWriteImm)) (unat ?mtu)
        (unat (calculate_packet_count ?len ?mtu)) data 0 0 ?qp =
        (map (RdmaPacketBuilder_build ser) (write_builders ?qp wqe data), length data,
         ?qp\<lparr>sq_psn := advance_psn (sq_psn ?qp) (of_nat (length (write_builders ?qp wqe data))), qp_stats := st\<rparr>)"
      using packet_loop_message [OF mtu_bounds(1) cnt psn] ne by (auto simp: write_builders_def Let_def)
    show ?thesis
      using rd op' len False loop
      by (auto simp: generate_write_packets_def Let_def RdmaQueuePair_add_pending_operation_def)
  qed
qed

text \<open>The responder accepts every packet of the requester, and only the last one asks for an answer.\<close>

lemma write_delivers:
  assumes packer: "bit_packer ser des"
    and op: "swqe_opcode wqe \<in> {WqRdmaWrite, WqRdmaWriteImm}"
    and data: "fst (read_from_sgl (side_memory a) (swqe_sgl wqe) (local_lkey wqe) (side_mrs a)) = data"
    and len: "length data = unat (swqe_total_length wqe)"
    and size: "unat (swqe_total_length wqe) + unat (RdmaQueuePair_mtu_bytes (side_qp a)) \<le> 2 ^ 32"
    and psn: "psn_ok (sq_psn (side_qp a))" "rq_psn (side_qp b) = sq_psn (side_qp a)"
    and ready: "RdmaQueuePair_can_receive (side_qp b)"
    and target: "write_target b (swqe_rkey wqe) (remote_address wqe) (swqe_total_length wqe)"
    and imm: "swqe_opcode wqe = WqRdmaWriteImm \<Longrightarrow> recv_queue (side_qp b) \<noteq> []"
    and gen: "generate_write_packets ser p a wqe = (packets, p', a')"
  shows "\<exists>rs q' b'. write_run q b (parse_all des packets) = (rs, q', b')
    \<and> packets \<noteq> [] \<and> rs = replicate (length packets - 1) (WriteResult_default\<lparr>w_success := True\<rparr>)
        @ [write_answer wqe (swqe_opcode wqe = WqRdmaWriteImm) (side_qp b) (advance_psn (sq_psn (side_qp a)) (of_nat (length packets - 1)))]
    \<and> side_memory b' = (side_memory b)\<lparr>mem_buffer := memcpy_at (unat (remote_address wqe)) data (mem_buffer (side_memory b))\<rparr>
    \<and> rq_psn (side_qp b') = sq_psn (side_qp a')"
proof -
  let ?imm = "swqe_opcode wqe = WqRdmaWriteImm" and ?mk = "write_builder (dest_qp_number (side_qp a)) wqe"
  define cs where "cs = (if data = [] then [[]] else chunks (unat (RdmaQueuePair_mtu_bytes (side_qp a))) data)"
  have cs: "cs \<noteq> []" "concat cs = data"
    using mtu_bounds(1) by (auto simp: cs_def chunks_Nil_iff concat_chunks)
  have bs: "packets = map (RdmaPacketBuilder_build ser) (write_builders (side_qp a) wqe data)"
    "sq_psn (side_qp a') = advance_psn (sq_psn (side_qp a)) (of_nat (length packets))"
    using generate_write_builders [OF op data len size psn(1), of ser p] gen by auto
  have parsed: "parse_all des packets = map parsed_builder (message_builders (?mk ?imm) True (sq_psn (side_qp a)) cs)"
    unfolding bs(1) parse_all_built [OF packer write_builders_sound] cs_def by (rule write_builders_parsed [OF psn(1) len])
  have np: "length packets = length cs"
    using arg_cong [OF write_builders_parsed [OF psn(1) len], of length] by (simp add: bs(1) cs_def)
  have "write_ready q b wqe ?imm True (sq_psn (side_qp a)) 0"
    using psn ready target imm by (simp add: write_ready_def)
  moreover have "packets \<noteq> []" using cs(1) np by auto
  ultimately show ?thesis
    unfolding parsed using write_run_message [OF cs(1), of q b wqe ?imm True] cs len np bs(2) by (fastforce simp: placed_def)
qed

section \<open>Properties\<close>

text \<open>An RDMA write request is carried out. The requester turns a request whose local buffer it can read into packets;
  a responder that expects the requester's next sequence number, whose region table grants the key the whole range and
  whose memory holds it, and that has a receive request posted if there is immediate data, accepts every one of them
  in order. Its memory then differs from before in the range alone, where it holds exactly the requester's data; both
  ends agree on the next sequence number; and the answer to the last packet acknowledges it and carries the completion
  of the immediate data. The message must be shorter than 4 GiB by the MTU, where the packet count overflows.\<close>

theorem rdma_write_delivers:
  assumes packer: "bit_packer ser des"
    and op: "swqe_opcode wqe \<in> {WqRdmaWrite, WqRdmaWriteImm}"
    and data: "fst (read_from_sgl (side_memory a) (swqe_sgl wqe) (local_lkey wqe) (side_mrs a)) = data"
    and len: "length data = unat (swqe_total_length wqe)"
    and size: "unat (swqe_total_length wqe) + unat (RdmaQueuePair_mtu_bytes (side_qp a)) \<le> 2 ^ 32"
    and psn: "psn_ok (sq_psn (side_qp a))" "rq_psn (side_qp b) = sq_psn (side_qp a)"
    and ready: "RdmaQueuePair_can_receive (side_qp b)"
    and target: "write_target b (swqe_rkey wqe) (remote_address wqe) (swqe_total_length wqe)"
    and imm: "swqe_opcode wqe = WqRdmaWriteImm \<Longrightarrow> recv_queue (side_qp b) \<noteq> []"
    and gen: "generate_write_packets ser p a wqe = (packets, p', a')"
  shows "\<exists>rs q' b'. write_run q b (parse_all des packets) = (rs, q', b')
    \<and> length rs = length packets \<and> (\<forall>r \<in> set rs. w_success r)
    \<and> List.last rs = write_answer wqe (swqe_opcode wqe = WqRdmaWriteImm) (side_qp b)
        (advance_psn (sq_psn (side_qp a)) (of_nat (length packets - 1)))
    \<and> side_memory b' = (side_memory b)\<lparr>mem_buffer := memcpy_at (unat (remote_address wqe)) data (mem_buffer (side_memory b))\<rparr>
    \<and> rq_psn (side_qp b') = sq_psn (side_qp a')"
proof -
  from write_delivers [OF packer op data len size psn ready target imm gen, of q] obtain rs q' b' where
    "write_run q b (parse_all des packets) = (rs, q', b')" "packets \<noteq> []"
    "rs = replicate (length packets - 1) (WriteResult_default\<lparr>w_success := True\<rparr>)
        @ [write_answer wqe (swqe_opcode wqe = WqRdmaWriteImm) (side_qp b) (advance_psn (sq_psn (side_qp a)) (of_nat (length packets - 1)))]"
    "side_memory b' = (side_memory b)\<lparr>mem_buffer := memcpy_at (unat (remote_address wqe)) data (mem_buffer (side_memory b))\<rparr>"
    "rq_psn (side_qp b') = sq_psn (side_qp a')" by blast
  then show ?thesis by (intro exI [of _ rs] exI [of _ q'] exI [of _ b']) (auto simp: write_answer_def Suc_diff_Suc)
qed

definition sample_write :: SendWqe where
  "sample_write = (sample_send 5)\<lparr>swqe_opcode := WqRdmaWriteImm, swqe_sgl := [\<lparr>sge_address = 5, sge_length = 3\<rparr>],
     swqe_total_length := 3, swqe_immediate_data := 9, remote_address := 6, swqe_rkey := 0x101, local_lkey := 0x100\<rparr>"

lemma sample_write_read:
  "fst (read_from_sgl (side_memory (sample_side [0, 1, 2, 3, 4, 5, 6, 7, 8, 9, 10, 11])) (swqe_sgl sample_write)
      (local_lkey sample_write) (side_mrs (sample_side bs))) = [5, 6, 7]"
  using sample_read [of bs] by (simp add: sample_write_def)

theorem rdma_write_delivers_witness:
  "\<exists>rs q' b'. write_run WriteProcessor_new (sample_side [0, 0, 0, 0, 0, 0, 0, 0, 0, 0, 0, 0])
      (parse_all msb_des (fst (generate_write_packets msb_ser WriteProcessor_new
        (sample_side [0, 1, 2, 3, 4, 5, 6, 7, 8, 9, 10, 11]) sample_write))) = (rs, q', b')
    \<and> mem_buffer (side_memory b') = [0, 0, 0, 0, 0, 0, 5, 6, 7, 0, 0, 0]
    \<and> map_option cqe_wr_id (w_recv_cqe (List.last rs)) = Some 77"
proof -
  let ?a = "sample_side [0, 1, 2, 3, 4, 5, 6, 7, 8, 9, 10, 11]" and ?b = "sample_side [0, 0, 0, 0, 0, 0, 0, 0, 0, 0, 0, 0]" and ?w = sample_write
  obtain packets p' a' where gen: "generate_write_packets msb_ser WriteProcessor_new ?a ?w = (packets, p', a')"
    by (metis prod_cases3)
  have t: "write_target ?b (swqe_rkey ?w) (remote_address ?w) (swqe_total_length ?w)"
    using sample_flat [of "[0, 0, 0, 0, 0, 0, 0, 0, 0, 0, 0, 0]"]
    by (simp add: write_target_def validate_rkey_eq sample_write_def) (simp add: sample_defs sample_mrs_maps)
  have "\<exists>rs q' b'. write_run WriteProcessor_new ?b (parse_all msb_des packets) = (rs, q', b')
    \<and> length rs = length packets \<and> (\<forall>r \<in> set rs. w_success r)
    \<and> List.last rs = write_answer ?w (swqe_opcode ?w = WqRdmaWriteImm) (side_qp ?b)
        (advance_psn (sq_psn (side_qp ?a)) (of_nat (length packets - 1)))
    \<and> side_memory b' = (side_memory ?b)\<lparr>mem_buffer := memcpy_at (unat (remote_address ?w)) [5, 6, 7] (mem_buffer (side_memory ?b))\<rparr>
    \<and> rq_psn (side_qp b') = sq_psn (side_qp a')"
    by (rule rdma_write_delivers [OF msb.bit_packer_axioms _ sample_write_read _ _ _ _ _ t _ gen])
      (simp_all add: sample_write_def sample_send_def sample_defs RdmaQueuePair_mtu_bytes_def RdmaQueuePair_can_receive_def)
  then show ?thesis
    unfolding gen by (auto simp: memcpy_at_def write_answer_def write_cqe_def sample_write_def sample_defs sample_recv_def)
qed

end
