(* ===== verification/Rocev2_Read.thy ===== *)
theory Rocev2_Read
  imports Rocev2_Segmentation
begin

text \<open>
  The RDMA READ processor (\<^verbatim>\<open>rocev2/rdma_read.h/.cpp\<close>): the requester sends one request packet and keeps the state of
  the read, the responder checks the remote key and answers with the data cut into response packets, the requester
  scatters them over its local list and completes the request. The theory shows the whole exchange: what the requester's
  list holds at the end is what the responder's memory held.
\<close>

section \<open>Data\<close>

record ReadRequestResult =
  rq_success :: bool
  rq_needs_nak :: bool
  rq_nak_psn :: u32
  rq_syndrome :: AethSyndrome
  rq_response_packets :: "bytes list"

definition ReadRequestResult_default :: ReadRequestResult where
  "ReadRequestResult_default = \<lparr>rq_success = False, rq_needs_nak = False, rq_nak_psn = 0, rq_syndrome = asAck,
     rq_response_packets = []\<rparr>"

record ReadResponseResult =
  rr_success :: bool
  rr_is_read_complete :: bool
  rr_cqe :: "RdmaCqe option"

definition ReadResponseResult_default :: ReadResponseResult where
  "ReadResponseResult_default = \<lparr>rr_success = False, rr_is_read_complete = False, rr_cqe = None\<rparr>"

record ReadRequestState =
  rrs_wr_id :: u64
  rrs_local_address :: u64
  rrs_local_lkey :: u32
  rrs_total_length :: u32
  rrs_bytes_received :: u32
  rrs_expected_psn :: u32
  rrs_start_psn :: u32
  rrs_sgl :: "SglEntry list"
  rrs_current_sge_idx :: nat
  rrs_sge_offset :: nat
  rrs_in_progress :: bool

record ReadResponderState =
  rps_remote_address :: u64
  rps_rkey :: u32
  rps_total_length :: u32
  rps_bytes_sent :: u32
  rps_request_psn :: u32
  rps_response_psn :: u32
  rps_in_progress :: bool

record ReadStats =
  reads_started :: u64
  reads_completed :: u64
  read_requests_generated :: u64
  read_responses_generated :: u64
  read_responses_processed :: u64
  rds_bytes_read :: u64
  rds_rkey_errors :: u64
  rds_sequence_errors :: u64
  rds_access_errors :: u64

definition ReadStats_zero :: ReadStats where
  "ReadStats_zero = \<lparr>reads_started = 0, reads_completed = 0, read_requests_generated = 0, read_responses_generated = 0,
     read_responses_processed = 0, rds_bytes_read = 0, rds_rkey_errors = 0, rds_sequence_errors = 0, rds_access_errors = 0\<rparr>"

record ReadProcessor =
  rd_stats :: ReadStats
  request_states :: "(u32 \<times> ReadRequestState) list"
  responder_states :: "(u32 \<times> ReadResponderState) list"

definition ReadProcessor_new :: ReadProcessor where
  "ReadProcessor_new = \<lparr>rd_stats = ReadStats_zero, request_states = [], responder_states = []\<rparr>"

section \<open>Requester: the request\<close>

definition read_request_builder :: "u32 \<Rightarrow> SendWqe \<Rightarrow> u32 \<Rightarrow> RdmaPacketBuilder" where
  "read_request_builder dest_qp wqe psn =
     set_dma_length (swqe_total_length wqe) (set_rkey (swqe_rkey wqe) (set_remote_address (remote_address wqe)
       (set_ack_request False (set_psn psn (set_dest_qp dest_qp (set_opcode kRcReadRequest RdmaPacketBuilder_new))))))"

definition generate_read_request ::
  "(nat list \<Rightarrow> u64 list \<Rightarrow> bytes) \<Rightarrow> ReadProcessor \<Rightarrow> RdmaSide \<Rightarrow> SendWqe \<Rightarrow> bytes list \<times> ReadProcessor \<times> RdmaSide" where
  "generate_read_request ser p s wqe =
     (if swqe_opcode wqe \<noteq> WqRdmaRead then ([], p, s)
      else
        let (request_psn, qp1) = RdmaQueuePair_next_send_psn (side_qp s);
            req_state = \<lparr>rrs_wr_id = swqe_wr_id wqe,
              rrs_local_address = (case swqe_sgl wqe of [] \<Rightarrow> 0 | e # _ \<Rightarrow> sge_address e),
              rrs_local_lkey = local_lkey wqe, rrs_total_length = swqe_total_length wqe, rrs_bytes_received = 0,
              rrs_expected_psn = request_psn, rrs_start_psn = request_psn, rrs_sgl = swqe_sgl wqe,
              rrs_current_sge_idx = 0, rrs_sge_offset = 0, rrs_in_progress = True\<rparr>;
            packet = RdmaPacketBuilder_build ser (read_request_builder (dest_qp_number (side_qp s)) wqe request_psn);
            st = (rd_stats p)\<lparr>reads_started := reads_started (rd_stats p) + 1,
                              read_requests_generated := read_requests_generated (rd_stats p) + 1\<rparr>;
            qp2 = RdmaQueuePair_record_packet_sent (RdmaQueuePair_add_pending_operation qp1 wqe 1) (length packet)
        in ([packet],
            p\<lparr>rd_stats := st, request_states := um_update (qp_number (side_qp s)) req_state (request_states p)\<rparr>,
            s\<lparr>side_qp := qp2\<rparr>))"

section \<open>Responder\<close>

definition read_from_remote :: "RdmaSide \<Rightarrow> u64 \<Rightarrow> u32 \<Rightarrow> nat \<Rightarrow> bytes \<times> RdmaSide" where
  "read_from_remote s address rkey len =
     (let (ok, mrs1) = MemoryRegionTable_validate_rkey (side_mrs s) rkey (qpc_pd_handle (qp_config (side_qp s)))
            address (of_nat len) False;
          s1 = s\<lparr>side_mrs := mrs1\<rparr>
      in if \<not> ok then ([], s1)
         else let (r, data) = SimpleHostMemory_read (side_memory s) address (replicate len 0)
              in if \<not> HostMemoryResult_ok r then ([], s1) else (data, s1))"

definition get_read_response_opcode :: "bool \<Rightarrow> bool \<Rightarrow> RdmaOpcode" where
  "get_read_response_opcode is_first is_last =
     (if is_first \<and> is_last then kRcReadResponseOnly
      else if is_first then kRcReadResponseFirst
      else if is_last then kRcReadResponseLast
      else kRcReadResponseMiddle)"

definition response_builder :: "u32 \<Rightarrow> bool \<Rightarrow> bool \<Rightarrow> u32 \<Rightarrow> bytes \<Rightarrow> RdmaPacketBuilder" where
  "response_builder dest_qp is_first is_last psn payload =
     (let b = set_payload payload (set_ack_request False (set_pad_count (pad_count_of is_last (length payload))
            (set_psn psn (set_dest_qp dest_qp (set_opcode (get_read_response_opcode is_first is_last) RdmaPacketBuilder_new)))))
      in if is_first \<or> is_first \<and> is_last then set_msn 0 (set_syndrome asAck b) else b)"

definition zero_response_builder :: "u32 \<Rightarrow> u32 \<Rightarrow> RdmaPacketBuilder" where
  "zero_response_builder dest_qp psn =
     set_msn 0 (set_syndrome asAck (set_ack_request False (set_psn psn (set_dest_qp dest_qp
       (set_opcode kRcReadResponseOnly RdmaPacketBuilder_new)))))"

definition generate_read_responses ::
  "(nat list \<Rightarrow> u64 list \<Rightarrow> bytes) \<Rightarrow> ReadProcessor \<Rightarrow> RdmaSide \<Rightarrow> u64 \<Rightarrow> u32 \<Rightarrow> u32 \<Rightarrow> bytes list \<times> ReadProcessor \<times> RdmaSide"
where
  "generate_read_responses ser p s address rkey len =
     (let (data, s1) = read_from_remote s address rkey (unat len) in
      if length data \<noteq> unat len then ([], p, s1)
      else
        let qp = side_qp s1;
            mtu = RdmaQueuePair_mtu_bytes qp;
            np = (if len = 0 then 1 else (len + mtu - 1) div mtu)
        in
        if len = 0 then
          let (psn, qp1) = RdmaQueuePair_next_send_psn qp;
              packet = RdmaPacketBuilder_build ser (zero_response_builder (dest_qp_number qp) psn)
          in ([packet], p\<lparr>rd_stats := (rd_stats p)\<lparr>read_responses_generated := read_responses_generated (rd_stats p) + 1\<rparr>\<rparr>,
              s1\<lparr>side_qp := RdmaQueuePair_record_packet_sent qp1 (length packet)\<rparr>)
        else
          let (packets, off, qp1) = packet_loop ser (response_builder (dest_qp_number qp)) (unat mtu) (unat np) data 0 0 qp
          in (packets, p\<lparr>rd_stats := (rd_stats p)\<lparr>read_responses_generated :=
                read_responses_generated (rd_stats p) + of_nat (length packets)\<rparr>\<rparr>, s1\<lparr>side_qp := qp1\<rparr>))"

definition read_nak :: "AethSyndrome \<Rightarrow> u32 \<Rightarrow> ReadRequestResult" where
  "read_nak syndrome psn = ReadRequestResult_default\<lparr>rq_syndrome := syndrome, rq_needs_nak := True, rq_nak_psn := psn\<rparr>"

definition process_read_request ::
  "(nat list \<Rightarrow> u64 list \<Rightarrow> bytes) \<Rightarrow> ReadProcessor \<Rightarrow> RdmaSide \<Rightarrow> RdmaPacketParser \<Rightarrow> ReadRequestResult \<times> ReadProcessor \<times> RdmaSide"
where
  "process_read_request ser p s parser =
     (let bth = p_bth parser; qp = side_qp s in
      if bth_opcode bth \<noteq> kRcReadRequest then (ReadRequestResult_default, p, s)
      else if \<not> RdmaQueuePair_can_receive qp then (read_nak asInvalidRequest (bth_psn bth), p, s)
      else if bth_psn bth \<noteq> rq_psn qp then
        (read_nak asPsnSeqError (rq_psn qp),
         p\<lparr>rd_stats := (rd_stats p)\<lparr>rds_sequence_errors := rds_sequence_errors (rd_stats p) + 1\<rparr>\<rparr>, s)
      else
        case p_reth parser of
          None \<Rightarrow> (read_nak asInvalidRequest (bth_psn bth), p, s)
        | Some reth \<Rightarrow>
            let (ok, mrs1) = MemoryRegionTable_validate_rkey (side_mrs s) (reth_rkey reth)
                  (qpc_pd_handle (qp_config qp)) (reth_virtual_address reth) (ucast (reth_dma_length reth)) False;
                s1 = s\<lparr>side_mrs := mrs1\<rparr>
            in
            if \<not> ok then
              (read_nak asRemoteAccessError (bth_psn bth),
               p\<lparr>rd_stats := (rd_stats p)\<lparr>rds_rkey_errors := rds_rkey_errors (rd_stats p) + 1\<rparr>\<rparr>, s1)
            else
              let s2 = s1\<lparr>side_qp := RdmaQueuePair_advance_recv_psn qp\<rparr>;
                  (packets, p1, s3) = generate_read_responses ser p s2 (reth_virtual_address reth) (reth_rkey reth)
                    (reth_dma_length reth)
              in
              if packets = [] \<and> reth_dma_length reth > 0 then
                ((read_nak asRemoteAccessError (bth_psn bth)),
                 p1\<lparr>rd_stats := (rd_stats p1)\<lparr>rds_access_errors := rds_access_errors (rd_stats p1) + 1\<rparr>\<rparr>, s3)
              else (ReadRequestResult_default\<lparr>rq_response_packets := packets, rq_success := True\<rparr>, p1, s3))"

section \<open>Requester: the responses\<close>

definition read_cqe :: "u32 \<Rightarrow> ReadRequestState \<Rightarrow> WqeStatus \<Rightarrow> u32 \<Rightarrow> RdmaCqe" where
  "read_cqe n rs status len = RdmaCqe_default\<lparr>cqe_wr_id := rrs_wr_id rs, cqe_status := status, cqe_opcode := WqRdmaRead,
     cqe_qp_number := n, bytes_completed := len, cqe_is_send := True\<rparr>"

definition process_read_response ::
  "ReadProcessor \<Rightarrow> RdmaSide \<Rightarrow> RdmaPacketParser \<Rightarrow> ReadResponseResult \<times> ReadProcessor \<times> RdmaSide" where
  "process_read_response p s parser =
     (let bth = p_bth parser; op = bth_opcode bth; qp = side_qp s; n = qp_number qp;
          put = (\<lambda>rs p. p\<lparr>request_states := um_update n rs (request_states p)\<rparr>);
          starts = opcode_is_first op \<or> opcode_is_only op;
          ends = opcode_is_last op \<or> opcode_is_only op
      in
      if \<not> opcode_is_read_response op then (ReadResponseResult_default, p, s)
      else
        case um_lookup (request_states p) n of
          None \<Rightarrow> (ReadResponseResult_default, p, s)
        | Some rs \<Rightarrow>
          if \<not> rrs_in_progress rs then (ReadResponseResult_default, p, s)
          else if starts \<and> p_aeth parser = None then (ReadResponseResult_default, p, s)
          else if starts \<and> aeth_syndrome (the (p_aeth parser)) \<noteq> asAck then
            (ReadResponseResult_default\<lparr>rr_cqe := Some (read_cqe n rs WsRemoteAccessError 0), rr_is_read_complete := True\<rparr>,
             put (rs\<lparr>rrs_in_progress := False\<rparr>) p, s)
          else
            let payload = p_payload parser;
                (w, mem1, mrs1, idx, off) = write_to_sgl (Some (rrs_local_lkey rs)) (rrs_sgl rs) payload
                  (rrs_current_sge_idx rs) (rrs_sge_offset rs) (side_memory s) (side_mrs s);
                s1 = s\<lparr>side_memory := mem1, side_mrs := mrs1\<rparr>;
                rs1 = rs\<lparr>rrs_current_sge_idx := idx, rrs_sge_offset := off\<rparr>
            in
            if w \<noteq> length payload then
              (ReadResponseResult_default\<lparr>rr_cqe := Some (read_cqe n rs1 WsLocalAccessError (rrs_bytes_received rs1)),
                 rr_is_read_complete := True\<rparr>,
               put (rs1\<lparr>rrs_in_progress := False\<rparr>)
                 (p\<lparr>rd_stats := (rd_stats p)\<lparr>rds_access_errors := rds_access_errors (rd_stats p) + 1\<rparr>\<rparr>), s1)
            else
              let rs2 = rs1\<lparr>rrs_bytes_received := rrs_bytes_received rs1 + of_nat w,
                            rrs_expected_psn := advance_psn (bth_psn bth) 1\<rparr>;
                  st = (rd_stats p)\<lparr>rds_bytes_read := rds_bytes_read (rd_stats p) + of_nat w,
                                    read_responses_processed := read_responses_processed (rd_stats p) + 1\<rparr>;
                  s2 = s1\<lparr>side_qp := RdmaQueuePair_record_packet_received qp w\<rparr>
              in
              if ends then
                (\<lparr>rr_success = True, rr_is_read_complete = True,
                  rr_cqe = Some (read_cqe n rs2 WsSuccess (rrs_bytes_received rs2))\<rparr>,
                 put (rs2\<lparr>rrs_in_progress := False\<rparr>) (p\<lparr>rd_stats := st\<lparr>reads_completed := reads_completed st + 1\<rparr>\<rparr>), s2)
              else (ReadResponseResult_default\<lparr>rr_success := True\<rparr>, put rs2 (p\<lparr>rd_stats := st\<rparr>), s2))"

definition ReadProcessor_reset :: "ReadProcessor \<Rightarrow> ReadProcessor" where
  "ReadProcessor_reset p = \<lparr>rd_stats = ReadStats_zero, request_states = [], responder_states = []\<rparr>"

definition clear_read_state :: "ReadProcessor \<Rightarrow> u32 \<Rightarrow> ReadProcessor" where
  "clear_read_state p n = p\<lparr>request_states := um_erase n (request_states p), responder_states := um_erase n (responder_states p)\<rparr>"

section \<open>Response packets\<close>

lemma response_reachable:
  "builder_reachable (response_builder q f l psn c)" "builder_reachable (zero_response_builder q psn)"
  "builder_reachable (read_request_builder q wqe psn)"
  unfolding response_builder_def zero_response_builder_def read_request_builder_def Let_def
  by (auto intro!: builder_reachable.intros)

lemma response_opcode_classes:
  "opcode_is_read_response (get_read_response_opcode f l)"
  "opcode_is_first (get_read_response_opcode f l) \<or> opcode_is_only (get_read_response_opcode f l) \<longleftrightarrow> f"
  "opcode_is_last (get_read_response_opcode f l) \<or> opcode_is_only (get_read_response_opcode f l) \<longleftrightarrow> l"
  "needs_aeth (get_read_response_opcode f l) \<longleftrightarrow> f \<or> l"
  "\<not> has_immediate_variant (get_read_response_opcode f l)"
  by (simp_all add: get_read_response_opcode_def opcode_defs)

lemma response_fields:
  "b_opcode (response_builder q f l psn c) = get_read_response_opcode f l"
  "b_opcode (zero_response_builder q psn) = get_read_response_opcode True True"
  "b_syndrome (response_builder q f l psn c) = asAck"
  "b_opcode (read_request_builder q wqe psn) = kRcReadRequest"
  by (simp_all add: response_builder_def zero_response_builder_def read_request_builder_def builder_setters
      RdmaPacketBuilder_new_def Let_def get_read_response_opcode_def)

lemma response_parsed:
  "bth_opcode (p_bth (parsed_builder (response_builder q f l psn c))) = get_read_response_opcode f l"
  "p_payload (parsed_builder (response_builder q f l psn c)) = c"
  "f \<Longrightarrow> \<exists>m. p_aeth (parsed_builder (response_builder q f l psn c)) = Some \<lparr>aeth_syndrome = asAck, aeth_msn = m\<rparr>"
  by (simp_all add: parsed_builder_def response_fields response_opcode_classes)
    (simp_all add: response_builder_def builder_setters RdmaPacketBuilder_new_def Let_def)

lemma zero_response_parsed:
  "parsed_builder (zero_response_builder q psn) = parsed_builder (response_builder q True True psn [])"
  by (simp add: parsed_builder_def zero_response_builder_def response_builder_def builder_setters RdmaPacketBuilder_new_def
      Let_def get_read_response_opcode_def pad_count_of_def)

section \<open>A response at the requester\<close>

text \<open>The read for \<open>wqe\<close> is in progress and \<open>k\<close> bytes have arrived.\<close>

definition read_active :: "SendWqe \<Rightarrow> nat \<Rightarrow> ReadRequestState \<Rightarrow> bool" where
  "read_active wqe k rs \<longleftrightarrow> rrs_wr_id rs = swqe_wr_id wqe \<and> rrs_local_lkey rs = local_lkey wqe \<and> rrs_sgl rs = swqe_sgl wqe
     \<and> rrs_in_progress rs \<and> rrs_bytes_received rs = of_nat k
     \<and> at_byte (swqe_sgl wqe) (rrs_current_sge_idx rs) (rrs_sge_offset rs) k"

definition read_ready :: "ReadProcessor \<Rightarrow> RdmaSide \<Rightarrow> SendWqe \<Rightarrow> nat \<Rightarrow> bool" where
  "read_ready p s wqe k \<longleftrightarrow> sgl_target (Some (local_lkey wqe)) (swqe_sgl wqe) (side_memory s) (side_mrs s)
     \<and> (\<exists>rs. um_lookup (request_states p) (qp_number (side_qp s)) = Some rs \<and> read_active wqe k rs)"

definition gathered :: "SendWqe \<Rightarrow> nat \<Rightarrow> bytes \<Rightarrow> SimpleHostMemory \<Rightarrow> SimpleHostMemory" where
  "gathered wqe k c m = m\<lparr>mem_buffer := poke (take (length c) (drop k (sgl_bytes (swqe_sgl wqe)))) c (mem_buffer m)\<rparr>"

definition read_done :: "u32 \<Rightarrow> SendWqe \<Rightarrow> ReadResponseResult" where
  "read_done n wqe = \<lparr>rr_success = True, rr_is_read_complete = True,
     rr_cqe = Some \<lparr>cqe_wr_id = swqe_wr_id wqe, cqe_status = WsSuccess, cqe_opcode = WqRdmaRead, cqe_qp_number = n,
       bytes_completed = swqe_total_length wqe, cqe_immediate_data = 0, cqe_has_immediate = False, cqe_is_send = True\<rparr>\<rparr>"

lemma read_step:
  assumes ready: "read_ready p s wqe k" and k: "k + length c \<le> length (sgl_bytes (swqe_sgl wqe))"
  shows "\<exists>p' s' rs. process_read_response p s (parsed_builder (response_builder q f l psn c)) =
      (if l then \<lparr>rr_success = True, rr_is_read_complete = True, rr_cqe = Some (read_cqe (qp_number (side_qp s)) rs WsSuccess (of_nat (k + length c)))\<rparr>
       else ReadResponseResult_default\<lparr>rr_success := True\<rparr>, p', s')
    \<and> rrs_wr_id rs = swqe_wr_id wqe
    \<and> side_memory s' = gathered wqe k c (side_memory s) \<and> qp_number (side_qp s') = qp_number (side_qp s)
    \<and> (\<not> l \<longrightarrow> read_ready p' s' wqe (k + length c))"
proof -
  let ?pk = "parsed_builder (response_builder q f l psn c)"
  obtain rs where rs: "um_lookup (request_states p) (qp_number (side_qp s)) = Some rs" and a: "read_active wqe k rs"
    and t: "sgl_target (Some (local_lkey wqe)) (swqe_sgl wqe) (side_memory s) (side_mrs s)"
    using ready by (auto simp: read_ready_def)
  have at: "at_byte (swqe_sgl wqe) (rrs_current_sge_idx rs) (rrs_sge_offset rs) k" using a by (simp add: read_active_def)
  obtain mrs' i j where w: "write_to_sgl (Some (local_lkey wqe)) (swqe_sgl wqe) c (rrs_current_sge_idx rs) (rrs_sge_offset rs)
        (side_memory s) (side_mrs s) = (length c, gathered wqe k c (side_memory s), mrs', i, j)"
      "at_byte (swqe_sgl wqe) i j (k + length c)" "mrs_by_lkey mrs' = mrs_by_lkey (side_mrs s)"
    using write_to_sgl_pokes [OF t at k] unfolding gathered_def by blast
  define rs2 where "rs2 = rs\<lparr>rrs_current_sge_idx := i, rrs_sge_offset := j, rrs_bytes_received := of_nat (k + length c),
      rrs_expected_psn := advance_psn (bth_psn (p_bth ?pk)) 1\<rparr>"
  define s2 where "s2 = s\<lparr>side_memory := gathered wqe k c (side_memory s), side_mrs := mrs',
      side_qp := RdmaQueuePair_record_packet_received (side_qp s) (length c)\<rparr>"
  have aeth: "\<not> (f \<and> p_aeth ?pk = None)" "\<not> (f \<and> aeth_syndrome (the (p_aeth ?pk)) \<noteq> asAck)"
    using response_parsed(3) [of f q l psn c] by auto
  have fields: "rrs_sgl rs = swqe_sgl wqe" "rrs_local_lkey rs = local_lkey wqe" "rrs_in_progress rs" "rrs_bytes_received rs = of_nat k"
    using a by (simp_all add: read_active_def)
  have step: "\<exists>p'. process_read_response p s ?pk =
      (if l then \<lparr>rr_success = True, rr_is_read_complete = True, rr_cqe = Some (read_cqe (qp_number (side_qp s)) rs2 WsSuccess (of_nat (k + length c)))\<rparr>
       else ReadResponseResult_default\<lparr>rr_success := True\<rparr>, p', s2)
      \<and> (\<not> l \<longrightarrow> um_lookup (request_states p') (qp_number (side_qp s)) = Some rs2)"
    by (simp only: process_read_response_def Let_def response_parsed(1,2) response_opcode_classes rs option.case aeth fields w(1)
        prod.case simp_thms if_True if_False)
      (cases l; simp add: rs2_def s2_def fields)
  have "sgl_target (Some (local_lkey wqe)) (swqe_sgl wqe) (side_memory s2) (side_mrs s2)"
    by (rule sgl_target_mono [OF t]) (use t w(3) in \<open>simp_all add: s2_def gathered_def sgl_target_def mem_flat_def\<close>)
  moreover have "read_active wqe (k + length c) rs2" using a w(2) by (simp add: read_active_def rs2_def)
  moreover have "rrs_wr_id rs2 = swqe_wr_id wqe" using a by (simp add: read_active_def rs2_def)
  moreover have "qp_number (side_qp s2) = qp_number (side_qp s)" "side_memory s2 = gathered wqe k c (side_memory s)"
    by (simp_all add: s2_def RdmaQueuePair_record_packet_received_def)
  ultimately show ?thesis using step by (cases l) (auto simp: read_ready_def)
qed

fun read_run :: "ReadProcessor \<Rightarrow> RdmaSide \<Rightarrow> RdmaPacketParser list \<Rightarrow> ReadResponseResult list \<times> ReadProcessor \<times> RdmaSide" where
  "read_run p s [] = ([], p, s)"
| "read_run p s (q # qs) =
     (let (r, p1, s1) = process_read_response p s q; (rs, p2, s2) = read_run p1 s1 qs in (r # rs, p2, s2))"

lemma gathered_twice:
  assumes "k + length c + length d \<le> length (sgl_bytes (swqe_sgl wqe))"
  shows "gathered wqe (k + length c) d (gathered wqe k c m) = gathered wqe k (c @ d) m"
  using poke_twice [OF assms] by (simp add: gathered_def)

lemma read_run_message:
  assumes "cs \<noteq> []" and "read_ready p s wqe k" and "k + length (concat cs) = unat (swqe_total_length wqe)"
    and "k + length (concat cs) \<le> length (sgl_bytes (swqe_sgl wqe))"
  shows "\<exists>rs p' s'. read_run p s (map parsed_builder (message_builders (response_builder q) f psn cs)) = (rs, p', s')
    \<and> rs = replicate (length cs - 1) (ReadResponseResult_default\<lparr>rr_success := True\<rparr>) @ [read_done (qp_number (side_qp s)) wqe]
    \<and> side_memory s' = gathered wqe k (concat cs) (side_memory s)"
  using assms
proof (induction cs arbitrary: s p psn k f)
  case (Cons c cs)
  have kc: "k + length c \<le> length (sgl_bytes (swqe_sgl wqe))" using Cons.prems(4) by simp
  note step = read_step [OF Cons.prems(2) kc, of q f "cs = []" psn]
  show ?case
  proof (cases "cs = []")
    case True
    then have "of_nat (k + length c) = swqe_total_length wqe"
      using arg_cong [OF Cons.prems(3), of "of_nat :: nat \<Rightarrow> u32"] by simp
    with True step show ?thesis by (auto simp: read_done_def read_cqe_def RdmaCqe_default_def)
  next
    case False
    obtain p3 s3 where s3: "process_read_response p s (parsed_builder (response_builder q f False psn c)) =
        (ReadResponseResult_default\<lparr>rr_success := True\<rparr>, p3, s3)" "side_memory s3 = gathered wqe k c (side_memory s)"
        "qp_number (side_qp s3) = qp_number (side_qp s)" "read_ready p3 s3 wqe (k + length c)"
      using step False by auto
    obtain rs p' s' where IH:
      "read_run p3 s3 (map parsed_builder (message_builders (response_builder q) False (advance_psn psn 1) cs)) = (rs, p', s')"
      "rs = replicate (length cs - 1) (ReadResponseResult_default\<lparr>rr_success := True\<rparr>) @ [read_done (qp_number (side_qp s3)) wqe]"
      "side_memory s' = gathered wqe (k + length c) (concat cs) (side_memory s3)"
      using Cons.IH [OF False s3(4), of False "advance_psn psn 1"] Cons.prems(3,4) by auto
    moreover have "replicate (length cs) x = x # replicate (length cs - 1) x" for x :: ReadResponseResult
      using False by (cases cs) simp_all
    ultimately show ?thesis
      using s3 False gathered_twice [of k c "concat cs" wqe "side_memory s"] Cons.prems(4) by simp
  qed
qed simp

section \<open>The responder's answer\<close>

definition response_builders :: "RdmaQueuePair \<Rightarrow> bytes \<Rightarrow> RdmaPacketBuilder list" where
  "response_builders qp data =
     (if data = [] then [zero_response_builder (dest_qp_number qp) (sq_psn qp)]
      else message_builders (response_builder (dest_qp_number qp)) True (sq_psn qp) (chunks (unat (RdmaQueuePair_mtu_bytes qp)) data))"

lemma response_builders_sound: "\<forall>b \<in> set (response_builders qp data). sound_builder b"
proof -
  have "sound_builder (response_builder q f l psn c)" "sound_builder (zero_response_builder q psn)" for q f l psn c
    by (simp_all add: sound_builder_def response_reachable response_fields response_opcode_classes)
  then show ?thesis
    using message_builders_all [of sound_builder "response_builder (dest_qp_number qp)"] by (simp add: response_builders_def)
qed

text \<open>The responder can read \<open>len\<close> bytes at \<open>a\<close> under the key.\<close>

definition read_source :: "RdmaSide \<Rightarrow> u32 \<Rightarrow> u64 \<Rightarrow> u32 \<Rightarrow> bool" where
  "read_source s rkey a len \<longleftrightarrow>
     fst (MemoryRegionTable_validate_rkey (side_mrs s) rkey (qpc_pd_handle (qp_config (side_qp s))) a (ucast len) False)
     \<and> mem_flat (side_memory s) \<and> unat a + unat len \<le> length (mem_buffer (side_memory s))"

lemma read_from_remote_ok:
  assumes "read_source s rkey a len"
  shows "\<exists>mrs. read_from_remote s a rkey (unat len) = (subspan (unat a) (unat len) (mem_buffer (side_memory s)), s\<lparr>side_mrs := mrs\<rparr>)"
proof -
  have u: "(of_nat (unat len) :: u64) = ucast len"
    by (simp add: word_unat_eq_iff unat_ucast_up unat_of_nat)
  obtain mrs where v: "MemoryRegionTable_validate_rkey (side_mrs s) rkey (qpc_pd_handle (qp_config (side_qp s))) a (ucast len) False = (True, mrs)"
    using assms by (auto simp: read_source_def prod_eq_iff)
  have rd: "hm_access (side_memory s) a (unat len) = Some (unat a)"
    using assms flat_access [of "side_memory s" a "unat len"] by (simp add: read_source_def)
  then show ?thesis
    using v by (intro exI [of _ mrs]) (simp add: read_from_remote_def u SimpleHostMemory_read_eq translate_view_ok_iff)
qed

lemma process_read_request_ok:
  assumes src: "read_source s (swqe_rkey wqe) (remote_address wqe) (swqe_total_length wqe)"
    and ready: "RdmaQueuePair_can_receive (side_qp s)" and psn: "psn_ok psn" "rq_psn (side_qp s) = psn" "psn_ok (sq_psn (side_qp s))"
    and size: "unat (swqe_total_length wqe) + unat (RdmaQueuePair_mtu_bytes (side_qp s)) \<le> 2 ^ 32"
    and data: "data = subspan (unat (remote_address wqe)) (unat (swqe_total_length wqe)) (mem_buffer (side_memory s))"
  shows "\<exists>p' s'. process_read_request ser p s (parsed_builder (read_request_builder q wqe psn)) =
      (ReadRequestResult_default\<lparr>rq_response_packets := map (RdmaPacketBuilder_build ser) (response_builders (side_qp s) data),
         rq_success := True\<rparr>, p', s')
    \<and> side_memory s' = side_memory s \<and> rq_psn (side_qp s') = advance_psn psn 1"
proof -
  let ?len = "swqe_total_length wqe" and ?a = "remote_address wqe" and ?k = "swqe_rkey wqe"
  define pk where "pk = parsed_builder (read_request_builder q wqe psn)"
  have "psn AND kMaxPsn = psn" using psn(1) by (simp add: word_unat_eq_iff unat_and_kMaxPsn)
  then have pk: "bth_opcode (p_bth pk) = kRcReadRequest" "bth_psn (p_bth pk) = psn"
    "p_reth pk = Some \<lparr>reth_virtual_address = ?a, reth_rkey = ?k, reth_dma_length = ?len\<rparr>"
    by (simp_all add: pk_def parsed_builder_def read_request_builder_def builder_setters RdmaPacketBuilder_new_def needs_reth_def)
  have len: "length data = unat ?len" using src data by (simp add: read_source_def)
  obtain mrs where v: "MemoryRegionTable_validate_rkey (side_mrs s) ?k (qpc_pd_handle (qp_config (side_qp s))) ?a (ucast ?len) False = (True, mrs)"
    using src by (auto simp: read_source_def prod_eq_iff)
  define s2 where "s2 = s\<lparr>side_mrs := mrs, side_qp := RdmaQueuePair_advance_recv_psn (side_qp s)\<rparr>"
  have "mrs_by_rkey mrs = mrs_by_rkey (side_mrs s)" using v by (metis snd_conv validate_rkey_frame)
  then have "read_source s2 ?k ?a ?len"
    using src by (simp add: s2_def read_source_def validate_rkey_eq RdmaQueuePair_advance_recv_psn_def)
  from read_from_remote_ok [OF this] obtain mrs' where
    rd: "read_from_remote s2 ?a ?k (unat ?len) = (data, s2\<lparr>side_mrs := mrs'\<rparr>)" by (auto simp: s2_def data)
  have qp2: "sq_psn (side_qp s2) = sq_psn (side_qp s)" "dest_qp_number (side_qp s2) = dest_qp_number (side_qp s)"
    "RdmaQueuePair_mtu_bytes (side_qp s2) = RdmaQueuePair_mtu_bytes (side_qp s)"
    by (simp_all add: s2_def RdmaQueuePair_advance_recv_psn_def RdmaQueuePair_mtu_bytes_def)
  have "\<exists>p' s3. generate_read_responses ser p s2 ?a ?k ?len =
      (map (RdmaPacketBuilder_build ser) (response_builders (side_qp s) data), p', s3)
    \<and> side_memory s3 = side_memory s \<and> rq_psn (side_qp s3) = advance_psn psn 1"
  proof (cases "?len = 0")
    case True
    then have "data = []" using len by simp
    then show ?thesis
      using True rd qp2 psn(2) by (simp add: generate_read_responses_def response_builders_def Let_def RdmaQueuePair_next_send_psn_def
          RdmaQueuePair_record_packet_sent_def s2_def RdmaQueuePair_advance_recv_psn_def)
  next
    case False
    then have ne: "data \<noteq> []" using len by (auto simp: unat_eq_0)
    have cnt: "unat ((?len + RdmaQueuePair_mtu_bytes (side_qp s) - 1) div RdmaQueuePair_mtu_bytes (side_qp s))
        = length (chunks (unat (RdmaQueuePair_mtu_bytes (side_qp s))) data)"
      using packet_count_chunks [OF len False mtu_bounds(1) size] False by (simp add: calculate_packet_count_def)
    obtain st where loop: "packet_loop ser (response_builder (dest_qp_number (side_qp s))) (unat (RdmaQueuePair_mtu_bytes (side_qp s)))
        (unat ((?len + RdmaQueuePair_mtu_bytes (side_qp s) - 1) div RdmaQueuePair_mtu_bytes (side_qp s))) data 0 0 (side_qp s2) =
        (map (RdmaPacketBuilder_build ser) (response_builders (side_qp s) data), length data,
         (side_qp s2)\<lparr>sq_psn := advance_psn (sq_psn (side_qp s)) (of_nat (length (chunks (unat (RdmaQueuePair_mtu_bytes (side_qp s))) data))),
           qp_stats := st\<rparr>)"
      using packet_loop_message [OF mtu_bounds(1) cnt, of "side_qp s2"] qp2 psn(3) ne by (auto simp: response_builders_def)
    have "rq_psn (side_qp s2) = advance_psn psn 1" "side_memory s2 = side_memory s"
      using psn(2) by (simp_all add: s2_def RdmaQueuePair_advance_recv_psn_def)
    then show ?thesis
      using rd qp2 len False loop by (simp add: generate_read_responses_def)
  qed
  moreover have "response_builders (side_qp s) data \<noteq> []"
  proof (cases "data = []")
    case False
    then have "chunks (unat (RdmaQueuePair_mtu_bytes (side_qp s))) data \<noteq> []" using mtu_bounds(1) by (simp add: chunks_Nil_iff)
    with False show ?thesis by (cases "chunks (unat (RdmaQueuePair_mtu_bytes (side_qp s))) data") (simp_all add: response_builders_def)
  qed (simp add: response_builders_def)
  ultimately show ?thesis
    using ready psn v pk by (auto simp: process_read_request_def pk_def [symmetric] Let_def s2_def)
qed

lemma response_builders_parsed:
  "map parsed_builder (response_builders qp data) = map parsed_builder (message_builders (response_builder (dest_qp_number qp)) True
     (sq_psn qp) (if data = [] then [[]] else chunks (unat (RdmaQueuePair_mtu_bytes qp)) data))"
  by (simp add: response_builders_def zero_response_parsed)

lemma generate_read_request_ok:
  assumes "swqe_opcode wqe = WqRdmaRead" and "sgl_target (Some (local_lkey wqe)) (swqe_sgl wqe) (side_memory s) (side_mrs s)"
  shows "\<exists>p' s'. generate_read_request ser p s wqe =
      ([RdmaPacketBuilder_build ser (read_request_builder (dest_qp_number (side_qp s)) wqe (sq_psn (side_qp s)))], p', s')
    \<and> read_ready p' s' wqe 0 \<and> side_memory s' = side_memory s \<and> qp_number (side_qp s') = qp_number (side_qp s)"
  using assms at_byte_0
  by (simp add: generate_read_request_def Let_def RdmaQueuePair_next_send_psn_def RdmaQueuePair_record_packet_sent_def
      RdmaQueuePair_add_pending_operation_def read_ready_def read_active_def)

text \<open>The responder answers with the packets of the remote bytes, and the requester accepts all of them; the last one completes the request.\<close>

lemma read_returns:
  assumes packer: "bit_packer ser des"
    and op: "swqe_opcode wqe = WqRdmaRead"
    and psn: "psn_ok (sq_psn (side_qp a))" "rq_psn (side_qp b) = sq_psn (side_qp a)" "psn_ok (sq_psn (side_qp b))"
    and ready: "RdmaQueuePair_can_receive (side_qp b)"
    and source: "read_source b (swqe_rkey wqe) (remote_address wqe) (swqe_total_length wqe)"
    and size: "unat (swqe_total_length wqe) + unat (RdmaQueuePair_mtu_bytes (side_qp b)) \<le> 2 ^ 32"
    and target: "sgl_target (Some (local_lkey wqe)) (swqe_sgl wqe) (side_memory a) (side_mrs a)"
    and room: "unat (swqe_total_length wqe) \<le> length (sgl_bytes (swqe_sgl wqe))"
    and gen: "generate_read_request ser pa a wqe = (request, pa', a')"
  shows "\<exists>pb' b' rs pa'' a''. request = [RdmaPacketBuilder_build ser (read_request_builder (dest_qp_number (side_qp a)) wqe (sq_psn (side_qp a)))]
    \<and> parse_all des request = [parsed_builder (read_request_builder (dest_qp_number (side_qp a)) wqe (sq_psn (side_qp a)))]
    \<and> process_read_request ser pb b (parsed_builder (read_request_builder (dest_qp_number (side_qp a)) wqe (sq_psn (side_qp a)))) =
        (ReadRequestResult_default\<lparr>rq_response_packets := map (RdmaPacketBuilder_build ser) (response_builders (side_qp b)
            (subspan (unat (remote_address wqe)) (unat (swqe_total_length wqe)) (mem_buffer (side_memory b)))), rq_success := True\<rparr>, pb', b')
    \<and> side_memory b' = side_memory b
    \<and> read_run pa' a' (parse_all des (map (RdmaPacketBuilder_build ser) (response_builders (side_qp b)
        (subspan (unat (remote_address wqe)) (unat (swqe_total_length wqe)) (mem_buffer (side_memory b)))))) = (rs, pa'', a'')
    \<and> (\<exists>k. rs = replicate k (ReadResponseResult_default\<lparr>rr_success := True\<rparr>) @ [read_done (qp_number (side_qp a)) wqe])
    \<and> side_memory a'' = (side_memory a)\<lparr>mem_buffer := poke (take (unat (swqe_total_length wqe)) (sgl_bytes (swqe_sgl wqe)))
        (subspan (unat (remote_address wqe)) (unat (swqe_total_length wqe)) (mem_buffer (side_memory b))) (mem_buffer (side_memory a))\<rparr>"
proof -
  define data where "data = subspan (unat (remote_address wqe)) (unat (swqe_total_length wqe)) (mem_buffer (side_memory b))"
  define cs where "cs = (if data = [] then [[]] else chunks (unat (RdmaQueuePair_mtu_bytes (side_qp b))) data)"
  let ?rq = "read_request_builder (dest_qp_number (side_qp a)) wqe (sq_psn (side_qp a))"
  have len: "length data = unat (swqe_total_length wqe)" using source by (simp add: data_def read_source_def)
  have cs: "cs \<noteq> []" "concat cs = data" using mtu_bounds(1) by (auto simp: cs_def chunks_Nil_iff concat_chunks)
  have a': "request = [RdmaPacketBuilder_build ser ?rq]" "read_ready pa' a' wqe 0" "side_memory a' = side_memory a"
    "qp_number (side_qp a') = qp_number (side_qp a)"
    using generate_read_request_ok [OF op target, of ser pa] gen by auto
  have "sound_builder ?rq" by (simp add: sound_builder_def response_reachable response_fields has_immediate_variant_def)
  then have q: "parse_all des request = [parsed_builder ?rq]" using parse_all_built [OF packer, of "[?rq]"] a'(1) by simp
  obtain pb' b' where resp: "process_read_request ser pb b (parsed_builder ?rq) = (ReadRequestResult_default\<lparr>rq_response_packets :=
      map (RdmaPacketBuilder_build ser) (response_builders (side_qp b) data), rq_success := True\<rparr>, pb', b')" "side_memory b' = side_memory b"
    using process_read_request_ok [OF source ready psn size data_def] by blast
  have parsed: "parse_all des (map (RdmaPacketBuilder_build ser) (response_builders (side_qp b) data)) =
      map parsed_builder (message_builders (response_builder (dest_qp_number (side_qp b))) True (sq_psn (side_qp b)) cs)"
    unfolding parse_all_built [OF packer response_builders_sound] cs_def by (rule response_builders_parsed)
  have "\<exists>rs pa'' a''. read_run pa' a' (map parsed_builder (message_builders (response_builder (dest_qp_number (side_qp b))) True
      (sq_psn (side_qp b)) cs)) = (rs, pa'', a'')
      \<and> rs = replicate (length cs - 1) (ReadResponseResult_default\<lparr>rr_success := True\<rparr>) @ [read_done (qp_number (side_qp a')) wqe] \<and> side_memory a'' = gathered wqe 0 (concat cs) (side_memory a')"
    using cs len room by (intro read_run_message [OF cs(1) a'(2)]) simp_all
  with q resp parsed cs(2) len a' show ?thesis
    by (auto simp: gathered_def data_def [symmetric])
qed

section \<open>Properties\<close>

text \<open>An RDMA read returns the remote bytes. The requester's packet, processed by a responder that expects its sequence
  number, whose region table grants the key the whole range for reading and whose memory holds it, makes the responder
  answer with response packets and leave its memory as it is. The requester, whose local key covers the bytes its list names,
  accepts every response: byte \<open>i\<close> of the remote range is then in byte \<open>i\<close> of the list, the rest of its memory is
  unchanged, and the last response completes the work request with the whole length.\<close>

theorem rdma_read_returns:
  assumes packer: "bit_packer ser des"
    and op: "swqe_opcode wqe = WqRdmaRead"
    and psn: "psn_ok (sq_psn (side_qp a))" "rq_psn (side_qp b) = sq_psn (side_qp a)" "psn_ok (sq_psn (side_qp b))"
    and ready: "RdmaQueuePair_can_receive (side_qp b)"
    and source: "read_source b (swqe_rkey wqe) (remote_address wqe) (swqe_total_length wqe)"
    and size: "unat (swqe_total_length wqe) + unat (RdmaQueuePair_mtu_bytes (side_qp b)) \<le> 2 ^ 32"
    and target: "sgl_target (Some (local_lkey wqe)) (swqe_sgl wqe) (side_memory a) (side_mrs a)"
    and room: "unat (swqe_total_length wqe) \<le> length (sgl_bytes (swqe_sgl wqe))"
    and gen: "generate_read_request ser pa a wqe = (request, pa', a')"
  shows "\<exists>q result pb' b' rs pa'' a''. parse_all des request = [q] \<and> process_read_request ser pb b q = (result, pb', b')
    \<and> rq_success result \<and> side_memory b' = side_memory b
    \<and> read_run pa' a' (parse_all des (rq_response_packets result)) = (rs, pa'', a'')
    \<and> (\<forall>r \<in> set rs. rr_success r) \<and> List.last rs = read_done (qp_number (side_qp a)) wqe
    \<and> side_memory a'' = (side_memory a)\<lparr>mem_buffer := poke (take (unat (swqe_total_length wqe)) (sgl_bytes (swqe_sgl wqe)))
        (subspan (unat (remote_address wqe)) (unat (swqe_total_length wqe)) (mem_buffer (side_memory b))) (mem_buffer (side_memory a))\<rparr>"
proof -
  define q where "q = parsed_builder (read_request_builder (dest_qp_number (side_qp a)) wqe (sq_psn (side_qp a)))"
  from read_returns [OF packer op psn ready source size target room gen, of pb, folded q_def] obtain pb' b' rs pa'' a'' result k where
    r: "parse_all des request = [q]" "process_read_request ser pb b q = (result, pb', b')" "rq_success result" "side_memory b' = side_memory b"
      "read_run pa' a' (parse_all des (rq_response_packets result)) = (rs, pa'', a'')"
      "side_memory a'' = (side_memory a)\<lparr>mem_buffer := poke (take (unat (swqe_total_length wqe)) (sgl_bytes (swqe_sgl wqe)))
        (subspan (unat (remote_address wqe)) (unat (swqe_total_length wqe)) (mem_buffer (side_memory b))) (mem_buffer (side_memory a))\<rparr>"
    and rs: "rs = replicate k (ReadResponseResult_default\<lparr>rr_success := True\<rparr>) @ [read_done (qp_number (side_qp a)) wqe]" by auto
  have "(\<forall>x \<in> set rs. rr_success x) \<and> List.last rs = read_done (qp_number (side_qp a)) wqe" by (auto simp: rs read_done_def)
  with r show ?thesis by blast
qed

definition sample_read_req :: SendWqe where
  "sample_read_req = (sample_send 6)\<lparr>swqe_opcode := WqRdmaRead, swqe_sgl := [\<lparr>sge_address = 4, sge_length = 1\<rparr>, \<lparr>sge_address = 8, sge_length = 2\<rparr>],
     swqe_total_length := 3, remote_address := 5, swqe_rkey := 0x101, local_lkey := 0x100\<rparr>"

theorem rdma_read_returns_witness:
  "\<exists>rs pa'' a''. List.last rs = read_done 1 sample_read_req \<and> mem_buffer (side_memory a'') = [0, 0, 0, 0, 5, 0, 0, 0, 6, 7, 0, 0]
    \<and> (\<exists>ps. read_run (fst (snd (generate_read_request msb_ser ReadProcessor_new (sample_side [0, 0, 0, 0, 0, 0, 0, 0, 0, 0, 0, 0]) sample_read_req)))
        (snd (snd (generate_read_request msb_ser ReadProcessor_new (sample_side [0, 0, 0, 0, 0, 0, 0, 0, 0, 0, 0, 0]) sample_read_req)))
        ps = (rs, pa'', a''))"
proof -
  let ?b = "sample_side [0, 1, 2, 3, 4, 5, 6, 7, 8, 9, 10, 11]" and ?a = "sample_side [0, 0, 0, 0, 0, 0, 0, 0, 0, 0, 0, 0]"
  let ?w = sample_read_req
  obtain request pa' a' where gen: "generate_read_request msb_ser ReadProcessor_new ?a ?w = (request, pa', a')"
    by (metis prod_cases3)
  have src: "read_source ?b (swqe_rkey ?w) (remote_address ?w) (swqe_total_length ?w)"
    using sample_flat [of "[0, 1, 2, 3, 4, 5, 6, 7, 8, 9, 10, 11]"]
    by (simp add: read_source_def validate_rkey_eq sample_read_req_def) (simp add: sample_defs sample_mrs_maps)
  have t: "sgl_target (Some (local_lkey ?w)) (swqe_sgl ?w) (side_memory ?a) (side_mrs ?a)"
    using sample_flat [of "[0, 0, 0, 0, 0, 0, 0, 0, 0, 0, 0, 0]"]
    by (simp add: sgl_target_def validate_lkey_eq sample_read_req_def) (simp add: sample_defs sample_mrs_maps)
  have bytes: "sgl_bytes (swqe_sgl ?w) = [4, 8, 9]" by (simp add: sgl_bytes_def sge_bytes_def sample_read_req_def upt_rec)
  have w: "unat (swqe_total_length ?w) = 3" "unat (remote_address ?w) = 5" "swqe_opcode ?w = WqRdmaRead"
    by (simp_all add: sample_read_req_def)
  have "unat (swqe_total_length ?w) + unat (RdmaQueuePair_mtu_bytes (side_qp ?b)) \<le> 2 ^ 32"
    "unat (swqe_total_length ?w) \<le> length (sgl_bytes (swqe_sgl ?w))" "RdmaQueuePair_can_receive (side_qp ?b)"
    "psn_ok (sq_psn (side_qp ?a))" "rq_psn (side_qp ?b) = sq_psn (side_qp ?a)" "psn_ok (sq_psn (side_qp ?b))"
    by (simp_all add: w bytes) (simp_all add: sample_defs RdmaQueuePair_mtu_bytes_def RdmaQueuePair_can_receive_def)
  from rdma_read_returns [OF msb.bit_packer_axioms w(3) this(4-6,3) src this(1) t this(2) gen, of ReadProcessor_new]
  obtain ps rs pa'' a'' where "read_run pa' a' ps = (rs, pa'', a'')" "List.last rs = read_done (qp_number (side_qp ?a)) ?w"
    "side_memory a'' = (side_memory ?a)\<lparr>mem_buffer := poke (take (unat (swqe_total_length ?w)) (sgl_bytes (swqe_sgl ?w)))
        (subspan (unat (remote_address ?w)) (unat (swqe_total_length ?w)) (mem_buffer (side_memory ?b))) (mem_buffer (side_memory ?a))\<rparr>"
    by auto
  then show ?thesis
    unfolding gen bytes w by (intro exI [of _ rs] exI [of _ pa''] exI [of _ a'']) (auto simp: sample_defs subspan_def)
qed

end
