(* ===== verification/Rocev2_Reliability.thy ===== *)
theory Rocev2_Reliability
  imports Rocev2_Types "HOL-Library.Multiset"
begin

text \<open>
  The reliability manager of \<^verbatim>\<open>rocev2/congestion.h\<close> and \<^verbatim>\<open>congestion.cpp\<close>: the operations of each queue pair that wait
  for an acknowledgement, what an ACK, a NAK and a timeout scan do to them. The theory shows that an ACK
  completes exactly the waiting operations whose last packet lies at most half the sequence space behind it, that
  over every sequence of calls no operation completes more often than it was added, and that the number of
  retries of an operation that still waits stays within the configured bounds.
\<close>

section \<open>State\<close>

record ReliabilityConfig =
  max_retries :: u32
  rnr_retry_limit :: u32
  ack_timeout_us :: u64
  rnr_timeout_us :: u64
  timeout_exponent :: u8

definition ReliabilityConfig_default :: ReliabilityConfig where
  "ReliabilityConfig_default = \<lparr>max_retries = 7, rnr_retry_limit = 7, ack_timeout_us = 4096,
     rnr_timeout_us = 655360, timeout_exponent = 14\<rparr>"

record PendingAck =
  pa_start_psn :: u32
  pa_end_psn :: u32
  pa_send_time_us :: u64
  pa_wr_id :: u64
  pa_opcode :: WqeOpcode
  pa_retry_count :: u32
  waiting_for_ack :: bool

record AckResult =
  ar_success :: bool
  needs_retransmit :: bool
  completed_wr_ids :: "u64 list"
  error_status :: "WqeStatus option"

definition AckResult_default :: AckResult where
  "AckResult_default = \<lparr>ar_success = False, needs_retransmit = False, completed_wr_ids = [], error_status = None\<rparr>"

record ReliabilityStats =
  acks_received :: u64
  naks_received :: u64
  retransmissions :: u64
  rel_timeouts :: u64
  rnr_retries :: u64
  retry_exceeded :: u64

definition ReliabilityStats_zero :: ReliabilityStats where
  "ReliabilityStats_zero = \<lparr>acks_received = 0, naks_received = 0, retransmissions = 0, rel_timeouts = 0,
     rnr_retries = 0, retry_exceeded = 0\<rparr>"

record ReliabilityManager =
  rel_config :: ReliabilityConfig
  rel_stats :: ReliabilityStats
  pending_ops :: "(u32 \<times> PendingAck list) list"

definition ReliabilityManager_new :: "ReliabilityConfig \<Rightarrow> ReliabilityManager" where
  "ReliabilityManager_new c = \<lparr>rel_config = c, rel_stats = ReliabilityStats_zero, pending_ops = []\<rparr>"

section \<open>Operations\<close>

definition add_pending :: "ReliabilityManager \<Rightarrow> u32 \<Rightarrow> u32 \<Rightarrow> u32 \<Rightarrow> u64 \<Rightarrow> WqeOpcode \<Rightarrow> u64 \<Rightarrow> ReliabilityManager" where
  "add_pending m qp start_psn end_psn wr_id opcode send_time_us =
     (let pending = \<lparr>pa_start_psn = start_psn, pa_end_psn = end_psn, pa_send_time_us = send_time_us, pa_wr_id = wr_id,
            pa_opcode = opcode, pa_retry_count = 0, waiting_for_ack = True\<rparr>;
          ops = (case um_lookup (pending_ops m) qp of None \<Rightarrow> [] | Some ops \<Rightarrow> ops)
      in m\<lparr>pending_ops := um_update qp (ops @ [pending]) (pending_ops m)\<rparr>)"

definition fully_acked :: "u32 \<Rightarrow> PendingAck \<Rightarrow> bool" where
  "fully_acked ack_psn op \<longleftrightarrow> (ack_psn - pa_end_psn op) AND kMaxPsn < 0x800000"

fun complete_up_to :: "u32 \<Rightarrow> PendingAck list \<Rightarrow> PendingAck list \<times> u64 list" where
  "complete_up_to ack_psn [] = ([], [])"
| "complete_up_to ack_psn (op # ops) =
     (let (ops', completed) = complete_up_to ack_psn ops in
      if \<not> waiting_for_ack op then (op # ops', completed)
      else if fully_acked ack_psn op then (op\<lparr>waiting_for_ack := False\<rparr> # ops', pa_wr_id op # completed)
      else (op # ops', completed))"

definition process_ack :: "ReliabilityManager \<Rightarrow> u32 \<Rightarrow> u32 \<Rightarrow> AckResult \<times> ReliabilityManager" where
  "process_ack m qp ack_psn =
     (case um_lookup (pending_ops m) qp of
        None \<Rightarrow> (AckResult_default, m)
      | Some ops \<Rightarrow>
          let (ops', completed) = complete_up_to ack_psn ops in
          (AckResult_default\<lparr>completed_wr_ids := completed, ar_success := True\<rparr>,
           m\<lparr>rel_stats := (rel_stats m)\<lparr>acks_received := acks_received (rel_stats m) + 1\<rparr>,
             pending_ops := um_update qp (filter waiting_for_ack ops') (pending_ops m)\<rparr>))"

text \<open>The loops of \<^verbatim>\<open>process_nak\<close>. A sequence error restarts the operations that hold the rejected packet, a
  receiver-not-ready answer counts against the operation that starts or ends there, and the fatal syndromes give up the
  operation that starts there.\<close>

fun seq_nak_loop ::
  "ReliabilityConfig \<Rightarrow> u32 \<Rightarrow> PendingAck list \<Rightarrow> AckResult \<Rightarrow> ReliabilityStats \<Rightarrow> PendingAck list \<times> AckResult \<times> ReliabilityStats"
where
  "seq_nak_loop c nak_psn [] r st = ([], r, st)"
| "seq_nak_loop c nak_psn (op # ops) r st =
     (if psn_in_window nak_psn (pa_start_psn op) ((pa_end_psn op - pa_start_psn op + 1) AND kMaxPsn) then
        let op1 = op\<lparr>pa_retry_count := pa_retry_count op + 1, pa_send_time_us := 0\<rparr>;
            (op2, r2, st2) =
              (if pa_retry_count op1 > max_retries c
               then (op1\<lparr>waiting_for_ack := False\<rparr>, r\<lparr>error_status := Some WsRetryExceededError\<rparr>,
                     st\<lparr>retry_exceeded := retry_exceeded st + 1\<rparr>)
               else (op1, r, st\<lparr>retransmissions := retransmissions st + 1\<rparr>));
            (ops', r', st') = seq_nak_loop c nak_psn ops r2 st2
        in (op2 # ops', r', st')
      else
        let (ops', r', st') = seq_nak_loop c nak_psn ops r st in (op # ops', r', st'))"

fun rnr_nak_loop ::
  "ReliabilityConfig \<Rightarrow> u32 \<Rightarrow> PendingAck list \<Rightarrow> AckResult \<Rightarrow> ReliabilityStats \<Rightarrow> PendingAck list \<times> AckResult \<times> ReliabilityStats"
where
  "rnr_nak_loop c nak_psn [] r st = ([], r, st)"
| "rnr_nak_loop c nak_psn (op # ops) r st =
     (if pa_start_psn op = nak_psn \<or> pa_end_psn op = nak_psn then
        let op1 = op\<lparr>pa_retry_count := pa_retry_count op + 1\<rparr>;
            (op2, r2, st2) =
              (if pa_retry_count op1 > rnr_retry_limit c
               then (op1\<lparr>waiting_for_ack := False\<rparr>, r\<lparr>error_status := Some WsRnrRetryExceededError\<rparr>,
                     st\<lparr>retry_exceeded := retry_exceeded st + 1\<rparr>)
               else (op1, r\<lparr>needs_retransmit := True\<rparr>, st));
            (ops', r', st') = rnr_nak_loop c nak_psn ops r2 st2
        in (op2 # ops', r', st')
      else
        let (ops', r', st') = rnr_nak_loop c nak_psn ops r st in (op # ops', r', st'))"

definition fatal_nak_loop :: "u32 \<Rightarrow> PendingAck list \<Rightarrow> PendingAck list" where
  "fatal_nak_loop nak_psn ops =
     map (\<lambda>op. if pa_start_psn op = nak_psn then op\<lparr>waiting_for_ack := False\<rparr> else op) ops"

definition fatal_status :: "AethSyndrome \<Rightarrow> WqeStatus option" where
  "fatal_status s =
     (if s = asInvalidRequest then Some WsRemoteInvalidRequestError
      else if s = asRemoteAccessError then Some WsRemoteAccessError
      else if s = asRemoteOpError then Some WsRemoteOperationError
      else None)"

definition nak_ops ::
  "ReliabilityConfig \<Rightarrow> u32 \<Rightarrow> AethSyndrome \<Rightarrow> PendingAck list \<Rightarrow> ReliabilityStats \<Rightarrow> PendingAck list \<times> AckResult \<times> ReliabilityStats"
where
  "nak_ops c nak_psn syndrome ops st =
     (if syndrome = asPsnSeqError
      then seq_nak_loop c nak_psn ops (AckResult_default\<lparr>needs_retransmit := True\<rparr>) st
      else if syndrome = asRnrNak
      then rnr_nak_loop c nak_psn ops AckResult_default (st\<lparr>rnr_retries := rnr_retries st + 1\<rparr>)
      else case fatal_status syndrome of
        Some e \<Rightarrow> (fatal_nak_loop nak_psn ops, AckResult_default\<lparr>error_status := Some e\<rparr>, st)
      | None \<Rightarrow> (ops, AckResult_default, st))"

definition process_nak :: "ReliabilityManager \<Rightarrow> u32 \<Rightarrow> u32 \<Rightarrow> AethSyndrome \<Rightarrow> AckResult \<times> ReliabilityManager" where
  "process_nak m qp nak_psn syndrome =
     (let st = (rel_stats m)\<lparr>naks_received := naks_received (rel_stats m) + 1\<rparr> in
      case um_lookup (pending_ops m) qp of
        None \<Rightarrow> (AckResult_default, m\<lparr>rel_stats := st\<rparr>)
      | Some ops \<Rightarrow>
          let (ops', r, st') = nak_ops (rel_config m) nak_psn syndrome ops st in
          (r\<lparr>ar_success := True\<rparr>, m\<lparr>rel_stats := st', pending_ops := um_update qp ops' (pending_ops m)\<rparr>))"

text \<open>The exponent \<^verbatim>\<open>calculate_timeout\<close> computes from \<open>timeout_exponent\<close> is not used. The shift is the 64-bit one; the
  retry count of an operation that waits stays within the configured limits, so it is defined when these are below 64.\<close>

definition calculate_timeout :: "ReliabilityConfig \<Rightarrow> u32 \<Rightarrow> u64" where
  "calculate_timeout c retry_count = push_bit (unat retry_count) (ack_timeout_us c)"

fun rel_timeout_loop ::
  "ReliabilityConfig \<Rightarrow> u64 \<Rightarrow> PendingAck list \<Rightarrow> ReliabilityStats \<Rightarrow> PendingAck list \<times> u32 list \<times> ReliabilityStats"
where
  "rel_timeout_loop c now [] st = ([], [], st)"
| "rel_timeout_loop c now (op # ops) st =
     (if waiting_for_ack op \<and> now - pa_send_time_us op \<ge> calculate_timeout c (pa_retry_count op) then
        let op1 = op\<lparr>pa_retry_count := pa_retry_count op + 1, pa_send_time_us := now\<rparr>;
            st1 = st\<lparr>rel_timeouts := rel_timeouts st + 1\<rparr>
        in
        if pa_retry_count op1 > max_retries c then
          let (ops', psns, st') = rel_timeout_loop c now ops (st1\<lparr>retry_exceeded := retry_exceeded st1 + 1\<rparr>)
          in (op1\<lparr>waiting_for_ack := False\<rparr> # ops', psns, st')
        else
          let (ops', psns, st') = rel_timeout_loop c now ops (st1\<lparr>retransmissions := retransmissions st1 + 1\<rparr>)
          in (op1 # ops', pa_start_psn op1 # psns, st')
      else
        let (ops', psns, st') = rel_timeout_loop c now ops st in (op # ops', psns, st'))"

definition ReliabilityManager_check_timeouts :: "ReliabilityManager \<Rightarrow> u32 \<Rightarrow> u64 \<Rightarrow> u32 list \<times> ReliabilityManager" where
  "ReliabilityManager_check_timeouts m qp current_time_us =
     (case um_lookup (pending_ops m) qp of
        None \<Rightarrow> ([], m)
      | Some ops \<Rightarrow>
          let (ops', psns, st) = rel_timeout_loop (rel_config m) current_time_us ops (rel_stats m) in
          (psns, m\<lparr>rel_stats := st, pending_ops := um_update qp ops' (pending_ops m)\<rparr>))"

definition ReliabilityManager_reset :: "ReliabilityManager \<Rightarrow> ReliabilityManager" where
  "ReliabilityManager_reset m = m\<lparr>pending_ops := [], rel_stats := ReliabilityStats_zero\<rparr>"

definition clear_pending :: "ReliabilityManager \<Rightarrow> u32 \<Rightarrow> ReliabilityManager" where
  "clear_pending m qp = m\<lparr>pending_ops := um_erase qp (pending_ops m)\<rparr>"

section \<open>What an acknowledgement completes\<close>

text \<open>A sequence number \<open>e\<close> is covered by \<open>ack\<close> when it lies less than half the sequence space behind it.\<close>

definition covered :: "u32 \<Rightarrow> u32 \<Rightarrow> bool" where
  "covered ack e \<longleftrightarrow> (\<exists>k. unat k < 2 ^ 23 \<and> ack = advance_psn e k)"

lemma fully_acked_iff:
  assumes "psn_ok ack" "psn_ok (pa_end_psn op)"
  shows "fully_acked ack op \<longleftrightarrow> covered ack (pa_end_psn op)"
  using psn_window_iff [OF assms, of "0x800000"] by (simp add: covered_def fully_acked_def psn_in_window_def)

lemma complete_up_to_completed:
  "snd (complete_up_to ack ops) = map pa_wr_id (filter (\<lambda>op. waiting_for_ack op \<and> fully_acked ack op) ops)"
  by (induction ack ops rule: complete_up_to.induct) (auto split: prod.splits)

lemma complete_up_to_remaining:
  "filter waiting_for_ack (fst (complete_up_to ack ops)) = filter (\<lambda>op. waiting_for_ack op \<and> \<not> fully_acked ack op) ops"
  by (induction ack ops rule: complete_up_to.induct) (auto split: prod.splits)

definition ops_of :: "ReliabilityManager \<Rightarrow> u32 \<Rightarrow> PendingAck list" where
  "ops_of m qp = (case um_lookup (pending_ops m) qp of None \<Rightarrow> [] | Some ops \<Rightarrow> ops)"

abbreviation waiting_ids :: "PendingAck list \<Rightarrow> u64 multiset" where
  "waiting_ids ops \<equiv> image_mset pa_wr_id (filter_mset waiting_for_ack (mset ops))"

lemma process_ack_conv:
  "completed_wr_ids (fst (process_ack m qp ack))
     = map pa_wr_id (filter (\<lambda>op. waiting_for_ack op \<and> fully_acked ack op) (ops_of m qp))"
  "ops_of (snd (process_ack m qp ack)) qp'
     = (if qp' = qp then filter (\<lambda>op. waiting_for_ack op \<and> \<not> fully_acked ack op) (ops_of m qp) else ops_of m qp')"
  using complete_up_to_completed [of ack "ops_of m qp"] complete_up_to_remaining [of ack "ops_of m qp"]
  by (auto simp: process_ack_def ops_of_def AckResult_default_def split: option.splits prod.splits)

section \<open>Calls\<close>

datatype RelCall =
    RAdd u32 u32 u32 u64 WqeOpcode u64
  | RAck u32 u32
  | RNak u32 u32 AethSyndrome
  | RTimeouts u32 u64
  | RClear u32
  | RReset

text \<open>A call on the manager, with the pairs of queue pair and request it adds and completes.\<close>

fun rel_call :: "RelCall \<Rightarrow> ReliabilityManager \<Rightarrow> (u32 \<times> u64) list \<times> (u32 \<times> u64) list \<times> ReliabilityManager" where
  "rel_call (RAdd qp s e wr op t) m = ([(qp, wr)], [], add_pending m qp s e wr op t)"
| "rel_call (RAck qp psn) m = ([], map (Pair qp) (completed_wr_ids (fst (process_ack m qp psn))), snd (process_ack m qp psn))"
| "rel_call (RNak qp psn s) m = ([], map (Pair qp) (completed_wr_ids (fst (process_nak m qp psn s))), snd (process_nak m qp psn s))"
| "rel_call (RTimeouts qp t) m = ([], [], snd (ReliabilityManager_check_timeouts m qp t))"
| "rel_call (RClear qp) m = ([], [], clear_pending m qp)"
| "rel_call RReset m = ([], [], ReliabilityManager_reset m)"

fun rel_run :: "RelCall list \<Rightarrow> ReliabilityManager \<Rightarrow> (u32 \<times> u64) list \<times> (u32 \<times> u64) list \<times> ReliabilityManager" where
  "rel_run [] m = ([], [], m)"
| "rel_run (a # as) m =
     (let (add1, done1, m1) = rel_call a m; (add2, done2, m2) = rel_run as m1 in (add1 @ add2, done1 @ done2, m2))"

definition retries_within :: "ReliabilityConfig \<Rightarrow> PendingAck \<Rightarrow> bool" where
  "retries_within c op \<longleftrightarrow> (waiting_for_ack op \<longrightarrow> pa_retry_count op \<le> max (max_retries c) (rnr_retry_limit c))"


text \<open>A loop over the pending operations changes each of them on its own: the request stays, an operation that has stopped
  waiting does not wait again, and one that still waits has not used up its retries.\<close>

definition op_step :: "ReliabilityConfig \<Rightarrow> PendingAck \<Rightarrow> PendingAck \<Rightarrow> bool" where
  "op_step c op op' \<longleftrightarrow> pa_wr_id op' = pa_wr_id op \<and> (waiting_for_ack op' \<longrightarrow> waiting_for_ack op) \<and>
     (retries_within c op \<longrightarrow> retries_within c op')"

abbreviation ops_step :: "ReliabilityConfig \<Rightarrow> PendingAck list \<Rightarrow> PendingAck list \<Rightarrow> bool" where
  "ops_step c \<equiv> list_all2 (op_step c)"

lemma op_step_refl [simp]: "op_step c op op"
  by (simp add: op_step_def)

lemma op_step_give_up [simp]: "op_step c op (op\<lparr>pa_retry_count := n, pa_send_time_us := t, waiting_for_ack := False\<rparr>)"
  "op_step c op (op\<lparr>pa_retry_count := n, waiting_for_ack := False\<rparr>)" "op_step c op (op\<lparr>waiting_for_ack := False\<rparr>)"
  by (simp_all add: op_step_def retries_within_def)

lemma op_step_retry [simp]:
  "n \<le> max_retries c \<Longrightarrow> op_step c op (op\<lparr>pa_retry_count := n, pa_send_time_us := t\<rparr>)"
  "n \<le> rnr_retry_limit c \<Longrightarrow> op_step c op (op\<lparr>pa_retry_count := n\<rparr>)"
  by (auto simp: op_step_def retries_within_def max_def)

lemma seq_nak_step:
  "seq_nak_loop c psn ops r st = (ops', r', st') \<Longrightarrow> ops_step c ops ops' \<and> completed_wr_ids r' = completed_wr_ids r"
proof (induction ops arbitrary: r st ops')
  case (Cons op ops)
  then show ?case by (fastforce simp: Let_def not_less split: prod.splits if_splits)
qed simp

lemma rnr_nak_step:
  "rnr_nak_loop c psn ops r st = (ops', r', st') \<Longrightarrow> ops_step c ops ops' \<and> completed_wr_ids r' = completed_wr_ids r"
proof (induction ops arbitrary: r st ops')
  case (Cons op ops)
  then show ?case by (fastforce simp: Let_def not_less split: prod.splits if_splits)
qed simp

lemma fatal_nak_step: "ops_step c ops (fatal_nak_loop psn ops)"
  by (simp add: fatal_nak_loop_def list_all2_map2 list.rel_refl_strong)

lemma timeout_step: "rel_timeout_loop c now ops st = (ops', psns, st') \<Longrightarrow> ops_step c ops ops'"
proof (induction ops arbitrary: st ops' psns)
  case (Cons op ops)
  then show ?case by (fastforce simp: Let_def not_less split: prod.splits if_splits)
qed simp

lemma nak_ops_step:
  "nak_ops c psn s ops st = (ops', r, st') \<Longrightarrow> ops_step c ops ops' \<and> completed_wr_ids r = []"
  using fatal_nak_step [of c ops psn]
  by (auto simp: nak_ops_def AckResult_default_def list.rel_refl dest!: seq_nak_step rnr_nak_step split: if_splits option.splits)

lemma ops_step_waiting: "ops_step c ops ops' \<Longrightarrow> waiting_ids ops' \<subseteq># waiting_ids ops"
proof (induction rule: list_all2_induct)
  case (Cons op ops op' ops')
  then show ?case
    by (cases "waiting_for_ack op'"; cases "waiting_for_ack op")
       (auto simp: op_step_def subset_mset.le_imp_less_or_eq intro: subset_mset.order_trans)
qed simp

lemma ops_step_retries: "ops_step c ops ops' \<Longrightarrow> list_all (retries_within c) ops \<Longrightarrow> list_all (retries_within c) ops'"
  by (induction rule: list_all2_induct) (auto simp: op_step_def)

definition ids_of :: "u32 \<Rightarrow> (u32 \<times> u64) list \<Rightarrow> u64 multiset" where
  "ids_of q xs = mset (map snd (filter (\<lambda>x. fst x = q) xs))"

lemma ids_of_simps [simp]: "ids_of q [] = {#}" "ids_of q (xs @ ys) = ids_of q xs + ids_of q ys"
  "ids_of q (map (Pair q') ws) = (if q' = q then mset ws else {#})"
  by (simp_all add: ids_of_def filter_map comp_def del: mset_map mset_filter)

lemma ops_of_add: "ops_of (add_pending m qp s e wr op t) q =
    (if q = qp then ops_of m qp @ [\<lparr>pa_start_psn = s, pa_end_psn = e, pa_send_time_us = t, pa_wr_id = wr,
            pa_opcode = op, pa_retry_count = 0, waiting_for_ack = True\<rparr>] else ops_of m q)"
  by (simp add: ops_of_def add_pending_def Let_def)

lemma process_nak_ops:
  "ops_step (rel_config m) (ops_of m q) (ops_of (snd (process_nak m qp psn s)) q)"
  "completed_wr_ids (fst (process_nak m qp psn s)) = []"
  by (auto simp: process_nak_def ops_of_def Let_def AckResult_default_def list.rel_refl dest!: nak_ops_step
      split: option.splits prod.splits)

lemma check_timeouts_ops:
  "ops_step (rel_config m) (ops_of m q) (ops_of (snd (ReliabilityManager_check_timeouts m qp t)) q)"
  by (auto simp: ReliabilityManager_check_timeouts_def ops_of_def list.rel_refl dest!: timeout_step
      split: option.splits prod.splits)

lemma ack_partition:
  "mset (map pa_wr_id (filter (\<lambda>op. waiting_for_ack op \<and> P op) ops))
     + waiting_ids (filter (\<lambda>op. waiting_for_ack op \<and> \<not> P op) ops) = waiting_ids ops"
  by (induction ops) auto

lemma rel_call_ids:
  assumes "rel_call a m = (add, fin, m')"
  shows "ids_of q fin + waiting_ids (ops_of m' q) \<subseteq># ids_of q add + waiting_ids (ops_of m q)"
proof (cases a)
  case (RAdd qp s e wr op t)
  with assms show ?thesis by (auto simp: ops_of_add ids_of_def)
next
  case (RAck qp psn)
  with assms show ?thesis
    using ack_partition [of "fully_acked psn" "ops_of m qp"]
    by (cases "q = qp") (auto simp: process_ack_conv simp del: mset_map mset_filter map_map)
next
  case (RNak qp psn s)
  with assms show ?thesis
    using ops_step_waiting [OF process_nak_ops(1)] by (auto simp: process_nak_ops(2))
next
  case (RTimeouts qp t)
  with assms show ?thesis using ops_step_waiting [OF check_timeouts_ops] by auto
next
  case (RClear qp)
  with assms show ?thesis by (auto simp: clear_pending_def ops_of_def)
next
  case RReset
  with assms show ?thesis by (auto simp: ReliabilityManager_reset_def ops_of_def)
qed

lemma rel_call_config: "rel_call a m = (add, fin, m') \<Longrightarrow> rel_config m' = rel_config m"
  by (cases a) (auto simp: add_pending_def process_ack_def process_nak_def ReliabilityManager_check_timeouts_def
      clear_pending_def ReliabilityManager_reset_def Let_def split: option.splits prod.splits)

lemma rel_call_retries:
  assumes "rel_call a m = (add, fin, m')" and "\<And>q. list_all (retries_within (rel_config m)) (ops_of m q)"
  shows "list_all (retries_within (rel_config m)) (ops_of m' q)"
proof (cases a)
  case (RAdd qp s e wr op t)
  with assms show ?thesis by (auto simp: ops_of_add retries_within_def max_def)
next
  case (RAck qp psn)
  with assms show ?thesis using assms(2) [of q] assms(2) [of qp] by (auto simp: process_ack_conv(2) list_all_iff split: if_splits)
next
  case (RNak qp psn s)
  with assms show ?thesis using ops_step_retries [OF process_nak_ops(1)] by auto
next
  case (RTimeouts qp t)
  with assms show ?thesis using ops_step_retries [OF check_timeouts_ops] by auto
next
  case (RClear qp)
  with assms show ?thesis using assms(2) [of q] by (auto simp: clear_pending_def ops_of_def)
next
  case RReset
  with assms show ?thesis by (auto simp: ReliabilityManager_reset_def ops_of_def)
qed

lemma rel_run_ids:
  "rel_run as m = (add, fin, m') \<Longrightarrow> ids_of q fin + waiting_ids (ops_of m' q) \<subseteq># ids_of q add + waiting_ids (ops_of m q)"
proof (induction as arbitrary: m add fin)
  case (Cons a as)
  obtain add1 fin1 m1 where a: "rel_call a m = (add1, fin1, m1)" by (metis prod_cases3)
  obtain add2 fin2 where as: "rel_run as m1 = (add2, fin2, m')" and eq: "add = add1 @ add2" "fin = fin1 @ fin2"
    using Cons.prems a by (auto split: prod.splits)
  have "ids_of q fin1 + (ids_of q fin2 + waiting_ids (ops_of m' q)) \<subseteq># ids_of q fin1 + (ids_of q add2 + waiting_ids (ops_of m1 q))"
    using Cons.IH [OF as] by simp
  moreover have "ids_of q add2 + (ids_of q fin1 + waiting_ids (ops_of m1 q)) \<subseteq># ids_of q add2 + (ids_of q add1 + waiting_ids (ops_of m q))"
    using rel_call_ids [OF a] by simp
  ultimately have "ids_of q fin1 + (ids_of q fin2 + waiting_ids (ops_of m' q)) \<subseteq># ids_of q add2 + (ids_of q add1 + waiting_ids (ops_of m q))"
    by (simp only: add.left_commute [of "ids_of q fin1" "ids_of q add2"] subset_mset.order_trans)
  then show ?case unfolding eq ids_of_simps by (simp only: ac_simps)
qed simp

lemma rel_run_retries:
  "rel_run as m = (add, fin, m') \<Longrightarrow> (\<And>q. list_all (retries_within (rel_config m)) (ops_of m q)) \<Longrightarrow>
     rel_config m' = rel_config m \<and> list_all (retries_within (rel_config m)) (ops_of m' q)"
proof (induction as arbitrary: m add fin)
  case (Cons a as)
  obtain add1 fin1 m1 where a: "rel_call a m = (add1, fin1, m1)" by (metis prod_cases3)
  obtain add2 fin2 where as: "rel_run as m1 = (add2, fin2, m')" using Cons.prems a by (auto split: prod.splits)
  show ?case
    using Cons.IH [OF as] rel_call_retries [OF a Cons.prems(2)] rel_call_config [OF a] by simp
qed simp

section \<open>Properties\<close>

text \<open>C24: over every sequence of calls on a fresh manager, each request of a queue pair that completes or still waits is accounted
  for by one call that added it, so no request completes twice or without having been sent. An operation that still
  waits has been retried at most as often as the configuration allows. And an ACK for a sequence number completes
  exactly the waiting operations whose last packet is at most \<open>2 ^ 23 - 1\<close> numbers behind it modulo \<open>2 ^ 24\<close>,
  in the order they were sent, and keeps the other waiting operations.\<close>

theorem requests_complete_once:
  assumes "rel_run calls (ReliabilityManager_new c) = (added, completed, m)"
  shows "ids_of qp completed + waiting_ids (ops_of m qp) \<subseteq># ids_of qp added \<and>
    (\<forall>op \<in> set (ops_of m qp). waiting_for_ack op \<longrightarrow> pa_retry_count op \<le> max (max_retries c) (rnr_retry_limit c)) \<and>
    (\<forall>ack r m'. psn_ok ack \<longrightarrow> (\<forall>op \<in> set (ops_of m qp). psn_ok (pa_end_psn op)) \<longrightarrow> process_ack m qp ack = (r, m') \<longrightarrow>
      completed_wr_ids r = map pa_wr_id (filter (\<lambda>op. waiting_for_ack op \<and> covered ack (pa_end_psn op)) (ops_of m qp)) \<and>
      ops_of m' qp = filter (\<lambda>op. waiting_for_ack op \<and> \<not> covered ack (pa_end_psn op)) (ops_of m qp))"
proof -
  have new: "ops_of (ReliabilityManager_new c) q = []" "rel_config (ReliabilityManager_new c) = c" for q
    by (simp_all add: ops_of_def ReliabilityManager_new_def)
  have "completed_wr_ids r = map pa_wr_id (filter (\<lambda>op. waiting_for_ack op \<and> covered ack (pa_end_psn op)) (ops_of m qp)) \<and>
      ops_of m' qp = filter (\<lambda>op. waiting_for_ack op \<and> \<not> covered ack (pa_end_psn op)) (ops_of m qp)"
    if ok: "psn_ok ack" "\<forall>op \<in> set (ops_of m qp). psn_ok (pa_end_psn op)" and p: "process_ack m qp ack = (r, m')" for ack r m'
  proof -
    have "fully_acked ack op \<longleftrightarrow> covered ack (pa_end_psn op)" if "op \<in> set (ops_of m qp)" for op
      using fully_acked_iff ok that by blast
    then have "filter (\<lambda>op. waiting_for_ack op \<and> fully_acked ack op) (ops_of m qp) =
        filter (\<lambda>op. waiting_for_ack op \<and> covered ack (pa_end_psn op)) (ops_of m qp)"
      "filter (\<lambda>op. waiting_for_ack op \<and> \<not> fully_acked ack op) (ops_of m qp) =
        filter (\<lambda>op. waiting_for_ack op \<and> \<not> covered ack (pa_end_psn op)) (ops_of m qp)"
      by (auto intro: filter_cong)
    then show ?thesis using process_ack_conv [of m qp ack] p by simp
  qed
  moreover have "ids_of qp completed + waiting_ids (ops_of m qp) \<subseteq># ids_of qp added"
    using rel_run_ids [OF assms, of qp] by (simp add: new)
  moreover have "\<forall>op \<in> set (ops_of m qp). waiting_for_ack op \<longrightarrow> pa_retry_count op \<le> max (max_retries c) (rnr_retry_limit c)"
    using rel_run_retries [OF assms, of qp] by (auto simp: new list_all_iff retries_within_def)
  ultimately show ?thesis by blast
qed

text \<open>Two requests, the first over sequence numbers \<open>0xFFFFFE\<close> to \<open>0\<close>: the ACK of number \<open>0\<close> after the wrap completes it, and
  only it; a repeated ACK completes nothing.\<close>

theorem requests_complete_once_witness:
  "\<exists>m m'. rel_run [RAdd 5 0xFFFFFE 0 10 WqSend 0, RAdd 5 1 2 11 WqSend 0, RTimeouts 5 5000]
       (ReliabilityManager_new ReliabilityConfig_default) = ([(5, 10), (5, 11)], [], m) \<and>
     waiting_ids (ops_of m 5) \<subseteq># ids_of 5 [(5, 10), (5, 11)] \<and>
     pa_retry_count (hd (ops_of m 5)) \<le> 7 \<and>
     completed_wr_ids (fst (process_ack m 5 0)) = [10] \<and> m' = snd (process_ack m 5 0) \<and> map pa_wr_id (ops_of m' 5) = [11]"
proof -
  define calls where "calls = [RAdd 5 0xFFFFFE 0 10 WqSend 0, RAdd 5 1 2 11 WqSend 0, RTimeouts 5 5000]"
  define m where "m = snd (snd (rel_run calls (ReliabilityManager_new ReliabilityConfig_default)))"
  have run: "rel_run calls (ReliabilityManager_new ReliabilityConfig_default) = ([(5, 10), (5, 11)], [], m)"
    unfolding m_def calls_def by code_simp
  have ops: "ops_of m 5 = [\<lparr>pa_start_psn = 0xFFFFFE, pa_end_psn = 0, pa_send_time_us = 5000, pa_wr_id = 10, pa_opcode = WqSend,
        pa_retry_count = 1, waiting_for_ack = True\<rparr>, \<lparr>pa_start_psn = 1, pa_end_psn = 2, pa_send_time_us = 5000, pa_wr_id = 11,
        pa_opcode = WqSend, pa_retry_count = 1, waiting_for_ack = True\<rparr>]"
    unfolding m_def calls_def by code_simp
  obtain r m' where ack: "process_ack m 5 0 = (r, m')" by (metis surj_pair)
  note all = requests_complete_once [OF run, of 5]
  have "psn_ok (0 :: u32)" "\<forall>op \<in> set (ops_of m 5). psn_ok (pa_end_psn op)" by (simp_all add: ops)
  then have inst: "completed_wr_ids r = map pa_wr_id (filter (\<lambda>op. waiting_for_ack op \<and> covered 0 (pa_end_psn op)) (ops_of m 5))"
    "ops_of m' 5 = filter (\<lambda>op. waiting_for_ack op \<and> \<not> covered 0 (pa_end_psn op)) (ops_of m 5)"
    using all ack by blast+
  have "covered 0 0" unfolding covered_def by (rule exI [of _ 0]) (simp add: advance_psn_0)
  moreover have "\<not> covered 0 2"
  proof
    assume "covered 0 2"
    then obtain k where "unat k < 2 ^ 23" "unat (advance_psn 2 k) = 0" by (auto simp: covered_def)
    then show False by (simp add: unat_advance_psn)
  qed
  ultimately have "completed_wr_ids r = [10]" "map pa_wr_id (ops_of m' 5) = [11]" using inst by (simp_all add: ops)
  moreover have "waiting_ids (ops_of m 5) \<subseteq># ids_of 5 [(5, 10), (5, 11)]" using all by simp
  moreover have "pa_retry_count (hd (ops_of m 5)) \<le> 7" using all by (simp add: ops ReliabilityConfig_default_def)
  ultimately show ?thesis using run ack unfolding calls_def by auto
qed

end
