(* ===== verification/Rocev2_Congestion.thy ===== *)
theory Rocev2_Congestion
  imports Rocev2_Packet Ieee_Double
begin

text \<open>
  The DCQCN congestion control manager of \<^verbatim>\<open>rocev2/congestion.h\<close> and \<^verbatim>\<open>congestion.cpp\<close>: generation of congestion
  notification packets with a rate limit per flow, the decrease of a flow's rate when one arrives, and the
  recovery over time. The factor \<open>alpha\<close> and the rate products are doubles, represented as in \<^verbatim>\<open>Ieee_Double\<close>.
  The theory shows that over every sequence of calls the rate of a flow stays between the configured minimum and
  the initial rate, and that a flow that gets no more notifications returns to the initial rate.
\<close>

section \<open>State\<close>

definition kCnpDscp :: u8 where "kCnpDscp = 48"

datatype EcnCodepoint = NonEct | Ect0 | Ect1 | Ce

record DcqcnConfig =
  initial_rate_mbps :: u64
  min_rate_mbps :: u64
  alpha_g :: rat
  dcqcn_beta :: rat
  rate_increase_period_us :: u64
  alpha_update_period_us :: u64
  cnp_timer_us :: u64
  dcqcn_enabled :: bool

definition DcqcnConfig_default :: DcqcnConfig where
  "DcqcnConfig_default = \<lparr>initial_rate_mbps = 100000, min_rate_mbps = 10, alpha_g = 1 / 256, dcqcn_beta = 1 / 2,
     rate_increase_period_us = 50, alpha_update_period_us = 55, cnp_timer_us = 50, dcqcn_enabled = True\<rparr>"

record DcqcnFlowState =
  current_rate_mbps :: u64
  target_rate_mbps :: u64
  fs_alpha :: rat
  last_cnp_time_us :: u64
  rate_increase_time_us :: u64
  alpha_update_time_us :: u64
  cnp_count :: u32
  in_recovery :: bool

record CongestionStats =
  cnps_generated :: u64
  cnps_received :: u64
  ecn_marks_detected :: u64
  rate_decreases :: u64
  rate_increases :: u64

definition CongestionStats_zero :: CongestionStats where
  "CongestionStats_zero = \<lparr>cnps_generated = 0, cnps_received = 0, ecn_marks_detected = 0, rate_decreases = 0, rate_increases = 0\<rparr>"

record CongestionControlManager =
  cc_config :: DcqcnConfig
  cc_stats :: CongestionStats
  cc_current_time_us :: u64
  flow_states :: "(u32 \<times> DcqcnFlowState) list"
  cnp_timers :: "(u32 \<times> u64) list"

definition CongestionControlManager_new :: "DcqcnConfig \<Rightarrow> CongestionControlManager" where
  "CongestionControlManager_new c =
     \<lparr>cc_config = c, cc_stats = CongestionStats_zero, cc_current_time_us = 0, flow_states = [], cnp_timers = []\<rparr>"

section \<open>Notification packets\<close>

definition is_congestion_marked :: "EcnCodepoint \<Rightarrow> bool" where
  "is_congestion_marked ecn \<longleftrightarrow> ecn = Ce"

definition cnp_builder :: "u32 \<Rightarrow> RdmaPacketBuilder" where
  "cnp_builder dest_qp =
     set_becn True (set_ack_request False (set_psn 0 (set_dest_qp dest_qp (set_opcode kCnp RdmaPacketBuilder_new))))"

definition generate_cnp ::
  "(nat list \<Rightarrow> u64 list \<Rightarrow> bytes) \<Rightarrow> CongestionControlManager \<Rightarrow> u32 \<Rightarrow> u64 \<Rightarrow> bytes option \<times> CongestionControlManager"
where
  "generate_cnp ser m dest_qp now =
     (let limited = (case um_lookup (cnp_timers m) dest_qp of None \<Rightarrow> False
                     | Some t \<Rightarrow> now - t < cnp_timer_us (cc_config m)) in
      if \<not> dcqcn_enabled (cc_config m) \<or> limited then (None, m)
      else
        (Some (RdmaPacketBuilder_build ser (cnp_builder dest_qp) @ replicate 16 0),
         m\<lparr>cnp_timers := um_update dest_qp now (cnp_timers m),
           cc_stats := (cc_stats m)\<lparr>cnps_generated := cnps_generated (cc_stats m) + 1,
             ecn_marks_detected := ecn_marks_detected (cc_stats m) + 1\<rparr>\<rparr>))"

section \<open>Rates\<close>

definition new_flow :: "CongestionControlManager \<Rightarrow> DcqcnFlowState" where
  "new_flow m = \<lparr>current_rate_mbps = initial_rate_mbps (cc_config m), target_rate_mbps = initial_rate_mbps (cc_config m),
     fs_alpha = 1, last_cnp_time_us = 0, rate_increase_time_us = cc_current_time_us m,
     alpha_update_time_us = cc_current_time_us m, cnp_count = 0, in_recovery = False\<rparr>"

definition get_flow_state :: "CongestionControlManager \<Rightarrow> u32 \<Rightarrow> DcqcnFlowState \<times> CongestionControlManager" where
  "get_flow_state m qp =
     (case um_lookup (flow_states m) qp of
        Some st \<Rightarrow> (st, m)
      | None \<Rightarrow> (new_flow m, m\<lparr>flow_states := um_update qp (new_flow m) (flow_states m)\<rparr>))"

definition u64_to_double :: "u64 \<Rightarrow> rat" where
  "u64_to_double w = dbl (of_int (uint w))"

definition decrease_rate :: "DcqcnConfig \<Rightarrow> DcqcnFlowState \<Rightarrow> DcqcnFlowState" where
  "decrease_rate c st =
     (let factor = dbl (1 - dbl (fs_alpha st / 2));
          rate = max (min_rate_mbps c) (of_int (double_to_int (dbl (u64_to_double (current_rate_mbps st) * factor))))
      in st\<lparr>current_rate_mbps := rate, target_rate_mbps := rate\<rparr>)"

definition handle_cnp_received :: "CongestionControlManager \<Rightarrow> u32 \<Rightarrow> u64 \<Rightarrow> CongestionControlManager" where
  "handle_cnp_received m qp now =
     (if \<not> dcqcn_enabled (cc_config m) then m
      else
        let (st, m1) = get_flow_state m qp;
            st1 = (decrease_rate (cc_config m) st)\<lparr>last_cnp_time_us := now, in_recovery := True, cnp_count := cnp_count st + 1\<rparr>
        in m1\<lparr>flow_states := um_update qp st1 (flow_states m1),
              cc_stats := (cc_stats m1)\<lparr>cnps_received := cnps_received (cc_stats m1) + 1,
                rate_decreases := rate_decreases (cc_stats m1) + 1\<rparr>\<rparr>)"

definition get_current_rate :: "CongestionControlManager \<Rightarrow> u32 \<Rightarrow> u64" where
  "get_current_rate m qp =
     (case um_lookup (flow_states m) qp of None \<Rightarrow> initial_rate_mbps (cc_config m) | Some st \<Rightarrow> current_rate_mbps st)"

definition rate_increment :: "DcqcnConfig \<Rightarrow> u64" where
  "rate_increment c = of_int (double_to_int (dbl (u64_to_double (initial_rate_mbps c) * alpha_g c)))"

definition recover_rate :: "DcqcnConfig \<Rightarrow> DcqcnFlowState \<Rightarrow> DcqcnFlowState" where
  "recover_rate c st =
     (if \<not> in_recovery st then st
      else
        let target = min (initial_rate_mbps c) (target_rate_mbps st + rate_increment c);
            rate = (current_rate_mbps st + target + 1) div 2;
            st1 = st\<lparr>target_rate_mbps := target, current_rate_mbps := rate\<rparr>
        in if rate \<ge> initial_rate_mbps c then st1\<lparr>in_recovery := False, current_rate_mbps := initial_rate_mbps c\<rparr> else st1)"

definition update_alpha :: "DcqcnConfig \<Rightarrow> DcqcnFlowState \<Rightarrow> bool \<Rightarrow> DcqcnFlowState" where
  "update_alpha c st cnp_received =
     (let cnp_factor = (if cnp_received then 1 else 0);
          a = dbl (dbl (dbl (1 - alpha_g c) * fs_alpha st) + dbl (alpha_g c * cnp_factor))
      in st\<lparr>fs_alpha := if a < 0 then 0 else if 1 < a then 1 else a\<rparr>)"

text \<open>One flow's share of \<^verbatim>\<open>advance_time\<close>: the new state, and whether a rate recovery was counted.\<close>

definition recovery_due :: "DcqcnConfig \<Rightarrow> u64 \<Rightarrow> DcqcnFlowState \<Rightarrow> bool" where
  "recovery_due c now st \<longleftrightarrow> in_recovery st \<and> now - rate_increase_time_us st \<ge> rate_increase_period_us c"

definition advance_flow :: "DcqcnConfig \<Rightarrow> u64 \<Rightarrow> DcqcnFlowState \<Rightarrow> DcqcnFlowState" where
  "advance_flow c now st =
     (let st1 = (if recovery_due c now st then (recover_rate c st)\<lparr>rate_increase_time_us := now\<rparr> else st) in
      if now - alpha_update_time_us st1 \<ge> alpha_update_period_us c
      then (update_alpha c st1 (now - last_cnp_time_us st1 < alpha_update_period_us c))\<lparr>alpha_update_time_us := now\<rparr>
      else st1)"

definition CongestionControlManager_advance_time :: "CongestionControlManager \<Rightarrow> u64 \<Rightarrow> CongestionControlManager" where
  "CongestionControlManager_advance_time m elapsed =
     (let now = cc_current_time_us m + elapsed; c = cc_config m in
      if \<not> dcqcn_enabled c then m\<lparr>cc_current_time_us := now\<rparr>
      else m\<lparr>cc_current_time_us := now,
             flow_states := map (\<lambda>(qp, st). (qp, advance_flow c now st)) (flow_states m),
             cc_stats := (cc_stats m)\<lparr>rate_increases := rate_increases (cc_stats m)
               + of_nat (length (filter (\<lambda>(qp, st). recovery_due c now st) (flow_states m)))\<rparr>\<rparr>)"

definition CongestionControlManager_reset :: "CongestionControlManager \<Rightarrow> CongestionControlManager" where
  "CongestionControlManager_reset m =
     m\<lparr>flow_states := [], cnp_timers := [], cc_stats := CongestionStats_zero, cc_current_time_us := 0\<rparr>"

definition clear_flow_state :: "CongestionControlManager \<Rightarrow> u32 \<Rightarrow> CongestionControlManager" where
  "clear_flow_state m qp =
     m\<lparr>flow_states := um_erase qp (flow_states m), cnp_timers := um_erase qp (cnp_timers m)\<rparr>"

section \<open>The invariant of a flow\<close>

text \<open>Rates are ordered minimum, current, target, initial; a flow that is not recovering runs at the initial rate. The bound
  \<open>2 ^ 53\<close> on the initial rate is where a 64-bit rate is exactly a double.\<close>

definition dcqcn_config_ok :: "DcqcnConfig \<Rightarrow> bool" where
  "dcqcn_config_ok c \<longleftrightarrow> min_rate_mbps c \<le> initial_rate_mbps c \<and> unat (initial_rate_mbps c) \<le> 2 ^ 53 \<and> 0 \<le> alpha_g c \<and> alpha_g c \<le> 1"

definition flow_ok :: "DcqcnConfig \<Rightarrow> DcqcnFlowState \<Rightarrow> bool" where
  "flow_ok c st \<longleftrightarrow> min_rate_mbps c \<le> current_rate_mbps st \<and> current_rate_mbps st \<le> target_rate_mbps st \<and>
     target_rate_mbps st \<le> initial_rate_mbps c \<and> 0 \<le> fs_alpha st \<and> fs_alpha st \<le> 1 \<and>
     (\<not> in_recovery st \<longrightarrow> current_rate_mbps st = initial_rate_mbps c)"

lemma double_to_u64:
  assumes "0 \<le> x" "x \<le> of_nat (unat (w :: u64))"
  shows "of_int (double_to_int x) \<le> w"
proof -
  have b: "0 \<le> double_to_int x" "double_to_int x \<le> int (unat w)" using double_to_int_bounds [OF assms] by simp_all
  then have "uint (of_int (double_to_int x) :: u64) = double_to_int x"
    using uint_bounded [of w] by (simp add: unsigned_of_int take_bit_int_eq_self)
  then show ?thesis using b by (simp add: word_le_def)
qed

lemma u64_to_double_unat: "u64_to_double w = dbl (of_nat (unat w))"
  by (simp add: u64_to_double_def)

lemma decreased_rate_le:
  assumes "unat r \<le> 2 ^ 53" "0 \<le> a" "a \<le> 1"
  shows "of_int (double_to_int (dbl (u64_to_double r * dbl (1 - dbl (a / 2))))) \<le> r"
proof -
  have "0 \<le> dbl (1 - dbl (a / 2))" using dbl.factor_bounds(1) [OF assms(2,3)] by linarith
  with dbl.scaled_bounds [OF assms(1), of "dbl (1 - dbl (a / 2))"] dbl.factor_bounds(2) [OF assms(2,3)]
  show ?thesis by (intro double_to_u64) (simp_all add: u64_to_double_unat)
qed

lemma rate_increment_le: "dcqcn_config_ok c \<Longrightarrow> rate_increment c \<le> initial_rate_mbps c"
  unfolding rate_increment_def dcqcn_config_ok_def u64_to_double_unat
  by (intro double_to_u64 dbl.scaled_bounds) simp_all

lemma flow_ok_new: "dcqcn_config_ok (cc_config m) \<Longrightarrow> flow_ok (cc_config m) (new_flow m)"
  by (simp add: flow_ok_def new_flow_def dcqcn_config_ok_def)

lemma flow_ok_decrease:
  assumes "dcqcn_config_ok c" "flow_ok c st"
  shows "flow_ok c ((decrease_rate c st)\<lparr>last_cnp_time_us := t, in_recovery := True, cnp_count := n\<rparr>)"
proof -
  have "unat (current_rate_mbps st) \<le> unat (initial_rate_mbps c)"
    using assms(2) by (auto simp: flow_ok_def word_le_nat_alt)
  then have "of_int (double_to_int (dbl (u64_to_double (current_rate_mbps st) * dbl (1 - dbl (fs_alpha st / 2))))) \<le> current_rate_mbps st"
    using assms by (intro decreased_rate_le) (auto simp: dcqcn_config_ok_def flow_ok_def)
  then show ?thesis using assms by (auto simp: flow_ok_def decrease_rate_def dcqcn_config_ok_def Let_def)
qed

text \<open>The rounded-up average of the current and the target rate, without wrap-around.\<close>

lemma unat_average:
  "unat a \<le> 2 ^ 53 \<Longrightarrow> unat b \<le> 2 ^ 53 \<Longrightarrow> unat (((a :: u64) + b + 1) div 2) = (unat a + unat b + 1) div 2"
  by (simp add: unat_div unat_word_ariths)

lemma recover_numbers:
  assumes "dcqcn_config_ok c" "flow_ok c st"
  defines "t \<equiv> min (initial_rate_mbps c) (target_rate_mbps st + rate_increment c)"
  defines "r \<equiv> (current_rate_mbps st + t + 1) div 2"
  shows "unat t = min (unat (initial_rate_mbps c)) (unat (target_rate_mbps st) + unat (rate_increment c))"
    "unat r = (unat (current_rate_mbps st) + unat t + 1) div 2" "t \<le> initial_rate_mbps c"
    "current_rate_mbps st \<le> t" "current_rate_mbps st \<le> r" "r \<le> t"
proof -
  let ?i = "initial_rate_mbps c"
  have i: "unat ?i \<le> 2 ^ 53" "unat (rate_increment c) \<le> unat ?i" "unat (target_rate_mbps st) \<le> unat ?i"
    "unat (current_rate_mbps st) \<le> unat (target_rate_mbps st)"
    using assms(1,2) rate_increment_le [OF assms(1)] by (simp_all add: dcqcn_config_ok_def flow_ok_def word_le_nat_alt)
  then show t: "unat t = min (unat ?i) (unat (target_rate_mbps st) + unat (rate_increment c))"
    by (auto simp: t_def min_def word_le_nat_alt unat_word_ariths)
  then have t': "unat t \<le> unat ?i" "unat (current_rate_mbps st) \<le> unat t" using i by simp_all
  show r: "unat r = (unat (current_rate_mbps st) + unat t + 1) div 2"
    unfolding r_def using i t' by (intro unat_average) simp_all
  show "t \<le> ?i" "current_rate_mbps st \<le> t" "current_rate_mbps st \<le> r" "r \<le> t"
    using t' r by (simp_all add: word_le_nat_alt)
qed

lemma flow_ok_recover: "dcqcn_config_ok c \<Longrightarrow> flow_ok c st \<Longrightarrow> flow_ok c (recover_rate c st)"
  using recover_numbers [of c st] by (auto simp: flow_ok_def recover_rate_def Let_def)

lemma flow_ok_alpha: "flow_ok c st \<Longrightarrow> flow_ok c (update_alpha c st b)"
  by (simp add: flow_ok_def update_alpha_def Let_def)

lemma flow_ok_time [simp]:
  "flow_ok c (st\<lparr>rate_increase_time_us := t\<rparr>) = flow_ok c st" "flow_ok c (st\<lparr>alpha_update_time_us := t\<rparr>) = flow_ok c st"
  by (simp_all add: flow_ok_def)

lemma flow_ok_advance: "dcqcn_config_ok c \<Longrightarrow> flow_ok c st \<Longrightarrow> flow_ok c (advance_flow c now st)"
  by (simp add: advance_flow_def Let_def flow_ok_recover flow_ok_alpha)

section \<open>Calls\<close>

datatype CcCall = CcCnp u32 u64 | CcReceived u32 u64 | CcAdvance u64 | CcClear u32 | CcReset

fun cc_call :: "(nat list \<Rightarrow> u64 list \<Rightarrow> bytes) \<Rightarrow> CcCall \<Rightarrow> CongestionControlManager \<Rightarrow> CongestionControlManager" where
  "cc_call ser (CcCnp qp t) m = snd (generate_cnp ser m qp t)"
| "cc_call ser (CcReceived qp t) m = handle_cnp_received m qp t"
| "cc_call ser (CcAdvance t) m = CongestionControlManager_advance_time m t"
| "cc_call ser (CcClear qp) m = clear_flow_state m qp"
| "cc_call ser CcReset m = CongestionControlManager_reset m"

definition flows_ok :: "CongestionControlManager \<Rightarrow> bool" where
  "flows_ok m \<longleftrightarrow> (\<forall>qp st. um_lookup (flow_states m) qp = Some st \<longrightarrow> flow_ok (cc_config m) st)"

lemma um_lookup_map: "um_lookup (map (\<lambda>(k, v). (k, f v)) m) k = map_option f (um_lookup m k)"
  by (induction m) auto

lemma cc_call_config [simp]: "cc_config (cc_call ser a m) = cc_config m"
  by (cases a) (auto simp: generate_cnp_def handle_cnp_received_def get_flow_state_def CongestionControlManager_advance_time_def
      clear_flow_state_def CongestionControlManager_reset_def Let_def split: option.splits)

lemma flows_ok_call:
  assumes "dcqcn_config_ok (cc_config m)" "flows_ok m"
  shows "flows_ok (cc_call ser a m)"
proof (cases a)
  case (CcReceived qp t)
  have "flow_ok (cc_config m) (fst (get_flow_state m qp))"
    using assms flow_ok_new by (auto simp: get_flow_state_def flows_ok_def split: option.splits)
  with assms CcReceived show ?thesis
    by (auto simp: flows_ok_def handle_cnp_received_def get_flow_state_def Let_def flow_ok_decrease split: option.splits if_splits)
next
  case (CcAdvance t)
  with assms show ?thesis
    by (auto simp: flows_ok_def CongestionControlManager_advance_time_def Let_def um_lookup_map flow_ok_advance)
qed (use assms in \<open>auto simp: flows_ok_def generate_cnp_def clear_flow_state_def CongestionControlManager_reset_def Let_def split: if_splits\<close>)

lemma flows_ok_calls:
  "dcqcn_config_ok (cc_config m) \<Longrightarrow> flows_ok m \<Longrightarrow> flows_ok (fold (cc_call ser) as m) \<and> cc_config (fold (cc_call ser) as m) = cc_config m"
  by (induction as arbitrary: m) (simp_all add: flows_ok_call)

section \<open>Recovery\<close>

fun flow_run :: "DcqcnConfig \<Rightarrow> u64 \<Rightarrow> u64 list \<Rightarrow> DcqcnFlowState \<Rightarrow> DcqcnFlowState" where
  "flow_run c now [] st = st"
| "flow_run c now (e # es) st = flow_run c (now + e) es (advance_flow c (now + e) st)"

lemma advance_times_flow:
  "dcqcn_enabled (cc_config m) \<Longrightarrow> um_lookup (flow_states (fold (cc_call ser) (map CcAdvance es) m)) qp =
     map_option (flow_run (cc_config m) (cc_current_time_us m) es) (um_lookup (flow_states m) qp)"
proof (induction es arbitrary: m)
  case (Cons e es)
  have "cc_current_time_us (CongestionControlManager_advance_time m e) = cc_current_time_us m + e"
    "cc_config (CongestionControlManager_advance_time m e) = cc_config m"
    by (simp_all add: CongestionControlManager_advance_time_def Let_def)
  with Cons show ?case
    by (simp add: CongestionControlManager_advance_time_def Let_def um_lookup_map option.map_comp comp_def)
next
  case Nil
  then show ?case by (cases "um_lookup (flow_states m) qp") simp_all
qed

text \<open>What is missing to the initial rate, in the target and in the current rate.\<close>

definition gap :: "DcqcnConfig \<Rightarrow> DcqcnFlowState \<Rightarrow> nat" where
  "gap c st = (unat (initial_rate_mbps c) - unat (target_rate_mbps st)) + (unat (initial_rate_mbps c) - unat (current_rate_mbps st))"

lemma advance_flow_due:
  "recovery_due c now st \<Longrightarrow> gap c (advance_flow c now st) = gap c (recover_rate c st) \<and>
     in_recovery (advance_flow c now st) = in_recovery (recover_rate c st) \<and> rate_increase_time_us (advance_flow c now st) = now"
  by (simp add: advance_flow_def gap_def update_alpha_def Let_def)

lemma advance_flow_not_due:
  "\<not> recovery_due c now st \<Longrightarrow> gap c (advance_flow c now st) = gap c st \<and>
     in_recovery (advance_flow c now st) = in_recovery st \<and> rate_increase_time_us (advance_flow c now st) = rate_increase_time_us st"
  by (simp add: advance_flow_def gap_def update_alpha_def Let_def)

lemma recover_gap:
  assumes "dcqcn_config_ok c" "flow_ok c st" "0 < rate_increment c" "in_recovery st" "in_recovery (recover_rate c st)"
  shows "gap c (recover_rate c st) < gap c st"
proof -
  let ?i = "unat (initial_rate_mbps c)"
  define t where "t = min (initial_rate_mbps c) (target_rate_mbps st + rate_increment c)"
  define r where "r = (current_rate_mbps st + t + 1) div 2"
  note n = recover_numbers [OF assms(1,2), folded t_def, folded r_def]
  have "\<not> r \<ge> initial_rate_mbps c" using assms(4,5) by (auto simp: recover_rate_def Let_def simp flip: t_def r_def)
  then have "unat r < ?i" by (simp add: word_le_nat_alt)
  moreover have "gap c (recover_rate c st) = (?i - unat t) + (?i - unat r)"
    using assms(4) \<open>\<not> r \<ge> initial_rate_mbps c\<close> by (simp add: recover_rate_def gap_def Let_def flip: t_def r_def)
  moreover have "0 < unat (rate_increment c)" using assms(3) by (simp add: word_less_nat_alt)
  moreover have "unat (current_rate_mbps st) \<le> unat r" "unat (target_rate_mbps st) \<le> ?i"
    using n(5) assms(2) by (simp_all add: flow_ok_def word_le_nat_alt)
  ultimately show ?thesis unfolding gap_def using n(1,2) by linarith
qed

lemma not_recovering_stays: "\<not> in_recovery st \<Longrightarrow> \<not> in_recovery (flow_run c now es st)"
proof (induction es arbitrary: now st)
  case (Cons e es)
  then have "\<not> recovery_due c (now + e) st" by (simp add: recovery_due_def)
  with Cons advance_flow_not_due show ?case by simp
qed simp

lemma flow_ok_run: "dcqcn_config_ok c \<Longrightarrow> flow_ok c st \<Longrightarrow> flow_ok c (flow_run c now es st)"
  by (induction es arbitrary: now st) (simp_all add: flow_ok_advance)

text \<open>From a recovery on, every step of at least a period is another recovery.\<close>

lemma recovers_in_step:
  assumes "dcqcn_config_ok c" "0 < rate_increment c" "\<And>e. e \<in> set es \<Longrightarrow> rate_increase_period_us c \<le> e"
  shows "flow_ok c st \<Longrightarrow> rate_increase_time_us st = now \<Longrightarrow> gap c st < length es \<Longrightarrow> \<not> in_recovery (flow_run c now es st)"
  using assms(3)
proof (induction es arbitrary: now st)
  case (Cons e es)
  let ?s = "advance_flow c (now + e) st"
  show ?case
  proof (cases "in_recovery st \<and> in_recovery ?s")
    case True
    then have due: "recovery_due c (now + e) st" using Cons.prems by (simp add: recovery_due_def)
    have "gap c ?s < gap c st"
      using advance_flow_due [OF due] recover_gap [OF assms(1) Cons.prems(1) assms(2)] True by simp
    then have "gap c ?s < length es" using Cons.prems(3) by simp
    then show ?thesis
      using Cons.IH [of ?s "now + e"] Cons.prems(1,4) advance_flow_due [OF due] assms(1) by (simp add: flow_ok_advance)
  next
    case False
    then have "\<not> in_recovery ?s" using advance_flow_not_due [of c "now + e" st] by (auto simp: recovery_due_def)
    then show ?thesis by (simp add: not_recovering_stays)
  qed
qed simp

lemma unat_diff_step:
  fixes d e p :: u64
  assumes "d < p" "p \<le> e" "unat p + unat e < 2 ^ 64"
  shows "p \<le> d + e"
proof -
  have "unat (d + e) = unat d + unat e"
    using assms by (simp add: word_less_nat_alt unat_word_ariths)
  then show ?thesis using assms(2) by (simp add: word_le_nat_alt)
qed

lemma recovers:
  assumes "dcqcn_config_ok c" "0 < rate_increment c" "flow_ok c st"
    and "\<And>e. e \<in> set es \<Longrightarrow> rate_increase_period_us c \<le> e \<and> unat (rate_increase_period_us c) + unat e < 2 ^ 64"
    and "gap c st + 2 < length es"
  shows "\<not> in_recovery (flow_run c now es st)"
proof -
  obtain e1 e2 es' where es: "es = e1 # e2 # es'" using assms(5) by (cases es; cases "tl es") auto
  let ?s1 = "advance_flow c (now + e1) st" let ?s2 = "advance_flow c (now + e1 + e2) ?s1"
  have tail: "\<And>e. e \<in> set es' \<Longrightarrow> rate_increase_period_us c \<le> e" using assms(4) es by auto
  have ok: "flow_ok c ?s1" "flow_ok c ?s2" using assms(1,3) by (simp_all add: flow_ok_advance)
  have fin: ?thesis if "rate_increase_time_us s = now + e1 + e2" "flow_run c now es st = flow_run c (now + e1 + e2) es' s"
    "flow_ok c s" "gap c s < length es'" for s
    using recovers_in_step [OF assms(1,2) tail that(3,1,4)] that(2) by simp
  show ?thesis
  proof (cases "in_recovery ?s2 \<and> in_recovery ?s1 \<and> in_recovery st")
    case False
    then show ?thesis using not_recovering_stays [of ?s2] not_recovering_stays [of ?s1] not_recovering_stays [of st] es by (metis flow_run.simps(2))
  next
    case rec: True
    have due2: "recovery_due c (now + e1 + e2) ?s1"
    proof (cases "recovery_due c (now + e1) st")
      case True
      then show ?thesis using rec advance_flow_due [OF True] assms(4) es by (simp add: recovery_due_def)
    next
      case False
      then have "now + e1 - rate_increase_time_us st < rate_increase_period_us c" using rec by (simp add: recovery_due_def not_le)
      from unat_diff_step [OF this, of e2] show ?thesis
        using rec advance_flow_not_due [OF False] assms(4) es by (simp add: recovery_due_def algebra_simps)
    qed
    have "gap c ?s1 \<le> gap c st"
      using advance_flow_due advance_flow_not_due recover_gap [OF assms(1,3,2)] rec by (metis less_imp_le order_refl)
    moreover have "gap c ?s2 < gap c ?s1" using advance_flow_due [OF due2] recover_gap [OF assms(1) ok(1) assms(2)] rec by simp
    ultimately show ?thesis using assms(5) es advance_flow_due [OF due2] ok by (intro fin [of ?s2]) simp_all
  qed
qed

section \<open>Properties\<close>

lemma flows_ok_new: "flows_ok (CongestionControlManager_new c)"
  by (simp add: flows_ok_def CongestionControlManager_new_def)

lemma flows_ok_rate:
  "dcqcn_config_ok (cc_config m) \<Longrightarrow> flows_ok m \<Longrightarrow>
     min_rate_mbps (cc_config m) \<le> get_current_rate m qp \<and> get_current_rate m qp \<le> initial_rate_mbps (cc_config m)"
  by (force simp: get_current_rate_def flows_ok_def flow_ok_def dcqcn_config_ok_def split: option.splits)

text \<open>C25: whatever the order of notifications sent and received, clock ticks, flow removals and resets, the rate of a queue pair stays
  between the configured minimum and the initial rate, in spite of the rounding of the double arithmetic; the factor
  \<open>alpha\<close> stays in the unit interval, the current rate does not exceed the recovery target, and a flow below the
  initial rate is in recovery.\<close>

theorem dcqcn_rate_bounds:
  assumes "dcqcn_config_ok c" and "m = fold (cc_call ser) calls (CongestionControlManager_new c)"
  shows "min_rate_mbps c \<le> get_current_rate m qp \<and> get_current_rate m qp \<le> initial_rate_mbps c \<and>
    (\<forall>st. um_lookup (flow_states m) qp = Some st \<longrightarrow>
      0 \<le> fs_alpha st \<and> fs_alpha st \<le> 1 \<and> current_rate_mbps st \<le> target_rate_mbps st \<and>
      target_rate_mbps st \<le> initial_rate_mbps c \<and> (current_rate_mbps st < initial_rate_mbps c \<longrightarrow> in_recovery st))"
proof -
  have c: "cc_config (CongestionControlManager_new c) = c" by (simp add: CongestionControlManager_new_def)
  then have m: "flows_ok m" "cc_config m = c"
    using flows_ok_calls [OF _ flows_ok_new, of c ser calls] assms by simp_all
  then have "flow_ok c st" if "um_lookup (flow_states m) qp = Some st" for st using that by (auto simp: flows_ok_def)
  then show ?thesis using flows_ok_rate [of m qp] m assms(1) by (auto simp: flow_ok_def)
qed

lemma default_config_ok: "dcqcn_config_ok DcqcnConfig_default"
  by (simp add: dcqcn_config_ok_def DcqcnConfig_default_def)

text \<open>Two notifications take a flow from 100 to 25 Gbps; after one period it is back at 25195 Mbps.\<close>

theorem dcqcn_rate_bounds_witness:
  "\<exists>m. m = fold (cc_call (\<lambda>_ _. [])) [CcReceived 3 0, CcReceived 3 0, CcAdvance 50] (CongestionControlManager_new DcqcnConfig_default) \<and>
     get_current_rate m 3 = 25195 \<and> 10 \<le> get_current_rate m 3 \<and> get_current_rate m 3 \<le> 100000"
proof -
  define m where "m = fold (cc_call (\<lambda>_ _. [])) [CcReceived 3 0, CcReceived 3 0, CcAdvance 50] (CongestionControlManager_new DcqcnConfig_default)"
  have "get_current_rate m 3 = 25195" unfolding m_def by code_simp
  moreover have "10 \<le> get_current_rate m 3 \<and> get_current_rate m 3 \<le> 100000"
    using dcqcn_rate_bounds [OF default_config_ok m_def, of 3] by (simp add: DcqcnConfig_default_def)
  ultimately show ?thesis using m_def by blast
qed

text \<open>C26: a flow that receives no more notifications returns to the initial rate. If the configured rate increment is at least one
  Mbps, then after enough clock ticks of at least the rate increase period (more than twice the initial rate
  plus two; the ticks do not overflow the period's comparison), the rate of every queue pair is the initial one.\<close>

theorem dcqcn_recovers:
  assumes "dcqcn_config_ok c" and "m = fold (cc_call ser) calls (CongestionControlManager_new c)"
    and "dcqcn_enabled c" and "0 < rate_increment c"
    and "\<And>e. e \<in> set es \<Longrightarrow> rate_increase_period_us c \<le> e \<and> unat (rate_increase_period_us c) + unat e < 2 ^ 64"
    and "2 * unat (initial_rate_mbps c) + 2 < length es"
  shows "get_current_rate (fold (cc_call ser) (map CcAdvance es) m) qp = initial_rate_mbps c"
proof -
  have c: "cc_config (CongestionControlManager_new c) = c" by (simp add: CongestionControlManager_new_def)
  then have m: "flows_ok m" "cc_config m = c"
    using flows_ok_calls [OF _ flows_ok_new, of c ser calls] assms by simp_all
  let ?m = "fold (cc_call ser) (map CcAdvance es) m"
  have cfg: "cc_config ?m = c" using flows_ok_calls [of m ser "map CcAdvance es"] m assms(1) by simp
  show ?thesis
  proof (cases "um_lookup (flow_states m) qp")
    case None
    then show ?thesis using advance_times_flow [of m ser es qp] m assms(3) cfg by (simp add: get_current_rate_def)
  next
    case (Some st)
    then have ok: "flow_ok c st" using m by (auto simp: flows_ok_def)
    have "gap c st + 2 < length es" using assms(6) by (simp add: gap_def)
    from recovers [OF assms(1,4) ok assms(5) this] have "\<not> in_recovery (flow_run c (cc_current_time_us m) es st)" by blast
    with flow_ok_run [OF assms(1) ok] have "current_rate_mbps (flow_run c (cc_current_time_us m) es st) = initial_rate_mbps c"
      by (simp add: flow_ok_def)
    then show ?thesis using advance_times_flow [of m ser es qp] m assms(3) Some by (simp add: get_current_rate_def)
  qed
qed

text \<open>A flow of 300 Mbps that received a notification is back at 300 Mbps after 603 ticks of 50 microseconds.\<close>

definition slow_config :: DcqcnConfig where
  "slow_config = DcqcnConfig_default\<lparr>initial_rate_mbps := 300\<rparr>"

theorem dcqcn_recovers_witness:
  "\<exists>m es. m = fold (cc_call (\<lambda>_ _. [])) [CcReceived 3 0] (CongestionControlManager_new slow_config) \<and> es = replicate 603 50 \<and>
     get_current_rate m 3 = 150 \<and> get_current_rate (fold (cc_call (\<lambda>_ _. [])) (map CcAdvance es) m) 3 = 300"
proof -
  define m where "m = fold (cc_call (\<lambda>_ _. [])) [CcReceived 3 0] (CongestionControlManager_new slow_config)"
  define es :: "u64 list" where "es = replicate 603 50"
  have c: "dcqcn_config_ok slow_config" "dcqcn_enabled slow_config" "initial_rate_mbps slow_config = 300" "rate_increase_period_us slow_config = 50"
    by (simp_all add: dcqcn_config_ok_def slow_config_def DcqcnConfig_default_def)
  have "0 < rate_increment slow_config" by code_simp
  moreover have "rate_increase_period_us slow_config \<le> e \<and> unat (rate_increase_period_us slow_config) + unat e < 2 ^ 64"
    if "e \<in> set es" for e using that by (simp add: es_def c(4))
  moreover have "2 * unat (initial_rate_mbps slow_config) + 2 < length es" by (simp add: c(3) es_def)
  ultimately have "get_current_rate (fold (cc_call (\<lambda>_ _. [])) (map CcAdvance es) m) 3 = 300"
    using dcqcn_recovers [OF c(1) m_def c(2), of es 3] by (simp only: c(3))
  moreover have "get_current_rate m 3 = 150" unfolding m_def by code_simp
  ultimately show ?thesis using m_def es_def by blast
qed

end
