(* ===== verification/Rocev2_Engine.thy ===== *)
theory Rocev2_Engine
  imports Rocev2_Send_Recv Rocev2_Write Rocev2_Read Rocev2_Reliability Rocev2_Congestion
begin

text \<open>
  The RDMA engine of \<^verbatim>\<open>rocev2/engine.h\<close> and \<^verbatim>\<open>engine.cpp\<close>: it owns the protection domains, memory regions, completion
  queues, queue pairs, the three protocol processors and the two managers, dispatches incoming packets and collects the
  outgoing ones. The host memory it refers to is part of its state here; the DMA engine it also refers to is not used by the code.
  Addresses and ports of incoming packets are ignored by the code and left out.
  The theory shows that the tables stay consistent over every sequence of calls: queue pairs are stored
  under their own number and refer to completion queues that exist, so every completion has a queue to go to.
\<close>

section \<open>State\<close>

record RdmaEngineConfig =
  ec_enabled :: bool
  ec_max_pds :: nat
  ec_max_mrs :: nat
  ec_max_qps :: nat
  ec_max_cqs :: nat
  default_cq_depth :: nat
  ec_mtu :: u32
  dcqcn_config :: DcqcnConfig
  reliability_config :: ReliabilityConfig

definition RdmaEngineConfig_default :: RdmaEngineConfig where
  "RdmaEngineConfig_default = \<lparr>ec_enabled = True, ec_max_pds = 256, ec_max_mrs = 4096, ec_max_qps = 1024, ec_max_cqs = 512,
     default_cq_depth = 256, ec_mtu = 4096, dcqcn_config = DcqcnConfig_default, reliability_config = ReliabilityConfig_default\<rparr>"

record RdmaEngineStats =
  es_packets_received :: u64
  es_packets_sent :: u64
  es_bytes_received :: u64
  es_bytes_sent :: u64
  es_send_wqes_posted :: u64
  es_recv_wqes_posted :: u64
  es_cqes_generated :: u64
  es_errors :: u64
  es_pds_created :: u64
  es_mrs_registered :: u64
  es_qps_created :: u64
  es_cqs_created :: u64

definition RdmaEngineStats_zero :: RdmaEngineStats where
  "RdmaEngineStats_zero = \<lparr>es_packets_received = 0, es_packets_sent = 0, es_bytes_received = 0, es_bytes_sent = 0,
     es_send_wqes_posted = 0, es_recv_wqes_posted = 0, es_cqes_generated = 0, es_errors = 0, es_pds_created = 0,
     es_mrs_registered = 0, es_qps_created = 0, es_cqs_created = 0\<rparr>"

record OutgoingPacket =
  out_data :: bytes
  out_dest_ip :: bytes
  out_dest_port :: u16
  out_src_port :: u16

record RdmaEngine =
  eng_config :: RdmaEngineConfig
  eng_stats :: RdmaEngineStats
  eng_memory :: SimpleHostMemory
  pd_table :: PdTable
  mr_table :: MemoryRegionTable
  cqs :: "(u32 \<times> RdmaCompletionQueue) list"
  qps :: "(u32 \<times> RdmaQueuePair) list"
  next_cq_number :: u32
  next_qp_number :: u32
  send_recv_processor :: SendRecvProcessor
  write_processor :: WriteProcessor
  read_processor :: ReadProcessor
  congestion_manager :: CongestionControlManager
  reliability_manager :: ReliabilityManager
  outgoing_packets :: "OutgoingPacket list"

text \<open>The tables are built with their default capacities: the engine's own \<open>max_pds\<close> and \<open>max_mrs\<close> are not passed on.\<close>

definition RdmaEngine_new :: "RdmaEngineConfig \<Rightarrow> SimpleHostMemory \<Rightarrow> RdmaEngine" where
  "RdmaEngine_new c mem = \<lparr>eng_config = c, eng_stats = RdmaEngineStats_zero, eng_memory = mem, pd_table = PdTable_new 1024,
     mr_table = MemoryRegionTable_new 4096, cqs = [], qps = [], next_cq_number = 1, next_qp_number = 1,
     send_recv_processor = SendRecvProcessor_new, write_processor = WriteProcessor_new, read_processor = ReadProcessor_new,
     congestion_manager = CongestionControlManager_new (dcqcn_config c),
     reliability_manager = ReliabilityManager_new (reliability_config c), outgoing_packets = []\<rparr>"

abbreviation enabled :: "RdmaEngine \<Rightarrow> bool" where
  "enabled e \<equiv> ec_enabled (eng_config e)"

definition count_error :: "RdmaEngine \<Rightarrow> RdmaEngine" where
  "count_error e = e\<lparr>eng_stats := (eng_stats e)\<lparr>es_errors := es_errors (eng_stats e) + 1\<rparr>\<rparr>"

text \<open>What the processors are called with, and the write-back of what they change: they refer to the engine's memory and region
  table, and to the queue pair in the table.\<close>

definition side_of :: "RdmaEngine \<Rightarrow> RdmaQueuePair \<Rightarrow> RdmaSide" where
  "side_of e qp = \<lparr>side_memory = eng_memory e, side_mrs = mr_table e, side_qp = qp\<rparr>"

definition put_side :: "u32 \<Rightarrow> RdmaSide \<Rightarrow> RdmaEngine \<Rightarrow> RdmaEngine" where
  "put_side n s e = e\<lparr>eng_memory := side_memory s, mr_table := side_mrs s, qps := um_update n (side_qp s) (qps e)\<rparr>"

section \<open>Resources\<close>

definition RdmaEngine_create_pd :: "RdmaEngine \<Rightarrow> u32 option \<times> RdmaEngine" where
  "RdmaEngine_create_pd e =
     (if \<not> enabled e then (None, e)
      else
        let (handle, t) = PdTable_allocate (pd_table e); e1 = e\<lparr>pd_table := t\<rparr> in
        if handle \<noteq> None
        then (handle, e1\<lparr>eng_stats := (eng_stats e1)\<lparr>es_pds_created := es_pds_created (eng_stats e1) + 1\<rparr>\<rparr>)
        else (handle, e1))"

definition RdmaEngine_destroy_pd :: "RdmaEngine \<Rightarrow> u32 \<Rightarrow> bool \<times> RdmaEngine" where
  "RdmaEngine_destroy_pd e handle =
     (if \<not> enabled e then (False, e)
      else let (ok, t) = PdTable_deallocate (pd_table e) handle in (ok, e\<lparr>pd_table := t\<rparr>))"

definition RdmaEngine_register_mr :: "RdmaEngine \<Rightarrow> u32 \<Rightarrow> u64 \<Rightarrow> u64 \<Rightarrow> AccessFlags \<Rightarrow> u32 option \<times> RdmaEngine" where
  "RdmaEngine_register_mr e pd address len access =
     (if \<not> enabled e then (None, e)
      else if \<not> PdTable_is_valid (pd_table e) pd then (None, count_error e)
      else
        let (lkey, t) = MemoryRegionTable_register_mr (mr_table e) pd address len access; e1 = e\<lparr>mr_table := t\<rparr> in
        if lkey \<noteq> None
        then (lkey, e1\<lparr>eng_stats := (eng_stats e1)\<lparr>es_mrs_registered := es_mrs_registered (eng_stats e1) + 1\<rparr>\<rparr>)
        else (lkey, e1))"

definition RdmaEngine_deregister_mr :: "RdmaEngine \<Rightarrow> u32 \<Rightarrow> bool \<times> RdmaEngine" where
  "RdmaEngine_deregister_mr e lkey =
     (if \<not> enabled e then (False, e)
      else let (ok, t) = MemoryRegionTable_deregister_mr (mr_table e) lkey in (ok, e\<lparr>mr_table := t\<rparr>))"

definition RdmaEngine_create_cq :: "RdmaEngine \<Rightarrow> nat \<Rightarrow> u32 option \<times> RdmaEngine" where
  "RdmaEngine_create_cq e depth =
     (if \<not> enabled e then (None, e)
      else if length (cqs e) \<ge> ec_max_cqs (eng_config e) then (None, count_error e)
      else
        let n = next_cq_number e in
        (Some n, e\<lparr>next_cq_number := next_cq_number e + 1, cqs := um_update n (RdmaCompletionQueue_new n depth) (cqs e),
           eng_stats := (eng_stats e)\<lparr>es_cqs_created := es_cqs_created (eng_stats e) + 1\<rparr>\<rparr>))"

definition uses_cq :: "u32 \<Rightarrow> RdmaQueuePair \<Rightarrow> bool" where
  "uses_cq n qp \<longleftrightarrow> send_cq_number (qp_config qp) = n \<or> recv_cq_number (qp_config qp) = n"

definition RdmaEngine_destroy_cq :: "RdmaEngine \<Rightarrow> u32 \<Rightarrow> bool \<times> RdmaEngine" where
  "RdmaEngine_destroy_cq e n =
     (if \<not> enabled e then (False, e)
      else if list_ex (\<lambda>(k, qp). uses_cq n qp) (qps e) then (False, e)
      else (um_lookup (cqs e) n \<noteq> None, e\<lparr>cqs := um_erase n (cqs e)\<rparr>))"

definition RdmaEngine_poll_cq :: "RdmaEngine \<Rightarrow> u32 \<Rightarrow> nat \<Rightarrow> RdmaCqe list \<times> RdmaEngine" where
  "RdmaEngine_poll_cq e n max_cqes =
     (if \<not> enabled e then ([], e)
      else case um_lookup (cqs e) n of
        None \<Rightarrow> ([], e)
      | Some cq \<Rightarrow> let (xs, cq1) = RdmaCompletionQueue_poll cq max_cqes in (xs, e\<lparr>cqs := um_update n cq1 (cqs e)\<rparr>))"

definition RdmaEngine_create_qp :: "RdmaEngine \<Rightarrow> RdmaQpConfig \<Rightarrow> u32 option \<times> RdmaEngine" where
  "RdmaEngine_create_qp e config =
     (if \<not> enabled e then (None, e)
      else if length (qps e) \<ge> ec_max_qps (eng_config e) then (None, count_error e)
      else if \<not> PdTable_is_valid (pd_table e) (qpc_pd_handle config) then (None, count_error e)
      else if um_lookup (cqs e) (send_cq_number config) = None \<or> um_lookup (cqs e) (recv_cq_number config) = None
      then (None, count_error e)
      else
        let n = next_qp_number e in
        (Some n, e\<lparr>next_qp_number := next_qp_number e + 1, qps := um_update n (RdmaQueuePair_new n config) (qps e),
           eng_stats := (eng_stats e)\<lparr>es_qps_created := es_qps_created (eng_stats e) + 1\<rparr>\<rparr>))"

definition RdmaEngine_destroy_qp :: "RdmaEngine \<Rightarrow> u32 \<Rightarrow> bool \<times> RdmaEngine" where
  "RdmaEngine_destroy_qp e n =
     (if \<not> enabled e then (False, e)
      else if um_lookup (qps e) n = None then (False, e)
      else (True, e\<lparr>read_processor := clear_read_state (read_processor e) n,
              congestion_manager := clear_flow_state (congestion_manager e) n,
              reliability_manager := clear_pending (reliability_manager e) n, qps := um_erase n (qps e)\<rparr>))"

definition RdmaEngine_modify_qp :: "RdmaEngine \<Rightarrow> u32 \<Rightarrow> RdmaQpModifyParams \<Rightarrow> bool \<times> RdmaEngine" where
  "RdmaEngine_modify_qp e n params =
     (if \<not> enabled e then (False, e)
      else case um_lookup (qps e) n of
        None \<Rightarrow> (False, e)
      | Some qp \<Rightarrow> let (ok, qp1) = RdmaQueuePair_modify qp params in (ok, e\<lparr>qps := um_update n qp1 (qps e)\<rparr>))"

definition RdmaEngine_query_qp :: "RdmaEngine \<Rightarrow> u32 \<Rightarrow> RdmaQueuePair option" where
  "RdmaEngine_query_qp e n = um_lookup (qps e) n"

section \<open>Outgoing packets and completions\<close>

definition queue_outgoing_packet :: "bytes \<Rightarrow> RdmaQueuePair \<Rightarrow> RdmaEngine \<Rightarrow> RdmaEngine" where
  "queue_outgoing_packet packet qp e =
     e\<lparr>outgoing_packets := outgoing_packets e @
         [\<lparr>out_data = packet, out_dest_ip = dest_ip qp, out_dest_port = kRoceUdpPort, out_src_port = 0\<rparr>]\<rparr>"

definition deliver_cqe :: "u32 \<Rightarrow> RdmaCqe \<Rightarrow> RdmaEngine \<Rightarrow> RdmaEngine" where
  "deliver_cqe n cqe e =
     (case um_lookup (cqs e) n of
        None \<Rightarrow> e
      | Some cq \<Rightarrow> e\<lparr>cqs := um_update n (snd (RdmaCompletionQueue_post cq cqe)) (cqs e),
                     eng_stats := (eng_stats e)\<lparr>es_cqes_generated := es_cqes_generated (eng_stats e) + 1\<rparr>\<rparr>)"

definition count_packets_sent :: "nat \<Rightarrow> RdmaEngine \<Rightarrow> RdmaEngine" where
  "count_packets_sent n e = e\<lparr>eng_stats := (eng_stats e)\<lparr>es_packets_sent := es_packets_sent (eng_stats e) + of_nat n\<rparr>\<rparr>"

definition ack_builder :: "RdmaQueuePair \<Rightarrow> u32 \<Rightarrow> AethSyndrome \<Rightarrow> RdmaPacketBuilder" where
  "ack_builder qp psn syndrome =
     set_msn 0 (set_syndrome syndrome (set_ack_request False (set_psn psn (set_dest_qp (dest_qp_number qp)
       (set_opcode kRcAck RdmaPacketBuilder_new)))))"

definition RdmaEngine_generate_ack ::
  "(nat list \<Rightarrow> u64 list \<Rightarrow> bytes) \<Rightarrow> RdmaQueuePair \<Rightarrow> u32 \<Rightarrow> AethSyndrome \<Rightarrow> RdmaEngine \<Rightarrow> RdmaEngine" where
  "RdmaEngine_generate_ack ser qp psn syndrome e =
     count_packets_sent 1 (queue_outgoing_packet (RdmaPacketBuilder_build ser (ack_builder qp psn syndrome)) qp e)"

definition RdmaEngine_generate_nak ::
  "(nat list \<Rightarrow> u64 list \<Rightarrow> bytes) \<Rightarrow> RdmaQueuePair \<Rightarrow> u32 \<Rightarrow> AethSyndrome \<Rightarrow> RdmaEngine \<Rightarrow> RdmaEngine" where
  "RdmaEngine_generate_nak ser qp psn syndrome e = RdmaEngine_generate_ack ser qp psn syndrome e"

definition generate_outgoing_packets :: "RdmaEngine \<Rightarrow> OutgoingPacket list \<times> RdmaEngine" where
  "generate_outgoing_packets e = (outgoing_packets e, e\<lparr>outgoing_packets := []\<rparr>)"

section \<open>Work requests\<close>

text \<open>The switch of \<^verbatim>\<open>post_send\<close> over the opcode.\<close>

definition generate_packets ::
  "(nat list \<Rightarrow> u64 list \<Rightarrow> bytes) \<Rightarrow> RdmaEngine \<Rightarrow> u32 \<Rightarrow> RdmaQueuePair \<Rightarrow> SendWqe \<Rightarrow> bytes list \<times> RdmaEngine" where
  "generate_packets ser e n qp wqe =
     (if swqe_opcode wqe = WqSend \<or> swqe_opcode wqe = WqSendImm then
        let (packets, p, s) = generate_send_packets ser (send_recv_processor e) (side_of e qp) wqe
        in (packets, put_side n s (e\<lparr>send_recv_processor := p\<rparr>))
      else if swqe_opcode wqe = WqRdmaWrite \<or> swqe_opcode wqe = WqRdmaWriteImm then
        let (packets, p, s) = generate_write_packets ser (write_processor e) (side_of e qp) wqe
        in (packets, put_side n s (e\<lparr>write_processor := p\<rparr>))
      else
        let (packets, p, s) = generate_read_request ser (read_processor e) (side_of e qp) wqe
        in (packets, put_side n s (e\<lparr>read_processor := p\<rparr>)))"

definition RdmaEngine_post_send :: "(nat list \<Rightarrow> u64 list \<Rightarrow> bytes) \<Rightarrow> RdmaEngine \<Rightarrow> u32 \<Rightarrow> SendWqe \<Rightarrow> bool \<times> RdmaEngine" where
  "RdmaEngine_post_send ser e n wqe =
     (if \<not> enabled e then (False, e)
      else case um_lookup (qps e) n of
        None \<Rightarrow> (False, e)
      | Some qp \<Rightarrow>
          if \<not> RdmaQueuePair_can_send qp then (False, count_error e)
          else
            let start_psn = sq_psn qp;
                (packets, e1) = generate_packets ser e n qp wqe
            in
            if packets = [] then (False, count_error e1)
            else
              let end_psn = (if length packets > 1 then (start_psn + of_nat (length packets) - 1) AND 0xFFFFFF else start_psn);
                  e2 = e1\<lparr>reliability_manager := add_pending (reliability_manager e1) n start_psn end_psn
                         (swqe_wr_id wqe) (swqe_opcode wqe) 0\<rparr>;
                  e3 = fold (\<lambda>packet e. queue_outgoing_packet packet qp
                         (e\<lparr>eng_stats := (eng_stats e)\<lparr>es_bytes_sent := es_bytes_sent (eng_stats e) + of_nat (length packet)\<rparr>\<rparr>))
                         packets e2;
                  e4 = e3\<lparr>eng_stats := (eng_stats e3)\<lparr>es_send_wqes_posted := es_send_wqes_posted (eng_stats e3) + 1\<rparr>\<rparr>
              in (True, count_packets_sent (length packets) e4))"

definition RdmaEngine_post_recv :: "RdmaEngine \<Rightarrow> u32 \<Rightarrow> RecvWqe \<Rightarrow> bool \<times> RdmaEngine" where
  "RdmaEngine_post_recv e n wqe =
     (if \<not> enabled e then (False, e)
      else case um_lookup (qps e) n of
        None \<Rightarrow> (False, e)
      | Some qp \<Rightarrow>
          let (ok, qp1) = RdmaQueuePair_post_recv qp wqe; e1 = e\<lparr>qps := um_update n qp1 (qps e)\<rparr> in
          if \<not> ok then (False, count_error e1)
          else (True, e1\<lparr>eng_stats := (eng_stats e1)\<lparr>es_recv_wqes_posted := es_recv_wqes_posted (eng_stats e1) + 1\<rparr>\<rparr>))"

section \<open>Incoming packets\<close>

text \<open>Each handler gets the number \<open>n\<close> of the destination queue pair and the queue pair itself.\<close>

definition RdmaEngine_process_send_packet ::
  "(nat list \<Rightarrow> u64 list \<Rightarrow> bytes) \<Rightarrow> RdmaEngine \<Rightarrow> u32 \<Rightarrow> RdmaQueuePair \<Rightarrow> RdmaPacketParser \<Rightarrow> RdmaEngine" where
  "RdmaEngine_process_send_packet ser e n qp parser =
     (let (r, p, s) = process_recv_packet (send_recv_processor e) (side_of e qp) parser;
          e1 = put_side n s (e\<lparr>send_recv_processor := p\<rparr>);
          qp1 = side_qp s
      in
      if \<not> r_success r then
        (if r_syndrome r \<noteq> asAck then RdmaEngine_generate_nak ser qp1 (r_ack_psn r) (r_syndrome r) e1 else e1)
      else
        let e2 = (if r_needs_ack r then RdmaEngine_generate_ack ser qp1 (r_ack_psn r) (r_syndrome r) e1 else e1)
        in case r_cqe r of None \<Rightarrow> e2 | Some cqe \<Rightarrow> deliver_cqe (recv_cq_number (qp_config qp1)) cqe e2)"

definition RdmaEngine_process_write_packet ::
  "(nat list \<Rightarrow> u64 list \<Rightarrow> bytes) \<Rightarrow> RdmaEngine \<Rightarrow> u32 \<Rightarrow> RdmaQueuePair \<Rightarrow> RdmaPacketParser \<Rightarrow> RdmaEngine" where
  "RdmaEngine_process_write_packet ser e n qp parser =
     (let (r, p, s) = process_write_packet (write_processor e) (side_of e qp) parser;
          e1 = put_side n s (e\<lparr>write_processor := p\<rparr>);
          qp1 = side_qp s
      in
      if \<not> w_success r then
        (if w_syndrome r \<noteq> asAck then RdmaEngine_generate_nak ser qp1 (w_ack_psn r) (w_syndrome r) e1 else e1)
      else
        let e2 = (if w_needs_ack r then RdmaEngine_generate_ack ser qp1 (w_ack_psn r) (w_syndrome r) e1 else e1)
        in case w_recv_cqe r of None \<Rightarrow> e2 | Some cqe \<Rightarrow> deliver_cqe (recv_cq_number (qp_config qp1)) cqe e2)"

definition RdmaEngine_process_read_request_packet ::
  "(nat list \<Rightarrow> u64 list \<Rightarrow> bytes) \<Rightarrow> RdmaEngine \<Rightarrow> u32 \<Rightarrow> RdmaQueuePair \<Rightarrow> RdmaPacketParser \<Rightarrow> RdmaEngine" where
  "RdmaEngine_process_read_request_packet ser e n qp parser =
     (let (r, p, s) = process_read_request ser (read_processor e) (side_of e qp) parser;
          e1 = put_side n s (e\<lparr>read_processor := p\<rparr>);
          qp1 = side_qp s
      in
      if rq_needs_nak r then RdmaEngine_generate_nak ser qp1 (rq_nak_psn r) (rq_syndrome r) e1
      else fold (\<lambda>packet e. count_packets_sent 1 (queue_outgoing_packet packet qp1 e)) (rq_response_packets r) e1)"

definition RdmaEngine_process_read_response_packet ::
  "RdmaEngine \<Rightarrow> u32 \<Rightarrow> RdmaQueuePair \<Rightarrow> RdmaPacketParser \<Rightarrow> RdmaEngine" where
  "RdmaEngine_process_read_response_packet e n qp parser =
     (let (r, p, s) = process_read_response (read_processor e) (side_of e qp) parser;
          e1 = put_side n s (e\<lparr>read_processor := p\<rparr>)
      in
      if \<not> rr_success r then count_error e1
      else case rr_cqe r of None \<Rightarrow> e1 | Some cqe \<Rightarrow> deliver_cqe (send_cq_number (qp_config (side_qp s))) cqe e1)"

definition error_params :: RdmaQpModifyParams where
  "error_params = \<lparr>target_state = Some QpError, mp_dest_qp_number = None, initial_psn = None, expected_psn = None,
     mp_dest_ip = None, mp_dest_port = None, mp_sq_psn = None, mp_rq_psn = None, mp_path_mtu = None\<rparr>"

text \<open>An ACK always has the acknowledgement header; without one the parser's field keeps its initial value, a plain ACK.\<close>

definition RdmaEngine_process_ack_packet :: "RdmaEngine \<Rightarrow> u32 \<Rightarrow> RdmaQueuePair \<Rightarrow> RdmaPacketParser \<Rightarrow> RdmaEngine" where
  "RdmaEngine_process_ack_packet e n qp parser =
     (let syndrome = (case p_aeth parser of Some aeth \<Rightarrow> aeth_syndrome aeth | None \<Rightarrow> asAck);
          ack_psn = bth_psn (p_bth parser)
      in
      if syndrome = asAck then
        let (r, rm) = process_ack (reliability_manager e) (qp_number qp) ack_psn in
        fold (\<lambda>wr_id. deliver_cqe (send_cq_number (qp_config qp))
                (RdmaCqe_default\<lparr>cqe_wr_id := wr_id, cqe_status := WsSuccess, cqe_qp_number := qp_number qp\<rparr>))
          (completed_wr_ids r) (e\<lparr>reliability_manager := rm\<rparr>)
      else
        let (r, rm) = process_nak (reliability_manager e) (qp_number qp) ack_psn syndrome;
            e1 = e\<lparr>reliability_manager := rm\<rparr>
        in case error_status r of
          None \<Rightarrow> e1
        | Some status \<Rightarrow>
            let e2 = deliver_cqe (send_cq_number (qp_config qp))
                  (RdmaCqe_default\<lparr>cqe_status := status, cqe_qp_number := qp_number qp\<rparr>) e1
            in e2\<lparr>qps := um_update n (snd (RdmaQueuePair_modify qp error_params)) (qps e2)\<rparr>)"

definition RdmaEngine_process_cnp_packet :: "RdmaEngine \<Rightarrow> RdmaQueuePair \<Rightarrow> RdmaEngine" where
  "RdmaEngine_process_cnp_packet e qp =
     e\<lparr>congestion_manager := handle_cnp_received (congestion_manager e) (qp_number qp) 0\<rparr>"

text \<open>The congestion check asks whether the constant code point \<open>Ce\<close> is a mark.\<close>

definition notify_congestion :: "(nat list \<Rightarrow> u64 list \<Rightarrow> bytes) \<Rightarrow> RdmaEngine \<Rightarrow> u32 \<Rightarrow> RdmaQueuePair \<Rightarrow> RdmaEngine" where
  "notify_congestion ser e dest_qp qp =
     (if is_congestion_marked Ce then
        let (cnp, cm) = generate_cnp ser (congestion_manager e) dest_qp 0; e1 = e\<lparr>congestion_manager := cm\<rparr>
        in case cnp of None \<Rightarrow> e1 | Some packet \<Rightarrow> queue_outgoing_packet packet qp e1
      else e)"

definition dispatch_packet ::
  "(nat list \<Rightarrow> u64 list \<Rightarrow> bytes) \<Rightarrow> RdmaEngine \<Rightarrow> u32 \<Rightarrow> RdmaQueuePair \<Rightarrow> RdmaPacketParser \<Rightarrow> bool \<times> RdmaEngine" where
  "dispatch_packet ser e n qp parser =
     (let op = bth_opcode (p_bth parser) in
      if op \<in> {kRcSendOnly, kRcSendFirst, kRcSendMiddle, kRcSendLast, kRcSendOnlyImm, kRcSendLastImm}
      then (True, RdmaEngine_process_send_packet ser e n qp parser)
      else if op \<in> {kRcWriteOnly, kRcWriteFirst, kRcWriteMiddle, kRcWriteLast, kRcWriteOnlyImm, kRcWriteLastImm}
      then (True, RdmaEngine_process_write_packet ser e n qp parser)
      else if op = kRcReadRequest then (True, RdmaEngine_process_read_request_packet ser e n qp parser)
      else if op \<in> {kRcReadResponseOnly, kRcReadResponseFirst, kRcReadResponseMiddle, kRcReadResponseLast}
      then (True, RdmaEngine_process_read_response_packet e n qp parser)
      else if op = kRcAck then (True, RdmaEngine_process_ack_packet e n qp parser)
      else if op = kCnp then (True, RdmaEngine_process_cnp_packet e qp)
      else (False, count_error e))"

definition process_incoming_packet ::
  "(nat list \<Rightarrow> u64 list \<Rightarrow> bytes) \<Rightarrow> (nat list \<Rightarrow> bytes \<Rightarrow> u64 list) \<Rightarrow> RdmaEngine \<Rightarrow> bytes \<Rightarrow> bool \<times> RdmaEngine" where
  "process_incoming_packet ser des e udp_payload =
     (if \<not> enabled e then (False, e)
      else case RdmaPacketParser_parse des udp_payload of
        None \<Rightarrow> (False, count_error e)
      | Some parser \<Rightarrow>
          let n = bth_dest_qp (p_bth parser) in
          case um_lookup (qps e) n of
            None \<Rightarrow> (False, count_error e)
          | Some qp \<Rightarrow>
              let e1 = notify_congestion ser e n qp;
                  e2 = e1\<lparr>eng_stats := (eng_stats e1)\<lparr>es_packets_received := es_packets_received (eng_stats e1) + 1,
                         es_bytes_received := es_bytes_received (eng_stats e1) + of_nat (length udp_payload)\<rparr>\<rparr>
              in dispatch_packet ser e2 n qp parser)"

section \<open>Time and reset\<close>

definition RdmaEngine_advance_time :: "RdmaEngine \<Rightarrow> u64 \<Rightarrow> RdmaEngine" where
  "RdmaEngine_advance_time e elapsed_us =
     (if \<not> enabled e then e
      else e\<lparr>congestion_manager := CongestionControlManager_advance_time (congestion_manager e) elapsed_us,
             reliability_manager := fold (\<lambda>n rm. snd (ReliabilityManager_check_timeouts rm n elapsed_us)) (map fst (qps e))
               (reliability_manager e)\<rparr>)"

definition RdmaEngine_reset :: "RdmaEngine \<Rightarrow> RdmaEngine" where
  "RdmaEngine_reset e = e\<lparr>qps := [], cqs := [], outgoing_packets := [], pd_table := PdTable_reset (pd_table e),
     mr_table := MemoryRegionTable_reset (mr_table e), send_recv_processor := SendRecvProcessor_reset (send_recv_processor e),
     congestion_manager := CongestionControlManager_reset (congestion_manager e),
     reliability_manager := ReliabilityManager_reset (reliability_manager e),
     read_processor := ReadProcessor_reset (read_processor e), write_processor := WriteProcessor_reset (write_processor e),
     eng_stats := RdmaEngineStats_zero, next_cq_number := 1, next_qp_number := 1\<rparr>"

section \<open>What the processors keep of a queue pair\<close>

text \<open>The number, the configuration and the peer: only \<^verbatim>\<open>modify\<close> changes them.\<close>

definition qp_key :: "RdmaQueuePair \<Rightarrow> u32 \<times> RdmaQpConfig \<times> u32 \<times> bytes" where
  "qp_key q = (qp_number q, qp_config q, dest_qp_number q, dest_ip q)"

lemma qp_key_ops [simp]:
  "qp_key (snd (RdmaQueuePair_next_send_psn q)) = qp_key q" "qp_key (RdmaQueuePair_record_packet_sent q k) = qp_key q"
  "qp_key (RdmaQueuePair_add_pending_operation q wqe np) = qp_key q" "qp_key (snd (RdmaQueuePair_consume_recv q)) = qp_key q"
  "qp_key (RdmaQueuePair_advance_recv_psn q) = qp_key q" "qp_key (RdmaQueuePair_record_packet_received q k) = qp_key q"
  "qp_key (snd (RdmaQueuePair_post_recv q w)) = qp_key q"
  by (simp_all add: qp_key_def RdmaQueuePair_next_send_psn_def RdmaQueuePair_record_packet_sent_def
      RdmaQueuePair_add_pending_operation_def RdmaQueuePair_consume_recv_def RdmaQueuePair_advance_recv_psn_def
      RdmaQueuePair_record_packet_received_def RdmaQueuePair_post_recv_def count_local_error_def split: list.split)

lemma same_qp_next: "RdmaQueuePair_next_send_psn q = (psn, q') \<Longrightarrow> qp_key q' = qp_key q"
  using qp_key_ops(1) [of q] by simp

lemma same_qp_consume: "RdmaQueuePair_consume_recv q = (w, q') \<Longrightarrow> qp_key q' = qp_key q"
  using qp_key_ops(4) [of q] by simp

text \<open>What the packet loop leaves alone: everything that taking a sequence number and counting a packet leave alone.\<close>

lemma packet_loop_keeps:
  assumes f: "\<And>q. f (snd (RdmaQueuePair_next_send_psn q)) = f q" "\<And>q k. f (RdmaQueuePair_record_packet_sent q k) = f q"
  shows "packet_loop ser mk mtu np data i off qp = (ps, off', qp') \<Longrightarrow> f qp' = f qp"
proof (induction "np - i" arbitrary: i off qp ps)
  case 0
  then show ?case by (simp add: packet_loop.simps [of ser mk mtu np data i])
next
  case (Suc k)
  obtain psn qp1 where n: "RdmaQueuePair_next_send_psn qp = (psn, qp1)" by (metis surj_pair)
  from Suc.hyps(2) have "i < np" by simp
  with Suc.prems n obtain off1 ps1 k1 where
    "packet_loop ser mk mtu np data (i + 1) off1 (RdmaQueuePair_record_packet_sent qp1 k1) = (ps1, off', qp')"
    by (auto simp: packet_loop.simps [of ser mk mtu np data i] Let_def split: prod.splits)
  from Suc.hyps(1) [OF _ this] Suc.hyps(2) have "f qp' = f qp1" by (simp add: f(2))
  then show ?case using f(1) [of qp] n by simp
qed

lemmas packet_loop_same = packet_loop_keeps [of qp_key, OF qp_key_ops(1,2)]

lemma generate_send_same: "generate_send_packets ser p s wqe = (ps, p', s') \<Longrightarrow> qp_key (side_qp s') = qp_key (side_qp s)"
  by (auto simp: generate_send_packets_def Let_def split: prod.splits if_splits dest!: packet_loop_same same_qp_next)

lemma generate_write_same: "generate_write_packets ser p s wqe = (ps, p', s') \<Longrightarrow> qp_key (side_qp s') = qp_key (side_qp s)"
  by (auto simp: generate_write_packets_def Let_def split: prod.splits if_splits dest!: packet_loop_same same_qp_next)

lemma generate_read_same: "generate_read_request ser p s wqe = (ps, p', s') \<Longrightarrow> qp_key (side_qp s') = qp_key (side_qp s)"
  by (auto simp: generate_read_request_def Let_def split: prod.splits if_splits dest!: same_qp_next)

lemma read_from_remote_qp: "read_from_remote s a k n = (bs, s') \<Longrightarrow> side_qp s' = side_qp s"
  by (auto simp: read_from_remote_def Let_def split: prod.splits if_splits)

lemma generate_responses_same:
  "generate_read_responses ser p s a k n = (ps, p', s') \<Longrightarrow> qp_key (side_qp s') = qp_key (side_qp s)"
  by (auto simp: generate_read_responses_def Let_def split: prod.splits if_splits dest!: packet_loop_same same_qp_next read_from_remote_qp)

lemma start_recv_same: "start_recv s psn = (rs, s') \<Longrightarrow> qp_key (side_qp s') = qp_key (side_qp s)"
  by (auto simp: start_recv_def Let_def split: prod.splits option.splits dest: same_qp_consume)

lemma finish_recv_same: "finish_recv p s x rs = (r, p', s') \<Longrightarrow> qp_key (side_qp s') = qp_key (side_qp s)"
  by (auto simp: finish_recv_def Let_def split: if_splits)

lemma process_recv_same: "process_recv_packet p s x = (r, p', s') \<Longrightarrow> qp_key (side_qp s') = qp_key (side_qp s)"
  by (auto simp: process_recv_packet_def Let_def split: prod.splits option.splits if_splits
      dest!: start_recv_same finish_recv_same)

lemma finish_write_same: "finish_write p s x ws = (r, p', s') \<Longrightarrow> qp_key (side_qp s') = qp_key (side_qp s)"
  by (auto simp: finish_write_def Let_def split: prod.splits option.splits if_splits dest!: same_qp_consume)

lemma write_to_remote_qp: "write_to_remote s a k bs = (ok, s') \<Longrightarrow> side_qp s' = side_qp s"
  by (auto simp: write_to_remote_def Let_def split: prod.splits if_splits)

lemma start_write_qp: "start_write s x = (r, s') \<Longrightarrow> side_qp s' = side_qp s"
  by (auto simp: start_write_def Let_def split: prod.splits option.splits if_splits)

lemma process_write_same: "process_write_packet p s x = (r, p', s') \<Longrightarrow> qp_key (side_qp s') = qp_key (side_qp s)"
  by (auto simp: process_write_packet_def Let_def split: prod.splits option.splits sum.splits if_splits
      dest!: start_write_qp write_to_remote_qp finish_write_same)

lemma process_request_same: "process_read_request ser p s x = (r, p', s') \<Longrightarrow> qp_key (side_qp s') = qp_key (side_qp s)"
  by (auto simp: process_read_request_def Let_def split: prod.splits option.splits if_splits dest!: generate_responses_same)

lemma process_response_same: "process_read_response p s x = (r, p', s') \<Longrightarrow> qp_key (side_qp s') = qp_key (side_qp s)"
  by (auto simp: process_read_response_def Let_def split: prod.splits option.splits if_splits)

section \<open>Consistent tables\<close>

definition qps_ok :: "(u32 \<times> RdmaCompletionQueue) list \<Rightarrow> (u32 \<times> RdmaQueuePair) list \<Rightarrow> bool" where
  "qps_ok cs qs \<longleftrightarrow> um_wf qs \<and> (\<forall>n qp. um_lookup qs n = Some qp \<longrightarrow> qp_number qp = n \<and>
     um_lookup cs (send_cq_number (qp_config qp)) \<noteq> None \<and> um_lookup cs (recv_cq_number (qp_config qp)) \<noteq> None)"

definition cqs_ok :: "(u32 \<times> RdmaCompletionQueue) list \<Rightarrow> bool" where
  "cqs_ok cs \<longleftrightarrow> um_wf cs \<and> (\<forall>n cq. um_lookup cs n = Some cq \<longrightarrow> cq_number cq = n \<and> length (cqes cq) \<le> cq_depth cq)"

definition eng_ok :: "RdmaEngine \<Rightarrow> bool" where
  "eng_ok e \<longleftrightarrow> qps_ok (cqs e) (qps e) \<and> cqs_ok (cqs e) \<and> length (qps e) \<le> ec_max_qps (eng_config e) \<and>
     length (cqs e) \<le> ec_max_cqs (eng_config e)"

lemma eng_ok_frame:
  "eng_config e' = eng_config e \<Longrightarrow> cqs e' = cqs e \<Longrightarrow> qps e' = qps e \<Longrightarrow> eng_ok e' = eng_ok e"
  by (simp add: eng_ok_def)

lemma eng_ok_simps [simp]:
  "eng_ok (e\<lparr>eng_stats := st\<rparr>) = eng_ok e" "eng_ok (e\<lparr>pd_table := t\<rparr>) = eng_ok e" "eng_ok (e\<lparr>mr_table := m\<rparr>) = eng_ok e"
  "eng_ok (e\<lparr>send_recv_processor := p1\<rparr>) = eng_ok e" "eng_ok (e\<lparr>write_processor := p2\<rparr>) = eng_ok e"
  "eng_ok (e\<lparr>read_processor := p3\<rparr>) = eng_ok e" "eng_ok (e\<lparr>congestion_manager := p4\<rparr>) = eng_ok e"
  "eng_ok (e\<lparr>reliability_manager := p5\<rparr>) = eng_ok e" "eng_ok (e\<lparr>outgoing_packets := ps\<rparr>) = eng_ok e"
  "eng_ok (count_error e) = eng_ok e" "eng_ok (queue_outgoing_packet ps' qp e) = eng_ok e" "eng_ok (count_packets_sent k e) = eng_ok e"
  "eng_ok (RdmaEngine_generate_ack ser qp psn sy e) = eng_ok e" "eng_ok (RdmaEngine_generate_nak ser qp psn sy e) = eng_ok e"
  by (simp_all add: eng_ok_def count_error_def queue_outgoing_packet_def count_packets_sent_def RdmaEngine_generate_ack_def
      RdmaEngine_generate_nak_def)

lemma eng_ok_put_qp:
  assumes "eng_ok e" "um_lookup (qps e) n = Some qp" "qp_number qp' = qp_number qp" "qp_config qp' = qp_config qp"
  shows "eng_ok (e\<lparr>qps := um_update n qp' (qps e)\<rparr>)"
  using assms by (auto simp: eng_ok_def qps_ok_def)

lemma eng_ok_put_side:
  assumes "eng_ok e" "um_lookup (qps e) n = Some qp" "qp_key (side_qp s) = qp_key qp"
  shows "eng_ok (put_side n s e)"
proof -
  have "eng_ok (e\<lparr>qps := um_update n (side_qp s) (qps e)\<rparr>)"
    using assms by (intro eng_ok_put_qp) (simp_all add: qp_key_def)
  moreover have "eng_ok (put_side n s e) = eng_ok (e\<lparr>qps := um_update n (side_qp s) (qps e)\<rparr>)"
    by (rule eng_ok_frame) (simp_all add: put_side_def)
  ultimately show ?thesis by simp
qed

lemma eng_ok_put_cq:
  assumes "eng_ok e" "um_lookup (cqs e) n = Some cq" "cq_number cq' = cq_number cq" "length (cqes cq') \<le> cq_depth cq'"
  shows "eng_ok (e\<lparr>cqs := um_update n cq' (cqs e)\<rparr>)"
  using assms by (auto simp: eng_ok_def qps_ok_def cqs_ok_def)

lemma post_within: "length (cqes cq) \<le> cq_depth cq \<Longrightarrow>
    length (cqes (snd (RdmaCompletionQueue_post cq x))) \<le> cq_depth (snd (RdmaCompletionQueue_post cq x)) \<and>
    cq_number (snd (RdmaCompletionQueue_post cq x)) = cq_number cq"
  by (auto simp: RdmaCompletionQueue_post_def RdmaCompletionQueue_is_full_def)

lemma eng_ok_deliver: "eng_ok e \<Longrightarrow> eng_ok (deliver_cqe n x e)"
proof (cases "um_lookup (cqs e) n")
  case (Some cq)
  assume ok: "eng_ok e"
  then have "length (cqes cq) \<le> cq_depth cq" using Some by (auto simp: eng_ok_def cqs_ok_def)
  then have "eng_ok (e\<lparr>cqs := um_update n (snd (RdmaCompletionQueue_post cq x)) (cqs e)\<rparr>)"
    using post_within [of cq x] by (intro eng_ok_put_cq [OF ok Some]) simp_all
  then show ?thesis using Some by (simp add: deliver_cqe_def eng_ok_def)
qed (simp add: deliver_cqe_def)

lemma eng_ok_fold: "(\<And>x e. eng_ok e \<Longrightarrow> eng_ok (f x e)) \<Longrightarrow> eng_ok e \<Longrightarrow> eng_ok (fold f xs e)"
  by (induction xs arbitrary: e) auto

lemma lookup_frame [simp]:
  "qps (e\<lparr>send_recv_processor := p1\<rparr>) = qps e" "qps (e\<lparr>write_processor := p2\<rparr>) = qps e" "qps (e\<lparr>read_processor := p3\<rparr>) = qps e"
  by simp_all

lemma eng_ok_process_send:
  "eng_ok e \<Longrightarrow> um_lookup (qps e) n = Some qp \<Longrightarrow> eng_ok (RdmaEngine_process_send_packet ser e n qp x)"
  unfolding RdmaEngine_process_send_packet_def Let_def
  by (auto simp: side_of_def eng_ok_deliver eng_ok_put_side split: prod.splits option.splits dest!: process_recv_same)

lemma eng_ok_process_write:
  "eng_ok e \<Longrightarrow> um_lookup (qps e) n = Some qp \<Longrightarrow> eng_ok (RdmaEngine_process_write_packet ser e n qp x)"
  unfolding RdmaEngine_process_write_packet_def Let_def
  by (auto simp: side_of_def eng_ok_deliver eng_ok_put_side split: prod.splits option.splits dest!: process_write_same)

lemma eng_ok_process_request:
  "eng_ok e \<Longrightarrow> um_lookup (qps e) n = Some qp \<Longrightarrow> eng_ok (RdmaEngine_process_read_request_packet ser e n qp x)"
  unfolding RdmaEngine_process_read_request_packet_def Let_def
  by (auto simp: side_of_def eng_ok_put_side split: prod.splits dest!: process_request_same intro!: eng_ok_fold)

lemma eng_ok_process_response:
  "eng_ok e \<Longrightarrow> um_lookup (qps e) n = Some qp \<Longrightarrow> eng_ok (RdmaEngine_process_read_response_packet e n qp x)"
  unfolding RdmaEngine_process_read_response_packet_def Let_def
  by (auto simp: side_of_def eng_ok_deliver eng_ok_put_side split: prod.splits option.splits dest!: process_response_same)

lemma deliver_qps [simp]: "qps (deliver_cqe n x e) = qps e"
  by (simp add: deliver_cqe_def split: option.split)

lemma modify_key: "RdmaQueuePair_modify q p = (ok, q') \<Longrightarrow> qp_number q' = qp_number q \<and> qp_config q' = qp_config q"
  by (auto simp: RdmaQueuePair_modify_def apply_params_def count_local_error_def split: option.splits if_splits)

lemma eng_ok_process_ack:
  assumes "eng_ok e" "um_lookup (qps e) n = Some qp"
  shows "eng_ok (RdmaEngine_process_ack_packet e n qp x)"
proof -
  have "eng_ok (e1\<lparr>qps := um_update n (snd (RdmaQueuePair_modify qp error_params)) (qps e1)\<rparr>)"
    if "eng_ok e1" "qps e1 = qps e" for e1
    using that assms(2) modify_key [of qp error_params, OF surjective_pairing] by (intro eng_ok_put_qp [of e1 n qp]) auto
  then show ?thesis
    unfolding RdmaEngine_process_ack_packet_def Let_def
    using assms(1) by (auto simp: eng_ok_deliver split: prod.split option.split intro!: eng_ok_fold)
qed

lemma eng_ok_dispatch:
  "eng_ok e \<Longrightarrow> um_lookup (qps e) n = Some qp \<Longrightarrow> eng_ok (snd (dispatch_packet ser e n qp x))"
  unfolding dispatch_packet_def Let_def
  by (simp add: eng_ok_process_send eng_ok_process_write eng_ok_process_request eng_ok_process_response eng_ok_process_ack
      RdmaEngine_process_cnp_packet_def)

lemma notify_frame: "eng_ok (notify_congestion ser e n qp) = eng_ok e" "qps (notify_congestion ser e n qp) = qps e"
  by (auto simp: notify_congestion_def Let_def queue_outgoing_packet_def eng_ok_def split: prod.split option.split)

lemma eng_ok_incoming: "eng_ok e \<Longrightarrow> eng_ok (snd (process_incoming_packet ser des e u))"
  unfolding process_incoming_packet_def Let_def
  by (auto simp: notify_frame intro!: eng_ok_dispatch split: option.split)

lemma eng_ok_generate:
  assumes "eng_ok e" "um_lookup (qps e) n = Some qp" "generate_packets ser e n qp wqe = (ps, e')"
  shows "eng_ok e'"
  using assms by (auto simp: generate_packets_def side_of_def eng_ok_put_side split: prod.splits if_splits
      dest!: generate_send_same generate_write_same generate_read_same)

lemma eng_ok_post_send: "eng_ok e \<Longrightarrow> eng_ok (snd (RdmaEngine_post_send ser e n wqe))"
  unfolding RdmaEngine_post_send_def Let_def
  by (auto split: option.split prod.split dest: eng_ok_generate intro!: eng_ok_fold)

lemma post_recv_key: "RdmaQueuePair_post_recv q w = (ok, q') \<Longrightarrow> qp_number q' = qp_number q \<and> qp_config q' = qp_config q"
  using qp_key_ops(7) [of q w] by (simp add: qp_key_def)

lemma eng_ok_post_recv: "eng_ok e \<Longrightarrow> eng_ok (snd (RdmaEngine_post_recv e n wqe))"
  unfolding RdmaEngine_post_recv_def Let_def
  by (auto split: option.split prod.split dest!: post_recv_key intro!: eng_ok_put_qp)

lemma eng_ok_modify: "eng_ok e \<Longrightarrow> eng_ok (snd (RdmaEngine_modify_qp e n params))"
  unfolding RdmaEngine_modify_qp_def Let_def
  by (auto split: option.split prod.split dest!: modify_key intro!: eng_ok_put_qp)

lemma eng_ok_poll:
  assumes "eng_ok e"
  shows "eng_ok (snd (RdmaEngine_poll_cq e n k))"
proof (cases "enabled e \<and> um_lookup (cqs e) n \<noteq> None")
  case True
  then obtain cq where cq: "um_lookup (cqs e) n = Some cq" by auto
  then have "length (cqes cq) \<le> cq_depth cq" using assms by (auto simp: eng_ok_def cqs_ok_def)
  then have "eng_ok (e\<lparr>cqs := um_update n (snd (RdmaCompletionQueue_poll cq k)) (cqs e)\<rparr>)"
    by (intro eng_ok_put_cq [OF assms cq]) (auto simp: RdmaCompletionQueue_poll_def Let_def)
  then show ?thesis using True cq by (simp add: RdmaEngine_poll_cq_def case_prod_beta)
qed (use assms in \<open>auto simp: RdmaEngine_poll_cq_def split: option.split\<close>)

lemma length_um_update_within: "length m < b \<Longrightarrow> length (um_update k v m) \<le> b"
proof -
  have "length (um_update k v m) \<le> Suc (length m)" by (induction m) auto
  then show "length m < b \<Longrightarrow> ?thesis" by linarith
qed

lemma eng_ok_create_cq: "eng_ok e \<Longrightarrow> eng_ok (snd (RdmaEngine_create_cq e depth))"
  by (auto simp: RdmaEngine_create_cq_def eng_ok_def qps_ok_def cqs_ok_def count_error_def RdmaCompletionQueue_new_def Let_def
      intro!: length_um_update_within)

lemma eng_ok_create_qp: "eng_ok e \<Longrightarrow> eng_ok (snd (RdmaEngine_create_qp e c))"
  by (auto simp: RdmaEngine_create_qp_def eng_ok_def qps_ok_def count_error_def RdmaQueuePair_new_def Let_def
      intro!: length_um_update_within)

text \<open>A completion queue in use is not destroyed.\<close>

lemma eng_ok_destroy_cq:
  assumes "eng_ok e"
  shows "eng_ok (snd (RdmaEngine_destroy_cq e n))"
proof (cases "enabled e \<and> \<not> list_ex (\<lambda>(k, qp). uses_cq n qp) (qps e)")
  case True
  then have "\<not> uses_cq n qp" if "um_lookup (qps e) k = Some qp" for k qp
    using map_of_SomeD [OF that] by (auto simp: list_ex_iff)
  then show ?thesis
    using assms True length_um_erase_le [of n "cqs e"]
    by (auto simp: RdmaEngine_destroy_cq_def eng_ok_def qps_ok_def cqs_ok_def uses_cq_def)
qed (use assms in \<open>auto simp: RdmaEngine_destroy_cq_def\<close>)

lemma eng_ok_destroy_qp: "eng_ok e \<Longrightarrow> eng_ok (snd (RdmaEngine_destroy_qp e n))"
  using length_um_erase_le [of n "qps e"] by (auto simp: RdmaEngine_destroy_qp_def eng_ok_def qps_ok_def)

section \<open>Calls\<close>

datatype EngCall =
    ECreatePd | EDestroyPd u32 | ERegisterMr u32 u64 u64 AccessFlags | EDeregisterMr u32
  | ECreateCq nat | EDestroyCq u32 | EPollCq u32 nat | ECreateQp RdmaQpConfig | EDestroyQp u32
  | EModifyQp u32 RdmaQpModifyParams | EPostSend u32 SendWqe | EPostRecv u32 RecvWqe
  | EIncoming bytes | EOutgoing | EAdvance u64 | EReset

fun eng_call :: "(nat list \<Rightarrow> u64 list \<Rightarrow> bytes) \<Rightarrow> (nat list \<Rightarrow> bytes \<Rightarrow> u64 list) \<Rightarrow> EngCall \<Rightarrow> RdmaEngine \<Rightarrow> RdmaEngine" where
  "eng_call ser des ECreatePd e = snd (RdmaEngine_create_pd e)"
| "eng_call ser des (EDestroyPd h) e = snd (RdmaEngine_destroy_pd e h)"
| "eng_call ser des (ERegisterMr pd a l f) e = snd (RdmaEngine_register_mr e pd a l f)"
| "eng_call ser des (EDeregisterMr k) e = snd (RdmaEngine_deregister_mr e k)"
| "eng_call ser des (ECreateCq d) e = snd (RdmaEngine_create_cq e d)"
| "eng_call ser des (EDestroyCq n) e = snd (RdmaEngine_destroy_cq e n)"
| "eng_call ser des (EPollCq n k) e = snd (RdmaEngine_poll_cq e n k)"
| "eng_call ser des (ECreateQp c) e = snd (RdmaEngine_create_qp e c)"
| "eng_call ser des (EDestroyQp n) e = snd (RdmaEngine_destroy_qp e n)"
| "eng_call ser des (EModifyQp n p) e = snd (RdmaEngine_modify_qp e n p)"
| "eng_call ser des (EPostSend n w) e = snd (RdmaEngine_post_send ser e n w)"
| "eng_call ser des (EPostRecv n w) e = snd (RdmaEngine_post_recv e n w)"
| "eng_call ser des (EIncoming u) e = snd (process_incoming_packet ser des e u)"
| "eng_call ser des EOutgoing e = snd (generate_outgoing_packets e)"
| "eng_call ser des (EAdvance t) e = RdmaEngine_advance_time e t"
| "eng_call ser des EReset e = RdmaEngine_reset e"

lemma eng_ok_tables:
  "eng_ok e \<Longrightarrow> eng_ok (snd (RdmaEngine_create_pd e))" "eng_ok e \<Longrightarrow> eng_ok (snd (RdmaEngine_destroy_pd e h))"
  "eng_ok e \<Longrightarrow> eng_ok (snd (RdmaEngine_register_mr e pd a l fl))" "eng_ok e \<Longrightarrow> eng_ok (snd (RdmaEngine_deregister_mr e k))"
  "eng_ok e \<Longrightarrow> eng_ok (snd (generate_outgoing_packets e))" "eng_ok e \<Longrightarrow> eng_ok (RdmaEngine_advance_time e t)"
  "eng_ok (RdmaEngine_reset e)"
  by (simp_all add: RdmaEngine_create_pd_def RdmaEngine_destroy_pd_def RdmaEngine_register_mr_def RdmaEngine_deregister_mr_def
      generate_outgoing_packets_def RdmaEngine_advance_time_def Let_def split: prod.split)
    (simp add: RdmaEngine_reset_def eng_ok_def qps_ok_def cqs_ok_def)

lemma eng_ok_call: "eng_ok e \<Longrightarrow> eng_ok (eng_call ser des a e)"
  by (cases a) (simp_all add: eng_ok_tables eng_ok_create_cq eng_ok_destroy_cq eng_ok_poll eng_ok_create_qp eng_ok_destroy_qp
      eng_ok_modify eng_ok_post_send eng_ok_post_recv eng_ok_incoming)

lemma eng_ok_new: "eng_ok (RdmaEngine_new c mem)"
  by (simp add: RdmaEngine_new_def eng_ok_def qps_ok_def cqs_ok_def)

lemma deliver_config [simp]: "eng_config (deliver_cqe n x e) = eng_config e"
  by (simp add: deliver_cqe_def split: option.split)

lemma fold_config: "(\<And>x e. eng_config (f x e) = eng_config e) \<Longrightarrow> eng_config (fold f xs e) = eng_config e"
  by (induction xs arbitrary: e) auto

lemma config_simps [simp]:
  "eng_config (count_error e) = eng_config e" "eng_config (queue_outgoing_packet ps qp e) = eng_config e"
  "eng_config (count_packets_sent k e) = eng_config e" "eng_config (RdmaEngine_generate_ack ser qp psn sy e) = eng_config e"
  "eng_config (RdmaEngine_generate_nak ser qp psn sy e) = eng_config e" "eng_config (put_side n s e) = eng_config e"
  "eng_config (notify_congestion ser e n qp) = eng_config e"
  by (auto simp: count_error_def queue_outgoing_packet_def count_packets_sent_def RdmaEngine_generate_ack_def
      RdmaEngine_generate_nak_def put_side_def notify_congestion_def Let_def split: prod.split option.split)

lemma handler_config:
  "eng_config (RdmaEngine_process_send_packet ser e n qp x) = eng_config e"
  "eng_config (RdmaEngine_process_write_packet ser e n qp x) = eng_config e"
  "eng_config (RdmaEngine_process_read_request_packet ser e n qp x) = eng_config e"
  "eng_config (RdmaEngine_process_read_response_packet e n qp x) = eng_config e"
  "eng_config (RdmaEngine_process_ack_packet e n qp x) = eng_config e"
  "eng_config (RdmaEngine_process_cnp_packet e qp) = eng_config e"
  unfolding RdmaEngine_process_send_packet_def RdmaEngine_process_write_packet_def RdmaEngine_process_read_request_packet_def
    RdmaEngine_process_read_response_packet_def RdmaEngine_process_ack_packet_def RdmaEngine_process_cnp_packet_def Let_def
  by (simp_all add: case_prod_beta fold_config split: option.split)

lemma dispatch_config: "eng_config (snd (dispatch_packet ser e n qp x)) = eng_config e"
  unfolding dispatch_packet_def Let_def by (simp add: handler_config)

lemma post_config: "eng_config (snd (generate_packets ser e n qp w)) = eng_config e"
  "eng_config (snd (RdmaEngine_post_send ser e n w)) = eng_config e" "eng_config (snd (RdmaEngine_post_recv e n rw)) = eng_config e"
proof -
  show g: "eng_config (snd (generate_packets ser e n qp w)) = eng_config e" for qp
    by (simp add: generate_packets_def case_prod_beta)
  show "eng_config (snd (RdmaEngine_post_send ser e n w)) = eng_config e"
    by (simp add: RdmaEngine_post_send_def case_prod_beta Let_def g fold_config split: option.split)
  show "eng_config (snd (RdmaEngine_post_recv e n rw)) = eng_config e"
    by (simp add: RdmaEngine_post_recv_def case_prod_beta Let_def split: option.split)
qed

lemma incoming_config: "eng_config (snd (process_incoming_packet ser des e u)) = eng_config e"
  unfolding process_incoming_packet_def Let_def by (simp add: dispatch_config split: option.split)

lemma resource_config:
  "eng_config (snd (RdmaEngine_create_pd e)) = eng_config e" "eng_config (snd (RdmaEngine_destroy_pd e h)) = eng_config e"
  "eng_config (snd (RdmaEngine_register_mr e h a l fl)) = eng_config e" "eng_config (snd (RdmaEngine_deregister_mr e k)) = eng_config e"
  "eng_config (snd (RdmaEngine_create_cq e d)) = eng_config e" "eng_config (snd (RdmaEngine_destroy_cq e n)) = eng_config e"
  "eng_config (snd (RdmaEngine_poll_cq e n d)) = eng_config e" "eng_config (snd (RdmaEngine_create_qp e c)) = eng_config e"
  "eng_config (snd (RdmaEngine_destroy_qp e n)) = eng_config e" "eng_config (snd (RdmaEngine_modify_qp e n p)) = eng_config e"
  "eng_config (snd (generate_outgoing_packets e)) = eng_config e" "eng_config (RdmaEngine_advance_time e t) = eng_config e"
  "eng_config (RdmaEngine_reset e) = eng_config e"
  by (simp_all add: RdmaEngine_create_pd_def RdmaEngine_destroy_pd_def RdmaEngine_register_mr_def RdmaEngine_deregister_mr_def
      generate_outgoing_packets_def RdmaEngine_advance_time_def RdmaEngine_reset_def RdmaEngine_create_cq_def RdmaEngine_destroy_cq_def
      RdmaEngine_poll_cq_def RdmaEngine_create_qp_def RdmaEngine_destroy_qp_def RdmaEngine_modify_qp_def Let_def case_prod_beta
      split: option.split)

lemma call_config: "eng_config (eng_call ser des a e) = eng_config e"
  by (cases a) (simp_all add: resource_config post_config incoming_config)

lemma calls_ok:
  "eng_ok e \<Longrightarrow> eng_ok (fold (eng_call ser des) as e) \<and> eng_config (fold (eng_call ser des) as e) = eng_config e"
  by (induction as arbitrary: e) (simp_all add: eng_ok_call call_config)

lemma disabled_call:
  "\<not> ec_enabled c \<Longrightarrow> eng_call ser des a (RdmaEngine_new c mem) = RdmaEngine_new c mem"
  by (cases a) (simp_all add: RdmaEngine_new_def RdmaEngine_create_pd_def RdmaEngine_destroy_pd_def RdmaEngine_register_mr_def
      RdmaEngine_deregister_mr_def generate_outgoing_packets_def RdmaEngine_advance_time_def RdmaEngine_reset_def
      RdmaEngine_create_cq_def RdmaEngine_destroy_cq_def RdmaEngine_poll_cq_def RdmaEngine_create_qp_def RdmaEngine_destroy_qp_def
      RdmaEngine_modify_qp_def RdmaEngine_post_send_def RdmaEngine_post_recv_def process_incoming_packet_def PdTable_reset_def
      PdTable_new_def MemoryRegionTable_reset_def MemoryRegionTable_new_def SendRecvProcessor_reset_def SendRecvProcessor_new_def
      WriteProcessor_reset_def WriteProcessor_new_def ReadProcessor_reset_def ReadProcessor_new_def
      CongestionControlManager_reset_def CongestionControlManager_new_def ReliabilityManager_reset_def ReliabilityManager_new_def)

section \<open>Properties\<close>

text \<open>C6: whatever calls are made on an engine, with whatever packets coming in, every queue pair is stored under its own number and its send
  and receive completion queues exist (a queue in use cannot be destroyed, one that does not exist cannot be named), so
  that no completion is dropped for want of a queue. No completion queue holds more entries than its depth, and
  there are never more queue pairs or completion queues than configured. An engine that is not enabled keeps
  its initial state.\<close>

theorem engine_tables_consistent:
  assumes "e = fold (eng_call ser des) calls (RdmaEngine_new c mem)"
  shows "(\<forall>n qp. um_lookup (qps e) n = Some qp \<longrightarrow> qp_number qp = n \<and>
      (\<exists>scq rcq. um_lookup (cqs e) (send_cq_number (qp_config qp)) = Some scq \<and> um_lookup (cqs e) (recv_cq_number (qp_config qp)) = Some rcq)) \<and>
    (\<forall>n cq. um_lookup (cqs e) n = Some cq \<longrightarrow> cq_number cq = n \<and> length (cqes cq) \<le> cq_depth cq) \<and>
    length (qps e) \<le> ec_max_qps c \<and> length (cqs e) \<le> ec_max_cqs c \<and>
    (\<not> ec_enabled c \<longrightarrow> e = RdmaEngine_new c mem)"
proof -
  have c: "eng_config (RdmaEngine_new c mem) = c" by (simp add: RdmaEngine_new_def)
  with calls_ok [OF eng_ok_new] have e: "eng_ok e" "eng_config e = c" unfolding assms by simp_all
  moreover have "\<not> ec_enabled c \<longrightarrow> e = RdmaEngine_new c mem"
    unfolding assms by (induction calls) (simp_all add: disabled_call)
  ultimately show ?thesis unfolding eng_ok_def qps_ok_def cqs_ok_def by blast
qed

definition sample_calls :: "EngCall list" where
  "sample_calls = [ECreatePd, ECreateCq 16, ECreateCq 4,
     ECreateQp (RdmaQpConfig_default\<lparr>qpc_pd_handle := 1, send_cq_number := 1, recv_cq_number := 2\<rparr>), EDestroyCq 2]"

theorem engine_tables_consistent_witness:
  "\<exists>e qp cq. e = fold (eng_call msb_ser msb_des) sample_calls (RdmaEngine_new RdmaEngineConfig_default (sample_memory [0, 0])) \<and>
     um_lookup (qps e) 1 = Some qp \<and> qp_number qp = 1 \<and> um_lookup (cqs e) (recv_cq_number (qp_config qp)) = Some cq \<and>
     length (cqes cq) \<le> cq_depth cq \<and> cq_depth cq = 4 \<and> length (qps e) \<le> 1024"
proof -
  define e where "e = fold (eng_call msb_ser msb_des) sample_calls (RdmaEngine_new RdmaEngineConfig_default (sample_memory [0, 0]))"
  have "map_option (\<lambda>q. recv_cq_number (qp_config q)) (um_lookup (qps e) 1) = Some 2" "map_option cq_depth (um_lookup (cqs e) 2) = Some 4"
    unfolding e_def by code_simp+
  then obtain qp cq where qp: "um_lookup (qps e) 1 = Some qp" "recv_cq_number (qp_config qp) = 2"
    and cq: "um_lookup (cqs e) 2 = Some cq" "cq_depth cq = 4" by (auto simp: map_option_case split: option.splits)
  have "length (qps e) \<le> 1024" "qp_number qp = 1" "length (cqes cq) \<le> cq_depth cq"
    using engine_tables_consistent [OF e_def] qp(1) cq(1) by (auto simp: RdmaEngineConfig_default_def)
  then show ?thesis using qp cq e_def by auto
qed

end
