(* ===== verification/Rocev2_End_To_End.thy ===== *)
theory Rocev2_End_To_End
  imports Rocev2_Engine
begin

text \<open>
  Two engines connected by a wire: the packets one engine has queued go into the other. The locale \<open>packet_processor\<close> is the contract between an engine and
  the processor of one kind of packet, with the SEND, WRITE and READ response processors as instances; the theory lifts their behaviour on a message to the engine, shows what posting
  a request queues and what its acknowledgement does at the sender, and puts these together for a SEND.
\<close>

section \<open>Effects of single calls\<close>

definition post_cq :: "u32 \<Rightarrow> RdmaCqe \<Rightarrow> (u32 \<times> RdmaCompletionQueue) list \<Rightarrow> (u32 \<times> RdmaCompletionQueue) list" where
  "post_cq n cqe cs = (case um_lookup cs n of None \<Rightarrow> cs | Some cq \<Rightarrow> um_update n (snd (RdmaCompletionQueue_post cq cqe)) cs)"

lemma post_cq_grows:
  assumes "um_lookup cs n = Some cq" "length (cqes cq) < cq_depth cq"
  shows "\<exists>cq'. um_lookup (post_cq n x cs) n = Some cq' \<and> cqes cq' = cqes cq @ [x] \<and> cq_depth cq' = cq_depth cq"
  using assms by (simp add: post_cq_def RdmaCompletionQueue_post_def RdmaCompletionQueue_is_full_def)

lemma post_cq_room:
  assumes "um_lookup cs n = Some cq" "length (cqes cq) < cq_depth cq"
  shows "\<exists>cq'. um_lookup (post_cq n x cs) n = Some cq' \<and> cqes cq' = cqes cq @ [x]"
  using post_cq_grows [OF assms] by blast

lemma cqs_simps [simp]:
  "cqs (deliver_cqe n x e) = post_cq n x (cqs e)" "cqs (count_error e) = cqs e" "cqs (queue_outgoing_packet ps qp e) = cqs e"
  "cqs (count_packets_sent k e) = cqs e" "cqs (RdmaEngine_generate_ack ser qp psn sy e) = cqs e" "cqs (put_side n s e) = cqs e"
  "cqs (notify_congestion ser e n qp) = cqs e"
  by (auto simp: deliver_cqe_def post_cq_def count_error_def queue_outgoing_packet_def count_packets_sent_def
      RdmaEngine_generate_ack_def put_side_def notify_congestion_def Let_def split: option.split prod.split)

text \<open>What a call leaves alone: everything the processors of the model look at.\<close>

definition core :: "RdmaEngine \<Rightarrow> SimpleHostMemory \<times> MemoryRegionTable \<times> (u32 \<times> RdmaQueuePair) list \<times> ReliabilityManager \<times>
    SendRecvProcessor \<times> WriteProcessor \<times> ReadProcessor" where
  "core e = (eng_memory e, mr_table e, qps e, reliability_manager e, send_recv_processor e, write_processor e, read_processor e)"

lemma core_simps [simp]:
  "core (deliver_cqe n x e) = core e" "core (queue_outgoing_packet ps qp e) = core e" "core (count_packets_sent k e) = core e"
  "core (RdmaEngine_generate_ack ser qp psn sy e) = core e" "core (notify_congestion ser e n qp) = core e"
  "core (e\<lparr>eng_stats := st\<rparr>) = core e" "core (e\<lparr>congestion_manager := cm\<rparr>) = core e" "core (count_error e) = core e"
  by (auto simp: core_def count_error_def deliver_cqe_def queue_outgoing_packet_def count_packets_sent_def
      RdmaEngine_generate_ack_def notify_congestion_def Let_def split: option.split prod.split)

lemma ack_builder_key: "qp_key q' = qp_key q \<Longrightarrow> ack_builder q' = ack_builder q"
  by (intro ext) (simp add: ack_builder_def qp_key_def)

text \<open>What \<^verbatim>\<open>queue_outgoing_packet\<close> appends, and an acknowledgement in that form.\<close>

definition packet_to :: "RdmaQueuePair \<Rightarrow> bytes \<Rightarrow> OutgoingPacket" where
  "packet_to qp u = \<lparr>out_data = u, out_dest_ip = dest_ip qp, out_dest_port = kRoceUdpPort, out_src_port = 0\<rparr>"

lemma packet_to_fields [simp]: "out_data (packet_to qp u) = u" "out_dest_ip (packet_to qp u) = dest_ip qp"
  by (simp_all add: packet_to_def)

definition ack_packet :: "(nat list \<Rightarrow> u64 list \<Rightarrow> bytes) \<Rightarrow> RdmaQueuePair \<Rightarrow> u32 \<Rightarrow> AethSyndrome \<Rightarrow> OutgoingPacket" where
  "ack_packet ser qp psn sy = packet_to qp (RdmaPacketBuilder_build ser (ack_builder qp psn sy))"

lemma ack_packet_key: "qp_key q' = qp_key q \<Longrightarrow> ack_packet ser q' = ack_packet ser q"
  using ack_builder_key [of q' q] by (intro ext) (simp add: ack_packet_def packet_to_def qp_key_def)

lemma outgoing_simps [simp]:
  "outgoing_packets (deliver_cqe n x e) = outgoing_packets e"
  "outgoing_packets (RdmaEngine_generate_ack ser qp psn sy e) = outgoing_packets e @ [ack_packet ser qp psn sy]"
  by (simp_all add: ack_packet_def packet_to_def deliver_cqe_def RdmaEngine_generate_ack_def count_packets_sent_def queue_outgoing_packet_def split: option.split)

section \<open>Congestion notification packets\<close>

text \<open>Every packet that arrives may be answered by a notification packet. It changes nothing but the congestion manager of the engine that gets it.\<close>

definition is_cnp :: "(nat list \<Rightarrow> bytes \<Rightarrow> u64 list) \<Rightarrow> bytes \<Rightarrow> bool" where
  "is_cnp des u \<longleftrightarrow> (\<exists>x. RdmaPacketParser_parse des u = Some x \<and> bth_opcode (p_bth x) = kCnp)"

lemma cnp_parsed:
  assumes "bit_packer ser des" "generate_cnp ser m n t = (Some u, m')"
  shows "is_cnp des u"
proof -
  have b: "builder_ok (cnp_builder n)" "b_opcode (cnp_builder n) = kCnp"
    unfolding cnp_builder_def by (intro builder_reachable_ok builder_reachable.intros) (simp add: builder_setters)
  have u: "u = RdmaPacketBuilder_build ser (cnp_builder n) @ replicate 16 0"
    using assms(2) by (auto simp: generate_cnp_def Let_def split: if_splits)
  then obtain rest where "u = write_bth ser (cnp_builder n) @ rest"
    by (auto simp: RdmaPacketBuilder_build_def Let_def)
  then have "parse_bth des u = Some (p_bth (parsed_builder (cnp_builder n)))"
    using bit_packer.parse_bth_built [OF assms(1) b(1)] by simp
  moreover have "16 \<le> length u" by (simp add: u)
  ultimately show ?thesis
    using b(2) by (simp add: is_cnp_def RdmaPacketParser_parse_def parsed_builder_def packet_sizes opcode_defs Let_def)
qed

lemma incoming_cnp:
  assumes "is_cnp des u"
  shows "core (snd (process_incoming_packet ser des e u)) = core e \<and> cqs (snd (process_incoming_packet ser des e u)) = cqs e \<and>
    eng_config (snd (process_incoming_packet ser des e u)) = eng_config e"
  using assms by (auto simp: is_cnp_def process_incoming_packet_def dispatch_packet_def opcode_defs Let_def
      RdmaEngine_process_cnp_packet_def split: option.split)

definition cnps_to :: "(nat list \<Rightarrow> bytes \<Rightarrow> u64 list) \<Rightarrow> bytes \<Rightarrow> OutgoingPacket list \<Rightarrow> bool" where
  "cnps_to des ip cs \<longleftrightarrow> (\<forall>c \<in> set cs. is_cnp des (out_data c) \<and> out_dest_ip c = ip)"

lemma notify_outgoing:
  assumes "bit_packer ser des"
  shows "\<exists>cs. cnps_to des (dest_ip qp) cs \<and> outgoing_packets (notify_congestion ser e n qp) = outgoing_packets e @ cs"
  using cnp_parsed [OF assms] by (auto simp: notify_congestion_def cnps_to_def queue_outgoing_packet_def Let_def split: option.split prod.split)

section \<open>The receiving engine\<close>

definition receive_all :: "(nat list \<Rightarrow> u64 list \<Rightarrow> bytes) \<Rightarrow> (nat list \<Rightarrow> bytes \<Rightarrow> u64 list) \<Rightarrow> bytes list \<Rightarrow> RdmaEngine \<Rightarrow> RdmaEngine" where
  "receive_all ser des us e = fold (\<lambda>u e. snd (process_incoming_packet ser des e u)) us e"

lemma receive_all_append: "receive_all ser des (us @ vs) e = receive_all ser des vs (receive_all ser des us e)"
  by (simp add: receive_all_def)

lemma receive_cnps:
  "\<forall>u \<in> set us. is_cnp des u \<Longrightarrow> core (receive_all ser des us e) = core e \<and> cqs (receive_all ser des us e) = cqs e \<and>
     eng_config (receive_all ser des us e) = eng_config e"
  by (induction us arbitrary: e) (simp_all add: receive_all_def incoming_cnp)

text \<open>What every handler of the engine does with a packet its processor accepts, after it has stored the processor and the queue pair.\<close>

definition accepted :: "OutgoingPacket list \<Rightarrow> u32 \<Rightarrow> RdmaCqe option \<Rightarrow> RdmaEngine \<Rightarrow> RdmaEngine \<Rightarrow> bool" where
  "accepted acks cq c e e' \<longleftrightarrow> core e' = core e \<and> eng_config e' = eng_config e \<and> outgoing_packets e' = outgoing_packets e @ acks \<and>
     cqs e' = (case c of None \<Rightarrow> cqs e | Some x \<Rightarrow> post_cq cq x (cqs e))"

definition packet_for :: "(RdmaOpcode \<Rightarrow> bool) \<Rightarrow> (nat list \<Rightarrow> bytes \<Rightarrow> u64 list) \<Rightarrow> u32 \<Rightarrow> bytes \<Rightarrow> bool" where
  "packet_for mine des n u \<longleftrightarrow> (\<exists>x. RdmaPacketParser_parse des u = Some x \<and> bth_dest_qp (p_bth x) = n \<and> mine (bth_opcode (p_bth x)))"

text \<open>The contract of the engine with one of its packet processors: the opcodes that are handed to it, where its state is kept, and what
  becomes of the result for a packet it accepts. The SEND, WRITE and READ response processors fulfil it.\<close>

locale packet_processor =
  fixes proc :: "RdmaEngine \<Rightarrow> 'p" and store :: "'p \<Rightarrow> RdmaEngine \<Rightarrow> RdmaEngine"
    and process :: "'p \<Rightarrow> RdmaSide \<Rightarrow> RdmaPacketParser \<Rightarrow> 'r \<times> 'p \<times> RdmaSide"
    and run :: "'p \<Rightarrow> RdmaSide \<Rightarrow> RdmaPacketParser list \<Rightarrow> 'r list \<times> 'p \<times> RdmaSide"
    and mine :: "RdmaOpcode \<Rightarrow> bool" and success :: "'r \<Rightarrow> bool" and needs_ack :: "'r \<Rightarrow> bool"
    and ack_psn :: "'r \<Rightarrow> u32" and syndrome :: "'r \<Rightarrow> AethSyndrome" and cqe :: "'r \<Rightarrow> RdmaCqe option" and cq :: "RdmaQpConfig \<Rightarrow> u32"
  assumes run_Nil: "run p s [] = ([], p, s)"
    and run_Cons: "run p s (x # xs) = (let (r, p1, s1) = process p s x; (rs, p2, s2) = run p1 s1 xs in (r # rs, p2, s2))"
    and key: "process p s x = (r, p', s') \<Longrightarrow> qp_key (side_qp s') = qp_key (side_qp s)"
    and proc_core: "core e' = core e \<Longrightarrow> proc e' = proc e"
    and proc_stored: "proc (put_side n s (store p e)) = p"
    and stored: "eng_config (store p e) = eng_config e" "cqs (store p e) = cqs e" "outgoing_packets (store p e) = outgoing_packets e" "qps (store p e) = qps e"
      "reliability_manager (store p e) = reliability_manager e"
    and dispatched: "mine (bth_opcode (p_bth x)) \<Longrightarrow> process (proc e) (side_of e qp) x = (r, p, s) \<Longrightarrow> success r \<Longrightarrow>
      accepted (if needs_ack r then [ack_packet ser (side_qp s) (ack_psn r) (syndrome r)] else []) (cq (qp_config (side_qp s))) (cqe r)
        (put_side n s (store p e)) (snd (dispatch_packet ser e n qp x))"
begin

lemma incoming_accepted:
  fixes ser :: "nat list \<Rightarrow> u64 list \<Rightarrow> bytes"
  assumes "enabled e" "um_lookup (qps e) n = Some qp" "RdmaPacketParser_parse des u = Some x" "bth_dest_qp (p_bth x) = n"
    and "mine (bth_opcode (p_bth x))" "process (proc e) (side_of e qp) x = (r, p, s)" "success r"
  defines "e' \<equiv> snd (process_incoming_packet ser des e u)"
  shows "enabled e'" "proc e' = p" "side_of e' (side_qp s) = s" "um_lookup (qps e') n = Some (side_qp s)"
    "reliability_manager e' = reliability_manager e"
    "cqs e' = (case cqe r of None \<Rightarrow> cqs e | Some c \<Rightarrow> post_cq (cq (qp_config qp)) c (cqs e))"
    "bit_packer ser des \<Longrightarrow> \<exists>cs. cnps_to des (dest_ip qp) cs \<and>
       outgoing_packets e' = outgoing_packets e @ cs @ (if needs_ack r then [ack_packet ser qp (ack_psn r) (syndrome r)] else [])"
proof -
  define e1 where "e1 = notify_congestion ser e n qp"
  define e2 where "e2 = e1\<lparr>eng_stats := (eng_stats e1)\<lparr>es_packets_received := es_packets_received (eng_stats e1) + 1,
                         es_bytes_received := es_bytes_received (eng_stats e1) + of_nat (length u)\<rparr>\<rparr>"
  have c: "core e2 = core e" "cqs e2 = cqs e" "eng_config e2 = eng_config e" by (simp_all add: e2_def e1_def)
  then have same: "proc e2 = proc e" "side_of e2 qp = side_of e qp" "qps e2 = qps e" "reliability_manager e2 = reliability_manager e" using proc_core [OF c(1)] by (simp_all add: core_def side_of_def)
  have k: "qp_key (side_qp s) = qp_key qp" using key [OF assms(6)] by (simp add: side_of_def)
  then have cfg: "qp_config (side_qp s) = qp_config qp" "dest_ip (side_qp s) = dest_ip qp" by (simp_all add: qp_key_def)
  have "e' = snd (dispatch_packet ser e2 n qp x)"
    using assms(1-4) by (simp add: e'_def process_incoming_packet_def Let_def flip: e1_def e2_def)
  then have acc: "accepted (if needs_ack r then [ack_packet ser qp (ack_psn r) (syndrome r)] else []) (cq (qp_config qp)) (cqe r)
      (put_side n s (store p e2)) e'"
    using dispatched [OF assms(5), of e2 qp r p s ser n, unfolded same cfg ack_packet_key [OF k]] assms(6,7) by simp
  then have core': "core e' = core (put_side n s (store p e2))" by (simp add: accepted_def)
  show "enabled e'" "cqs e' = (case cqe r of None \<Rightarrow> cqs e | Some c \<Rightarrow> post_cq (cq (qp_config qp)) c (cqs e))"
    using acc assms(1) by (simp_all add: accepted_def stored c split: option.split)
  show "proc e' = p" using proc_core [OF core'] by (simp add: proc_stored)
  show "side_of e' (side_qp s) = s" "um_lookup (qps e') n = Some (side_qp s)" "reliability_manager e' = reliability_manager e"
    using core' same(4) by (simp_all add: core_def side_of_def put_side_def stored)
  assume "bit_packer ser des"
  from notify_outgoing [OF this, of qp e n] obtain cs where "cnps_to des (dest_ip qp) cs" "outgoing_packets e2 = outgoing_packets e @ cs"
    by (auto simp: e2_def e1_def)
  with acc show "\<exists>cs. cnps_to des (dest_ip qp) cs \<and>
      outgoing_packets e' = outgoing_packets e @ cs @ (if needs_ack r then [ack_packet ser qp (ack_psn r) (syndrome r)] else [])"
    by (auto simp: accepted_def stored put_side_def)
qed

text \<open>The packets of a message, one after the other, when the processor accepts all of them.\<close>

lemma receive_message:
  fixes ser :: "nat list \<Rightarrow> u64 list \<Rightarrow> bytes"
  assumes "bit_packer ser des" "us \<noteq> []" "enabled e" "um_lookup (qps e) n = Some qp" "\<forall>u \<in> set us. packet_for mine des n u"
    and "run (proc e) (side_of e qp) (parse_all des us) = (rs, p, s)" "\<forall>r \<in> set rs. success r"
  shows "side_of (receive_all ser des us e) (side_qp s) = s \<and> reliability_manager (receive_all ser des us e) = reliability_manager e
    \<and> enabled (receive_all ser des us e) \<and> um_lookup (qps (receive_all ser des us e)) n = Some (side_qp s) \<and> qp_key (side_qp s) = qp_key qp
    \<and> cqs (receive_all ser des us e) = fold (\<lambda>r cs. case cqe r of None \<Rightarrow> cs | Some c \<Rightarrow> post_cq (cq (qp_config qp)) c cs) rs (cqs e)
    \<and> (needs_ack (List.last rs) \<and> (\<forall>r \<in> set (butlast rs). \<not> needs_ack r) \<longrightarrow>
      (\<exists>cs. cnps_to des (dest_ip qp) cs \<and> outgoing_packets (receive_all ser des us e) =
         outgoing_packets e @ cs @ [ack_packet ser qp (ack_psn (List.last rs)) (syndrome (List.last rs))]))"
  using assms
proof (induction us arbitrary: e qp rs)
  case (Cons u us)
  obtain x where x: "RdmaPacketParser_parse des u = Some x" "bth_dest_qp (p_bth x) = n" "mine (bth_opcode (p_bth x))"
    using Cons.prems(5) by (auto simp: packet_for_def)
  obtain r p1 s1 where step: "process (proc e) (side_of e qp) x = (r, p1, s1)" by (metis prod_cases3)
  have xs: "parse_all des (u # us) = x # parse_all des us" using x(1) by (simp add: parse_all_def map_filter_simps)
  obtain rs1 where runs: "run p1 s1 (parse_all des us) = (rs1, p, s)" and rs: "rs = r # rs1"
    using Cons.prems(6) step unfolding xs by (auto simp: run_Cons split: prod.splits)
  have ok: "success r" using Cons.prems(7) rs by simp
  define e' where "e' = snd (process_incoming_packet ser des e u)"
  note e' = incoming_accepted [OF Cons.prems(3,4) x step ok, of ser, folded e'_def]
  have k: "qp_key (side_qp s1) = qp_key qp" using key [OF step] by (simp add: side_of_def)
  have all: "receive_all ser des (u # us) e = receive_all ser des us e'" by (simp add: receive_all_def e'_def)
  show ?case
  proof (cases "us = []")
    case True
    then show ?thesis using runs rs k e'(1,3-6) e'(7) [OF Cons.prems(1)] all by (auto simp add: receive_all_def parse_all_def map_filter_simps run_Nil split: option.splits)
  next
    case False
    have "rs1 \<noteq> []" using runs False Cons.prems(5)
      by (cases us) (auto simp: parse_all_def map_filter_simps packet_for_def run_Cons split: prod.splits)
    then have last: "List.last rs = List.last rs1" by (simp add: rs)
    have cfg: "qp_config (side_qp s1) = qp_config qp" using k by (simp add: qp_key_def)
    have "run (proc e') (side_of e' (side_qp s1)) (parse_all des us) = (rs1, p, s)" using runs e'(2,3) by simp
    note ih = Cons.IH [OF Cons.prems(1) False e'(1,4) _ this, unfolded cfg]
    have ip: "dest_ip (side_qp s1) = dest_ip qp" using k by (simp add: qp_key_def)
    show ?thesis
    proof (intro conjI impI)
      show "side_of (receive_all ser des (u # us) e) (side_qp s) = s" "reliability_manager (receive_all ser des (u # us) e) = reliability_manager e"
        "enabled (receive_all ser des (u # us) e)" "um_lookup (qps (receive_all ser des (u # us) e)) n = Some (side_qp s)" "qp_key (side_qp s) = qp_key qp"
        "cqs (receive_all ser des (u # us) e) = fold (\<lambda>r cs. case cqe r of None \<Rightarrow> cs | Some c \<Rightarrow> post_cq (cq (qp_config qp)) c cs) rs (cqs e)"
        unfolding all using ih Cons.prems(5,7) rs k e'(5,6) by (simp_all split: option.splits)
      assume "needs_ack (List.last rs) \<and> (\<forall>r \<in> set (butlast rs). \<not> needs_ack r)"
      then have quiet: "\<not> needs_ack r" "needs_ack (List.last rs1) \<and> (\<forall>r \<in> set (butlast rs1). \<not> needs_ack r)"
        using \<open>rs1 \<noteq> []\<close> rs by simp_all
      obtain cs where "cnps_to des (dest_ip qp) cs" "outgoing_packets e' = outgoing_packets e @ cs" using e'(7) [OF Cons.prems(1)] quiet(1) by auto
      moreover obtain cs' where "cnps_to des (dest_ip qp) cs'" "outgoing_packets (receive_all ser des us e') =
          outgoing_packets e' @ cs' @ [ack_packet ser qp (ack_psn (List.last rs)) (syndrome (List.last rs))]"
        unfolding last using ih quiet(2) Cons.prems(5,7) by (auto simp: rs ip ack_packet_key [OF k])
      ultimately show "\<exists>cs. cnps_to des (dest_ip qp) cs \<and> outgoing_packets (receive_all ser des (u # us) e) =
          outgoing_packets e @ cs @ [ack_packet ser qp (ack_psn (List.last rs)) (syndrome (List.last rs))]"
        unfolding all by (intro exI [of _ "cs @ cs'"]) (auto simp: cnps_to_def)
    qed
  qed
qed simp

end

interpretation send_proc: packet_processor send_recv_processor "\<lambda>p. send_recv_processor_update (\<lambda>_. p)" process_recv_packet recv_run
    is_send_opcode r_success r_needs_ack r_ack_psn r_syndrome r_cqe recv_cq_number
proof (unfold_locales, goal_cases)
  case (11 x e qp r p s ser n)
  then have "snd (dispatch_packet ser e n qp x) = RdmaEngine_process_send_packet ser e n qp x"
    by (auto simp: dispatch_packet_def is_send_opcode_def Let_def)
  with 11 show ?case by (simp add: RdmaEngine_process_send_packet_def accepted_def Let_def split: option.split)
qed (auto simp: core_def put_side_def process_recv_same)

interpretation write_proc: packet_processor write_processor "\<lambda>p. write_processor_update (\<lambda>_. p)" process_write_packet write_run
    is_write_opcode w_success w_needs_ack w_ack_psn w_syndrome w_recv_cqe recv_cq_number
proof (unfold_locales, goal_cases)
  case (11 x e qp r p s ser n)
  then have "snd (dispatch_packet ser e n qp x) = RdmaEngine_process_write_packet ser e n qp x"
    by (auto simp: dispatch_packet_def is_write_opcode_def Let_def)
  with 11 show ?case by (simp add: RdmaEngine_process_write_packet_def accepted_def Let_def split: option.split)
qed (auto simp: core_def put_side_def process_write_same)

definition is_response_opcode :: "RdmaOpcode \<Rightarrow> bool" where
  "is_response_opcode op \<longleftrightarrow> op \<in> {kRcReadResponseOnly, kRcReadResponseFirst, kRcReadResponseMiddle, kRcReadResponseLast}"

interpretation response_proc: packet_processor read_processor "\<lambda>p. read_processor_update (\<lambda>_. p)" process_read_response read_run
    is_response_opcode rr_success "\<lambda>_. False" "\<lambda>_. 0" "\<lambda>_. 0" rr_cqe send_cq_number
proof (unfold_locales, goal_cases)
  case (11 x e qp r p s ser n)
  then have "snd (dispatch_packet ser e n qp x) = RdmaEngine_process_read_response_packet e n qp x"
    by (auto simp: dispatch_packet_def is_response_opcode_def Let_def)
  with 11 show ?case by (simp add: RdmaEngine_process_read_response_packet_def accepted_def Let_def split: option.split)
qed (auto simp: core_def put_side_def process_response_same)

section \<open>The sending engine\<close>

lemma queue_all:
  fixes packets :: "bytes list"
  defines "f \<equiv> \<lambda>qp packet e. queue_outgoing_packet packet qp
      (e\<lparr>eng_stats := (eng_stats e)\<lparr>es_bytes_sent := es_bytes_sent (eng_stats e) + of_nat (length packet)\<rparr>\<rparr>)"
  shows "outgoing_packets (fold (f qp) packets e) = outgoing_packets e @ map (packet_to qp) packets
    \<and> core (fold (f qp) packets e) = core e \<and> cqs (fold (f qp) packets e) = cqs e \<and> eng_config (fold (f qp) packets e) = eng_config e"
proof (induction packets arbitrary: e)
  case (Cons packet packets)
  then show ?case by (simp add: f_def) (simp add: queue_outgoing_packet_def packet_to_def)
qed simp

definition last_psn :: "u32 \<Rightarrow> nat \<Rightarrow> u32" where
  "last_psn start k = (if k > 1 then (start + of_nat k - 1) AND 0xFFFFFF else start)"

lemma last_psn_advance:
  assumes "psn_ok start" "0 < k"
  shows "last_psn start k = advance_psn start (of_nat (k - 1))"
proof (cases "k = 1")
  case True
  then show ?thesis using assms(1) by (simp add: last_psn_def advance_psn_0)
next
  case False
  then have "(of_nat (k - 1) :: u32) = of_nat k - 1" using assms(2) by (simp add: of_nat_diff)
  then show ?thesis using False assms(2) by (simp add: last_psn_def advance_psn_def kMaxPsn_def algebra_simps)
qed

lemma post_send_effect:
  assumes "enabled a" "um_lookup (qps a) i = Some qa" "RdmaQueuePair_can_send qa" "generate_packets ser a i qa wqe = (packets, put_side i s a0)"
    and "packets \<noteq> []" "qps a0 = qps a" "cqs a0 = cqs a" "eng_config a0 = eng_config a" "outgoing_packets a0 = outgoing_packets a"
      "reliability_manager a0 = reliability_manager a"
  shows "\<exists>a'. RdmaEngine_post_send ser a i wqe = (True, a')
    \<and> outgoing_packets a' = outgoing_packets a @ map (packet_to qa) packets
    \<and> um_lookup (qps a') i = Some (side_qp s) \<and> side_of a' (side_qp s) = s \<and> cqs a' = cqs a \<and> eng_config a' = eng_config a
    \<and> read_processor a' = read_processor a0
    \<and> reliability_manager a' = add_pending (reliability_manager a) i (sq_psn qa) (last_psn (sq_psn qa) (length packets))
        (swqe_wr_id wqe) (swqe_opcode wqe) 0"
proof -
  define e2 where "e2 = (put_side i s a0)\<lparr>reliability_manager := add_pending (reliability_manager a) i (sq_psn qa)
      (last_psn (sq_psn qa) (length packets)) (swqe_wr_id wqe) (swqe_opcode wqe) 0\<rparr>"
  have "core e2 = (side_memory s, side_mrs s, um_update i (side_qp s) (qps a),
      add_pending (reliability_manager a) i (sq_psn qa) (last_psn (sq_psn qa) (length packets)) (swqe_wr_id wqe) (swqe_opcode wqe) 0,
      send_recv_processor a0, write_processor a0, read_processor a0)"
    "cqs e2 = cqs a" "eng_config e2 = eng_config a" "outgoing_packets e2 = outgoing_packets a"
    using assms(6-9) by (simp_all add: e2_def core_def put_side_def)
  note e2 = this
  define e3 where "e3 = fold (\<lambda>packet e. queue_outgoing_packet packet qa
      (e\<lparr>eng_stats := (eng_stats e)\<lparr>es_bytes_sent := es_bytes_sent (eng_stats e) + of_nat (length packet)\<rparr>\<rparr>)) packets e2"
  note q = queue_all [where qp = qa and packets = packets and e = e2, folded e3_def]
  have "reliability_manager (put_side i s a0) = reliability_manager a" using assms(10) by (simp add: put_side_def)
  then have "RdmaEngine_post_send ser a i wqe = (True, count_packets_sent (length packets)
      (e3\<lparr>eng_stats := (eng_stats e3)\<lparr>es_send_wqes_posted := es_send_wqes_posted (eng_stats e3) + 1\<rparr>\<rparr>))"
    using assms(1-5) by (simp add: RdmaEngine_post_send_def Let_def e3_def e2_def last_psn_def)
  then show ?thesis using q e2 by (simp add: count_packets_sent_def core_def side_of_def)
qed

text \<open>An ACK at the sender completes the requests the reliability manager reports, in order.\<close>

definition send_cqe :: "u32 \<Rightarrow> u64 \<Rightarrow> RdmaCqe" where
  "send_cqe n wr_id = RdmaCqe_default\<lparr>cqe_wr_id := wr_id, cqe_status := WsSuccess, cqe_qp_number := n\<rparr>"

lemma incoming_ack:
  assumes "enabled e" "um_lookup (qps e) n = Some qp" "RdmaPacketParser_parse des u = Some x" "bth_dest_qp (p_bth x) = n"
    and "bth_opcode (p_bth x) = kRcAck" "p_aeth x = Some ah" "aeth_syndrome ah = asAck"
    and "process_ack (reliability_manager e) (qp_number qp) (bth_psn (p_bth x)) = (r, rm)"
  shows "cqs (snd (process_incoming_packet ser des e u)) =
      fold (\<lambda>wr_id. post_cq (send_cq_number (qp_config qp)) (send_cqe (qp_number qp) wr_id)) (completed_wr_ids r) (cqs e)"
    "reliability_manager (snd (process_incoming_packet ser des e u)) = rm" "qps (snd (process_incoming_packet ser des e u)) = qps e"
proof -
  let ?d = "\<lambda>wr_id. deliver_cqe (send_cq_number (qp_config qp)) (send_cqe (qp_number qp) wr_id)"
  have del: "cqs (fold ?d ws e0) = fold (\<lambda>wr_id. post_cq (send_cq_number (qp_config qp)) (send_cqe (qp_number qp) wr_id)) ws (cqs e0)
      \<and> core (fold ?d ws e0) = core e0" for ws e0
    by (induction ws arbitrary: e0) simp_all
  define e1 where "e1 = notify_congestion ser e n qp"
  have e1: "reliability_manager e1 = reliability_manager e" "cqs e1 = cqs e" "qps e1 = qps e"
    using core_simps(5) [of ser e n qp] by (simp_all add: core_def e1_def)
  define e2 where "e2 = e1\<lparr>eng_stats := (eng_stats e1)\<lparr>es_packets_received := es_packets_received (eng_stats e1) + 1,
      es_bytes_received := es_bytes_received (eng_stats e1) + of_nat (length u)\<rparr>, reliability_manager := rm\<rparr>"
  have eq: "snd (process_incoming_packet ser des e u) = fold ?d (completed_wr_ids r) e2"
    using assms e1 by (simp add: process_incoming_packet_def dispatch_packet_def RdmaEngine_process_ack_packet_def Let_def
        send_cqe_def e2_def flip: e1_def)
  show "cqs (snd (process_incoming_packet ser des e u)) =
      fold (\<lambda>wr_id. post_cq (send_cq_number (qp_config qp)) (send_cqe (qp_number qp) wr_id)) (completed_wr_ids r) (cqs e)"
    unfolding eq using del [of "completed_wr_ids r" e2] e1 by (simp add: e2_def)
  have "reliability_manager e2 = rm" "qps e2 = qps e" by (simp_all add: e2_def e1)
  then show "reliability_manager (snd (process_incoming_packet ser des e u)) = rm" "qps (snd (process_incoming_packet ser des e u)) = qps e"
    unfolding eq using del [of "completed_wr_ids r" e2] by (simp_all add: core_def)
qed

section \<open>The packets on the wire\<close>

lemma masked24: "unat (n :: u32) < 2 ^ 24 \<Longrightarrow> n AND 0xFFFFFF = n"
  using unat_and_kMaxPsn [of n] by (simp add: kMaxPsn_def word_unat_eq_iff)

lemma send_builder_dest:
  "b_dest_qp (send_builder q wqe imm f l psn c) = q AND 0xFFFFFF" "b_dest_qp (zero_send_builder q wqe imm psn) = q AND 0xFFFFFF"
  by (simp_all add: send_builder_def zero_send_builder_def builder_setters RdmaPacketBuilder_new_def Let_def)

lemma send_builders_for:
  "\<forall>b \<in> set (send_builders qp wqe data). b_dest_qp b = dest_qp_number qp AND 0xFFFFFF \<and> is_send_opcode (b_opcode b)"
  using message_builders_all [of "\<lambda>b. b_dest_qp b = dest_qp_number qp AND 0xFFFFFF \<and> is_send_opcode (b_opcode b)"
      "send_builder (dest_qp_number qp) wqe (swqe_opcode wqe = WqSendImm)"]
  by (simp add: send_builders_def Let_def send_builder_dest send_builder_fields send_opcode_classes)

lemma parse_sound:
  "bit_packer ser des \<Longrightarrow> sound_builder b \<Longrightarrow> RdmaPacketParser_parse des (RdmaPacketBuilder_build ser b) = Some (parsed_builder b)"
  by (rule bit_packer.parse_built) (auto simp: sound_builder_def builder_reachable_ok)

lemma packets_for:
  assumes "bit_packer ser des" "unat n < 2 ^ 24" "\<forall>b \<in> set bs. sound_builder b" "\<forall>b \<in> set bs. b_dest_qp b = n AND 0xFFFFFF \<and> mine (b_opcode b)"
  shows "\<forall>u \<in> set (map (RdmaPacketBuilder_build ser) bs). packet_for mine des n u"
proof
  fix u assume "u \<in> set (map (RdmaPacketBuilder_build ser) bs)"
  then obtain b where b: "b \<in> set bs" "u = RdmaPacketBuilder_build ser b" by auto
  moreover from this have "b_dest_qp b = n" "mine (b_opcode b)" using assms(4) masked24 [OF assms(2)] by simp_all
  ultimately show "packet_for mine des n u"
    using parse_sound [OF assms(1), of b] assms(3) by (auto simp: packet_for_def parsed_builder_def)
qed

lemmas sends_for = packets_for [OF _ _ send_builders_sound send_builders_for]

lemma ack_parsed:
  assumes "bit_packer ser des" "unat (dest_qp_number qp) < 2 ^ 24" "psn_ok psn"
  shows "\<exists>x ah. RdmaPacketParser_parse des (RdmaPacketBuilder_build ser (ack_builder qp psn asAck)) = Some x \<and>
    bth_dest_qp (p_bth x) = dest_qp_number qp \<and> bth_opcode (p_bth x) = kRcAck \<and> bth_psn (p_bth x) = psn \<and>
    p_aeth x = Some ah \<and> aeth_syndrome ah = asAck"
proof -
  have "sound_builder (ack_builder qp psn asAck)"
    unfolding sound_builder_def
    by (rule conjI, unfold ack_builder_def, intro builder_reachable.intros)
       (simp add: opcode_defs builder_setters RdmaPacketBuilder_new_def)
  from parse_sound [OF assms(1) this] show ?thesis
    using masked24 [OF assms(2)] masked24 [OF assms(3)]
    by (simp add: parsed_builder_def ack_builder_def builder_setters RdmaPacketBuilder_new_def opcode_defs kMaxPsn_def)
qed

lemma fold_answers: "f x = id \<Longrightarrow> fold f (replicate k x @ [y]) cs = f y cs"
  by (induction k arbitrary: cs) simp_all

lemma deliver_message:
  "fold (\<lambda>r cs. case r_cqe r of None \<Rightarrow> cs | Some c \<Rightarrow> post_cq n c cs) (replicate k (RecvResult_default\<lparr>r_success := True\<rparr>) @ [recv_answer wqe imm q r psn]) cs
     = post_cq n (recv_cqe q wqe imm r) cs"
  by (subst fold_answers) (simp_all add: fun_eq_iff recv_answer_def RecvResult_default_def)

text \<open>A single pending operation is completed by the ACK of its last packet.\<close>

lemma ack_of_only_op:
  assumes "ops_of m n = []"
  shows "completed_wr_ids (fst (process_ack (add_pending m n s e wr op t) n e)) = [wr]"
    "ops_of (snd (process_ack (add_pending m n s e wr op t) n e)) n = []"
  using assms by (simp_all add: process_ack_conv ops_of_add fully_acked_def)

section \<open>A message from one engine at the other\<close>

lemma peer_receives:
  assumes packer: "bit_packer ser des" and op: "swqe_opcode wqe \<in> {WqSend, WqSendImm}"
    and data: "fst (read_from_sgl (eng_memory a) (swqe_sgl wqe) (local_lkey wqe) (mr_table a)) = data"
    and len: "length data = unat (swqe_total_length wqe)"
    and size: "unat (swqe_total_length wqe) + unat (RdmaQueuePair_mtu_bytes qa) \<le> 2 ^ 32"
    and psn: "psn_ok (sq_psn qa)" and dest: "dest_qp_number qa = j" "unat j < 2 ^ 24"
    and gen: "generate_send_packets ser (send_recv_processor a) (side_of a qa) wqe = (packets, p, s)"
    and b: "enabled b" "um_lookup (qps b) j = Some qb" "qp_number qb = j" "RdmaQueuePair_can_receive qb"
      "rq_psn qb = sq_psn qa" "recv_queue qb = r # rest" "sgl_target None (rwqe_sgl r) (eng_memory b) (mr_table b)"
      "length data \<le> length (sgl_bytes (rwqe_sgl r))"
  shows "packets \<noteq> []"
    and "eng_memory (receive_all ser des packets b) = (eng_memory b)\<lparr>mem_buffer :=
      poke (take (length data) (sgl_bytes (rwqe_sgl r))) data (mem_buffer (eng_memory b))\<rparr>"
    and "cqs (receive_all ser des packets b) =
      post_cq (recv_cq_number (qp_config qb)) (recv_cqe j wqe (swqe_opcode wqe = WqSendImm) r) (cqs b)"
    and "\<exists>cs. cnps_to des (dest_ip qb) cs \<and> outgoing_packets (receive_all ser des packets b) =
      outgoing_packets b @ cs @ [ack_packet ser qb (advance_psn (sq_psn qa) (of_nat (length packets - 1))) asAck]"
proof -
  let ?A = "side_of a qa" and ?B = "side_of b qb" and ?psn = "advance_psn (sq_psn qa) (of_nat (length packets - 1))"
  have side: "side_memory ?A = eng_memory a" "side_mrs ?A = mr_table a" "side_qp ?A = qa"
    "side_memory ?B = eng_memory b" "side_mrs ?B = mr_table b" "side_qp ?B = qb" by (simp_all add: side_of_def)
  have h: "fst (read_from_sgl (side_memory ?A) (swqe_sgl wqe) (local_lkey wqe) (side_mrs ?A)) = data" "length data = unat (swqe_total_length wqe)"
    "unat (swqe_total_length wqe) + unat (RdmaQueuePair_mtu_bytes (side_qp ?A)) \<le> 2 ^ 32" "psn_ok (sq_psn (side_qp ?A))"
    unfolding side by (rule data len size psn)+
  have g: "rq_psn (side_qp ?B) = sq_psn (side_qp ?A)" "RdmaQueuePair_can_receive (side_qp ?B)" "recv_queue (side_qp ?B) = r # rest"
    "sgl_target None (rwqe_sgl r) (side_memory ?B) (side_mrs ?B)" "length data \<le> length (sgl_bytes (rwqe_sgl r))"
    unfolding side by (rule b)+
  show ne: "packets \<noteq> []" by (rule send_packets_nonempty [OF op h gen])
  have built: "packets = map (RdmaPacketBuilder_build ser) (send_builders qa wqe data)"
    using generate_send_builders [OF op h, of ser "send_recv_processor a"] gen by (auto simp: side)
  obtain rs q' s' where run: "recv_run (send_recv_processor b) ?B (parse_all des packets) = (rs, q', s')"
    and rs: "rs = replicate (length packets - 1) (RecvResult_default\<lparr>r_success := True\<rparr>)
      @ [recv_answer wqe (swqe_opcode wqe = WqSendImm) j r ?psn]"
    and mem: "side_memory s' = (eng_memory b)\<lparr>mem_buffer := poke (take (length data) (sgl_bytes (rwqe_sgl r))) data (mem_buffer (eng_memory b))\<rparr>"
    using send_delivers [OF packer op h g gen, of "send_recv_processor b"] b(3) unfolding side by blast
  have for_j: "\<forall>u \<in> set packets. packet_for is_send_opcode des j u" using sends_for [OF packer, of qa wqe data] dest built by simp
  have succ: "\<forall>r \<in> set rs. r_success r" by (auto simp: rs recv_answer_def)
  note recv = send_proc.receive_message [OF packer ne b(1,2) for_j run succ]
  show "eng_memory (receive_all ser des packets b) = (eng_memory b)\<lparr>mem_buffer :=
      poke (take (length data) (sgl_bytes (rwqe_sgl r))) data (mem_buffer (eng_memory b))\<rparr>"
    using recv mem by (metis RdmaSide.select_convs(1) side_of_def)
  show "cqs (receive_all ser des packets b) =
      post_cq (recv_cq_number (qp_config qb)) (recv_cqe j wqe (swqe_opcode wqe = WqSendImm) r) (cqs b)"
    using recv unfolding rs deliver_message by blast
  show "\<exists>cs. cnps_to des (dest_ip qb) cs \<and> outgoing_packets (receive_all ser des packets b) = outgoing_packets b @ cs @ [ack_packet ser qb ?psn asAck]"
    using recv by (simp add: rs recv_answer_def RecvResult_default_def)
qed

text \<open>The ACK of the last packet back at the sender, which has no other request outstanding.\<close>

lemma ack_completes:
  assumes packer: "bit_packer ser des" and e: "enabled e" "um_lookup (qps e) i = Some qp" "qp_number qp = i"
    and ack: "dest_qp_number qb = i" "unat i < 2 ^ 24" "psn_ok psn"
    and rel: "reliability_manager e = add_pending m i s psn wr op t" "ops_of m i = []"
  defines "e' \<equiv> snd (process_incoming_packet ser des e (RdmaPacketBuilder_build ser (ack_builder qb psn asAck)))"
  shows "cqs e' = post_cq (send_cq_number (qp_config qp)) (send_cqe i wr) (cqs e)" "ops_of (reliability_manager e') i = []"
    "qps e' = qps e"
proof -
  obtain x ah where x: "RdmaPacketParser_parse des (RdmaPacketBuilder_build ser (ack_builder qb psn asAck)) = Some x"
    "bth_dest_qp (p_bth x) = i" "bth_opcode (p_bth x) = kRcAck" "bth_psn (p_bth x) = psn" "p_aeth x = Some ah" "aeth_syndrome ah = asAck"
    using ack_parsed [OF packer, of qb psn] ack by auto
  obtain res rm where pr: "process_ack (reliability_manager e) (qp_number qp) (bth_psn (p_bth x)) = (res, rm)" by (metis surj_pair)
  then have "completed_wr_ids res = [wr]" "ops_of rm i = []"
    using ack_of_only_op [OF rel(2)] unfolding rel(1) e(3) x(4) by (metis fst_conv snd_conv)+
  with incoming_ack [OF e(1,2) x(1-3,5,6) pr, of ser] show
    "cqs e' = post_cq (send_cq_number (qp_config qp)) (send_cqe i wr) (cqs e)" "ops_of (reliability_manager e') i = []"
    "qps e' = qps e"
    by (simp_all add: e'_def e(3))
qed

text \<open>Every request whose packets are generated is appended to the queue pair's own list of pending operations.\<close>

lemma pending_simps [simp]:
  "pending_operations (snd (RdmaQueuePair_next_send_psn q)) = pending_operations q" "pending_operations (RdmaQueuePair_record_packet_sent q k) = pending_operations q"
  "map po_wqe (pending_operations (RdmaQueuePair_add_pending_operation q wqe n)) = map po_wqe (pending_operations q) @ [wqe]"
  by (simp_all add: RdmaQueuePair_next_send_psn_def RdmaQueuePair_record_packet_sent_def RdmaQueuePair_add_pending_operation_def)

lemma pending_next: "RdmaQueuePair_next_send_psn q = (psn, q') \<Longrightarrow> pending_operations q' = pending_operations q"
  using pending_simps(1) [of q] by simp

lemmas packet_loop_pending = packet_loop_keeps [of pending_operations, OF pending_simps(1,2)]

lemma generate_send_pending:
  "generate_send_packets ser p s wqe = (ps, p', s') \<Longrightarrow> ps \<noteq> [] \<Longrightarrow>
   map po_wqe (pending_operations (side_qp s')) = map po_wqe (pending_operations (side_qp s)) @ [wqe]"
  by (auto simp: generate_send_packets_def Let_def split: prod.splits if_splits dest!: packet_loop_pending pending_next)

text \<open>The sender's half of an exchange: a request whose packets are generated is queued, and the acknowledgement of its last packet, after any
  notification packets, adds exactly its completion and leaves the reliability manager no request of the queue pair. The queue pair's own list of pending operations keeps
  the request: the engine does not hand acknowledgements to the queue pair.\<close>

abbreviation request_done :: "u32 \<Rightarrow> RdmaQueuePair \<Rightarrow> RdmaCompletionQueue \<Rightarrow> SendWqe \<Rightarrow> RdmaEngine \<Rightarrow> bool" where
  "request_done i qa sa wqe a2 \<equiv>
     (\<exists>cq. um_lookup (cqs a2) (send_cq_number (qp_config qa)) = Some cq \<and> cqes cq = cqes sa @ [send_cqe i (swqe_wr_id wqe)]) \<and>
     ops_of (reliability_manager a2) i = [] \<and>
     (\<exists>q. um_lookup (qps a2) i = Some q \<and> map po_wqe (pending_operations q) = map po_wqe (pending_operations qa) @ [wqe])"

lemma request_acked:
  assumes packer: "bit_packer ser des"
    and a: "enabled a" "um_lookup (qps a) i = Some qa" "qp_number qa = i" "RdmaQueuePair_can_send qa"
      "psn_ok (sq_psn qa)" "ops_of (reliability_manager a) i = []"
      "um_lookup (cqs a) (send_cq_number (qp_config qa)) = Some sa" "length (cqes sa) < cq_depth sa"
    and gen: "generate_packets ser a i qa wqe = (packets, put_side i s a0)" "packets \<noteq> []" "qp_key (side_qp s) = qp_key qa"
      "map po_wqe (pending_operations (side_qp s)) = map po_wqe (pending_operations qa) @ [wqe]"
      "qps a0 = qps a" "cqs a0 = cqs a" "eng_config a0 = eng_config a" "outgoing_packets a0 = outgoing_packets a"
      "reliability_manager a0 = reliability_manager a"
    and peer: "dest_qp_number qb = i" "unat i < 2 ^ 24" "psn = advance_psn (sq_psn qa) (of_nat (length packets - 1))"
    and post: "RdmaEngine_post_send ser a i wqe = (ok, a1)"
  shows "ok \<and> outgoing_packets a1 = outgoing_packets a @ map (packet_to qa) packets \<and>
    (\<forall>a' us. core a' = core a1 \<longrightarrow> cqs a' = cqs a1 \<longrightarrow> eng_config a' = eng_config a1 \<longrightarrow> (\<forall>u \<in> set us. is_cnp des u) \<longrightarrow>
      (let a2 = receive_all ser des (us @ [out_data (ack_packet ser qb psn asAck)]) a' in
       request_done i qa sa wqe a2))"
proof -
  have a1: "ok" "outgoing_packets a1 = outgoing_packets a @ map (packet_to qa) packets" "um_lookup (qps a1) i = Some (side_qp s)" "cqs a1 = cqs a" "enabled a1"
    "reliability_manager a1 = add_pending (reliability_manager a) i (sq_psn qa) psn (swqe_wr_id wqe) (swqe_opcode wqe) 0"
    using post_send_effect [OF a(1,2,4) gen(1,2,5-9)] post a(1) last_psn_advance [OF a(5), of "length packets"] gen(2) by (auto simp: peer(3))
  have key: "qp_number (side_qp s) = i" "qp_config (side_qp s) = qp_config qa" using gen(3) a(3) by (simp_all add: qp_key_def)
  have "psn_ok psn" by (simp add: peer(3))
  have "request_done i qa sa wqe a2"
    if a': "core a' = core a1" "cqs a' = cqs a1" "eng_config a' = eng_config a1" and us: "\<forall>u \<in> set us. is_cnp des u"
      and a2: "a2 = receive_all ser des (us @ [out_data (ack_packet ser qb psn asAck)]) a'" for a' a2 us
  proof -
    define a3 where "a3 = receive_all ser des us a'"
    have "core a3 = core a1 \<and> cqs a3 = cqs a1 \<and> eng_config a3 = eng_config a1"
      using receive_cnps [OF us, of ser a'] a' by (simp add: a3_def)
    then have a3: "enabled a3" "um_lookup (qps a3) i = Some (side_qp s)" "cqs a3 = cqs a"
      "reliability_manager a3 = add_pending (reliability_manager a) i (sq_psn qa) psn (swqe_wr_id wqe) (swqe_opcode wqe) 0"
      using a1 by (simp_all add: core_def)
    have "a2 = snd (process_incoming_packet ser des a3 (RdmaPacketBuilder_build ser (ack_builder qb psn asAck)))"
      by (simp add: a2 a3_def receive_all_def ack_packet_def)
    with ack_completes [OF packer a3(1,2) key(1) peer(1,2) \<open>psn_ok psn\<close> a3(4) a(6)] post_cq_room [OF a(7,8)] show ?thesis
      by (simp add: a3(2,3) key(2) gen(4))
  qed
  with a1 show ?thesis by (simp add: Let_def)
qed

text \<open>Both directions together: what the sender queues, what the receiver does with it and answers, and what the answer does at the sender,
  also after notification packets that arrived before it.\<close>

lemma send_completes:
  assumes packer: "bit_packer ser des"
    and a: "enabled a" "um_lookup (qps a) i = Some qa" "qp_number qa = i" "dest_qp_number qa = j" "RdmaQueuePair_can_send qa"
      "psn_ok (sq_psn qa)" "ops_of (reliability_manager a) i = []" "outgoing_packets a = []"
      "um_lookup (cqs a) (send_cq_number (qp_config qa)) = Some sa" "length (cqes sa) < cq_depth sa"
    and op: "swqe_opcode wqe \<in> {WqSend, WqSendImm}"
    and data: "fst (read_from_sgl (eng_memory a) (swqe_sgl wqe) (local_lkey wqe) (mr_table a)) = data"
    and len: "length data = unat (swqe_total_length wqe)"
    and size: "unat (swqe_total_length wqe) + unat (RdmaQueuePair_mtu_bytes qa) \<le> 2 ^ 32"
    and b: "enabled b" "um_lookup (qps b) j = Some qb" "qp_number qb = j" "dest_qp_number qb = i" "RdmaQueuePair_can_receive qb"
      "rq_psn qb = sq_psn qa" "recv_queue qb = r # rest" "sgl_target None (rwqe_sgl r) (eng_memory b) (mr_table b)"
      "length data \<le> length (sgl_bytes (rwqe_sgl r))"
      "um_lookup (cqs b) (recv_cq_number (qp_config qb)) = Some rb" "length (cqes rb) < cq_depth rb"
    and numbers: "unat i < 2 ^ 24" "unat j < 2 ^ 24"
    and post: "RdmaEngine_post_send ser a i wqe = (ok, a1)"
  shows "\<exists>packets cs psn. ok \<and> outgoing_packets a1 = map (packet_to qa) packets \<and> cnps_to des (dest_ip qb) cs \<and>
    outgoing_packets (receive_all ser des packets b) = outgoing_packets b @ cs @ [ack_packet ser qb psn asAck] \<and>
    eng_memory (receive_all ser des packets b) = (eng_memory b)\<lparr>mem_buffer :=
      poke (take (length data) (sgl_bytes (rwqe_sgl r))) data (mem_buffer (eng_memory b))\<rparr> \<and>
    (\<exists>cq. um_lookup (cqs (receive_all ser des packets b)) (recv_cq_number (qp_config qb)) = Some cq \<and>
      cqes cq = cqes rb @ [recv_cqe j wqe (swqe_opcode wqe = WqSendImm) r]) \<and>
    (\<forall>a' us. core a' = core a1 \<longrightarrow> cqs a' = cqs a1 \<longrightarrow> eng_config a' = eng_config a1 \<longrightarrow> (\<forall>u \<in> set us. is_cnp des u) \<longrightarrow>
      (let a2 = receive_all ser des (us @ [out_data (ack_packet ser qb psn asAck)]) a' in
       request_done i qa sa wqe a2))"
proof -
  obtain packets p s where gen: "generate_send_packets ser (send_recv_processor a) (side_of a qa) wqe = (packets, p, s)"
    by (metis prod_cases3)
  note peer = peer_receives [OF packer op data len size a(6,4) numbers(2) gen b(1-3,5-9)]
  define psn where "psn = advance_psn (sq_psn qa) (of_nat (length packets - 1))"
  obtain cs where cs: "cnps_to des (dest_ip qb) cs"
    "outgoing_packets (receive_all ser des packets b) = outgoing_packets b @ cs @ [ack_packet ser qb psn asAck]"
    using peer(4) by (auto simp: psn_def)
  have "generate_packets ser a i qa wqe = (packets, put_side i s (a\<lparr>send_recv_processor := p\<rparr>))" "qp_key (side_qp s) = qp_key qa"
    "map po_wqe (pending_operations (side_qp s)) = map po_wqe (pending_operations qa) @ [wqe]"
    using gen op generate_send_same [OF gen] generate_send_pending [OF gen peer(1)] by (auto simp: generate_packets_def side_of_def)
  from request_acked [OF packer a(1-3,5-7,9,10) this(1) peer(1) this(2,3) _ _ _ _ _ b(4) numbers(1) psn_def post]
  have "ok \<and> outgoing_packets a1 = map (packet_to qa) packets \<and>
    (\<forall>a' us. core a' = core a1 \<longrightarrow> cqs a' = cqs a1 \<longrightarrow> eng_config a' = eng_config a1 \<longrightarrow> (\<forall>u \<in> set us. is_cnp des u) \<longrightarrow>
      (let a2 = receive_all ser des (us @ [out_data (ack_packet ser qb psn asAck)]) a' in
       request_done i qa sa wqe a2))"
    using a(8) by simp
  moreover have "\<exists>cq. um_lookup (cqs (receive_all ser des packets b)) (recv_cq_number (qp_config qb)) = Some cq \<and>
      cqes cq = cqes rb @ [recv_cqe j wqe (swqe_opcode wqe = WqSendImm) r]"
    unfolding peer(3) by (rule post_cq_room [OF b(10,11)])
  ultimately show ?thesis
    using peer(2) cs by (intro exI [of _ packets] exI [of _ cs] exI [of _ psn] conjI) auto
qed

section \<open>A sample engine\<close>

definition sample_engine :: "bytes \<Rightarrow> bytes \<Rightarrow> RdmaEngine" where
  "sample_engine ip bs = (RdmaEngine_new RdmaEngineConfig_default (sample_memory bs))\<lparr>mr_table := sample_mrs,
     cqs := [(0, RdmaCompletionQueue_new 0 4)], qps := [(1, (side_qp (sample_side bs))\<lparr>dest_qp_number := 1, dest_ip := ip\<rparr>)]\<rparr>"

abbreviation sample_qp :: "bytes \<Rightarrow> RdmaQueuePair" where
  "sample_qp ip \<equiv> (RdmaQueuePair_new 1 RdmaQpConfig_default)\<lparr>qp_state := QpRts, recv_queue := [sample_recv], dest_qp_number := 1, dest_ip := ip\<rparr>"

lemma sample_engine_fields:
  "enabled (sample_engine ip bs)" "um_lookup (qps (sample_engine ip bs)) 1 = Some (sample_qp ip)"
  "ops_of (reliability_manager (sample_engine ip bs)) 1 = []" "outgoing_packets (sample_engine ip bs) = []"
  "um_lookup (cqs (sample_engine ip bs)) 0 = Some (RdmaCompletionQueue_new 0 4)"
  "eng_memory (sample_engine ip bs) = sample_memory bs" "mr_table (sample_engine ip bs) = sample_mrs"
  by (simp_all add: sample_engine_def RdmaEngine_new_def RdmaEngineConfig_default_def ops_of_def ReliabilityManager_new_def sample_side_def)

lemma sample_qp_fields:
  "qp_number (sample_qp ip) = 1" "dest_qp_number (sample_qp ip) = 1" "RdmaQueuePair_can_send (sample_qp ip)" "psn_ok (sq_psn (sample_qp ip))"
  "RdmaQueuePair_can_receive (sample_qp ip)" "rq_psn (sample_qp ip) = sq_psn (sample_qp ip')" "recv_queue (sample_qp ip) = [sample_recv]"
  "send_cq_number (qp_config (sample_qp ip)) = 0" "recv_cq_number (qp_config (sample_qp ip)) = 0"
  by (simp_all add: RdmaQueuePair_new_def RdmaQpConfig_default_def RdmaQueuePair_can_send_def RdmaQueuePair_can_receive_def)

lemma sample_cqs:
  "um_lookup (cqs (sample_engine ip bs)) (send_cq_number (qp_config (sample_qp ip))) = Some (RdmaCompletionQueue_new 0 4)"
  "um_lookup (cqs (sample_engine ip bs)) (recv_cq_number (qp_config (sample_qp ip))) = Some (RdmaCompletionQueue_new 0 4)"
  unfolding sample_qp_fields by (rule sample_engine_fields)+

lemma sample_request:
  "swqe_opcode sample_send_req \<in> {WqSend, WqSendImm}" "length [5, 6, 7 :: byte] = unat (swqe_total_length sample_send_req)"
  "unat (swqe_total_length sample_send_req) + unat (RdmaQueuePair_mtu_bytes (sample_qp ip)) \<le> 2 ^ 32" "swqe_wr_id sample_send_req = 5"
  by (simp_all add: sample_send_req_def sample_send_def RdmaQueuePair_mtu_bytes_def RdmaQueuePair_new_def)

lemma sample_buffers:
  fixes ip ip' :: bytes
  defines "a \<equiv> sample_engine ip [0, 1, 2, 3, 4, 5, 6, 7, 8, 9, 10, 11]" and "b \<equiv> sample_engine ip' [0, 0, 0, 0, 0, 0, 0, 0, 0, 0, 0, 0]"
  shows "fst (read_from_sgl (eng_memory a) (swqe_sgl sample_send_req) (local_lkey sample_send_req) (mr_table a)) = [5, 6, 7]"
    "sgl_target None (rwqe_sgl sample_recv) (eng_memory b) (mr_table b)" "sgl_bytes (rwqe_sgl sample_recv) = [4, 5, 8, 9, 10]"
proof -
  show "fst (read_from_sgl (eng_memory a) (swqe_sgl sample_send_req) (local_lkey sample_send_req) (mr_table a)) = [5, 6, 7]"
    unfolding a_def sample_engine_fields using sample_read [of "[0, 1, 2, 3, 4, 5, 6, 7, 8, 9, 10, 11]"]
    by (simp add: sample_send_req_def sample_side_def)
  show "sgl_target None (rwqe_sgl sample_recv) (eng_memory b) (mr_table b)"
    unfolding b_def sample_engine_fields using sample_flat [of "[0, 0, 0, 0, 0, 0, 0, 0, 0, 0, 0, 0]"]
    by (simp add: sgl_target_def sample_recv_def) (simp add: sample_defs)
  show "sgl_bytes (rwqe_sgl sample_recv) = [4, 5, 8, 9, 10]"
    by (simp add: sgl_bytes_def sge_bytes_def sample_recv_def upt_rec)
qed

lemma sample_room:
  "length (cqes (RdmaCompletionQueue_new 0 4)) < cq_depth (RdmaCompletionQueue_new 0 4)"
  "length [5, 6, 7 :: byte] \<le> length (sgl_bytes (rwqe_sgl sample_recv))" "cqes (RdmaCompletionQueue_new 0 4) = []" "unat (1 :: u32) < 2 ^ 24"
  by (simp_all add: RdmaCompletionQueue_new_def sample_buffers)

end
