(* ===== verification/Nic_Device.thy ===== *)
theory Nic_Device
  imports Nic_Queue_Manager Nic_Vf_Device Nic_Rss Nic_Config_Space Rocev2_End_To_End
begin

text \<open>
  The device (\<^verbatim>\<open>device.h/.cpp\<close>): configuration space, register file, host memory with its DMA engine, queue pair or queue manager,
  receive-side scaling, interrupt dispatcher and RDMA engine, as the configuration asks for. An object that the configuration
  injects is a pointer in the code; here the device starts with its state and is its only user, and an injected DMA engine is one over the
  device's memory. The theory shows that the device is well formed after every call, and what a reset establishes.
\<close>

section \<open>Configuration\<close>

record DeviceIdentity =
  vendor_id :: u16
  device_id :: u16
  revision_id :: u8

record DeviceConfig =
  dc_identity :: DeviceIdentity
  dc_name :: string
  dc_bars :: "Bar list"
  dc_capabilities :: CapabilityList
  host_memory_config :: HostMemoryConfig
  dc_host_memory :: "SimpleHostMemory option"
  dc_dma_engine :: "DMAEngine option"
  enable_queue_pair :: bool
  queue_pair_config :: QueuePairConfig
  dc_queue_pair :: "QueuePair option"
  enable_queue_manager :: bool
  queue_manager_config :: "QueuePairConfig list"
  dc_queue_manager :: "QueueManager option"
  dc_rss_config :: RssConfig
  dc_rss_engine :: "RssEngine option"
  dc_msix_table :: MsixTable
  dc_msix_mapping :: MsixMapping
  interrupt_coalesce :: CoalesceConfig
  dc_interrupt_dispatcher :: "InterruptDispatcher option"
  enable_rdma :: bool
  rdma_config :: RdmaEngineConfig
  dc_rdma_engine :: "RdmaEngine option"

definition default_queue_pair_config :: QueuePairConfig where
  "default_queue_pair_config =
     \<lparr>qpc_queue_id = 0,
      qpc_tx_ring = \<lparr>descriptor_size = sizeof_TxDescriptor, ring_size = 64, base_address = 0, ring_queue_id = 0, host_backed = False\<rparr>,
      qpc_rx_ring = \<lparr>descriptor_size = sizeof_RxDescriptor, ring_size = 64, base_address = 0, ring_queue_id = 0, host_backed = False\<rparr>,
      qpc_tx_completion = \<lparr>cq_ring_size = 64, cq_queue_id = 0\<rparr>, qpc_rx_completion = \<lparr>cq_ring_size = 64, cq_queue_id = 0\<rparr>,
      qpc_tx_doorbell = None, qpc_rx_doorbell = None, qpc_tx_completion_doorbell = None, qpc_rx_completion_doorbell = None,
      has_dispatcher = False, qpc_weight = 1, max_mtu = kJumboMtu, enable_tx_interrupts = False, enable_rx_interrupts = True\<rparr>"

definition DeviceConfig_default :: "DeviceIdentity \<Rightarrow> DeviceConfig" where
  "DeviceConfig_default identity =
     \<lparr>dc_identity = identity, dc_name = ''nic-model'', dc_bars = MakeDefaultBars, dc_capabilities = MakeDefaultCapabilities,
      host_memory_config = \<lparr>size_bytes = 2 ^ 20, page_size = 4096, iommu_enabled = False\<rparr>, dc_host_memory = None,
      dc_dma_engine = None, enable_queue_pair = True, queue_pair_config = default_queue_pair_config, dc_queue_pair = None,
      enable_queue_manager = False, queue_manager_config = [], dc_queue_manager = None,
      dc_rss_config = \<lparr>rss_key = [], rss_table = []\<rparr>, dc_rss_engine = None, dc_msix_table = MsixTable_new 0,
      dc_msix_mapping = MsixMapping_new 0 0, interrupt_coalesce = \<lparr>packet_threshold = 1, timer_threshold_us = 0\<rparr>,
      dc_interrupt_dispatcher = None, enable_rdma = False, rdma_config = RdmaEngineConfig_default, dc_rdma_engine = None\<rparr>"

datatype DeviceState = Uninitialized | Resetting | Ready | DevError

record Device =
  dev_config :: DeviceConfig
  dev_state :: DeviceState
  dev_config_space :: ConfigSpace
  dev_register_file :: RegisterFile
  dev_env :: NicEnv
  dev_queue_pair :: "QueuePair option"
  dev_queue_manager :: "QueueManager option"
  dev_rss_engine :: RssEngine
  dev_rdma_engine :: "RdmaEngine option"

section \<open>Construction and reset\<close>

definition runtime_dma :: "DeviceConfig \<Rightarrow> DMAEngine" where
  "runtime_dma c =
     (case dc_dma_engine c of
        Some e \<Rightarrow> e
      | None \<Rightarrow> DMAEngine_new (case dc_host_memory c of Some m \<Rightarrow> m | None \<Rightarrow> SimpleHostMemory_new (host_memory_config c) None None))"

definition runtime_queue_manager :: "DeviceConfig \<Rightarrow> QueueManager" where
  "runtime_queue_manager c =
     (case dc_queue_manager c of
        Some m \<Rightarrow> m
      | None \<Rightarrow> QueueManager_new (map (\<lambda>q. q\<lparr>has_dispatcher := dc_interrupt_dispatcher c \<noteq> None\<rparr>) (queue_manager_config c)))"

definition runtime_queue_pair :: "DeviceConfig \<Rightarrow> QueuePair" where
  "runtime_queue_pair c =
     (case dc_queue_pair c of
        Some q \<Rightarrow> q
      | None \<Rightarrow>
          let q = queue_pair_config c
          in QueuePair_new (q\<lparr>qpc_queue_id := 0, qpc_tx_ring := (qpc_tx_ring q)\<lparr>ring_queue_id := 0\<rparr>,
               qpc_rx_ring := (qpc_rx_ring q)\<lparr>ring_queue_id := 0\<rparr>, qpc_tx_completion := (qpc_tx_completion q)\<lparr>cq_queue_id := 0\<rparr>,
               qpc_rx_completion := (qpc_rx_completion q)\<lparr>cq_queue_id := 0\<rparr>, has_dispatcher := dc_interrupt_dispatcher c \<noteq> None\<rparr>))"

definition runtime_dispatcher :: "DeviceConfig \<Rightarrow> InterruptDispatcher" where
  "runtime_dispatcher c =
     (case dc_interrupt_dispatcher c of
        Some d \<Rightarrow> d
      | None \<Rightarrow> InterruptDispatcher_new (dc_msix_table c) (dc_msix_mapping c) (interrupt_coalesce c) True)"

text \<open>\<^verbatim>\<open>initialize_runtime\<close>, called by the constructor. The RDMA engine refers to the same memory as the DMA engine: the model keeps it with the DMA
  engine, and \<open>with_rdma\<close> below hands it to the RDMA engine for the time of a call.\<close>

definition Device_new :: "DeviceConfig \<Rightarrow> Device" where
  "Device_new c =
     (let managed = enable_queue_manager c \<and> queue_manager_config c \<noteq> []; dma = runtime_dma c
      in \<lparr>dev_config = (if managed \<and> dc_queue_manager c = None
            then c\<lparr>queue_manager_config := map (\<lambda>q. q\<lparr>has_dispatcher := dc_interrupt_dispatcher c \<noteq> None\<rparr>) (queue_manager_config c)\<rparr> else c),
          dev_state = Uninitialized, dev_config_space = ConfigSpace_new, dev_register_file = RegisterFile_new,
          dev_env = \<lparr>env_dma = dma, env_intr = runtime_dispatcher c\<rparr>,
          dev_queue_pair = (if managed then None
            else if enable_queue_pair c then Some (QueuePair_reset_stats (runtime_queue_pair c)) else None),
          dev_queue_manager = (if managed then Some (runtime_queue_manager c) else None),
          dev_rss_engine = (case dc_rss_engine c of Some r \<Rightarrow> r | None \<Rightarrow> RssEngine_new (dc_rss_config c)),
          dev_rdma_engine = (if enable_rdma c
            then Some (case dc_rdma_engine c of Some e \<Rightarrow> e | None \<Rightarrow> RdmaEngine_new (rdma_config c) (dma_memory dma)) else None)\<rparr>)"

definition initialize_config_space :: "le_library \<Rightarrow> Device \<Rightarrow> Device" where
  "initialize_config_space lib dev =
     dev\<lparr>dev_config_space := ConfigSpace_initialize lib (vendor_id (dc_identity (dev_config dev))) (device_id (dc_identity (dev_config dev)))
           (revision_id (dc_identity (dev_config dev))) (dc_bars (dev_config dev)) (dc_capabilities (dev_config dev)) (dev_config_space dev)\<rparr>"

definition initialize_register_file :: "Device \<Rightarrow> Device" where
  "initialize_register_file dev =
     dev\<lparr>dev_register_file := RegisterFile_reset (add_registers MakeDefaultNicRegisters (dev_register_file dev))\<rparr>"

definition Device_reset :: "le_library \<Rightarrow> Device \<Rightarrow> Device" where
  "Device_reset lib dev =
     (let d1 = dev\<lparr>dev_state := Resetting\<rparr>;
          d2 = initialize_register_file (initialize_config_space lib d1);
          d3 = d2\<lparr>dev_queue_pair := map_option (\<lambda>q. QueuePair_reset_stats (QueuePair_reset q)) (dev_queue_pair d2)\<rparr>;
          d4 = d3\<lparr>dev_queue_manager := map_option QueueManager_reset (dev_queue_manager d3)\<rparr>
      in d4\<lparr>dev_state := Ready\<rparr>)"

definition is_initialized :: "Device \<Rightarrow> bool" where
  "is_initialized dev \<longleftrightarrow> dev_state dev = Ready"

section \<open>Access\<close>

definition read_config8 :: "Device \<Rightarrow> u16 \<Rightarrow> u8" where
  "read_config8 dev offset = ConfigSpace_read8 (dev_config_space dev) offset"

definition read_config16 :: "le_library \<Rightarrow> Device \<Rightarrow> u16 \<Rightarrow> u16" where
  "read_config16 lib dev offset = ConfigSpace_read16 lib (dev_config_space dev) offset"

definition read_config32 :: "le_library \<Rightarrow> Device \<Rightarrow> u16 \<Rightarrow> u32" where
  "read_config32 lib dev offset = ConfigSpace_read32 lib (dev_config_space dev) offset"

definition write_config8 :: "u16 \<Rightarrow> u8 \<Rightarrow> Device \<Rightarrow> Device" where
  "write_config8 offset v dev = dev\<lparr>dev_config_space := ConfigSpace_write8 offset v (dev_config_space dev)\<rparr>"

definition write_config16 :: "le_library \<Rightarrow> u16 \<Rightarrow> u16 \<Rightarrow> Device \<Rightarrow> Device" where
  "write_config16 lib offset v dev = dev\<lparr>dev_config_space := ConfigSpace_write16 lib offset v (dev_config_space dev)\<rparr>"

definition write_config32 :: "le_library \<Rightarrow> u16 \<Rightarrow> u32 \<Rightarrow> Device \<Rightarrow> Device" where
  "write_config32 lib offset v dev = dev\<lparr>dev_config_space := ConfigSpace_write32 lib offset v (dev_config_space dev)\<rparr>"

definition read_register :: "Device \<Rightarrow> u32 \<Rightarrow> u32" where
  "read_register dev offset = RegisterFile_read32 (dev_register_file dev) offset"

definition write_register :: "u32 \<Rightarrow> u32 \<Rightarrow> Device \<Rightarrow> Device" where
  "write_register offset v dev = dev\<lparr>dev_register_file := RegisterFile_write32 (dev_register_file dev) offset v\<rparr>"

definition queue_pair_stats :: "Device \<Rightarrow> QueuePairStats" where
  "queue_pair_stats dev = (case dev_queue_pair dev of None \<Rightarrow> QueuePairStats_zero | Some q \<Rightarrow> QueuePair.qp_stats q)"

definition queue_manager_stats :: "Device \<Rightarrow> QueueManagerStats" where
  "queue_manager_stats dev = (case dev_queue_manager dev of None \<Rightarrow> QueueManagerStats_zero | Some m \<Rightarrow> QueueManager_stats m)"

definition device_rss_stats :: "Device \<Rightarrow> RssStats" where
  "device_rss_stats dev = rss_stats (dev_rss_engine dev)"

definition interrupt_stats :: "Device \<Rightarrow> InterruptStats" where
  "interrupt_stats dev = id_stats (env_intr (dev_env dev))"

definition on_dispatcher :: "(InterruptDispatcher \<Rightarrow> bool \<times> InterruptDispatcher) \<Rightarrow> Device \<Rightarrow> bool \<times> Device" where
  "on_dispatcher f dev =
     (let (ok, d) = f (env_intr (dev_env dev)) in (ok, dev\<lparr>dev_env := (dev_env dev)\<lparr>env_intr := d\<rparr>\<rparr>))"

definition set_msix_queue_vector :: "u16 \<Rightarrow> u16 \<Rightarrow> Device \<Rightarrow> bool \<times> Device" where
  "set_msix_queue_vector queue_id vector_id = on_dispatcher (\<lambda>d. InterruptDispatcher_set_queue_vector d queue_id vector_id)"

definition mask_msix_vector :: "u16 \<Rightarrow> bool \<Rightarrow> Device \<Rightarrow> bool \<times> Device" where
  "mask_msix_vector vector_id masked = on_dispatcher (\<lambda>d. InterruptDispatcher_mask_vector d vector_id masked)"

definition enable_msix_vector :: "u16 \<Rightarrow> bool \<Rightarrow> Device \<Rightarrow> bool \<times> Device" where
  "enable_msix_vector vector_id on = on_dispatcher (\<lambda>d. InterruptDispatcher_enable_vector d vector_id on)"

definition process_queue_once :: "Device \<Rightarrow> bool \<times> Device" where
  "process_queue_once dev =
     (case dev_queue_pair dev of
        None \<Rightarrow> (False, dev)
      | Some q \<Rightarrow> let (worked, q', env') = QueuePair_process_once (q, dev_env dev)
                 in (worked, dev\<lparr>dev_queue_pair := Some q', dev_env := env'\<rparr>))"

text \<open>A call of the RDMA engine: it works on the device's memory.\<close>

definition with_rdma :: "(RdmaEngine \<Rightarrow> 'r \<times> RdmaEngine) \<Rightarrow> 'r \<Rightarrow> Device \<Rightarrow> 'r \<times> Device" where
  "with_rdma f fail dev =
     (case dev_rdma_engine dev of
        None \<Rightarrow> (fail, dev)
      | Some e \<Rightarrow>
          let (r, e') = f (e\<lparr>eng_memory := dma_memory (env_dma (dev_env dev))\<rparr>)
          in (r, dev\<lparr>dev_rdma_engine := Some e',
                dev_env := (dev_env dev)\<lparr>env_dma := (env_dma (dev_env dev))\<lparr>dma_memory := eng_memory e'\<rparr>\<rparr>\<rparr>))"

text \<open>What the callers do with the queue pair the device hands out: push descriptors.\<close>

definition with_queue_pair :: "(QueuePair \<times> NicEnv \<Rightarrow> QueuePair \<times> NicEnv) \<Rightarrow> Device \<Rightarrow> Device" where
  "with_queue_pair f dev =
     (case dev_queue_pair dev of
        None \<Rightarrow> dev
      | Some q \<Rightarrow> let (q', env') = f (q, dev_env dev) in dev\<lparr>dev_queue_pair := Some q', dev_env := env'\<rparr>)"

section \<open>Registers after a reset\<close>

definition fresh_registers :: RegisterFile where
  "fresh_registers = RegisterFile_reset (add_registers MakeDefaultNicRegisters RegisterFile_new)"

text \<open>The device adds the same registers at every reset and never sets a write callback.\<close>

definition regs_ok :: "RegisterFile \<Rightarrow> bool" where
  "regs_ok f \<longleftrightarrow> (registers f = [] \<or> registers f = registers fresh_registers) \<and> \<not> has_write_callback f \<and> write_log f = []"

lemma regs_ok_new: "regs_ok RegisterFile_new"
  by (simp add: regs_ok_def RegisterFile_new_def)

lemma fresh_map: "registers fresh_registers = map (\<lambda>d. (reg_offset d, d)) MakeDefaultNicRegisters"
  by (simp add: fresh_registers_def RegisterFile_reset_def add_registers_def add_register_def RegisterFile_new_def
      MakeDefaultNicRegisters_def nic_reg_def)

lemma fresh_values: "reg_values fresh_registers = map (\<lambda>d. (reg_offset d, 0)) MakeDefaultNicRegisters"
  by (simp add: fresh_registers_def RegisterFile_reset_def add_registers_def add_register_def RegisterFile_new_def
      MakeDefaultNicRegisters_def nic_reg_def)

lemma regs_reset: "regs_ok f \<Longrightarrow> RegisterFile_reset (add_registers MakeDefaultNicRegisters f) = fresh_registers"
proof -
  assume "regs_ok f"
  then have "registers f = [] \<or> registers f = registers fresh_registers" and cb: "\<not> has_write_callback f" "write_log f = []"
    by (simp_all add: regs_ok_def)
  then have "registers (add_registers MakeDefaultNicRegisters f) = registers fresh_registers"
    by (auto simp: fresh_map add_registers_def add_register_def MakeDefaultNicRegisters_def nic_reg_def)
  moreover have "has_write_callback (add_registers ds g) = has_write_callback g \<and> write_log (add_registers ds g) = write_log g" for ds g
    unfolding add_registers_def by (induction ds arbitrary: g) (simp_all add: add_register_def)
  ultimately show ?thesis
    using cb by (intro RegisterFile.equality)
      (simp_all add: fresh_registers_def RegisterFile_reset_def RegisterFile_new_def)
qed

lemma regs_ok_fresh: "regs_ok fresh_registers"
proof -
  have "has_write_callback fresh_registers = False" "write_log fresh_registers = []" unfolding fresh_registers_def by code_simp+
  then show ?thesis by (simp add: regs_ok_def)
qed

lemma regs_ok_write: "regs_ok f \<Longrightarrow> regs_ok (RegisterFile_write32 f off v)"
  by (auto simp: regs_ok_def RegisterFile_write32_def RegisterFile_write64_def Let_def split: option.split)

lemma read_fresh: "RegisterFile_read32 fresh_registers off = (if off \<in> set (map reg_offset MakeDefaultNicRegisters) then 0 else 0xFFFFFFFF)"
  by (simp add: RegisterFile_read32_def fresh_map fresh_values MakeDefaultNicRegisters_def nic_reg_def)

section \<open>Well-formedness\<close>

definition dev_ok :: "Device \<Rightarrow> bool" where
  "dev_ok dev \<longleftrightarrow> dev_state dev \<in> {Uninitialized, Ready} \<and> cs_valid (dev_config_space dev) \<and> regs_ok (dev_register_file dev) \<and>
     (dev_queue_manager dev \<noteq> None \<longrightarrow> dev_queue_pair dev = None) \<and>
     (\<forall>q. dev_queue_pair dev = Some q \<longrightarrow> qp_ok q (env_dma (dev_env dev))) \<and>
     (\<forall>m. dev_queue_manager dev = Some m \<longrightarrow> qm_inv m) \<and> (\<forall>e. dev_rdma_engine dev = Some e \<longrightarrow> eng_ok e)"

text \<open>A usable configuration: the capability headers fit, and the queue pair and the injected objects are well formed.\<close>

definition config_ok :: "DeviceConfig \<Rightarrow> bool" where
  "config_ok c \<longleftrightarrow> caps_ok (dc_capabilities c) \<and> qp_ok (runtime_queue_pair c) (runtime_dma c) \<and>
     (\<forall>m. dc_queue_manager c = Some m \<longrightarrow> qm_inv m) \<and> (\<forall>e. dc_rdma_engine c = Some e \<longrightarrow> eng_ok e)"

datatype device_call =
    DevReset
  | DevWriteConfig8 u16 u8
  | DevWriteConfig16 u16 u16
  | DevWriteConfig32 u16 u32
  | DevWriteRegister u32 u32
  | DevSetQueueVector u16 u16
  | DevMaskVector u16 bool
  | DevEnableVector u16 bool
  | DevProcess
  | DevPushTx bytes
  | DevPushRx bytes

fun device_step :: "le_library \<Rightarrow> device_call \<Rightarrow> Device \<Rightarrow> Device" where
  "device_step lib DevReset dev = Device_reset lib dev"
| "device_step lib (DevWriteConfig8 off v) dev = write_config8 off v dev"
| "device_step lib (DevWriteConfig16 off v) dev = write_config16 lib off v dev"
| "device_step lib (DevWriteConfig32 off v) dev = write_config32 lib off v dev"
| "device_step lib (DevWriteRegister off v) dev = write_register off v dev"
| "device_step lib (DevSetQueueVector q v) dev = snd (set_msix_queue_vector q v dev)"
| "device_step lib (DevMaskVector v m) dev = snd (mask_msix_vector v m dev)"
| "device_step lib (DevEnableVector v e) dev = snd (enable_msix_vector v e dev)"
| "device_step lib DevProcess dev = snd (process_queue_once dev)"
| "device_step lib (DevPushTx bs) dev = with_queue_pair (push_tx bs) dev"
| "device_step lib (DevPushRx bs) dev = with_queue_pair (push_rx bs) dev"

lemma ring_inv_reset: "ring_inv (q, e) \<Longrightarrow> ring_inv (DescriptorRing_reset q, e)"
proof -
  have "slot_address (DescriptorRing_reset q) = slot_address q" by (simp add: fun_eq_iff slot_address_def DescriptorRing_reset_def)
  then have "slots_mapped (DescriptorRing_reset q) e = slots_mapped q e"
    by (simp add: slots_mapped_def slot_span_def DescriptorRing_reset_def)
  then show "ring_inv (q, e) \<Longrightarrow> ring_inv (DescriptorRing_reset q, e)"
    by (simp add: ring_inv.simps) (simp add: DescriptorRing_reset_def indices_ok_def)
qed

lemma qp_ok_reset: "qp_ok q e \<Longrightarrow> qp_ok (QueuePair_reset q) e"
  using ring_inv_reset by (auto simp: qp_ok_def QueuePair_reset_def) (simp_all add: DescriptorRing_reset_def)

lemma qp_ok_reset_stats [simp]: "qp_ok (QueuePair_reset_stats q) e = qp_ok q e"
  by (simp add: qp_ok_def QueuePair_reset_stats_def)

lemma dev_ok_new:
  assumes "config_ok c"
  shows "dev_ok (Device_new c)"
proof -
  have "cs_valid ConfigSpace_new" by (simp add: cs_valid_def ConfigSpace_new_def)
  moreover have "qm_inv (runtime_queue_manager c)"
    using assms qm_inv_new by (auto simp: runtime_queue_manager_def config_ok_def split: option.split)
  moreover have "eng_ok (RdmaEngine_new cfg mem)" for cfg mem
    by (simp add: eng_ok_def qps_ok_def cqs_ok_def RdmaEngine_new_def)
  ultimately show ?thesis
    using assms by (auto simp: dev_ok_def Device_new_def Let_def config_ok_def regs_ok_new split: option.split)
qed

lemma push_ring_ok:
  assumes "ring_inv (q, e)" and "DescriptorRing_push_descriptor q e bs = (r, q', e')"
  shows "ring_inv (q', e') \<and> same_span e e' \<and> ring_config q' = ring_config q"
proof (cases "length bs = descriptor_size (ring_config q) \<and> \<not> DescriptorRing_is_full q")
  case True
  then have "ring_inv (q', e')" using ring_push_cases [OF assms(1), of bs] assms(2) by auto
  with True show ?thesis
    using assms by (auto simp: DescriptorRing_push_descriptor_def Let_def split: prod.splits if_splits dest: write_same_span)
qed (use assms in \<open>auto simp: DescriptorRing_push_descriptor_def Let_def split: if_splits\<close>)

lemma push_qp_ok:
  assumes "qp_ok q (env_dma env)"
  shows "qp_ok (fst (push_tx bs (q, env))) (env_dma (snd (push_tx bs (q, env))))"
    "qp_ok (fst (push_rx bs (q, env))) (env_dma (snd (push_rx bs (q, env))))"
proof -
  obtain r ring e where p: "DescriptorRing_push_descriptor (qp_tx_ring q) (env_dma env) bs = (r, ring, e)" by (metis prod_cases3)
  obtain r' ring' e' where p': "DescriptorRing_push_descriptor (qp_rx_ring q) (env_dma env) bs = (r', ring', e')" by (metis prod_cases3)
  have "ring_inv (qp_tx_ring q, env_dma env)" "ring_inv (qp_rx_ring q, env_dma env)" using assms by (simp_all add: qp_ok_def)
  from push_ring_ok [OF this(1) p] push_ring_ok [OF this(2) p'] assms
  show "qp_ok (fst (push_tx bs (q, env))) (env_dma (snd (push_tx bs (q, env))))"
    "qp_ok (fst (push_rx bs (q, env))) (env_dma (snd (push_rx bs (q, env))))"
    using ring_inv_span [of "env_dma env" e "qp_rx_ring q"] ring_inv_span [of "env_dma env" e' "qp_tx_ring q"] p p'
    by (auto simp: qp_ok_def push_tx_def push_rx_def)
qed

lemma dev_ok_with_queue_pair:
  assumes "dev_ok dev" and "\<And>q. qp_ok q (env_dma (dev_env dev)) \<Longrightarrow>
    qp_ok (fst (f (q, dev_env dev))) (env_dma (snd (f (q, dev_env dev))))"
  shows "dev_ok (with_queue_pair f dev)"
  using assms by (auto simp: with_queue_pair_def dev_ok_def split_beta split: option.split)

lemma process_with_queue_pair: "snd (process_queue_once dev) = with_queue_pair (\<lambda>st. snd (QueuePair_process_once st)) dev"
  by (simp add: process_queue_once_def with_queue_pair_def split_beta split: option.split)

lemma dev_ok_process:
  assumes "dev_ok dev"
  shows "dev_ok (snd (process_queue_once dev))"
proof -
  have "qp_ok (fst (snd (QueuePair_process_once (q, env)))) (env_dma (snd (snd (QueuePair_process_once (q, env)))))"
    if "qp_ok q (env_dma env)" for q env
    using process_once_progress [OF that] by (metis prod.collapse)
  then show ?thesis unfolding process_with_queue_pair by (intro dev_ok_with_queue_pair [OF assms])
qed

lemma dev_ok_update:
  "dev_ok dev \<Longrightarrow> cs_valid c \<Longrightarrow> dev_ok (dev\<lparr>dev_config_space := c\<rparr>)"
  "dev_ok dev \<Longrightarrow> regs_ok f \<Longrightarrow> dev_ok (dev\<lparr>dev_register_file := f\<rparr>)"
  by (simp_all add: dev_ok_def)

lemma dev_okD: "dev_ok dev \<Longrightarrow> cs_valid (dev_config_space dev)" "dev_ok dev \<Longrightarrow> regs_ok (dev_register_file dev)"
  by (simp_all add: dev_ok_def)

lemma dev_ok_dispatcher: "dev_ok dev \<Longrightarrow> dev_ok (snd (on_dispatcher f dev))"
  by (auto simp: on_dispatcher_def dev_ok_def split: prod.split)

context le_bits
begin

lemma cs_valid_initialize: "caps_ok caps \<Longrightarrow> cs_valid (ConfigSpace_initialize lib v d r bars caps c)"
  by (erule initialize_stages [of caps v d r bars c]) (auto dest: same_bytes_valid)

lemma cs_valid_write:
  assumes "cs_valid c"
  shows "cs_valid (ConfigSpace_write8 off b c)" "cs_valid (ConfigSpace_write16 lib off h c)" "cs_valid (ConfigSpace_write32 lib off w c)"
  using assms by (auto simp: ConfigSpace_write8_def ConfigSpace_write16_def ConfigSpace_write32_def write_le)

lemma dev_ok_reset:
  assumes "dev_ok dev" "caps_ok (dc_capabilities (dev_config dev))"
  shows "dev_ok (Device_reset lib dev)"
  using assms cs_valid_initialize
  by (auto simp: Device_reset_def Let_def dev_ok_def initialize_register_file_def initialize_config_space_def regs_reset regs_ok_fresh
      qp_ok_reset qm_inv_reset)

lemma dev_config_step [simp]: "dev_config (device_step lib call dev) = dev_config dev"
  by (cases call) (auto simp: Device_reset_def Let_def initialize_register_file_def initialize_config_space_def write_config8_def
      write_config16_def write_config32_def write_register_def set_msix_queue_vector_def mask_msix_vector_def enable_msix_vector_def
      on_dispatcher_def process_queue_once_def with_queue_pair_def split: prod.split option.split)

lemma dev_state_step: "dev_state (device_step lib call dev) = (if call = DevReset then Ready else dev_state dev)"
  by (cases call) (auto simp: Device_reset_def Let_def write_config8_def
      write_config16_def write_config32_def write_register_def set_msix_queue_vector_def mask_msix_vector_def enable_msix_vector_def
      on_dispatcher_def process_queue_once_def with_queue_pair_def split: prod.split option.split)

lemma dev_ok_step:
  assumes "dev_ok dev" "caps_ok (dc_capabilities (dev_config dev))"
  shows "dev_ok (device_step lib call dev)"
proof (cases call)
  case DevReset
  then show ?thesis using dev_ok_reset [OF assms] by simp
next
  case (DevPushTx bs)
  then show ?thesis using dev_ok_with_queue_pair [OF assms(1), of "push_tx bs"] push_qp_ok by simp
next
  case (DevPushRx bs)
  then show ?thesis using dev_ok_with_queue_pair [OF assms(1), of "push_rx bs"] push_qp_ok by simp
next
  case DevProcess
  then show ?thesis using dev_ok_process [OF assms(1)] by simp
qed (simp_all add: assms dev_okD dev_ok_update cs_valid_write regs_ok_write dev_ok_dispatcher write_config8_def write_config16_def
    write_config32_def write_register_def set_msix_queue_vector_def mask_msix_vector_def enable_msix_vector_def)

lemma dev_run:
  assumes "dev_ok dev" "caps_ok (dc_capabilities (dev_config dev))"
  shows "dev_ok (fold (device_step lib) calls dev) \<and> dev_config (fold (device_step lib) calls dev) = dev_config dev \<and>
    dev_state (fold (device_step lib) calls dev) = (if DevReset \<in> set calls then Ready else dev_state dev)"
  using assms
proof (induction calls arbitrary: dev)
  case (Cons call calls)
  from Cons.IH [OF dev_ok_step [OF Cons.prems]] Cons.prems(2) dev_state_step [of call dev] show ?case by auto
qed simp

end

section \<open>What a reset establishes\<close>

lemma initialize_forgets: "ConfigSpace_initialize lib v d r bars caps c = ConfigSpace_initialize lib v d r bars caps c'"
proof -
  have "c\<lparr>cs_data := bs\<rparr> = c'\<lparr>cs_data := bs\<rparr>" for bs by (cases c, cases c') simp
  then show ?thesis unfolding ConfigSpace_initialize_def by (simp only:)
qed

lemma DescriptorRing_reset_twice [simp]: "DescriptorRing_reset (DescriptorRing_reset q) = DescriptorRing_reset q"
  by (simp add: DescriptorRing_reset_def)

lemma CompletionQueue_reset_twice [simp]: "CompletionQueue_reset (CompletionQueue_reset q) = CompletionQueue_reset q"
  by (simp add: CompletionQueue_reset_def)

lemma QueuePair_reset_twice [simp]: "QueuePair_reset (QueuePair_reset q) = QueuePair_reset q"
  by (simp add: QueuePair_reset_def)

lemma QueuePair_reset_stats_reset [simp]: "QueuePair_reset_stats (QueuePair_reset q) = QueuePair_reset q"
  by (simp add: QueuePair_reset_stats_def QueuePair_reset_def)

lemma QueueManager_reset_twice [simp]: "QueueManager_reset (QueueManager_reset m) = QueueManager_reset m"
  by (simp add: QueueManager_reset_def comp_def)

lemma Device_reset_alt:
  "regs_ok (dev_register_file dev) \<Longrightarrow> Device_reset lib dev =
     dev\<lparr>dev_state := Ready,
       dev_config_space := ConfigSpace_initialize lib (vendor_id (dc_identity (dev_config dev))) (device_id (dc_identity (dev_config dev)))
         (revision_id (dc_identity (dev_config dev))) (dc_bars (dev_config dev)) (dc_capabilities (dev_config dev)) ConfigSpace_new,
       dev_register_file := fresh_registers, dev_queue_pair := map_option QueuePair_reset (dev_queue_pair dev),
       dev_queue_manager := map_option QueueManager_reset (dev_queue_manager dev)\<rparr>"
  using initialize_forgets [of lib _ _ _ _ _ "dev_config_space dev" ConfigSpace_new]
  by (simp add: Device_reset_def Let_def initialize_register_file_def initialize_config_space_def regs_reset option.map_comp comp_def)

lemma Device_reset_twice:
  assumes "regs_ok (dev_register_file dev)"
  shows "Device_reset lib (Device_reset lib dev) = Device_reset lib dev"
proof -
  have "regs_ok (dev_register_file (Device_reset lib dev))" using assms regs_ok_fresh by (simp add: Device_reset_alt)
  then show ?thesis using assms by (simp add: Device_reset_alt option.map_comp comp_def)
qed

section \<open>Properties\<close>

lemma new_config [simp]: "dc_identity (dev_config (Device_new c)) = dc_identity c" "dc_capabilities (dev_config (Device_new c)) = dc_capabilities c"
  by (simp_all add: Device_new_def Let_def)

text \<open>C8: a device made from a usable configuration is well formed after every sequence of its calls and of descriptors pushed by its driver:
  the configuration space keeps its 4096 bytes, the register file its registers; it has a queue pair or a queue manager,
  never both; the rings of the queue pair are consistent and their descriptors large enough, the scheduler's indices and the tables of
  the RDMA engine are consistent. Between calls it is never in the states Resetting and Error, and it is ready exactly when it has been reset at
  least once.\<close>

theorem device_well_formed:
  assumes "le_bits lib" and "config_ok c"
  shows "dev_ok (fold (device_step lib) calls (Device_new c)) \<and>
    (is_initialized (fold (device_step lib) calls (Device_new c)) \<longleftrightarrow> DevReset \<in> set calls)"
proof -
  have "caps_ok (dc_capabilities c)" using assms(2) by (simp add: config_ok_def)
  with le_bits.dev_run [OF assms(1) dev_ok_new [OF assms(2)], of calls] show ?thesis
    by (simp add: is_initialized_def) (simp add: Device_new_def Let_def)
qed

lemma default_device_config_ok: "config_ok (DeviceConfig_default identity)"
  using default_caps_ok
  by (simp add: config_ok_def DeviceConfig_default_def runtime_queue_pair_def runtime_dma_def Let_def default_queue_pair_config_def qp_ok_def
      QueuePair_new_def DescriptorRing_new_def ring_inv.simps)

abbreviation sample_identity :: DeviceIdentity where
  "sample_identity \<equiv> \<lparr>vendor_id = 0x8086, device_id = 0x1572, revision_id = 2\<rparr>"

theorem device_well_formed_witness:
  "dev_ok (fold (device_step lsb_library) [DevReset, DevPushTx (replicate 32 0), DevProcess, DevWriteConfig16 0 7, DevMaskVector 3 True]
     (Device_new (DeviceConfig_default sample_identity)))"
  using device_well_formed [OF lsb.le_bits_axioms default_device_config_ok] by blast

text \<open>What a reset leaves of a queue pair: rings and completion queues are empty and the counters zero.\<close>

definition qp_cleared :: "QueuePair \<Rightarrow> bool" where
  "qp_cleared q \<longleftrightarrow> DescriptorRing_is_empty (qp_tx_ring q) \<and> DescriptorRing_is_empty (qp_rx_ring q) \<and>
     CompletionQueue_is_empty (qp_tx_completion q) \<and> CompletionQueue_is_empty (qp_rx_completion q) \<and> QueuePair.qp_stats q = QueuePairStats_zero"

lemma qp_cleared_reset [simp]: "qp_cleared (QueuePair_reset q)"
  by (simp add: qp_cleared_def QueuePair_reset_def DescriptorRing_reset_def CompletionQueue_reset_def DescriptorRing_is_empty_def CompletionQueue_is_empty_def)

lemma reset_config [simp]: "QueuePair.qp_config (QueuePair_reset q) = QueuePair.qp_config q"
  by (simp add: QueuePair_reset_def)

lemma add_zero_stats: "add_qp_stats s QueuePairStats_zero = s"
  by (simp add: add_qp_stats_def QueuePairStats_zero_def)

lemma manager_reset_stats: "QueueManager_stats (QueueManager_reset m) = QueueManagerStats_zero"
proof -
  have "foldl (\<lambda>out q. add_qp_stats out (QueuePair.qp_stats q)) s (map QueuePair_reset qs) = s" for s qs
    by (induction qs) (simp_all add: QueuePair_reset_def add_zero_stats)
  then show ?thesis by (simp add: QueueManager_stats_def QueueManager_reset_def QueueManagerStats_zero_def)
qed

text \<open>C31: whatever was done with a device, a reset makes it ready with the configured identity; the
  configuration space is byte by byte what it is after the first reset, and every register reads zero
  (and every offset without a register all ones). The queue pair keeps its configuration, its rings and completion queues are empty and its counters zero. A queue manager keeps
  its queue pairs with their configurations and weights, each of them is cleared in the same way, and its scheduler starts again at the first queue with that queue's weight and zero counters. The reset leaves host memory, DMA engine, interrupt dispatcher, receive side
  scaling and RDMA engine as they were, so the interrupt and receive side scaling counters keep their values. A second reset changes
  nothing.\<close>

theorem device_reset_restores:
  assumes "le_bits lib" and "config_ok c" and "dev = fold (device_step lib) calls (Device_new c)" and "dev' = Device_reset lib dev"
  shows "is_initialized dev' \<and> Device_reset lib dev' = dev' \<and>
    read_config16 lib dev' 0x00 = vendor_id (dc_identity c) \<and> read_config16 lib dev' 0x02 = device_id (dc_identity c) \<and>
    read_config8 dev' 0x08 = revision_id (dc_identity c) \<and>
    dev_config_space dev' = dev_config_space (Device_reset lib (Device_new c)) \<and>
    (\<forall>off. read_register dev' off = (if off \<in> set (map reg_offset MakeDefaultNicRegisters) then 0 else 0xFFFFFFFF)) \<and>
    (case dev_queue_pair dev of None \<Rightarrow> dev_queue_pair dev' = None
     | Some q \<Rightarrow> \<exists>q'. dev_queue_pair dev' = Some q' \<and> qp_cleared q' \<and> QueuePair.qp_config q' = QueuePair.qp_config q) \<and>
    (case dev_queue_manager dev of None \<Rightarrow> dev_queue_manager dev' = None
     | Some m \<Rightarrow> \<exists>m'. dev_queue_manager dev' = Some m' \<and> list_all qp_cleared (queue_pairs m') \<and>
         map QueuePair.qp_config (queue_pairs m') = map QueuePair.qp_config (queue_pairs m) \<and> weights m' = weights m \<and>
         scheduler_index m' = 0 \<and> scheduler_credit m' = (if queue_pairs m = [] then 0 else unat (hd (weights m)))) \<and>
    queue_pair_stats dev' = QueuePairStats_zero \<and> queue_manager_stats dev' = QueueManagerStats_zero \<and>
    dev_env dev' = dev_env dev \<and> interrupt_stats dev' = interrupt_stats dev \<and> device_rss_stats dev' = device_rss_stats dev \<and>
    dev_rss_engine dev' = dev_rss_engine dev \<and> dev_rdma_engine dev' = dev_rdma_engine dev"
proof -
  have caps: "caps_ok (dc_capabilities c)" using assms(2) by (simp add: config_ok_def)
  with le_bits.dev_run [OF assms(1) dev_ok_new [OF assms(2)], of calls] have dev: "dev_ok dev" "dev_config dev = dev_config (Device_new c)"
    by (simp_all add: assms(3))
  note alt = Device_reset_alt [OF dev_okD(2) [OF dev(1)], of lib, folded assms(4)]
    Device_reset_alt [OF dev_okD(2) [OF dev_ok_new [OF assms(2)]], of lib]
  have "Device_reset lib dev' = dev'" unfolding assms(4) by (rule Device_reset_twice [OF dev_okD(2) [OF dev(1)]])
  moreover have "read_register dev' off = (if off \<in> set (map reg_offset MakeDefaultNicRegisters) then 0 else 0xFFFFFFFF)" for off
  proof -
    have "dev_register_file dev' = fresh_registers" by (simp add: alt)
    then show ?thesis unfolding read_register_def by (simp only: read_fresh)
  qed
  moreover have "queue_pair_stats dev' = QueuePairStats_zero" "queue_manager_stats dev' = QueueManagerStats_zero"
    by (simp_all add: alt queue_pair_stats_def queue_manager_stats_def manager_reset_stats QueuePair_reset_def split: option.split)
  moreover have "case dev_queue_manager dev of None \<Rightarrow> dev_queue_manager dev' = None
     | Some m \<Rightarrow> \<exists>m'. dev_queue_manager dev' = Some m' \<and> list_all qp_cleared (queue_pairs m') \<and>
         map QueuePair.qp_config (queue_pairs m') = map QueuePair.qp_config (queue_pairs m) \<and> weights m' = weights m \<and>
         scheduler_index m' = 0 \<and> scheduler_credit m' = (if queue_pairs m = [] then 0 else unat (hd (weights m)))"
    by (simp add: alt QueueManager_reset_def list_all_iff split: option.split)
  ultimately show ?thesis
    using identity_kept [OF assms(1) caps, of "[]"]
    by (simp add: alt dev(2) is_initialized_def read_config16_def read_config8_def interrupt_stats_def device_rss_stats_def split: option.split)
qed

theorem device_reset_restores_witness:
  "read_config16 lsb_library (Device_reset lsb_library (fold (device_step lsb_library) [DevReset, DevWriteConfig16 7 9, DevWriteRegister 0x100 5]
     (Device_new (DeviceConfig_default sample_identity)))) 0x02 = 0x1572"
proof -
  have "device_id (dc_identity (DeviceConfig_default sample_identity)) = 0x1572" by (simp add: DeviceConfig_default_def)
  then show ?thesis
    using device_reset_restores [OF lsb.le_bits_axioms default_device_config_ok [of sample_identity] refl refl,
        of "[DevReset, DevWriteConfig16 7 9, DevWriteRegister 0x100 5]"] by (simp only:)
qed

section \<open>The default dispatcher\<close>

text \<open>A step of a queue pair without a dispatcher leaves the device's dispatcher alone.\<close>

definition quiet :: "qp_state \<Rightarrow> qp_state \<Rightarrow> bool" where
  "quiet st st' \<longleftrightarrow> QueuePair.qp_config (fst st') = QueuePair.qp_config (fst st) \<and>
     (\<not> has_dispatcher (QueuePair.qp_config (fst st)) \<longrightarrow> env_intr (snd st') = env_intr (snd st))"

lemma quiet_refl [simp]: "quiet st st"
  by (simp add: quiet_def)

lemma quiet_trans: "quiet st st' \<Longrightarrow> quiet st' st'' \<Longrightarrow> quiet st st''"
  by (simp add: quiet_def)

lemma quiet_frames [intro!]:
  "quiet st st' \<Longrightarrow> quiet st (post_rx en st')" "quiet st st' \<Longrightarrow> quiet st (post_tx en st')" "quiet st st' \<Longrightarrow> quiet st (qp_count f st')"
  "quiet st st' \<Longrightarrow> quiet st (fire_rx_interrupt en st')" "quiet st st' \<Longrightarrow> quiet st (fire_tx_interrupt en st')"
  by (auto simp: quiet_def post_rx_def post_tx_def qp_count_def fire_rx_interrupt_def fire_tx_interrupt_def split: prod.splits)

lemma quiet_dma [simp]: "quiet st (fst st, (snd st)\<lparr>env_dma := e\<rparr>)" "quiet (q, env) (q\<lparr>qp_rx_ring := r\<rparr>, env\<lparr>env_dma := e\<rparr>)"
  "quiet (q, env) (q\<lparr>qp_tx_ring := r\<rparr>, env\<lparr>env_dma := e\<rparr>)"
  by (simp_all add: quiet_def)

lemma quiet_drop [intro!]: "quiet st st' \<Longrightarrow> quiet st (tx_drop d c tso gso f st')"
  by (auto simp: tx_drop_def Let_def)

lemma quiet_handle_rx: "quiet st (snd (QueuePair_handle_rx_segment seg d r n tso gso st))"
  by (auto simp: QueuePair_handle_rx_segment_def Let_def split_beta)

lemma quiet_rx_loop: "quiet st (snd (rx_loop d n tso gso segs st))"
proof (induction segs arbitrary: st)
  case (Cons seg segs)
  obtain q env where st: "st = (q, env)" by fastforce
  obtain r bs ring e where pop: "DescriptorRing_pop_descriptor (qp_rx_ring q) (env_dma env)
      (replicate (descriptor_size (qpc_rx_ring (QueuePair.qp_config q))) 0) = (r, bs, ring, e)" by (metis prod_cases4)
  let ?st1 = "(q\<lparr>qp_rx_ring := ring\<rparr>, env\<lparr>env_dma := e\<rparr>)"
  have step: "quiet st (snd (QueuePair_handle_rx_segment sg d rd n tso gso ?st1))" for sg rd
    using quiet_trans [OF _ quiet_handle_rx [of ?st1]] st by simp
  show ?case
    using quiet_trans [OF step Cons.IH] step st pop by (auto simp: Let_def split_beta split: option.split)
qed simp

lemma quiet_process_segments: "quiet st (snd (QueuePair_process_segments d packet st))"
proof -
  have "quiet st (snd (QueuePair_build_segments st d packet))"
    by (auto simp: QueuePair_build_segments_def Let_def)
  moreover have "quiet st' (QueuePair_finalize_tx_success d n k tso gso st'')" if "quiet st' st''" for st' st'' n k tso gso
    using that by (auto simp: QueuePair_finalize_tx_success_def Let_def)
  ultimately show ?thesis
    using quiet_trans [OF _ quiet_rx_loop]
    by (auto simp: QueuePair_process_segments_def QueuePair_validate_mtu_def Let_def split_beta split: option.split)
qed

lemma quiet_process_once: "quiet st (snd (QueuePair_process_once st))"
proof -
  obtain q env where st: "st = (q, env)" by fastforce
  obtain r bs ring e where pop: "DescriptorRing_pop_descriptor (qp_tx_ring q) (env_dma env)
      (replicate (descriptor_size (qpc_tx_ring (QueuePair.qp_config q))) 0) = (r, bs, ring, e)" by (metis prod_cases4)
  let ?st1 = "(q\<lparr>qp_tx_ring := ring\<rparr>, env\<lparr>env_dma := e\<rparr>)"
  have st1: "quiet st ?st1" "quiet st (q\<lparr>qp_tx_ring := ring\<rparr>, env\<lparr>env_dma := e2\<rparr>)" for e2 using st by simp_all
  show ?thesis
    using st pop st1 quiet_trans [OF st1(2) quiet_process_segments]
    by (auto simp: QueuePair_process_once_def Let_def split_beta split: option.split)
qed

definition silent :: "Device \<Rightarrow> bool" where
  "silent dev \<longleftrightarrow> (\<forall>q. dev_queue_pair dev = Some q \<longrightarrow> \<not> has_dispatcher (QueuePair.qp_config q)) \<and> deliver_log (env_intr (dev_env dev)) = []"

lemma silent_with_queue_pair:
  assumes "silent dev" "\<And>q. quiet (q, dev_env dev) (f (q, dev_env dev))"
  shows "silent (with_queue_pair f dev)"
proof (cases "dev_queue_pair dev")
  case (Some q)
  then show ?thesis using assms(1) assms(2) [of q] by (auto simp: silent_def with_queue_pair_def quiet_def split_beta)
qed (use assms(1) in \<open>simp add: with_queue_pair_def\<close>)

lemma silent_push: "quiet (q, env) (push_tx bs (q, env))" "quiet (q, env) (push_rx bs (q, env))"
  by (simp_all add: quiet_def push_tx_def push_rx_def split_beta)

lemma silent_step: "silent dev \<Longrightarrow> silent (device_step lib call dev)"
proof (cases call)
  case DevProcess
  assume "silent dev"
  then show ?thesis
    using process_with_queue_pair [of dev] silent_with_queue_pair [OF \<open>silent dev\<close>, of "\<lambda>st. snd (QueuePair_process_once st)"] quiet_process_once DevProcess by simp
next
  case (DevPushTx bs)
  assume "silent dev"
  then show ?thesis using silent_with_queue_pair [of dev "push_tx bs"] silent_push DevPushTx by simp
next
  case (DevPushRx bs)
  assume "silent dev"
  then show ?thesis using silent_with_queue_pair [of dev "push_rx bs"] silent_push DevPushRx by simp
qed (auto simp: silent_def Device_reset_def Let_def initialize_register_file_def initialize_config_space_def QueuePair_reset_def
    QueuePair_reset_stats_def write_config8_def write_config16_def write_config32_def write_register_def set_msix_queue_vector_def
    mask_msix_vector_def enable_msix_vector_def on_dispatcher_def InterruptDispatcher_set_queue_vector_def
    InterruptDispatcher_mask_vector_def InterruptDispatcher_enable_vector_def split: prod.splits)

text \<open>The dispatcher that a device makes for itself is not handed to its queue pair, so it never delivers an interrupt, however the vectors are
  set up.\<close>

theorem default_dispatcher_silent:
  assumes "dc_interrupt_dispatcher c = None" and "dc_queue_pair c = None"
  shows "deliver_log (env_intr (dev_env (fold (device_step lib) calls (Device_new c)))) = []"
proof -
  have "silent (Device_new c)"
    using assms by (simp add: silent_def Device_new_def Let_def runtime_queue_pair_def QueuePair_new_def QueuePair_reset_stats_def
        runtime_dispatcher_def InterruptDispatcher_new_def)
  then have "silent (fold (device_step lib) calls (Device_new c))"
    by (induction calls rule: rev_induct) (simp_all add: silent_step)
  then show ?thesis by (simp add: silent_def)
qed

end
