(* ===== verification/Nic_Mmio.thy ===== *)
theory Nic_Mmio
  imports Nic_Device
begin

text \<open>
  The adapter between register accesses of a driver and the device (\<^verbatim>\<open>mmio_adapter.h/.cpp\<close>). Reads return constants and a write
  has an effect only when it sets the reset bit of the control register; the helper operations are sequences of such reads and
  writes. The theory shows that all an adapter can do to a device is to reset it, which operations do so, and for which queue identifiers the
  queue registers are distinct.
\<close>

section \<open>Offsets\<close>

definition DeviceControl :: u32 where "DeviceControl = 0x0000"
definition DeviceStatus :: u32 where "DeviceStatus = 0x0004"
definition InterruptCause :: u32 where "InterruptCause = 0x0008"
definition InterruptMask :: u32 where "InterruptMask = 0x000C"
definition MacAddrLow :: u32 where "MacAddrLow = 0x0100"
definition MacAddrHigh :: u32 where "MacAddrHigh = 0x0104"
definition MtuRegister :: u32 where "MtuRegister = 0x0108"
definition RssKey :: u32 where "RssKey = 0x0200"
definition RssIndirectionTable :: u32 where "RssIndirectionTable = 0x0300"
definition RssControl :: u32 where "RssControl = 0x0400"
definition TxQueueBase :: u32 where "TxQueueBase = 0x1000"
definition RxQueueBase :: u32 where "RxQueueBase = 0x2000"
definition OffloadControl :: u32 where "OffloadControl = 0x3000"
definition FlowControl :: u32 where "FlowControl = 0x3100"
definition PtpControl :: u32 where "PtpControl = 0x3200"
definition StatsBase :: u32 where "StatsBase = 0x4000"
definition VfControl :: u32 where "VfControl = 0x5000"

lemmas register_offsets =
  DeviceControl_def DeviceStatus_def InterruptCause_def InterruptMask_def MacAddrLow_def MacAddrHigh_def MtuRegister_def RssKey_def
  RssIndirectionTable_def RssControl_def TxQueueBase_def RxQueueBase_def OffloadControl_def FlowControl_def PtpControl_def
  StatsBase_def VfControl_def

definition ControlReset :: u32 where "ControlReset = push_bit 0 1"
definition StatusLinkUp :: u32 where "StatusLinkUp = push_bit 0 1"
definition StatusReady :: u32 where "StatusReady = push_bit 1 1"

definition QueueDescriptorBase :: u32 where "QueueDescriptorBase = 0x00"
definition QueueDescriptorLength :: u32 where "QueueDescriptorLength = 0x08"
definition QueueHead :: u32 where "QueueHead = 0x10"
definition QueueTail :: u32 where "QueueTail = 0x14"
definition QueueEnable :: u32 where "QueueEnable = 0x18"
definition QueueRegisterStride :: u32 where "QueueRegisterStride = 0x40"

lemmas queue_offsets =
  QueueDescriptorBase_def QueueDescriptorLength_def QueueHead_def QueueTail_def QueueEnable_def QueueRegisterStride_def

section \<open>Operations\<close>

definition mmio_read32 :: "u32 \<Rightarrow> u32" where
  "mmio_read32 offset =
     (if offset = DeviceStatus then StatusLinkUp OR StatusReady
      else if offset = InterruptCause then 0
      else if offset = MtuRegister then 1500
      else 0)"

definition mmio_write32 :: "le_library \<Rightarrow> u32 \<Rightarrow> u32 \<Rightarrow> Device \<Rightarrow> Device" where
  "mmio_write32 lib offset v dev =
     (if offset = DeviceControl then (if v AND ControlReset \<noteq> 0 then Device_reset lib dev else dev) else dev)"

definition mmio_read64 :: "u32 \<Rightarrow> u64" where
  "mmio_read64 offset = (push_bit 32 (ucast (mmio_read32 (offset + 4)))) OR ucast (mmio_read32 offset)"

definition mmio_write64 :: "le_library \<Rightarrow> u32 \<Rightarrow> u64 \<Rightarrow> Device \<Rightarrow> Device" where
  "mmio_write64 lib offset v dev =
     mmio_write32 lib (offset + 4) (ucast (drop_bit 32 v)) (mmio_write32 lib offset (ucast (v AND 0xFFFFFFFF)) dev)"

definition read_block :: "u32 \<Rightarrow> nat \<Rightarrow> u32 list" where
  "read_block offset n = map (\<lambda>i. mmio_read32 (offset + of_nat (i * 4))) [0..<n]"

definition write_block :: "le_library \<Rightarrow> u32 \<Rightarrow> u32 list \<Rightarrow> Device \<Rightarrow> Device" where
  "write_block lib offset buffer dev =
     fold (\<lambda>i. mmio_write32 lib (offset + of_nat (i * 4)) (buffer ! i)) [0..<length buffer] dev"

definition set_device_control :: "le_library \<Rightarrow> u32 \<Rightarrow> Device \<Rightarrow> Device" where
  "set_device_control lib bits = mmio_write32 lib DeviceControl (mmio_read32 DeviceControl OR bits)"

definition clear_device_control :: "le_library \<Rightarrow> u32 \<Rightarrow> Device \<Rightarrow> Device" where
  "clear_device_control lib bits = mmio_write32 lib DeviceControl (mmio_read32 DeviceControl AND NOT bits)"

definition get_device_status :: u32 where
  "get_device_status = mmio_read32 DeviceStatus"

definition set_mac_address :: "le_library \<Rightarrow> u32 \<Rightarrow> u32 \<Rightarrow> Device \<Rightarrow> Device" where
  "set_mac_address lib low high dev = mmio_write32 lib MacAddrHigh high (mmio_write32 lib MacAddrLow low dev)"

definition get_mac_address :: "u32 \<times> u32" where
  "get_mac_address = (mmio_read32 MacAddrLow, mmio_read32 MacAddrHigh)"

definition get_queue_register_offset :: "bool \<Rightarrow> u16 \<Rightarrow> u32 \<Rightarrow> u32" where
  "get_queue_register_offset is_tx queue_id reg =
     (let base = (if is_tx then TxQueueBase else RxQueueBase) in base + ucast queue_id * QueueRegisterStride + reg)"

definition configure_queue :: "le_library \<Rightarrow> bool \<Rightarrow> u16 \<Rightarrow> u64 \<Rightarrow> u32 \<Rightarrow> Device \<Rightarrow> Device" where
  "configure_queue lib is_tx queue_id base_addr len dev =
     (let queue_base_offset = get_queue_register_offset is_tx queue_id 0 in
      mmio_write32 lib (queue_base_offset + QueueDescriptorLength) len
        (mmio_write64 lib (queue_base_offset + QueueDescriptorBase) base_addr dev))"

definition enable_queue :: "le_library \<Rightarrow> bool \<Rightarrow> u16 \<Rightarrow> Device \<Rightarrow> Device" where
  "enable_queue lib is_tx queue_id = mmio_write32 lib (get_queue_register_offset is_tx queue_id QueueEnable) 1"

definition disable_queue :: "le_library \<Rightarrow> bool \<Rightarrow> u16 \<Rightarrow> Device \<Rightarrow> Device" where
  "disable_queue lib is_tx queue_id = mmio_write32 lib (get_queue_register_offset is_tx queue_id QueueEnable) 0"

definition update_queue_tail :: "le_library \<Rightarrow> bool \<Rightarrow> u16 \<Rightarrow> u32 \<Rightarrow> Device \<Rightarrow> Device" where
  "update_queue_tail lib is_tx queue_id tail = mmio_write32 lib (get_queue_register_offset is_tx queue_id QueueTail) tail"

definition get_queue_head :: "bool \<Rightarrow> u16 \<Rightarrow> u32" where
  "get_queue_head is_tx queue_id = mmio_read32 (get_queue_register_offset is_tx queue_id QueueHead)"

definition configure_rss_key :: "le_library \<Rightarrow> u32 list \<Rightarrow> Device \<Rightarrow> Device" where
  "configure_rss_key lib key = write_block lib RssKey key"

definition configure_rss_indirection_table :: "le_library \<Rightarrow> u32 list \<Rightarrow> Device \<Rightarrow> Device" where
  "configure_rss_indirection_table lib table = write_block lib RssIndirectionTable table"

definition set_rss_control :: "le_library \<Rightarrow> u32 \<Rightarrow> Device \<Rightarrow> Device" where
  "set_rss_control lib hash_types = mmio_write32 lib RssControl hash_types"

definition set_offload_control :: "le_library \<Rightarrow> u32 \<Rightarrow> Device \<Rightarrow> Device" where
  "set_offload_control lib flags = mmio_write32 lib OffloadControl flags"

definition get_offload_control :: u32 where
  "get_offload_control = mmio_read32 OffloadControl"

definition set_flow_control :: "le_library \<Rightarrow> u32 \<Rightarrow> Device \<Rightarrow> Device" where
  "set_flow_control lib fc = mmio_write32 lib FlowControl fc"

definition get_flow_control :: u32 where
  "get_flow_control = mmio_read32 FlowControl"

definition set_ptp_control :: "le_library \<Rightarrow> u32 \<Rightarrow> Device \<Rightarrow> Device" where
  "set_ptp_control lib flags = mmio_write32 lib PtpControl flags"

definition get_ptp_control :: u32 where
  "get_ptp_control = mmio_read32 PtpControl"

text \<open>The counter's offset is computed in 64 bits and cut to 32.\<close>

definition stat_counter_offset :: "u32 \<Rightarrow> u32" where
  "stat_counter_offset counter_id = ucast (ucast StatsBase + ucast counter_id * 8 :: u64)"

definition read_stat_counter :: "u32 \<Rightarrow> u64" where
  "read_stat_counter counter_id = mmio_read64 (stat_counter_offset counter_id)"

definition clear_stat_counter :: "le_library \<Rightarrow> u32 \<Rightarrow> Device \<Rightarrow> Device" where
  "clear_stat_counter lib counter_id = mmio_write64 lib (stat_counter_offset counter_id) 0"

definition set_vf_control :: "le_library \<Rightarrow> u32 \<Rightarrow> Device \<Rightarrow> Device" where
  "set_vf_control lib flags = mmio_write32 lib VfControl flags"

definition get_vf_control :: u32 where
  "get_vf_control = mmio_read32 VfControl"

definition mask_interrupt :: "le_library \<Rightarrow> u32 \<Rightarrow> Device \<Rightarrow> Device" where
  "mask_interrupt lib bits = mmio_write32 lib InterruptMask (mmio_read32 InterruptMask OR bits)"

definition unmask_interrupt :: "le_library \<Rightarrow> u32 \<Rightarrow> Device \<Rightarrow> Device" where
  "unmask_interrupt lib bits = mmio_write32 lib InterruptMask (mmio_read32 InterruptMask AND NOT bits)"

definition read_interrupt_cause :: u32 where
  "read_interrupt_cause = mmio_read32 InterruptCause"

definition clear_interrupt_cause :: "le_library \<Rightarrow> u32 \<Rightarrow> Device \<Rightarrow> Device" where
  "clear_interrupt_cause lib bits = mmio_write32 lib InterruptCause bits"

section \<open>What an adapter can do\<close>

datatype mmio_call =
    MmWrite32 u32 u32
  | MmWrite64 u32 u64
  | MmWriteBlock u32 "u32 list"
  | MmSetControl u32
  | MmClearControl u32
  | MmSetMac u32 u32
  | MmConfigureQueue bool u16 u64 u32
  | MmEnableQueue bool u16
  | MmDisableQueue bool u16
  | MmQueueTail bool u16 u32
  | MmRssKey "u32 list"
  | MmRssTable "u32 list"
  | MmRssControl u32
  | MmOffload u32
  | MmFlowControl u32
  | MmPtp u32
  | MmClearStat u32
  | MmVfControl u32
  | MmMask u32
  | MmUnmask u32
  | MmClearCause u32

fun mmio_step :: "le_library \<Rightarrow> mmio_call \<Rightarrow> Device \<Rightarrow> Device" where
  "mmio_step lib (MmWrite32 off v) = mmio_write32 lib off v"
| "mmio_step lib (MmWrite64 off v) = mmio_write64 lib off v"
| "mmio_step lib (MmWriteBlock off vs) = write_block lib off vs"
| "mmio_step lib (MmSetControl bits) = set_device_control lib bits"
| "mmio_step lib (MmClearControl bits) = clear_device_control lib bits"
| "mmio_step lib (MmSetMac low high) = set_mac_address lib low high"
| "mmio_step lib (MmConfigureQueue tx q addr len) = configure_queue lib tx q addr len"
| "mmio_step lib (MmEnableQueue tx q) = enable_queue lib tx q"
| "mmio_step lib (MmDisableQueue tx q) = disable_queue lib tx q"
| "mmio_step lib (MmQueueTail tx q t) = update_queue_tail lib tx q t"
| "mmio_step lib (MmRssKey vs) = configure_rss_key lib vs"
| "mmio_step lib (MmRssTable vs) = configure_rss_indirection_table lib vs"
| "mmio_step lib (MmRssControl v) = set_rss_control lib v"
| "mmio_step lib (MmOffload v) = set_offload_control lib v"
| "mmio_step lib (MmFlowControl v) = set_flow_control lib v"
| "mmio_step lib (MmPtp v) = set_ptp_control lib v"
| "mmio_step lib (MmClearStat i) = clear_stat_counter lib i"
| "mmio_step lib (MmVfControl v) = set_vf_control lib v"
| "mmio_step lib (MmMask v) = mask_interrupt lib v"
| "mmio_step lib (MmUnmask v) = unmask_interrupt lib v"
| "mmio_step lib (MmClearCause v) = clear_interrupt_cause lib v"

text \<open>The calls that reach the control register with the reset bit set. A 64-bit write and a block of words reach it when their
  addresses wrap around.\<close>

definition block_resets :: "u32 \<Rightarrow> u32 list \<Rightarrow> bool" where
  "block_resets off vs \<longleftrightarrow> (\<exists>i < length vs. off + of_nat (i * 4) = 0 \<and> bit (vs ! i) 0)"

fun mmio_resets :: "mmio_call \<Rightarrow> bool" where
  "mmio_resets (MmWrite32 off v) = (off = 0 \<and> bit v 0)"
| "mmio_resets (MmWrite64 off v) = ((off = 0 \<and> bit v 0) \<or> (off = 0xFFFFFFFC \<and> bit v 32))"
| "mmio_resets (MmWriteBlock off vs) = block_resets off vs"
| "mmio_resets (MmSetControl bits) = bit bits 0"
| "mmio_resets (MmRssKey vs) = block_resets 0x200 vs"
| "mmio_resets (MmRssTable vs) = block_resets 0x300 vs"
| "mmio_resets _ = False"

definition maybe_reset :: "le_library \<Rightarrow> bool \<Rightarrow> Device \<Rightarrow> Device" where
  "maybe_reset lib b dev = (if b then Device_reset lib dev else dev)"

lemma write32_reset: "mmio_write32 lib off v = maybe_reset lib (off = 0 \<and> bit v 0)"
  by (simp add: fun_eq_iff mmio_write32_def maybe_reset_def DeviceControl_def ControlReset_def and_one_eq bit_0 odd_iff_mod_2_eq_one)

lemma maybe_reset_ok: "regs_ok (dev_register_file dev) \<Longrightarrow> regs_ok (dev_register_file (maybe_reset lib b dev))"
  by (simp add: maybe_reset_def Device_reset_alt regs_ok_fresh)

lemma maybe_reset_twice:
  "regs_ok (dev_register_file dev) \<Longrightarrow> maybe_reset lib b (maybe_reset lib b' dev) = maybe_reset lib (b \<or> b') dev"
  by (simp add: maybe_reset_def Device_reset_twice)

lemma maybe_reset_fold:
  "regs_ok (dev_register_file dev) \<Longrightarrow> fold (\<lambda>x. maybe_reset lib (p x)) xs dev = maybe_reset lib (\<exists>x \<in> set xs. p x) dev"
  by (induction xs arbitrary: dev) (auto simp: maybe_reset_ok maybe_reset_twice maybe_reset_def [of lib False] intro: arg_cong2 [where f = "maybe_reset lib"])

lemma write_block_reset:
  "regs_ok (dev_register_file dev) \<Longrightarrow> write_block lib off vs dev = maybe_reset lib (block_resets off vs) dev"
  by (simp add: write_block_def write32_reset maybe_reset_fold block_resets_def Bex_def conj_commute)

lemma unat_queue_offset:
  assumes "unat r < 0x10000"
  shows "unat (get_queue_register_offset tx q r) = (if tx then 0x1000 else 0x2000) + unat q * 0x40 + unat r"
  using assms unat_u16_less [of q]
  by (simp add: get_queue_register_offset_def Let_def register_offsets queue_offsets unat_word_ariths unat_ucast_up)

lemma queue_offset_nonzero: "unat r < 0x10000 \<Longrightarrow> get_queue_register_offset tx q r \<noteq> 0"
  using unat_queue_offset [of r tx q] by (auto split: if_splits)

lemma write_elsewhere: "off \<noteq> 0 \<Longrightarrow> mmio_write32 lib off v dev = dev" "v = 0 \<Longrightarrow> mmio_write32 lib off v dev = dev"
  by (simp_all add: write32_reset maybe_reset_def)

lemma configure_queue_id: "configure_queue lib tx q addr len dev = dev"
proof -
  have "get_queue_register_offset tx q 0 + r = get_queue_register_offset tx q r" for r
    by (simp add: get_queue_register_offset_def Let_def)
  then show ?thesis
    using queue_offset_nonzero [of 0 tx q] queue_offset_nonzero [of 4 tx q] queue_offset_nonzero [of 8 tx q]
    by (simp add: configure_queue_def Let_def mmio_write64_def queue_offsets write_elsewhere)
qed

lemma minus_word_4: "(- 4 :: u32) = 0xFFFFFFFC"
  by (simp add: word_uint_eq_iff uint_word_ariths)

lemma write64_reset:
  assumes "regs_ok (dev_register_file dev)"
  shows "mmio_write64 lib off v dev = maybe_reset lib ((off = 0 \<and> bit v 0) \<or> (off = 0xFFFFFFFC \<and> bit v 32)) dev"
proof -
  have m: "(0xFFFFFFFF :: u64) = mask 32" by (simp add: mask_eq_exp_minus_1)
  have "bit (ucast (v AND 0xFFFFFFFF) :: u32) 0 = bit v 0" "bit (ucast (drop_bit 32 v) :: u32) 0 = bit v 32"
    unfolding m by (simp_all add: bit_simps)
  moreover have "off + 4 = 0 \<longleftrightarrow> off = 0xFFFFFFFC" using eq_neg_iff_add_eq_0 [of off 4] minus_word_4 by (simp only:)
  ultimately show ?thesis
    using maybe_reset_twice [OF assms, of lib] by (simp only: mmio_write64_def write32_reset) (simp only: disj_commute)
qed

lemma mmio_step_reset:
  assumes "regs_ok (dev_register_file dev)"
  shows "mmio_step lib call dev = maybe_reset lib (mmio_resets call) dev"
proof (cases call)
  case (MmSetControl bits)
  then show ?thesis by (simp add: set_device_control_def write32_reset mmio_read32_def register_offsets)
next
  case (MmConfigureQueue tx q addr len)
  then show ?thesis by (simp add: configure_queue_id maybe_reset_def)
qed (simp_all add: assms write32_reset write64_reset write_block_reset maybe_reset_def [of lib False] queue_offset_nonzero
    clear_device_control_def set_mac_address_def enable_queue_def disable_queue_def update_queue_tail_def configure_rss_key_def
    configure_rss_indirection_table_def set_rss_control_def set_offload_control_def set_flow_control_def set_ptp_control_def
    clear_stat_counter_def set_vf_control_def mask_interrupt_def unmask_interrupt_def clear_interrupt_cause_def mmio_read32_def
    register_offsets queue_offsets)

section \<open>Properties\<close>

text \<open>C32: all that a driver can do to a device through the adapter is to reset it. After any sequence of register writes and helper calls
  the device is what it was, or, when one of the calls reached the control register with the reset bit set, that
  device after a single reset; queue, scaling, offload, flow control, clock, statistics and interrupt settings leave no trace.\<close>

theorem mmio_only_resets:
  assumes "dev_ok dev"
  shows "fold (mmio_step lib) calls dev = (if list_ex mmio_resets calls then Device_reset lib dev else dev)"
proof -
  have "regs_ok (dev_register_file dev) \<Longrightarrow> fold (mmio_step lib) calls dev = maybe_reset lib (list_ex mmio_resets calls) dev" for dev
  proof (induction calls arbitrary: dev)
    case (Cons call calls)
    then show ?case by (simp add: mmio_step_reset maybe_reset_ok maybe_reset_twice disj_commute)
  qed (simp add: maybe_reset_def)
  with dev_okD(2) [OF assms] show ?thesis by (simp add: maybe_reset_def)
qed

theorem mmio_only_resets_witness:
  "fold (mmio_step lsb_library) [MmConfigureQueue True 0 0x1000 64, MmEnableQueue True 0, MmOffload 7]
     (Device_new (DeviceConfig_default sample_identity)) = Device_new (DeviceConfig_default sample_identity)"
  using mmio_only_resets [OF dev_ok_new [OF default_device_config_ok [of sample_identity]], of lsb_library
      "[MmConfigureQueue True 0 0x1000 64, MmEnableQueue True 0, MmOffload 7]"] by simp

text \<open>For queue identifiers below 64 the registers of the transmit and the receive queues have offsets of their own: different queues,
  directions or registers never share one. Beyond that they do: transmit queue \<open>q + 64\<close> has the registers of receive queue \<open>q\<close>.\<close>

theorem queue_registers_distinct:
  "(\<forall>tx tx' q q' r r'. unat q < 64 \<and> unat q' < 64 \<and> unat r < 0x40 \<and> unat r' < 0x40 \<and>
      get_queue_register_offset tx q r = get_queue_register_offset tx' q' r' \<longrightarrow> tx = tx' \<and> q = q' \<and> r = r') \<and>
    (\<forall>q r. unat q + 64 < 2 ^ 16 \<longrightarrow> get_queue_register_offset True (q + 64) r = get_queue_register_offset False q r)"
proof (intro conjI allI impI)
  fix tx tx' q q' r r'
  assume a: "unat q < 64 \<and> unat q' < 64 \<and> unat r < 0x40 \<and> unat r' < 0x40 \<and>
      get_queue_register_offset tx q r = get_queue_register_offset tx' q' r'"
  then have e: "(if tx then 0x1000 else 0x2000) + unat q * 0x40 + unat r = (if tx' then 0x1000 else 0x2000) + unat q' * 0x40 + unat r'"
    using unat_queue_offset [of r tx q] unat_queue_offset [of r' tx' q'] by simp
  then have tx: "tx = tx'" using a by (cases tx; cases tx') simp_all
  with e have e: "unat q * 0x40 + unat r = unat q' * 0x40 + unat r'" by simp
  have "unat q = unat q'" using arg_cong [OF e, of "\<lambda>n. n div 0x40"] a by simp
  with e tx have "tx = tx' \<and> unat q = unat q' \<and> unat r = unat r'" by simp
  then show "tx = tx'" "q = q'" "r = r'" by (simp_all add: word_unat_eq_iff)
next
  fix q :: u16 and r :: u32
  assume "unat q + 64 < 2 ^ 16"
  then have "unat (q + 64) = unat q + 64" by (simp add: unat_word_ariths)
  then have "(ucast (q + 64) :: u32) = ucast q + 64"
    using unat_u16_less [of q] by (simp add: word_unat_eq_iff unat_ucast_up unat_word_ariths)
  then show "get_queue_register_offset True (q + 64) r = get_queue_register_offset False q r"
    by (simp add: get_queue_register_offset_def Let_def register_offsets queue_offsets)
qed

theorem queue_registers_distinct_witness:
  "get_queue_register_offset True 64 QueueTail = get_queue_register_offset False 0 QueueTail"
  using queue_registers_distinct [THEN conjunct2, rule_format, of 0 QueueTail] by simp

end
