(* ===== verification/Nic_Driver.thy ===== *)
theory Nic_Driver
  imports Nic_Device
begin

text \<open>
  The driver (\<^verbatim>\<open>driver.h/.cpp\<close>, \<^verbatim>\<open>rdma_types.h\<close>): it owns a device, sends packets by writing them to host memory and pushing a descriptor, polls the
  device, and forwards the RDMA calls to the device's engine. The buffer address is a static variable of
  \<^verbatim>\<open>send_packet\<close>, so one value shared by all drivers: it is a state of its own here. The theory shows that a descriptor survives the trip
  through memory, that a packet given to \<^verbatim>\<open>send_packet\<close> arrives in the receive buffer, and what becomes of the buffer space.
\<close>

section \<open>State\<close>

datatype PdHandle = PdHandle (pd_value: u32)

datatype CqHandle = CqHandle (cq_value: u32)

datatype QpHandle = QpHandle (qp_value: u32)

record MrHandle =
  mrh_lkey :: u32
  mrh_rkey :: u32

record DriverStats =
  ds_tx_packets :: u64
  ds_tx_bytes :: u64
  ds_rx_packets :: u64
  ds_rx_bytes :: u64
  ds_processed :: u64

definition DriverStats_zero :: DriverStats where
  "DriverStats_zero = \<lparr>ds_tx_packets = 0, ds_tx_bytes = 0, ds_rx_packets = 0, ds_rx_bytes = 0, ds_processed = 0\<rparr>"

record NicDriver =
  initialized :: bool
  driver_device :: "Device option"
  driver_stats :: DriverStats

definition NicDriver_new :: NicDriver where
  "NicDriver_new = \<lparr>initialized = False, driver_device = None, driver_stats = DriverStats_zero\<rparr>"

section \<open>Device ownership\<close>

definition NicDriver_init :: "Device option \<Rightarrow> NicDriver \<Rightarrow> bool \<times> NicDriver" where
  "NicDriver_init device drv =
     (if initialized drv \<or> device = None then (False, drv) else (True, drv\<lparr>driver_device := device, initialized := True\<rparr>))"

text \<open>\<^verbatim>\<open>reset\<close> resets the device and then gives it up.\<close>

definition NicDriver_reset :: "le_library \<Rightarrow> NicDriver \<Rightarrow> NicDriver" where
  "NicDriver_reset lib drv =
     (if \<not> initialized drv then drv
      else
        let drv1 = drv\<lparr>driver_device := map_option (Device_reset lib) (driver_device drv)\<rparr>
        in drv1\<lparr>initialized := False, driver_device := None\<rparr>)"

section \<open>Packets\<close>

text \<open>The bytes of a \<^verbatim>\<open>TxDescriptor\<close> in memory; the padding between the fields is zero.\<close>

definition encode_tx_descriptor :: "TxDescriptor \<Rightarrow> bytes" where
  "encode_tx_descriptor d =
     le_bytes 8 (txd_buffer_address d) @ le_bytes 4 (ucast (txd_length d)) @ [txd_checksum d, 0] @
     le_bytes 2 (ucast (txd_descriptor_index d)) @ le_bytes 2 (ucast (txd_checksum_value d)) @
     [of_bool (txd_checksum_offload d), of_bool (txd_tso_enabled d), of_bool (txd_gso_enabled d), 0] @
     le_bytes 2 (ucast (txd_mss d)) @ le_bytes 2 (ucast (txd_header_length d)) @ [of_bool (txd_vlan_insert d), 0] @
     le_bytes 2 (ucast (txd_vlan_tag d)) @ [0, 0]"

definition driver_descriptor :: "u64 \<Rightarrow> nat \<Rightarrow> TxDescriptor" where
  "driver_descriptor buffer_addr n =
     \<lparr>txd_buffer_address = buffer_addr, txd_length = of_nat n, txd_checksum = 0, txd_descriptor_index = 0, txd_checksum_value = 0,
      txd_checksum_offload = False, txd_tso_enabled = False, txd_gso_enabled = False, txd_mss = 0, txd_header_length = 0,
      txd_vlan_insert = False, txd_vlan_tag = 0\<rparr>"

definition first_buffer :: u64 where
  "first_buffer = 0x10000"

definition send_packet :: "bytes \<Rightarrow> u64 \<times> NicDriver \<Rightarrow> bool \<times> u64 \<times> NicDriver" where
  "send_packet packet = (\<lambda>(next_addr, drv).
     case (if initialized drv then driver_device drv else None) of
       None \<Rightarrow> (False, next_addr, drv)
     | Some dev \<Rightarrow>
         (case dev_queue_pair dev of
            None \<Rightarrow> (False, next_addr, drv)
          | Some qp \<Rightarrow>
              let env = dev_env dev; dma = env_dma env; buffer_addr = next_addr;
                  next1 = next_addr + of_nat (length packet + 256);
                  (write_result, mem) = SimpleHostMemory_write (dma_memory dma) buffer_addr packet;
                  dma1 = dma\<lparr>dma_memory := mem\<rparr>
              in
              if \<not> HostMemoryResult_ok write_result
              then (False, next1, drv\<lparr>driver_device := Some (dev\<lparr>dev_env := env\<lparr>env_dma := dma1\<rparr>\<rparr>)\<rparr>)
              else
                let desc_bytes = encode_tx_descriptor (driver_descriptor buffer_addr (length packet));
                    (push_result, ring, dma2) = DescriptorRing_push_descriptor (qp_tx_ring qp) dma1 desc_bytes;
                    drv1 = drv\<lparr>driver_device := Some (dev\<lparr>dev_queue_pair := Some (qp\<lparr>qp_tx_ring := ring\<rparr>), dev_env := env\<lparr>env_dma := dma2\<rparr>\<rparr>)\<rparr>
                in
                if \<not> DmaResult_ok push_result then (False, next1, drv1)
                else (True, next1, drv1\<lparr>driver_stats := (driver_stats drv1)
                       \<lparr>ds_tx_packets := ds_tx_packets (driver_stats drv1) + 1,
                        ds_tx_bytes := ds_tx_bytes (driver_stats drv1) + of_nat (length packet)\<rparr>\<rparr>)))"

definition NicDriver_process :: "NicDriver \<Rightarrow> bool \<times> NicDriver" where
  "NicDriver_process drv =
     (case (if initialized drv then driver_device drv else None) of
        None \<Rightarrow> (False, drv)
      | Some dev \<Rightarrow>
          let (work_done, dev1) = process_queue_once dev; drv1 = drv\<lparr>driver_device := Some dev1\<rparr> in
          if \<not> work_done then (work_done, drv1)
          else
            let s = driver_stats drv1; s1 = s\<lparr>ds_processed := ds_processed s + 1\<rparr>;
                s2 = (case dev_queue_pair dev1 of
                        None \<Rightarrow> s1
                      | Some qp \<Rightarrow> s1\<lparr>ds_rx_packets := rx_packets (QueuePair.qp_stats qp), ds_rx_bytes := rx_bytes (QueuePair.qp_stats qp)\<rparr>)
            in (work_done, drv1\<lparr>driver_stats := s2\<rparr>))"

definition get_stats :: "NicDriver \<Rightarrow> DriverStats" where
  "get_stats drv = driver_stats drv"

definition clear_stats :: "NicDriver \<Rightarrow> NicDriver" where
  "clear_stats drv =
     (let drv1 = drv\<lparr>driver_stats := DriverStats_zero\<rparr> in
      case (if initialized drv1 then driver_device drv1 else None) of
        None \<Rightarrow> drv1
      | Some dev \<Rightarrow> drv1\<lparr>driver_device := Some (dev\<lparr>dev_queue_pair := map_option QueuePair_reset_stats (dev_queue_pair dev)\<rparr>)\<rparr>)"

section \<open>RDMA\<close>

text \<open>The guards that every RDMA call starts with: an initialised driver with a device that has an engine. Otherwise the call
  returns its failure value.\<close>

definition on_engine :: "(RdmaEngine \<Rightarrow> 'r \<times> RdmaEngine) \<Rightarrow> 'r \<Rightarrow> NicDriver \<Rightarrow> 'r \<times> NicDriver" where
  "on_engine f fail drv =
     (case (if initialized drv then driver_device drv else None) of
        None \<Rightarrow> (fail, drv)
      | Some dev \<Rightarrow> let (r, dev1) = with_rdma f fail dev in (r, drv\<lparr>driver_device := Some dev1\<rparr>))"

definition rdma_enabled :: "NicDriver \<Rightarrow> bool" where
  "rdma_enabled drv =
     (case (if initialized drv then driver_device drv else None) of None \<Rightarrow> False | Some dev \<Rightarrow> dev_rdma_engine dev \<noteq> None)"

definition create_pd :: "NicDriver \<Rightarrow> PdHandle option \<times> NicDriver" where
  "create_pd = on_engine (\<lambda>e. let (h, e1) = RdmaEngine_create_pd e in (map_option PdHandle h, e1)) None"

definition destroy_pd :: "PdHandle \<Rightarrow> NicDriver \<Rightarrow> bool \<times> NicDriver" where
  "destroy_pd pd = on_engine (\<lambda>e. RdmaEngine_destroy_pd e (pd_value pd)) False"

definition register_mr :: "PdHandle \<Rightarrow> u64 \<Rightarrow> u64 \<Rightarrow> AccessFlags \<Rightarrow> NicDriver \<Rightarrow> MrHandle option \<times> NicDriver" where
  "register_mr pd virtual_address len access = on_engine (\<lambda>e.
     let (r, e1) = RdmaEngine_register_mr e (pd_value pd) virtual_address len access in
     case r of
       None \<Rightarrow> (None, e1)
     | Some lkey \<Rightarrow>
         (case MemoryRegionTable_get_by_lkey (mr_table e1) lkey of
            None \<Rightarrow> (None, e1)
          | Some mr \<Rightarrow> (Some \<lparr>mrh_lkey = mr_lkey mr, mrh_rkey = mr_rkey mr\<rparr>, e1))) None"

definition deregister_mr :: "MrHandle \<Rightarrow> NicDriver \<Rightarrow> bool \<times> NicDriver" where
  "deregister_mr mr = on_engine (\<lambda>e. RdmaEngine_deregister_mr e (mrh_lkey mr)) False"

definition create_cq :: "nat \<Rightarrow> NicDriver \<Rightarrow> CqHandle option \<times> NicDriver" where
  "create_cq depth = on_engine (\<lambda>e. let (h, e1) = RdmaEngine_create_cq e depth in (map_option CqHandle h, e1)) None"

definition destroy_cq :: "CqHandle \<Rightarrow> NicDriver \<Rightarrow> bool \<times> NicDriver" where
  "destroy_cq cq = on_engine (\<lambda>e. RdmaEngine_destroy_cq e (cq_value cq)) False"

definition poll_cq :: "CqHandle \<Rightarrow> nat \<Rightarrow> NicDriver \<Rightarrow> RdmaCqe list \<times> NicDriver" where
  "poll_cq cq max_cqes = on_engine (\<lambda>e. RdmaEngine_poll_cq e (cq_value cq) max_cqes) []"

definition create_qp :: "RdmaQpConfig \<Rightarrow> NicDriver \<Rightarrow> QpHandle option \<times> NicDriver" where
  "create_qp config = on_engine (\<lambda>e. let (h, e1) = RdmaEngine_create_qp e config in (map_option QpHandle h, e1)) None"

definition destroy_qp :: "QpHandle \<Rightarrow> NicDriver \<Rightarrow> bool \<times> NicDriver" where
  "destroy_qp qp = on_engine (\<lambda>e. RdmaEngine_destroy_qp e (qp_value qp)) False"

definition modify_qp :: "QpHandle \<Rightarrow> RdmaQpModifyParams \<Rightarrow> NicDriver \<Rightarrow> bool \<times> NicDriver" where
  "modify_qp qp params = on_engine (\<lambda>e. RdmaEngine_modify_qp e (qp_value qp) params) False"

definition post_send :: "(nat list \<Rightarrow> u64 list \<Rightarrow> bytes) \<Rightarrow> QpHandle \<Rightarrow> SendWqe \<Rightarrow> NicDriver \<Rightarrow> bool \<times> NicDriver" where
  "post_send ser qp wqe = on_engine (\<lambda>e. RdmaEngine_post_send ser e (qp_value qp) wqe) False"

definition post_recv :: "QpHandle \<Rightarrow> RecvWqe \<Rightarrow> NicDriver \<Rightarrow> bool \<times> NicDriver" where
  "post_recv qp wqe = on_engine (\<lambda>e. RdmaEngine_post_recv e (qp_value qp) wqe) False"

definition rdma_generate_packets :: "NicDriver \<Rightarrow> OutgoingPacket list \<times> NicDriver" where
  "rdma_generate_packets = on_engine generate_outgoing_packets []"

text \<open>The addresses and the port are passed on to the engine, which does not look at them.\<close>

definition rdma_process_packet ::
  "(nat list \<Rightarrow> u64 list \<Rightarrow> bytes) \<Rightarrow> (nat list \<Rightarrow> bytes \<Rightarrow> u64 list) \<Rightarrow> bytes \<Rightarrow> bytes \<Rightarrow> bytes \<Rightarrow> u16 \<Rightarrow> NicDriver \<Rightarrow> bool \<times> NicDriver" where
  "rdma_process_packet ser des udp_payload src_ip dst_ip src_port = on_engine (\<lambda>e. process_incoming_packet ser des e udp_payload) False"

section \<open>Descriptors in memory\<close>

lemma unat_byte_of: "unat (ucast (drop_bit (8 * i) (v :: u64)) :: byte) = unat v div 256 ^ i mod 256"
proof -
  have "unat (ucast (drop_bit (8 * i) v) :: byte) = take_bit 8 (drop_bit (8 * i) (unat v))"
    by (simp add: unsigned_ucast_eq unat_drop_bit_eq)
  then show ?thesis by (simp add: take_bit_eq_mod drop_bit_eq_div power_mult)
qed

lemma le_val_bytes_from: "le_val (map (\<lambda>i. ucast (drop_bit (8 * i) (v :: u64))) [k..<k + n]) = unat v div 256 ^ k mod 256 ^ n"
proof (induction n arbitrary: k)
  case (Suc n)
  have "[k..<k + Suc n] = k # [Suc k..<Suc k + n]" by (simp add: upt_conv_Cons)
  then have "le_val (map (\<lambda>i. ucast (drop_bit (8 * i) v)) [k..<k + Suc n]) =
      unat v div 256 ^ k mod 256 + 256 * (unat v div 256 ^ Suc k mod 256 ^ n)"
    using Suc.IH [of "Suc k"] unat_byte_of [of k v] by (simp add: le_val_def)
  also have "unat v div 256 ^ Suc k = unat v div 256 ^ k div 256" by (simp only: power_Suc2 div_mult2_eq)
  finally show ?case by (simp add: mod_mult2_eq [of _ 256 "256 ^ n"] add.commute)
qed (simp add: le_val_def)

lemma le_val_le_bytes: "le_val (le_bytes n v) = unat v mod 256 ^ n"
  using le_val_bytes_from [of v 0 n] by (simp add: le_bytes_def)

lemma le_val_ucast:
  "of_nat (le_val (le_bytes 8 a)) = (a :: u64)" "of_nat (le_val (le_bytes 4 (ucast b))) = (b :: u32)"
  "of_nat (le_val (le_bytes 2 (ucast c))) = (c :: u16)"
  using unsigned_less [where 'a = nat, of a] unsigned_less [where 'a = nat, of b] unat_u16_less [of c]
  by (simp_all add: le_val_le_bytes unat_ucast_up)

lemma decode_encode_tx: "decode_tx_descriptor (encode_tx_descriptor d) = Some d"
proof -
  let ?bs = "encode_tx_descriptor d"
  have "length ?bs = 32" by (simp add: encode_tx_descriptor_def)
  moreover have "subspan 0 8 ?bs = le_bytes 8 (txd_buffer_address d)" "subspan 8 4 ?bs = le_bytes 4 (ucast (txd_length d))"
    "subspan 14 2 ?bs = le_bytes 2 (ucast (txd_descriptor_index d))" "subspan 16 2 ?bs = le_bytes 2 (ucast (txd_checksum_value d))"
    "subspan 22 2 ?bs = le_bytes 2 (ucast (txd_mss d))" "subspan 24 2 ?bs = le_bytes 2 (ucast (txd_header_length d))"
    "subspan 28 2 ?bs = le_bytes 2 (ucast (txd_vlan_tag d))"
    by (simp_all add: subspan_def encode_tx_descriptor_def)
  moreover have "?bs ! 12 = txd_checksum d" "?bs ! 18 = of_bool (txd_checksum_offload d)" "?bs ! 19 = of_bool (txd_tso_enabled d)"
    "?bs ! 20 = of_bool (txd_gso_enabled d)" "?bs ! 26 = of_bool (txd_vlan_insert d)"
    by (simp_all add: encode_tx_descriptor_def nth_append)
  ultimately show ?thesis
    by (simp add: decode_tx_descriptor_def sizeof_TxDescriptor_def le_field_def le_val_ucast)
qed

section \<open>Sending\<close>

text \<open>A ring in the device's own storage does not depend on host memory.\<close>

lemma local_ring:
  "\<not> host_backed (ring_config q) \<Longrightarrow> ring_inv (q, e) = ring_inv (q, e') \<and> ring_contents (q, e) = ring_contents (q, e')"
proof -
  assume "\<not> host_backed (ring_config q)"
  then have "slot_content q e = slot_content q e'" by (simp add: fun_eq_iff slot_content_def Let_def)
  with \<open>\<not> host_backed (ring_config q)\<close> show ?thesis by (simp add: ring_inv.simps)
qed

lemma length_encode_tx [simp]: "length (encode_tx_descriptor d) = 32"
  by (simp add: encode_tx_descriptor_def)

lemma send_packet_effect:
  assumes "initialized drv" "driver_device drv = Some dev" "dev_queue_pair dev = Some qp"
    and wr: "mem_wr (dma_memory (env_dma (dev_env dev))) addr packet = Some m1"
    and ring: "ring_inv (qp_tx_ring qp, env_dma (dev_env dev))" "\<not> host_backed (ring_config (qp_tx_ring qp))"
      "descriptor_size (ring_config (qp_tx_ring qp)) = 32" "\<not> DescriptorRing_is_full (qp_tx_ring qp)"
  shows "\<exists>ring'. send_packet packet (addr, drv) = (True, addr + of_nat (length packet + 256),
      drv\<lparr>driver_device := Some (dev\<lparr>dev_queue_pair := Some (qp\<lparr>qp_tx_ring := ring'\<rparr>),
            dev_env := (dev_env dev)\<lparr>env_dma := (env_dma (dev_env dev))\<lparr>dma_memory := m1\<rparr>\<rparr>\<rparr>),
          driver_stats := (driver_stats drv)\<lparr>ds_tx_packets := ds_tx_packets (driver_stats drv) + 1,
            ds_tx_bytes := ds_tx_bytes (driver_stats drv) + of_nat (length packet)\<rparr>\<rparr>) \<and>
    ring_inv (ring', env_dma (dev_env dev)) \<and> ring_config ring' = ring_config (qp_tx_ring qp) \<and>
    ring_contents (ring', env_dma (dev_env dev)) = ring_contents (qp_tx_ring qp, env_dma (dev_env dev)) @
      [encode_tx_descriptor (driver_descriptor addr (length packet))]"
proof -
  let ?e = "(env_dma (dev_env dev))\<lparr>dma_memory := m1\<rparr>" and ?d = "encode_tx_descriptor (driver_descriptor addr (length packet))"
  have w: "SimpleHostMemory_write (dma_memory (env_dma (dev_env dev))) addr packet = (\<lparr>hm_error = HmNone, hm_bytes_processed = length packet\<rparr>, m1)"
    by (rule shm_write_cases [of "dma_memory (env_dma (dev_env dev))" addr packet]) (use wr in simp_all)
  note loc = local_ring [OF ring(2), of ?e "env_dma (dev_env dev)"]
  obtain ring' e' where p: "DescriptorRing_push_descriptor (qp_tx_ring qp) ?e ?d = (dma_ok_result 32, ring', e')"
    "ring_inv (ring', e')" "ring_contents (ring', e') = ring_contents (qp_tx_ring qp, ?e) @ [?d]"
    using ring_push_cases [of "qp_tx_ring qp" ?e ?d] ring loc by auto
  have c: "e' = ?e" "ring_config ring' = ring_config (qp_tx_ring qp)"
    using p(1) ring(2) by (auto simp: DescriptorRing_push_descriptor_def Let_def split: if_splits)
  then have "send_packet packet (addr, drv) = (True, addr + of_nat (length packet + 256),
      drv\<lparr>driver_device := Some (dev\<lparr>dev_queue_pair := Some (qp\<lparr>qp_tx_ring := ring'\<rparr>), dev_env := (dev_env dev)\<lparr>env_dma := ?e\<rparr>\<rparr>),
          driver_stats := (driver_stats drv)\<lparr>ds_tx_packets := ds_tx_packets (driver_stats drv) + 1,
            ds_tx_bytes := ds_tx_bytes (driver_stats drv) + of_nat (length packet)\<rparr>\<rparr>)"
    using assms(1-3) w p(1) by (simp add: send_packet_def Let_def HostMemoryResult_ok_def DmaResult_ok_def)
  moreover have "ring_inv (ring', env_dma (dev_env dev)) \<and> ring_contents (ring', env_dma (dev_env dev)) =
      ring_contents (qp_tx_ring qp, env_dma (dev_env dev)) @ [?d]"
    using local_ring [of ring' ?e "env_dma (dev_env dev)"] loc p c ring(2) by simp
  ultimately show ?thesis using c by blast
qed

text \<open>A driver in use: it owns a device with queue pair \<open>qp\<close> over the DMA engine \<open>e\<close>; the queue pair is idle when its
  transmit ring is empty.\<close>

definition owns :: "NicDriver \<Rightarrow> QueuePair \<Rightarrow> DMAEngine \<Rightarrow> bool" where
  "owns drv qp e \<longleftrightarrow> initialized drv \<and> (\<exists>dev. driver_device drv = Some dev \<and> dev_queue_pair dev = Some qp \<and> env_dma (dev_env dev) = e)"

definition idle :: "QueuePairConfig \<Rightarrow> bytes list \<Rightarrow> QueuePair \<Rightarrow> DMAEngine \<Rightarrow> bool" where
  "idle cfg rxs qp e \<longleftrightarrow> qp_ok qp e \<and> QueuePair.qp_config qp = cfg \<and> DescriptorRing_is_empty (qp_tx_ring qp) \<and>
     ring_contents (qp_rx_ring qp, e) = rxs"

definition local_rings :: "QueuePairConfig \<Rightarrow> bool" where
  "local_rings cfg \<longleftrightarrow> \<not> host_backed (qpc_tx_ring cfg) \<and> \<not> host_backed (qpc_rx_ring cfg) \<and>
     descriptor_size (qpc_tx_ring cfg) = 32 \<and> 0 < ring_size (qpc_tx_ring cfg)"

text \<open>One packet through the driver, from an idle queue pair to an idle queue pair.\<close>

lemma driver_loops:
  assumes drv: "owns drv qp e" "idle cfg (rxb # rxs) qp e" "local_rings cfg"
    and rx: "decode_rx_descriptor rxb = Some r" "\<not> rxd_vlan_strip r" "\<not> (rxd_checksum_offload r \<and> rxd_checksum r \<noteq> 0)"
    and m: "mem_wr (dma_memory e) addr packet = Some m1" "mem_wr m1 (rxd_buffer_address r) packet = Some m2"
    and size: "length packet \<le> max_mtu cfg" "length packet \<le> unat (rxd_buffer_length r)"
  shows "\<exists>drv1 drv2 qp2 e2. send_packet packet (addr, drv) = (True, addr + of_nat (length packet + 256), drv1) \<and>
    NicDriver_process drv1 = (True, drv2) \<and> owns drv2 qp2 e2 \<and> idle cfg rxs qp2 e2 \<and> dma_memory e2 = m2 \<and>
    rx_counted (length packet) (QueuePair.qp_stats qp) (QueuePair.qp_stats qp2) \<and>
    get_stats drv2 = \<lparr>ds_tx_packets = ds_tx_packets (get_stats drv) + 1, ds_tx_bytes = ds_tx_bytes (get_stats drv) + of_nat (length packet),
      ds_rx_packets = rx_packets (QueuePair.qp_stats qp2), ds_rx_bytes = rx_bytes (QueuePair.qp_stats qp2),
      ds_processed = ds_processed (get_stats drv) + 1\<rparr>"
proof -
  obtain dev where dev: "initialized drv" "driver_device drv = Some dev" "dev_queue_pair dev = Some qp" "env_dma (dev_env dev) = e"
    using drv(1) by (auto simp: owns_def)
  let ?d = "driver_descriptor addr (length packet)"
  have ok: "ring_inv (qp_tx_ring qp, e)" "ring_inv (qp_rx_ring qp, e)" "ring_config (qp_tx_ring qp) = qpc_tx_ring cfg"
    "ring_config (qp_rx_ring qp) = qpc_rx_ring cfg" "QueuePair.qp_config qp = cfg" "ring_contents (qp_rx_ring qp, e) = rxb # rxs"
    and empty: "ring_contents (qp_tx_ring qp, e) = []" "\<not> DescriptorRing_is_full (qp_tx_ring qp)"
    and l: "\<not> host_backed (qpc_tx_ring cfg)" "\<not> host_backed (qpc_rx_ring cfg)" "descriptor_size (qpc_tx_ring cfg) = 32"
    and sizes: "sizeof_RxDescriptor \<le> descriptor_size (qpc_rx_ring cfg)"
    using drv(2, 3) by (auto simp: idle_def qp_ok_def local_rings_def DescriptorRing_is_empty_def DescriptorRing_is_full_def)
  have n: "unat (txd_length ?d) = length packet"
    using size(2) unsigned_less [where 'a = nat, of "rxd_buffer_length r"] by (simp add: driver_descriptor_def unat_of_nat)
  have rd: "mem_rd m1 (txd_buffer_address ?d) (unat (txd_length ?d)) = Some packet"
    unfolding n using shm.rd_wr_same [OF m(1)] by (simp add: driver_descriptor_def)
  have ring0: "mem_wr (dma_memory (env_dma (dev_env dev))) addr packet = Some m1" "ring_inv (qp_tx_ring qp, env_dma (dev_env dev))"
    "\<not> host_backed (ring_config (qp_tx_ring qp))" "descriptor_size (ring_config (qp_tx_ring qp)) = 32"
    using m(1) ok(1, 3) l by (simp_all add: dev(4))
  from send_packet_effect [OF dev(1-3) ring0 empty(2)] obtain ring' where
    send: "send_packet packet (addr, drv) = (True, addr + of_nat (length packet + 256),
      drv\<lparr>driver_device := Some (dev\<lparr>dev_queue_pair := Some (qp\<lparr>qp_tx_ring := ring'\<rparr>), dev_env := (dev_env dev)\<lparr>env_dma := e\<lparr>dma_memory := m1\<rparr>\<rparr>\<rparr>),
          driver_stats := (driver_stats drv)\<lparr>ds_tx_packets := ds_tx_packets (driver_stats drv) + 1,
            ds_tx_bytes := ds_tx_bytes (driver_stats drv) + of_nat (length packet)\<rparr>\<rparr>)"
    and tx: "ring_inv (ring', e)" "ring_config ring' = qpc_tx_ring cfg" "ring_contents (ring', e) = [encode_tx_descriptor ?d]"
    using empty(1) ok(3) unfolding dev(4) by auto
  let ?qp = "qp\<lparr>qp_tx_ring := ring'\<rparr>" and ?env = "(dev_env dev)\<lparr>env_dma := e\<lparr>dma_memory := m1\<rparr>\<rparr>"
  note loc = local_ring [of _ "e\<lparr>dma_memory := m1\<rparr>" e]
  have "\<exists>st'. QueuePair_process_once (?qp, ?env) = (True, st') \<and> dma_memory (env_dma (snd st')) = m2 \<and>
      rx_taken rxs (length packet) (?qp, ?env) st' \<and> ring_config (qp_tx_ring (fst st')) = ring_config (qp_tx_ring ?qp) \<and>
      ring_inv (qp_tx_ring (fst st'), env_dma ?env) \<and> ring_contents (qp_tx_ring (fst st'), env_dma ?env) = []"
    using tx ok l rx rd m(2) size loc [of ring'] loc [of "qp_rx_ring qp"] decode_encode_tx [of ?d]
    by (intro loopback_effect [where d = ?d and txb = "encode_tx_descriptor ?d" and rxb = rxb and r = r])
      (simp_all add: driver_descriptor_def del: ring_contents.simps)
  then obtain qp2 env2 where p: "QueuePair_process_once (?qp, ?env) = (True, qp2, env2)" "dma_memory (env_dma env2) = m2"
    and after: "rx_taken rxs (length packet) (?qp, ?env) (qp2, env2)" "ring_config (qp_tx_ring qp2) = qpc_tx_ring cfg"
      "ring_inv (qp_tx_ring qp2, env_dma ?env)" "ring_contents (qp_tx_ring qp2, env_dma ?env) = []"
    using tx(2) by auto
  have "idle cfg rxs qp2 (env_dma env2)"
    using after l sizes ok ring_empty_iff [of "(qp_tx_ring qp2, env_dma ?env)"]
      local_ring [of "qp_tx_ring qp2" "env_dma ?env" "env_dma env2"] local_ring [of "qp_rx_ring qp2" "env_dma ?env" "env_dma env2"]
    by (simp add: idle_def qp_ok_def rx_taken_def sizeof_TxDescriptor_def del: ring_contents.simps)
  moreover have "rx_counted (length packet) (QueuePair.qp_stats qp) (QueuePair.qp_stats qp2)" using after(1) by (simp add: rx_taken_def)
  ultimately show ?thesis
    unfolding send using p dev(1) by (simp add: NicDriver_process_def process_queue_once_def Let_def get_stats_def owns_def)
qed

section \<open>Properties\<close>

text \<open>C7: a packet sent through the driver arrives. The driver owns a device with a queue pair whose rings are in the device's storage, the
  transmit ring is empty and the head of the receive ring describes a plain buffer that is mapped and large enough; the driver's
  buffer address is mapped and the packet is within the MTU. Then \<^verbatim>\<open>send_packet\<close> and the following \<^verbatim>\<open>process\<close> succeed, the receive buffer holds exactly
  the packet, and the driver has counted one packet, its bytes and one processed descriptor.\<close>

theorem driver_delivers:
  assumes drv: "initialized drv" "driver_device drv = Some dev" "dev_queue_pair dev = Some qp" "qp_ok qp (env_dma (dev_env dev))"
    and rings: "\<not> host_backed (qpc_tx_ring (QueuePair.qp_config qp))" "\<not> host_backed (qpc_rx_ring (QueuePair.qp_config qp))"
      "descriptor_size (qpc_tx_ring (QueuePair.qp_config qp)) = 32" "0 < ring_size (qpc_tx_ring (QueuePair.qp_config qp))"
      "DescriptorRing_is_empty (qp_tx_ring qp)"
    and rx: "ring_contents (qp_rx_ring qp, env_dma (dev_env dev)) = rxb # rxs" "decode_rx_descriptor rxb = Some r"
      "\<not> rxd_vlan_strip r" "\<not> (rxd_checksum_offload r \<and> rxd_checksum r \<noteq> 0)"
    and mapped: "mem_span (dma_memory (env_dma (dev_env dev))) addr (length packet) \<noteq> None"
      "mem_span (dma_memory (env_dma (dev_env dev))) (rxd_buffer_address r) (length packet) \<noteq> None"
    and size: "length packet \<le> max_mtu (QueuePair.qp_config qp)" "length packet \<le> unat (rxd_buffer_length r)"
  shows "\<exists>drv1 drv2 dev2. send_packet packet (addr, drv) = (True, addr + of_nat (length packet + 256), drv1) \<and>
    NicDriver_process drv1 = (True, drv2) \<and> driver_device drv2 = Some dev2 \<and>
    mem_rd (dma_memory (env_dma (dev_env dev2))) (rxd_buffer_address r) (length packet) = Some packet \<and>
    ds_tx_packets (get_stats drv2) = ds_tx_packets (get_stats drv) + 1 \<and>
    ds_tx_bytes (get_stats drv2) = ds_tx_bytes (get_stats drv) + of_nat (length packet) \<and>
    ds_processed (get_stats drv2) = ds_processed (get_stats drv) + 1"
proof -
  let ?e = "env_dma (dev_env dev)"
  obtain m1 where m1: "mem_wr (dma_memory ?e) addr packet = Some m1" using mapped(1) shm.wr_span [of "dma_memory ?e" addr packet] by auto
  obtain m2 where m2: "mem_wr m1 (rxd_buffer_address r) packet = Some m2"
    using mapped(2) shm.wr_span [of m1 "rxd_buffer_address r" packet] shm.span_wr [OF m1] by auto
  have "owns drv qp ?e" "idle (QueuePair.qp_config qp) (rxb # rxs) qp ?e" "local_rings (QueuePair.qp_config qp)"
    using drv rings rx(1) by (simp_all add: owns_def idle_def local_rings_def del: ring_contents.simps)
  from driver_loops [OF this rx(2-4) m1 m2 size] shm.rd_wr_same [OF m2] show ?thesis
    by (auto simp: owns_def)
qed

definition sample_driver :: NicDriver where
  "sample_driver =
     (let dev = Device_new ((DeviceConfig_default sample_identity)\<lparr>host_memory_config := \<lparr>size_bytes = 16, page_size = 4096, iommu_enabled = False\<rparr>\<rparr>);
          qp = QueuePair_new default_queue_pair_config
      in snd (NicDriver_init (Some (dev\<lparr>dev_queue_pair := Some (qp\<lparr>qp_rx_ring :=
          fst (snd (DescriptorRing_push_descriptor (DescriptorRing_new (qpc_rx_ring default_queue_pair_config) True None)
            (env_dma (dev_env dev)) demo_rx_bytes))\<rparr>)\<rparr>)) NicDriver_new))"

abbreviation sample_host :: SimpleHostMemory where
  "sample_host \<equiv> SimpleHostMemory_new \<lparr>size_bytes = 16, page_size = 4096, iommu_enabled = False\<rparr> None None"

lemma sample_driver_state:
  "\<exists>dev qp. initialized sample_driver \<and> driver_device sample_driver = Some dev \<and> driver_stats sample_driver = DriverStats_zero \<and>
     dev_queue_pair dev = Some qp \<and> qp_ok qp (env_dma (dev_env dev)) \<and> dma_memory (env_dma (dev_env dev)) = sample_host \<and>
     QueuePair.qp_config qp = default_queue_pair_config \<and> DescriptorRing_is_empty (qp_tx_ring qp) \<and>
     ring_contents (qp_rx_ring qp, env_dma (dev_env dev)) = [demo_rx_bytes]"
proof -
  define dev0 where "dev0 = Device_new ((DeviceConfig_default sample_identity)\<lparr>host_memory_config := \<lparr>size_bytes = 16, page_size = 4096, iommu_enabled = False\<rparr>\<rparr>)"
  define e where "e = env_dma (dev_env dev0)"
  define ring where "ring = fst (snd (DescriptorRing_push_descriptor (DescriptorRing_new (qpc_rx_ring default_queue_pair_config) True None) e demo_rx_bytes))"
  define qp where "qp = (QueuePair_new default_queue_pair_config)\<lparr>qp_rx_ring := ring\<rparr>"
  have ring: "ring_inv (ring, e)" "ring_contents (ring, e) = [demo_rx_bytes]" "ring_config ring = qpc_rx_ring default_queue_pair_config"
    using ring_one_push [OF _ _ _ _ ring_def] by (simp_all add: default_queue_pair_config_def sizeof_RxDescriptor_def del: ring_contents.simps)
  have "qp_ok qp e"
    using ring by (simp add: qp_ok_def qp_def QueuePair_new_def) (simp add: DescriptorRing_new_def ring_inv.simps default_queue_pair_config_def)
  moreover have "QueuePair.qp_config qp = default_queue_pair_config" "DescriptorRing_is_empty (qp_tx_ring qp)" "qp_rx_ring qp = ring"
    by (simp_all add: qp_def QueuePair_new_def DescriptorRing_new_def DescriptorRing_is_empty_def)
  moreover have "initialized sample_driver" "driver_stats sample_driver = DriverStats_zero"
    "driver_device sample_driver = Some (dev0\<lparr>dev_queue_pair := Some qp\<rparr>)"
    by (simp_all add: sample_driver_def NicDriver_init_def NicDriver_new_def dev0_def qp_def ring_def e_def Let_def)
  moreover have "dma_memory e = sample_host"
    by (simp add: e_def dev0_def Device_new_def Let_def runtime_dma_def DeviceConfig_default_def DMAEngine_new_def)
  ultimately show ?thesis using ring(2) by (simp add: e_def del: ring_contents.simps)
qed

lemma sample_span: "mem_span sample_host a n \<noteq> None \<longleftrightarrow> unat a + n \<le> 16"
  by (auto simp: SimpleHostMemory_new_def mem_span_def hm_access_def SimpleHostMemory_translate_view_def Let_def split: if_splits)

theorem driver_delivers_witness:
  "\<exists>drv1 drv2 dev2. send_packet [9, 8] (0, sample_driver) = (True, 258, drv1) \<and> NicDriver_process drv1 = (True, drv2) \<and>
     driver_device drv2 = Some dev2 \<and> mem_rd (dma_memory (env_dma (dev_env dev2))) 4 2 = Some [9, 8] \<and> ds_tx_bytes (get_stats drv2) = 2"
proof -
  obtain dev qp where d: "initialized sample_driver" "driver_device sample_driver = Some dev" "dev_queue_pair dev = Some qp"
      "qp_ok qp (env_dma (dev_env dev))" "dma_memory (env_dma (dev_env dev)) = sample_host" "driver_stats sample_driver = DriverStats_zero"
    and c: "QueuePair.qp_config qp = default_queue_pair_config" "DescriptorRing_is_empty (qp_tx_ring qp)"
    and rx: "ring_contents (qp_rx_ring qp, env_dma (dev_env dev)) = [demo_rx_bytes]"
    using sample_driver_state by blast
  have rings: "\<not> host_backed (qpc_tx_ring (QueuePair.qp_config qp))" "\<not> host_backed (qpc_rx_ring (QueuePair.qp_config qp))"
    "descriptor_size (qpc_tx_ring (QueuePair.qp_config qp)) = 32" "0 < ring_size (qpc_tx_ring (QueuePair.qp_config qp))"
    "max_mtu (QueuePair.qp_config qp) = 9000"
    by (simp_all add: c default_queue_pair_config_def sizeof_TxDescriptor_def kJumboMtu_def)
  have l: "length [9, 8 :: byte] = 2" by simp
  have sp: "mem_span (dma_memory (env_dma (dev_env dev))) 0 (length [9, 8 :: byte]) \<noteq> None"
    "mem_span (dma_memory (env_dma (dev_env dev))) 4 (length [9, 8 :: byte]) \<noteq> None"
    unfolding d(5) l sample_span by simp_all
  show ?thesis
    using driver_delivers [OF d(1-4) rings(1-4) c(2) rx demo_decode(2), where addr = 0 and packet = "[9, 8]"] sp
    unfolding l by (simp add: rings(5) d(6) get_stats_def DriverStats_zero_def) blast
qed

section \<open>Buffer space\<close>

datatype driver_call = Send bytes | Poll

text \<open>A run of a driver: the number of successful sends, the next buffer address and the driver.\<close>

fun driver_run :: "driver_call list \<Rightarrow> u64 \<times> NicDriver \<Rightarrow> nat \<times> u64 \<times> NicDriver" where
  "driver_run [] st = (0, st)"
| "driver_run (Send packet # calls) st =
     (let (ok, st1) = send_packet packet st; (n, st2) = driver_run calls st1 in (if ok then Suc n else n, st2))"
| "driver_run (Poll # calls) st = driver_run calls (fst st, snd (NicDriver_process (snd st)))"

definition buffer_use :: "driver_call list \<Rightarrow> nat" where
  "buffer_use calls = (\<Sum>call \<leftarrow> calls. case call of Send packet \<Rightarrow> length packet + 256 | Poll \<Rightarrow> 0)"

definition drv_inv :: "(u64 \<Rightarrow> nat \<Rightarrow> nat set option) \<Rightarrow> NicDriver \<Rightarrow> bool" where
  "drv_inv S drv \<longleftrightarrow> initialized drv \<and> (\<exists>dev qp. driver_device drv = Some dev \<and> dev_queue_pair dev = Some qp \<and>
     qp_ok qp (env_dma (dev_env dev)) \<and> mem_span (dma_memory (env_dma (dev_env dev))) = S)"

lemma drv_inv_send:
  assumes "drv_inv S drv" and "send_packet packet (a, drv) = (ok, a', drv')"
  shows "drv_inv S drv' \<and> a' = a + of_nat (length packet + 256) \<and> (ok \<longrightarrow> S a (length packet) \<noteq> None)"
proof -
  obtain dev qp where d: "initialized drv" "driver_device drv = Some dev" "dev_queue_pair dev = Some qp" "qp_ok qp (env_dma (dev_env dev))"
      "mem_span (dma_memory (env_dma (dev_env dev))) = S"
    using assms(1) by (auto simp: drv_inv_def)
  let ?e = "env_dma (dev_env dev)" and ?d = "encode_tx_descriptor (driver_descriptor a (length packet))"
  show ?thesis
  proof (rule shm_write_cases [of "dma_memory ?e" a packet])
    fix m1 assume wr: "mem_wr (dma_memory ?e) a packet = Some m1"
      and w: "SimpleHostMemory_write (dma_memory ?e) a packet = (\<lparr>hm_error = HmNone, hm_bytes_processed = length packet\<rparr>, m1)"
    let ?e1 = "?e\<lparr>dma_memory := m1\<rparr>"
    have span: "same_span ?e ?e1" "S a (length packet) \<noteq> None"
      using shm.span_wr [OF wr] shm.wr_span [of "dma_memory ?e" a packet] wr d(5) by (auto simp: same_span_def)
    obtain r ring e2 where p: "DescriptorRing_push_descriptor (qp_tx_ring qp) ?e1 ?d = (r, ring, e2)" by (metis prod_cases3)
    have "qp_ok qp ?e1" using d(4) qp_ok_span [OF span(1)] by simp
    then have q: "ring_inv (qp_tx_ring qp, ?e1)" by (simp add: qp_ok_def)
    have "qp_ok (qp\<lparr>qp_tx_ring := ring\<rparr>) e2 \<and> same_span ?e1 e2"
      using push_ring_ok [OF q p] ring_inv_span [of ?e1 e2 "qp_rx_ring qp"] \<open>qp_ok qp ?e1\<close> by (simp add: qp_ok_def)
    moreover from this have "mem_span (dma_memory e2) = S" using span(1) d(5) by (simp add: same_span_def)
    ultimately show ?thesis
      using assms(2) d w p span(2) by (auto simp: send_packet_def Let_def HostMemoryResult_ok_def drv_inv_def split: if_splits)
  next
    fix x assume "mem_wr (dma_memory ?e) a packet = None" "x \<noteq> HmNone"
      "SimpleHostMemory_write (dma_memory ?e) a packet = (\<lparr>hm_error = x, hm_bytes_processed = 0\<rparr>, dma_memory ?e)"
    then show ?thesis using assms(2) d by (auto simp: send_packet_def Let_def HostMemoryResult_ok_def drv_inv_def)
  qed
qed

lemma drv_inv_process:
  assumes "drv_inv S drv"
  shows "drv_inv S (snd (NicDriver_process drv))"
proof -
  obtain dev qp where d: "initialized drv" "driver_device drv = Some dev" "dev_queue_pair dev = Some qp" "qp_ok qp (env_dma (dev_env dev))"
      "mem_span (dma_memory (env_dma (dev_env dev))) = S"
    using assms by (auto simp: drv_inv_def)
  obtain w q env where p: "QueuePair_process_once (qp, dev_env dev) = (w, q, env)" by (metis prod_cases3)
  from process_once_progress [OF d(4) p] d show ?thesis
    by (simp add: NicDriver_process_def process_queue_once_def p Let_def drv_inv_def same_span_def)
qed

text \<open>The buffers of \<^verbatim>\<open>send_packet\<close> are never used again. On a host memory of \<open>mem_size\<close> bytes, a driver whose next buffer is at \<open>a\<close> sends at most
  \<open>(mem_size - a) div 256 + 1\<close> packets with success, however long the run, however small the packets and however often the device is polled in between
  (the run is short enough that the 64-bit address does not wrap around).\<close>

theorem driver_buffer_budget:
  assumes "drv_inv (mem_span m) drv" and "\<forall>a n. mem_span m a n \<noteq> None \<longrightarrow> unat a + n \<le> mem_size" and "unat a \<le> mem_size"
    and "unat a + buffer_use calls < 2 ^ 64" and "driver_run calls (a, drv) = (n, st)"
  shows "n \<le> (mem_size - unat a) div 256 + 1"
proof -
  have "n = 0 \<or> unat a + 256 * (n - 1) \<le> mem_size"
    using assms(1, 4, 5)
  proof (induction calls arbitrary: a drv n)
    case (Cons call calls)
    show ?case
    proof (cases call)
      case (Send packet)
      obtain ok a' drv' where s: "send_packet packet (a, drv) = (ok, a', drv')" by (metis prod_cases3)
      note i = drv_inv_send [OF Cons.prems(1) s]
      obtain n' where r: "driver_run calls (a', drv') = (n', st)" "n = (if ok then Suc n' else n')"
        using Cons.prems(3) s by (auto simp: Send split: prod.splits)
      have a': "unat a' = unat a + length packet + 256"
        using i Cons.prems(2) by (simp add: Send buffer_use_def unat_word_ariths unat_of_nat)
      then have "n' = 0 \<or> unat a' + 256 * (n' - 1) \<le> mem_size"
        using i r(1) Cons.prems(2) by (intro Cons.IH) (simp_all add: Send buffer_use_def)
      moreover have "ok \<Longrightarrow> unat a \<le> mem_size" using i assms(2) by (meson le_add1 order_trans)
      ultimately show ?thesis using r(2) a' by (cases n') auto
    next
      case Poll
      then show ?thesis using Cons.IH [OF drv_inv_process [OF Cons.prems(1)]] Cons.prems(2, 3) by (simp add: buffer_use_def)
    qed
  qed simp
  with assms(3) show ?thesis by (cases n) (auto simp: le_div_geq less_eq_div_iff_mult_less_eq)
qed

theorem driver_buffer_budget_witness:
  "\<exists>n st. driver_run [Send [1], Poll, Send [2], Poll, Send [3]] (0, sample_driver) = (n, st) \<and> n \<le> 1"
proof -
  obtain n st where r: "driver_run [Send [1], Poll, Send [2], Poll, Send [3]] (0, sample_driver) = (n, st)" by (metis surj_pair)
  have "drv_inv (mem_span sample_host) sample_driver" using sample_driver_state by (auto simp: drv_inv_def)
  from driver_buffer_budget [OF this, of 16, OF _ _ _ r] sample_span have "n \<le> 1" by (simp add: buffer_use_def)
  with r show ?thesis by blast
qed

end
