(* ===== verification/Rocev2_Remote.thy ===== *)
theory Rocev2_Remote
  imports Rocev2_End_To_End
begin

text \<open>
  Remote memory access between two engines: WRITE and READ requests from the call that posts them to the completions, over the engines' packet handlers.
  The theory shows that a WRITE puts the data in the peer's memory and completes at the sender, that a READ brings the peer's bytes into the local buffers, and that
  the engine does not take a completed READ off the pending list.
\<close>

section \<open>Writing\<close>

lemma write_builders_for:
  "\<forall>b \<in> set (write_builders qp wqe data). b_dest_qp b = dest_qp_number qp AND 0xFFFFFF \<and> is_write_opcode (b_opcode b)"
proof -
  have "b_dest_qp (write_builder q wqe imm f l psn c) = q AND 0xFFFFFF" "b_dest_qp (zero_write_builder q wqe imm psn) = q AND 0xFFFFFF" for q imm f l psn c
    by (simp_all add: write_builder_def zero_write_builder_def builder_setters RdmaPacketBuilder_new_def Let_def)
  then show ?thesis
    using message_builders_all [of "\<lambda>b. b_dest_qp b = dest_qp_number qp AND 0xFFFFFF \<and> is_write_opcode (b_opcode b)"
        "write_builder (dest_qp_number qp) wqe (swqe_opcode wqe = WqRdmaWriteImm)"]
    by (simp add: write_builders_def Let_def write_builder_fields write_opcode_classes)
qed

lemmas writes_for = packets_for [OF _ _ write_builders_sound write_builders_for]

text \<open>What the peer's completion queues gain: a completion when there is immediate data.\<close>

definition write_posts :: "SendWqe \<Rightarrow> RdmaQueuePair \<Rightarrow> (u32 \<times> RdmaCompletionQueue) list \<Rightarrow> (u32 \<times> RdmaCompletionQueue) list" where
  "write_posts wqe qb cs = (if swqe_opcode wqe = WqRdmaWriteImm
     then post_cq (recv_cq_number (qp_config qb)) (write_cqe (qp_number qb) wqe (hd (recv_queue qb))) cs else cs)"

lemma peer_written:
  assumes packer: "bit_packer ser des" and op: "swqe_opcode wqe \<in> {WqRdmaWrite, WqRdmaWriteImm}"
    and data: "fst (read_from_sgl (eng_memory a) (swqe_sgl wqe) (local_lkey wqe) (mr_table a)) = data"
    and len: "length data = unat (swqe_total_length wqe)"
    and size: "unat (swqe_total_length wqe) + unat (RdmaQueuePair_mtu_bytes qa) \<le> 2 ^ 32"
    and psn: "psn_ok (sq_psn qa)" and dest: "dest_qp_number qa = j" "unat j < 2 ^ 24"
    and gen: "generate_write_packets ser (write_processor a) (side_of a qa) wqe = (packets, p, s)"
    and b: "enabled b" "um_lookup (qps b) j = Some qb" "RdmaQueuePair_can_receive qb" "rq_psn qb = sq_psn qa"
      "write_target (side_of b qb) (swqe_rkey wqe) (remote_address wqe) (swqe_total_length wqe)"
      "swqe_opcode wqe = WqRdmaWriteImm \<Longrightarrow> recv_queue qb \<noteq> []"
  shows "packets \<noteq> []"
    and "eng_memory (receive_all ser des packets b) = (eng_memory b)\<lparr>mem_buffer :=
      memcpy_at (unat (remote_address wqe)) data (mem_buffer (eng_memory b))\<rparr>"
    and "cqs (receive_all ser des packets b) = write_posts wqe qb (cqs b)"
    and "\<exists>cs. cnps_to des (dest_ip qb) cs \<and> outgoing_packets (receive_all ser des packets b) =
      outgoing_packets b @ cs @ [ack_packet ser qb (advance_psn (sq_psn qa) (of_nat (length packets - 1))) asAck]"
proof -
  let ?A = "side_of a qa" and ?B = "side_of b qb" and ?psn = "advance_psn (sq_psn qa) (of_nat (length packets - 1))"
  have side: "side_memory ?A = eng_memory a" "side_mrs ?A = mr_table a" "side_qp ?A = qa" "side_memory ?B = eng_memory b" "side_qp ?B = qb"
    by (simp_all add: side_of_def)
  have h: "fst (read_from_sgl (side_memory ?A) (swqe_sgl wqe) (local_lkey wqe) (side_mrs ?A)) = data" "length data = unat (swqe_total_length wqe)"
    "unat (swqe_total_length wqe) + unat (RdmaQueuePair_mtu_bytes (side_qp ?A)) \<le> 2 ^ 32" "psn_ok (sq_psn (side_qp ?A))"
    and g: "rq_psn (side_qp ?B) = sq_psn (side_qp ?A)" "RdmaQueuePair_can_receive (side_qp ?B)"
    unfolding side by (rule data len size psn b)+
  have g': "swqe_opcode wqe = WqRdmaWriteImm \<Longrightarrow> recv_queue (side_qp ?B) \<noteq> []" unfolding side by (rule b(6))
  have built: "packets = map (RdmaPacketBuilder_build ser) (write_builders qa wqe data)"
    using generate_write_builders [OF op h, of ser "write_processor a"] gen by (auto simp: side)
  let ?ans = "write_answer wqe (swqe_opcode wqe = WqRdmaWriteImm) qb ?psn"
  obtain rs q' s' where run: "write_run (write_processor b) ?B (parse_all des packets) = (rs, q', s')" and ne: "packets \<noteq> []"
    and rs: "rs = replicate (length packets - 1) (WriteResult_default\<lparr>w_success := True\<rparr>) @ [?ans]"
    and mem: "side_memory s' = (eng_memory b)\<lparr>mem_buffer := memcpy_at (unat (remote_address wqe)) data (mem_buffer (eng_memory b))\<rparr>"
    using write_delivers [OF packer op h(1-4) g(1,2) b(5) g' gen, of "write_processor b"] unfolding side by blast
  show "packets \<noteq> []" by (rule ne)
  have for_j: "\<forall>u \<in> set packets. packet_for is_write_opcode des j u" using writes_for [OF packer, of qa wqe data] dest built by simp
  have succ: "\<forall>r \<in> set rs. w_success r" by (auto simp: rs write_answer_def)
  note recv = write_proc.receive_message [OF packer ne b(1,2) for_j run succ]
  show "eng_memory (receive_all ser des packets b) = (eng_memory b)\<lparr>mem_buffer :=
      memcpy_at (unat (remote_address wqe)) data (mem_buffer (eng_memory b))\<rparr>"
    using recv mem by (metis RdmaSide.select_convs(1) side_of_def)
  have "fold (\<lambda>r cs. case w_recv_cqe r of None \<Rightarrow> cs | Some c \<Rightarrow> post_cq n c cs) rs cs =
      (case w_recv_cqe ?ans of None \<Rightarrow> cs | Some c \<Rightarrow> post_cq n c cs)" for n cs
    unfolding rs by (subst fold_answers) (simp_all add: fun_eq_iff WriteResult_default_def)
  with recv show "cqs (receive_all ser des packets b) = write_posts wqe qb (cqs b)"
    by (simp add: write_posts_def write_answer_def)
  show "\<exists>cs. cnps_to des (dest_ip qb) cs \<and> outgoing_packets (receive_all ser des packets b) = outgoing_packets b @ cs @ [ack_packet ser qb ?psn asAck]"
    using recv by (simp add: rs write_answer_def WriteResult_default_def)
qed

lemma generate_write_pending:
  "generate_write_packets ser p s wqe = (ps, p', s') \<Longrightarrow> ps \<noteq> [] \<Longrightarrow>
   map po_wqe (pending_operations (side_qp s')) = map po_wqe (pending_operations (side_qp s)) @ [wqe]"
  by (auto simp: generate_write_packets_def Let_def split: prod.splits if_splits dest!: packet_loop_pending pending_next)

lemma write_completes:
  assumes packer: "bit_packer ser des"
    and a: "enabled a" "um_lookup (qps a) i = Some qa" "qp_number qa = i" "dest_qp_number qa = j" "RdmaQueuePair_can_send qa"
      "psn_ok (sq_psn qa)" "ops_of (reliability_manager a) i = []" "outgoing_packets a = []"
      "um_lookup (cqs a) (send_cq_number (qp_config qa)) = Some sa" "length (cqes sa) < cq_depth sa"
    and op: "swqe_opcode wqe \<in> {WqRdmaWrite, WqRdmaWriteImm}"
    and data: "fst (read_from_sgl (eng_memory a) (swqe_sgl wqe) (local_lkey wqe) (mr_table a)) = data"
    and len: "length data = unat (swqe_total_length wqe)"
    and size: "unat (swqe_total_length wqe) + unat (RdmaQueuePair_mtu_bytes qa) \<le> 2 ^ 32"
    and b: "enabled b" "um_lookup (qps b) j = Some qb" "dest_qp_number qb = i" "RdmaQueuePair_can_receive qb" "rq_psn qb = sq_psn qa"
      "write_target (side_of b qb) (swqe_rkey wqe) (remote_address wqe) (swqe_total_length wqe)"
      "swqe_opcode wqe = WqRdmaWriteImm \<Longrightarrow> recv_queue qb \<noteq> []"
    and numbers: "unat i < 2 ^ 24" "unat j < 2 ^ 24"
    and post: "RdmaEngine_post_send ser a i wqe = (ok, a1)"
  shows "\<exists>packets cs psn. ok \<and> outgoing_packets a1 = map (packet_to qa) packets \<and> cnps_to des (dest_ip qb) cs \<and>
    outgoing_packets (receive_all ser des packets b) = outgoing_packets b @ cs @ [ack_packet ser qb psn asAck] \<and>
    eng_memory (receive_all ser des packets b) = (eng_memory b)\<lparr>mem_buffer :=
      memcpy_at (unat (remote_address wqe)) data (mem_buffer (eng_memory b))\<rparr> \<and>
    cqs (receive_all ser des packets b) = write_posts wqe qb (cqs b) \<and>
    (\<forall>a' us. core a' = core a1 \<longrightarrow> cqs a' = cqs a1 \<longrightarrow> eng_config a' = eng_config a1 \<longrightarrow> (\<forall>u \<in> set us. is_cnp des u) \<longrightarrow>
      (let a2 = receive_all ser des (us @ [out_data (ack_packet ser qb psn asAck)]) a' in
       request_done i qa sa wqe a2))"
proof -
  obtain packets p s where gen: "generate_write_packets ser (write_processor a) (side_of a qa) wqe = (packets, p, s)"
    by (metis prod_cases3)
  note peer = peer_written [OF packer op data len size a(6,4) numbers(2) gen b(1,2,4-7)]
  define psn where "psn = advance_psn (sq_psn qa) (of_nat (length packets - 1))"
  have "generate_packets ser a i qa wqe = (packets, put_side i s (a\<lparr>write_processor := p\<rparr>))" "qp_key (side_qp s) = qp_key qa"
    "map po_wqe (pending_operations (side_qp s)) = map po_wqe (pending_operations qa) @ [wqe]"
    using gen op generate_write_same [OF gen] generate_write_pending [OF gen peer(1)] by (auto simp: generate_packets_def side_of_def)
  from request_acked [OF packer a(1-3,5-7,9,10) this(1) peer(1) this(2,3) _ _ _ _ _ b(3) numbers(1) psn_def post]
  have acked: "ok \<and> outgoing_packets a1 = map (packet_to qa) packets \<and>
    (\<forall>a' us. core a' = core a1 \<longrightarrow> cqs a' = cqs a1 \<longrightarrow> eng_config a' = eng_config a1 \<longrightarrow> (\<forall>u \<in> set us. is_cnp des u) \<longrightarrow>
      (let a2 = receive_all ser des (us @ [out_data (ack_packet ser qb psn asAck)]) a' in
       request_done i qa sa wqe a2))"
    using a(8) by simp
  obtain cs where "cnps_to des (dest_ip qb) cs"
    "outgoing_packets (receive_all ser des packets b) = outgoing_packets b @ cs @ [ack_packet ser qb psn asAck]"
    using peer(4) by (auto simp: psn_def)
  with peer(2,3) acked show ?thesis by (intro exI [of _ packets] exI [of _ cs] exI [of _ psn] conjI) simp_all
qed

section \<open>Reading\<close>

lemma response_builders_for:
  "\<forall>b \<in> set (response_builders qp data). b_dest_qp b = dest_qp_number qp AND 0xFFFFFF \<and> is_response_opcode (b_opcode b)"
proof -
  have "b_dest_qp (response_builder q f l psn c) = q AND 0xFFFFFF" "b_dest_qp (zero_response_builder q psn) = q AND 0xFFFFFF"
    "is_response_opcode (get_read_response_opcode f l)" for q f l psn c
    by (simp_all add: response_builder_def zero_response_builder_def builder_setters RdmaPacketBuilder_new_def Let_def
        get_read_response_opcode_def is_response_opcode_def)
  then show ?thesis
    using message_builders_all [of "\<lambda>b. b_dest_qp b = dest_qp_number qp AND 0xFFFFFF \<and> is_response_opcode (b_opcode b)"
        "response_builder (dest_qp_number qp)"]
    by (simp add: response_builders_def response_fields)
qed

lemmas responses_for = packets_for [OF _ _ response_builders_sound response_builders_for]

lemma response_builders_nonempty: "response_builders qp data \<noteq> []"
proof -
  have "message_builders mk f psn cs = [] \<longleftrightarrow> cs = []" for mk f psn cs by (cases cs) simp_all
  then show ?thesis using mtu_bounds(1) [of qp] by (auto simp: response_builders_def chunks_Nil_iff)
qed

lemma read_request_parsed:
  fixes wqe :: SendWqe and psn :: u32
  assumes "bit_packer ser des" "unat j < 2 ^ 24"
  defines "x \<equiv> parsed_builder (read_request_builder j wqe psn)"
  shows "RdmaPacketParser_parse des (RdmaPacketBuilder_build ser (read_request_builder j wqe psn)) = Some x"
    "bth_dest_qp (p_bth x) = j" "bth_opcode (p_bth x) = kRcReadRequest"
proof -
  have "sound_builder (read_request_builder j wqe psn)"
    by (simp add: sound_builder_def response_reachable response_fields has_immediate_variant_def)
  from parse_sound [OF assms(1) this] show "RdmaPacketParser_parse des (RdmaPacketBuilder_build ser (read_request_builder j wqe psn)) = Some x"
    by (simp add: x_def)
  show "bth_dest_qp (p_bth x) = j" "bth_opcode (p_bth x) = kRcReadRequest"
    using masked24 [OF assms(2)]
    by (simp_all add: x_def parsed_builder_def response_fields) (simp add: read_request_builder_def builder_setters RdmaPacketBuilder_new_def Let_def)
qed

lemma queue_responses:
  fixes packets :: "bytes list"
  defines "f \<equiv> \<lambda>qp packet e. count_packets_sent 1 (queue_outgoing_packet packet qp e)"
  shows "outgoing_packets (fold (f qp) packets e) = outgoing_packets e @ map (packet_to qp) packets
    \<and> core (fold (f qp) packets e) = core e \<and> cqs (fold (f qp) packets e) = cqs e"
proof (induction packets arbitrary: e)
  case (Cons packet packets)
  then show ?case by (simp add: f_def) (simp add: queue_outgoing_packet_def count_packets_sent_def packet_to_def)
qed simp

text \<open>The responder's engine: it queues the response packets and changes neither its memory nor its completion queues.\<close>

lemma peer_answers:
  assumes packer: "bit_packer ser des" and j: "unat j < 2 ^ 24" and b: "enabled b" "um_lookup (qps b) j = Some qb"
    and resp: "process_read_request ser (read_processor b) (side_of b qb) (parsed_builder (read_request_builder j wqe psn)) =
      (ReadRequestResult_default\<lparr>rq_response_packets := us, rq_success := True\<rparr>, p, s)" "side_memory s = eng_memory b"
  defines "b1 \<equiv> snd (process_incoming_packet ser des b (RdmaPacketBuilder_build ser (read_request_builder j wqe psn)))"
  shows "eng_memory b1 = eng_memory b" "cqs b1 = cqs b"
    "\<exists>cs. cnps_to des (dest_ip qb) cs \<and> outgoing_packets b1 = outgoing_packets b @ cs @ map (packet_to qb) us"
proof -
  let ?u = "RdmaPacketBuilder_build ser (read_request_builder j wqe psn)" and ?x = "parsed_builder (read_request_builder j wqe psn)"
  note x = read_request_parsed [OF packer j, of wqe psn]
  define e1 where "e1 = notify_congestion ser b j qb"
  define e2 where "e2 = e1\<lparr>eng_stats := (eng_stats e1)\<lparr>es_packets_received := es_packets_received (eng_stats e1) + 1,
                         es_bytes_received := es_bytes_received (eng_stats e1) + of_nat (length ?u)\<rparr>\<rparr>"
  have c: "core e2 = core b" "cqs e2 = cqs b" by (simp_all add: e2_def e1_def)
  then have same: "read_processor e2 = read_processor b" "side_of e2 qb = side_of b qb" by (simp_all add: core_def side_of_def)
  have "b1 = RdmaEngine_process_read_request_packet ser e2 j qb ?x"
    using b x by (simp add: b1_def process_incoming_packet_def dispatch_packet_def opcode_defs Let_def flip: e1_def e2_def)
  moreover have "packet_to (side_qp s) = packet_to qb"
    using process_request_same [OF resp(1)] by (intro ext) (simp add: packet_to_def qp_key_def side_of_def)
  ultimately have b1: "outgoing_packets b1 = outgoing_packets e2 @ map (packet_to qb) us" "core b1 = core (put_side j s (e2\<lparr>read_processor := p\<rparr>))" "cqs b1 = cqs e2"
    using queue_responses [where qp = "side_qp s" and packets = us and e = "put_side j s (e2\<lparr>read_processor := p\<rparr>)"] resp(1)
    by (simp_all add: RdmaEngine_process_read_request_packet_def same ReadRequestResult_default_def put_side_def Let_def)
  then show "eng_memory b1 = eng_memory b" "cqs b1 = cqs b"
    using c(2) resp(2) by (simp_all add: core_def put_side_def)
  from notify_outgoing [OF packer, of qb b j] obtain cs where "cnps_to des (dest_ip qb) cs" "outgoing_packets e2 = outgoing_packets b @ cs"
    by (auto simp: e2_def e1_def)
  with b1(1) show "\<exists>cs. cnps_to des (dest_ip qb) cs \<and> outgoing_packets b1 = outgoing_packets b @ cs @ map (packet_to qb) us" by auto
qed

definition read_completion :: "u32 \<Rightarrow> SendWqe \<Rightarrow> RdmaCqe" where
  "read_completion n wqe = \<lparr>cqe_wr_id = swqe_wr_id wqe, cqe_status = WsSuccess, cqe_opcode = WqRdmaRead, cqe_qp_number = n,
     bytes_completed = swqe_total_length wqe, cqe_immediate_data = 0, cqe_has_immediate = False, cqe_is_send = True\<rparr>"

definition pending_read :: "u32 \<Rightarrow> SendWqe \<Rightarrow> PendingAck" where
  "pending_read psn wqe = \<lparr>pa_start_psn = psn, pa_end_psn = psn, pa_send_time_us = 0, pa_wr_id = swqe_wr_id wqe,
     pa_opcode = swqe_opcode wqe, pa_retry_count = 0, waiting_for_ack = True\<rparr>"

lemma read_answers:
  "fold (\<lambda>r cs. case rr_cqe r of None \<Rightarrow> cs | Some c \<Rightarrow> post_cq n c cs) (replicate k (ReadResponseResult_default\<lparr>rr_success := True\<rparr>) @ [read_done i wqe]) cs
     = post_cq n (read_completion i wqe) cs"
  by (subst fold_answers) (simp_all add: fun_eq_iff read_done_def read_completion_def ReadResponseResult_default_def)

text \<open>The requester's engine with the request outstanding: the response packets, after any notification packets, place the bytes and add the completion.
  The reliability manager is not told.\<close>

lemma responses_complete:
  assumes packer: "bit_packer ser des" and e: "enabled e" "um_lookup (qps e) i = Some q" and qb: "dest_qp_number qb = i" "unat i < 2 ^ 24"
    and run: "read_run (read_processor e) (side_of e q) (parse_all des (map (RdmaPacketBuilder_build ser) (response_builders qb data))) =
      (replicate k (ReadResponseResult_default\<lparr>rr_success := True\<rparr>) @ [read_done i wqe], p, s)"
    and e': "core e' = core e" "cqs e' = cqs e" "eng_config e' = eng_config e" "\<forall>u \<in> set us. is_cnp des u"
  defines "e2 \<equiv> receive_all ser des (us @ map (RdmaPacketBuilder_build ser) (response_builders qb data)) e'"
  shows "eng_memory e2 = side_memory s" "cqs e2 = post_cq (send_cq_number (qp_config q)) (read_completion i wqe) (cqs e)"
    "reliability_manager e2 = reliability_manager e" "enabled e2" "\<exists>q'. um_lookup (qps e2) i = Some q' \<and> qp_key q' = qp_key q"
proof -
  let ?responses = "map (RdmaPacketBuilder_build ser) (response_builders qb data)"
  define e3 where "e3 = receive_all ser des us e'"
  have "core e3 = core e \<and> cqs e3 = cqs e \<and> eng_config e3 = eng_config e"
    using receive_cnps [OF e'(4), of ser e'] e'(1-3) by (simp add: e3_def)
  then have e3: "enabled e3" "um_lookup (qps e3) i = Some q" "cqs e3 = cqs e" "reliability_manager e3 = reliability_manager e"
      "read_processor e3 = read_processor e" "side_of e3 q = side_of e q"
    using e by (simp_all add: core_def side_of_def)
  have for_i: "\<forall>u \<in> set ?responses. packet_for is_response_opcode des i u" using responses_for [OF packer, of qb data] qb by simp
  have ne: "?responses \<noteq> []" by (simp add: response_builders_nonempty)
  have succ: "\<forall>r \<in> set (replicate k (ReadResponseResult_default\<lparr>rr_success := True\<rparr>) @ [read_done i wqe]). rr_success r" by (auto simp: read_done_def)
  have "e2 = receive_all ser des ?responses e3" by (simp add: e2_def e3_def receive_all_append)
  with response_proc.receive_message [OF packer ne e3(1,2) for_i _ succ, unfolded e3(5,6), OF run]
  have r: "side_of e2 (side_qp s) = s" "cqs e2 = post_cq (send_cq_number (qp_config q)) (read_completion i wqe) (cqs e)" "reliability_manager e2 = reliability_manager e"
    and "enabled e2" "\<exists>q'. um_lookup (qps e2) i = Some q' \<and> qp_key q' = qp_key q"
    using e3(3,4) unfolding read_answers by simp_all
  then show "enabled e2" "\<exists>q'. um_lookup (qps e2) i = Some q' \<and> qp_key q' = qp_key q" by simp_all
  from r(1) show "eng_memory e2 = side_memory s" by (metis RdmaSide.select_convs(1) side_of_def)
  from r(2,3) show "cqs e2 = post_cq (send_cq_number (qp_config q)) (read_completion i wqe) (cqs e)" "reliability_manager e2 = reliability_manager e" .
qed

lemma read_completes:
  assumes packer: "bit_packer ser des"
    and a: "enabled a" "um_lookup (qps a) i = Some qa" "qp_number qa = i" "dest_qp_number qa = j" "RdmaQueuePair_can_send qa"
      "psn_ok (sq_psn qa)" "ops_of (reliability_manager a) i = []" "outgoing_packets a = []"
      "um_lookup (cqs a) (send_cq_number (qp_config qa)) = Some sa" "length (cqes sa) < cq_depth sa"
      "sgl_target (Some (local_lkey wqe)) (swqe_sgl wqe) (eng_memory a) (mr_table a)" "unat (swqe_total_length wqe) \<le> length (sgl_bytes (swqe_sgl wqe))"
    and op: "swqe_opcode wqe = WqRdmaRead"
    and b: "enabled b" "um_lookup (qps b) j = Some qb" "dest_qp_number qb = i" "RdmaQueuePair_can_receive qb" "rq_psn qb = sq_psn qa" "psn_ok (sq_psn qb)"
      "read_source (side_of b qb) (swqe_rkey wqe) (remote_address wqe) (swqe_total_length wqe)"
      "unat (swqe_total_length wqe) + unat (RdmaQueuePair_mtu_bytes qb) \<le> 2 ^ 32"
    and numbers: "unat i < 2 ^ 24" "unat j < 2 ^ 24"
    and post: "RdmaEngine_post_send ser a i wqe = (ok, a1)"
    and data: "data = subspan (unat (remote_address wqe)) (unat (swqe_total_length wqe)) (mem_buffer (eng_memory b))"
  shows "\<exists>u cs responses. ok \<and> outgoing_packets a1 = [packet_to qa u] \<and> cnps_to des (dest_ip qb) cs \<and>
    outgoing_packets (receive_all ser des [u] b) = outgoing_packets b @ cs @ map (packet_to qb) responses \<and>
    eng_memory (receive_all ser des [u] b) = eng_memory b \<and> cqs (receive_all ser des [u] b) = cqs b \<and>
    (\<forall>a' us. core a' = core a1 \<longrightarrow> cqs a' = cqs a1 \<longrightarrow> eng_config a' = eng_config a1 \<longrightarrow> (\<forall>u \<in> set us. is_cnp des u) \<longrightarrow>
      (let a2 = receive_all ser des (us @ responses) a' in
       enabled a2 \<and> (\<exists>q'. um_lookup (qps a2) i = Some q' \<and> qp_key q' = qp_key qa) \<and>
       eng_memory a2 = (eng_memory a)\<lparr>mem_buffer := poke (take (unat (swqe_total_length wqe)) (sgl_bytes (swqe_sgl wqe))) data (mem_buffer (eng_memory a))\<rparr> \<and>
       (\<exists>cq. um_lookup (cqs a2) (send_cq_number (qp_config qa)) = Some cq \<and> cqes cq = cqes sa @ [read_completion i wqe] \<and> cq_depth cq = cq_depth sa) \<and>
       ops_of (reliability_manager a2) i = [pending_read (sq_psn qa) wqe]))"
proof -
  let ?A = "side_of a qa" and ?B = "side_of b qb" and ?responses = "map (RdmaPacketBuilder_build ser) (response_builders qb data)"
  let ?rq = "read_request_builder j wqe (sq_psn qa)"
  have side: "side_memory ?A = eng_memory a" "side_mrs ?A = mr_table a" "side_qp ?A = qa" "side_memory ?B = eng_memory b" "side_qp ?B = qb"
    by (simp_all add: side_of_def)
  obtain request pa s where gen: "generate_read_request ser (read_processor a) ?A wqe = (request, pa, s)" by (metis prod_cases3)
  have hyps: "psn_ok (sq_psn (side_qp ?A))" "rq_psn (side_qp ?B) = sq_psn (side_qp ?A)" "psn_ok (sq_psn (side_qp ?B))" "RdmaQueuePair_can_receive (side_qp ?B)"
    "unat (swqe_total_length wqe) + unat (RdmaQueuePair_mtu_bytes (side_qp ?B)) \<le> 2 ^ 32"
    "sgl_target (Some (local_lkey wqe)) (swqe_sgl wqe) (side_memory ?A) (side_mrs ?A)"
    unfolding side by (rule a b)+
  obtain pb sb rs k pa2 s2 where req: "request = [RdmaPacketBuilder_build ser ?rq]"
    and resp: "process_read_request ser (read_processor b) ?B (parsed_builder ?rq) =
        (ReadRequestResult_default\<lparr>rq_response_packets := ?responses, rq_success := True\<rparr>, pb, sb)" "side_memory sb = eng_memory b"
    and run: "read_run pa s (parse_all des ?responses) = (rs, pa2, s2)" "rs = replicate k (ReadResponseResult_default\<lparr>rr_success := True\<rparr>) @ [read_done i wqe]"
      "side_memory s2 = (eng_memory a)\<lparr>mem_buffer := poke (take (unat (swqe_total_length wqe)) (sgl_bytes (swqe_sgl wqe))) data (mem_buffer (eng_memory a))\<rparr>"
    using read_returns [OF packer op hyps(1-4) b(7) hyps(5,6) a(12) gen, of "read_processor b"] unfolding side a(3,4) data [symmetric] by blast
  have key: "qp_key (side_qp s) = qp_key qa" using generate_read_same [OF gen] by (simp add: side)
  have "generate_packets ser a i qa wqe = (request, put_side i s (a\<lparr>read_processor := pa\<rparr>))"
    using gen op by (simp add: generate_packets_def)
  from post_send_effect [OF a(1,2,5) this] post a(8) req have a1: "ok" "outgoing_packets a1 = [packet_to qa (RdmaPacketBuilder_build ser ?rq)]"
    "um_lookup (qps a1) i = Some (side_qp s)" "side_of a1 (side_qp s) = s" "cqs a1 = cqs a" "enabled a1" "read_processor a1 = pa"
    "reliability_manager a1 = add_pending (reliability_manager a) i (sq_psn qa) (sq_psn qa) (swqe_wr_id wqe) (swqe_opcode wqe) 0"
    using a(1) by (auto simp: last_psn_def)
  have half: "enabled a2 \<and> (\<exists>q'. um_lookup (qps a2) i = Some q' \<and> qp_key q' = qp_key qa) \<and>
      eng_memory a2 = (eng_memory a)\<lparr>mem_buffer := poke (take (unat (swqe_total_length wqe)) (sgl_bytes (swqe_sgl wqe))) data (mem_buffer (eng_memory a))\<rparr> \<and>
      (\<exists>cq. um_lookup (cqs a2) (send_cq_number (qp_config qa)) = Some cq \<and> cqes cq = cqes sa @ [read_completion i wqe] \<and> cq_depth cq = cq_depth sa) \<and>
      ops_of (reliability_manager a2) i = [pending_read (sq_psn qa) wqe]"
    if "core a' = core a1" "cqs a' = cqs a1" "eng_config a' = eng_config a1" "\<forall>u \<in> set us. is_cnp des u"
      and a2: "a2 = receive_all ser des (us @ ?responses) a'" for a' a2 us
    using responses_complete [OF packer a1(6,3) b(3) numbers(1), unfolded a1(4,7), OF run(1) [unfolded run(2)] that(1-4), folded a2]
      post_cq_grows [OF a(9,10), of "read_completion i wqe"] key run(3) a1(5,8) a(7)
    by (simp add: ops_of_add pending_read_def qp_key_def)
  have u: "receive_all ser des [RdmaPacketBuilder_build ser ?rq] b = snd (process_incoming_packet ser des b (RdmaPacketBuilder_build ser ?rq))"
    by (simp add: receive_all_def)
  note ans = peer_answers [OF packer numbers(2) b(1,2) resp, folded u]
  obtain cs where "cnps_to des (dest_ip qb) cs"
    "outgoing_packets (receive_all ser des [RdmaPacketBuilder_build ser ?rq] b) = outgoing_packets b @ cs @ map (packet_to qb) ?responses"
    using ans(3) by blast
  with a1(1,2) ans(1,2) half show ?thesis
    unfolding Let_def by (intro exI [of _ "RdmaPacketBuilder_build ser ?rq"] exI [of _ cs] exI [of _ ?responses] conjI) blast+
qed

lemma cnps_data: "cnps_to des ip cs \<Longrightarrow> \<forall>u \<in> set (map out_data cs). is_cnp des u"
  by (auto simp: cnps_to_def)

lemma to_data [simp]: "map out_data (map (packet_to qp) us) = us"
  by (simp add: o_def)

text \<open>Both directions of a READ, with everything the second engine queued.\<close>

lemma read_round_trip:
  assumes packer: "bit_packer ser des"
    and a: "enabled a" "um_lookup (qps a) i = Some qa" "qp_number qa = i" "dest_qp_number qa = j" "RdmaQueuePair_can_send qa"
      "psn_ok (sq_psn qa)" "ops_of (reliability_manager a) i = []" "outgoing_packets a = []"
      "um_lookup (cqs a) (send_cq_number (qp_config qa)) = Some sa" "length (cqes sa) < cq_depth sa"
      "sgl_target (Some (local_lkey wqe)) (swqe_sgl wqe) (eng_memory a) (mr_table a)" "unat (swqe_total_length wqe) \<le> length (sgl_bytes (swqe_sgl wqe))"
    and op: "swqe_opcode wqe = WqRdmaRead"
    and b: "enabled b" "um_lookup (qps b) j = Some qb" "dest_qp_number qb = i" "RdmaQueuePair_can_receive qb" "rq_psn qb = sq_psn qa" "psn_ok (sq_psn qb)"
      "read_source (side_of b qb) (swqe_rkey wqe) (remote_address wqe) (swqe_total_length wqe)"
      "unat (swqe_total_length wqe) + unat (RdmaQueuePair_mtu_bytes qb) \<le> 2 ^ 32" "outgoing_packets b = []"
    and numbers: "unat i < 2 ^ 24" "unat j < 2 ^ 24"
    and post: "RdmaEngine_post_send ser a i wqe = (ok, a1)"
    and there: "b1 = receive_all ser des (map out_data (outgoing_packets a1)) b"
    and return: "a2 = receive_all ser des (map out_data (outgoing_packets b1)) a1"
  shows "ok \<and> eng_memory b1 = eng_memory b \<and> cqs b1 = cqs b \<and>
    enabled a2 \<and> (\<exists>q'. um_lookup (qps a2) i = Some q' \<and> qp_key q' = qp_key qa) \<and>
    eng_memory a2 = (eng_memory a)\<lparr>mem_buffer := poke (take (unat (swqe_total_length wqe)) (sgl_bytes (swqe_sgl wqe)))
      (subspan (unat (remote_address wqe)) (unat (swqe_total_length wqe)) (mem_buffer (eng_memory b))) (mem_buffer (eng_memory a))\<rparr> \<and>
    (\<exists>cq. um_lookup (cqs a2) (send_cq_number (qp_config qa)) = Some cq \<and> cqes cq = cqes sa @ [read_completion i wqe] \<and> cq_depth cq = cq_depth sa) \<and>
    ops_of (reliability_manager a2) i = [pending_read (sq_psn qa) wqe]"
proof -
  let ?data = "subspan (unat (remote_address wqe)) (unat (swqe_total_length wqe)) (mem_buffer (eng_memory b))"
  obtain u cs responses where
    r: "ok" "outgoing_packets a1 = [packet_to qa u]" "cnps_to des (dest_ip qb) cs"
      "outgoing_packets (receive_all ser des [u] b) = cs @ map (packet_to qb) responses"
      "eng_memory (receive_all ser des [u] b) = eng_memory b" "cqs (receive_all ser des [u] b) = cqs b"
    and half: "\<forall>us. (\<forall>u \<in> set us. is_cnp des u) \<longrightarrow> (let a2 = receive_all ser des (us @ responses) a1 in
       enabled a2 \<and> (\<exists>q'. um_lookup (qps a2) i = Some q' \<and> qp_key q' = qp_key qa) \<and>
       eng_memory a2 = (eng_memory a)\<lparr>mem_buffer := poke (take (unat (swqe_total_length wqe)) (sgl_bytes (swqe_sgl wqe))) ?data (mem_buffer (eng_memory a))\<rparr> \<and>
       (\<exists>cq. um_lookup (cqs a2) (send_cq_number (qp_config qa)) = Some cq \<and> cqes cq = cqes sa @ [read_completion i wqe] \<and> cq_depth cq = cq_depth sa) \<and>
       ops_of (reliability_manager a2) i = [pending_read (sq_psn qa) wqe])"
    using read_completes [OF packer a op b(1-8) numbers post refl] unfolding b(9) append_Nil by blast
  have b1: "b1 = receive_all ser des [u] b" by (simp add: there r(2))
  have "a2 = receive_all ser des (map out_data cs @ responses) a1" by (simp add: return b1 r(4) o_def)
  with half cnps_data [OF r(3)] r(1, 5, 6) show ?thesis unfolding b1 by (simp add: Let_def)
qed

section \<open>Properties\<close>

text \<open>C4: a WRITE completes at both ends. An engine with a queue pair ready to send, no other request outstanding and a readable local buffer posts a WRITE; its
  packets go into a second engine whose queue pair is the peer, expects the sender's sequence number and grants the key the whole range, with a
  receive request posted if there is immediate data. Then posting succeeds; the second engine's memory holds the message at the remote address and nothing else has
  changed; its completion queues gained the completion of the immediate data or nothing; and everything it queued, notification packets and the
  acknowledgement, given back to the first engine, adds exactly the completion of the request and leaves the reliability manager no request of the queue pair. The queue
  pair's own list of pending operations still ends with the request, since the engine does not hand acknowledgements to the queue pair.\<close>

theorem rdma_write_end_to_end:
  assumes packer: "bit_packer ser des"
    and a: "enabled a" "um_lookup (qps a) i = Some qa" "qp_number qa = i" "dest_qp_number qa = j" "RdmaQueuePair_can_send qa"
      "psn_ok (sq_psn qa)" "ops_of (reliability_manager a) i = []" "outgoing_packets a = []"
      "um_lookup (cqs a) (send_cq_number (qp_config qa)) = Some sa" "length (cqes sa) < cq_depth sa"
    and op: "swqe_opcode wqe \<in> {WqRdmaWrite, WqRdmaWriteImm}"
    and data: "fst (read_from_sgl (eng_memory a) (swqe_sgl wqe) (local_lkey wqe) (mr_table a)) = data"
    and len: "length data = unat (swqe_total_length wqe)"
    and size: "unat (swqe_total_length wqe) + unat (RdmaQueuePair_mtu_bytes qa) \<le> 2 ^ 32"
    and b: "enabled b" "um_lookup (qps b) j = Some qb" "dest_qp_number qb = i" "RdmaQueuePair_can_receive qb" "rq_psn qb = sq_psn qa"
      "write_target (side_of b qb) (swqe_rkey wqe) (remote_address wqe) (swqe_total_length wqe)"
      "swqe_opcode wqe = WqRdmaWriteImm \<Longrightarrow> recv_queue qb \<noteq> []" "outgoing_packets b = []"
      "um_lookup (cqs b) (recv_cq_number (qp_config qb)) = Some rb" "length (cqes rb) < cq_depth rb"
    and numbers: "unat i < 2 ^ 24" "unat j < 2 ^ 24"
    and post: "RdmaEngine_post_send ser a i wqe = (ok, a1)"
    and there: "b1 = receive_all ser des (map out_data (outgoing_packets a1)) b"
    and return: "a2 = receive_all ser des (map out_data (outgoing_packets b1)) a1"
  shows "ok \<and>
    eng_memory b1 = (eng_memory b)\<lparr>mem_buffer := memcpy_at (unat (remote_address wqe)) data (mem_buffer (eng_memory b))\<rparr> \<and>
    (if swqe_opcode wqe = WqRdmaWriteImm
     then \<exists>cq. um_lookup (cqs b1) (recv_cq_number (qp_config qb)) = Some cq \<and> cqes cq = cqes rb @ [write_cqe (qp_number qb) wqe (hd (recv_queue qb))]
     else cqs b1 = cqs b) \<and>
    (\<exists>cq. um_lookup (cqs a2) (send_cq_number (qp_config qa)) = Some cq \<and> cqes cq = cqes sa @ [send_cqe i (swqe_wr_id wqe)]) \<and>
    ops_of (reliability_manager a2) i = [] \<and>
    (\<exists>q. um_lookup (qps a2) i = Some q \<and> map po_wqe (pending_operations q) = map po_wqe (pending_operations qa) @ [wqe])"
proof -
  from write_completes [OF packer a op data len size b(1-7) numbers post] obtain packets cs psn where
    r: "ok" "outgoing_packets a1 = map (packet_to qa) packets" "cnps_to des (dest_ip qb) cs"
      "outgoing_packets (receive_all ser des packets b) = cs @ [ack_packet ser qb psn asAck]"
      "eng_memory (receive_all ser des packets b) = (eng_memory b)\<lparr>mem_buffer :=
        memcpy_at (unat (remote_address wqe)) data (mem_buffer (eng_memory b))\<rparr>"
      "cqs (receive_all ser des packets b) = write_posts wqe qb (cqs b)"
    and acked: "\<forall>us. (\<forall>u \<in> set us. is_cnp des u) \<longrightarrow> (let a2 = receive_all ser des (us @ [out_data (ack_packet ser qb psn asAck)]) a1 in
       request_done i qa sa wqe a2)"
    using b(8) by (simp only: append_Nil) blast
  have b1: "b1 = receive_all ser des packets b" by (simp add: there r(2) del: map_map)
  have "a2 = receive_all ser des (map out_data cs @ [out_data (ack_packet ser qb psn asAck)]) a1" by (simp add: return b1 r(4))
  with acked cnps_data [OF r(3)] have "request_done i qa sa wqe a2"
    by (simp add: Let_def)
  with r(1, 5, 6) post_cq_room [OF b(9,10)] show ?thesis unfolding b1 by (simp add: write_posts_def)
qed

lemma sample_side_of: "side_of (sample_engine ip bs) (sample_qp ip) = (sample_side bs)\<lparr>side_qp := sample_qp ip\<rparr>"
  by (simp add: side_of_def sample_engine_fields) (simp add: sample_side_def)

lemma sample_remote:
  "swqe_opcode sample_write \<in> {WqRdmaWrite, WqRdmaWriteImm}"
  "fst (read_from_sgl (eng_memory (sample_engine ip [0, 1, 2, 3, 4, 5, 6, 7, 8, 9, 10, 11])) (swqe_sgl sample_write) (local_lkey sample_write)
     (mr_table (sample_engine ip [0, 1, 2, 3, 4, 5, 6, 7, 8, 9, 10, 11]))) = [5, 6, 7]"
  "length [5, 6, 7 :: byte] = unat (swqe_total_length sample_write)"
  "unat (swqe_total_length sample_write) + unat (RdmaQueuePair_mtu_bytes (sample_qp ip)) \<le> 2 ^ 32"
  "write_target (side_of (sample_engine ip' [0, 0, 0, 0, 0, 0, 0, 0, 0, 0, 0, 0]) (sample_qp ip')) (swqe_rkey sample_write) (remote_address sample_write)
     (swqe_total_length sample_write)"
  "swqe_wr_id sample_write = 5" "unat (remote_address sample_write) = 6" "swqe_opcode sample_write = WqRdmaWriteImm"
proof -
  show "fst (read_from_sgl (eng_memory (sample_engine ip [0, 1, 2, 3, 4, 5, 6, 7, 8, 9, 10, 11])) (swqe_sgl sample_write) (local_lkey sample_write)
     (mr_table (sample_engine ip [0, 1, 2, 3, 4, 5, 6, 7, 8, 9, 10, 11]))) = [5, 6, 7]"
    unfolding sample_engine_fields using sample_read [of "[0, 1, 2, 3, 4, 5, 6, 7, 8, 9, 10, 11]"] by (simp add: sample_write_def sample_side_def)
  show "write_target (side_of (sample_engine ip' [0, 0, 0, 0, 0, 0, 0, 0, 0, 0, 0, 0]) (sample_qp ip')) (swqe_rkey sample_write) (remote_address sample_write)
     (swqe_total_length sample_write)"
    unfolding sample_side_of using sample_flat [of "[0, 0, 0, 0, 0, 0, 0, 0, 0, 0, 0, 0]"]
    by (simp add: write_target_def validate_rkey_eq sample_write_def) (simp add: sample_defs sample_mrs_maps RdmaQueuePair_new_def RdmaQpConfig_default_def)
qed (simp_all add: sample_write_def sample_send_def RdmaQueuePair_mtu_bytes_def RdmaQueuePair_new_def)

theorem rdma_write_end_to_end_witness:
  "\<exists>a1 b1 a2 cqa cqb. RdmaEngine_post_send msb_ser (sample_engine [] [0, 1, 2, 3, 4, 5, 6, 7, 8, 9, 10, 11]) 1 sample_write = (True, a1) \<and>
     b1 = receive_all msb_ser msb_des (map out_data (outgoing_packets a1)) (sample_engine [] [0, 0, 0, 0, 0, 0, 0, 0, 0, 0, 0, 0]) \<and>
     a2 = receive_all msb_ser msb_des (map out_data (outgoing_packets b1)) a1 \<and>
     mem_buffer (eng_memory b1) = [0, 0, 0, 0, 0, 0, 5, 6, 7, 0, 0, 0] \<and>
     um_lookup (cqs b1) 0 = Some cqb \<and> map cqe_wr_id (cqes cqb) = [77] \<and>
     um_lookup (cqs a2) 0 = Some cqa \<and> map cqe_wr_id (cqes cqa) = [5]"
proof -
  obtain ok a1 where post: "RdmaEngine_post_send msb_ser (sample_engine [] [0, 1, 2, 3, 4, 5, 6, 7, 8, 9, 10, 11]) 1 sample_write = (ok, a1)"
    by (metis surj_pair)
  have posted: "recv_queue (sample_qp []) \<noteq> []" by simp
  note all = rdma_write_end_to_end [OF msb.bit_packer_axioms sample_engine_fields(1,2) sample_qp_fields(1-4) sample_engine_fields(3,4) sample_cqs(1)
      sample_room(1) sample_remote(1-4) sample_engine_fields(1,2) [where ip = "[]"] sample_qp_fields(2,5,6) sample_remote(5) posted
      sample_engine_fields(4) sample_cqs(2) sample_room(1) sample_room(4,4) post refl refl,
      unfolded sample_engine_fields(6) sample_room(3) sample_qp_fields(7-9) sample_remote(6-8)]
  then show ?thesis
    using post by (auto simp: write_cqe_def send_cqe_def sample_recv_def sample_memory_def memcpy_at_def)
qed

text \<open>C5: a READ brings the remote bytes. An engine with a queue pair ready to send, no other request outstanding and local buffers with enough room posts a READ; its
  packet goes into a second engine whose queue pair is the peer, expects the sender's sequence number and grants the key the whole range for reading. Then posting succeeds;
  the second engine changes neither its memory nor its completion queues; and everything it queued, notification packets and responses, given back to the
  first engine, puts exactly the remote bytes into the local scatter list and adds exactly the completion of the request. The
  request stays on the pending list, though: the engine does not tell its reliability manager that the responses arrived.\<close>

theorem rdma_read_end_to_end:
  assumes packer: "bit_packer ser des"
    and a: "enabled a" "um_lookup (qps a) i = Some qa" "qp_number qa = i" "dest_qp_number qa = j" "RdmaQueuePair_can_send qa"
      "psn_ok (sq_psn qa)" "ops_of (reliability_manager a) i = []" "outgoing_packets a = []"
      "um_lookup (cqs a) (send_cq_number (qp_config qa)) = Some sa" "length (cqes sa) < cq_depth sa"
      "sgl_target (Some (local_lkey wqe)) (swqe_sgl wqe) (eng_memory a) (mr_table a)" "unat (swqe_total_length wqe) \<le> length (sgl_bytes (swqe_sgl wqe))"
    and op: "swqe_opcode wqe = WqRdmaRead"
    and b: "enabled b" "um_lookup (qps b) j = Some qb" "dest_qp_number qb = i" "RdmaQueuePair_can_receive qb" "rq_psn qb = sq_psn qa" "psn_ok (sq_psn qb)"
      "read_source (side_of b qb) (swqe_rkey wqe) (remote_address wqe) (swqe_total_length wqe)"
      "unat (swqe_total_length wqe) + unat (RdmaQueuePair_mtu_bytes qb) \<le> 2 ^ 32" "outgoing_packets b = []"
    and numbers: "unat i < 2 ^ 24" "unat j < 2 ^ 24"
    and post: "RdmaEngine_post_send ser a i wqe = (ok, a1)"
    and there: "b1 = receive_all ser des (map out_data (outgoing_packets a1)) b"
    and return: "a2 = receive_all ser des (map out_data (outgoing_packets b1)) a1"
  shows "ok \<and> eng_memory b1 = eng_memory b \<and> cqs b1 = cqs b \<and>
    eng_memory a2 = (eng_memory a)\<lparr>mem_buffer := poke (take (unat (swqe_total_length wqe)) (sgl_bytes (swqe_sgl wqe)))
      (subspan (unat (remote_address wqe)) (unat (swqe_total_length wqe)) (mem_buffer (eng_memory b))) (mem_buffer (eng_memory a))\<rparr> \<and>
    (\<exists>cq. um_lookup (cqs a2) (send_cq_number (qp_config qa)) = Some cq \<and> cqes cq = cqes sa @ [read_completion i wqe]) \<and>
    ops_of (reliability_manager a2) i = [pending_read (sq_psn qa) wqe]"
  using read_round_trip [OF packer a op b numbers post there return] by blast

lemma sample_reading:
  "sgl_target (Some (local_lkey sample_read_req)) (swqe_sgl sample_read_req) (eng_memory (sample_engine ip [0, 0, 0, 0, 0, 0, 0, 0, 0, 0, 0, 0]))
     (mr_table (sample_engine ip [0, 0, 0, 0, 0, 0, 0, 0, 0, 0, 0, 0]))"
  "unat (swqe_total_length sample_read_req) \<le> length (sgl_bytes (swqe_sgl sample_read_req))" "swqe_opcode sample_read_req = WqRdmaRead"
  "read_source (side_of (sample_engine ip' [0, 1, 2, 3, 4, 5, 6, 7, 8, 9, 10, 11]) (sample_qp ip')) (swqe_rkey sample_read_req) (remote_address sample_read_req)
     (swqe_total_length sample_read_req)"
  "unat (swqe_total_length sample_read_req) + unat (RdmaQueuePair_mtu_bytes (sample_qp ip)) \<le> 2 ^ 32"
  "sgl_bytes (swqe_sgl sample_read_req) = [4, 8, 9]" "unat (swqe_total_length sample_read_req) = 3" "unat (remote_address sample_read_req) = 5"
  "swqe_wr_id sample_read_req = 6"
proof -
  show "sgl_target (Some (local_lkey sample_read_req)) (swqe_sgl sample_read_req) (eng_memory (sample_engine ip [0, 0, 0, 0, 0, 0, 0, 0, 0, 0, 0, 0]))
     (mr_table (sample_engine ip [0, 0, 0, 0, 0, 0, 0, 0, 0, 0, 0, 0]))"
    unfolding sample_engine_fields using sample_flat [of "[0, 0, 0, 0, 0, 0, 0, 0, 0, 0, 0, 0]"]
    by (simp add: sgl_target_def validate_lkey_eq sample_read_req_def) (simp add: sample_defs sample_mrs_maps)
  show "read_source (side_of (sample_engine ip' [0, 1, 2, 3, 4, 5, 6, 7, 8, 9, 10, 11]) (sample_qp ip')) (swqe_rkey sample_read_req) (remote_address sample_read_req)
     (swqe_total_length sample_read_req)"
    unfolding sample_side_of using sample_flat [of "[0, 1, 2, 3, 4, 5, 6, 7, 8, 9, 10, 11]"]
    by (simp add: read_source_def validate_rkey_eq sample_read_req_def) (simp add: sample_defs sample_mrs_maps RdmaQueuePair_new_def RdmaQpConfig_default_def)
qed (simp_all add: sample_read_req_def sample_send_def RdmaQueuePair_mtu_bytes_def RdmaQueuePair_new_def sgl_bytes_def sge_bytes_def upt_rec)

lemma sample_spare: "length (cqes (RdmaCompletionQueue_new 0 4)) + 1 < cq_depth (RdmaCompletionQueue_new 0 4)"
  by (simp add: RdmaCompletionQueue_new_def)

lemma sample_psns: "psn_ok (sq_psn (sample_qp ip))" "psn_ok 0" "(0 - sq_psn (sample_qp ip)) AND kMaxPsn < 0x800000"
  by (simp_all add: RdmaQueuePair_new_def)

theorem rdma_read_end_to_end_witness:
  "\<exists>a1 b1 a2 cqa. RdmaEngine_post_send msb_ser (sample_engine [] [0, 0, 0, 0, 0, 0, 0, 0, 0, 0, 0, 0]) 1 sample_read_req = (True, a1) \<and>
     b1 = receive_all msb_ser msb_des (map out_data (outgoing_packets a1)) (sample_engine [] [0, 1, 2, 3, 4, 5, 6, 7, 8, 9, 10, 11]) \<and>
     a2 = receive_all msb_ser msb_des (map out_data (outgoing_packets b1)) a1 \<and>
     mem_buffer (eng_memory a2) = [0, 0, 0, 0, 5, 0, 0, 0, 6, 7, 0, 0] \<and>
     um_lookup (cqs a2) 0 = Some cqa \<and> map cqe_wr_id (cqes cqa) = [6]"
proof -
  obtain ok a1 where post: "RdmaEngine_post_send msb_ser (sample_engine [] [0, 0, 0, 0, 0, 0, 0, 0, 0, 0, 0, 0]) 1 sample_read_req = (ok, a1)"
    by (metis surj_pair)
  note all = rdma_read_end_to_end [OF msb.bit_packer_axioms sample_engine_fields(1,2) sample_qp_fields(1-4) sample_engine_fields(3,4) sample_cqs(1)
      sample_room(1) sample_reading(1-3) sample_engine_fields(1,2) [where ip = "[]"] sample_qp_fields(2,5,6) sample_psns(1) sample_reading(4,5)
      sample_engine_fields(4) sample_room(4,4) post refl refl,
      unfolded sample_engine_fields(6) sample_room(3) sample_qp_fields(8) sample_reading(6-9)]
  then show ?thesis
    using post by (auto simp: read_completion_def sample_reading(9) sample_memory_def subspan_def)
qed

text \<open>C29: a READ completes twice. After the exchange of the previous theorem, any acknowledgement from the peer that reaches the READ's sequence number, such as the one of the next
  SEND or WRITE, adds a second completion of the same request to the send completion queue, without its opcode and length.\<close>

theorem read_completed_again:
  assumes packer: "bit_packer ser des"
    and a: "enabled a" "um_lookup (qps a) i = Some qa" "qp_number qa = i" "dest_qp_number qa = j" "RdmaQueuePair_can_send qa"
      "psn_ok (sq_psn qa)" "ops_of (reliability_manager a) i = []" "outgoing_packets a = []"
      "um_lookup (cqs a) (send_cq_number (qp_config qa)) = Some sa" "length (cqes sa) + 1 < cq_depth sa"
      "sgl_target (Some (local_lkey wqe)) (swqe_sgl wqe) (eng_memory a) (mr_table a)" "unat (swqe_total_length wqe) \<le> length (sgl_bytes (swqe_sgl wqe))"
    and op: "swqe_opcode wqe = WqRdmaRead"
    and b: "enabled b" "um_lookup (qps b) j = Some qb" "dest_qp_number qb = i" "RdmaQueuePair_can_receive qb" "rq_psn qb = sq_psn qa" "psn_ok (sq_psn qb)"
      "read_source (side_of b qb) (swqe_rkey wqe) (remote_address wqe) (swqe_total_length wqe)"
      "unat (swqe_total_length wqe) + unat (RdmaQueuePair_mtu_bytes qb) \<le> 2 ^ 32" "outgoing_packets b = []"
    and numbers: "unat i < 2 ^ 24" "unat j < 2 ^ 24"
    and post: "RdmaEngine_post_send ser a i wqe = (ok, a1)"
    and there: "b1 = receive_all ser des (map out_data (outgoing_packets a1)) b"
    and return: "a2 = receive_all ser des (map out_data (outgoing_packets b1)) a1"
    and ack: "psn_ok psn" "(psn - sq_psn qa) AND kMaxPsn < 0x800000"
      "a3 = snd (process_incoming_packet ser des a2 (RdmaPacketBuilder_build ser (ack_builder qb psn asAck)))"
  shows "\<exists>cq. um_lookup (cqs a3) (send_cq_number (qp_config qa)) = Some cq \<and>
    cqes cq = cqes sa @ [read_completion i wqe, send_cqe i (swqe_wr_id wqe)]"
proof -
  have room: "length (cqes sa) < cq_depth sa" using a(10) by simp
  obtain q' cq where r: "enabled a2" "um_lookup (qps a2) i = Some q'" "qp_key q' = qp_key qa" "ops_of (reliability_manager a2) i = [pending_read (sq_psn qa) wqe]"
    and cq: "um_lookup (cqs a2) (send_cq_number (qp_config qa)) = Some cq" "cqes cq = cqes sa @ [read_completion i wqe]" "cq_depth cq = cq_depth sa"
    using read_round_trip [OF packer a(1-9) room a(11,12) op b numbers post there return] by blast
  have q': "qp_number q' = i" "qp_config q' = qp_config qa" using r(3) a(3) by (simp_all add: qp_key_def)
  obtain x ah where x: "RdmaPacketParser_parse des (RdmaPacketBuilder_build ser (ack_builder qb psn asAck)) = Some x"
    "bth_dest_qp (p_bth x) = i" "bth_opcode (p_bth x) = kRcAck" "bth_psn (p_bth x) = psn" "p_aeth x = Some ah" "aeth_syndrome ah = asAck"
    using ack_parsed [OF packer, of qb psn] b(3) numbers(1) ack(1) by auto
  obtain res rm where pr: "process_ack (reliability_manager a2) (qp_number q') (bth_psn (p_bth x)) = (res, rm)" by (metis surj_pair)
  have "completed_wr_ids res = [swqe_wr_id wqe]"
    using process_ack_conv(1) [of "reliability_manager a2" i psn] pr r(4) ack(2) by (simp add: q' x(4) pending_read_def fully_acked_def)
  with incoming_ack [OF r(1,2) x(1-3,5,6) pr, of ser] have "cqs a3 = post_cq (send_cq_number (qp_config qa)) (send_cqe i (swqe_wr_id wqe)) (cqs a2)"
    by (simp add: ack(3) q')
  with post_cq_room [OF cq(1), of "send_cqe i (swqe_wr_id wqe)"] cq(2,3) a(10) show ?thesis by auto
qed

theorem read_completed_again_witness:
  "\<exists>a1 b1 a2 a3 cqa. RdmaEngine_post_send msb_ser (sample_engine [] [0, 0, 0, 0, 0, 0, 0, 0, 0, 0, 0, 0]) 1 sample_read_req = (True, a1) \<and>
     b1 = receive_all msb_ser msb_des (map out_data (outgoing_packets a1)) (sample_engine [] [0, 1, 2, 3, 4, 5, 6, 7, 8, 9, 10, 11]) \<and>
     a2 = receive_all msb_ser msb_des (map out_data (outgoing_packets b1)) a1 \<and>
     a3 = snd (process_incoming_packet msb_ser msb_des a2 (RdmaPacketBuilder_build msb_ser (ack_builder (sample_qp []) 0 asAck))) \<and>
     um_lookup (cqs a3) 0 = Some cqa \<and> map cqe_wr_id (cqes cqa) = [6, 6]"
proof -
  obtain ok a1 where post: "RdmaEngine_post_send msb_ser (sample_engine [] [0, 0, 0, 0, 0, 0, 0, 0, 0, 0, 0, 0]) 1 sample_read_req = (ok, a1)"
    by (metis surj_pair)
  note all = read_completed_again [OF msb.bit_packer_axioms sample_engine_fields(1,2) sample_qp_fields(1-4) sample_engine_fields(3,4) sample_cqs(1)
      sample_spare sample_reading(1-3) sample_engine_fields(1,2) [where ip = "[]"] sample_qp_fields(2,5,6) sample_psns(1) sample_reading(4,5)
      sample_engine_fields(4) sample_room(4,4) post refl refl sample_psns(2,3) refl, unfolded sample_room(3) sample_qp_fields(8) sample_reading(9)]
  moreover have "ok" using read_round_trip [OF msb.bit_packer_axioms sample_engine_fields(1,2) sample_qp_fields(1-4) sample_engine_fields(3,4) sample_cqs(1)
      sample_room(1) sample_reading(1-3) sample_engine_fields(1,2) [where ip = "[]"] sample_qp_fields(2,5,6) sample_psns(1) sample_reading(4,5)
      sample_engine_fields(4) sample_room(4,4) post refl refl] by blast
  ultimately show ?thesis
    using post by (auto simp: read_completion_def send_cqe_def sample_reading(9))
qed

end
