(* ===== verification/Nic_Router.thy ===== *)
theory Nic_Router
  imports Nic_Driver Rocev2_Remote
begin

text \<open>
  The packet router (\<^verbatim>\<open>packet_router.h/.cpp\<close>), which connects drivers by IP address. A \<^verbatim>\<open>NicDriver*\<close> is an index into the
  drivers of the program, \<open>None\<close> the null pointer. The theory shows that a round of the router hands every driver exactly the packets
  addressed to it, in the order of the senders' registration and of each sender's queue, and that two rounds carry a SEND, a WRITE or a READ posted at one driver
  and its answer.
\<close>

section \<open>The router\<close>

record DriverEntry =
  entry_ip :: bytes
  entry_driver :: "nat option"

record PacketRouter =
  router_drivers :: "DriverEntry list"

type_synonym drivers = "nat \<Rightarrow> NicDriver"

definition PacketRouter_new :: PacketRouter where
  "PacketRouter_new = \<lparr>router_drivers = []\<rparr>"

primrec register_entry :: "bytes \<Rightarrow> nat option \<Rightarrow> DriverEntry list \<Rightarrow> DriverEntry list" where
  "register_entry ip driver [] = [\<lparr>entry_ip = ip, entry_driver = driver\<rparr>]"
| "register_entry ip driver (entry # es) =
     (if entry_ip entry = ip then entry\<lparr>entry_driver := driver\<rparr> # es else entry # register_entry ip driver es)"

definition register_driver :: "bytes \<Rightarrow> nat option \<Rightarrow> PacketRouter \<Rightarrow> PacketRouter" where
  "register_driver ip driver rt =
     (if driver = None then rt else rt\<lparr>router_drivers := register_entry ip driver (router_drivers rt)\<rparr>)"

primrec erase_entry :: "bytes \<Rightarrow> DriverEntry list \<Rightarrow> DriverEntry list" where
  "erase_entry ip [] = []"
| "erase_entry ip (entry # es) = (if entry_ip entry = ip then es else entry # erase_entry ip es)"

definition unregister_driver :: "bytes \<Rightarrow> PacketRouter \<Rightarrow> PacketRouter" where
  "unregister_driver ip rt = rt\<lparr>router_drivers := erase_entry ip (router_drivers rt)\<rparr>"

primrec find_entry :: "bytes \<Rightarrow> DriverEntry list \<Rightarrow> nat option" where
  "find_entry ip [] = None"
| "find_entry ip (entry # es) = (if entry_ip entry = ip then entry_driver entry else find_entry ip es)"

definition find_driver :: "bytes \<Rightarrow> PacketRouter \<Rightarrow> nat option" where
  "find_driver ip rt = find_entry ip (router_drivers rt)"

definition driver_count :: "PacketRouter \<Rightarrow> nat" where
  "driver_count rt = length (router_drivers rt)"

definition route_packet ::
  "(nat list \<Rightarrow> u64 list \<Rightarrow> bytes) \<Rightarrow> (nat list \<Rightarrow> bytes \<Rightarrow> u64 list) \<Rightarrow> PacketRouter \<Rightarrow> OutgoingPacket \<Rightarrow> bytes \<Rightarrow> drivers \<Rightarrow> bool \<times> drivers" where
  "route_packet ser des rt packet src_ip ds =
     (case find_driver (out_dest_ip packet) rt of
        None \<Rightarrow> (False, ds)
      | Some d \<Rightarrow>
          let (r, drv) = rdma_process_packet ser des (out_data packet) src_ip (out_dest_ip packet) (out_src_port packet) (ds d)
          in (r, ds(d := drv)))"

text \<open>The two loops of \<^verbatim>\<open>process_all\<close>: what every registered driver has queued is collected, then it is routed.\<close>

primrec collect_packets :: "DriverEntry list \<Rightarrow> drivers \<Rightarrow> (bytes \<times> OutgoingPacket list) list \<times> drivers" where
  "collect_packets [] ds = ([], ds)"
| "collect_packets (entry # es) ds =
     (case (case entry_driver entry of None \<Rightarrow> None | Some d \<Rightarrow> if rdma_enabled (ds d) then Some d else None) of
        None \<Rightarrow> collect_packets es ds
      | Some d \<Rightarrow>
          let (packets, drv) = rdma_generate_packets (ds d); (pending, ds') = collect_packets es (ds(d := drv))
          in (if packets = [] then pending else (entry_ip entry, packets) # pending, ds'))"

primrec route_packets ::
  "(nat list \<Rightarrow> u64 list \<Rightarrow> bytes) \<Rightarrow> (nat list \<Rightarrow> bytes \<Rightarrow> u64 list) \<Rightarrow> PacketRouter \<Rightarrow> bytes \<Rightarrow> OutgoingPacket list \<Rightarrow> nat \<times> drivers \<Rightarrow> nat \<times> drivers" where
  "route_packets ser des rt src_ip [] st = st"
| "route_packets ser des rt src_ip (packet # packets) st =
     (let (routed, ds) = route_packet ser des rt packet src_ip (snd st)
      in route_packets ser des rt src_ip packets (if routed then fst st + 1 else fst st, ds))"

definition process_all ::
  "(nat list \<Rightarrow> u64 list \<Rightarrow> bytes) \<Rightarrow> (nat list \<Rightarrow> bytes \<Rightarrow> u64 list) \<Rightarrow> PacketRouter \<Rightarrow> drivers \<Rightarrow> nat \<times> drivers" where
  "process_all ser des rt ds =
     (let (pending_packets, ds1) = collect_packets (router_drivers rt) ds
      in fold (\<lambda>(src_ip, packets). route_packets ser des rt src_ip packets) pending_packets (0, ds1))"

section \<open>Registration\<close>

text \<open>The registered addresses stay distinct, and the router is a finite map from addresses to drivers.\<close>

definition router_ok :: "PacketRouter \<Rightarrow> bool" where
  "router_ok rt \<longleftrightarrow> distinct (map entry_ip (router_drivers rt)) \<and> None \<notin> entry_driver ` set (router_drivers rt)"

lemma register_entry_props:
  "find_entry ip' (register_entry ip driver es) = (if ip' = ip then driver else find_entry ip' es)"
  "entry_ip ` set (register_entry ip driver es) = insert ip (entry_ip ` set es)"
  "distinct (map entry_ip es) \<Longrightarrow> distinct (map entry_ip (register_entry ip driver es))"
  "entry_driver ` set (register_entry ip driver es) \<subseteq> insert driver (entry_driver ` set es)"
  by (induction es) auto

lemma erase_entry_props:
  "set (erase_entry ip es) \<subseteq> set es" "distinct (map entry_ip es) \<Longrightarrow> distinct (map entry_ip (erase_entry ip es))"
  "distinct (map entry_ip es) \<Longrightarrow> find_entry ip' (erase_entry ip es) = (if ip' = ip then None else find_entry ip' es)"
proof -
  show sub: "set (erase_entry ip es) \<subseteq> set es" for es by (induction es) auto
  show "distinct (map entry_ip es) \<Longrightarrow> distinct (map entry_ip (erase_entry ip es))"
    using sub by (induction es) fastforce+
  have absent: "ip \<notin> entry_ip ` set es \<Longrightarrow> find_entry ip es = None" for ip es by (induction es) auto
  show "distinct (map entry_ip es) \<Longrightarrow> find_entry ip' (erase_entry ip es) = (if ip' = ip then None else find_entry ip' es)"
    by (induction es) (auto simp: absent)
qed

lemma router_ok_new [simp]: "router_ok PacketRouter_new"
  by (simp add: router_ok_def PacketRouter_new_def)

lemma router_ok_register [simp]: "router_ok rt \<Longrightarrow> router_ok (register_driver ip driver rt)"
  using register_entry_props [where es = "router_drivers rt" and ip = ip and driver = driver]
  by (auto simp: router_ok_def register_driver_def)

lemma router_ok_unregister [simp]: "router_ok rt \<Longrightarrow> router_ok (unregister_driver ip rt)"
  using erase_entry_props [where es = "router_drivers rt" and ip = ip] by (auto simp: router_ok_def unregister_driver_def)

lemma find_registered:
  "find_driver ip' (register_driver ip (Some d) rt) = (if ip' = ip then Some d else find_driver ip' rt)"
  by (simp add: find_driver_def register_driver_def register_entry_props)

lemma find_unregistered:
  "router_ok rt \<Longrightarrow> find_driver ip' (unregister_driver ip rt) = (if ip' = ip then None else find_driver ip' rt)"
  by (simp add: router_ok_def find_driver_def unregister_driver_def erase_entry_props)

section \<open>One round\<close>

definition tx_queued :: "NicDriver \<Rightarrow> OutgoingPacket list" where
  "tx_queued drv = fst (rdma_generate_packets drv)"

definition drained :: "NicDriver \<Rightarrow> NicDriver" where
  "drained drv = snd (rdma_generate_packets drv)"

text \<open>The packets on the wire in a round, each with its sender's address.\<close>

definition wire :: "DriverEntry list \<Rightarrow> drivers \<Rightarrow> (bytes \<times> OutgoingPacket) list" where
  "wire es ds = concat (map (\<lambda>entry. map (Pair (entry_ip entry)) (case entry_driver entry of None \<Rightarrow> [] | Some d \<Rightarrow> tx_queued (ds d))) es)"

definition deliver ::
  "(nat list \<Rightarrow> u64 list \<Rightarrow> bytes) \<Rightarrow> (nat list \<Rightarrow> bytes \<Rightarrow> u64 list) \<Rightarrow> bytes \<times> OutgoingPacket \<Rightarrow> NicDriver \<Rightarrow> NicDriver" where
  "deliver ser des = (\<lambda>(src_ip, packet) drv.
     snd (rdma_process_packet ser des (out_data packet) src_ip (out_dest_ip packet) (out_src_port packet) drv))"

lemma disabled_idle: "\<not> rdma_enabled drv \<Longrightarrow> tx_queued drv = [] \<and> drained drv = drv"
  by (simp add: rdma_enabled_def tx_queued_def drained_def rdma_generate_packets_def on_engine_def with_rdma_def split: if_splits option.splits)

lemma collect_packets_eq:
  assumes "distinct (map entry_driver es)"
  shows "concat (map (\<lambda>(ip, ps). map (Pair ip) ps) (fst (collect_packets es ds))) = wire es ds \<and>
    snd (collect_packets es ds) = (\<lambda>d. if Some d \<in> entry_driver ` set es then drained (ds d) else ds d)"
  using assms
proof (induction es arbitrary: ds)
  case (Cons entry es)
  show ?case
  proof (cases "case entry_driver entry of None \<Rightarrow> None | Some d \<Rightarrow> if rdma_enabled (ds d) then Some d else None")
    case None
    then show ?thesis
      using Cons disabled_idle by (auto simp: wire_def fun_eq_iff split: option.splits if_splits)
  next
    case (Some d)
    then have d: "entry_driver entry = Some d" by (auto split: option.splits if_splits)
    have "Some d \<notin> entry_driver ` set es" using Cons.prems d by (auto simp: image_iff)
    then have same: "wire es (ds(d := drv)) = wire es ds" for drv
      unfolding wire_def by (intro arg_cong [where f = concat] map_cong) (auto split: option.split simp: image_iff)
    define ds1 where "ds1 = ds(d := drained (ds d))"
    have step: "collect_packets (entry # es) ds = (if tx_queued (ds d) = [] then fst (collect_packets es ds1)
        else (entry_ip entry, tx_queued (ds d)) # fst (collect_packets es ds1), snd (collect_packets es ds1))"
      using Some by (simp add: tx_queued_def drained_def ds1_def Let_def case_prod_beta)
    have "wire (entry # es) ds = map (Pair (entry_ip entry)) (tx_queued (ds d)) @ wire es ds1"
      using same by (simp add: wire_def d ds1_def)
    moreover have "snd (collect_packets es ds1) = (\<lambda>x. if Some x \<in> entry_driver ` set (entry # es) then drained (ds x) else ds x)"
    proof (rule ext)
      have "snd (collect_packets es ds1) = (\<lambda>x. if Some x \<in> entry_driver ` set es then drained (ds1 x) else ds1 x)"
        using Cons by simp
      then show "snd (collect_packets es ds1) x = (if Some x \<in> entry_driver ` set (entry # es) then drained (ds x) else ds x)" for x
        using \<open>Some d \<notin> entry_driver ` set es\<close> by (simp add: d ds1_def)
    qed
    ultimately show ?thesis
      unfolding step using Cons.IH [of ds1] Cons.prems by simp
  qed
qed (simp add: wire_def)

text \<open>Where a packet goes.\<close>

definition addressed :: "PacketRouter \<Rightarrow> nat \<Rightarrow> bytes \<times> OutgoingPacket \<Rightarrow> bool" where
  "addressed rt d x \<longleftrightarrow> find_driver (out_dest_ip (snd x)) rt = Some d"

lemma route_step: "snd (route_packet ser des rt packet ip ds) d =
    (if addressed rt d (ip, packet) then deliver ser des (ip, packet) (ds d) else ds d)"
  by (simp add: route_packet_def addressed_def deliver_def case_prod_beta split: option.split)

lemma route_packets_eq:
  "snd (route_packets ser des rt ip packets st) d =
     fold (deliver ser des) (filter (addressed rt d) (map (Pair ip) packets)) (snd st d)"
  by (induction packets arbitrary: st) (simp_all add: route_step case_prod_beta)

lemma route_pending_eq:
  "snd (fold (\<lambda>(ip, packets). route_packets ser des rt ip packets) pending st) d =
     fold (deliver ser des) (filter (addressed rt d) (concat (map (\<lambda>(ip, ps). map (Pair ip) ps) pending))) (snd st d)"
  by (induction pending arbitrary: st) (simp_all add: route_packets_eq case_prod_beta)

lemma process_all_eq:
  assumes "distinct (map entry_driver (router_drivers rt))"
  shows "snd (process_all ser des rt ds) d =
    fold (deliver ser des) (filter (addressed rt d) (wire (router_drivers rt) ds))
      (if Some d \<in> entry_driver ` set (router_drivers rt) then drained (ds d) else ds d)"
  using collect_packets_eq [OF assms, of ds] by (simp add: process_all_def route_pending_eq case_prod_beta Let_def)

section \<open>The engine behind a driver\<close>

text \<open>The engine of a driver, with the memory of its device: the RDMA calls of the driver are the calls of this engine.\<close>

definition engine_of :: "NicDriver \<Rightarrow> RdmaEngine option" where
  "engine_of drv =
     (case (if initialized drv then driver_device drv else None) of
        None \<Rightarrow> None
      | Some dev \<Rightarrow> map_option (\<lambda>e. e\<lparr>eng_memory := dma_memory (env_dma (dev_env dev))\<rparr>) (dev_rdma_engine dev))"

lemma on_engine_engine:
  assumes "engine_of drv = Some e"
  shows "fst (on_engine f fail drv) = fst (f e) \<and> engine_of (snd (on_engine f fail drv)) = Some (snd (f e))"
  using assms by (auto simp: engine_of_def on_engine_def with_rdma_def Let_def case_prod_beta split: if_splits option.splits)

lemma queued_engine: "engine_of drv = Some e \<Longrightarrow> tx_queued drv = outgoing_packets e \<and> engine_of (drained drv) = Some (e\<lparr>outgoing_packets := []\<rparr>)"
  using on_engine_engine [of drv e generate_outgoing_packets "[]"]
  by (simp add: tx_queued_def drained_def rdma_generate_packets_def generate_outgoing_packets_def)

lemma queued_drained [simp]: "tx_queued (drained drv) = []"
  by (cases "engine_of drv")
    (auto simp: queued_engine tx_queued_def drained_def rdma_generate_packets_def on_engine_def with_rdma_def engine_of_def generate_outgoing_packets_def Let_def
      split: if_splits option.splits)

lemma deliver_engine:
  "engine_of drv = Some e \<Longrightarrow> engine_of (fold (deliver ser des) xs drv) = Some (receive_all ser des (map (out_data \<circ> snd) xs) e)"
proof (induction xs arbitrary: drv e)
  case (Cons x xs)
  have "engine_of (deliver ser des x drv) = Some (snd (process_incoming_packet ser des e (out_data (snd x))))"
    using on_engine_engine [OF Cons.prems, of "\<lambda>e. process_incoming_packet ser des e (out_data (snd x))" False] by (simp add: deliver_def rdma_process_packet_def case_prod_beta)
  from Cons.IH [OF this] show ?case by (simp add: receive_all_def)
qed (simp add: receive_all_def)

section \<open>A round with one sender\<close>

lemma wire_one_sender:
  assumes "distinct (map entry_driver es)" "entry \<in> set es" "entry_driver entry = Some x"
    and "\<forall>d. Some d \<in> entry_driver ` set es \<longrightarrow> d \<noteq> x \<longrightarrow> tx_queued (ds d) = []"
  shows "wire es ds = map (Pair (entry_ip entry)) (tx_queued (ds x))"
  using assms
proof (induction es)
  case (Cons e es)
  let ?w = "case entry_driver e of None \<Rightarrow> [] | Some d \<Rightarrow> tx_queued (ds d)"
  have w: "wire (e # es) ds = map (Pair (entry_ip e)) ?w @ wire es ds" by (simp add: wire_def)
  show ?case
  proof (cases "e = entry")
    case True
    then have "\<forall>d. Some d \<in> entry_driver ` set es \<longrightarrow> tx_queued (ds d) = []" using Cons.prems by (auto simp: image_iff)
    then have "wire es ds = []" by (auto simp: wire_def split: option.split) (metis image_eqI)
    then show ?thesis using True Cons.prems(3) w by simp
  next
    case False
    then have "entry \<in> set es" using Cons.prems by simp
    then have "entry_driver e \<noteq> Some x" using Cons.prems by (auto simp: image_iff)
    then have "?w = []" using Cons.prems(4) by (auto split: option.split)
    then show ?thesis using Cons \<open>entry \<in> set es\<close> w by simp
  qed
qed simp

lemma find_driver_entry: "find_driver ip rt = Some d \<Longrightarrow> \<exists>entry \<in> set (router_drivers rt). entry_ip entry = ip \<and> entry_driver entry = Some d"
proof -
  have "find_entry ip es = Some d \<Longrightarrow> \<exists>entry \<in> set es. entry_ip entry = ip \<and> entry_driver entry = Some d" for es
    by (induction es) (auto split: if_splits)
  then show "find_driver ip rt = Some d \<Longrightarrow> ?thesis" by (simp add: find_driver_def)
qed

text \<open>If one driver alone has packets queued and all of them go to one other driver, a round moves them there and changes no engine otherwise.\<close>

lemma round_one_sender:
  fixes ser :: "nat list \<Rightarrow> u64 list \<Rightarrow> bytes" and des :: "nat list \<Rightarrow> bytes \<Rightarrow> u64 list"
  assumes d: "distinct (map entry_driver (router_drivers rt))" "find_driver ipx rt = Some x" "find_driver ipy rt = Some y" "x \<noteq> y"
    and ex: "engine_of (ds x) = Some ex" and ey: "engine_of (ds y) = Some ey"
    and quiet: "\<forall>d. Some d \<in> entry_driver ` set (router_drivers rt) \<longrightarrow> d \<noteq> x \<longrightarrow> tx_queued (ds d) = []"
    and dest: "\<forall>packet \<in> set (outgoing_packets ex). out_dest_ip packet = ipy"
  defines "ds' \<equiv> snd (process_all ser des rt ds)"
  shows "engine_of (ds' x) = Some (ex\<lparr>outgoing_packets := []\<rparr>)"
    and "engine_of (ds' y) = Some (receive_all ser des (map out_data (outgoing_packets ex)) ey)"
    and "Some d \<in> entry_driver ` set (router_drivers rt) \<Longrightarrow> d \<noteq> y \<Longrightarrow> tx_queued (ds' d) = []"
proof -
  obtain a b where a: "a \<in> set (router_drivers rt)" "entry_driver a = Some x" and b: "b \<in> set (router_drivers rt)" "entry_driver b = Some y"
    using find_driver_entry d(2,3) by metis
  have w: "wire (router_drivers rt) ds = map (Pair (entry_ip a)) (outgoing_packets ex)"
    using wire_one_sender [OF d(1) a quiet] queued_engine [OF ex] by simp
  have f: "filter (addressed rt d) (wire (router_drivers rt) ds) = (if d = y then wire (router_drivers rt) ds else [])" for d
    unfolding w using dest d(3) by (auto simp: addressed_def filter_empty_conv intro!: filter_True)
  have reg: "Some x \<in> entry_driver ` set (router_drivers rt)" "Some y \<in> entry_driver ` set (router_drivers rt)"
    using a b by (metis image_eqI)+
  have eq: "ds' d = (if d = y then fold (deliver ser des) (wire (router_drivers rt) ds) (drained (ds y))
      else if Some d \<in> entry_driver ` set (router_drivers rt) then drained (ds d) else ds d)" for d
    unfolding ds'_def process_all_eq [OF d(1)] f using reg(2) by simp
  show "engine_of (ds' x) = Some (ex\<lparr>outgoing_packets := []\<rparr>)" using eq [of x] d(4) reg queued_engine [OF ex] by simp
  have "outgoing_packets ey = []" using queued_engine [OF ey] quiet reg(2) d(4) by simp
  then have "engine_of (drained (ds y)) = Some ey" using queued_engine [OF ey] by simp
  from deliver_engine [OF this] show "engine_of (ds' y) = Some (receive_all ser des (map out_data (outgoing_packets ex)) ey)"
    using eq [of y] by (simp add: w o_def)
  show "Some d \<in> entry_driver ` set (router_drivers rt) \<Longrightarrow> d \<noteq> y \<Longrightarrow> tx_queued (ds' d) = []" using eq [of d] by simp
qed

section \<open>Two drivers\<close>

text \<open>A request and its answer: one driver posts a request whose packets go to another one, which answers; two rounds carry both.\<close>

lemma two_rounds:
  assumes rt: "distinct (map entry_driver (router_drivers rt))" "find_driver ipa rt = Some x" "find_driver ipb rt = Some y" "x \<noteq> y"
      "\<forall>d. Some d \<in> entry_driver ` set (router_drivers rt) \<longrightarrow> tx_queued (ds d) = []"
    and engines: "engine_of drv = Some a1" "engine_of (ds y) = Some b"
    and packets: "outgoing_packets a1 = map (packet_to qa) packets" "dest_ip qa = ipb"
      "\<forall>packet \<in> set (outgoing_packets (receive_all ser des packets b)). out_dest_ip packet = ipa"
    and rounds: "process_all ser des rt (ds(x := drv)) = (n1, ds1)" "process_all ser des rt ds1 = (n2, ds2)"
  shows "engine_of (ds2 y) = Some ((receive_all ser des packets b)\<lparr>outgoing_packets := []\<rparr>)"
    "engine_of (ds2 x) = Some (receive_all ser des (map out_data (outgoing_packets (receive_all ser des packets b))) (a1\<lparr>outgoing_packets := []\<rparr>))"
proof -
  let ?reg = "entry_driver ` set (router_drivers rt)"
  have "engine_of ((ds(x := drv)) x) = Some a1" "engine_of ((ds(x := drv)) y) = Some b"
    "\<forall>d. Some d \<in> ?reg \<longrightarrow> d \<noteq> x \<longrightarrow> tx_queued ((ds(x := drv)) d) = []" "\<forall>packet \<in> set (outgoing_packets a1). out_dest_ip packet = ipb"
    using engines packets(1,2) rt(4,5) by auto
  note round1 = round_one_sender [OF rt(1-4) this, where ser = ser and des = des, unfolded rounds(1) snd_conv]
  have e1: "engine_of (ds1 y) = Some (receive_all ser des packets b)" "engine_of (ds1 x) = Some (a1\<lparr>outgoing_packets := []\<rparr>)"
    using round1(1,2) by (simp_all add: packets(1) o_def)
  with round1(3) packets(3) show "engine_of (ds2 y) = Some ((receive_all ser des packets b)\<lparr>outgoing_packets := []\<rparr>)"
    "engine_of (ds2 x) = Some (receive_all ser des (map out_data (outgoing_packets (receive_all ser des packets b))) (a1\<lparr>outgoing_packets := []\<rparr>))"
    using round_one_sender(1,2) [OF rt(1,3,2) rt(4) [symmetric] e1, where ser = ser and des = des, unfolded rounds(2) snd_conv] by blast+
qed

text \<open>Posting at a driver is posting at its engine; the engines of registered drivers start with nothing queued.\<close>

lemma post_engine:
  assumes "engine_of drv = Some a" "post_send ser (QpHandle i) wqe drv = (ok, drv')"
  obtains a1 where "RdmaEngine_post_send ser a i wqe = (ok, a1)" "engine_of drv' = Some a1"
  using on_engine_engine [OF assms(1), of "\<lambda>e. RdmaEngine_post_send ser e i wqe" False] assms(2)
  by (cases "RdmaEngine_post_send ser a i wqe") (simp add: post_send_def)

lemma registered_quiet:
  assumes "find_driver ip rt = Some d" "\<forall>d. Some d \<in> entry_driver ` set (router_drivers rt) \<longrightarrow> tx_queued (ds d) = []" "engine_of (ds d) = Some e"
  shows "outgoing_packets e = []"
  using queued_engine [OF assms(3)] assms(1,2) find_driver_entry by (metis image_eqI)

text \<open>C1: a send through the router completes at both drivers. Two drivers are registered under their addresses and no registered driver has packets queued. The first
  has a queue pair that is ready to send to the second, no other request outstanding and a readable local buffer; the second
  has the peer queue pair, with a receive request that has room for the message. Posting the send at the first driver and two
  rounds of \<^verbatim>\<open>process_all\<close>, one for the message and one for the answer, leave the message in the second device's memory and nothing else changed there,
  the completion of the receive request at the second driver, the completion of the send at the first, and no request of the queue pair at its reliability manager. The queue pair's own
  list of pending operations still ends with the request, since the engine does not hand acknowledgements to the queue pair; notification packets for the second driver may
  also be queued at the first after these rounds.\<close>

theorem router_send_end_to_end:
  assumes packer: "bit_packer ser des"
    and rt: "distinct (map entry_driver (router_drivers rt))" "find_driver ipa rt = Some x" "find_driver ipb rt = Some y" "x \<noteq> y"
      "\<forall>d. Some d \<in> entry_driver ` set (router_drivers rt) \<longrightarrow> tx_queued (ds d) = []"
    and engines: "engine_of (ds x) = Some a" "engine_of (ds y) = Some b" "dest_ip qa = ipb" "dest_ip qb = ipa"
    and a: "enabled a" "um_lookup (qps a) i = Some qa" "qp_number qa = i" "dest_qp_number qa = j" "RdmaQueuePair_can_send qa"
      "psn_ok (sq_psn qa)" "ops_of (reliability_manager a) i = []"
      "um_lookup (cqs a) (send_cq_number (qp_config qa)) = Some sa" "length (cqes sa) < cq_depth sa"
    and op: "swqe_opcode wqe \<in> {WqSend, WqSendImm}"
    and data: "fst (read_from_sgl (eng_memory a) (swqe_sgl wqe) (local_lkey wqe) (mr_table a)) = data"
    and len: "length data = unat (swqe_total_length wqe)"
    and size: "unat (swqe_total_length wqe) + unat (RdmaQueuePair_mtu_bytes qa) \<le> 2 ^ 32"
    and b: "enabled b" "um_lookup (qps b) j = Some qb" "qp_number qb = j" "dest_qp_number qb = i" "RdmaQueuePair_can_receive qb"
      "rq_psn qb = sq_psn qa" "recv_queue qb = r # rest" "sgl_target None (rwqe_sgl r) (eng_memory b) (mr_table b)"
      "length data \<le> length (sgl_bytes (rwqe_sgl r))"
      "um_lookup (cqs b) (recv_cq_number (qp_config qb)) = Some rb" "length (cqes rb) < cq_depth rb"
    and numbers: "unat i < 2 ^ 24" "unat j < 2 ^ 24"
    and post: "post_send ser (QpHandle i) wqe (ds x) = (ok, drv)"
    and rounds: "process_all ser des rt (ds(x := drv)) = (n1, ds1)" "process_all ser des rt ds1 = (n2, ds2)"
  shows "ok \<and> (\<exists>a2 b2. engine_of (ds2 x) = Some a2 \<and> engine_of (ds2 y) = Some b2 \<and>
    eng_memory b2 = (eng_memory b)\<lparr>mem_buffer :=
      poke (take (length data) (sgl_bytes (rwqe_sgl r))) data (mem_buffer (eng_memory b))\<rparr> \<and>
    (\<exists>cq. um_lookup (cqs b2) (recv_cq_number (qp_config qb)) = Some cq \<and>
      cqes cq = cqes rb @ [recv_cqe j wqe (swqe_opcode wqe = WqSendImm) r]) \<and>
    (\<exists>cq. um_lookup (cqs a2) (send_cq_number (qp_config qa)) = Some cq \<and> cqes cq = cqes sa @ [send_cqe i (swqe_wr_id wqe)]) \<and>
    ops_of (reliability_manager a2) i = [] \<and>
    (\<exists>q. um_lookup (qps a2) i = Some q \<and> map po_wqe (pending_operations q) = map po_wqe (pending_operations qa) @ [wqe]))"
proof -
  have out: "outgoing_packets a = []" "outgoing_packets b = []"
    using registered_quiet [OF rt(2,5) engines(1)] registered_quiet [OF rt(3,5) engines(2)] .
  obtain a1 where a1: "RdmaEngine_post_send ser a i wqe = (ok, a1)" "engine_of drv = Some a1" using post_engine [OF engines(1) post] .
  obtain packets cs psn where s: "ok" "outgoing_packets a1 = map (packet_to qa) packets" "cnps_to des (dest_ip qb) cs"
      "outgoing_packets (receive_all ser des packets b) = outgoing_packets b @ cs @ [ack_packet ser qb psn asAck]"
    and mem: "eng_memory (receive_all ser des packets b) = (eng_memory b)\<lparr>mem_buffer :=
      poke (take (length data) (sgl_bytes (rwqe_sgl r))) data (mem_buffer (eng_memory b))\<rparr>"
      "\<exists>cq. um_lookup (cqs (receive_all ser des packets b)) (recv_cq_number (qp_config qb)) = Some cq \<and>
      cqes cq = cqes rb @ [recv_cqe j wqe (swqe_opcode wqe = WqSendImm) r]"
    and acked: "\<forall>a' us. core a' = core a1 \<longrightarrow> cqs a' = cqs a1 \<longrightarrow> eng_config a' = eng_config a1 \<longrightarrow> (\<forall>u \<in> set us. is_cnp des u) \<longrightarrow>
      (let a2 = receive_all ser des (us @ [out_data (ack_packet ser qb psn asAck)]) a' in
       request_done i qa sa wqe a2)"
    using send_completes [OF packer a(1-7) out(1) a(8,9) op data len size b numbers a1(1)] by blast
  have to_a: "\<forall>packet \<in> set (outgoing_packets (receive_all ser des packets b)). out_dest_ip packet = ipa"
    using s(3,4) out(2) engines(4) by (auto simp: cnps_to_def ack_packet_def)
  note after = two_rounds [OF rt a1(2) engines(2) s(2) engines(3) to_a rounds]
  have "let a2 = receive_all ser des (map out_data (outgoing_packets (receive_all ser des packets b))) (a1\<lparr>outgoing_packets := []\<rparr>) in
      request_done i qa sa wqe a2"
    using acked [THEN spec, THEN spec, of "a1\<lparr>outgoing_packets := []\<rparr>" "map out_data cs"] cnps_data [OF s(3)] by (simp add: s(4) out(2) core_def)
  with after s(1) mem show ?thesis by (simp add: Let_def)
qed

text \<open>The same for a WRITE and for a READ: two rounds carry the request and its answer. The READ leaves its request pending.\<close>

theorem router_write_end_to_end:
  assumes packer: "bit_packer ser des"
    and rt: "distinct (map entry_driver (router_drivers rt))" "find_driver ipa rt = Some x" "find_driver ipb rt = Some y" "x \<noteq> y"
      "\<forall>d. Some d \<in> entry_driver ` set (router_drivers rt) \<longrightarrow> tx_queued (ds d) = []"
    and engines: "engine_of (ds x) = Some a" "engine_of (ds y) = Some b" "dest_ip qa = ipb" "dest_ip qb = ipa"
    and a: "enabled a" "um_lookup (qps a) i = Some qa" "qp_number qa = i" "dest_qp_number qa = j" "RdmaQueuePair_can_send qa"
      "psn_ok (sq_psn qa)" "ops_of (reliability_manager a) i = []"
      "um_lookup (cqs a) (send_cq_number (qp_config qa)) = Some sa" "length (cqes sa) < cq_depth sa"
    and op: "swqe_opcode wqe \<in> {WqRdmaWrite, WqRdmaWriteImm}"
    and data: "fst (read_from_sgl (eng_memory a) (swqe_sgl wqe) (local_lkey wqe) (mr_table a)) = data"
    and len: "length data = unat (swqe_total_length wqe)"
    and size: "unat (swqe_total_length wqe) + unat (RdmaQueuePair_mtu_bytes qa) \<le> 2 ^ 32"
    and b: "enabled b" "um_lookup (qps b) j = Some qb" "dest_qp_number qb = i" "RdmaQueuePair_can_receive qb" "rq_psn qb = sq_psn qa"
      "write_target (side_of b qb) (swqe_rkey wqe) (remote_address wqe) (swqe_total_length wqe)"
      "swqe_opcode wqe = WqRdmaWriteImm \<Longrightarrow> recv_queue qb \<noteq> []"
    and numbers: "unat i < 2 ^ 24" "unat j < 2 ^ 24"
    and post: "post_send ser (QpHandle i) wqe (ds x) = (ok, drv)"
    and rounds: "process_all ser des rt (ds(x := drv)) = (n1, ds1)" "process_all ser des rt ds1 = (n2, ds2)"
  shows "ok \<and> (\<exists>a2 b2. engine_of (ds2 x) = Some a2 \<and> engine_of (ds2 y) = Some b2 \<and>
    eng_memory b2 = (eng_memory b)\<lparr>mem_buffer := memcpy_at (unat (remote_address wqe)) data (mem_buffer (eng_memory b))\<rparr> \<and>
    cqs b2 = write_posts wqe qb (cqs b) \<and>
    (\<exists>cq. um_lookup (cqs a2) (send_cq_number (qp_config qa)) = Some cq \<and> cqes cq = cqes sa @ [send_cqe i (swqe_wr_id wqe)]) \<and>
    ops_of (reliability_manager a2) i = [] \<and>
    (\<exists>q. um_lookup (qps a2) i = Some q \<and> map po_wqe (pending_operations q) = map po_wqe (pending_operations qa) @ [wqe]))"
proof -
  have out: "outgoing_packets a = []" "outgoing_packets b = []"
    using registered_quiet [OF rt(2,5) engines(1)] registered_quiet [OF rt(3,5) engines(2)] .
  obtain a1 where a1: "RdmaEngine_post_send ser a i wqe = (ok, a1)" "engine_of drv = Some a1" using post_engine [OF engines(1) post] .
  obtain packets cs psn where s: "ok" "outgoing_packets a1 = map (packet_to qa) packets" "cnps_to des (dest_ip qb) cs"
      "outgoing_packets (receive_all ser des packets b) = outgoing_packets b @ cs @ [ack_packet ser qb psn asAck]"
    and mem: "eng_memory (receive_all ser des packets b) = (eng_memory b)\<lparr>mem_buffer :=
      memcpy_at (unat (remote_address wqe)) data (mem_buffer (eng_memory b))\<rparr>" "cqs (receive_all ser des packets b) = write_posts wqe qb (cqs b)"
    and acked: "\<forall>a' us. core a' = core a1 \<longrightarrow> cqs a' = cqs a1 \<longrightarrow> eng_config a' = eng_config a1 \<longrightarrow> (\<forall>u \<in> set us. is_cnp des u) \<longrightarrow>
      (let a2 = receive_all ser des (us @ [out_data (ack_packet ser qb psn asAck)]) a' in
       request_done i qa sa wqe a2)"
    using write_completes [OF packer a(1-7) out(1) a(8,9) op data len size b numbers a1(1)] by blast
  have to_a: "\<forall>packet \<in> set (outgoing_packets (receive_all ser des packets b)). out_dest_ip packet = ipa"
    using s(3,4) out(2) engines(4) by (auto simp: cnps_to_def ack_packet_def)
  note after = two_rounds [OF rt a1(2) engines(2) s(2) engines(3) to_a rounds]
  have "let a2 = receive_all ser des (map out_data (outgoing_packets (receive_all ser des packets b))) (a1\<lparr>outgoing_packets := []\<rparr>) in
      request_done i qa sa wqe a2"
    using acked [THEN spec, THEN spec, of "a1\<lparr>outgoing_packets := []\<rparr>" "map out_data cs"] cnps_data [OF s(3)] by (simp add: s(4) out(2) core_def)
  with after s(1) mem show ?thesis by (simp add: Let_def)
qed

theorem router_read_end_to_end:
  assumes packer: "bit_packer ser des"
    and rt: "distinct (map entry_driver (router_drivers rt))" "find_driver ipa rt = Some x" "find_driver ipb rt = Some y" "x \<noteq> y"
      "\<forall>d. Some d \<in> entry_driver ` set (router_drivers rt) \<longrightarrow> tx_queued (ds d) = []"
    and engines: "engine_of (ds x) = Some a" "engine_of (ds y) = Some b" "dest_ip qa = ipb" "dest_ip qb = ipa"
    and a: "enabled a" "um_lookup (qps a) i = Some qa" "qp_number qa = i" "dest_qp_number qa = j" "RdmaQueuePair_can_send qa"
      "psn_ok (sq_psn qa)" "ops_of (reliability_manager a) i = []"
      "um_lookup (cqs a) (send_cq_number (qp_config qa)) = Some sa" "length (cqes sa) < cq_depth sa"
      "sgl_target (Some (local_lkey wqe)) (swqe_sgl wqe) (eng_memory a) (mr_table a)" "unat (swqe_total_length wqe) \<le> length (sgl_bytes (swqe_sgl wqe))"
    and op: "swqe_opcode wqe = WqRdmaRead"
    and b: "enabled b" "um_lookup (qps b) j = Some qb" "dest_qp_number qb = i" "RdmaQueuePair_can_receive qb" "rq_psn qb = sq_psn qa" "psn_ok (sq_psn qb)"
      "read_source (side_of b qb) (swqe_rkey wqe) (remote_address wqe) (swqe_total_length wqe)"
      "unat (swqe_total_length wqe) + unat (RdmaQueuePair_mtu_bytes qb) \<le> 2 ^ 32"
    and numbers: "unat i < 2 ^ 24" "unat j < 2 ^ 24"
    and post: "post_send ser (QpHandle i) wqe (ds x) = (ok, drv)"
    and rounds: "process_all ser des rt (ds(x := drv)) = (n1, ds1)" "process_all ser des rt ds1 = (n2, ds2)"
  shows "ok \<and> (\<exists>a2 b2. engine_of (ds2 x) = Some a2 \<and> engine_of (ds2 y) = Some b2 \<and> eng_memory b2 = eng_memory b \<and> cqs b2 = cqs b \<and>
    eng_memory a2 = (eng_memory a)\<lparr>mem_buffer := poke (take (unat (swqe_total_length wqe)) (sgl_bytes (swqe_sgl wqe)))
      (subspan (unat (remote_address wqe)) (unat (swqe_total_length wqe)) (mem_buffer (eng_memory b))) (mem_buffer (eng_memory a))\<rparr> \<and>
    (\<exists>cq. um_lookup (cqs a2) (send_cq_number (qp_config qa)) = Some cq \<and> cqes cq = cqes sa @ [read_completion i wqe]) \<and>
    ops_of (reliability_manager a2) i = [pending_read (sq_psn qa) wqe])"
proof -
  have out: "outgoing_packets a = []" "outgoing_packets b = []"
    using registered_quiet [OF rt(2,5) engines(1)] registered_quiet [OF rt(3,5) engines(2)] .
  obtain a1 where a1: "RdmaEngine_post_send ser a i wqe = (ok, a1)" "engine_of drv = Some a1" using post_engine [OF engines(1) post] .
  define data where "data = subspan (unat (remote_address wqe)) (unat (swqe_total_length wqe)) (mem_buffer (eng_memory b))"
  obtain u cs responses where s: "ok" "outgoing_packets a1 = [packet_to qa u]" "cnps_to des (dest_ip qb) cs"
      "outgoing_packets (receive_all ser des [u] b) = outgoing_packets b @ cs @ map (packet_to qb) responses"
    and mem: "eng_memory (receive_all ser des [u] b) = eng_memory b" "cqs (receive_all ser des [u] b) = cqs b"
    and half: "\<forall>a' us. core a' = core a1 \<longrightarrow> cqs a' = cqs a1 \<longrightarrow> eng_config a' = eng_config a1 \<longrightarrow> (\<forall>u \<in> set us. is_cnp des u) \<longrightarrow>
      (let a2 = receive_all ser des (us @ responses) a' in
       enabled a2 \<and> (\<exists>q'. um_lookup (qps a2) i = Some q' \<and> qp_key q' = qp_key qa) \<and>
       eng_memory a2 = (eng_memory a)\<lparr>mem_buffer := poke (take (unat (swqe_total_length wqe)) (sgl_bytes (swqe_sgl wqe))) data (mem_buffer (eng_memory a))\<rparr> \<and>
       (\<exists>cq. um_lookup (cqs a2) (send_cq_number (qp_config qa)) = Some cq \<and> cqes cq = cqes sa @ [read_completion i wqe] \<and> cq_depth cq = cq_depth sa) \<and>
       ops_of (reliability_manager a2) i = [pending_read (sq_psn qa) wqe])"
    using read_completes [OF packer a(1-7) out(1) a(8-11) op b numbers a1(1) data_def] by blast
  have to_a: "\<forall>packet \<in> set (outgoing_packets (receive_all ser des [u] b)). out_dest_ip packet = ipa"
    using s(3,4) out(2) engines(4) by (auto simp: cnps_to_def)
  have one: "outgoing_packets a1 = map (packet_to qa) [u]" by (simp add: s(2))
  note after = two_rounds [OF rt a1(2) engines(2) one engines(3) to_a rounds]
  have "core (a1\<lparr>outgoing_packets := []\<rparr>) = core a1" by (simp add: core_def)
  from half [THEN spec, THEN spec, of "a1\<lparr>outgoing_packets := []\<rparr>" "map out_data cs", THEN mp, OF this] cnps_data [OF s(3)]
  have "let a2 = receive_all ser des (map out_data (outgoing_packets (receive_all ser des [u] b))) (a1\<lparr>outgoing_packets := []\<rparr>) in
      eng_memory a2 = (eng_memory a)\<lparr>mem_buffer := poke (take (unat (swqe_total_length wqe)) (sgl_bytes (swqe_sgl wqe))) data (mem_buffer (eng_memory a))\<rparr> \<and>
      (\<exists>cq. um_lookup (cqs a2) (send_cq_number (qp_config qa)) = Some cq \<and> cqes cq = cqes sa @ [read_completion i wqe]) \<and>
      ops_of (reliability_manager a2) i = [pending_read (sq_psn qa) wqe]"
    by (auto simp: s(4) out(2) o_def Let_def)
  with after s(1) mem show ?thesis by (simp add: Let_def data_def)
qed

text \<open>Two drivers with the sample engine, registered as \<^verbatim>\<open>10.0.0.1\<close> and \<^verbatim>\<open>10.0.0.2\<close>.\<close>

definition engine_driver :: "RdmaEngine \<Rightarrow> NicDriver" where
  "engine_driver e =
     (let dev = Device_new (DeviceConfig_default sample_identity); env = dev_env dev
      in snd (NicDriver_init (Some (dev\<lparr>dev_rdma_engine := Some e, dev_env := env\<lparr>env_dma := (env_dma env)\<lparr>dma_memory := eng_memory e\<rparr>\<rparr>\<rparr>)) NicDriver_new))"

lemma engine_driver_engine: "engine_of (engine_driver e) = Some e"
  by (simp add: engine_driver_def engine_of_def NicDriver_init_def NicDriver_new_def Let_def)

definition sample_router :: PacketRouter where
  "sample_router = register_driver [10, 0, 0, 2] (Some 1) (register_driver [10, 0, 0, 1] (Some 0) PacketRouter_new)"

definition sample_drivers :: drivers where
  "sample_drivers = (\<lambda>d. engine_driver (if d = 0 then sample_engine [10, 0, 0, 2] [0, 1, 2, 3, 4, 5, 6, 7, 8, 9, 10, 11]
     else sample_engine [10, 0, 0, 1] [0, 0, 0, 0, 0, 0, 0, 0, 0, 0, 0, 0]))"

theorem router_send_end_to_end_witness:
  "\<exists>drv n1 ds1 n2 ds2 a2 b2 cqa cqb. post_send msb_ser (QpHandle 1) sample_send_req (sample_drivers 0) = (True, drv) \<and>
     process_all msb_ser msb_des sample_router (sample_drivers(0 := drv)) = (n1, ds1) \<and> process_all msb_ser msb_des sample_router ds1 = (n2, ds2) \<and>
     engine_of (ds2 0) = Some a2 \<and> engine_of (ds2 1) = Some b2 \<and> mem_buffer (eng_memory b2) = [0, 0, 0, 0, 5, 6, 0, 0, 7, 0, 0, 0] \<and>
     um_lookup (cqs b2) 0 = Some cqb \<and> map cqe_wr_id (cqes cqb) = [77] \<and> um_lookup (cqs a2) 0 = Some cqa \<and> map cqe_wr_id (cqes cqa) = [5]"
proof -
  obtain ok drv where post: "post_send msb_ser (QpHandle 1) sample_send_req (sample_drivers 0) = (ok, drv)" by (metis surj_pair)
  obtain n1 ds1 n2 ds2 where rounds: "process_all msb_ser msb_des sample_router (sample_drivers(0 := drv)) = (n1, ds1)"
    "process_all msb_ser msb_des sample_router ds1 = (n2, ds2)" by (metis surj_pair)
  have rt: "distinct (map entry_driver (router_drivers sample_router))" "find_driver [10, 0, 0, 1] sample_router = Some 0"
    "find_driver [10, 0, 0, 2] sample_router = Some 1" "(0 :: nat) \<noteq> 1"
    "\<forall>d. Some d \<in> entry_driver ` set (router_drivers sample_router) \<longrightarrow> tx_queued (sample_drivers d) = []"
    using queued_engine [OF engine_driver_engine] sample_engine_fields(4)
    by (simp_all add: sample_router_def sample_drivers_def register_driver_def PacketRouter_new_def find_driver_def)
  have e: "engine_of (sample_drivers 0) = Some (sample_engine [10, 0, 0, 2] [0, 1, 2, 3, 4, 5, 6, 7, 8, 9, 10, 11])"
    "engine_of (sample_drivers 1) = Some (sample_engine [10, 0, 0, 1] [0, 0, 0, 0, 0, 0, 0, 0, 0, 0, 0, 0])"
    "dest_ip (sample_qp [10, 0, 0, 2]) = [10, 0, 0, 2]" "dest_ip (sample_qp [10, 0, 0, 1]) = [10, 0, 0, 1]"
    by (simp_all add: engine_driver_engine sample_drivers_def)
  note all = router_send_end_to_end [where ds = sample_drivers, OF msb.bit_packer_axioms rt e sample_engine_fields(1,2) sample_qp_fields(1-4)
      sample_engine_fields(3) sample_cqs(1) sample_room(1) sample_request(1) sample_buffers(1) sample_request(2,3)
      sample_engine_fields(1,2) sample_qp_fields(1,2,5-7) sample_buffers(2) sample_room(2) sample_cqs(2) sample_room(1) sample_room(4,4) post rounds,
      unfolded sample_buffers(3) sample_engine_fields(6) sample_room(3) sample_qp_fields(8,9) sample_request(4)]
  then have ok: "ok" by blast
  from all obtain a2 b2 cqa cqb where "engine_of (ds2 0) = Some a2" "engine_of (ds2 1) = Some b2"
    "mem_buffer (eng_memory b2) = [0, 0, 0, 0, 5, 6, 0, 0, 7, 0, 0, 0]" "um_lookup (cqs b2) 0 = Some cqb" "map cqe_wr_id (cqes cqb) = [77]"
    "um_lookup (cqs a2) 0 = Some cqa" "map cqe_wr_id (cqes cqa) = [5]"
    by (auto simp: recv_cqe_def send_cqe_def sample_recv_def sample_memory_def)
  with post rounds ok show ?thesis by auto
qed

end
