(* ===== verification/Nic_Echo_Server.thy ===== *)
theory Nic_Echo_Server
  imports Nic_Driver
begin

text \<open>
  The example program (\<^verbatim>\<open>echo_server.cpp\<close>): it creates a device, hands it to a driver, fills the receive ring and sends ten packets, each of
  which the device loops back. What the program prints about a packet is modelled as the values it prints: the size and
  the answers of \<^verbatim>\<open>send_packet\<close> and \<^verbatim>\<open>process\<close>; the formatting is not. The theory shows what the program reports and where the packets are at its end.
\<close>

section \<open>The program\<close>

text \<open>The bytes of an \<^verbatim>\<open>RxDescriptor\<close> in memory; the padding between the fields is zero.\<close>

definition encode_rx_descriptor :: "RxDescriptor \<Rightarrow> bytes" where
  "encode_rx_descriptor r =
     le_bytes 8 (rxd_buffer_address r) @ le_bytes 4 (ucast (rxd_buffer_length r)) @ [rxd_checksum r, 0] @
     le_bytes 2 (ucast (rxd_descriptor_index r)) @
     [of_bool (rxd_checksum_offload r), of_bool (rxd_vlan_strip r), of_bool (rxd_vlan_present r), 0] @
     le_bytes 2 (ucast (rxd_vlan_tag r)) @ [of_bool (rxd_gro_enabled r), 0]"

definition rx_buffer_addr :: "nat \<Rightarrow> u64" where
  "rx_buffer_addr i = 0x30000 + of_nat i * 2048"

definition echo_rx_descriptor :: "nat \<Rightarrow> RxDescriptor" where
  "echo_rx_descriptor i =
     \<lparr>rxd_buffer_address = rx_buffer_addr i, rxd_buffer_length = 2048, rxd_checksum = 0, rxd_descriptor_index = of_nat i,
      rxd_checksum_offload = False, rxd_vlan_strip = False, rxd_vlan_present = False, rxd_vlan_tag = 0, rxd_gro_enabled = False\<rparr>"

text \<open>The loop over the receive descriptors. It uses the queue pair of the driver's device directly; \<open>None\<close> stands for \<^verbatim>\<open>return 1\<close>.\<close>

definition push_rx_descriptor :: "nat \<Rightarrow> NicDriver \<Rightarrow> bool \<times> NicDriver" where
  "push_rx_descriptor i drv =
     (case driver_device drv of
        None \<Rightarrow> (False, drv)
      | Some dev \<Rightarrow>
          (case dev_queue_pair dev of
             None \<Rightarrow> (False, drv)
           | Some qp \<Rightarrow>
               let env = dev_env dev;
                   (res, ring, dma) = DescriptorRing_push_descriptor (qp_rx_ring qp) (env_dma env) (encode_rx_descriptor (echo_rx_descriptor i))
               in (DmaResult_ok res, drv\<lparr>driver_device := Some (dev\<lparr>dev_queue_pair := Some (qp\<lparr>qp_rx_ring := ring\<rparr>), dev_env := env\<lparr>env_dma := dma\<rparr>\<rparr>)\<rparr>)))"

fun add_rx_descriptors :: "nat list \<Rightarrow> NicDriver \<Rightarrow> NicDriver option" where
  "add_rx_descriptors [] drv = Some drv"
| "add_rx_descriptors (i # is) drv =
     (let (ok, drv1) = push_rx_descriptor i drv in if \<not> ok then None else add_rx_descriptors is drv1)"

definition echo_packet :: "nat \<Rightarrow> bytes" where
  "echo_packet pkt_num =
     replicate 6 0xFF @ [0xAA, 0xBB, 0xCC, 0xDD, 0xEE, 0xFF] @ [0x08, 0x00] @ map (\<lambda>i. of_nat i AND 0xFF) [14..<64 + pkt_num * 10]"

fun send_packets :: "nat list \<Rightarrow> u64 \<times> NicDriver \<Rightarrow> (nat \<times> bool \<times> bool) list \<times> u64 \<times> NicDriver" where
  "send_packets [] st = ([], st)"
| "send_packets (pkt_num # ns) st =
     (let packet = echo_packet pkt_num;
          (sent, addr, drv) = send_packet packet st;
          (processed, drv1) = NicDriver_process drv;
          (log, st') = send_packets ns (addr, drv1)
      in ((length packet, sent, processed) # log, st'))"

text \<open>\<^verbatim>\<open>main\<close>: the exit code, with the reports per packet, the final statistics and the driver where the program comes that far.\<close>

definition echo_config :: DeviceConfig where
  "echo_config = (DeviceConfig_default \<lparr>vendor_id = 0, device_id = 0, revision_id = 0\<rparr>)\<lparr>enable_queue_pair := True\<rparr>"

definition echo_main :: "le_library \<Rightarrow> int \<times> ((nat \<times> bool \<times> bool) list \<times> DriverStats \<times> NicDriver) option" where
  "echo_main lib =
     (let device = Device_reset lib (Device_new echo_config);
          (ok, driver) = NicDriver_init (Some device) NicDriver_new
      in
      if \<not> ok then (1, None)
      else if (case driver_device driver of None \<Rightarrow> None | Some dev \<Rightarrow> dev_queue_pair dev) = None then (1, None)
      else
        case add_rx_descriptors [0..<16] driver of
          None \<Rightarrow> (1, None)
        | Some driver1 \<Rightarrow>
            let (log, _, driver2) = send_packets [0..<10] (first_buffer, driver1)
            in (0, Some (log, get_stats driver2, driver2)))"

section \<open>Receive descriptors\<close>

lemma length_encode_rx [simp]: "length (encode_rx_descriptor r) = 24"
  by (simp add: encode_rx_descriptor_def)

lemma decode_encode_rx: "decode_rx_descriptor (encode_rx_descriptor r) = Some r"
proof -
  let ?bs = "encode_rx_descriptor r"
  have "subspan 0 8 ?bs = le_bytes 8 (rxd_buffer_address r)" "subspan 8 4 ?bs = le_bytes 4 (ucast (rxd_buffer_length r))"
    "subspan 14 2 ?bs = le_bytes 2 (ucast (rxd_descriptor_index r))" "subspan 20 2 ?bs = le_bytes 2 (ucast (rxd_vlan_tag r))"
    by (simp_all add: subspan_def encode_rx_descriptor_def)
  moreover have "?bs ! 12 = rxd_checksum r" "?bs ! 16 = of_bool (rxd_checksum_offload r)" "?bs ! 17 = of_bool (rxd_vlan_strip r)"
    "?bs ! 18 = of_bool (rxd_vlan_present r)" "?bs ! 22 = of_bool (rxd_gro_enabled r)"
    by (simp_all add: encode_rx_descriptor_def nth_append)
  ultimately show ?thesis
    by (simp add: decode_rx_descriptor_def sizeof_RxDescriptor_def le_field_def le_val_ucast)
qed

lemma push_rx_effect:
  assumes "owns drv qp e" "idle cfg rxs qp e" "\<not> host_backed (qpc_rx_ring cfg)" "descriptor_size (qpc_rx_ring cfg) = 24"
    and "length rxs < ring_size (qpc_rx_ring cfg)"
  shows "\<exists>drv' qp'. push_rx_descriptor i drv = (True, drv') \<and> owns drv' qp' e \<and>
    idle cfg (rxs @ [encode_rx_descriptor (echo_rx_descriptor i)]) qp' e \<and>
    get_stats drv' = get_stats drv \<and> QueuePair.qp_stats qp' = QueuePair.qp_stats qp"
proof -
  let ?d = "encode_rx_descriptor (echo_rx_descriptor i)"
  obtain dev where dev: "initialized drv" "driver_device drv = Some dev" "dev_queue_pair dev = Some qp" "env_dma (dev_env dev) = e"
    using assms(1) by (auto simp: owns_def)
  have q: "ring_inv (qp_rx_ring qp, e)" "ring_config (qp_rx_ring qp) = qpc_rx_ring cfg" "ring_contents (qp_rx_ring qp, e) = rxs" "qp_ok qp e"
    using assms(2) by (auto simp: idle_def qp_ok_def)
  then have "\<not> DescriptorRing_is_full (qp_rx_ring qp)"
    using assms(5) ring_full_iff [of "(qp_rx_ring qp, e)"] by (simp add: DescriptorRing_is_full_def)
  then obtain ring' e' where p: "DescriptorRing_push_descriptor (qp_rx_ring qp) e ?d = (dma_ok_result 24, ring', e')"
    "ring_inv (ring', e')" "ring_contents (ring', e') = rxs @ [?d]"
    using ring_push_cases [of "qp_rx_ring qp" e ?d] q assms(4) by (auto simp del: ring_contents.simps)
  have c: "e' = e" "ring_config ring' = qpc_rx_ring cfg"
    using p(1) q(2) assms(3) by (auto simp: DescriptorRing_push_descriptor_def Let_def split: if_splits)
  then have "idle cfg (rxs @ [?d]) (qp\<lparr>qp_rx_ring := ring'\<rparr>) e"
    using assms(2) p by (auto simp add: idle_def qp_ok_def simp del: ring_contents.simps)
  then show ?thesis
    using dev p(1) c(1) by (simp add: push_rx_descriptor_def owns_def get_stats_def DmaResult_ok_def Let_def)
qed

abbreviation echo_rx_bytes :: "nat \<Rightarrow> bytes" where
  "echo_rx_bytes i \<equiv> encode_rx_descriptor (echo_rx_descriptor i)"

lemma add_rx_effect:
  assumes "owns drv qp e" "idle cfg rxs qp e" "\<not> host_backed (qpc_rx_ring cfg)" "descriptor_size (qpc_rx_ring cfg) = 24"
    and "length rxs + length is \<le> ring_size (qpc_rx_ring cfg)"
  shows "\<exists>drv' qp'. add_rx_descriptors is drv = Some drv' \<and> owns drv' qp' e \<and> idle cfg (rxs @ map echo_rx_bytes is) qp' e \<and>
    get_stats drv' = get_stats drv \<and> QueuePair.qp_stats qp' = QueuePair.qp_stats qp"
  using assms(1, 2, 5)
proof (induction "is" arbitrary: drv qp rxs)
  case (Cons i "is")
  then obtain drv1 qp1 where s: "push_rx_descriptor i drv = (True, drv1)" "owns drv1 qp1 e" "idle cfg (rxs @ [echo_rx_bytes i]) qp1 e"
    "get_stats drv1 = get_stats drv" "QueuePair.qp_stats qp1 = QueuePair.qp_stats qp"
    using push_rx_effect [OF Cons.prems(1, 2) assms(3, 4), of i] by auto
  then show ?case using Cons.IH [OF s(2, 3)] Cons.prems(3) by simp
qed (auto simp del: ring_contents.simps)

section \<open>The packets\<close>

lemma length_echo_packet [simp]: "length (echo_packet i) = 64 + 10 * i"
  by (simp add: echo_packet_def)

definition sent_bytes :: "nat \<Rightarrow> nat" where
  "sent_bytes k = (\<Sum>i<k. 64 + 10 * i)"

lemma sent_bytes_simps [simp]: "sent_bytes 0 = 0" "sent_bytes (Suc k) = sent_bytes k + (64 + 10 * k)"
  by (simp_all add: sent_bytes_def)

lemma sent_bytes_le: "k \<le> 10 \<Longrightarrow> sent_bytes k \<le> 154 * k"
  by (induction k) auto

definition plain_span :: "nat \<Rightarrow> u64 \<Rightarrow> nat \<Rightarrow> nat set option" where
  "plain_span limit a n = (if unat a + n \<le> limit then Some {unat a..<unat a + n} else None)"

lemma new_memory_span: "mem_span (SimpleHostMemory_new \<lparr>size_bytes = limit, page_size = p, iommu_enabled = u\<rparr> None None) = plain_span limit"
  by (auto simp: fun_eq_iff SimpleHostMemory_new_def mem_span_def hm_access_def SimpleHostMemory_translate_view_def plain_span_def Let_def)

text \<open>Two buffers in turn: both writes succeed, the second buffer holds the packet, and a third one is unchanged.\<close>

lemma two_writes:
  assumes S: "mem_span m = plain_span limit" and "unat a + length d \<le> limit" "unat b + length d \<le> limit"
  shows "\<exists>m1 m2. mem_wr m a d = Some m1 \<and> mem_wr m1 b d = Some m2 \<and> mem_span m2 = plain_span limit \<and> mem_rd m2 b (length d) = Some d \<and>
    (\<forall>c n. unat c + n \<le> limit \<and> unat a + length d \<le> unat c \<and> unat c + n \<le> unat b \<longrightarrow> mem_rd m2 c n = mem_rd m c n)"
proof -
  obtain m1 where m1: "mem_wr m a d = Some m1" using shm.wr_span [of m a d] S assms(2) by (auto simp: plain_span_def)
  note S1 = shm.span_wr [OF m1, unfolded S]
  obtain m2 where m2: "mem_wr m1 b d = Some m2" using shm.wr_span [of m1 b d] S1 assms(3) by (auto simp: plain_span_def)
  have "mem_rd m2 c n = mem_rd m c n"
    if c: "unat c + n \<le> limit" "unat a + length d \<le> unat c" "unat c + n \<le> unat b" for c n
  proof -
    have "mem_rd m2 c n = mem_rd m1 c n"
      by (rule shm.rd_wr_other [OF m2]) (use S1 c assms(3) in \<open>auto simp: plain_span_def\<close>)
    also have "mem_rd m1 c n = mem_rd m c n"
      by (rule shm.rd_wr_other [OF m1]) (use S c assms(2) in \<open>auto simp: plain_span_def\<close>)
    finally show ?thesis .
  qed
  then show ?thesis using m1 m2 shm.span_wr [OF m2, unfolded S1] shm.rd_wr_same [OF m2] by blast
qed

abbreviation echo_qp_config :: QueuePairConfig where
  "echo_qp_config \<equiv> QueuePair.qp_config (runtime_queue_pair echo_config)"

text \<open>The program after \<open>k\<close> packets.\<close>

definition echo_inv :: "nat \<Rightarrow> u64 \<times> NicDriver \<Rightarrow> bool" where
  "echo_inv k = (\<lambda>(addr, drv). \<exists>qp e. owns drv qp e \<and> idle echo_qp_config (map echo_rx_bytes [k..<16]) qp e \<and>
     addr = first_buffer + of_nat (sent_bytes k + 256 * k) \<and> mem_span (dma_memory e) = plain_span (2 ^ 20) \<and>
     (\<forall>j < k. mem_rd (dma_memory e) (rx_buffer_addr j) (64 + 10 * j) = Some (echo_packet j)) \<and>
     rx_packets (QueuePair.qp_stats qp) = of_nat k \<and> rx_bytes (QueuePair.qp_stats qp) = of_nat (sent_bytes k) \<and>
     get_stats drv = \<lparr>ds_tx_packets = of_nat k, ds_tx_bytes = of_nat (sent_bytes k), ds_rx_packets = of_nat k,
       ds_rx_bytes = of_nat (sent_bytes k), ds_processed = of_nat k\<rparr>)"

lemma echo_qp_config_fields:
  "local_rings echo_qp_config" "\<not> host_backed (qpc_rx_ring echo_qp_config)" "descriptor_size (qpc_rx_ring echo_qp_config) = 24"
  "ring_size (qpc_rx_ring echo_qp_config) = 64" "max_mtu echo_qp_config = 9000"
  by (simp_all add: local_rings_def echo_config_def DeviceConfig_default_def runtime_queue_pair_def default_queue_pair_config_def
      Let_def QueuePair_new_def sizeof_TxDescriptor_def sizeof_RxDescriptor_def kJumboMtu_def)

lemma rx_buffer_unat: "j < 16 \<Longrightarrow> unat (rx_buffer_addr j) = 0x30000 + j * 2048"
proof -
  assume "j < 16"
  moreover have "rx_buffer_addr j = of_nat (0x30000 + j * 2048)" by (simp add: rx_buffer_addr_def)
  ultimately show ?thesis by (simp only: unat_of_nat) simp
qed

lemma tx_buffer_unat: "u < 2 ^ 20 \<Longrightarrow> unat (first_buffer + of_nat u) = 0x10000 + u"
proof -
  assume "u < 2 ^ 20"
  moreover have "first_buffer + of_nat u = of_nat (0x10000 + u)" by (simp add: first_buffer_def)
  ultimately show ?thesis by (simp only: unat_of_nat) simp
qed

lemma echo_step:
  assumes "echo_inv k (addr, drv)" "k < 10"
  shows "\<exists>addr' drv1 drv2. send_packet (echo_packet k) (addr, drv) = (True, addr', drv1) \<and> NicDriver_process drv1 = (True, drv2) \<and>
    echo_inv (Suc k) (addr', drv2)"
proof -
  let ?d = "echo_packet k" and ?u = "sent_bytes k + 256 * k" and ?r = "echo_rx_descriptor k"
  obtain qp e where q: "owns drv qp e" "idle echo_qp_config (map echo_rx_bytes [k..<16]) qp e"
    and a: "addr = first_buffer + of_nat ?u" and S: "mem_span (dma_memory e) = plain_span (2 ^ 20)"
    and old: "\<forall>j < k. mem_rd (dma_memory e) (rx_buffer_addr j) (64 + 10 * j) = Some (echo_packet j)"
    and st: "rx_packets (QueuePair.qp_stats qp) = of_nat k" "rx_bytes (QueuePair.qp_stats qp) = of_nat (sent_bytes k)"
      "get_stats drv = \<lparr>ds_tx_packets = of_nat k, ds_tx_bytes = of_nat (sent_bytes k), ds_rx_packets = of_nat k,
        ds_rx_bytes = of_nat (sent_bytes k), ds_processed = of_nat k\<rparr>"
    using assms(1) by (auto simp: echo_inv_def simp del: ring_contents.simps)
  have addrs: "unat addr = 0x10000 + ?u" "unat (rx_buffer_addr k) = 0x30000 + k * 2048" "?u \<le> 4000"
    using tx_buffer_unat [of ?u] rx_buffer_unat [of k] sent_bytes_le [of k] assms(2) a by auto
  then obtain m1 m2 where m: "mem_wr (dma_memory e) addr ?d = Some m1" "mem_wr m1 (rx_buffer_addr k) ?d = Some m2"
    and S2: "mem_span m2 = plain_span (2 ^ 20)" and got: "mem_rd m2 (rx_buffer_addr k) (64 + 10 * k) = Some ?d"
    and keep: "\<And>c n. unat c + n \<le> 2 ^ 20 \<Longrightarrow> unat addr + length ?d \<le> unat c \<Longrightarrow> unat c + n \<le> unat (rx_buffer_addr k) \<Longrightarrow>
      mem_rd m2 c n = mem_rd (dma_memory e) c n"
    using two_writes [OF S, of addr ?d "rx_buffer_addr k"] assms(2) by auto
  have rxs: "map echo_rx_bytes [k..<16] = echo_rx_bytes k # map echo_rx_bytes [Suc k..<16]" using assms(2) by (simp add: upt_conv_Cons)
  obtain drv1 drv2 qp2 e2 where d: "send_packet ?d (addr, drv) = (True, addr + of_nat (length ?d + 256), drv1)"
      "NicDriver_process drv1 = (True, drv2)" "owns drv2 qp2 e2" "idle echo_qp_config (map echo_rx_bytes [Suc k..<16]) qp2 e2"
      "dma_memory e2 = m2" "rx_counted (length ?d) (QueuePair.qp_stats qp) (QueuePair.qp_stats qp2)"
    and stats: "get_stats drv2 = \<lparr>ds_tx_packets = ds_tx_packets (get_stats drv) + 1, ds_tx_bytes = ds_tx_bytes (get_stats drv) + of_nat (length ?d),
      ds_rx_packets = rx_packets (QueuePair.qp_stats qp2), ds_rx_bytes = rx_bytes (QueuePair.qp_stats qp2),
      ds_processed = ds_processed (get_stats drv) + 1\<rparr>"
    using driver_loops [OF q(1) q(2) [unfolded rxs] echo_qp_config_fields(1) decode_encode_rx _ _ m(1), of m2] m(2) assms(2)
    by (auto simp: echo_rx_descriptor_def echo_qp_config_fields)
  have mem: "mem_rd m2 (rx_buffer_addr j) (64 + 10 * j) = Some (echo_packet j)" if "j < Suc k" for j
    using got old keep [of "rx_buffer_addr j" "64 + 10 * j"] that addrs assms(2) rx_buffer_unat [of j]
    by (cases "j = k") auto
  have "echo_inv (Suc k) (addr + of_nat (length ?d + 256), drv2)"
    unfolding echo_inv_def using d(3-6) S2 mem st stats
    by (auto simp: a rx_counted_def algebra_simps simp del: ring_contents.simps intro!: exI [of _ qp2] exI [of _ e2])
  with d(1, 2) show ?thesis by blast
qed

lemma send_packets_effect:
  assumes "echo_inv k st" "k \<le> 10"
  shows "\<exists>st'. send_packets [k..<10] st = (map (\<lambda>i. (64 + 10 * i, True, True)) [k..<10], st') \<and> echo_inv 10 st'"
  using assms
proof (induction "10 - k" arbitrary: k st)
  case (Suc n)
  obtain addr drv where [simp]: "st = (addr, drv)" by (cases st)
  have k: "k < 10" using Suc.hyps(2) by simp
  from echo_step [OF Suc.prems(1) [simplified] this] obtain addr' drv1 drv2 where
    s: "send_packet (echo_packet k) (addr, drv) = (True, addr', drv1)" "NicDriver_process drv1 = (True, drv2)" "echo_inv (Suc k) (addr', drv2)"
    by blast
  have n: "n = 10 - Suc k" "Suc k \<le> 10" using Suc.hyps(2) k by auto
  from Suc.hyps(1) [OF n(1) s(3) n(2)] k s(1, 2) show ?case by (auto simp: upt_conv_Cons)
qed simp

lemma echo_start:
  fixes lib :: le_library
  defines "drv \<equiv> snd (NicDriver_init (Some (Device_reset lib (Device_new echo_config))) NicDriver_new)"
  shows "\<exists>qp e. owns drv qp e \<and> idle echo_qp_config [] qp e \<and> mem_span (dma_memory e) = plain_span (2 ^ 20) \<and>
    QueuePair.qp_stats qp = QueuePairStats_zero \<and> get_stats drv = DriverStats_zero"
proof -
  let ?qp = "QueuePair_reset_stats (QueuePair_reset (QueuePair_reset_stats (runtime_queue_pair echo_config)))" and ?e = "runtime_dma echo_config"
  have "config_ok echo_config"
    using default_device_config_ok by (simp add: echo_config_def config_ok_def runtime_queue_pair_def runtime_dma_def DeviceConfig_default_def)
  then have "qp_ok ?qp ?e" by (simp add: config_ok_def qp_ok_reset)
  then have "idle echo_qp_config [] ?qp ?e"
    by (simp add: idle_def) (simp add: QueuePair_reset_stats_def QueuePair_reset_def DescriptorRing_reset_def DescriptorRing_is_empty_def)
  moreover have "owns drv ?qp ?e"
    by (simp add: owns_def drv_def NicDriver_init_def NicDriver_new_def Device_reset_def Let_def initialize_register_file_def
        initialize_config_space_def Device_new_def) (simp add: echo_config_def DeviceConfig_default_def)
  moreover have "mem_span (dma_memory ?e) = plain_span (2 ^ 20)"
    by (simp only: runtime_dma_def echo_config_def DeviceConfig_default_def DMAEngine_new_def new_memory_span DeviceConfig.simps option.case DMAEngine.simps)
  ultimately show ?thesis
    by (auto simp: drv_def NicDriver_init_def NicDriver_new_def get_stats_def QueuePair_reset_stats_def simp del: ring_contents.simps
        intro!: exI [of _ ?qp] exI [of _ ?e])
qed

section \<open>Properties\<close>

text \<open>C19: the example program succeeds. It exits with 0 after reporting, for each of the ten packets of 64, 74, ..., 154 bytes, that it was sent and
  processed; its final statistics are ten packets and 1090 bytes in either direction and ten processed descriptors; and at its end the first ten receive buffers
  hold the ten packets, while the other six receive descriptors are still in the ring.\<close>

theorem echo_server_reports:
  "\<exists>drv qp e. echo_main lib = (0, Some (map (\<lambda>i. (64 + 10 * i, True, True)) [0..<10],
      \<lparr>ds_tx_packets = 10, ds_tx_bytes = 1090, ds_rx_packets = 10, ds_rx_bytes = 1090, ds_processed = 10\<rparr>, drv)) \<and> owns drv qp e \<and>
    map (\<lambda>i. mem_rd (dma_memory e) (rx_buffer_addr i) (64 + 10 * i)) [0..<10] = map (\<lambda>i. Some (echo_packet i)) [0..<10] \<and>
    ring_contents (qp_rx_ring qp, e) = map (\<lambda>i. encode_rx_descriptor (echo_rx_descriptor i)) [10..<16] \<and> DescriptorRing_is_empty (qp_tx_ring qp)"
proof -
  define drv where "drv = snd (NicDriver_init (Some (Device_reset lib (Device_new echo_config))) NicDriver_new)"
  obtain qp e where s: "owns drv qp e" "idle echo_qp_config [] qp e" "mem_span (dma_memory e) = plain_span (2 ^ 20)"
    "QueuePair.qp_stats qp = QueuePairStats_zero" "get_stats drv = DriverStats_zero"
    unfolding drv_def using echo_start [of lib] by blast
  obtain drv1 qp1 where a: "add_rx_descriptors [0..<16] drv = Some drv1" "owns drv1 qp1 e" "idle echo_qp_config (map echo_rx_bytes [0..<16]) qp1 e"
    "get_stats drv1 = DriverStats_zero" "QueuePair.qp_stats qp1 = QueuePairStats_zero"
    using add_rx_effect [OF s(1, 2) echo_qp_config_fields(2, 3), of "[0..<16]"] s(4, 5) by (auto simp: echo_qp_config_fields)
  have "echo_inv 0 (first_buffer, drv1)"
    unfolding echo_inv_def using a(2-5) s(3)
    by (auto simp: QueuePairStats_zero_def DriverStats_zero_def simp del: ring_contents.simps intro!: exI [of _ qp1] exI [of _ e])
  then obtain addr2 drv2 where r: "send_packets [0..<10] (first_buffer, drv1) = (map (\<lambda>i. (64 + 10 * i, True, True)) [0..<10], addr2, drv2)"
    "echo_inv 10 (addr2, drv2)" using send_packets_effect [of 0 "(first_buffer, drv1)"] by fastforce
  have b: "sent_bytes 10 = 1090" by (simp add: sent_bytes_def eval_nat_numeral)
  have "NicDriver_init (Some (Device_reset lib (Device_new echo_config))) NicDriver_new = (True, drv)"
    by (simp add: drv_def NicDriver_init_def NicDriver_new_def)
  moreover have "(case driver_device drv of None \<Rightarrow> None | Some dev \<Rightarrow> dev_queue_pair dev) \<noteq> None" using s(1) by (auto simp: owns_def)
  ultimately have "echo_main lib = (0, Some (map (\<lambda>i. (64 + 10 * i, True, True)) [0..<10], get_stats drv2, drv2))"
    using a(1) r(1) by (simp add: echo_main_def)
  with r(2) show ?thesis
    unfolding echo_inv_def b by (auto simp: idle_def simp del: ring_contents.simps upt_rec_numeral) (metis atLeastLessThan_iff)
qed

end
