(* ===== verification/Spec2Isabelle.thy ===== *)
theory Spec2Isabelle
  imports Nic_Rss Nic_Flow_Control Nic_Error_Injector Nic_Sriov Nic_Mailbox Nic_Stats Nic_Ptp Nic_Packet_Generator Nic_Vf_Device Nic_Mmio Nic_Router Nic_Echo_Server Rocev2_Remote
begin

text \<open>
  A verification development for \<^verbatim>\<open>smart_nic\<close>, a behavioural model of a network interface card in C++: a data path of
  descriptor rings, queue pairs and interrupts over DMA, the Ethernet features around it, virtual functions, and a
  RoCEv2 RDMA engine, all put together in a device that a driver uses.

  \<^bold>\<open>How the parts interact.\<close> Host memory is a byte array behind an interface; the DMA engine reads and writes it and
  counts. Descriptor rings keep fixed-size descriptors in that memory and ring doorbells; completion queues are in-model queues. A queue
  pair takes a transmit descriptor, reads the packet by DMA, checks it, cuts it into segments and places the segments in
  the buffers of receive descriptors, with a completion for every descriptor and an interrupt request to the
  dispatcher, which coalesces them per MSI-X vector. The queue manager shares time between queue pairs by weight. The RDMA engine owns tables of
  protection domains, memory regions, completion queues and queue pairs, turns work requests into packets, and feeds packets that
  arrive to the SEND, WRITE and READ processors, the reliability manager and the congestion manager. The device owns the PCI configuration
  space, the register file, the memory, a queue pair or a queue manager, the dispatcher and the engine. The driver owns a device: it
  writes packets to memory, pushes descriptors and forwards RDMA calls; the MMIO adapter is its view of the registers, and the packet router carries
  the packets of several drivers' engines to each other. Mailbox, admin queue, clock, statistics, packet generator and virtual
  devices stand beside the device.

  \<^bold>\<open>Theories and sources\<close> (paths under \<^verbatim>\<open>src/\<close> of the repository; headers of the same name included).
  \<^item> \<open>Nic_Prelude\<close>, \<open>Nic_Interfaces\<close>: integer types, buffers, association lists for \<^verbatim>\<open>std::unordered_map\<close>; the locales
    \<open>bounded_fifo\<close>, \<open>memory_port\<close> and \<open>bit_packer\<close>. \<open>Bit_Packing\<close>: an instance of \<open>bit_packer\<close>. \<open>Ieee_Double\<close>: the locale
    \<open>rounding\<close> and IEEE double rounding as its instance.
  \<^item> \<open>Host_Memory\<close>: \<^verbatim>\<open>simple_host_memory.cpp\<close>. \<open>Dma_Engine\<close>: \<^verbatim>\<open>dma_engine.cpp\<close>, \<^verbatim>\<open>dma_types.cpp\<close>, \<^verbatim>\<open>sgl.h\<close>: plain, burst and
    scatter-gather transfers; what is written is read back, a refused write changes nothing.
  \<^item> \<open>Nic_Rings\<close>: \<^verbatim>\<open>doorbell.cpp\<close>, \<^verbatim>\<open>descriptor_ring.cpp\<close>, \<^verbatim>\<open>completion_queue.cpp\<close>: both queues refine a bounded FIFO, the
    descriptor ring also when its storage is host memory reached by DMA.
  \<^item> \<open>Nic_Interrupts\<close>: \<^verbatim>\<open>msix.cpp\<close>, \<^verbatim>\<open>interrupt_dispatcher.cpp\<close>: no completion is lost or signalled twice, a masked vector stays
    silent, adaptive thresholds stay in range.
  \<^item> \<open>Nic_Checksum\<close>: \<^verbatim>\<open>checksum.cpp\<close> equals the RFC 1071 checksum and detects changes. \<open>Nic_Rss\<close>: \<^verbatim>\<open>rss.cpp\<close>, the Toeplitz hash
    against its parity definition. \<open>Nic_Flow_Control\<close>: \<^verbatim>\<open>flow_control.cpp\<close>, frames, pause and priority managers, backpressure, EEE.
    \<open>Nic_Error_Injector\<close>: \<^verbatim>\<open>error_injector.cpp\<close>.
  \<^item> \<open>Nic_Queue_Pair\<close>, \<open>Nic_Queue_Manager\<close>: \<^verbatim>\<open>queue_pair.cpp\<close>, \<^verbatim>\<open>queue_manager.cpp\<close>: delivery over the loopback path, every
    transmit descriptor answered once if its completion queue has room, progress, weighted round robin.
  \<^item> \<open>Nic_Sriov\<close>: \<^verbatim>\<open>virtual_function.cpp\<close>, \<^verbatim>\<open>pf_vf_manager.cpp\<close>: isolation of the virtual functions. \<open>Nic_Vf_Device\<close>:
    \<^verbatim>\<open>vf_device.cpp\<close>: the devices of two functions share no queue; their rings accept nothing. \<open>Nic_Mailbox\<close>: \<^verbatim>\<open>mailbox.cpp\<close>,
    \<^verbatim>\<open>admin_queue.cpp\<close>: a request is answered with its sequence number, every message is accounted for, commands are answered in order.
  \<^item> \<open>Nic_Ptp\<close>: \<^verbatim>\<open>ptp_clock.cpp\<close>, \<^verbatim>\<open>ptp_timestamper.cpp\<close>: a tick follows the drift. \<open>Nic_Stats\<close>: \<^verbatim>\<open>stats_collector.cpp\<close>
    refines a log of events. \<open>Nic_Packet_Generator\<close>: \<^verbatim>\<open>packet_generator.cpp\<close>: the checksums of generated frames verify.
  \<^item> \<open>Nic_Registers\<close>: \<^verbatim>\<open>register.cpp\<close>, \<^verbatim>\<open>register_formats.h\<close>: each register is a cell with the rule of its access type.
    \<open>Nic_Config_Space\<close>: \<^verbatim>\<open>config_space.cpp\<close>, \<^verbatim>\<open>bar.h\<close>, \<^verbatim>\<open>capability.h\<close>, \<^verbatim>\<open>pcie_formats.h\<close>: the capability list can be
    walked, the identity cannot be overwritten.
  \<^item> \<open>Nic_Device\<close>: \<^verbatim>\<open>device.cpp\<close>: well-formedness of the whole state, what a reset restores. \<open>Nic_Mmio\<close>: \<^verbatim>\<open>driver/src/mmio_adapter.cpp\<close>: the
    adapter can only reset the device. \<open>Nic_Driver\<close>: \<^verbatim>\<open>driver/src/driver.cpp\<close>: packets sent through the driver arrive.
    \<open>Nic_Router\<close>: \<^verbatim>\<open>driver/src/packet_router.cpp\<close>: what a round hands to each driver, and requests that complete at both drivers.
    \<open>Nic_Echo_Server\<close>: \<^verbatim>\<open>driver/examples/echo_server.cpp\<close>: what the example program reports.
  \<^item> \<open>Rocev2_Types\<close>, \<open>Rocev2_Resources\<close>, \<open>Rocev2_Queue_Pair\<close>, \<open>Rocev2_Packet\<close>: \<^verbatim>\<open>rocev2/types.h\<close>, \<^verbatim>\<open>wqe.h\<close>, \<^verbatim>\<open>cqe.h\<close>,
    \<^verbatim>\<open>completion_queue.cpp\<close>, \<^verbatim>\<open>protection_domain.cpp\<close>, \<^verbatim>\<open>memory_region.cpp\<close>, \<^verbatim>\<open>queue_pair.cpp\<close>, \<^verbatim>\<open>packet.cpp\<close>: key checks, the state
    machine and the order of requests, packet round trip, the invariant CRC.
  \<^item> \<open>Rocev2_Segmentation\<close>, \<open>Rocev2_Send_Recv\<close>, \<open>Rocev2_Write\<close>, \<open>Rocev2_Read\<close>: \<^verbatim>\<open>rocev2/send_recv.cpp\<close>, \<^verbatim>\<open>rdma_write.cpp\<close>,
    \<^verbatim>\<open>rdma_read.cpp\<close>: the packets generated on one side, processed on the other, move exactly the message.
  \<^item> \<open>Rocev2_Reliability\<close>, \<open>Rocev2_Congestion\<close>: \<^verbatim>\<open>rocev2/congestion.cpp\<close>: every request leaves the reliability manager's list once;
    rates stay in range and recover. \<open>Rocev2_Engine\<close>, \<open>Rocev2_End_To_End\<close>, \<open>Rocev2_Remote\<close>: \<^verbatim>\<open>rocev2/engine.cpp\<close>: the tables stay
    consistent, and two engines complete a SEND, a WRITE and a READ; a READ is not taken off the reliability manager's list, so it completes a second time, and
    no request is taken off the queue pair's own list of pending operations.

  \<^bold>\<open>Correspondence.\<close> A class is a record and a method \<open>Class_method\<close> (or the method's name alone) a function that returns the
  new state; \<^verbatim>\<open>uintN_t\<close> is an \<open>N\<close>-bit word, so sums wrap as in C++; \<^verbatim>\<open>size_t\<close> counts of containers are naturals. Callbacks
  (doorbells, interrupt delivery) are logs of the calls in order. Atomics are plain fields: calls are sequential. A
  pointer that may be null is an option or a flag; objects shared by reference (memory, DMA engine, dispatcher) are part of
  the state passed along. Descriptors are read at the offsets of the little-endian 64-bit struct layout. The \<^verbatim>\<open>bit_fields\<close> library is a
  submodule that is not part of the sources: its serializer and deserializer are parameters \<open>ser\<close> and \<open>des\<close>, and
  theorems about packets assume \<open>bit_packer ser des\<close>, which \<open>Bit_Packing\<close> shows satisfiable. A double is a rational that is
  rounded after each operation. In the configuration space and the packet generator the library's writer and reader and its header formats are a record of functions with
  the laws \<open>le_bits\<close> and \<open>net_formats\<close>, which have instances too; the random generator of a payload pattern is a parameter. Drivers that the router
  points to are indices into the drivers of the program.

  \<^bold>\<open>Interfaces.\<close> The locales are \<open>bounded_fifo\<close> (descriptor ring, completion queues), \<open>memory_port\<close> (host memory), \<open>bit_packer\<close>, \<open>le_bits\<close> and \<open>net_formats\<close> (bit
  field library), \<open>rounding\<close> (doubles), and \<open>packet_processor\<close>, the contract between the RDMA engine and its SEND, WRITE and READ response processors.

  \<^bold>\<open>Bounds.\<close> Every loop is structural or has a termination proof, so no fuel is used. The RDMA delivery theorems ask that the message
  and one MTU together fit 32 bits (the length fields are 32-bit), that queue pair numbers fit the 24-bit header
  field, and that the target buffers lie in memory without address translation; order and exactly-once theorems over counters ask
  for fewer than \<open>2 ^ 32\<close> calls or keys, before the counters wrap. The recovery theorem asks for an initial rate of at most \<open>2 ^ 53\<close>.

  \<^bold>\<open>Not modelled.\<close> Tracing, logging, version numbers and text summaries (no effect on the state); threads (each object is used from one
  thread, and atomics are plain fields); the formatting of the console output of the example program.
\<close>

section \<open>Two engines\<close>

text \<open>C2: a send completes at both ends. An engine with a queue pair ready to send, no other request outstanding and a readable
  local buffer posts a SEND; the packets it queues go into a second engine whose queue pair is the peer, expects
  the sender's sequence number and has a receive request posted with enough room. Then posting succeeds; the second
  engine's memory holds the message in the request's scatter list and nothing else has changed; its receive
  completion queue gained exactly the completion of that request; and the last packet it queued, given back
  to the first engine, adds exactly the completion of the posted request to the send completion queue and leaves
  the reliability manager no request of the queue pair. The queue pair's own list of pending operations still ends with the request, since the engine
  does not hand acknowledgements to the queue pair; notification packets for the peer may also be left in the first engine's queue.\<close>

theorem rdma_send_end_to_end:
  assumes packer: "bit_packer ser des"
    and a: "enabled a" "um_lookup (qps a) i = Some qa" "qp_number qa = i" "dest_qp_number qa = j" "RdmaQueuePair_can_send qa"
      "psn_ok (sq_psn qa)" "ops_of (reliability_manager a) i = []" "outgoing_packets a = []"
      "um_lookup (cqs a) (send_cq_number (qp_config qa)) = Some sa" "length (cqes sa) < cq_depth sa"
    and op: "swqe_opcode wqe \<in> {WqSend, WqSendImm}"
    and data: "fst (read_from_sgl (eng_memory a) (swqe_sgl wqe) (local_lkey wqe) (mr_table a)) = data"
    and len: "length data = unat (swqe_total_length wqe)"
    and size: "unat (swqe_total_length wqe) + unat (RdmaQueuePair_mtu_bytes qa) \<le> 2 ^ 32"
    and b: "enabled b" "um_lookup (qps b) j = Some qb" "qp_number qb = j" "dest_qp_number qb = i" "RdmaQueuePair_can_receive qb"
      "rq_psn qb = sq_psn qa" "recv_queue qb = r # rest" "sgl_target None (rwqe_sgl r) (eng_memory b) (mr_table b)"
      "length data \<le> length (sgl_bytes (rwqe_sgl r))"
      "um_lookup (cqs b) (recv_cq_number (qp_config qb)) = Some rb" "length (cqes rb) < cq_depth rb"
    and numbers: "unat i < 2 ^ 24" "unat j < 2 ^ 24"
    and post: "RdmaEngine_post_send ser a i wqe = (ok, a1)"
    and there: "b1 = receive_all ser des (map out_data (outgoing_packets a1)) b"
    and return: "a2 = snd (process_incoming_packet ser des a1 (out_data (List.last (outgoing_packets b1))))"
  shows "ok \<and>
    eng_memory b1 = (eng_memory b)\<lparr>mem_buffer :=
      poke (take (length data) (sgl_bytes (rwqe_sgl r))) data (mem_buffer (eng_memory b))\<rparr> \<and>
    (\<exists>cq. um_lookup (cqs b1) (recv_cq_number (qp_config qb)) = Some cq \<and>
      cqes cq = cqes rb @ [recv_cqe j wqe (swqe_opcode wqe = WqSendImm) r]) \<and>
    (\<exists>cq. um_lookup (cqs a2) (send_cq_number (qp_config qa)) = Some cq \<and> cqes cq = cqes sa @ [send_cqe i (swqe_wr_id wqe)]) \<and>
    ops_of (reliability_manager a2) i = [] \<and>
    (\<exists>q. um_lookup (qps a2) i = Some q \<and> map po_wqe (pending_operations q) = map po_wqe (pending_operations qa) @ [wqe])"
proof -
  from send_completes [OF packer a op data len size b numbers post] obtain packets cs psn where
    r: "ok" "outgoing_packets a1 = map (packet_to qa) packets"
      "outgoing_packets (receive_all ser des packets b) = outgoing_packets b @ cs @ [ack_packet ser qb psn asAck]"
      "eng_memory (receive_all ser des packets b) = (eng_memory b)\<lparr>mem_buffer :=
        poke (take (length data) (sgl_bytes (rwqe_sgl r))) data (mem_buffer (eng_memory b))\<rparr>"
      "\<exists>cq. um_lookup (cqs (receive_all ser des packets b)) (recv_cq_number (qp_config qb)) = Some cq \<and>
        cqes cq = cqes rb @ [recv_cqe j wqe (swqe_opcode wqe = WqSendImm) r]"
    and acked: "\<forall>us. (\<forall>u \<in> set us. is_cnp des u) \<longrightarrow> (let a2 = receive_all ser des (us @ [out_data (ack_packet ser qb psn asAck)]) a1 in
       request_done i qa sa wqe a2)" by blast
  have b1: "b1 = receive_all ser des packets b" by (simp add: there r(2) o_def)
  have "List.last (outgoing_packets b1) = ack_packet ser qb psn asAck" by (simp add: b1 r(3))
  then have "a2 = receive_all ser des ([] @ [out_data (ack_packet ser qb psn asAck)]) a1" by (simp add: return receive_all_def)
  with acked have "request_done i qa sa wqe a2"
    by (metis (no_types, lifting) empty_iff list.set(1))
  with r(1, 4, 5) show ?thesis unfolding b1 by blast
qed

theorem rdma_send_end_to_end_witness:
  "\<exists>a1 b1 a2 cqa cqb. RdmaEngine_post_send msb_ser (sample_engine [] [0, 1, 2, 3, 4, 5, 6, 7, 8, 9, 10, 11]) 1 sample_send_req = (True, a1) \<and>
     b1 = receive_all msb_ser msb_des (map out_data (outgoing_packets a1)) (sample_engine [] [0, 0, 0, 0, 0, 0, 0, 0, 0, 0, 0, 0]) \<and>
     a2 = snd (process_incoming_packet msb_ser msb_des a1 (out_data (List.last (outgoing_packets b1)))) \<and>
     mem_buffer (eng_memory b1) = [0, 0, 0, 0, 5, 6, 0, 0, 7, 0, 0, 0] \<and>
     um_lookup (cqs b1) 0 = Some cqb \<and> map cqe_wr_id (cqes cqb) = [77] \<and>
     um_lookup (cqs a2) 0 = Some cqa \<and> map cqe_wr_id (cqes cqa) = [5]"
proof -
  obtain ok a1 where post: "RdmaEngine_post_send msb_ser (sample_engine [] [0, 1, 2, 3, 4, 5, 6, 7, 8, 9, 10, 11]) 1 sample_send_req = (ok, a1)"
    by (metis surj_pair)
  note all = rdma_send_end_to_end [OF msb.bit_packer_axioms sample_engine_fields(1,2) sample_qp_fields(1-4) sample_engine_fields(3,4) sample_cqs(1)
      sample_room(1) sample_request(1) sample_buffers(1) sample_request(2,3) sample_engine_fields(1,2) [where ip = "[]"] sample_qp_fields(1,2,5-7)
      sample_buffers(2) sample_room(2) sample_cqs(2) sample_room(1) sample_room(4,4) post refl refl,
      unfolded sample_buffers(3) sample_engine_fields(6) sample_room(3) sample_qp_fields(8,9) sample_request(4)]
  then show ?thesis
    using post by (auto simp: recv_cqe_def send_cqe_def sample_recv_def sample_memory_def)
qed

end
